(* ===== verification/Base.thy ===== *)
theory Base
  imports Main "HOL-Library.Char_ord" "HOL-Library.List_Lexorder" "HOL-Library.Product_Lexorder"
begin

text \<open>
  What the components share: results with errors, checked machine integers, the string
  operations of the Rust standard library, ordered maps, and lemmas on lists.

  A Rust \<open>String\<close> is a \<open>string\<close> whose characters are Unicode scalar values. The type
  \<open>char\<close> holds U+0000 to U+00FF, so the development ranges over strings of the Latin-1
  block; on it the standard library's lower-casing, whitespace and ordering are exactly the
  functions below (the lower case of a Latin-1 letter is again a single Latin-1 letter, the
  byte order of UTF-8 is the order of code points).
\<close>

named_theorems res_simps \<open>unfolding the result monad\<close>
named_theorems str_simps \<open>evaluation of string operations\<close>

section \<open>Results\<close>

definition res_bind :: "'e + 'a \<Rightarrow> ('a \<Rightarrow> 'e + 'b) \<Rightarrow> 'e + 'b" where
  "res_bind m f = (case m of Inl e \<Rightarrow> Inl e | Inr x \<Rightarrow> f x)"

lemma res_bind_Inl [simp]: "res_bind (Inl e) f = Inl e"
  by (simp add: res_bind_def)

lemma res_bind_Inr [simp]: "res_bind (Inr x) f = f x"
  by (simp add: res_bind_def)

lemma res_bind_eq_Inr [res_simps]:
  "res_bind m f = Inr y \<longleftrightarrow> (\<exists>x. m = Inr x \<and> f x = Inr y)"
  by (cases m) auto

lemma res_bind_eq_Inl [res_simps]:
  "res_bind m f = Inl e \<longleftrightarrow> m = Inl e \<or> (\<exists>x. m = Inr x \<and> f x = Inl e)"
  by (cases m) auto

lemma guard_eq_Inr [res_simps]: "(if c then Inl e else x) = Inr y \<longleftrightarrow> \<not> c \<and> x = Inr y"
  by simp

lemma case_sum_eq_Inr: "(case x of Inl a \<Rightarrow> f a | Inr b \<Rightarrow> g b) = Inr y \<longleftrightarrow>
    (\<exists>a. x = Inl a \<and> f a = Inr y) \<or> (\<exists>b. x = Inr b \<and> g b = Inr y)"
  by (cases x) auto

lemma case_option_eq_Inr: "(case x of None \<Rightarrow> f | Some a \<Rightarrow> g a) = Inr y \<longleftrightarrow> x = None \<and> f = Inr y \<or> (\<exists>a. x = Some a \<and> g a = Inr y)"
  by (cases x) auto

definition ensure :: "bool \<Rightarrow> 'e \<Rightarrow> 'e + unit" where
  "ensure b e = (if b then Inr () else Inl e)"

lemma ensure_eq_Inr [res_simps]: "ensure b e = Inr u \<longleftrightarrow> b"
  by (simp add: ensure_def)

lemma ensure_eq_Inl [res_simps]: "ensure b e = Inl e' \<longleftrightarrow> \<not> b \<and> e' = e"
  by (auto simp: ensure_def)

lemma ensure_True [simp]: "ensure True e = Inr ()"
  by (simp add: ensure_def)

lemma ensure_False [simp]: "ensure False e = Inl e"
  by (simp add: ensure_def)

definition ok_or :: "'a option \<Rightarrow> 'e \<Rightarrow> 'e + 'a" where
  "ok_or v e = (case v of None \<Rightarrow> Inl e | Some x \<Rightarrow> Inr x)"

lemma ok_or_simps [simp]: "ok_or None e = Inl e" "ok_or (Some x) e = Inr x"
  by (simp_all add: ok_or_def)

lemma ok_or_eq_Inr [res_simps]: "ok_or v e = Inr x \<longleftrightarrow> v = Some x"
  by (cases v) auto

lemma ok_or_eq_Inl [res_simps]: "ok_or v e = Inl e' \<longleftrightarrow> v = None \<and> e' = e"
  by (cases v) auto

text \<open>A loop that stops at the first error, and the collecting form of it.\<close>

fun res_fold :: "('s \<Rightarrow> 'a \<Rightarrow> 'e + 's) \<Rightarrow> 's \<Rightarrow> 'a list \<Rightarrow> 'e + 's" where
  "res_fold f s [] = Inr s"
| "res_fold f s (x # xs) = res_bind (f s x) (\<lambda>s'. res_fold f s' xs)"

fun res_map :: "('a \<Rightarrow> 'e + 'b) \<Rightarrow> 'a list \<Rightarrow> 'e + 'b list" where
  "res_map f [] = Inr []"
| "res_map f (x # xs) = res_bind (f x) (\<lambda>y. res_bind (res_map f xs) (\<lambda>ys. Inr (y # ys)))"

lemma res_fold_append:
  "res_fold f s (xs @ ys) = res_bind (res_fold f s xs) (\<lambda>s'. res_fold f s' ys)"
proof (induction xs arbitrary: s)
  case Nil
  show ?case by simp
next
  case (Cons x xs)
  then show ?case by (cases "f s x") simp_all
qed

lemma res_map_Inr_map: "(\<And>x. x \<in> set xs \<Longrightarrow> f x = Inr (g x)) \<Longrightarrow> res_map f xs = Inr (map g xs)"
  by (induction xs) auto

lemma res_map_eq_Inr_D: "res_map f xs = Inr ys \<Longrightarrow> x \<in> set xs \<Longrightarrow> \<exists>y. f x = Inr y"
  by (induction xs arbitrary: ys) (auto simp: res_bind_eq_Inr)

section \<open>Machine integers\<close>

text \<open>
  An unsigned 64-bit quantity is a \<open>nat\<close>; the operations the code checks are the checked
  ones below, so that every overflow branch of the source is a branch of the model.
\<close>

definition u64_max :: nat where
  "u64_max = 2 ^ 64 - 1"

definition checked_add :: "nat \<Rightarrow> nat \<Rightarrow> nat option" where
  "checked_add a b = (if a + b \<le> u64_max then Some (a + b) else None)"

definition checked_sub :: "nat \<Rightarrow> nat \<Rightarrow> nat option" where
  "checked_sub a b = (if b \<le> a then Some (a - b) else None)"

lemma checked_add_Some [simp]: "checked_add a b = Some c \<longleftrightarrow> c = a + b \<and> a + b \<le> u64_max"
  by (auto simp: checked_add_def)

lemma checked_add_None [simp]: "checked_add a b = None \<longleftrightarrow> u64_max < a + b"
  by (auto simp: checked_add_def)

lemma checked_sub_Some [simp]: "checked_sub a b = Some c \<longleftrightarrow> b \<le> a \<and> c = a - b"
  by (auto simp: checked_sub_def)

lemma checked_sub_None [simp]: "checked_sub a b = None \<longleftrightarrow> a < b"
  by (auto simp: checked_sub_def)

text \<open>\<open>try_fold(0u64, checked_add)\<close> over the elements of a vector.\<close>

fun checked_sum :: "nat \<Rightarrow> nat list \<Rightarrow> nat option" where
  "checked_sum t [] = Some t"
| "checked_sum t (x # xs) = (case checked_add t x of None \<Rightarrow> None | Some t' \<Rightarrow> checked_sum t' xs)"

lemma checked_sum_Some:
  "t \<le> u64_max \<Longrightarrow> checked_sum t xs = Some r \<longleftrightarrow> r = t + sum_list xs \<and> t + sum_list xs \<le> u64_max"
proof (induction xs arbitrary: t)
  case Nil
  then show ?case by auto
next
  case (Cons x xs)
  show ?case
  proof (cases "t + x \<le> u64_max")
    case True
    then show ?thesis using Cons.IH[of "t + x"]
      by (auto simp: checked_add_def add.assoc)
  next
    case False
    then show ?thesis by (auto simp: checked_add_def)
  qed
qed

lemma checked_sum_zero:
  "checked_sum 0 xs = (if sum_list xs \<le> u64_max then Some (sum_list xs) else None)"
proof (cases "checked_sum 0 xs")
  case None
  then have "\<not> sum_list xs \<le> u64_max" using checked_sum_Some[of 0 xs "sum_list xs"] by auto
  with None show ?thesis by simp
next
  case (Some r)
  then show ?thesis using checked_sum_Some[of 0 xs r] by simp
qed

section \<open>Strings\<close>

definition lower_char :: "char \<Rightarrow> char" where
  "lower_char c = (let n = (of_char c :: nat) in
     if 65 \<le> n \<and> n \<le> 90 \<or> 192 \<le> n \<and> n \<le> 222 \<and> n \<noteq> 215 then char_of (n + 32) else c)"

definition to_lower :: "string \<Rightarrow> string" where
  "to_lower s = map lower_char s"

definition ascii_digit :: "char \<Rightarrow> bool" where
  "ascii_digit c = (let n = (of_char c :: nat) in 48 \<le> n \<and> n \<le> 57)"

definition ascii_alnum :: "char \<Rightarrow> bool" where
  "ascii_alnum c = (let n = (of_char c :: nat) in
     48 \<le> n \<and> n \<le> 57 \<or> 65 \<le> n \<and> n \<le> 90 \<or> 97 \<le> n \<and> n \<le> 122)"

definition is_ws :: "char \<Rightarrow> bool" where
  "is_ws c = (let n = (of_char c :: nat) in 9 \<le> n \<and> n \<le> 13 \<or> n = 32 \<or> n = 133 \<or> n = 160)"

definition trim :: "string \<Rightarrow> string" where
  "trim s = rev (dropWhile is_ws (rev (dropWhile is_ws s)))"

text \<open>\<open>split\<close> on the characters satisfying a predicate: one more piece than separators.\<close>

fun split_on :: "('a \<Rightarrow> bool) \<Rightarrow> 'a list \<Rightarrow> 'a list list" where
  "split_on p [] = [[]]"
| "split_on p (x # xs) =
     (if p x then [] # split_on p xs
      else (case split_on p xs of [] \<Rightarrow> [[x]] | w # ws \<Rightarrow> (x # w) # ws))"

definition split_whitespace :: "string \<Rightarrow> string list" where
  "split_whitespace s = filter (\<lambda>w. w \<noteq> []) (split_on is_ws s)"

fun join :: "'a list \<Rightarrow> 'a list list \<Rightarrow> 'a list" where
  "join sep [] = []"
| "join sep [x] = x"
| "join sep (x # y # zs) = x @ sep @ join sep (y # zs)"

definition starts_with :: "'a list \<Rightarrow> 'a list \<Rightarrow> bool" where
  "starts_with s p = (take (length p) s = p)"

definition ends_with :: "'a list \<Rightarrow> 'a list \<Rightarrow> bool" where
  "ends_with s p = starts_with (rev s) (rev p)"

text \<open>\<open>str::find\<close>: the position of the first occurrence.\<close>

fun find_sub :: "'a list \<Rightarrow> 'a list \<Rightarrow> nat option" where
  "find_sub [] p = (if p = [] then Some 0 else None)"
| "find_sub (c # cs) p =
     (if starts_with (c # cs) p then Some 0 else map_option Suc (find_sub cs p))"

definition contains :: "'a list \<Rightarrow> 'a list \<Rightarrow> bool" where
  "contains s p = (find_sub s p \<noteq> None)"

fun split_once :: "char \<Rightarrow> string \<Rightarrow> (string \<times> string) option" where
  "split_once d [] = None"
| "split_once d (c # cs) =
     (if c = d then Some ([], cs)
      else map_option (\<lambda>(a, b). (c # a, b)) (split_once d cs))"

definition rsplit_once :: "char \<Rightarrow> string \<Rightarrow> (string \<times> string) option" where
  "rsplit_once d s = map_option (\<lambda>(a, b). (rev b, rev a)) (split_once d (rev s))"

text \<open>Bytes of the UTF-8 encoding of a Latin-1 string, and the decimal rendering of a number.\<close>

definition byte_len :: "string \<Rightarrow> nat" where
  "byte_len s = sum_list (map (\<lambda>c. if (of_char c :: nat) < 128 then 1 else 2) s)"

fun dec :: "nat \<Rightarrow> string" where
  "dec n = (if n < 10 then [char_of (48 + n)] else dec (n div 10) @ [char_of (48 + n mod 10)])"

declare dec.simps [simp del]

definition dec_int :: "int \<Rightarrow> string" where
  "dec_int i = (if i < 0 then CHR ''-'' # dec (nat (- i)) else dec (nat i))"

text \<open>A string between apostrophes, as the messages print it.\<close>

definition quoted :: "string \<Rightarrow> string" where
  "quoted s = CHR 0x27 # s @ [CHR 0x27]"

subsection \<open>Lemmas on strings\<close>

text \<open>Evaluation of a character given by its code, when it is compared.\<close>

lemma eq_char_of [str_simps]: "c = char_of (n :: nat) \<longleftrightarrow> of_char c = n mod 256"
  and char_of_eq [str_simps]: "char_of (n :: nat) = c \<longleftrightarrow> of_char c = n mod 256"
  by (metis char_of_eq_iff take_bit_eq_mod one_add_one power_numeral_even of_char_mod_256
      char_of_char of_char_of)+

lemma split_on_not_Nil [simp]: "split_on p xs \<noteq> []"
  by (induction xs) (auto split: list.splits)

lemma split_on_no_sep: "\<forall>x \<in> set xs. \<not> p x \<Longrightarrow> split_on p xs = [xs]"
  by (induction xs) auto

lemma split_on_append_sep: "p x \<Longrightarrow> split_on p (xs @ x # ys) = split_on p xs @ split_on p ys"
  by (induction xs) (auto split: list.splits)

lemma split_on_pieces: "w \<in> set (split_on p xs) \<Longrightarrow> x \<in> set w \<Longrightarrow> x \<in> set xs \<and> \<not> p x"
proof (induction xs arbitrary: w)
  case Nil
  then show ?case by simp
next
  case (Cons a xs)
  show ?case
  proof (cases "p a")
    case True
    with Cons show ?thesis by auto
  next
    case False
    obtain v vs where v: "split_on p xs = v # vs" by (cases "split_on p xs") auto
    with Cons.prems False have "w = a # v \<or> w \<in> set vs" by auto
    with Cons.prems(2) False v Cons.IH[of v] Cons.IH[of w] show ?thesis by auto
  qed
qed

lemma split_on_hd_prefix: "\<exists>r. xs = hd (split_on p xs) @ r \<and> (r = [] \<or> p (hd r))"
proof (induction xs)
  case Nil
  show ?case by simp
next
  case (Cons x xs)
  then obtain r where r: "xs = hd (split_on p xs) @ r" "r = [] \<or> p (hd r)" by blast
  show ?case
  proof (cases "p x")
    case True
    then show ?thesis by (intro exI[of _ "x # xs"]) simp
  next
    case False
    with r show ?thesis by (intro exI[of _ r]) (auto split: list.splits)
  qed
qed

lemma split_on_filter_length: "length (split_on p xs) = Suc (length (filter p xs))"
  by (induction xs) (auto split: list.splits)

lemma starts_with_iff: "starts_with s p \<longleftrightarrow> (\<exists>r. s = p @ r)"
  unfolding starts_with_def
  by (metis append_eq_conv_conj append_take_drop_id)

lemma ends_with_iff: "ends_with s p \<longleftrightarrow> (\<exists>r. s = r @ p)"
proof
  assume "ends_with s p"
  then obtain r where "rev s = rev p @ r" by (auto simp: ends_with_def starts_with_iff)
  then have "s = rev r @ p" by (metis rev_append rev_rev_ident)
  then show "\<exists>r. s = r @ p" ..
qed (auto simp: ends_with_def starts_with_iff)

lemma starts_with_refl [simp]: "starts_with s s"
  by (simp add: starts_with_def)

lemma starts_with_Nil [simp]: "starts_with s []"
  by (simp add: starts_with_def)

lemma find_sub_Some_D: "find_sub s p = Some i \<Longrightarrow> \<exists>a b. s = a @ p @ b \<and> length a = i"
proof (induction s p arbitrary: i rule: find_sub.induct)
  case (1 p)
  then show ?case by (auto split: if_splits)
next
  case (2 c cs p)
  show ?case
  proof (cases "starts_with (c # cs) p")
    case True
    with "2.prems" show ?thesis by (auto simp: starts_with_iff)
  next
    case False
    with "2.prems" obtain j where j: "find_sub cs p = Some j" "i = Suc j" by auto
    from "2.IH"[OF False j(1)] obtain a b where "cs = a @ p @ b" "length a = j" by blast
    with j(2) have "c # cs = (c # a) @ p @ b \<and> length (c # a) = i" by simp
    then show ?thesis by blast
  qed
qed

lemma find_sub_first: "s = a @ p @ b \<Longrightarrow> \<exists>i. find_sub s p = Some i \<and> i \<le> length a"
proof (induction s p arbitrary: a rule: find_sub.induct)
  case (1 p)
  then show ?case by auto
next
  case (2 c cs p)
  show ?case
  proof (cases "starts_with (c # cs) p")
    case True
    then show ?thesis by simp
  next
    case False
    with "2.prems" obtain a' where a': "a = c # a'" "cs = a' @ p @ b"
      by (cases a) (auto simp: starts_with_iff)
    from "2.IH"[OF False a'(2)] obtain i where "find_sub cs p = Some i" "i \<le> length a'" by blast
    with False a'(1) show ?thesis by simp
  qed
qed

lemma find_sub_None_iff: "find_sub s p = None \<longleftrightarrow> \<not> (\<exists>a b. s = a @ p @ b)"
  using find_sub_Some_D find_sub_first by (metis not_None_eq option.distinct(1))

lemma contains_iff: "contains s p \<longleftrightarrow> (\<exists>a b. s = a @ p @ b)"
  using find_sub_None_iff[of s p] by (auto simp: contains_def)

lemma split_once_None: "split_once d s = None \<longleftrightarrow> d \<notin> set s"
  by (induction s) auto

lemma split_once_Some: "split_once d s = Some (a, b) \<longleftrightarrow> s = a @ d # b \<and> d \<notin> set a"
proof (induction s arbitrary: a)
  case Nil
  show ?case by simp
next
  case (Cons c cs)
  show ?case
  proof (cases "c = d")
    case True
    then show ?thesis by (cases a) auto
  next
    case False
    then show ?thesis using Cons.IH by (cases a) auto
  qed
qed

lemma rsplit_once_None: "rsplit_once d s = None \<longleftrightarrow> d \<notin> set s"
  by (simp add: rsplit_once_def split_once_None)

lemma rsplit_once_Some: "rsplit_once d s = Some (a, b) \<longleftrightarrow> s = a @ d # b \<and> d \<notin> set b"
proof
  assume "rsplit_once d s = Some (a, b)"
  then have "split_once d (rev s) = Some (rev b, rev a)"
    by (auto simp: rsplit_once_def)
  then have r: "rev s = rev b @ d # rev a" and d: "d \<notin> set b" by (auto simp: split_once_Some)
  from r have "s = rev (rev b @ d # rev a)" by (metis rev_rev_ident)
  with d show "s = a @ d # b \<and> d \<notin> set b" by simp
next
  assume "s = a @ d # b \<and> d \<notin> set b"
  then have "split_once d (rev s) = Some (rev b, rev a)" by (simp add: split_once_Some)
  then show "rsplit_once d s = Some (a, b)" by (simp add: rsplit_once_def)
qed

lemma dropWhile_idem_hd: "(xs = [] \<or> \<not> p (hd xs)) \<Longrightarrow> dropWhile p xs = xs"
  by (cases xs) auto

lemma trim_id: "(s = [] \<or> \<not> is_ws (hd s) \<and> \<not> is_ws (last s)) \<Longrightarrow> trim s = s"
  by (auto simp: trim_def dropWhile_idem_hd hd_rev)

lemma trim_shape: "trim s = [] \<or> \<not> is_ws (hd (trim s)) \<and> \<not> is_ws (last (trim s))"
proof (cases "trim s = []")
  case False
  let ?t = "dropWhile is_ws s"
  have ne: "dropWhile is_ws (rev ?t) \<noteq> []" using False by (simp add: trim_def)
  then have l: "\<not> is_ws (hd (dropWhile is_ws (rev ?t)))" by (rule hd_dropWhile)
  obtain u where u: "rev ?t = u @ dropWhile is_ws (rev ?t)"
    by (metis takeWhile_dropWhile_id)
  then have t: "?t = trim s @ rev u" by (metis rev_append rev_rev_ident trim_def)
  then have "?t \<noteq> []" "hd ?t = hd (trim s)" using False by auto
  moreover have "\<not> is_ws (hd ?t)" using \<open>?t \<noteq> []\<close> by (rule hd_dropWhile)
  moreover have "last (trim s) = hd (dropWhile is_ws (rev ?t))"
    using ne by (simp add: trim_def last_rev)
  ultimately show ?thesis using l by simp
qed simp

lemma trim_trim [simp]: "trim (trim s) = trim s"
  using trim_shape by (rule trim_id)

lemma set_trim: "set (trim s) \<subseteq> set s"
  by (auto simp: trim_def dest!: set_dropWhileD)

section \<open>Lists\<close>

lemma set_map_filter: "set (List.map_filter f xs) = {y. \<exists>x \<in> set xs. f x = Some y}"
  by (force simp: List.map_filter_def)

lemma map_filter_Cons: "List.map_filter f (x # xs) =
    (case f x of None \<Rightarrow> List.map_filter f xs | Some y \<Rightarrow> y # List.map_filter f xs)"
  by (simp add: List.map_filter_def split: option.splits)

lemma find_rev_Some: "find P (rev xs) = Some x \<longleftrightarrow>
    (\<exists>ys zs. xs = ys @ x # zs \<and> P x \<and> (\<forall>z \<in> set zs. \<not> P z))"
proof (induction xs rule: rev_induct)
  case Nil
  then show ?case by simp
next
  case (snoc a xs)
  show ?case
  proof (cases "P a")
    case True
    then have "find P (rev (xs @ [a])) = Some x \<longleftrightarrow> x = a" by auto
    also have "\<dots> \<longleftrightarrow> (\<exists>ys zs. xs @ [a] = ys @ x # zs \<and> P x \<and> (\<forall>z \<in> set zs. \<not> P z))"
    proof
      assume "x = a"
      then show "\<exists>ys zs. xs @ [a] = ys @ x # zs \<and> P x \<and> (\<forall>z \<in> set zs. \<not> P z)"
        using True by (intro exI[of _ xs] exI[of _ "[]"]) simp
    next
      assume "\<exists>ys zs. xs @ [a] = ys @ x # zs \<and> P x \<and> (\<forall>z \<in> set zs. \<not> P z)"
      then obtain ys zs where e: "xs @ [a] = ys @ x # zs" and n: "\<forall>z \<in> set zs. \<not> P z" by blast
      show "x = a"
      proof (cases zs rule: rev_cases)
        case Nil
        with e show ?thesis by simp
      next
        case (snoc zs' z)
        with e have "z = a" by (metis append_Cons append_assoc last_snoc)
        with n snoc True show ?thesis by simp
      qed
    qed
    finally show ?thesis .
  next
    case False
    have "(\<exists>ys zs. xs @ [a] = ys @ x # zs \<and> P x \<and> (\<forall>z \<in> set zs. \<not> P z)) \<longleftrightarrow>
        (\<exists>ys zs. xs = ys @ x # zs \<and> P x \<and> (\<forall>z \<in> set zs. \<not> P z))"
    proof
      assume "\<exists>ys zs. xs @ [a] = ys @ x # zs \<and> P x \<and> (\<forall>z \<in> set zs. \<not> P z)"
      then obtain ys zs where e: "xs @ [a] = ys @ x # zs" "P x" "\<forall>z \<in> set zs. \<not> P z" by blast
      from e(1,2) False have "zs \<noteq> []" by auto
      then obtain zs' z where z: "zs = zs' @ [z]" by (cases zs rule: rev_cases) auto
      with e(1) have "xs = ys @ x # zs'" by simp
      then show "\<exists>ys zs. xs = ys @ x # zs \<and> P x \<and> (\<forall>z \<in> set zs. \<not> P z)" using e(2,3) z by auto
    next
      assume "\<exists>ys zs. xs = ys @ x # zs \<and> P x \<and> (\<forall>z \<in> set zs. \<not> P z)"
      then obtain ys zs where "xs = ys @ x # zs" "P x" "\<forall>z \<in> set zs. \<not> P z" by blast
      then show "\<exists>ys zs. xs @ [a] = ys @ x # zs \<and> P x \<and> (\<forall>z \<in> set zs. \<not> P z)"
        using False by (intro exI[of _ ys] exI[of _ "zs @ [a]"]) simp
    qed
    then show ?thesis using snoc.IH False by simp
  qed
qed

lemma find_None_iff': "find P xs = None \<longleftrightarrow> (\<forall>x \<in> set xs. \<not> P x)"
  by (auto simp: find_None_iff)

section \<open>Ordered maps\<close>

text \<open>
  A \<open>BTreeMap\<close> is an association list sorted by key: iteration is the list's order, and
  \<open>insert\<close> replaces the value of a present key.
\<close>

fun bt_insert :: "'k::linorder \<Rightarrow> 'v \<Rightarrow> ('k \<times> 'v) list \<Rightarrow> ('k \<times> 'v) list" where
  "bt_insert k v [] = [(k, v)]"
| "bt_insert k v ((k', v') # m) =
     (if k < k' then (k, v) # (k', v') # m
      else if k = k' then (k, v) # m
      else (k', v') # bt_insert k v m)"

definition bt_remove :: "'k \<Rightarrow> ('k \<times> 'v) list \<Rightarrow> ('k \<times> 'v) list" where
  "bt_remove k m = filter (\<lambda>(k', v). k' \<noteq> k) m"

text \<open>\<open>entry(k).or_default().push(x)\<close> on a map of vectors.\<close>

definition bt_push :: "'k::linorder \<Rightarrow> 'v \<Rightarrow> ('k \<times> 'v list) list \<Rightarrow> ('k \<times> 'v list) list" where
  "bt_push k x m = bt_insert k ((case map_of m k of None \<Rightarrow> [] | Some xs \<Rightarrow> xs) @ [x]) m"

definition bt_sorted :: "('k::linorder \<times> 'v) list \<Rightarrow> bool" where
  "bt_sorted m = sorted_wrt (<) (map fst m)"

lemma map_of_bt_insert [simp]: "map_of (bt_insert k v m) = (map_of m)(k \<mapsto> v)"
  by (induction m) auto

lemma bt_insert_inject [simp]: "bt_insert k v m = bt_insert k w m \<longleftrightarrow> v = w"
  by (metis fun_upd_same map_of_bt_insert option.inject)

lemma keys_bt_insert [simp]: "fst ` set (bt_insert k v m) = insert k (fst ` set m)"
  by (simp flip: dom_map_of_conv_image_fst)

lemma bt_sorted_insert [simp]: "bt_sorted m \<Longrightarrow> bt_sorted (bt_insert k v m)"
proof (induction m)
  case Nil
  then show ?case by (simp add: bt_sorted_def)
next
  case (Cons a m)
  obtain k' v' where a: "a = (k', v')" by force
  from Cons.prems have *: "bt_sorted m" "\<forall>x \<in> fst ` set m. k' < x"
    by (auto simp: bt_sorted_def a)
  with Cons.IH have "bt_sorted (bt_insert k v m)" by simp
  moreover have "k' < k \<Longrightarrow> \<forall>x \<in> fst ` set (bt_insert k v m). k' < x" using *(2) by simp
  ultimately show ?case using * by (auto simp: bt_sorted_def a)
qed

lemma bt_sorted_Nil [simp]: "bt_sorted []"
  by (simp add: bt_sorted_def)

lemma bt_sorted_distinct: "bt_sorted m \<Longrightarrow> distinct (map fst m)"
  by (simp add: bt_sorted_def strict_sorted_iff)

lemma map_of_bt_remove: "map_of (bt_remove k m) = (map_of m)(k := None)"
proof
  fix x
  show "map_of (bt_remove k m) x = ((map_of m)(k := None)) x"
    by (induction m) (auto simp: bt_remove_def)
qed

lemma bt_sorted_remove: "bt_sorted m \<Longrightarrow> bt_sorted (bt_remove k m)"
proof (induction m)
  case (Cons a m)
  then have "bt_sorted m" "\<forall>x \<in> fst ` set m. fst a < x" by (auto simp: bt_sorted_def)
  then have "bt_sorted (bt_remove k m)" "\<forall>x \<in> fst ` set (bt_remove k m). fst a < x"
    using Cons.IH by (auto simp: bt_remove_def)
  then show ?case by (cases a) (auto simp: bt_sorted_def bt_remove_def)
qed (simp add: bt_remove_def)

lemma bt_sorted_eqI:
  assumes "bt_sorted m" "bt_sorted m'" "map_of m = map_of m'"
  shows "m = m'"
proof -
  have d: "distinct (map fst m)" "distinct (map fst m')"
    using assms by (simp_all add: bt_sorted_distinct)
  have "set m = set m'"
    using map_of_eq_Some_iff[OF d(1)] map_of_eq_Some_iff[OF d(2)] assms(3) by force
  then show ?thesis
    using assms(1,2) map_sorted_distinct_set_unique[of fst m m']
    by (simp add: bt_sorted_def strict_sorted_iff distinct_map)
qed

text \<open>Grouping a vector by a key, as the loops with \<open>entry(..).or_default().push(..)\<close> do.\<close>

definition group_by :: "('a \<Rightarrow> 'k::linorder) \<Rightarrow> 'a list \<Rightarrow> ('k \<times> 'a list) list" where
  "group_by f xs = fold (\<lambda>x. bt_push (f x) x) xs []"

lemma group_by_snoc: "group_by f (xs @ [x]) = bt_push (f x) x (group_by f xs)"
  by (simp add: group_by_def)

lemma map_of_group_by: "map_of (group_by f xs) k =
    (let g = filter (\<lambda>x. f x = k) xs in if g = [] then None else Some g)"
proof (induction xs arbitrary: k rule: rev_induct)
  case Nil
  then show ?case by (simp add: group_by_def)
next
  case (snoc x xs)
  then show ?case by (auto simp: group_by_snoc bt_push_def Let_def)
qed

lemma group_by_sorted [simp]: "bt_sorted (group_by f xs)"
proof (induction xs rule: rev_induct)
  case Nil
  show ?case by (simp add: group_by_def)
next
  case (snoc x xs)
  then show ?case by (simp add: group_by_snoc bt_push_def)
qed

lemma group_by_entry: "(k, g) \<in> set (group_by f xs) \<longleftrightarrow> g = filter (\<lambda>x. f x = k) xs \<and> g \<noteq> []"
proof -
  have "(k, g) \<in> set (group_by f xs) \<longleftrightarrow> map_of (group_by f xs) k = Some g"
    using map_of_eq_Some_iff[OF bt_sorted_distinct[OF group_by_sorted]] by metis
  then show ?thesis by (auto simp: map_of_group_by Let_def)
qed

lemma group_by_keys: "map fst (group_by f xs) = sorted_list_of_set (f ` set xs)"
proof -
  have "set (map fst (group_by f xs)) = f ` set xs"
  proof (intro set_eqI iffI)
    fix k assume "k \<in> set (map fst (group_by f xs))"
    then obtain g where "(k, g) \<in> set (group_by f xs)" by auto
    then have "filter (\<lambda>x. f x = k) xs \<noteq> []" by (auto simp: group_by_entry)
    then show "k \<in> f ` set xs" by (auto simp: filter_empty_conv)
  next
    fix k assume "k \<in> f ` set xs"
    then have "(k, filter (\<lambda>x. f x = k) xs) \<in> set (group_by f xs)"
      by (auto simp: group_by_entry filter_empty_conv)
    then show "k \<in> set (map fst (group_by f xs))" by force
  qed
  moreover have "sorted_wrt (<) (map fst (group_by f xs))"
    using group_by_sorted[of f xs] by (simp only: bt_sorted_def)
  ultimately show ?thesis
    by (metis sorted_list_of_set.idem_if_sorted_distinct strict_sorted_iff)
qed

section \<open>The laws a keyed store obeys\<close>

text \<open>
  The interface the components rely on: what a lookup returns after an insertion, and that
  insertions keep the invariant. Its provider here is the ordered map.
\<close>

locale keyed_store =
  fixes put :: "'k \<Rightarrow> 'v \<Rightarrow> 'm \<Rightarrow> 'm"
    and get :: "'m \<Rightarrow> 'k \<Rightarrow> 'v option"
    and ok :: "'m \<Rightarrow> bool"
  assumes get_put: "ok m \<Longrightarrow> get (put k v m) k' = (if k' = k then Some v else get m k')"
    and ok_put: "ok m \<Longrightarrow> ok (put k v m)"
begin

lemma ok_fold: "ok m \<Longrightarrow> ok (fold (\<lambda>x. put (f x) (g x)) xs m)"
  by (induction xs arbitrary: m) (auto simp: ok_put)

text \<open>After a run of insertions the last one for a key wins.\<close>

lemma get_fold:
  "ok m \<Longrightarrow> get (fold (\<lambda>x. put (f x) (g x)) xs m) k =
     (case filter (\<lambda>x. f x = k) xs of [] \<Rightarrow> get m k
      | y # ys \<Rightarrow> Some (g (last (y # ys))))"
proof (induction xs rule: rev_induct)
  case Nil
  then show ?case by simp
next
  case (snoc x xs)
  then show ?case by (auto simp: get_put ok_fold split: list.splits)
qed

lemma get_fold_mem:
  assumes "ok m" "get (fold (\<lambda>x. put (f x) (g x)) xs m) k = Some v"
  shows "get m k = Some v \<or> (\<exists>x \<in> set xs. f x = k \<and> g x = v)"
proof (cases "filter (\<lambda>x. f x = k) xs")
  case Nil
  with assms show ?thesis by (simp add: get_fold)
next
  case (Cons y ys)
  then have "last (y # ys) \<in> set (filter (\<lambda>x. f x = k) xs)" by (metis last_in_set list.distinct(1))
  moreover have "g (last (y # ys)) = v" using assms Cons by (simp add: get_fold)
  ultimately show ?thesis by auto
qed

end

interpretation bt: keyed_store bt_insert map_of bt_sorted
  by unfold_locales auto

end
