(* ===== verification/Kernel_Types.thy ===== *)
theory Kernel_Types
  imports Complex_Main Base
begin

text \<open>
  The domain types of \<open>munarium-core/src/types.rs\<close> and \<open>error.rs\<close>, and the JSON values
  (\<open>serde_json::Value\<close>) the kernel puts into findings and metadata. A finite \<open>f64\<close> is the
  rational it denotes. An object is the sorted map \<open>serde_json\<close> keeps by default.
\<close>

section \<open>JSON values\<close>

type_synonym f64 = rat

datatype json_num = PosInt nat | NegInt int | Float f64

datatype json =
    JNull
  | JBool bool
  | JNum json_num
  | JStr string
  | JArr "json list"
  | JObj "(string \<times> json) list"

text \<open>\<open>Value::get\<close> with a string index: \<open>Some\<close> only for a present key of an object.\<close>

fun jget :: "json \<Rightarrow> string \<Rightarrow> json option" where
  "jget (JObj m) k = map_of m k"
| "jget _ k = None"

fun jas_str :: "json \<Rightarrow> string option" where
  "jas_str (JStr s) = Some s"
| "jas_str _ = None"

text \<open>The object literal of the \<open>json!\<close> macro: keys are inserted in order.\<close>

definition jobj :: "(string \<times> json) list \<Rightarrow> json" where
  "jobj kvs = JObj (fold (\<lambda>(k, v). bt_insert k v) kvs [])"

definition jnat :: "nat \<Rightarrow> json" where
  "jnat n = JNum (PosInt n)"

definition jint :: "int \<Rightarrow> json" where
  "jint i = (if i < 0 then JNum (NegInt i) else JNum (PosInt (nat i)))"

definition jopt :: "('a \<Rightarrow> json) \<Rightarrow> 'a option \<Rightarrow> json" where
  "jopt f v = (case v of None \<Rightarrow> JNull | Some x \<Rightarrow> f x)"

lemma map_of_jobj: "map_of (fold (\<lambda>(k, v). bt_insert k v) kvs m) k =
    (case map_of (rev kvs) k of None \<Rightarrow> map_of m k | Some v \<Rightarrow> Some v)"
  by (induction kvs arbitrary: m) (auto simp: map_add_def split: option.splits)

lemma jget_jobj [simp]: "jget (jobj kvs) k = map_of (rev kvs) k"
  by (simp add: jobj_def map_of_jobj split: option.splits)

section \<open>Enumerations\<close>

type_synonym seq = nat

datatype claim_type = Fact | Update | Correction

datatype claim_status = Accepted | Disputed

datatype provenance = Witnessed | Backfilled | Repaired | Emergent | CoverageRepair

datatype severity = Info | Warn | Block

datatype anchor_status = Locked | Released

datatype promise_status = Open | Fulfilled | Expired | Violated

text \<open>\<open>Severity\<close> derives its order from the order of its variants.\<close>

fun severity_rank :: "severity \<Rightarrow> nat" where
  "severity_rank Info = 0"
| "severity_rank Warn = 1"
| "severity_rank Block = 2"

instantiation severity :: linorder
begin

definition less_eq_severity :: "severity \<Rightarrow> severity \<Rightarrow> bool" where
  "less_eq_severity a b = (severity_rank a \<le> severity_rank b)"

definition less_severity :: "severity \<Rightarrow> severity \<Rightarrow> bool" where
  "less_severity a b = (severity_rank a < severity_rank b)"

instance
proof
  fix x y z :: severity
  show "(x < y) = (x \<le> y \<and> \<not> y \<le> x)"
    by (auto simp: less_eq_severity_def less_severity_def)
  show "x \<le> x" by (simp add: less_eq_severity_def)
  show "x \<le> y \<Longrightarrow> y \<le> z \<Longrightarrow> x \<le> z" by (simp add: less_eq_severity_def)
  show "x \<le> y \<Longrightarrow> y \<le> x \<Longrightarrow> x = y"
    by (cases x; cases y) (simp_all add: less_eq_severity_def)
  show "x \<le> y \<or> y \<le> x" by (auto simp: less_eq_severity_def)
qed

end

lemma severity_le_Block [simp]: "(s :: severity) \<le> Block"
  by (cases s) (simp_all add: less_eq_severity_def)

section \<open>Records\<close>

record claim_origin =
  o_kind :: string
  o_source_id :: string
  o_mapping_version :: string
  o_row_key :: string
  o_event_position :: "string option"
  o_observed_at :: "string option"
  o_evidence_id :: "string option"

record claim =
  c_id :: string
  c_version_id :: string
  c_seq :: seq
  c_claim_type :: claim_type
  c_subject :: string
  c_key :: string
  c_value :: string
  c_scope_path :: "string option"
  c_status :: claim_status
  c_provenance :: provenance
  c_supersedes_id :: "string option"
  c_entity_id :: "string option"
  c_evidence :: "json option"
  c_confidence :: "f64 option"
  c_shape_ref :: "string option"
  c_origin :: "claim_origin option"

record anchor =
  a_id :: string
  a_version_id :: string
  a_detail_key :: string
  a_locked_value :: string
  a_locked_at_scope :: "string option"
  a_status :: anchor_status
  a_seq :: seq
  a_evidence :: "json option"

record promise =
  p_id :: string
  p_version_id :: string
  p_key :: string
  p_kind :: string
  p_description :: string
  p_origin_scope :: "string option"
  p_due_scope :: "string option"
  p_status :: promise_status
  p_seq :: seq
  p_fulfilled_seq :: "seq option"

record counter_total =
  ct_key :: string
  ct_total :: nat
  ct_budget :: "nat option"

record digest =
  d_version_id :: string
  d_tier :: nat
  d_scope_path :: string
  d_content :: string
  d_content_hash :: string
  d_built_from_seq :: seq

record entity =
  e_id :: string
  e_version_id :: string
  e_canonical_name :: string
  e_entity_type :: "string option"
  e_aliases :: "string list"
  e_seq :: seq
  e_merged_into :: "string option"

record gate_finding =
  f_rule_id :: string
  f_severity :: severity
  f_message :: string
  f_scope_path :: "string option"
  f_detail :: "json option"

record proposed_claim =
  pc_claim_type :: claim_type
  pc_subject :: string
  pc_key :: string
  pc_value :: string
  pc_supersedes_id :: "string option"

record candidate =
  cand_scope_path :: "string option"
  cand_text :: string
  cand_claims :: "proposed_claim list"
  cand_corrections :: "proposed_claim list"
  cand_previous_texts :: "string list"

record mesh_snapshot =
  sn_version_id :: string
  sn_facts :: "claim list"
  sn_anchors :: "(string \<times> anchor) list"
  sn_digests :: "digest list"
  sn_promises :: "promise list"
  sn_counters :: "counter_total list"
  sn_entities :: "entity list"
  sn_as_of_seq :: "seq option"
  sn_as_of_date :: "string option"

text \<open>The \<open>Default\<close> values of the last two.\<close>

definition candidate_default :: candidate where
  "candidate_default = \<lparr>cand_scope_path = None, cand_text = [], cand_claims = [],
     cand_corrections = [], cand_previous_texts = []\<rparr>"

definition snapshot_default :: mesh_snapshot where
  "snapshot_default = \<lparr>sn_version_id = [], sn_facts = [], sn_anchors = [], sn_digests = [],
     sn_promises = [], sn_counters = [], sn_entities = [], sn_as_of_seq = None,
     sn_as_of_date = None\<rparr>"

definition claim_key_of :: "string \<Rightarrow> string \<Rightarrow> string" where
  "claim_key_of subject key = subject @ ''.'' @ key"

definition claim_key :: "claim \<Rightarrow> string" where
  "claim_key c = claim_key_of (c_subject c) (c_key c)"

definition proposed_claim_key :: "proposed_claim \<Rightarrow> string" where
  "proposed_claim_key p = claim_key_of (pc_subject p) (pc_key p)"

text \<open>\<open>iter().map(seq).max().unwrap_or(0)\<close>.\<close>

definition max_or_0 :: "nat list \<Rightarrow> nat" where
  "max_or_0 xs = fold max xs 0"

definition max_seq :: "mesh_snapshot \<Rightarrow> seq" where
  "max_seq sn = max_or_0 (map c_seq (sn_facts sn))"

lemma fold_max_ge: "(m :: nat) \<le> fold max xs m"
proof (induction xs arbitrary: m)
  case (Cons x xs)
  have "m \<le> max x m" by simp
  also have "\<dots> \<le> fold max xs (max x m)" by (rule Cons.IH)
  finally show ?case by simp
qed simp

lemma fold_max_mem_le: "x \<in> set xs \<Longrightarrow> (x :: nat) \<le> fold max xs m"
proof (induction xs arbitrary: m)
  case (Cons y xs)
  have "max y m \<le> fold max xs (max y m)" by (rule fold_max_ge)
  with Cons show ?case by auto
qed simp

lemma fold_max_in: "fold max xs (m :: nat) = m \<or> fold max xs m \<in> set xs"
  by (induction xs arbitrary: m) (force simp: max_def)+

lemma max_or_0_ge: "x \<in> set xs \<Longrightarrow> x \<le> max_or_0 xs"
  by (simp add: max_or_0_def fold_max_mem_le)

lemma max_or_0_in: "xs \<noteq> [] \<Longrightarrow> max_or_0 xs \<in> set xs"
  using fold_max_in[of xs 0] fold_max_mem_le[of "hd xs" xs 0]
  by (cases xs) (auto simp: max_or_0_def)

lemma max_or_0_le_iff: "max_or_0 xs \<le> n \<longleftrightarrow> (\<forall>x \<in> set xs. x \<le> n)"
  by (metis max_or_0_ge max_or_0_in order_trans max_or_0_def fold_simps(1) list.set(1) le0 empty_iff)

section \<open>Errors\<close>

datatype kernel_error =
    HeadConflict nat nat
  | PolicyRejection "gate_finding list"
  | NotFound string string
  | ShapeViolation string string
  | IdempotencyMismatch
  | InvalidInput string
  | Unauthenticated string
  | Forbidden string
  | RateLimited string
  | Storage string
  | DatastoreUnavailable string
  | Provider string

end
