(* ===== verification/Ledger.thy ===== *)
theory Ledger
  imports Kernel_Types
begin

text \<open>
  Ledger semantics (\<open>munarium-core/src/ledger.rs\<close>): canonical claim text, comparison
  policies, and the pin-aware resolution of supersession that every store must agree with.
\<close>

section \<open>Canonical text\<close>

definition normalize_claim :: "string \<Rightarrow> string \<Rightarrow> string \<Rightarrow> string" where
  "normalize_claim subject key v = trim subject @ ''.'' @ trim key @ ''='' @ trim v"

definition split_normalized :: "string \<Rightarrow> string \<times> string \<times> string" where
  "split_normalized t =
     (case split_once (CHR ''='') t of
        None \<Rightarrow> ([], [], trim t)
      | Some (hd0, v) \<Rightarrow>
          let h = trim hd0 in
          (case rsplit_once (CHR ''.'') h of
             Some (subject, key) \<Rightarrow> (trim subject, trim key, trim v)
           | None \<Rightarrow> ([], h, trim v)))"

definition normalized_text :: "claim \<Rightarrow> string" where
  "normalized_text c = normalize_claim (c_subject c) (c_key c) (c_value c)"

section \<open>Comparison policies\<close>

datatype comparison_policy = LegacyTextV1 | ExactStringV1

definition policy_default :: comparison_policy where
  "policy_default = LegacyTextV1"

fun policy_id :: "comparison_policy \<Rightarrow> string" where
  "policy_id LegacyTextV1 = ''legacy-text-v1''"
| "policy_id ExactStringV1 = ''exact-string-v1''"

definition policy_from_id :: "string \<Rightarrow> kernel_error + comparison_policy" where
  "policy_from_id i =
     (if i = ''legacy-text-v1'' then Inr LegacyTextV1
      else if i = ''exact-string-v1'' then Inr ExactStringV1
      else Inl (InvalidInput (''unsupported comparison policy '' @ quoted i)))"

definition fold_text :: "string \<Rightarrow> string" where
  "fold_text s = to_lower (join '' '' (split_whitespace s))"

fun values_equivalent_with_policy :: "string \<Rightarrow> string \<Rightarrow> comparison_policy \<Rightarrow> bool" where
  "values_equivalent_with_policy a b LegacyTextV1 = (fold_text a = fold_text b)"
| "values_equivalent_with_policy a b ExactStringV1 = (a = b)"

definition values_equivalent :: "string \<Rightarrow> string \<Rightarrow> bool" where
  "values_equivalent a b = values_equivalent_with_policy a b LegacyTextV1"

section \<open>Resolution\<close>

record fact_query =
  q_scope_prefix :: "string option"
  q_as_of_seq :: "seq option"
  q_statuses :: "claim_status list"
  q_limit :: "nat option"

definition fact_query_default :: fact_query where
  "fact_query_default = \<lparr>q_scope_prefix = None, q_as_of_seq = None, q_statuses = [], q_limit = None\<rparr>"

definition effective_statuses :: "fact_query \<Rightarrow> claim_status list" where
  "effective_statuses q = (if q_statuses q = [] then [Accepted] else q_statuses q)"

definition within_pin :: "seq option \<Rightarrow> seq \<Rightarrow> bool" where
  "within_pin pin s = (case pin of None \<Rightarrow> True | Some p \<Rightarrow> s \<le> p)"

definition superseded_ids :: "claim list \<Rightarrow> string list" where
  "superseded_ids cs = List.map_filter c_supersedes_id cs"

fun in_scope :: "string option \<Rightarrow> string option \<Rightarrow> bool" where
  "in_scope None _ = True"
| "in_scope (Some prefix) (Some scope) = (scope = prefix \<or> starts_with scope (prefix @ ''.''))"
| "in_scope (Some _) None = False"

definition resolve_slice :: "claim list \<Rightarrow> fact_query \<Rightarrow> claim list" where
  "resolve_slice claims0 q =
     (let statuses = effective_statuses q;
          claims = filter (\<lambda>c. within_pin (q_as_of_seq q) (c_seq c)) claims0;
          superseded = superseded_ids claims;
          visible = filter (\<lambda>c. c_status c \<in> set statuses \<and> c_id c \<notin> set superseded
                               \<and> in_scope (q_scope_prefix q) (c_scope_path c)) claims;
          visible = sort_key c_seq visible
      in (case q_limit q of
            None \<Rightarrow> visible
          | Some limit \<Rightarrow> if limit < length visible then drop (length visible - limit) visible
                          else visible))"

text \<open>The claims a query sees: the specification of the resolution, without the limit.\<close>

definition current_at :: "claim list \<Rightarrow> seq option \<Rightarrow> claim \<Rightarrow> bool" where
  "current_at claims pin c \<longleftrightarrow> c \<in> set claims \<and> within_pin pin (c_seq c) \<and>
     \<not> (\<exists>d \<in> set claims. within_pin pin (c_seq d) \<and> c_supersedes_id d = Some (c_id c))"

definition answers :: "claim list \<Rightarrow> fact_query \<Rightarrow> claim \<Rightarrow> bool" where
  "answers claims q c \<longleftrightarrow> current_at claims (q_as_of_seq q) c
     \<and> c_status c \<in> set (effective_statuses q) \<and> in_scope (q_scope_prefix q) (c_scope_path c)"

section \<open>Lemmas\<close>

lemma set_superseded_ids: "set (superseded_ids cs) = {i. \<exists>d \<in> set cs. c_supersedes_id d = Some i}"
  by (force simp: superseded_ids_def List.map_filter_def)

lemma within_pin_None [simp]: "within_pin None s"
  by (simp add: within_pin_def)

lemma within_pin_Some [simp]: "within_pin (Some p) s \<longleftrightarrow> s \<le> p"
  by (simp add: within_pin_def)

lemma resolve_slice_unlimited:
  "q_limit q = None \<Longrightarrow> set (resolve_slice cs q) = {c. answers cs q c}"
  by (auto simp: resolve_slice_def answers_def current_at_def Let_def set_superseded_ids)

lemma resolve_slice_subset: "c \<in> set (resolve_slice cs q) \<Longrightarrow> answers cs q c"
  by (auto simp: resolve_slice_def answers_def current_at_def Let_def set_superseded_ids
      split: option.splits if_splits dest!: in_set_dropD)

lemma resolve_slice_sorted: "sorted (map c_seq (resolve_slice cs q))"
  by (auto simp: resolve_slice_def Let_def drop_map[symmetric] sorted_wrt_drop
      split: option.splits)

definition unlimited :: "fact_query \<Rightarrow> fact_query" where
  "unlimited q = q\<lparr>q_limit := None\<rparr>"

lemma resolve_slice_limit:
  "resolve_slice cs (q\<lparr>q_limit := Some n\<rparr>) =
     drop (length (resolve_slice cs (unlimited q)) - n) (resolve_slice cs (unlimited q))"
  by (simp add: resolve_slice_def Let_def unlimited_def effective_statuses_def)

text \<open>Claims numbered after the pin do not exist for a pinned read.\<close>

lemma resolve_slice_append_after_pin:
  assumes "q_as_of_seq q = Some p" "\<forall>c \<in> set new. p < c_seq c"
  shows "resolve_slice (cs @ new) q = resolve_slice cs q"
proof -
  have "filter (\<lambda>c. within_pin (q_as_of_seq q) (c_seq c)) new = []"
    using assms by (auto simp: filter_empty_conv)
  then show ?thesis by (simp add: resolve_slice_def)
qed

lemma resolve_slice_same_pinned:
  assumes "filter (\<lambda>c. within_pin (q_as_of_seq q) (c_seq c)) cs =
      filter (\<lambda>c. within_pin (q_as_of_seq q) (c_seq c)) cs'"
  shows "resolve_slice cs q = resolve_slice cs' q"
  using assms by (simp add: resolve_slice_def)

section \<open>The comparison contract\<close>

text \<open>What the gates rely on: a comparison of values is an equivalence.\<close>

locale comparison =
  fixes eqv :: "'v \<Rightarrow> 'v \<Rightarrow> bool"
  assumes eqv_refl: "eqv a a"
    and eqv_sym: "eqv a b \<Longrightarrow> eqv b a"
    and eqv_trans: "eqv a b \<Longrightarrow> eqv b c \<Longrightarrow> eqv a c"
begin

lemma not_eqv_imp_neq: "\<not> eqv a b \<Longrightarrow> a \<noteq> b"
  by (auto simp: eqv_refl)

lemma eqv_commute: "eqv a b = eqv b a"
  by (blast intro: eqv_sym)

text \<open>Two values judged different cannot both agree with a third.\<close>

lemma not_eqv_split: "\<not> eqv a b \<Longrightarrow> \<not> eqv a c \<or> \<not> eqv b c"
  by (blast intro: eqv_sym eqv_trans)

end

interpretation cmp: comparison "\<lambda>a b. values_equivalent_with_policy a b p" for p
  by unfold_locales (cases p; simp)+

section \<open>Round trip of the canonical text\<close>

lemma normalize_split_aux:
  assumes "CHR ''='' \<notin> set subject" "CHR ''='' \<notin> set key" "CHR ''.'' \<notin> set key"
  shows "split_normalized (normalize_claim subject key v) = (trim subject, trim key, trim v)"
proof -
  let ?h = "trim subject @ ''.'' @ trim key"
  have eq: "CHR ''='' \<notin> set ?h" using assms set_trim[of subject] set_trim[of key] by auto
  have "split_once (CHR ''='') (normalize_claim subject key v) = Some (?h, trim v)"
    using eq by (simp add: split_once_Some normalize_claim_def)
  moreover have "trim ?h = ?h"
    by (rule trim_id) (use trim_shape[of subject] trim_shape[of key] in
        \<open>auto simp: hd_append is_ws_def split: if_splits\<close>)
  moreover have "rsplit_once (CHR ''.'') ?h = Some (trim subject, trim key)"
    using assms set_trim[of key] by (auto simp: rsplit_once_Some)
  ultimately show ?thesis by (simp add: split_normalized_def Let_def)
qed

lemma answers_unlimited [simp]: "answers cs (unlimited q) c = answers cs q c"
  by (simp add: answers_def unlimited_def effective_statuses_def)

lemma policy_ids: "policy_from_id i = Inr p \<longleftrightarrow> i = policy_id p"
  by (cases p) (auto simp: policy_from_id_def)

lemma sorted_drop_ge:
  assumes "sorted (map f xs)" "x \<in> set (take n xs)" "y \<in> set (drop n xs)"
  shows "f x \<le> f y"
proof -
  have "sorted (map f (take n xs) @ map f (drop n xs))"
    using assms(1) by (metis append_take_drop_id map_append)
  with assms(2,3) show ?thesis by (auto simp: sorted_append)
qed

section \<open>Properties\<close>

text \<open>A claim with the fields the resolution reads; the rest as in the reference tests.\<close>

definition plain_claim :: "string \<Rightarrow> seq \<Rightarrow> string \<Rightarrow> string \<Rightarrow> string \<Rightarrow> string option \<Rightarrow> claim" where
  "plain_claim i n subject key v prev = \<lparr>c_id = i, c_version_id = ''v1'', c_seq = n,
     c_claim_type = (if prev = None then Fact else Correction), c_subject = subject, c_key = key,
     c_value = v, c_scope_path = Some ''ch1'', c_status = Accepted, c_provenance = Witnessed,
     c_supersedes_id = prev, c_entity_id = None, c_evidence = None, c_confidence = None,
     c_shape_ref = None, c_origin = None\<rparr>"

text \<open>C1. A read without a limit returns exactly the claims that are numbered within the pin,
  have a wanted status and scope, and are not superseded by a claim within the pin; the answer
  is in sequence order.\<close>

theorem resolve_slice_exact:
  "set (resolve_slice cs (unlimited q)) = {c. answers cs q c}
   \<and> sorted (map c_seq (resolve_slice cs (unlimited q)))"
proof -
  have "q_limit (unlimited q) = None" by (simp add: unlimited_def)
  from resolve_slice_unlimited[OF this] show ?thesis by (simp add: resolve_slice_sorted)
qed

text \<open>C2. A pin hides the future: claims appended with numbers after the pin change no pinned
  read, and a claim superseded only by such a claim still answers at the pin although it no
  longer answers at the head.\<close>

theorem pin_hides_the_future:
  assumes "q_as_of_seq q = Some p" "\<forall>d \<in> set new. p < c_seq d"
  shows "resolve_slice (cs @ new) q = resolve_slice cs q
    \<and> (c \<in> set (resolve_slice cs q) \<and> d \<in> set new \<and> c_supersedes_id d = Some (c_id c) \<longrightarrow>
        c \<in> set (resolve_slice (cs @ new) q)
        \<and> c \<notin> set (resolve_slice (cs @ new) (q\<lparr>q_as_of_seq := None\<rparr>)))"
proof -
  have "c \<notin> set (resolve_slice (cs @ new) (q\<lparr>q_as_of_seq := None\<rparr>))"
    if "d \<in> set new" "c_supersedes_id d = Some (c_id c)"
    using that resolve_slice_subset[of c "cs @ new" "q\<lparr>q_as_of_seq := None\<rparr>"]
    by (auto simp: answers_def current_at_def)
  then show ?thesis using resolve_slice_append_after_pin[OF assms] by auto
qed

theorem pin_hides_the_future_witness:
  "plain_claim ''c1'' 1 ''hero'' ''eyes'' ''green'' None
     \<in> set (resolve_slice ([plain_claim ''c1'' 1 ''hero'' ''eyes'' ''green'' None]
         @ [plain_claim ''c2'' 5 ''hero'' ''eyes'' ''blue'' (Some ''c1'')])
         (fact_query_default\<lparr>q_as_of_seq := Some 3\<rparr>))"
proof -
  let ?q = "fact_query_default\<lparr>q_as_of_seq := Some 3\<rparr>"
  let ?c = "plain_claim ''c1'' 1 ''hero'' ''eyes'' ''green'' None"
  let ?d = "plain_claim ''c2'' 5 ''hero'' ''eyes'' ''blue'' (Some ''c1'')"
  have pin: "q_as_of_seq ?q = Some 3" by simp
  have new: "\<forall>d \<in> set [?d]. 3 < c_seq d" by (simp add: plain_claim_def)
  have in1: "?c \<in> set (resolve_slice [?c] ?q)"
    by (simp add: resolve_slice_def fact_query_default_def plain_claim_def effective_statuses_def
        set_superseded_ids Let_def)
  show ?thesis using pin_hides_the_future[OF pin new, of "[?c]" ?c ?d] in1
    by (simp add: plain_claim_def)
qed

text \<open>A limit keeps the newest claims: the answer is a suffix of the unlimited answer, of
  length at most the limit, and no claim left out is newer than a claim kept.\<close>

theorem limit_keeps_newest:
  assumes "c \<in> set (resolve_slice cs (unlimited q)) - set (resolve_slice cs (q\<lparr>q_limit := Some n\<rparr>))"
    and "d \<in> set (resolve_slice cs (q\<lparr>q_limit := Some n\<rparr>))"
  shows "c_seq c \<le> c_seq d \<and> length (resolve_slice cs (q\<lparr>q_limit := Some n\<rparr>)) = n"
proof -
  let ?all = "resolve_slice cs (unlimited q)"
  let ?k = "length ?all - n"
  have lim: "resolve_slice cs (q\<lparr>q_limit := Some n\<rparr>) = drop ?k ?all" by (rule resolve_slice_limit)
  with assms(1) have "c \<in> set (take ?k ?all)"
    by (metis Diff_iff Un_iff append_take_drop_id set_append)
  moreover have "0 < ?k" using calculation by (cases "?k = 0") auto
  ultimately show ?thesis
    using sorted_drop_ge[OF resolve_slice_sorted] assms(2) lim by auto
qed

theorem limit_keeps_newest_witness:
  "c_seq (plain_claim ''a'' 1 ''s'' ''k1'' ''v'' None) \<le> c_seq (plain_claim ''b'' 2 ''s'' ''k2'' ''v'' None)
   \<and> length (resolve_slice [plain_claim ''a'' 1 ''s'' ''k1'' ''v'' None,
        plain_claim ''b'' 2 ''s'' ''k2'' ''v'' None] (fact_query_default\<lparr>q_limit := Some 1\<rparr>)) = 1"
proof -
  let ?c = "plain_claim ''a'' 1 ''s'' ''k1'' ''v'' None"
  let ?d = "plain_claim ''b'' 2 ''s'' ''k2'' ''v'' None"
  note defs = resolve_slice_def fact_query_default_def plain_claim_def effective_statuses_def
    set_superseded_ids Let_def unlimited_def
  have "?c \<in> set (resolve_slice [?c, ?d] (unlimited fact_query_default))
      - set (resolve_slice [?c, ?d] (fact_query_default\<lparr>q_limit := Some 1\<rparr>))"
    "?d \<in> set (resolve_slice [?c, ?d] (fact_query_default\<lparr>q_limit := Some 1\<rparr>))"
    by (simp_all add: defs)
  then show ?thesis by (rule limit_keeps_newest)
qed

text \<open>Splitting undoes the canonical rendering of a claim, up to surrounding white space,
  when the subject and key hold no equals sign and the key no dot (the subject may hold dots:
  the split is at the last one).\<close>

theorem split_normalize_roundtrip:
  assumes "CHR ''='' \<notin> set subject" "CHR ''='' \<notin> set key" "CHR ''.'' \<notin> set key"
  shows "split_normalized (normalize_claim subject key v) = (trim subject, trim key, trim v)"
  using assms by (rule normalize_split_aux)

theorem split_normalize_roundtrip_witness:
  "split_normalized (normalize_claim ''release.date'' ''v4 '' '' 2026'') = (''release.date'', ''v4'', ''2026'')"
proof -
  have "split_normalized (normalize_claim ''release.date'' ''v4 '' '' 2026'')
      = (trim ''release.date'', trim ''v4 '', trim '' 2026'')"
    by (rule split_normalize_roundtrip) simp_all
  then show ?thesis by (simp add: trim_def is_ws_def)
qed

text \<open>Policy identifiers round-trip and unknown identifiers fail closed, and each policy
  compares by an equivalence.\<close>

theorem comparison_policies_sound:
  "(policy_from_id i = Inr p) = (i = policy_id p)
   \<and> equivp (\<lambda>a b. values_equivalent_with_policy a b p)"
proof -
  have "equivp (\<lambda>a b. values_equivalent_with_policy a b p)"
    by (intro equivpI reflpI sympI transpI)
      (auto intro: cmp.eqv_refl cmp.eqv_sym cmp.eqv_trans)
  then show ?thesis by (simp add: policy_ids)
qed

end
