(* ===== verification/Similarity.thy ===== *)
theory Similarity
  imports Kernel_Types
begin

text \<open>
  The Ratcliff-Obershelp ratio (\<open>munarium-core/src/similarity.rs\<close>): the dynamic programming
  sweep for the longest common block, the recursion on both sides of it, and the ratio
  \<open>2 M / T\<close>. The ratio is the exact rational; the code's \<open>f64\<close> division rounds it, which
  for texts of fewer than \<open>10 ^ 14\<close> characters moves no ratio across the threshold 0.9: two
  different fractions with such denominators differ by more than the rounding error.
\<close>

section \<open>The longest common block\<close>

text \<open>
  One row of the sweep: \<open>j\<close> is the column, \<open>prev\<close> the row above; the result is the new row
  without its leading 0, and the best block so far.
\<close>

fun lm_row :: "'a \<Rightarrow> 'a list \<Rightarrow> nat list \<Rightarrow> nat \<Rightarrow> nat \<Rightarrow> nat \<times> nat \<times> nat
    \<Rightarrow> nat list \<times> (nat \<times> nat \<times> nat)" where
  "lm_row ca [] prev i j best = ([], best)"
| "lm_row ca (cb # bs) prev i j best =
     (if ca = cb then
        let l = prev ! j + 1;
            best' = (if l > snd (snd best) then (i + 1 - l, j + 1 - l, l) else best);
            (row, best'') = lm_row ca bs prev i (j + 1) best'
        in (l # row, best'')
      else
        let (row, best'') = lm_row ca bs prev i (j + 1) best
        in (0 # row, best''))"

fun lm_rows :: "'a list \<Rightarrow> 'a list \<Rightarrow> nat list \<Rightarrow> nat \<Rightarrow> nat \<times> nat \<times> nat \<Rightarrow> nat \<times> nat \<times> nat" where
  "lm_rows [] b prev i best = best"
| "lm_rows (ca # as) b prev i best =
     (let (row, best') = lm_row ca b prev i 0 best
      in lm_rows as b (0 # row) (i + 1) best')"

definition longest_match :: "'a list \<Rightarrow> 'a list \<Rightarrow> nat \<times> nat \<times> nat" where
  "longest_match a b = lm_rows a b (replicate (length b + 1) 0) 0 (0, 0, 0)"

text \<open>The reference: equal blocks of two lists, and the longest common suffix of two prefixes.\<close>

definition common_block :: "'a list \<Rightarrow> 'a list \<Rightarrow> nat \<Rightarrow> nat \<Rightarrow> nat \<Rightarrow> bool" where
  "common_block a b i j l \<longleftrightarrow> i + l \<le> length a \<and> j + l \<le> length b
     \<and> take l (drop i a) = take l (drop j b)"

fun lcp :: "'a list \<Rightarrow> 'a list \<Rightarrow> nat" where
  "lcp (x # xs) (y # ys) = (if x = y then Suc (lcp xs ys) else 0)"
| "lcp _ _ = 0"

definition csuf :: "'a list \<Rightarrow> 'a list \<Rightarrow> nat \<Rightarrow> nat \<Rightarrow> nat" where
  "csuf a b i j = lcp (rev (take i a)) (rev (take j b))"

lemma lcp_take: "lcp xs ys \<le> length xs \<and> lcp xs ys \<le> length ys
    \<and> take (lcp xs ys) xs = take (lcp xs ys) ys"
  by (induction xs ys rule: lcp.induct) auto

lemma lcp_max: "n \<le> length xs \<Longrightarrow> n \<le> length ys \<Longrightarrow> take n xs = take n ys \<Longrightarrow> n \<le> lcp xs ys"
proof (induction xs ys arbitrary: n rule: lcp.induct)
  case (1 x xs y ys)
  then show ?case by (cases n) auto
qed auto

lemma csuf_0 [simp]: "csuf a b 0 j = 0" "csuf a b i 0 = 0"
  by (simp_all add: csuf_def)

lemma csuf_Suc:
  "i < length a \<Longrightarrow> j < length b \<Longrightarrow>
     csuf a b (Suc i) (Suc j) = (if a ! i = b ! j then Suc (csuf a b i j) else 0)"
  by (simp add: csuf_def take_Suc_conv_app_nth)

lemma csuf_le: "csuf a b i j \<le> i" "csuf a b i j \<le> j"
  using lcp_take[of "rev (take i a)" "rev (take j b)"] by (auto simp: csuf_def)

lemma take_rev_take: "l \<le> i \<Longrightarrow> i \<le> length a \<Longrightarrow> take l (rev (take i a)) = rev (take l (drop (i - l) a))"
  by (simp add: take_rev drop_take min_def)

lemma csuf_block:
  assumes "i \<le> length a" "j \<le> length b"
  shows "common_block a b (i - csuf a b i j) (j - csuf a b i j) (csuf a b i j)"
proof -
  let ?l = "csuf a b i j"
  have "take ?l (rev (take i a)) = take ?l (rev (take j b))"
    using lcp_take[of "rev (take i a)" "rev (take j b)"] by (simp add: csuf_def)
  then have "take ?l (drop (i - ?l) a) = take ?l (drop (j - ?l) b)"
    using assms csuf_le[of a b i j] by (simp add: take_rev_take)
  then show ?thesis using assms csuf_le[of a b i j] by (auto simp: common_block_def)
qed

lemma block_csuf:
  assumes "common_block a b i j l"
  shows "l \<le> csuf a b (i + l) (j + l)"
proof -
  have "take l (rev (take (i + l) a)) = take l (rev (take (j + l) b))"
    using assms by (simp add: common_block_def take_rev_take)
  then show ?thesis using assms
    unfolding csuf_def by (intro lcp_max) (auto simp: common_block_def)
qed

text \<open>What is known of the best block after some cells: it is a block, and no cell seen exceeds it.\<close>

definition best_for :: "'a list \<Rightarrow> 'a list \<Rightarrow> (nat \<times> nat) set \<Rightarrow> nat \<times> nat \<times> nat \<Rightarrow> bool" where
  "best_for a b cells best \<longleftrightarrow> common_block a b (fst best) (fst (snd best)) (snd (snd best))
     \<and> (\<forall>(i, j) \<in> cells. csuf a b i j \<le> snd (snd best))"

lemma best_for_step:
  assumes "best_for a b S best" "i \<le> length a" "j \<le> length b" "l = csuf a b i j"
  shows "best_for a b (insert (i, j) S) (if l > snd (snd best) then (i - l, j - l, l) else best)"
  using assms csuf_block[of i a j b] by (auto simp: best_for_def)

lemma best_for_zero:
  assumes "best_for a b S best" "csuf a b i j = 0"
  shows "best_for a b (insert (i, j) S) best"
  using assms by (auto simp: best_for_def)

lemma lm_row_correct:
  assumes "i < length a" "ca = a ! i" "bs = drop j b" "j \<le> length b"
    "\<forall>k \<le> length b. prev ! k = csuf a b i k" "best_for a b S best"
  shows "fst (lm_row ca bs prev i j best) = map (\<lambda>k. csuf a b (Suc i) k) [Suc j ..< Suc (length b)]
    \<and> best_for a b (S \<union> {(Suc i, k) | k. j < k \<and> k \<le> length b}) (snd (lm_row ca bs prev i j best))"
  using assms
proof (induction ca bs prev i j best arbitrary: S rule: lm_row.induct)
  case (1 ca prev i j best)
  then have j: "j = length b" by simp
  have e: "{(Suc i, k) | k. length b < k \<and> k \<le> length b} = {}" by auto
  show ?case using 1 j by (simp add: e)
next
  case (2 ca cb bs prev i j best)
  have j: "j < length b" using "2.prems"(3) by (metis drop_eq_Nil linorder_not_le list.distinct(1))
  have cb: "cb = b ! j" and bs: "bs = drop (Suc j) b"
    using "2.prems"(3) j by (metis Cons_nth_drop_Suc list.inject)+
  have upt: "[Suc j..<Suc (length b)] = Suc j # [Suc (Suc j)..<Suc (length b)]"
    using j by (simp add: upt_conv_Cons)
  have cells: "S \<union> {(Suc i, k) | k. j < k \<and> k \<le> length b} =
      insert (Suc i, Suc j) S \<union> {(Suc i, k) | k. Suc j < k \<and> k \<le> length b}"
    using j Suc_lessI by force
  show ?case
  proof (cases "ca = cb")
    case True
    let ?l = "prev ! j + 1"
    let ?best = "if ?l > snd (snd best) then (i + 1 - ?l, j + 1 - ?l, ?l) else best"
    have l: "?l = csuf a b (Suc i) (Suc j)"
      using "2.prems" True cb j by (simp add: csuf_Suc)
    have "best_for a b (insert (Suc i, Suc j) S) ?best"
      using best_for_step[OF "2.prems"(6) Suc_leI[OF "2.prems"(1)] Suc_leI[OF j] l]
      by (simp only: Suc_eq_plus1)
    then have "fst (lm_row ca bs prev i (j + 1) ?best) =
          map (\<lambda>k. csuf a b (Suc i) k) [Suc (j + 1) ..< Suc (length b)]
        \<and> best_for a b (insert (Suc i, Suc j) S \<union> {(Suc i, k) | k. j + 1 < k \<and> k \<le> length b})
            (snd (lm_row ca bs prev i (j + 1) ?best))"
      using "2.IH"(1)[OF True refl refl, of "insert (Suc i, Suc j) S"] "2.prems"(1,2,5) j bs
      by (simp only: Suc_eq_plus1 Suc_leI[unfolded Suc_eq_plus1])
    moreover have "lm_row ca (cb # bs) prev i j best =
        (?l # fst (lm_row ca bs prev i (j + 1) ?best), snd (lm_row ca bs prev i (j + 1) ?best))"
      using True by (simp add: Let_def split_beta)
    ultimately show ?thesis
      unfolding cells upt by (simp only: l fst_conv snd_conv list.map Suc_eq_plus1)
  next
    case False
    have z: "csuf a b (Suc i) (Suc j) = 0" using "2.prems" False cb j by (simp add: csuf_Suc)
    have "best_for a b (insert (Suc i, Suc j) S) best"
      by (rule best_for_zero[OF "2.prems"(6) z])
    then have "fst (lm_row ca bs prev i (j + 1) best) =
          map (\<lambda>k. csuf a b (Suc i) k) [Suc (j + 1) ..< Suc (length b)]
        \<and> best_for a b (insert (Suc i, Suc j) S \<union> {(Suc i, k) | k. j + 1 < k \<and> k \<le> length b})
            (snd (lm_row ca bs prev i (j + 1) best))"
      using "2.IH"(2)[OF False, of "insert (Suc i, Suc j) S"] "2.prems"(1,2,5) j bs
      by (simp only: Suc_eq_plus1 Suc_leI[unfolded Suc_eq_plus1])
    moreover have "lm_row ca (cb # bs) prev i j best =
        (0 # fst (lm_row ca bs prev i (j + 1) best), snd (lm_row ca bs prev i (j + 1) best))"
      using False by (simp add: split_beta)
    ultimately show ?thesis
      unfolding cells upt using z by (simp only: fst_conv snd_conv list.map Suc_eq_plus1)
  qed
qed

lemma lm_rows_correct:
  assumes "as = drop i a" "i \<le> length a" "\<forall>k \<le> length b. prev ! k = csuf a b i k"
    "best_for a b {(i', k). i' \<le> i \<and> k \<le> length b} best"
  shows "best_for a b {(i', k). i' \<le> length a \<and> k \<le> length b} (lm_rows as b prev i best)"
  using assms
proof (induction as b prev i best rule: lm_rows.induct)
  case (1 b prev i best)
  then have "i = length a" by simp
  then show ?case using 1 by simp
next
  case (2 ca as b prev i best)
  have i: "i < length a" using "2.prems"(1) by (metis drop_eq_Nil linorder_not_le list.distinct(1))
  have ca: "ca = a ! i" and as: "as = drop (Suc i) a"
    using "2.prems"(1) i by (metis Cons_nth_drop_Suc list.inject)+
  obtain row best' where rb: "lm_row ca b prev i 0 best = (row, best')"
    by (cases "lm_row ca b prev i 0 best")
  let ?S = "{(i', k). i' \<le> i \<and> k \<le> length b}"
  have R: "row = map (\<lambda>k. csuf a b (Suc i) k) [Suc 0 ..< Suc (length b)]"
    "best_for a b (?S \<union> {(Suc i, k) | k. 0 < k \<and> k \<le> length b}) best'"
    using lm_row_correct[OF i ca, of b 0 b prev ?S best] "2.prems" rb by auto
  have "\<forall>k \<le> length b. (0 # row) ! k = csuf a b (Suc i) k"
    by (auto simp: R(1) nth_Cons simp del: upt_Suc split: nat.splits)
  moreover have "best_for a b {(i', k). i' \<le> Suc i \<and> k \<le> length b} best'"
    using R(2) unfolding best_for_def by (auto simp: le_Suc_eq)
  ultimately show ?case using "2.IH"[OF rb[symmetric] refl] as i rb by simp
qed

lemma longest_match_best: "best_for a b {(i, j). i \<le> length a \<and> j \<le> length b} (longest_match a b)"
  unfolding longest_match_def
  by (rule lm_rows_correct) (auto simp: best_for_def common_block_def nth_Cons split: nat.splits)

lemma longest_match_block: "longest_match a b = (i, j, l) \<Longrightarrow> common_block a b i j l"
  using longest_match_best[of a b] by (simp add: best_for_def)

lemma longest_match_max:
  assumes "longest_match a b = (i, j, l)" "common_block a b i' j' l'"
  shows "l' \<le> l"
proof -
  have "l' \<le> csuf a b (i' + l') (j' + l')" by (rule block_csuf[OF assms(2)])
  also have "\<dots> \<le> l"
    using longest_match_best[of a b] assms by (auto simp: best_for_def common_block_def)
  finally show ?thesis .
qed

section \<open>The recursion\<close>

function matching_chars :: "'a list \<Rightarrow> 'a list \<Rightarrow> nat" where
  "matching_chars a b =
     (if a = [] \<or> b = [] then 0
      else (case longest_match a b of (ai, bi, l) \<Rightarrow>
        if l = 0 then 0
        else l + matching_chars (take ai a) (take bi b)
               + matching_chars (drop (ai + l) a) (drop (bi + l) b)))"
  by pat_completeness auto
termination
  by (relation "measure (\<lambda>(a, b). length a)")
    (auto dest!: longest_match_block[OF sym] simp: common_block_def)

declare matching_chars.simps [simp del]

definition similarity_ratio :: "string \<Rightarrow> string \<Rightarrow> f64" where
  "similarity_ratio a0 b0 =
     (let a = to_lower a0; b = to_lower b0; total = length a + length b
      in if total = 0 then 1 else 2 * of_nat (matching_chars a b) / of_nat total)"

lemma matching_chars_cases:
  assumes "a \<noteq> []" "b \<noteq> []" "longest_match a b = (i, j, l)"
  shows "matching_chars a b = (if l = 0 then 0 else l + matching_chars (take i a) (take j b)
      + matching_chars (drop (i + l) a) (drop (j + l) b))"
  using assms by (subst matching_chars.simps) simp

lemma matching_chars_Nil [simp]: "matching_chars [] b = 0" "matching_chars a [] = 0"
  by (simp_all add: matching_chars.simps)

lemma matching_chars_le: "matching_chars a b \<le> length a \<and> matching_chars a b \<le> length b"
proof (induction a b rule: matching_chars.induct)
  case (1 a b)
  obtain i j l where m: "longest_match a b = (i, j, l)" by (cases "longest_match a b")
  then have bl: "i + l \<le> length a" "j + l \<le> length b"
    using longest_match_block[OF m] by (auto simp: common_block_def)
  show ?case
  proof (cases "a = [] \<or> b = [] \<or> l = 0")
    case True
    then have "matching_chars a b = 0"
      using matching_chars_cases[OF _ _ m] by (cases "a = [] \<or> b = []") auto
    then show ?thesis by simp
  next
    case False
    then show ?thesis
      using "1.IH"(1)[OF _ m[symmetric] refl] "1.IH"(2)[OF _ m[symmetric] refl] bl
        matching_chars_cases[OF _ _ m]
      by (auto simp: min_def split: if_splits)
  qed
qed

lemma matching_chars_self: "matching_chars a a = length a"
proof (cases "a = []")
  case False
  obtain i j l where m: "longest_match a a = (i, j, l)" by (cases "longest_match a a")
  have "length a \<le> l"
    by (rule longest_match_max[OF m, of 0 0]) (simp add: common_block_def)
  moreover have "i + l \<le> length a" "j + l \<le> length a"
    using longest_match_block[OF m] by (auto simp: common_block_def)
  ultimately have "l = length a" "i = 0" "j = 0" by auto
  then show ?thesis using matching_chars_cases[OF False False m] False by simp
qed simp

text \<open>Only equal lists match in full.\<close>

lemma matching_chars_full: "matching_chars a b = length a \<Longrightarrow> length a = length b \<Longrightarrow> a = b"
proof (induction a b rule: matching_chars.induct)
  case (1 a b)
  obtain i j l where m: "longest_match a b = (i, j, l)" by (cases "longest_match a b")
  then have bl: "common_block a b i j l" by (rule longest_match_block)
  show ?case
  proof (cases "a = [] \<or> b = []")
    case True
    then show ?thesis using "1.prems" by auto
  next
    case False
    then have cs: "matching_chars a b = (if l = 0 then 0 else l + matching_chars (take i a) (take j b)
        + matching_chars (drop (i + l) a) (drop (j + l) b))"
      by (intro matching_chars_cases[OF _ _ m]) auto
    have l: "l \<noteq> 0" using "1.prems"(1) cs False by (cases "l = 0") simp_all
    let ?m1 = "matching_chars (take i a) (take j b)"
    let ?m2 = "matching_chars (drop (i + l) a) (drop (j + l) b)"
    have e: "length a = l + ?m1 + ?m2"
      using "1.prems"(1) cs l by simp
    have b: "?m1 \<le> i" "?m1 \<le> j" "?m2 \<le> length a - (i + l)" "?m2 \<le> length b - (j + l)"
      using matching_chars_le[of "take i a" "take j b"]
        matching_chars_le[of "drop (i + l) a" "drop (j + l) b"] by auto
    have il: "i + l \<le> length a" "j + l \<le> length b" using bl by (auto simp: common_block_def)
    have ij: "?m1 = i" "i = j" "?m2 = length a - (i + l)"
      using e b il "1.prems"(2) by linarith+
    have t: "take i a = take j b"
      using "1.IH"(1)[OF False m[symmetric] refl l] ij il "1.prems"(2) by simp
    have d: "drop (i + l) a = drop (j + l) b"
      using "1.IH"(2)[OF False m[symmetric] refl l] ij il "1.prems"(2) by simp
    have split: "xs = take n xs @ take l (drop n xs) @ drop (n + l) xs" for n and xs :: "'a list"
      using append_take_drop_id[of l "drop n xs"] by (simp add: add.commute)
    have "a = take i a @ take l (drop i a) @ drop (i + l) a" by (rule split)
    also have "\<dots> = take j b @ take l (drop j b) @ drop (j + l) b"
      using t d bl by (simp add: common_block_def)
    also have "\<dots> = b" by (rule split[symmetric])
    finally show ?thesis .
  qed
qed

lemma lower_char_idem [simp]: "lower_char (lower_char c) = lower_char c"
  by (auto simp: lower_char_def Let_def of_char_of)

lemma to_lower_idem [simp]: "to_lower (to_lower s) = to_lower s"
  by (simp add: to_lower_def)

lemma length_to_lower [simp]: "length (to_lower s) = length s"
  by (simp add: to_lower_def)

lemma longest_match_eq_max: "longest_match a b = (i, j, l) \<Longrightarrow>
    (\<exists>i j. common_block a b i j n) \<longleftrightarrow> n \<le> l"
proof
  assume m: "longest_match a b = (i, j, l)"
  show "\<exists>i j. common_block a b i j n \<Longrightarrow> n \<le> l" using longest_match_max[OF m] by blast
  assume "n \<le> l"
  moreover have "common_block a b i j l" by (rule longest_match_block[OF m])
  ultimately have "common_block a b i j n"
    unfolding common_block_def by (metis add_le_mono order_trans le_refl min.absorb1 take_take)
  then show "\<exists>i j. common_block a b i j n" by blast
qed

lemma ratio_bounds: "0 \<le> similarity_ratio a b" "similarity_ratio a b \<le> 1"
proof -
  let ?m = "matching_chars (to_lower a) (to_lower b)" and ?t = "length a + length b"
  have "?m \<le> length a" "?m \<le> length b"
    using matching_chars_le[of "to_lower a" "to_lower b"] by simp_all
  then have "2 * ?m \<le> ?t" by simp
  then have "(2 * of_nat ?m :: rat) \<le> of_nat ?t"
    by (metis of_nat_le_iff of_nat_mult of_nat_numeral)
  then show "0 \<le> similarity_ratio a b" "similarity_ratio a b \<le> 1"
    by (auto simp: similarity_ratio_def Let_def divide_le_eq)
qed

lemma ratio_one: "similarity_ratio a b = 1 \<longleftrightarrow> to_lower a = to_lower b"
proof -
  let ?a = "to_lower a" and ?b = "to_lower b"
  let ?m = "matching_chars ?a ?b" and ?t = "length ?a + length ?b"
  show ?thesis
  proof (cases "?t = 0")
    case True
    then show ?thesis by (simp add: similarity_ratio_def Let_def to_lower_def)
  next
    case False
    have e: "(2 * of_nat ?m :: rat) = of_nat (2 * ?m)" by (simp only: of_nat_mult of_nat_numeral)
    have "similarity_ratio a b = 1 \<longleftrightarrow> (2 * of_nat ?m :: rat) = of_nat ?t"
      by (simp only: similarity_ratio_def Let_def False if_False divide_eq_1_iff of_nat_eq_0_iff
          not_False_eq_True simp_thms)
    also have "\<dots> \<longleftrightarrow> 2 * ?m = ?t"
      unfolding e by (rule of_nat_eq_iff)
    also have "\<dots> \<longleftrightarrow> ?a = ?b"
    proof
      assume "2 * ?m = ?t"
      moreover have "?m \<le> length ?a" "?m \<le> length ?b"
        using matching_chars_le[of ?a ?b] by auto
      ultimately have "?m = length ?a" "length ?a = length ?b" by linarith+
      then show "?a = ?b" by (rule matching_chars_full)
    next
      assume "?a = ?b"
      then show "2 * ?m = ?t" by (simp add: matching_chars_self)
    qed
    finally show ?thesis .
  qed
qed

section \<open>Properties\<close>

text \<open>The dynamic programming sweep computes the longest common block: its result is a
  block of equal characters, and blocks of exactly the lengths up to its length exist. The
  ratio is between 0 and 1, it is 1 exactly for texts equal up to case.\<close>

theorem longest_match_correct:
  "(case longest_match a b of (i, j, l) \<Rightarrow> common_block a b i j l
      \<and> {n. \<exists>i j. common_block a b i j n} = {..l})
   \<and> 0 \<le> similarity_ratio s t \<and> similarity_ratio s t \<le> 1
   \<and> (similarity_ratio s t = 1) = (to_lower s = to_lower t)"
proof -
  obtain i j l where m: "longest_match a b = (i, j, l)" by (cases "longest_match a b")
  then show ?thesis
    using longest_match_block[OF m] longest_match_eq_max[OF m] ratio_bounds ratio_one by auto
qed

end
