(* ===== verification/Gates.thy ===== *)
theory Gates
  imports Ledger Similarity
begin

text \<open>
  The five always-on gates (\<open>munarium-core/src/gates.rs\<close>): each maps a snapshot and a
  candidate to findings; \<open>run_gates\<close> composes them, and the accept path disputes the claims
  whose keys \<open>blocked_claim_keys\<close> returns. The chronology gate is in \<open>Chronology\<close>.
\<close>

section \<open>Effective comparison policies\<close>

type_synonym comparison_policies = "(string \<times> comparison_policy) list"

text \<open>The body of the loop of \<open>try_from_bindings\<close>: insert, and compare with the value replaced.\<close>

fun bind_policy :: "comparison_policies \<Rightarrow> string \<times> comparison_policy \<Rightarrow> kernel_error + comparison_policies" where
  "bind_policy resolved (key, policy) =
     (let resolved' = bt_insert key policy resolved in
      (case map_of resolved key of
         Some previous \<Rightarrow>
           if previous \<noteq> policy
           then Inl (InvalidInput (''conflicting comparison policies for '' @ quoted key))
           else Inr resolved'
       | None \<Rightarrow> Inr resolved'))"

definition try_from_bindings :: "(string \<times> comparison_policy) list \<Rightarrow> kernel_error + comparison_policies" where
  "try_from_bindings bindings = res_fold bind_policy [] bindings"

definition policy_for :: "comparison_policies \<Rightarrow> string \<Rightarrow> comparison_policy" where
  "policy_for ps k = (case map_of ps k of None \<Rightarrow> policy_default | Some p \<Rightarrow> p)"

section \<open>Constants\<close>

definition RULE_ANCHOR :: string where "RULE_ANCHOR = ''gate.anchor-consistency''"
definition RULE_LEDGER :: string where "RULE_LEDGER = ''gate.ledger-conflict''"
definition RULE_ORPHAN :: string where "RULE_ORPHAN = ''gate.orphaned-reference''"
definition RULE_META :: string where "RULE_META = ''gate.meta-leakage''"
definition RULE_SIMILARITY :: string where "RULE_SIMILARITY = ''gate.lexical-similarity''"

definition SIMILARITY_THRESHOLD :: f64 where
  "SIMILARITY_THRESHOLD = 9 / 10"

definition META_MARKERS :: "string list" where
  "META_MARKERS = [''as an ai'', ''as a language model'', ''i cannot assist'',
     ''i'' @ [CHR 0x27] @ ''m sorry, but'', ''[insert'', ''lorem ipsum'']"

section \<open>The gates\<close>

definition anchor_finding :: "string option \<Rightarrow> proposed_claim \<Rightarrow> anchor \<Rightarrow> gate_finding" where
  "anchor_finding scope p a = \<lparr>
     f_rule_id = RULE_ANCHOR,
     f_severity = Block,
     f_message = ''claim '' @ quoted (proposed_claim_key p @ ''='' @ pc_value p)
        @ '' contradicts locked anchor value '' @ quoted (a_locked_value a),
     f_scope_path = scope,
     f_detail = Some (jobj [(''claim_key'', JStr (proposed_claim_key p)),
        (''proposed_value'', JStr (pc_value p)),
        (''locked_value'', JStr (a_locked_value a)),
        (''anchor_id'', JStr (a_id a))])\<rparr>"

definition check_anchor_consistency_with_policies ::
    "mesh_snapshot \<Rightarrow> candidate \<Rightarrow> comparison_policies \<Rightarrow> gate_finding list" where
  "check_anchor_consistency_with_policies sn cand ps =
     List.map_filter (\<lambda>p.
       let key = proposed_claim_key p in
       (case map_of (sn_anchors sn) key of
          None \<Rightarrow> None
        | Some a \<Rightarrow>
            if \<not> values_equivalent_with_policy (pc_value p) (a_locked_value a) (policy_for ps key)
            then Some (anchor_finding (cand_scope_path cand) p a) else None))
     (cand_claims cand @ cand_corrections cand)"

definition check_anchor_consistency :: "mesh_snapshot \<Rightarrow> candidate \<Rightarrow> gate_finding list" where
  "check_anchor_consistency sn cand = check_anchor_consistency_with_policies sn cand []"

definition ledger_finding :: "string option \<Rightarrow> proposed_claim \<Rightarrow> claim \<Rightarrow> gate_finding" where
  "ledger_finding scope p c = \<lparr>
     f_rule_id = RULE_LEDGER,
     f_severity = Block,
     f_message = ''claim '' @ quoted (proposed_claim_key p @ ''='' @ pc_value p)
        @ '' conflicts with accepted canon '' @ quoted (proposed_claim_key p @ ''='' @ c_value c)
        @ '' (use a correction to supersede)'',
     f_scope_path = scope,
     f_detail = Some (jobj [(''claim_key'', JStr (proposed_claim_key p)),
        (''proposed_value'', JStr (pc_value p)),
        (''canon_value'', JStr (c_value c)),
        (''canon_claim_id'', JStr (c_id c)),
        (''canon_seq'', jnat (c_seq c))])\<rparr>"

text \<open>Facts are in sequence order: the last one of a key is canon.\<close>

definition canon_for :: "mesh_snapshot \<Rightarrow> string \<Rightarrow> claim option" where
  "canon_for sn key = find (\<lambda>f. claim_key f = key) (rev (sn_facts sn))"

definition check_ledger_conflict_with_policies ::
    "mesh_snapshot \<Rightarrow> candidate \<Rightarrow> comparison_policies \<Rightarrow> gate_finding list" where
  "check_ledger_conflict_with_policies sn cand ps =
     List.map_filter (\<lambda>p.
       if pc_supersedes_id p \<noteq> None then None
       else
         let key = proposed_claim_key p in
         (case canon_for sn key of
            None \<Rightarrow> None
          | Some existing \<Rightarrow>
              if \<not> values_equivalent_with_policy (pc_value p) (c_value existing) (policy_for ps key)
              then Some (ledger_finding (cand_scope_path cand) p existing) else None))
     (cand_claims cand)"

definition check_ledger_conflict :: "mesh_snapshot \<Rightarrow> candidate \<Rightarrow> gate_finding list" where
  "check_ledger_conflict sn cand = check_ledger_conflict_with_policies sn cand []"

definition check_orphaned_reference :: "mesh_snapshot \<Rightarrow> candidate \<Rightarrow> gate_finding list" where
  "check_orphaned_reference sn cand =
     (let known_keys = map claim_key (sn_facts sn);
          known_subjects = map c_subject (sn_facts sn)
      in List.map_filter (\<lambda>correction.
           let key = proposed_claim_key correction;
               orphaned = (if pc_subject correction \<in> set known_subjects
                           then key \<notin> set known_keys else True)
           in if orphaned then Some \<lparr>
                f_rule_id = RULE_ORPHAN,
                f_severity = Warn,
                f_message = ''correction targets '' @ quoted key @ '' but no such canon was established'',
                f_scope_path = cand_scope_path cand,
                f_detail = Some (jobj [(''claim_key'', JStr key)])\<rparr>
              else None)
         (cand_corrections cand))"

definition check_meta_leakage :: "mesh_snapshot \<Rightarrow> candidate \<Rightarrow> gate_finding list" where
  "check_meta_leakage sn cand =
     (let lowered = to_lower (cand_text cand)
      in map (\<lambda>marker. \<lparr>
           f_rule_id = RULE_META,
           f_severity = Warn,
           f_message = ''output contains meta-leakage marker '' @ quoted marker,
           f_scope_path = cand_scope_path cand,
           f_detail = Some (jobj [(''marker'', JStr marker)])\<rparr>)
         (filter (contains lowered) META_MARKERS))"

text \<open>\<open>{:.0}\<close> of a ratio times 100: the nearest whole number, ties to even.\<close>

definition round_half_even :: "rat \<Rightarrow> int" where
  "round_half_even r =
     (let lo = \<lfloor>r\<rfloor>; d = r - of_int lo
      in if d < 1 / 2 then lo else if d > 1 / 2 then lo + 1
         else if even lo then lo else lo + 1)"

definition percent :: "f64 \<Rightarrow> string" where
  "percent r = dec_int (round_half_even (r * 100)) @ ''%''"

definition check_lexical_similarity :: "mesh_snapshot \<Rightarrow> candidate \<Rightarrow> gate_finding list" where
  "check_lexical_similarity sn cand =
     (if trim (cand_text cand) = [] then []
      else List.map_filter (\<lambda>(idx, prev).
        let ratio = similarity_ratio (cand_text cand) prev in
        if ratio \<ge> SIMILARITY_THRESHOLD then Some \<lparr>
          f_rule_id = RULE_SIMILARITY,
          f_severity = Warn,
          f_message = ''output is '' @ percent ratio @ '' similar to previous unit '' @ dec idx
             @ '' (threshold '' @ percent SIMILARITY_THRESHOLD @ '')'',
          f_scope_path = cand_scope_path cand,
          f_detail = Some (jobj [(''previous_index'', jnat idx), (''ratio'', JNum (Float ratio))])\<rparr>
        else None)
      (enumerate 0 (cand_previous_texts cand)))"

section \<open>Composition\<close>

text \<open>\<open>detail.get("claim_key").as_str()\<close>.\<close>

definition finding_claim_key :: "gate_finding \<Rightarrow> string option" where
  "finding_claim_key f =
     Option.bind (f_detail f) (\<lambda>d. Option.bind (jget d ''claim_key'') jas_str)"

definition run_gates_with_policies ::
    "mesh_snapshot \<Rightarrow> candidate \<Rightarrow> comparison_policies \<Rightarrow> gate_finding list" where
  "run_gates_with_policies sn cand ps =
     (let findings = check_anchor_consistency_with_policies sn cand ps;
          anchored_keys = List.map_filter finding_claim_key findings
      in findings
         @ filter (\<lambda>f. case finding_claim_key f of Some k \<Rightarrow> k \<notin> set anchored_keys | None \<Rightarrow> True)
             (check_ledger_conflict_with_policies sn cand ps)
         @ check_orphaned_reference sn cand
         @ check_meta_leakage sn cand
         @ check_lexical_similarity sn cand)"

definition run_gates :: "mesh_snapshot \<Rightarrow> candidate \<Rightarrow> gate_finding list" where
  "run_gates sn cand = run_gates_with_policies sn cand []"

definition downgrade_blocks :: "gate_finding list \<Rightarrow> gate_finding list" where
  "downgrade_blocks fs =
     map (\<lambda>f. if f_severity f = Block then f\<lparr>f_severity := Warn\<rparr> else f) fs"

definition blocked_claim_keys :: "gate_finding list \<Rightarrow> string set" where
  "blocked_claim_keys fs = set (List.map_filter finding_claim_key
     (filter (\<lambda>f. f_severity f = Block) fs))"

section \<open>Lemmas\<close>

definition contradicts_anchor :: "mesh_snapshot \<Rightarrow> comparison_policies \<Rightarrow> proposed_claim \<Rightarrow> bool" where
  "contradicts_anchor sn ps p \<longleftrightarrow> (\<exists>a. map_of (sn_anchors sn) (proposed_claim_key p) = Some a \<and>
     \<not> values_equivalent_with_policy (pc_value p) (a_locked_value a)
         (policy_for ps (proposed_claim_key p)))"

definition contradicts_canon :: "mesh_snapshot \<Rightarrow> comparison_policies \<Rightarrow> proposed_claim \<Rightarrow> bool" where
  "contradicts_canon sn ps p \<longleftrightarrow> pc_supersedes_id p = None \<and>
     (\<exists>c. canon_for sn (proposed_claim_key p) = Some c \<and>
       \<not> values_equivalent_with_policy (pc_value p) (c_value c)
           (policy_for ps (proposed_claim_key p)))"

lemma canon_for_latest: "canon_for sn k = Some c \<longleftrightarrow>
    (\<exists>ys zs. sn_facts sn = ys @ c # zs \<and> claim_key c = k \<and> (\<forall>z \<in> set zs. claim_key z \<noteq> k))"
  unfolding canon_for_def by (rule find_rev_Some)

lemma anchor_finding_simps [simp]:
  "f_severity (anchor_finding s p a) = Block"
  "f_rule_id (anchor_finding s p a) = RULE_ANCHOR"
  "finding_claim_key (anchor_finding s p a) = Some (proposed_claim_key p)"
  by (simp_all add: anchor_finding_def finding_claim_key_def)

lemma ledger_finding_simps [simp]:
  "f_severity (ledger_finding s p c) = Block"
  "f_rule_id (ledger_finding s p c) = RULE_LEDGER"
  "finding_claim_key (ledger_finding s p c) = Some (proposed_claim_key p)"
  by (simp_all add: ledger_finding_def finding_claim_key_def)

lemma bex_comprehension2: "(\<exists>f \<in> {g p a | p a. Q p a}. P f) \<longleftrightarrow> (\<exists>p a. Q p a \<and> P (g p a))"
  by blast

lemma set_anchor_gate: "set (check_anchor_consistency_with_policies sn cand ps) =
    {anchor_finding (cand_scope_path cand) p a | p a. p \<in> set (cand_claims cand @ cand_corrections cand)
       \<and> map_of (sn_anchors sn) (proposed_claim_key p) = Some a
       \<and> \<not> values_equivalent_with_policy (pc_value p) (a_locked_value a)
             (policy_for ps (proposed_claim_key p))}"
  by (auto simp: check_anchor_consistency_with_policies_def set_map_filter Let_def
      split: option.splits if_splits)

lemma set_ledger_gate: "set (check_ledger_conflict_with_policies sn cand ps) =
    {ledger_finding (cand_scope_path cand) p c | p c. p \<in> set (cand_claims cand)
       \<and> pc_supersedes_id p = None \<and> canon_for sn (proposed_claim_key p) = Some c
       \<and> \<not> values_equivalent_with_policy (pc_value p) (c_value c)
             (policy_for ps (proposed_claim_key p))}" (is "_ = ?R")
proof (rule set_eqI)
  fix f
  have "((if pc_supersedes_id p \<noteq> None then None
       else let key = proposed_claim_key p in
         (case canon_for sn key of None \<Rightarrow> None
          | Some existing \<Rightarrow>
              if \<not> values_equivalent_with_policy (pc_value p) (c_value existing) (policy_for ps key)
              then Some (ledger_finding (cand_scope_path cand) p existing) else None)) = Some f) \<longleftrightarrow>
      (\<exists>c. f = ledger_finding (cand_scope_path cand) p c \<and> pc_supersedes_id p = None
        \<and> canon_for sn (proposed_claim_key p) = Some c
        \<and> \<not> values_equivalent_with_policy (pc_value p) (c_value c)
             (policy_for ps (proposed_claim_key p)))" for p
    by (cases "canon_for sn (proposed_claim_key p)") (auto simp: Let_def)
  then show "f \<in> set (check_ledger_conflict_with_policies sn cand ps) \<longleftrightarrow> f \<in> ?R"
    unfolding check_ledger_conflict_with_policies_def set_map_filter by blast
qed

lemma ledger_gateI:
  "p \<in> set (cand_claims cand) \<Longrightarrow> pc_supersedes_id p = None \<Longrightarrow>
   canon_for sn (proposed_claim_key p) = Some c \<Longrightarrow>
   \<not> values_equivalent_with_policy (pc_value p) (c_value c) (policy_for ps (proposed_claim_key p)) \<Longrightarrow>
   ledger_finding (cand_scope_path cand) p c \<in> set (check_ledger_conflict_with_policies sn cand ps)"
  unfolding set_ledger_gate by blast

lemma orphan_gate_warns: "f \<in> set (check_orphaned_reference sn cand) \<Longrightarrow> f_severity f = Warn"
  by (auto simp: check_orphaned_reference_def set_map_filter Let_def split: if_splits)

lemma meta_gate_warns: "f \<in> set (check_meta_leakage sn cand) \<Longrightarrow> f_severity f = Warn"
  by (auto simp: check_meta_leakage_def Let_def)

lemma similarity_gate_warns: "f \<in> set (check_lexical_similarity sn cand) \<Longrightarrow> f_severity f = Warn"
  by (auto simp: check_lexical_similarity_def set_map_filter Let_def split: if_splits)

lemmas gate_warns = orphan_gate_warns meta_gate_warns similarity_gate_warns

lemma set_blocked: "blocked_claim_keys fs = {k. \<exists>f \<in> set fs. f_severity f = Block \<and> finding_claim_key f = Some k}"
  by (auto simp: blocked_claim_keys_def set_map_filter)

lemma blocked_append [simp]: "blocked_claim_keys (xs @ ys) = blocked_claim_keys xs \<union> blocked_claim_keys ys"
  by (auto simp: set_blocked)

lemma blocked_warns [simp]: "\<forall>f \<in> set fs. f_severity f = Warn \<Longrightarrow> blocked_claim_keys fs = {}"
  by (auto simp: set_blocked)

lemma blocked_anchor_gate: "blocked_claim_keys (check_anchor_consistency_with_policies sn cand ps) =
    proposed_claim_key ` {p \<in> set (cand_claims cand @ cand_corrections cand). contradicts_anchor sn ps p}"
  unfolding set_blocked set_anchor_gate bex_comprehension2
  by (auto simp: contradicts_anchor_def)

lemma blocked_ledger_gate: "blocked_claim_keys (check_ledger_conflict_with_policies sn cand ps) =
    proposed_claim_key ` {p \<in> set (cand_claims cand). contradicts_canon sn ps p}"
  unfolding set_blocked set_ledger_gate bex_comprehension2
  by (auto simp: contradicts_canon_def)

lemma anchor_gate_blocks:
  "f \<in> set (check_anchor_consistency_with_policies sn cand ps) \<Longrightarrow> f_severity f = Block"
  by (auto simp: set_anchor_gate)

lemma anchored_keys: "set (List.map_filter finding_claim_key (check_anchor_consistency_with_policies sn cand ps))
    = blocked_claim_keys (check_anchor_consistency_with_policies sn cand ps)"
  by (auto simp: set_map_filter set_blocked dest: anchor_gate_blocks)

lemma set_run_gates: "set (run_gates_with_policies sn cand ps) =
    set (check_anchor_consistency_with_policies sn cand ps)
    \<union> {f \<in> set (check_ledger_conflict_with_policies sn cand ps).
         finding_claim_key f \<notin> Some ` blocked_claim_keys (check_anchor_consistency_with_policies sn cand ps)}
    \<union> set (check_orphaned_reference sn cand) \<union> set (check_meta_leakage sn cand)
    \<union> set (check_lexical_similarity sn cand)"
  unfolding run_gates_with_policies_def Let_def anchored_keys
  by (auto split: option.splits)

lemma blocked_run_gates: "blocked_claim_keys (run_gates_with_policies sn cand ps) =
    blocked_claim_keys (check_anchor_consistency_with_policies sn cand ps)
    \<union> blocked_claim_keys (check_ledger_conflict_with_policies sn cand ps)" (is "?L = ?A \<union> ?B")
proof (intro set_eqI iffI)
  fix k assume "k \<in> ?L"
  then show "k \<in> ?A \<union> ?B" unfolding set_blocked[of "run_gates_with_policies sn cand ps"] set_run_gates
    by (auto dest!: gate_warns) (auto simp: set_blocked)
next
  fix k assume "k \<in> ?A \<union> ?B"
  then consider "k \<in> ?A" | "k \<notin> ?A" "k \<in> ?B" by blast
  then show "k \<in> ?L"
  proof cases
    case 1
    then show ?thesis unfolding set_blocked set_run_gates by blast
  next
    case 2
    then obtain f where f: "f \<in> set (check_ledger_conflict_with_policies sn cand ps)"
      "f_severity f = Block" "finding_claim_key f = Some k" by (auto simp: set_blocked)
    with 2(1) have "f \<in> set (run_gates_with_policies sn cand ps)" by (auto simp: set_run_gates)
    with f show ?thesis by (auto simp: set_blocked)
  qed
qed

lemma policy_for_Nil [simp]: "policy_for [] k = LegacyTextV1"
  by (simp add: policy_for_def policy_default_def)

text \<open>Exact equality implies the legacy equivalence: a stricter policy separates more values.\<close>

definition stricter :: "comparison_policies \<Rightarrow> comparison_policies \<Rightarrow> bool" where
  "stricter ps qs \<longleftrightarrow> (\<forall>k. policy_for qs k = ExactStringV1 \<longrightarrow> policy_for ps k = ExactStringV1)"

lemma stricter_separates:
  assumes "stricter ps qs" "\<not> values_equivalent_with_policy a b (policy_for qs k)"
  shows "\<not> values_equivalent_with_policy a b (policy_for ps k)"
  using assms by (cases "policy_for ps k"; cases "policy_for qs k") (auto simp: stricter_def)

lemma contradicts_mono:
  assumes "stricter ps qs"
  shows "contradicts_anchor sn qs p \<Longrightarrow> contradicts_anchor sn ps p"
    and "contradicts_canon sn qs p \<Longrightarrow> contradicts_canon sn ps p"
  using stricter_separates[OF assms]
  by (auto simp: contradicts_anchor_def contradicts_canon_def)

lemma bind_policy_Inr: "bind_policy m (k, p) = Inr m' \<longleftrightarrow>
    m' = bt_insert k p m \<and> (map_of m k = None \<or> map_of m k = Some p)"
  by (auto simp: Let_def split: option.splits)

lemma bind_policy_Inl: "bind_policy m (k, p) = Inl e \<longleftrightarrow>
    (\<exists>p'. map_of m k = Some p' \<and> p' \<noteq> p)
    \<and> e = InvalidInput (''conflicting comparison policies for '' @ quoted k)"
  by (auto simp: Let_def split: option.splits)

declare bind_policy.simps [simp del]

lemma bindings_fold_mono:
  "res_fold bind_policy m bs = Inr r \<Longrightarrow> map_of m k = Some p \<Longrightarrow> map_of r k = Some p"
proof (induction bs arbitrary: m)
  case (Cons b bs)
  obtain k' p' where b: "b = (k', p')" by force
  with Cons.prems have "res_fold bind_policy (bt_insert k' p' m) bs = Inr r"
    "map_of (bt_insert k' p' m) k = Some p"
    by (auto simp: res_bind_eq_Inr bind_policy_Inr)
  then show ?case by (rule Cons.IH)
qed simp

lemma bindings_fold_all:
  "res_fold bind_policy m bs = Inr r \<Longrightarrow> (k, p) \<in> set bs \<Longrightarrow> map_of r k = Some p"
proof (induction bs arbitrary: m)
  case (Cons b bs)
  then show ?case
    by (cases b) (auto simp: res_bind_eq_Inr bind_policy_Inr dest: bindings_fold_mono)
qed simp

lemma bindings_fold_only:
  "res_fold bind_policy m bs = Inr r \<Longrightarrow> map_of r k = Some p \<Longrightarrow> map_of m k = Some p \<or> (k, p) \<in> set bs"
proof (induction bs arbitrary: m)
  case (Cons b bs)
  obtain k' p' where b: "b = (k', p')" by force
  with Cons.prems have "res_fold bind_policy (bt_insert k' p' m) bs = Inr r"
    by (auto simp: res_bind_eq_Inr bind_policy_Inr)
  from Cons.IH[OF this Cons.prems(2)] show ?case by (auto simp: b split: if_splits)
qed simp

lemma bindings_fold_Inl:
  "res_fold bind_policy m bs = Inl e \<Longrightarrow>
     \<exists>k p p'. (k, p) \<in> set bs \<and> p' \<noteq> p \<and> (map_of m k = Some p' \<or> (k, p') \<in> set bs)"
proof (induction bs arbitrary: m)
  case (Cons b bs)
  obtain k p where b: "b = (k, p)" by force
  show ?case
  proof (cases "bind_policy m b")
    case (Inl e')
    then show ?thesis by (auto simp: b bind_policy_Inl)
  next
    case (Inr m')
    with Cons.prems have "res_fold bind_policy m' bs = Inl e" by simp
    from Cons.IH[OF this] obtain k2 p2 p2' where
      "(k2, p2) \<in> set bs" "p2' \<noteq> p2" "map_of m' k2 = Some p2' \<or> (k2, p2') \<in> set bs" by blast
    moreover have "m' = bt_insert k p m" using Inr b by (simp add: bind_policy_Inr)
    ultimately show ?thesis by (auto simp: b split: if_splits)
  qed
qed simp

section \<open>Properties\<close>

text \<open>C3. The keys the accept path disputes are exactly the keys of the claims and corrections
  that contradict a locked anchor, and of the plain claims naming no superseded claim that
  contradict canon, where canon is the last fact of the key.\<close>

theorem blocked_claims_exact:
  "blocked_claim_keys (run_gates_with_policies sn cand ps) =
     proposed_claim_key ` ({p \<in> set (cand_claims cand @ cand_corrections cand). contradicts_anchor sn ps p}
       \<union> {p \<in> set (cand_claims cand). contradicts_canon sn ps p})
   \<and> (canon_for sn k = Some c) = (\<exists>ys zs. sn_facts sn = ys @ c # zs \<and> claim_key c = k
        \<and> k \<notin> claim_key ` set zs)"
proof -
  have "(\<forall>z \<in> set zs. claim_key z \<noteq> k) \<longleftrightarrow> k \<notin> claim_key ` set zs" for zs by auto
  then show ?thesis
    unfolding blocked_run_gates blocked_anchor_gate blocked_ledger_gate canon_for_latest
    by (simp add: image_Un)
qed

text \<open>No key draws both findings: when some claim of a key contradicts its anchor, the gates
  report no ledger conflict for that key.\<close>

theorem anchor_finding_subsumes_ledger:
  assumes "f \<in> set (run_gates_with_policies sn cand ps)" "f_rule_id f = RULE_LEDGER"
    and "p \<in> set (cand_claims cand @ cand_corrections cand)" "contradicts_anchor sn ps p"
  shows "finding_claim_key f \<noteq> Some (proposed_claim_key p)"
proof
  assume key: "finding_claim_key f = Some (proposed_claim_key p)"
  have blocked: "proposed_claim_key p \<in> blocked_claim_keys (check_anchor_consistency_with_policies sn cand ps)"
    using assms(3,4) by (auto simp: blocked_anchor_gate)
  have "f \<notin> set (check_anchor_consistency_with_policies sn cand ps)"
    using assms(2) by (auto simp: set_anchor_gate RULE_ANCHOR_def RULE_LEDGER_def)
  moreover have "f \<notin> set (check_orphaned_reference sn cand)"
    "f \<notin> set (check_meta_leakage sn cand)" "f \<notin> set (check_lexical_similarity sn cand)"
    using assms(2) by (auto simp: check_orphaned_reference_def check_meta_leakage_def Let_def
        check_lexical_similarity_def set_map_filter RULE_LEDGER_def RULE_ORPHAN_def RULE_META_def
        RULE_SIMILARITY_def split: if_splits)
  ultimately show False using assms(1) key blocked by (auto simp: set_run_gates)
qed

definition eye_claim :: "string \<Rightarrow> proposed_claim" where
  "eye_claim v = \<lparr>pc_claim_type = Fact, pc_subject = ''hero'', pc_key = ''eyes'', pc_value = v,
     pc_supersedes_id = None\<rparr>"

definition eye_snapshot :: mesh_snapshot where
  "eye_snapshot = snapshot_default\<lparr>
     sn_facts := [plain_claim ''c1'' 1 ''hero'' ''eyes'' ''green'' None],
     sn_anchors := [(''hero.eyes'', \<lparr>a_id = ''a1'', a_version_id = ''v1'', a_detail_key = ''hero.eyes'',
        a_locked_value = ''Green'', a_locked_at_scope = None, a_status = Locked, a_seq = 2,
        a_evidence = None\<rparr>)]\<rparr>"

lemmas eye_defs = eye_claim_def eye_snapshot_def snapshot_default_def candidate_default_def
  plain_claim_def proposed_claim_key_def claim_key_def claim_key_of_def
  contradicts_anchor_def contradicts_canon_def canon_for_def policy_for_def policy_default_def
  fold_text_def split_whitespace_def to_lower_def lower_char_def is_ws_def

definition hair_claim :: proposed_claim where
  "hair_claim = \<lparr>pc_claim_type = Fact, pc_subject = ''hero'', pc_key = ''hair'', pc_value = ''blue'',
     pc_supersedes_id = None\<rparr>"

theorem anchor_finding_subsumes_ledger_witness:
  "finding_claim_key (ledger_finding None hair_claim (plain_claim ''c2'' 2 ''hero'' ''hair'' ''red'' None))
     \<noteq> Some (proposed_claim_key (eye_claim ''blue''))"
proof -
  let ?red = "plain_claim ''c2'' 2 ''hero'' ''hair'' ''red'' None"
  let ?sn = "eye_snapshot\<lparr>sn_facts := [?red]\<rparr>"
  let ?cand = "candidate_default\<lparr>cand_claims := [eye_claim ''blue'', hair_claim]\<rparr>"
  note defs = eye_defs hair_claim_def
  have anch: "contradicts_anchor ?sn [] (eye_claim ''blue'')" by (simp add: defs Let_def str_simps)
  have "ledger_finding (cand_scope_path ?cand) hair_claim ?red
      \<in> set (check_ledger_conflict_with_policies ?sn ?cand [])"
    by (rule ledger_gateI) (simp_all add: defs Let_def str_simps)
  moreover have "\<not> contradicts_anchor ?sn [] hair_claim" by (simp add: defs)
  then have "proposed_claim_key hair_claim
      \<notin> blocked_claim_keys (check_anchor_consistency_with_policies ?sn ?cand [])"
    by (auto simp: blocked_anchor_gate defs)
  ultimately have "ledger_finding (cand_scope_path ?cand) hair_claim ?red
      \<in> set (run_gates_with_policies ?sn ?cand [])"
    by (auto simp: set_run_gates)
  from anchor_finding_subsumes_ledger[OF this _ _ anch] show ?thesis
    by (simp add: candidate_default_def)
qed

text \<open>Tightening comparison policies (binding more keys to exact comparison) can only add
  blocked keys.\<close>

theorem stricter_policies_block_more:
  assumes "stricter ps qs"
  shows "blocked_claim_keys (run_gates_with_policies sn cand qs)
    \<subseteq> blocked_claim_keys (run_gates_with_policies sn cand ps)"
  unfolding blocked_run_gates blocked_anchor_gate blocked_ledger_gate
  using contradicts_mono[OF assms] by blast

theorem stricter_policies_block_more_witness:
  "blocked_claim_keys (run_gates eye_snapshot (candidate_default\<lparr>cand_claims := [eye_claim ''blue'']\<rparr>))
    \<subseteq> blocked_claim_keys (run_gates_with_policies eye_snapshot
        (candidate_default\<lparr>cand_claims := [eye_claim ''blue'']\<rparr>) [(''hero.eyes'', ExactStringV1)])"
  unfolding run_gates_def by (rule stricter_policies_block_more) (simp add: stricter_def)

text \<open>A unit that restates canon is never blocked: if every claim's value is equivalent to the
  anchor and to the canon of its key, no key is blocked; and in backfill mode, where blocks are
  downgraded, nothing is blocked whatever the findings.\<close>

theorem restating_canon_never_blocks:
  assumes "\<And>p a. p \<in> set (cand_claims cand @ cand_corrections cand) \<Longrightarrow>
      map_of (sn_anchors sn) (proposed_claim_key p) = Some a \<Longrightarrow> pc_value p = a_locked_value a"
    and "\<And>p c. p \<in> set (cand_claims cand) \<Longrightarrow> canon_for sn (proposed_claim_key p) = Some c \<Longrightarrow>
      pc_value p = c_value c"
  shows "blocked_claim_keys (run_gates_with_policies sn cand ps) = {}
    \<and> blocked_claim_keys (downgrade_blocks fs) = {}"
proof -
  have "\<not> contradicts_anchor sn ps p" if "p \<in> set (cand_claims cand @ cand_corrections cand)" for p
    using assms(1)[OF that] cmp.eqv_refl by (auto simp: contradicts_anchor_def)
  moreover have "\<not> contradicts_canon sn ps p" if "p \<in> set (cand_claims cand)" for p
    using assms(2)[OF that] cmp.eqv_refl by (auto simp: contradicts_canon_def)
  ultimately have "blocked_claim_keys (run_gates_with_policies sn cand ps) = {}"
    unfolding blocked_run_gates blocked_anchor_gate blocked_ledger_gate by blast
  moreover have "blocked_claim_keys (downgrade_blocks fs) = {}"
    by (auto simp: set_blocked downgrade_blocks_def split: if_splits)
  ultimately show ?thesis by simp
qed

theorem restating_canon_never_blocks_witness:
  "blocked_claim_keys (run_gates_with_policies (eye_snapshot\<lparr>sn_anchors := []\<rparr>)
       (candidate_default\<lparr>cand_claims := [eye_claim ''green'']\<rparr>) []) = {}"
proof -
  have "blocked_claim_keys (run_gates_with_policies (eye_snapshot\<lparr>sn_anchors := []\<rparr>)
       (candidate_default\<lparr>cand_claims := [eye_claim ''green'']\<rparr>) []) = {}
     \<and> blocked_claim_keys (downgrade_blocks []) = {}"
    by (rule restating_canon_never_blocks) (auto simp: eye_defs)
  then show ?thesis ..
qed

text \<open>Construction of the policy bindings never lets the order of the input choose: it
  succeeds exactly when no key is bound to two policies, and then every key is looked up as
  bound, unbound keys to the legacy policy.\<close>

theorem bindings_order_independent:
  "((\<exists>r. try_from_bindings bs = Inr r) =
      (\<forall>k p p'. (k, p) \<in> set bs \<and> (k, p') \<in> set bs \<longrightarrow> p = p'))
   \<and> (try_from_bindings bs = Inr r \<longrightarrow>
        policy_for r k = (if \<exists>p. (k, p) \<in> set bs then (THE p. (k, p) \<in> set bs) else LegacyTextV1))"
proof -
  have uniq: "p = p'" if "try_from_bindings bs = Inr r" "(k, p) \<in> set bs" "(k, p') \<in> set bs" for r k p p'
    using that bindings_fold_all[of "[]" bs r k] unfolding try_from_bindings_def by (metis option.inject)
  have ex: "\<exists>r. try_from_bindings bs = Inr r"
    if "\<forall>k p p'. (k, p) \<in> set bs \<and> (k, p') \<in> set bs \<longrightarrow> p = p'"
  proof (cases "try_from_bindings bs")
    case (Inl e)
    then show ?thesis using bindings_fold_Inl[of "[]" bs e] that
      by (auto simp: try_from_bindings_def)
  qed simp
  have look: "policy_for r k = (if \<exists>p. (k, p) \<in> set bs then (THE p. (k, p) \<in> set bs) else LegacyTextV1)"
    if r: "try_from_bindings bs = Inr r"
  proof (cases "\<exists>p. (k, p) \<in> set bs")
    case True
    then obtain p where p: "(k, p) \<in> set bs" by blast
    then have "(THE p. (k, p) \<in> set bs) = p" using uniq[OF r] by blast
    moreover have "map_of r k = Some p"
      using r p bindings_fold_all unfolding try_from_bindings_def by blast
    ultimately show ?thesis using True by (simp add: policy_for_def)
  next
    case False
    then have "map_of r k = None"
      using r bindings_fold_only[of "[]" bs r k] unfolding try_from_bindings_def
      by (cases "map_of r k") auto
    then show ?thesis using False by (simp add: policy_for_def policy_default_def)
  qed
  from uniq ex look show ?thesis by blast
qed

theorem bindings_order_independent_witness:
  "policy_for [(''a.b'', ExactStringV1)] ''a.b'' = ExactStringV1
   \<and> (\<exists>r. try_from_bindings [(''a.b'', ExactStringV1), (''a.b'', ExactStringV1)] = Inr r)"
proof -
  let ?bs = "[(''a.b'', ExactStringV1), (''a.b'', ExactStringV1)]"
  note P = bindings_order_independent[of ?bs "[(''a.b'', ExactStringV1)]" "''a.b''"]
  have "\<exists>r. try_from_bindings ?bs = Inr r" using P by auto
  moreover have "try_from_bindings ?bs = Inr [(''a.b'', ExactStringV1)]"
    by (simp add: try_from_bindings_def bind_policy.simps)
  ultimately show ?thesis by (simp add: policy_for_def)
qed

text \<open>A unit whose text repeats an earlier unit up to case draws a repetition warning for that
  unit, and such warnings block nothing.\<close>

theorem repetition_always_reported:
  assumes "i < length (cand_previous_texts cand)" "trim (cand_text cand) \<noteq> []"
    and "to_lower (cand_previous_texts cand ! i) = to_lower (cand_text cand)"
  shows "\<exists>f \<in> set (run_gates_with_policies sn cand ps). f_rule_id f = RULE_SIMILARITY
    \<and> f_severity f = Warn
    \<and> Option.bind (f_detail f) (\<lambda>d. jget d ''previous_index'') = Some (jnat i)"
proof -
  let ?prev = "cand_previous_texts cand ! i"
  have r: "similarity_ratio (cand_text cand) ?prev = 1" using assms(3) by (simp add: ratio_one)
  let ?f = "\<lparr>f_rule_id = RULE_SIMILARITY, f_severity = Warn,
      f_message = ''output is '' @ percent 1 @ '' similar to previous unit '' @ dec i
         @ '' (threshold '' @ percent SIMILARITY_THRESHOLD @ '')'',
      f_scope_path = cand_scope_path cand,
      f_detail = Some (jobj [(''previous_index'', jnat i), (''ratio'', JNum (Float 1))])\<rparr>"
  have "(i, ?prev) \<in> set (enumerate 0 (cand_previous_texts cand))"
    using assms(1) by (auto simp: in_set_enumerate_eq)
  then have "?f \<in> set (check_lexical_similarity sn cand)"
    unfolding check_lexical_similarity_def set_map_filter
    using assms(2) r by (auto simp: set_map_filter SIMILARITY_THRESHOLD_def intro!: bexI[of _ "(i, ?prev)"])
  then show ?thesis by (intro bexI[of _ ?f]) (auto simp: set_run_gates)
qed

theorem repetition_always_reported_witness:
  "\<exists>f \<in> set (run_gates_with_policies snapshot_default
       (candidate_default\<lparr>cand_text := ''Rain'', cand_previous_texts := [''x'', ''rain'']\<rparr>) []).
     f_rule_id f = RULE_SIMILARITY \<and> f_severity f = Warn
     \<and> Option.bind (f_detail f) (\<lambda>d. jget d ''previous_index'') = Some (jnat 1)"
  by (rule repetition_always_reported)
    (simp_all add: candidate_default_def trim_def is_ws_def to_lower_def lower_char_def str_simps)

end
