(* ===== verification/Registers.thy ===== *)
theory Registers
  imports Kernel_Types
begin

text \<open>
  The pure parts of the promise registry (\<open>munarium-core/src/promises.rs\<close>) and of the
  whole-document counters (\<open>counters.rs\<close>). The stores of both are in \<open>Mem_Store\<close>.
\<close>

section \<open>Promises\<close>

definition RULE_PROMISE :: string where "RULE_PROMISE = ''gate.promise-unfulfilled''"

definition find_overdue :: "promise list \<Rightarrow> string option \<Rightarrow> bool \<Rightarrow> gate_finding list" where
  "find_overdue promises current_scope is_final_unit =
     map (\<lambda>p. \<lparr>
        f_rule_id = RULE_PROMISE,
        f_severity = Warn,
        f_message = (if is_final_unit
          then ''promise '' @ quoted (p_key p) @ '' is still open at the final unit: '' @ p_description p
          else ''promise '' @ quoted (p_key p) @ '' was due at scope ''
            @ quoted (case p_due_scope p of None \<Rightarrow> [] | Some d \<Rightarrow> d) @ '' and is still open''),
        f_scope_path = current_scope,
        f_detail = Some (jobj [(''promise_key'', JStr (p_key p)), (''promise_id'', JStr (p_id p))])\<rparr>)
      (filter (\<lambda>p. is_final_unit \<or> p_due_scope p \<noteq> None \<and> p_due_scope p = current_scope)
        (filter (\<lambda>p. p_status p = Open) promises))"

fun status_view :: "seq option \<Rightarrow> seq option \<Rightarrow> promise_status \<Rightarrow> promise_status" where
  "status_view (Some pin) (Some fulfilled) Fulfilled =
     (if pin < fulfilled then Open else Fulfilled)"
| "status_view _ _ st = st"

definition status_as_of :: "promise \<Rightarrow> seq option \<Rightarrow> promise_status" where
  "status_as_of p as_of = status_view as_of (p_fulfilled_seq p) (p_status p)"

section \<open>Counters\<close>

definition RULE_COUNTER :: string where "RULE_COUNTER = ''gate.counter-budget''"

text \<open>\<open>str::matches(pattern).count()\<close>: occurrences from the left, not overlapping.\<close>

function count_matches :: "string \<Rightarrow> string \<Rightarrow> nat" where
  "count_matches s p =
     (if s = [] \<or> p = [] then 0
      else if starts_with s p then Suc (count_matches (drop (length p) s) p)
      else count_matches (tl s) p)"
  by pat_completeness auto
termination
  by (relation "measure (\<lambda>(s, p). length s)") auto

declare count_matches.simps [simp del]

definition count_pattern :: "string \<Rightarrow> string \<Rightarrow> nat" where
  "count_pattern t pattern =
     (if pattern = [] then 0 else count_matches (to_lower t) (to_lower pattern))"

definition over_budget :: "counter_total \<Rightarrow> bool" where
  "over_budget t = (case ct_budget t of None \<Rightarrow> False | Some b \<Rightarrow> b < ct_total t)"

definition check_budgets :: "counter_total list \<Rightarrow> string option \<Rightarrow> gate_finding list" where
  "check_budgets totals scope_path =
     map (\<lambda>t. \<lparr>
        f_rule_id = RULE_COUNTER,
        f_severity = Warn,
        f_message = ''counter '' @ quoted (ct_key t) @ '' at '' @ dec (ct_total t)
          @ '' exceeds whole-document budget '' @ dec (case ct_budget t of None \<Rightarrow> 0 | Some b \<Rightarrow> b),
        f_scope_path = scope_path,
        f_detail = Some (jobj [(''counter_key'', JStr (ct_key t)), (''total'', jnat (ct_total t)),
          (''budget'', jopt jnat (ct_budget t))])\<rparr>)
      (filter over_budget totals)"

text \<open>The directive lines. The messages print an em dash, U+2014, which is outside Latin-1: the
  argument \<open>dash\<close> stands for that one-character literal.\<close>

definition directive_lines :: "string \<Rightarrow> counter_total \<Rightarrow> string list" where
  "directive_lines dash t =
     (case ct_budget t of
        None \<Rightarrow> []
      | Some budget \<Rightarrow>
          (ct_key t @ '': used '' @ dec (ct_total t) @ ''/'' @ dec budget)
          # (if ct_total t \<ge> budget
             then [''AVOID: '' @ quoted (ct_key t) @ '' '' @ dash @ '' budget exhausted'']
             else if ct_total t + 1 = budget
             then [''CAUTION: '' @ quoted (ct_key t) @ '' '' @ dash @ '' one use remaining'']
             else []))"

definition directives :: "string \<Rightarrow> counter_total list \<Rightarrow> string" where
  "directives dash totals = join [CHR 0x0A] (concat (map (directive_lines dash) totals))"

section \<open>Lemmas\<close>

lemma count_matches_Nil [simp]: "count_matches [] p = 0"
  by (simp add: count_matches.simps)

lemma count_matches_hit:
  "p \<noteq> [] \<Longrightarrow> count_matches (p @ s) p = Suc (count_matches s p)"
  by (subst count_matches.simps) (auto simp: starts_with_iff)

text \<open>The occurrences do not overlap: together they fit into the text.\<close>

lemma count_matches_bound: "length p * count_matches s p \<le> length s"
proof (induction s p rule: count_matches.induct)
  case (1 s p)
  consider "s = [] \<or> p = []" | "s \<noteq> []" "p \<noteq> []" "starts_with s p" | "s \<noteq> []" "p \<noteq> []" "\<not> starts_with s p"
    by blast
  then show ?case
  proof cases
    case 1
    then show ?thesis by (simp add: count_matches.simps)
  next
    case 2
    then have "length p \<le> length s" by (auto simp: starts_with_iff)
    then show ?thesis using "1.IH"(1) 2 by (simp add: count_matches.simps[of s p])
  next
    case 3
    then show ?thesis using "1.IH"(2) by (auto simp: count_matches.simps[of s p] intro: order_trans)
  qed
qed

lemma count_matches_pos: "p \<noteq> [] \<Longrightarrow> 0 < count_matches s p \<longleftrightarrow> contains s p"
proof (induction s p rule: count_matches.induct)
  case (1 s p)
  show ?case
  proof (cases "s = []")
    case True
    then show ?thesis using "1.prems" by (simp add: contains_def)
  next
    case False
    then obtain c cs where s: "s = c # cs" by (cases s) auto
    show ?thesis
    proof (cases "starts_with s p")
      case True
      then show ?thesis using "1.prems" s
        by (subst count_matches.simps) (simp add: contains_def)
    next
      case nf: False
      then have "count_matches s p = count_matches cs p" using "1.prems" s
        by (subst count_matches.simps) simp
      then show ?thesis using nf False "1.prems" "1.IH"(2) s by (simp add: contains_def)
    qed
  qed
qed

lemma status_view_pinned: "status_view (Some pin) (Some f) st =
    (if st = Fulfilled \<and> pin < f then Open else st)"
  by (cases st) auto

lemma status_view_other [simp]: "status_view None f st = st" "status_view pin None st = st"
  by (cases pin; cases f; cases st; simp)+

section \<open>Properties\<close>

text \<open>A counter pattern is counted exactly when it occurs, up to case, and the counted
  occurrences do not overlap: together they are no longer than the text.\<close>

theorem count_pattern_sound:
  "length pattern * count_pattern t pattern \<le> length t
   \<and> (0 < count_pattern t pattern) = (pattern \<noteq> [] \<and> contains (to_lower t) (to_lower pattern))"
proof -
  have "length (to_lower pattern) * count_matches (to_lower t) (to_lower pattern) \<le> length (to_lower t)"
    by (rule count_matches_bound)
  moreover have "to_lower pattern = [] \<longleftrightarrow> pattern = []" by (simp add: to_lower_def)
  ultimately show ?thesis
    using count_matches_pos[of "to_lower pattern" "to_lower t"]
    by (auto simp: count_pattern_def to_lower_def)
qed

text \<open>The budget check and the composer's directives agree: a counter over its budget draws
  exactly one warning and an avoid line, and a counter without a budget draws neither.\<close>

theorem budgets_and_directives_agree:
  "map (\<lambda>f. Option.bind (f_detail f) (\<lambda>d. jget d ''counter_key'')) (check_budgets totals sc)
     = map (\<lambda>t. Some (JStr (ct_key t))) (filter over_budget totals)
   \<and> (over_budget t \<longrightarrow>
        ''AVOID: '' @ quoted (ct_key t) @ '' '' @ dash @ '' budget exhausted'' \<in> set (directive_lines dash t))
   \<and> (ct_budget t = None \<longrightarrow> directive_lines dash t = [] \<and> \<not> over_budget t)"
proof (intro conjI impI)
  show "map (\<lambda>f. Option.bind (f_detail f) (\<lambda>d. jget d ''counter_key'')) (check_budgets totals sc)
     = map (\<lambda>t. Some (JStr (ct_key t))) (filter over_budget totals)"
    unfolding check_budgets_def map_map comp_def by simp
  show "over_budget t \<Longrightarrow>
      ''AVOID: '' @ quoted (ct_key t) @ '' '' @ dash @ '' budget exhausted'' \<in> set (directive_lines dash t)"
    by (cases "ct_budget t") (simp_all add: over_budget_def directive_lines_def)
  show "ct_budget t = None \<Longrightarrow> directive_lines dash t = []" by (simp add: directive_lines_def)
  show "ct_budget t = None \<Longrightarrow> \<not> over_budget t" by (simp add: over_budget_def)
qed

theorem budgets_and_directives_agree_witness:
  "''AVOID: '' @ quoted ''storm'' @ '' '' @ ''-'' @ '' budget exhausted''
     \<in> set (directive_lines ''-'' \<lparr>ct_key = ''storm'', ct_total = 3, ct_budget = Some 2\<rparr>)"
proof -
  let ?t = "\<lparr>ct_key = ''storm'', ct_total = 3, ct_budget = Some 2\<rparr>"
  have "over_budget ?t" by (simp add: over_budget_def)
  then have "''AVOID: '' @ quoted (ct_key ?t) @ '' '' @ ''-'' @ '' budget exhausted''
      \<in> set (directive_lines ''-'' ?t)"
    using budgets_and_directives_agree[of "[]" None ?t "''-''"] by blast
  then show ?thesis by simp
qed

text \<open>Overdue promises are exactly the open ones that are due: all of them at the final unit,
  otherwise those due at the current scope; and a pinned read shows a promise fulfilled after the
  pin as open and changes no other status.\<close>

theorem overdue_promises_exact:
  "map (\<lambda>f. Option.bind (f_detail f) (\<lambda>d. jget d ''promise_id'')) (find_overdue ps sc final)
     = map (\<lambda>p. Some (JStr (p_id p)))
         (filter (\<lambda>p. p_status p = Open \<and> (final \<or> p_due_scope p \<noteq> None \<and> p_due_scope p = sc)) ps)
   \<and> status_as_of p pin =
       (if p_status p = Fulfilled \<and> (\<exists>n f. pin = Some n \<and> p_fulfilled_seq p = Some f \<and> n < f)
        then Open else p_status p)"
proof -
  have "status_as_of p pin =
       (if p_status p = Fulfilled \<and> (\<exists>n f. pin = Some n \<and> p_fulfilled_seq p = Some f \<and> n < f)
        then Open else p_status p)"
    by (cases pin; cases "p_fulfilled_seq p"; simp add: status_as_of_def status_view_pinned)
  moreover have "map (\<lambda>f. Option.bind (f_detail f) (\<lambda>d. jget d ''promise_id'')) (find_overdue ps sc final)
     = map (\<lambda>p. Some (JStr (p_id p)))
         (filter (\<lambda>p. p_status p = Open \<and> (final \<or> p_due_scope p \<noteq> None \<and> p_due_scope p = sc)) ps)"
    unfolding find_overdue_def filter_filter map_map comp_def by simp
  ultimately show ?thesis by blast
qed

end
