(* ===== verification/Digests.thy ===== *)
theory Digests
  imports Ledger "HOL-Library.Multiset"
begin

text \<open>
  The digest ladder (\<open>munarium-core/src/digests.rs\<close>): deterministic rungs over the facts, one
  per scope, one per scope group, one for the lineage. \<open>sha\<close> stands for the hexadecimal SHA-256
  of a text's bytes, which the \<open>sha2\<close> and \<open>hex\<close> crates compute.
\<close>

definition group_of :: "string \<Rightarrow> string" where
  "group_of scope = (case split_on (\<lambda>c. c = CHR ''.'') scope of [] \<Rightarrow> scope | g # _ \<Rightarrow> g)"

definition scope_or_empty :: "claim \<Rightarrow> string" where
  "scope_or_empty f = (case c_scope_path f of None \<Rightarrow> [] | Some s \<Rightarrow> s)"

text \<open>The number of distinct scopes, the size of the code's \<open>BTreeSet\<close>.\<close>

definition scope_count :: "claim list \<Rightarrow> nat" where
  "scope_count cs = length (remdups (List.map_filter c_scope_path cs))"

definition build_tier0 :: "(string \<Rightarrow> string) \<Rightarrow> string \<Rightarrow> claim list \<Rightarrow> digest list" where
  "build_tier0 sha version_id facts =
     map (\<lambda>(scope, claims).
       let built = max_or_0 (map c_seq claims);
           lines = map normalized_text claims;
           content = ''['' @ scope @ ''] '' @ dec (length lines) @ '' facts'' @ [CHR 0x0A]
             @ join [CHR 0x0A] lines
       in \<lparr>d_version_id = version_id, d_tier = 0, d_scope_path = scope, d_content = content,
           d_content_hash = sha content, d_built_from_seq = built\<rparr>)
     (group_by scope_or_empty facts)"

definition build_tier1 :: "(string \<Rightarrow> string) \<Rightarrow> string \<Rightarrow> claim list \<Rightarrow> digest list" where
  "build_tier1 sha version_id facts =
     map (\<lambda>(grp, claims).
       let built = max_or_0 (map c_seq claims);
           keys = remdups_adj (sort (map claim_key claims));
           content = ''[group '' @ grp @ ''] '' @ dec (length claims) @ '' facts across ''
             @ dec (scope_count claims) @ '' scopes; keys: '' @ join '', '' keys
       in \<lparr>d_version_id = version_id, d_tier = 1, d_scope_path = grp, d_content = content,
           d_content_hash = sha content, d_built_from_seq = built\<rparr>)
     (group_by (\<lambda>f. group_of (scope_or_empty f)) facts)"

definition build_tier2 :: "(string \<Rightarrow> string) \<Rightarrow> string \<Rightarrow> claim list \<Rightarrow> digest" where
  "build_tier2 sha version_id facts =
     (let built = max_or_0 (map c_seq facts);
          subjects = remdups_adj (sort (map c_subject facts));
          content = ''[rollup] '' @ dec (length facts) @ '' facts, '' @ dec (scope_count facts)
            @ '' scopes, '' @ dec (length subjects) @ '' subjects: '' @ join '', '' subjects
      in \<lparr>d_version_id = version_id, d_tier = 2, d_scope_path = [], d_content = content,
          d_content_hash = sha content, d_built_from_seq = built\<rparr>)"

definition build_ladder :: "(string \<Rightarrow> string) \<Rightarrow> string \<Rightarrow> claim list \<Rightarrow> digest list" where
  "build_ladder sha version_id facts =
     build_tier0 sha version_id facts @ build_tier1 sha version_id facts
     @ [build_tier2 sha version_id facts]"

section \<open>Lemmas\<close>

lemma max_or_0_mset: "mset xs = mset ys \<Longrightarrow> max_or_0 xs = max_or_0 ys"
  by (metis (no_types) max_or_0_le_iff order_antisym order_refl set_mset_mset)

lemma scope_count_mset:
  assumes "mset xs = mset ys"
  shows "scope_count xs = scope_count ys"
proof -
  have "set xs = set ys" using assms by (rule mset_eq_setD)
  then have "set (List.map_filter c_scope_path xs) = set (List.map_filter c_scope_path ys)"
    by (simp add: set_map_filter)
  then show ?thesis by (simp add: scope_count_def length_remdups_card_conv)
qed

lemma sort_map_mset: "mset xs = mset ys \<Longrightarrow> sort (map f xs) = sort (map f ys)"
  by (metis mset_map sorted_list_of_multiset_mset)

lemma group_by_mset_cases:
  assumes "mset xs = mset ys"
  shows "list_all2 (\<lambda>x y. fst x = fst y \<and> mset (snd x) = mset (snd y)) (group_by f xs) (group_by f ys)"
proof -
  have keys: "map fst (group_by f xs) = map fst (group_by f ys)"
    using mset_eq_setD[OF assms] by (simp add: group_by_keys)
  then have len: "length (group_by f xs) = length (group_by f ys)" by (metis length_map)
  have "fst (group_by f xs ! i) = fst (group_by f ys ! i)
      \<and> mset (snd (group_by f xs ! i)) = mset (snd (group_by f ys ! i))"
    if i: "i < length (group_by f xs)" for i
  proof -
    have k: "fst (group_by f xs ! i) = fst (group_by f ys ! i)"
      using keys i len by (metis nth_map)
    moreover have "snd (group_by f zs ! i) = filter (\<lambda>x. f x = fst (group_by f zs ! i)) zs"
      if "i < length (group_by f zs)" for zs
      using that by (metis group_by_entry nth_mem prod.collapse)
    ultimately show ?thesis using assms i len by (simp add: mset_filter)
  qed
  then show ?thesis using len by (simp add: list_all2_conv_all_nth)
qed

lemma map_list_all2_cong:
  "list_all2 R xs ys \<Longrightarrow> (\<And>x y. R x y \<Longrightarrow> f x = f y) \<Longrightarrow> map f xs = map f ys"
  by (induction rule: list_all2_induct) auto

lemma tier_keys: "d_version_id ` set (build_ladder sha v facts) = {v}"
  by (auto simp: build_ladder_def build_tier0_def build_tier1_def build_tier2_def Let_def)

lemma tier1_mset:
  assumes "mset facts = mset facts'"
  shows "build_tier1 sha v facts = build_tier1 sha v facts'"
  unfolding build_tier1_def
proof (rule map_list_all2_cong[OF group_by_mset_cases[OF assms]])
  fix x y :: "string \<times> claim list"
  assume "fst x = fst y \<and> mset (snd x) = mset (snd y)"
  then have e: "fst x = fst y" "mset (snd x) = mset (snd y)" by auto
  have "max_or_0 (map c_seq (snd x)) = max_or_0 (map c_seq (snd y))"
    using e(2) by (intro max_or_0_mset) (simp add: mset_map)
  with e scope_count_mset[OF e(2)] sort_map_mset[OF e(2), of claim_key] mset_eq_length[OF e(2)]
  show "(case x of (grp, claims) \<Rightarrow>
       let built = max_or_0 (map c_seq claims);
           keys = remdups_adj (sort (map claim_key claims));
           content = ''[group '' @ grp @ ''] '' @ dec (length claims) @ '' facts across ''
             @ dec (scope_count claims) @ '' scopes; keys: '' @ join '', '' keys
       in \<lparr>d_version_id = v, d_tier = 1, d_scope_path = grp, d_content = content,
           d_content_hash = sha content, d_built_from_seq = built\<rparr>) =
      (case y of (grp, claims) \<Rightarrow>
       let built = max_or_0 (map c_seq claims);
           keys = remdups_adj (sort (map claim_key claims));
           content = ''[group '' @ grp @ ''] '' @ dec (length claims) @ '' facts across ''
             @ dec (scope_count claims) @ '' scopes; keys: '' @ join '', '' keys
       in \<lparr>d_version_id = v, d_tier = 1, d_scope_path = grp, d_content = content,
           d_content_hash = sha content, d_built_from_seq = built\<rparr>)"
    by (simp only: split_beta Let_def)
qed

lemma tier2_mset:
  assumes "mset facts = mset facts'"
  shows "build_tier2 sha v facts = build_tier2 sha v facts'"
proof -
  have "max_or_0 (map c_seq facts) = max_or_0 (map c_seq facts')"
    using assms by (intro max_or_0_mset) (simp add: mset_map)
  with scope_count_mset[OF assms] sort_map_mset[OF assms, of c_subject] mset_eq_length[OF assms]
  show ?thesis by (simp only: build_tier2_def Let_def)
qed

lemma tier0_shape: "map d_scope_path (build_tier0 sha v facts) = sorted_list_of_set (scope_or_empty ` set facts)"
  unfolding group_by_keys[symmetric] build_tier0_def by (simp add: Let_def split_beta)

lemma tier1_shape: "map d_scope_path (build_tier1 sha v facts) =
    sorted_list_of_set ((\<lambda>f. group_of (scope_or_empty f)) ` set facts)"
  unfolding group_by_keys[symmetric] build_tier1_def by (simp add: Let_def split_beta)

section \<open>Properties\<close>

text \<open>The ladder is a function of the facts: it has one scope rung per scope of a fact and one
  group rung per scope group, in key order, and the group and lineage rungs do not depend on the
  order in which the facts arrive.\<close>

theorem digest_ladder_deterministic:
  "map d_scope_path (build_tier0 sha v facts) = sorted_list_of_set (scope_or_empty ` set facts)
   \<and> map d_scope_path (build_tier1 sha v facts)
       = sorted_list_of_set ((\<lambda>f. group_of (scope_or_empty f)) ` set facts)
   \<and> (mset facts = mset facts' \<longrightarrow>
        build_tier1 sha v facts = build_tier1 sha v facts' \<and> build_tier2 sha v facts = build_tier2 sha v facts')"
  using tier0_shape tier1_shape tier1_mset tier2_mset by blast

theorem digest_ladder_deterministic_witness:
  "build_tier2 id ''v'' [plain_claim ''a'' 1 ''s'' ''k'' ''x'' None, plain_claim ''b'' 2 ''t'' ''k'' ''y'' None]
   = build_tier2 id ''v'' [plain_claim ''b'' 2 ''t'' ''k'' ''y'' None, plain_claim ''a'' 1 ''s'' ''k'' ''x'' None]"
proof -
  let ?a = "plain_claim ''a'' 1 ''s'' ''k'' ''x'' None" and ?b = "plain_claim ''b'' 2 ''t'' ''k'' ''y'' None"
  have "mset [?a, ?b] = mset [?b, ?a]" by simp
  then show ?thesis using digest_ladder_deterministic[of id "''v''" "[?a, ?b]" "[?b, ?a]"] by blast
qed

end
