(* ===== verification/Governance.thy ===== *)
theory Governance
  imports Gates "HOL-Library.Multiset"
begin

text \<open>
  Governance profiles carried by memory versions (\<open>munarium-core/src/governance.rs\<close>): their
  validation and content address, the effective comparison policies, and the metadata a new
  version is stored with. The JSON codec of a profile and of a transition (\<open>serde\<close>), the byte
  encoding that is hashed and SHA-256 are third-party code: they are the fields of the
  parameter \<open>gov_env\<close>, and \<open>gov_env_ok\<close> states what the code relies on.
\<close>

section \<open>Profiles\<close>

record value_policy =
  vp_subject :: string
  vp_key :: string
  vp_comparison :: string

record governance_policy =
  gp_schema_version :: nat
  gp_values :: "value_policy list"

record transition =
  tr_from_revision :: string
  tr_expected_head :: nat
  tr_reason :: string

record gov_env =
  ge_decode_policy :: "json \<Rightarrow> string + governance_policy"
  ge_decode_transition :: "json \<Rightarrow> string + transition"
  ge_policy_bytes :: "governance_policy \<Rightarrow> string + string"
  ge_sha256_hex :: "string \<Rightarrow> string"

definition governance_policy_default :: governance_policy where
  "governance_policy_default = \<lparr>gp_schema_version = 1, gp_values = []\<rparr>"

definition invalid :: "string \<Rightarrow> kernel_error" where
  "invalid message = InvalidInput message"

text \<open>One part of a binding's key: \<open>part.is_empty() || part.trim() != part || part.contains('.')\<close>.\<close>

definition bad_part :: "string \<Rightarrow> bool" where
  "bad_part part \<longleftrightarrow> part = [] \<or> trim part \<noteq> part \<or> CHR ''.'' \<in> set part"

definition validate_value :: "(string \<times> string) list \<Rightarrow> value_policy \<Rightarrow>
    kernel_error + (string \<times> string) list" where
  "validate_value keys v =
     (if bad_part (vp_subject v) \<or> bad_part (vp_key v)
      then Inl (invalid ''policy subject/key must be nonempty, unpadded and dot-free'')
      else res_bind (policy_from_id (vp_comparison v)) (\<lambda>_.
        if (vp_subject v, vp_key v) \<in> set keys
        then Inl (invalid ''duplicate governance value binding'')
        else Inr ((vp_subject v, vp_key v) # keys)))"

definition validate :: "governance_policy \<Rightarrow> kernel_error + unit" where
  "validate p =
     (if gp_schema_version p \<noteq> 1 then Inl (invalid ''unsupported governance schema'')
      else res_bind (res_fold validate_value [] (gp_values p)) (\<lambda>_. Inr ()))"

definition canonical_policy :: "governance_policy \<Rightarrow> governance_policy" where
  "canonical_policy p = p\<lparr>gp_values := sort_key (\<lambda>v. (vp_subject v, vp_key v)) (gp_values p)\<rparr>"

definition revision :: "gov_env \<Rightarrow> governance_policy \<Rightarrow> kernel_error + string" where
  "revision env p =
     res_bind (validate p) (\<lambda>_.
       (case ge_policy_bytes env (canonical_policy p) of
          Inl e \<Rightarrow> Inl (invalid e)
        | Inr bytes \<Rightarrow> Inr (''governance-v1:'' @ ge_sha256_hex env bytes)))"

definition comparisons :: "governance_policy \<Rightarrow> kernel_error + comparison_policies" where
  "comparisons p =
     res_bind (validate p) (\<lambda>_.
     res_bind (res_map (\<lambda>v. res_bind (policy_from_id (vp_comparison v)) (\<lambda>c.
         Inr (vp_subject v @ ''.'' @ vp_key v, c))) (gp_values p))
       try_from_bindings)"

text \<open>\<open>metadata.and_then(|m| m.get(key))\<close>, and the two readers of a version's metadata.\<close>

definition meta_get :: "json option \<Rightarrow> string \<Rightarrow> json option" where
  "meta_get metadata k = Option.bind metadata (\<lambda>m. jget m k)"

definition from_metadata :: "gov_env \<Rightarrow> json option \<Rightarrow> kernel_error + governance_policy" where
  "from_metadata env metadata =
     (case meta_get metadata ''governance_policy'' of
        None \<Rightarrow> Inr governance_policy_default
      | Some v \<Rightarrow>
          (case ge_decode_policy env v of
             Inl e \<Rightarrow> Inl (invalid (''invalid governance policy: '' @ e))
           | Inr policy \<Rightarrow> res_bind (validate policy) (\<lambda>_. Inr policy)))"

definition from_stored_metadata :: "gov_env \<Rightarrow> json option \<Rightarrow> kernel_error + governance_policy" where
  "from_stored_metadata env metadata =
     res_bind (from_metadata env metadata) (\<lambda>policy.
       if meta_get metadata ''governance_policy'' \<noteq> None
       then res_bind (revision env policy) (\<lambda>r.
         if Option.bind (meta_get metadata ''governance_revision'') jas_str \<noteq> Some r
         then Inl (invalid ''missing or inconsistent stored governance revision'')
         else Inr policy)
       else Inr policy)"

section \<open>Serialized forms\<close>

text \<open>The derived \<open>Serialize\<close> instances the code puts into metadata.\<close>

definition json_of_value_policy :: "value_policy \<Rightarrow> json" where
  "json_of_value_policy v = jobj [(''subject'', JStr (vp_subject v)), (''key'', JStr (vp_key v)),
     (''comparison'', JStr (vp_comparison v))]"

definition json_of_policy :: "governance_policy \<Rightarrow> json" where
  "json_of_policy p = jobj [(''schema_version'', jnat (gp_schema_version p)),
     (''values'', JArr (map json_of_value_policy (gp_values p)))]"

fun json_of_status :: "claim_status \<Rightarrow> json" where
  "json_of_status Accepted = JStr ''accepted''"
| "json_of_status Disputed = JStr ''disputed''"

fun json_of_severity :: "severity \<Rightarrow> json" where
  "json_of_severity Info = JStr ''info''"
| "json_of_severity Warn = JStr ''warn''"
| "json_of_severity Block = JStr ''block''"

definition json_of_finding :: "gate_finding \<Rightarrow> json" where
  "json_of_finding f = jobj [(''rule_id'', JStr (f_rule_id f)),
     (''severity'', json_of_severity (f_severity f)), (''message'', JStr (f_message f)),
     (''scope_path'', jopt JStr (f_scope_path f)), (''detail'', jopt id (f_detail f))]"

section \<open>The metadata of a new version\<close>

text \<open>
  The assessment of one current fact against the new policies: the fact is replayed as a plain
  claim against the last other fact of its key and the anchor of its key.
\<close>

definition peer_of :: "mesh_snapshot \<Rightarrow> claim \<Rightarrow> claim option" where
  "peer_of sn fc =
     (case map_of (group_by claim_key (sn_facts sn)) (claim_key fc) of
        Some g \<Rightarrow> find (\<lambda>f. c_id f \<noteq> c_id fc) (rev g)
      | None \<Rightarrow> None)"

definition assess_findings :: "mesh_snapshot \<Rightarrow> comparison_policies \<Rightarrow> claim \<Rightarrow> gate_finding list" where
  "assess_findings sn ps fc =
     (let key = claim_key fc;
          peers = snapshot_default\<lparr>
            sn_facts := (case peer_of sn fc of None \<Rightarrow> [] | Some f \<Rightarrow> [f]),
            sn_anchors := (case map_of (sn_anchors sn) key of None \<Rightarrow> [] | Some a \<Rightarrow> [(key, a)])\<rparr>;
          cand = candidate_default\<lparr>cand_scope_path := c_scope_path fc,
            cand_claims := [\<lparr>pc_claim_type = Fact, pc_subject = c_subject fc, pc_key = c_key fc,
              pc_value = c_value fc, pc_supersedes_id = None\<rparr>]\<rparr>
      in check_anchor_consistency_with_policies peers cand ps
         @ check_ledger_conflict_with_policies peers cand ps)"

definition assess_claim :: "mesh_snapshot \<Rightarrow> comparison_policies \<Rightarrow> claim \<Rightarrow> json" where
  "assess_claim sn ps fc =
     jobj [(''claim_id'', JStr (c_id fc)), (''original_status'', json_of_status (c_status fc)),
       (''findings'', JArr (map json_of_finding (assess_findings sn ps fc)))]"

definition transition_assessment :: "mesh_snapshot \<Rightarrow> comparison_policies \<Rightarrow> string \<Rightarrow> string \<Rightarrow> seq \<Rightarrow> json" where
  "transition_assessment sn policies old_rev next_rev actual =
     jobj [(''schema_version'', jnat 1), (''kind'', JStr ''comparison-transition-v1''),
       (''from_revision'', JStr old_rev), (''to_revision'', JStr next_rev),
       (''parent_version_id'', JStr (sn_version_id sn)), (''as_of_seq'', jnat actual),
       (''claims'', JArr (map (assess_claim sn policies) (sn_facts sn))),
       (''anchors'', JArr (map (\<lambda>(_, a). JStr (a_id a)) (sn_anchors sn)))]"

text \<open>
  The branch for a changed policy under a parent: the declared transition is decoded and checked
  against the parent's revision and head, then the assessment is computed.
\<close>

definition assess_transition :: "gov_env \<Rightarrow> governance_policy \<Rightarrow> governance_policy \<Rightarrow> json option \<Rightarrow>
    mesh_snapshot \<Rightarrow> kernel_error + json" where
  "assess_transition env old next0 transition sn =
     res_bind (ok_or transition (invalid ''policy change requires governance_transition'')) (\<lambda>tj.
     res_bind (case ge_decode_transition env tj of
         Inl e \<Rightarrow> Inl (invalid (''invalid governance transition: '' @ e)) | Inr t \<Rightarrow> Inr t) (\<lambda>t.
     res_bind (revision env old) (\<lambda>old_rev.
     if tr_from_revision t \<noteq> old_rev \<or> trim (tr_reason t) = []
     then Inl (invalid ''governance transition requires the current revision and a reason'')
     else
     res_bind (ok_or (sn_as_of_seq sn) (invalid ''transition requires a pinned snapshot'')) (\<lambda>actual.
     if tr_expected_head t \<noteq> actual
     then Inl (HeadConflict (tr_expected_head t) actual)
     else
     res_bind (comparisons next0) (\<lambda>policies.
     res_bind (revision env next0) (\<lambda>next_rev.
     Inr (transition_assessment sn policies old_rev next_rev actual)))))))"

text \<open>\<open>object.insert\<close> on a JSON object.\<close>

fun jinsert :: "string \<Rightarrow> json \<Rightarrow> json \<Rightarrow> json option" where
  "jinsert k v (JObj m) = Some (JObj (bt_insert k v m))"
| "jinsert k v _ = None"

definition store_policy :: "gov_env \<Rightarrow> governance_policy \<Rightarrow> json option \<Rightarrow> json \<Rightarrow> kernel_error + json" where
  "store_policy env next0 assessment meta =
     res_bind (ok_or (jinsert ''governance_policy'' (json_of_policy next0) meta)
         (invalid ''governed version metadata must be an object'')) (\<lambda>m1.
     res_bind (revision env next0) (\<lambda>r.
     res_bind (ok_or (jinsert ''governance_revision'' (JStr r) m1)
         (invalid ''governed version metadata must be an object'')) (\<lambda>m2.
     (case assessment of
        None \<Rightarrow> Inr m2
      | Some a \<Rightarrow> ok_or (jinsert ''governance_assessment'' a m2)
          (invalid ''governed version metadata must be an object'')))))"

text \<open>What follows the reading of the two profiles and the computation of their revisions.\<close>

definition prepare_with :: "gov_env \<Rightarrow> json option \<Rightarrow> json option \<Rightarrow> mesh_snapshot option \<Rightarrow>
    governance_policy \<Rightarrow> governance_policy \<Rightarrow> bool \<Rightarrow> kernel_error + json option" where
  "prepare_with env metadata parent_metadata parent old next0 changed =
     (let explicit = meta_get metadata ''governance_policy'' \<noteq> None;
          transition = meta_get metadata ''governance_transition'' in
      if transition \<noteq> None \<and> (parent = None \<or> \<not> changed)
      then Inl (invalid ''governance transition requires a changed child policy'')
      else
      res_bind (case parent of
          Some sn \<Rightarrow>
            if changed
            then res_bind (assess_transition env old next0 transition sn) (\<lambda>a. Inr (Some a))
            else Inr None
        | None \<Rightarrow> Inr None) (\<lambda>assessment.
      let inherited = meta_get parent_metadata ''governance_policy'' \<noteq> None in
      if \<not> explicit \<and> \<not> inherited \<and> transition = None
      then Inr metadata
      else res_bind (store_policy env next0 assessment
          (case metadata of None \<Rightarrow> jobj [] | Some m \<Rightarrow> m)) (\<lambda>m. Inr (Some m))))"

definition prepare_version_metadata :: "gov_env \<Rightarrow> json option \<Rightarrow> json option \<Rightarrow>
    mesh_snapshot option \<Rightarrow> kernel_error + json option" where
  "prepare_version_metadata env metadata parent_metadata parent =
     (if meta_get metadata ''governance_assessment'' \<noteq> None \<or> meta_get metadata ''governance_revision'' \<noteq> None
      then Inl (invalid ''governance revision and assessment are server-owned'')
      else
      res_bind (from_stored_metadata env parent_metadata) (\<lambda>old.
      res_bind (if meta_get metadata ''governance_policy'' \<noteq> None
                then from_metadata env metadata else Inr old) (\<lambda>next0.
      res_bind (revision env old) (\<lambda>old_rev.
      res_bind (revision env next0) (\<lambda>next_rev.
      prepare_with env metadata parent_metadata parent old next0 (old_rev \<noteq> next_rev))))))"

text \<open>The companion finding: \<open>meta[...]\<close> of an absent key is the JSON null.\<close>

definition policy_finding :: "string \<Rightarrow> json option \<Rightarrow> gate_finding option" where
  "policy_finding version_id metadata =
     Option.bind metadata (\<lambda>meta.
     Option.bind (jget meta ''governance_policy'') (\<lambda>pol.
       Some \<lparr>f_rule_id = ''governance.policy-revision'', f_severity = Info,
         f_message = ''Immutable governance profile and transition assessment'',
         f_scope_path = None,
         f_detail = Some (jobj [(''version_id'', JStr version_id), (''governance_policy'', pol),
           (''governance_revision'', jopt id (jget meta ''governance_revision'')),
           (''transition'', jopt id (jget meta ''governance_transition'')),
           (''assessment'', jopt id (jget meta ''governance_assessment''))])\<rparr>))"

text \<open>What the code relies on in the codec: encoded profiles are read back, and the encoding of
  a profile to bytes succeeds.\<close>

definition gov_env_ok :: "gov_env \<Rightarrow> bool" where
  "gov_env_ok env \<longleftrightarrow>
     (\<forall>p. validate p = Inr () \<longrightarrow> ge_decode_policy env (json_of_policy p) = Inr p)
     \<and> (\<forall>p. \<exists>b. ge_policy_bytes env p = Inr b)"

section \<open>Lemmas\<close>

lemma meta_get_Some [simp]: "meta_get (Some m) k = jget m k" and meta_get_None [simp]: "meta_get None k = None"
  by (simp_all add: meta_get_def)

lemma jinsert_Some: "jinsert k v j = Some j' \<longleftrightarrow> (\<exists>m. j = JObj m \<and> j' = JObj (bt_insert k v m))"
  by (cases j) auto

lemma jget_jinsert: "jinsert k v j = Some j' \<Longrightarrow> jget j' k' = (if k' = k then Some v else jget j k')"
  by (auto simp: jinsert_Some)

text \<open>Validation: what a valid profile satisfies.\<close>

definition valid_values :: "value_policy list \<Rightarrow> bool" where
  "valid_values vs \<longleftrightarrow> distinct (map (\<lambda>v. (vp_subject v, vp_key v)) vs)
     \<and> (\<forall>v \<in> set vs. \<not> bad_part (vp_subject v) \<and> \<not> bad_part (vp_key v)
          \<and> (\<exists>c. policy_from_id (vp_comparison v) = Inr c))"

lemma validate_value_Inr: "validate_value ks v = Inr ks' \<longleftrightarrow>
    \<not> bad_part (vp_subject v) \<and> \<not> bad_part (vp_key v)
    \<and> (\<exists>c. policy_from_id (vp_comparison v) = Inr c)
    \<and> (vp_subject v, vp_key v) \<notin> set ks \<and> ks' = (vp_subject v, vp_key v) # ks"
  by (auto simp: validate_value_def res_simps)

lemma validate_fold: "(\<exists>r. res_fold validate_value ks vs = Inr r) \<longleftrightarrow>
    valid_values vs \<and> set ks \<inter> (\<lambda>v. (vp_subject v, vp_key v)) ` set vs = {}"
proof (induction vs arbitrary: ks)
  case Nil
  then show ?case by (simp add: valid_values_def)
next
  case (Cons v vs)
  have "(\<exists>r. res_fold validate_value ks (v # vs) = Inr r) \<longleftrightarrow>
      (\<exists>ks'. validate_value ks v = Inr ks' \<and> (\<exists>r. res_fold validate_value ks' vs = Inr r))"
    by (auto simp: res_simps)
  also have "\<dots> \<longleftrightarrow> (\<exists>ks'. validate_value ks v = Inr ks' \<and>
      valid_values vs \<and> set ks' \<inter> (\<lambda>v. (vp_subject v, vp_key v)) ` set vs = {})"
    by (simp only: Cons.IH)
  also have "\<dots> \<longleftrightarrow> valid_values (v # vs) \<and> set ks \<inter> (\<lambda>v. (vp_subject v, vp_key v)) ` set (v # vs) = {}"
    unfolding validate_value_Inr valid_values_def by auto
  finally show ?case .
qed

lemma validate_iff: "validate p = Inr () \<longleftrightarrow> gp_schema_version p = 1 \<and> valid_values (gp_values p)"
proof -
  have "validate p = Inr () \<longleftrightarrow> gp_schema_version p = 1
      \<and> (\<exists>r. res_fold validate_value [] (gp_values p) = Inr r)"
    by (auto simp: validate_def res_simps)
  then show ?thesis by (simp add: validate_fold)
qed

lemma validate_default [simp]: "validate governance_policy_default = Inr ()"
  by (simp add: validate_iff governance_policy_default_def valid_values_def)

lemma valid_values_mset: "mset vs = mset ws \<Longrightarrow> valid_values vs \<Longrightarrow> valid_values ws"
  using mset_eq_imp_distinct_iff[of "map (\<lambda>v. (vp_subject v, vp_key v)) vs"
      "map (\<lambda>v. (vp_subject v, vp_key v)) ws"]
  by (simp add: valid_values_def mset_eq_setD[of vs ws])

lemma revision_Inr: "revision env p = Inr r \<longleftrightarrow> validate p = Inr () \<and>
    (\<exists>b. ge_policy_bytes env (canonical_policy p) = Inr b \<and> r = ''governance-v1:'' @ ge_sha256_hex env b)"
  by (auto simp: revision_def res_simps split: sum.splits)

lemma gov_env_revision: "gov_env_ok env \<Longrightarrow> validate p = Inr () \<Longrightarrow> \<exists>r. revision env p = Inr r"
  by (metis gov_env_ok_def revision_Inr)

text \<open>The canonical order of a valid profile depends on its bindings only.\<close>

lemma sort_key_mset_eq:
  assumes "mset xs = mset ys" "inj_on f (set xs)"
  shows "sort_key f xs = sort_key f ys"
proof -
  have "map f (sort_key f zs) = sort (map f zs)" for zs
    by (rule properties_for_sort[symmetric]) simp_all
  moreover have "sort (map f xs) = sort (map f ys)"
    by (rule properties_for_sort) (simp_all add: assms(1))
  ultimately have "map f (sort_key f xs) = map f (sort_key f ys)" by simp
  moreover have "inj_on f (set (sort_key f xs) \<union> set (sort_key f ys))"
    using assms by (simp add: mset_eq_setD[OF assms(1)])
  ultimately show ?thesis by (rule map_inj_on)
qed

lemma canonical_mset:
  assumes "mset (gp_values p) = mset (gp_values q)" "gp_schema_version p = gp_schema_version q"
    "valid_values (gp_values p)"
  shows "canonical_policy p = canonical_policy q"
proof -
  have "inj_on (\<lambda>v. (vp_subject v, vp_key v)) (set (gp_values p))"
    using assms(3) by (simp add: valid_values_def distinct_map)
  then show ?thesis using sort_key_mset_eq[OF assms(1)] assms(2)
    by (cases p; cases q) (simp add: canonical_policy_def)
qed

text \<open>The key of a binding determines its subject and key, so a valid profile never conflicts.\<close>

lemma good_part_no_dot: "\<not> bad_part s \<Longrightarrow> CHR ''.'' \<notin> set s"
  by (simp add: bad_part_def)

lemma dotted_inj:
  assumes "s @ ''.'' @ k = s' @ ''.'' @ k'" "CHR ''.'' \<notin> set k" "CHR ''.'' \<notin> set k'"
  shows "s = s' \<and> k = k'"
proof -
  have "rsplit_once (CHR ''.'') (s @ ''.'' @ k) = Some (s, k)"
    using assms(2) by (simp add: rsplit_once_Some)
  moreover have "rsplit_once (CHR ''.'') (s' @ ''.'' @ k') = Some (s', k')"
    using assms(3) by (simp add: rsplit_once_Some)
  ultimately have "Some (s, k) = Some (s', k')" using assms(1) by metis
  then show ?thesis by simp
qed

definition binding_of :: "value_policy \<Rightarrow> string \<times> comparison_policy" where
  "binding_of v = (vp_subject v @ ''.'' @ vp_key v,
     (case policy_from_id (vp_comparison v) of Inr c \<Rightarrow> c | Inl _ \<Rightarrow> policy_default))"

lemma bindings_of_valid:
  assumes "valid_values vs"
  shows "res_map (\<lambda>v. res_bind (policy_from_id (vp_comparison v)) (\<lambda>c.
      Inr (vp_subject v @ ''.'' @ vp_key v, c))) vs = Inr (map binding_of vs)"
proof (rule res_map_Inr_map)
  fix v assume "v \<in> set vs"
  with assms obtain c where "policy_from_id (vp_comparison v) = Inr c"
    unfolding valid_values_def by blast
  then show "res_bind (policy_from_id (vp_comparison v)) (\<lambda>c.
      Inr (vp_subject v @ ''.'' @ vp_key v, c)) = Inr (binding_of v)"
    by (simp add: binding_of_def)
qed

lemma binding_of_inj:
  assumes "valid_values vs" "v \<in> set vs" "w \<in> set vs" "fst (binding_of v) = fst (binding_of w)"
  shows "v = w"
proof -
  have "vp_subject v = vp_subject w \<and> vp_key v = vp_key w"
    using assms by (intro dotted_inj) (auto simp: valid_values_def binding_of_def good_part_no_dot)
  moreover have "inj_on (\<lambda>v. (vp_subject v, vp_key v)) (set vs)"
    using assms(1) by (simp add: valid_values_def distinct_map)
  ultimately show ?thesis using assms(2,3) by (auto dest: inj_onD)
qed

lemma comparisons_valid:
  assumes "validate p = Inr ()"
  obtains ps where "comparisons p = Inr ps"
    "\<And>k c. map_of ps k = Some c \<longleftrightarrow> (k, c) \<in> set (map binding_of (gp_values p))"
proof -
  have vs: "valid_values (gp_values p)" using assms by (simp add: validate_iff)
  let ?bs = "map binding_of (gp_values p)"
  obtain ps where ps: "res_fold bind_policy [] ?bs = Inr ps"
  proof (cases "res_fold bind_policy [] ?bs")
    case (Inl e)
    from bindings_fold_Inl[OF this] obtain k c c' where
      "(k, c) \<in> set ?bs" "c' \<noteq> c" "(k, c') \<in> set ?bs" by auto
    then obtain v w where "v \<in> set (gp_values p)" "w \<in> set (gp_values p)"
      "binding_of v = (k, c)" "binding_of w = (k, c')" by force
    with binding_of_inj[OF vs, of v w] \<open>c' \<noteq> c\<close> show ?thesis by auto
  next
    case (Inr ps)
    then show ?thesis by (rule that)
  qed
  have "comparisons p = Inr ps"
    by (simp only: comparisons_def assms res_bind_Inr bindings_of_valid[OF vs] try_from_bindings_def ps)
  moreover have "map_of ps k = Some c \<longleftrightarrow> (k, c) \<in> set ?bs" for k c
    using bindings_fold_all[OF ps] bindings_fold_only[OF ps, of k c] by auto
  ultimately show ?thesis by (rule that)
qed

text \<open>Reading metadata.\<close>

lemma from_metadata_Inr: "from_metadata env m = Inr p \<Longrightarrow> validate p = Inr ()"
  by (auto simp: from_metadata_def res_simps split: option.splits sum.splits)

lemma from_stored_Inr: "from_stored_metadata env m = Inr p \<Longrightarrow> from_metadata env m = Inr p"
  by (auto simp: from_stored_metadata_def res_simps split: if_splits)

lemma from_stored_ungoverned:
  "meta_get m ''governance_policy'' = None \<Longrightarrow> from_stored_metadata env m = Inr governance_policy_default"
  by (simp add: from_stored_metadata_def from_metadata_def)

lemma from_stored_governed:
  assumes "gov_env_ok env" "validate p = Inr ()" "revision env p = Inr r"
    and "jget m ''governance_policy'' = Some (json_of_policy p)" "jget m ''governance_revision'' = Some (JStr r)"
  shows "from_stored_metadata env (Some m) = Inr p"
  using assms by (simp add: from_stored_metadata_def from_metadata_def gov_env_ok_def)

lemma store_policy_Inr:
  assumes "store_policy env p assessment m = Inr m'"
  obtains r where "revision env p = Inr r" "jget m' ''governance_policy'' = Some (json_of_policy p)"
    "jget m' ''governance_revision'' = Some (JStr r)"
    "\<And>a. assessment = Some a \<Longrightarrow> jget m' ''governance_assessment'' = Some a"
proof -
  from assms obtain m1 r m2 where m: "jinsert ''governance_policy'' (json_of_policy p) m = Some m1"
    "revision env p = Inr r" "jinsert ''governance_revision'' (JStr r) m1 = Some m2"
    "(case assessment of None \<Rightarrow> Inr m2 | Some a \<Rightarrow> ok_or (jinsert ''governance_assessment'' a m2)
        (invalid ''governed version metadata must be an object'')) = Inr m'"
    by (auto simp: store_policy_def res_simps)
  show ?thesis
  proof (cases assessment)
    case None
    then show ?thesis using m by (intro that[of r]) (auto simp: jget_jinsert)
  next
    case (Some a)
    then have "jinsert ''governance_assessment'' a m2 = Some m'" using m by (simp add: res_simps)
    with Some show ?thesis using m by (intro that[of r]) (auto simp: jget_jinsert)
  qed
qed

text \<open>The branches of the preparation that succeed.\<close>

lemma prepare_Inr:
  "prepare_version_metadata env md pmd parent = Inr md' \<longleftrightarrow>
     meta_get md ''governance_assessment'' = None \<and> meta_get md ''governance_revision'' = None
     \<and> (\<exists>old p old_rev new_rev. from_stored_metadata env pmd = Inr old
         \<and> (if meta_get md ''governance_policy'' \<noteq> None then from_metadata env md else Inr old) = Inr p
         \<and> revision env old = Inr old_rev \<and> revision env p = Inr new_rev
         \<and> prepare_with env md pmd parent old p (old_rev \<noteq> new_rev) = Inr md')"
proof (cases "meta_get md ''governance_policy'' = None")
  case True
  then show ?thesis by (auto simp: prepare_version_metadata_def res_bind_eq_Inr)
next
  case False
  then show ?thesis by (auto simp: prepare_version_metadata_def res_bind_eq_Inr)
qed

lemma prepare_with_Inr:
  assumes "prepare_with env md pmd parent old p changed = Inr md'"
  shows "(meta_get md ''governance_policy'' = None \<and> meta_get pmd ''governance_policy'' = None
            \<and> meta_get md ''governance_transition'' = None \<and> md' = md)
      \<or> (\<exists>a m'. store_policy env p a (case md of None \<Rightarrow> jobj [] | Some m \<Rightarrow> m) = Inr m' \<and> md' = Some m'
          \<and> (parent \<noteq> None \<and> changed \<longrightarrow>
              (\<exists>a'. a = Some a' \<and> assess_transition env old p (meta_get md ''governance_transition'')
                 (the parent) = Inr a')))"
  using assms unfolding prepare_with_def Let_def
  by (auto simp: res_bind_eq_Inr split: if_splits option.splits)

lemma prepare_with_transition:
  "prepare_with env md pmd parent old p changed = Inr md' \<Longrightarrow>
   meta_get md ''governance_transition'' \<noteq> None \<Longrightarrow> parent \<noteq> None \<and> changed"
  by (auto simp: prepare_with_def Let_def split: if_splits)

lemma revision_default:
  "gov_env_ok env \<Longrightarrow> \<exists>r. revision env governance_policy_default = Inr r"
  by (simp add: gov_env_revision)

text \<open>What the store writes is what it reads: the prepared metadata carries the next profile.\<close>

lemma prepared_reads_back:
  assumes ok: "gov_env_ok env" and prep: "prepare_version_metadata env md pmd parent = Inr md'"
  shows "\<exists>old p. from_stored_metadata env pmd = Inr old
     \<and> (if meta_get md ''governance_policy'' \<noteq> None then from_metadata env md else Inr old) = Inr p
     \<and> from_stored_metadata env md' = Inr p"
proof -
  from prep obtain old p old_rev new_rev where r: "from_stored_metadata env pmd = Inr old"
    "(if meta_get md ''governance_policy'' \<noteq> None then from_metadata env md else Inr old) = Inr p"
    "revision env p = Inr new_rev"
    and w: "prepare_with env md pmd parent old p (old_rev \<noteq> new_rev) = Inr md'"
    unfolding prepare_Inr by blast
  have "from_stored_metadata env md' = Inr p"
    using prepare_with_Inr[OF w]
  proof (elim disjE exE conjE)
    assume n: "meta_get md ''governance_policy'' = None" "meta_get pmd ''governance_policy'' = None" "md' = md"
    then have "p = governance_policy_default" using r by (simp add: from_stored_ungoverned)
    with n show ?thesis by (simp add: from_stored_ungoverned)
  next
    fix a m'
    assume "store_policy env p a (case md of None \<Rightarrow> jobj [] | Some m \<Rightarrow> m) = Inr m'" "md' = Some m'"
    then show ?thesis using r(3)
      by (auto elim!: store_policy_Inr intro!: from_stored_governed[OF ok] simp: revision_Inr)
  qed
  with r show ?thesis by blast
qed

lemma assess_transition_Inr:
  "assess_transition env old p tr sn = Inr a \<longleftrightarrow>
     (\<exists>tj t ps next_rev. tr = Some tj \<and> ge_decode_transition env tj = Inr t
        \<and> revision env old = Inr (tr_from_revision t) \<and> trim (tr_reason t) \<noteq> []
        \<and> sn_as_of_seq sn = Some (tr_expected_head t) \<and> comparisons p = Inr ps
        \<and> revision env p = Inr next_rev
        \<and> a = transition_assessment sn ps (tr_from_revision t) next_rev (tr_expected_head t))"
proof (cases tr)
  case None
  then show ?thesis by (simp add: assess_transition_def)
next
  case (Some tj)
  show ?thesis
  proof (cases "ge_decode_transition env tj")
    case (Inl e)
    with Some show ?thesis by (simp add: assess_transition_def)
  next
    case (Inr t)
    have "assess_transition env old p tr sn = Inr a \<longleftrightarrow>
        revision env old = Inr (tr_from_revision t) \<and> trim (tr_reason t) \<noteq> []
        \<and> sn_as_of_seq sn = Some (tr_expected_head t) \<and> (\<exists>ps next_rev. comparisons p = Inr ps
        \<and> revision env p = Inr next_rev
        \<and> a = transition_assessment sn ps (tr_from_revision t) next_rev (tr_expected_head t))"
      using Some Inr unfolding assess_transition_def
      by (auto simp: res_bind_eq_Inr ok_or_eq_Inr split: if_splits)
    with Some Inr show ?thesis by simp
  qed
qed

lemma assessment_claims:
  "jget (transition_assessment sn ps r r' n) ''claims'' = Some (JArr (map (assess_claim sn ps) (sn_facts sn)))"
  by (simp add: transition_assessment_def)

text \<open>The assessment of a fact, without the snapshots built for the gates.\<close>

lemma find_filter: "find P (filter Q xs) = find (\<lambda>x. Q x \<and> P x) xs"
  by (induction xs) auto

lemma peer_of_find: "peer_of sn c =
    find (\<lambda>f. claim_key f = claim_key c \<and> c_id f \<noteq> c_id c) (rev (sn_facts sn))"
proof (cases "filter (\<lambda>f. claim_key f = claim_key c) (sn_facts sn) = []")
  case True
  then show ?thesis by (auto simp: peer_of_def map_of_group_by Let_def filter_empty_conv find_None_iff'
        intro!: find_None_iff'[THEN iffD2, symmetric])
next
  case False
  then show ?thesis by (simp add: peer_of_def map_of_group_by Let_def rev_filter find_filter)
qed

lemma peer_of_key: "peer_of sn c = Some f \<Longrightarrow> claim_key f = claim_key c"
  by (auto simp: peer_of_find find_rev_Some)

lemma canon_for_single: "claim_key f = k \<Longrightarrow> canon_for (sn\<lparr>sn_facts := [f], sn_anchors := x\<rparr>) k = Some f"
  by (simp add: canon_for_def)

lemma canon_for_empty: "canon_for (sn\<lparr>sn_facts := [], sn_anchors := x\<rparr>) k = None"
  by (simp add: canon_for_def)

text \<open>The candidate and the snapshot the gates are run on.\<close>

definition replay_of :: "claim \<Rightarrow> proposed_claim" where
  "replay_of fc = \<lparr>pc_claim_type = Fact, pc_subject = c_subject fc, pc_key = c_key fc,
     pc_value = c_value fc, pc_supersedes_id = None\<rparr>"

definition peers_of :: "mesh_snapshot \<Rightarrow> claim \<Rightarrow> mesh_snapshot" where
  "peers_of sn fc = snapshot_default\<lparr>
     sn_facts := (case peer_of sn fc of None \<Rightarrow> [] | Some f \<Rightarrow> [f]),
     sn_anchors := (case map_of (sn_anchors sn) (claim_key fc) of None \<Rightarrow> [] | Some a \<Rightarrow> [(claim_key fc, a)])\<rparr>"

lemma replay_simps [simp]: "proposed_claim_key (replay_of fc) = claim_key fc"
  "pc_value (replay_of fc) = c_value fc" "pc_supersedes_id (replay_of fc) = None"
  by (simp_all add: replay_of_def proposed_claim_key_def claim_key_def)

lemma anchored: "contradicts_anchor (peers_of sn fc) ps (replay_of fc) \<longleftrightarrow>
    (\<exists>a. map_of (sn_anchors sn) (claim_key fc) = Some a
      \<and> \<not> values_equivalent_with_policy (c_value fc) (a_locked_value a) (policy_for ps (claim_key fc)))"
  by (cases "map_of (sn_anchors sn) (claim_key fc)") (simp_all add: contradicts_anchor_def peers_of_def)

lemma peered: "contradicts_canon (peers_of sn fc) ps (replay_of fc) \<longleftrightarrow>
    (\<exists>f. peer_of sn fc = Some f
      \<and> \<not> values_equivalent_with_policy (c_value fc) (c_value f) (policy_for ps (claim_key fc)))"
  by (cases "peer_of sn fc")
    (simp_all add: contradicts_canon_def peers_of_def canon_for_empty canon_for_single peer_of_key)

lemma assess_findings_blocked: "blocked_claim_keys (assess_findings sn ps fc) =
    (if contradicts_anchor (peers_of sn fc) ps (replay_of fc)
        \<or> contradicts_canon (peers_of sn fc) ps (replay_of fc) then {claim_key fc} else {})"
proof -
  let ?cand = "candidate_default\<lparr>cand_scope_path := c_scope_path fc, cand_claims := [replay_of fc]\<rparr>"
  have "assess_findings sn ps fc = check_anchor_consistency_with_policies (peers_of sn fc) ?cand ps
      @ check_ledger_conflict_with_policies (peers_of sn fc) ?cand ps"
    by (simp only: assess_findings_def Let_def peers_of_def replay_of_def)
  moreover have "proposed_claim_key ` {p \<in> set [replay_of fc]. P p} = (if P (replay_of fc) then {claim_key fc} else {})"
    for P by auto
  moreover have "set (cand_claims ?cand @ cand_corrections ?cand) = set [replay_of fc]"
    "set (cand_claims ?cand) = set [replay_of fc]" by (simp_all add: candidate_default_def)
  ultimately show ?thesis
    by (simp only: blocked_append blocked_anchor_gate blocked_ledger_gate) simp
qed

text \<open>A codec for the witnesses: it decodes what the encoders produce.\<close>

definition demo_decode_value :: "json \<Rightarrow> value_policy option" where
  "demo_decode_value j = (case (Option.bind (jget j ''subject'') jas_str, Option.bind (jget j ''key'') jas_str,
        Option.bind (jget j ''comparison'') jas_str) of
      (Some s, Some k, Some c) \<Rightarrow> Some \<lparr>vp_subject = s, vp_key = k, vp_comparison = c\<rparr> | _ \<Rightarrow> None)"

definition demo_decode_policy :: "json \<Rightarrow> string + governance_policy" where
  "demo_decode_policy j = (case (jget j ''schema_version'', jget j ''values'') of
      (Some (JNum (PosInt n)), Some (JArr vs)) \<Rightarrow>
        (if \<forall>v \<in> set vs. demo_decode_value v \<noteq> None
         then Inr \<lparr>gp_schema_version = n, gp_values = map (\<lambda>v. the (demo_decode_value v)) vs\<rparr>
         else Inl ''value'')
    | _ \<Rightarrow> Inl ''policy'')"

definition demo_decode_transition :: "json \<Rightarrow> string + transition" where
  "demo_decode_transition j = (case (Option.bind (jget j ''from_revision'') jas_str, jget j ''expected_head'',
        Option.bind (jget j ''reason'') jas_str) of
      (Some r, Some (JNum (PosInt n)), Some w) \<Rightarrow>
        Inr \<lparr>tr_from_revision = r, tr_expected_head = n, tr_reason = w\<rparr>
    | _ \<Rightarrow> Inl ''transition'')"

definition demo_env :: gov_env where
  "demo_env = \<lparr>ge_decode_policy = demo_decode_policy, ge_decode_transition = demo_decode_transition,
     ge_policy_bytes = (\<lambda>p. Inr (concat (map (\<lambda>v. vp_subject v @ ''.'' @ vp_key v @ ''='' @ vp_comparison v @ '';'') (gp_values p)))),
     ge_sha256_hex = id\<rparr>"

lemma demo_decode_value [simp]: "demo_decode_value (json_of_value_policy v) = Some v"
  by (simp add: demo_decode_value_def json_of_value_policy_def)

lemma demo_env_ok: "gov_env_ok demo_env"
  by (auto simp: gov_env_ok_def demo_env_def demo_decode_policy_def json_of_policy_def jnat_def comp_def)

text \<open>Profiles for the witnesses: one and two bound keys.\<close>

definition eyes_binding :: value_policy where
  "eyes_binding = \<lparr>vp_subject = ''hero'', vp_key = ''eyes'', vp_comparison = ''exact-string-v1''\<rparr>"

definition date_binding :: value_policy where
  "date_binding = \<lparr>vp_subject = ''release'', vp_key = ''date'', vp_comparison = ''legacy-text-v1''\<rparr>"

definition profile :: "value_policy list \<Rightarrow> governance_policy" where
  "profile vs = \<lparr>gp_schema_version = 1, gp_values = vs\<rparr>"

lemma good_parts: "\<not> bad_part ''hero''" "\<not> bad_part ''eyes''" "\<not> bad_part ''release''" "\<not> bad_part ''date''"
  by (simp_all add: bad_part_def trim_def is_ws_def)

lemma validate_profiles [simp]: "validate (profile [eyes_binding]) = Inr ()"
  "validate (profile [eyes_binding, date_binding]) = Inr ()"
  by (simp_all add: validate_iff valid_values_def profile_def eyes_binding_def date_binding_def good_parts
      policy_from_id_def)

lemma demo_revision: "validate (profile vs) = Inr () \<Longrightarrow> revision demo_env (profile vs) =
    Inr (''governance-v1:'' @ concat (map (\<lambda>v. vp_subject v @ ''.'' @ vp_key v @ ''='' @ vp_comparison v @ '';'')
      (sort_key (\<lambda>v. (vp_subject v, vp_key v)) vs)))"
  by (simp add: revision_def) (simp add: demo_env_def canonical_policy_def profile_def)

lemma profile_Nil: "profile [] = governance_policy_default"
  by (simp add: profile_def governance_policy_default_def)

section \<open>Properties\<close>

text \<open>C4. Metadata the store accepts is metadata it can read: whatever the preparation of a new
  version returns passes the check every later read of the lineage makes, and it carries the
  profile the caller named, or the parent's profile when the caller named none.\<close>

theorem prepared_metadata_readable:
  assumes "gov_env_ok env" "prepare_version_metadata env md pmd parent = Inr md'"
  shows "from_stored_metadata env md' =
    (if meta_get md ''governance_policy'' \<noteq> None then from_metadata env md else from_stored_metadata env pmd)
    \<and> (\<exists>p. from_stored_metadata env md' = Inr p)"
  using prepared_reads_back[OF assms] by auto

theorem prepared_metadata_readable_witness:
  "from_stored_metadata demo_env (Some (jobj [(''governance_policy'', json_of_policy governance_policy_default),
       (''governance_revision'', JStr ''governance-v1:'')]))
     = Inr governance_policy_default"
proof -
  let ?pol = "json_of_policy governance_policy_default"
  let ?md = "Some (jobj [(''governance_policy'', ?pol)])"
  let ?md' = "Some (jobj [(''governance_policy'', ?pol), (''governance_revision'', JStr ''governance-v1:'')])"
  have dec: "ge_decode_policy demo_env ?pol = Inr governance_policy_default"
    using demo_env_ok validate_default by (simp add: gov_env_ok_def)
  then have fm: "from_metadata demo_env ?md = Inr governance_policy_default"
    by (simp add: from_metadata_def)
  have rev: "revision demo_env governance_policy_default = Inr ''governance-v1:''"
    by (simp add: revision_def) (simp add: demo_env_def canonical_policy_def governance_policy_default_def)
  have fm': "from_metadata demo_env (Some (JObj [(''governance_policy'', ?pol)])) = Inr governance_policy_default"
    using fm by (simp add: jobj_def)
  have "prepare_version_metadata demo_env ?md None None = Inr ?md'"
    by (simp add: prepare_version_metadata_def prepare_with_def from_stored_ungoverned rev fm'
        store_policy_def jobj_def)
  from prepared_metadata_readable[OF demo_env_ok this] fm show ?thesis by simp
qed

text \<open>A child version changes its parent's governance profile only by a declared transition:
  the caller names the parent's current revision, the parent's current head and a reason that is
  not blank, and the stored metadata then holds an assessment of every current fact of the parent
  under the new profile. The server-owned fields are never taken from the caller.\<close>

theorem policy_change_is_declared:
  assumes "prepare_version_metadata env md pmd (Some sn) = Inr md'"
    and "from_stored_metadata env pmd = Inr old"
    and "(if meta_get md ''governance_policy'' \<noteq> None then from_metadata env md else Inr old) = Inr new"
    and "revision env old \<noteq> revision env new"
  shows "(\<exists>tj t ps a. meta_get md ''governance_transition'' = Some tj \<and> ge_decode_transition env tj = Inr t
      \<and> revision env old = Inr (tr_from_revision t) \<and> trim (tr_reason t) \<noteq> []
      \<and> sn_as_of_seq sn = Some (tr_expected_head t) \<and> comparisons new = Inr ps
      \<and> meta_get md' ''governance_assessment'' = Some a
      \<and> jget a ''claims'' = Some (JArr (map (assess_claim sn ps) (sn_facts sn))))
    \<and> meta_get md ''governance_assessment'' = None \<and> meta_get md ''governance_revision'' = None"
proof -
  from assms(1) obtain o2 p2 r1 r2 where r: "from_stored_metadata env pmd = Inr o2"
    "(if meta_get md ''governance_policy'' \<noteq> None then from_metadata env md else Inr o2) = Inr p2"
    "revision env o2 = Inr r1" "revision env p2 = Inr r2"
    "prepare_with env md pmd (Some sn) o2 p2 (r1 \<noteq> r2) = Inr md'"
    and owned: "meta_get md ''governance_assessment'' = None" "meta_get md ''governance_revision'' = None"
    unfolding prepare_Inr by blast
  have eq: "o2 = old" using r(1) assms(2) by simp
  have eq2: "p2 = new" using r(2) assms(3) eq by (simp split: if_splits)
  have ch: "(r1 \<noteq> r2) = True" using assms(4) r(3,4) eq eq2 by simp
  have pol: "meta_get md ''governance_policy'' \<noteq> None" using assms(3,4) by (auto split: if_splits)
  from prepare_with_Inr[OF r(5)[unfolded eq eq2 ch]] pol obtain a m'
    where a: "store_policy env new (Some a) (case md of None \<Rightarrow> jobj [] | Some m \<Rightarrow> m) = Inr m'" "md' = Some m'"
      "assess_transition env old new (meta_get md ''governance_transition'') sn = Inr a" by auto
  from store_policy_Inr[OF a(1)] have "meta_get md' ''governance_assessment'' = Some a"
    using a(2) by (metis meta_get_Some)
  with a(3) owned show ?thesis unfolding assess_transition_Inr by (auto simp: assessment_claims)
qed

theorem policy_change_is_declared_witness:
  "\<exists>t. demo_decode_transition (jobj [(''from_revision'', JStr ''governance-v1:''), (''expected_head'', jnat 0),
      (''reason'', JStr ''eye colours are codes'')]) = Inr t
    \<and> Some (tr_expected_head t) = sn_as_of_seq (snapshot_default\<lparr>sn_as_of_seq := Some 0\<rparr>)"
proof -
  let ?new = "profile [eyes_binding]"
  let ?sn = "snapshot_default\<lparr>sn_as_of_seq := Some 0\<rparr>"
  let ?tj = "jobj [(''from_revision'', JStr ''governance-v1:''), (''expected_head'', jnat 0),
      (''reason'', JStr ''eye colours are codes'')]"
  let ?md = "Some (jobj [(''governance_policy'', json_of_policy ?new), (''governance_transition'', ?tj)])"
  have dec: "ge_decode_policy demo_env (json_of_policy ?new) = Inr ?new"
    using demo_env_ok validate_profiles(1) by (simp add: gov_env_ok_def)
  have fm: "from_metadata demo_env ?md = Inr ?new" using dec by (simp add: from_metadata_def)
  have r0: "revision demo_env governance_policy_default = Inr ''governance-v1:''"
    using demo_revision[of "[]"] by (simp add: profile_Nil)
  obtain r1 where r1: "revision demo_env ?new = Inr r1" "r1 \<noteq> ''governance-v1:''"
    using demo_revision[OF validate_profiles(1)] by (auto simp: eyes_binding_def)
  obtain ps where ps: "comparisons ?new = Inr ps" by (rule comparisons_valid[OF validate_profiles(1)])
  have old: "from_stored_metadata demo_env None = Inr governance_policy_default"
    by (simp add: from_stored_ungoverned)
  have tdec: "ge_decode_transition demo_env ?tj = Inr \<lparr>tr_from_revision = ''governance-v1:'',
      tr_expected_head = 0, tr_reason = ''eye colours are codes''\<rparr>"
    by (simp add: demo_env_def demo_decode_transition_def jnat_def)
  have "trim ''eye colours are codes'' \<noteq> []" by (simp add: trim_def is_ws_def)
  then obtain a where a: "assess_transition demo_env governance_policy_default ?new (Some ?tj) ?sn = Inr a"
    unfolding assess_transition_Inr using tdec r0 r1 ps by auto
  obtain m where "store_policy demo_env ?new (Some a) (the ?md) = Inr m"
    by (auto simp: store_policy_def jobj_def r1)
  then have "prepare_version_metadata demo_env ?md None (Some ?sn) = Inr (Some m)"
    unfolding prepare_Inr using old fm r0 r1 a by (auto simp: prepare_with_def)
  note d = policy_change_is_declared[OF this old, of ?new]
  have "ge_decode_transition demo_env = demo_decode_transition" by (simp add: demo_env_def)
  with d fm r0 r1 show ?thesis by auto
qed

text \<open>The assessment of a fact is exact: it holds a blocking finding for the fact's key just when
  the fact's value differs, under the new policies, from the locked anchor of the key or from the
  latest other current fact of the key.\<close>

theorem assessment_exact:
  "blocked_claim_keys (assess_findings sn ps fc) =
     (if (\<exists>a. map_of (sn_anchors sn) (claim_key fc) = Some a
            \<and> \<not> values_equivalent_with_policy (c_value fc) (a_locked_value a) (policy_for ps (claim_key fc)))
       \<or> (\<exists>f ys zs. sn_facts sn = ys @ f # zs \<and> claim_key f = claim_key fc \<and> c_id f \<noteq> c_id fc
            \<and> (\<nexists>z. z \<in> set zs \<and> claim_key z = claim_key fc \<and> c_id z \<noteq> c_id fc)
            \<and> \<not> values_equivalent_with_policy (c_value fc) (c_value f) (policy_for ps (claim_key fc)))
      then {claim_key fc} else {})"
proof -
  have peer: "peer_of sn fc = Some f \<longleftrightarrow> (\<exists>ys zs. sn_facts sn = ys @ f # zs \<and> claim_key f = claim_key fc
      \<and> c_id f \<noteq> c_id fc \<and> (\<nexists>z. z \<in> set zs \<and> claim_key z = claim_key fc \<and> c_id z \<noteq> c_id fc))" for f
    unfolding peer_of_find find_rev_Some by blast
  have "blocked_claim_keys (assess_findings sn ps fc) =
     (if (\<exists>a. map_of (sn_anchors sn) (claim_key fc) = Some a
            \<and> \<not> values_equivalent_with_policy (c_value fc) (a_locked_value a) (policy_for ps (claim_key fc)))
       \<or> (\<exists>f. peer_of sn fc = Some f
            \<and> \<not> values_equivalent_with_policy (c_value fc) (c_value f) (policy_for ps (claim_key fc)))
      then {claim_key fc} else {})"
    by (simp only: assess_findings_blocked anchored peered)
  moreover have "(\<exists>f. peer_of sn fc = Some f \<and> Q f) \<longleftrightarrow> (\<exists>f ys zs. sn_facts sn = ys @ f # zs
      \<and> claim_key f = claim_key fc \<and> c_id f \<noteq> c_id fc
      \<and> (\<nexists>z. z \<in> set zs \<and> claim_key z = claim_key fc \<and> c_id z \<noteq> c_id fc) \<and> Q f)" for Q
    unfolding peer by blast
  ultimately show ?thesis by (simp only:)
qed

text \<open>A valid profile always yields comparison policies, and they are the declared ones: each
  bound key is compared by the algorithm its binding names, every other key by the default.\<close>

theorem valid_profile_comparisons:
  assumes "validate p = Inr ()"
  shows "\<exists>ps. comparisons p = Inr ps
    \<and> (\<forall>v \<in> set (gp_values p). policy_from_id (vp_comparison v) =
          Inr (policy_for ps (claim_key_of (vp_subject v) (vp_key v))))
    \<and> (\<forall>k. k \<notin> (\<lambda>v. claim_key_of (vp_subject v) (vp_key v)) ` set (gp_values p)
          \<longrightarrow> policy_for ps k = policy_default)"
proof -
  from comparisons_valid[OF assms] obtain ps where ps: "comparisons p = Inr ps"
    "\<And>k c. map_of ps k = Some c \<longleftrightarrow> (k, c) \<in> set (map binding_of (gp_values p))" by blast
  have "policy_from_id (vp_comparison v) = Inr (policy_for ps (claim_key_of (vp_subject v) (vp_key v)))"
    if v: "v \<in> set (gp_values p)" for v
  proof -
    obtain c where c: "policy_from_id (vp_comparison v) = Inr c"
      using assms v unfolding validate_iff valid_values_def by blast
    then have "map_of ps (claim_key_of (vp_subject v) (vp_key v)) = Some c"
      using v by (force simp: ps(2) binding_of_def claim_key_of_def)
    with c show ?thesis by (simp add: policy_for_def)
  qed
  moreover have "policy_for ps k = policy_default"
    if k: "k \<notin> (\<lambda>v. claim_key_of (vp_subject v) (vp_key v)) ` set (gp_values p)" for k
  proof -
    have "map_of ps k = None"
    proof (rule ccontr)
      assume "map_of ps k \<noteq> None"
      then obtain c where "(k, c) \<in> set (map binding_of (gp_values p))" using ps(2) by auto
      with k show False by (force simp: binding_of_def claim_key_of_def)
    qed
    then show ?thesis by (simp add: policy_for_def)
  qed
  ultimately show ?thesis using ps(1) by blast
qed

theorem valid_profile_comparisons_witness:
  "\<exists>ps. comparisons (profile [eyes_binding]) = Inr ps \<and> policy_for ps ''hero.eyes'' = ExactStringV1
     \<and> policy_for ps ''hero.hair'' = LegacyTextV1"
proof -
  have 1: "claim_key_of (vp_subject eyes_binding) (vp_key eyes_binding) = ''hero.eyes''"
    "policy_from_id (vp_comparison eyes_binding) = Inr ExactStringV1"
    by (simp_all add: eyes_binding_def claim_key_of_def policy_from_id_def)
  from valid_profile_comparisons[OF validate_profiles(1)] show ?thesis
    by (auto simp: profile_def 1 policy_default_def)
qed

text \<open>The revision of a profile is the address of its content: it does not depend on the order
  in which the bindings are written.\<close>

theorem revision_order_independent:
  assumes "mset (gp_values p) = mset (gp_values q)" "gp_schema_version p = gp_schema_version q"
    and "validate p = Inr ()"
  shows "revision env p = revision env q \<and> validate q = Inr ()"
proof -
  have "validate q = Inr ()" using assms valid_values_mset[OF assms(1)] by (simp add: validate_iff)
  moreover have "canonical_policy p = canonical_policy q"
    using assms by (intro canonical_mset) (simp_all add: validate_iff)
  ultimately show ?thesis using assms(3) by (simp add: revision_def)
qed

theorem revision_order_independent_witness:
  "revision demo_env (profile [eyes_binding, date_binding]) = revision demo_env (profile [date_binding, eyes_binding])"
  using revision_order_independent[of "profile [eyes_binding, date_binding]"
      "profile [date_binding, eyes_binding]" demo_env] validate_profiles(2)
  by (simp add: profile_def add_mset_commute)

end
