(* ===== verification/Storage.thy ===== *)
theory Storage
  imports Registers Digests
begin

text \<open>
  The storage seam (\<open>munarium-core/src/storage.rs\<close>): the inputs and filters of a backend, the
  reads a snapshot is made of, and \<open>load_snapshot\<close>. A backend is the record of its reads; what
  the snapshot relies on is the locale \<open>pinned_backend\<close>, which \<open>Mem_Pins\<close> interprets on the
  in-memory store.
\<close>

section \<open>Inputs and filters\<close>

record new_claim =
  nc_claim_type :: claim_type
  nc_subject :: string
  nc_key :: string
  nc_value :: string
  nc_scope_path :: "string option"
  nc_status :: claim_status
  nc_provenance :: provenance
  nc_supersedes_id :: "string option"
  nc_entity_id :: "string option"
  nc_evidence :: "json option"
  nc_confidence :: "f64 option"
  nc_shape_ref :: "string option"
  nc_origin :: "claim_origin option"

definition new_claim_fact :: "string \<Rightarrow> string \<Rightarrow> string \<Rightarrow> new_claim" where
  "new_claim_fact subject key v = \<lparr>nc_claim_type = Fact, nc_subject = subject, nc_key = key,
     nc_value = v, nc_scope_path = None, nc_status = Accepted, nc_provenance = Witnessed,
     nc_supersedes_id = None, nc_entity_id = None, nc_evidence = None, nc_confidence = None,
     nc_shape_ref = None, nc_origin = None\<rparr>"

record findings_query =
  fq_as_of_seq :: "seq option"
  fq_severity :: "severity option"
  fq_rule_id :: "string option"
  fq_rule_prefix :: "string option"
  fq_limit :: "nat option"

definition findings_query_default :: findings_query where
  "findings_query_default = \<lparr>fq_as_of_seq = None, fq_severity = None, fq_rule_id = None,
     fq_rule_prefix = None, fq_limit = None\<rparr>"

record stored_finding =
  sf_seq :: seq
  sf_finding :: gate_finding

section \<open>The trait's provided methods\<close>

text \<open>The default \<open>append_claims\<close>: a loop over \<open>append_claim\<close> that chains the expected head
  through the sequence number of each stored claim.\<close>

fun append_claims_default :: "('s \<Rightarrow> new_claim \<Rightarrow> seq option \<Rightarrow> kernel_error + claim \<times> 's) \<Rightarrow>
    's \<Rightarrow> new_claim list \<Rightarrow> seq option \<Rightarrow> kernel_error + claim list \<times> 's" where
  "append_claims_default append_claim s [] expected = Inr ([], s)"
| "append_claims_default append_claim s (c # cs) expected =
     res_bind (append_claim s c expected) (\<lambda>(stored, s').
     res_bind (append_claims_default append_claim s' cs (Some (c_seq stored))) (\<lambda>(out, s'').
     Inr (stored # out, s'')))"

section \<open>Loading a snapshot\<close>

text \<open>The reads of a backend, already applied to its state.\<close>

record backend =
  be_slice_facts :: "string \<Rightarrow> fact_query \<Rightarrow> kernel_error + claim list"
  be_anchors :: "string \<Rightarrow> seq option \<Rightarrow> kernel_error + (string \<times> anchor) list"
  be_promises :: "string \<Rightarrow> seq option \<Rightarrow> kernel_error + promise list"
  be_counter_totals :: "string \<Rightarrow> seq option \<Rightarrow> kernel_error + counter_total list"
  be_digests :: "string \<Rightarrow> kernel_error + digest list"

definition snapshot_digests :: "(string \<Rightarrow> string) \<Rightarrow> backend \<Rightarrow> string \<Rightarrow> seq option \<Rightarrow>
    kernel_error + digest list" where
  "snapshot_digests sha be version_id as_of =
     (if as_of \<noteq> None
      then res_bind (be_slice_facts be version_id (fact_query_default\<lparr>q_as_of_seq := as_of\<rparr>))
        (\<lambda>all_pinned. Inr (build_ladder sha version_id all_pinned))
      else res_bind (be_digests be version_id) (\<lambda>stored.
        if stored = []
        then res_bind (be_slice_facts be version_id fact_query_default)
          (\<lambda>facts. Inr (build_ladder sha version_id facts))
        else Inr stored))"

definition load_snapshot :: "(string \<Rightarrow> string) \<Rightarrow> backend \<Rightarrow> string \<Rightarrow> string option \<Rightarrow>
    nat option \<Rightarrow> seq option \<Rightarrow> kernel_error + mesh_snapshot" where
  "load_snapshot sha be version_id scope_prefix fact_limit as_of =
     res_bind (be_slice_facts be version_id \<lparr>q_scope_prefix = scope_prefix, q_as_of_seq = as_of,
         q_statuses = [], q_limit = fact_limit\<rparr>) (\<lambda>facts.
     res_bind (snapshot_digests sha be version_id as_of) (\<lambda>digests.
     res_bind (be_anchors be version_id as_of) (\<lambda>anchors.
     res_bind (be_promises be version_id as_of) (\<lambda>promises.
     res_bind (be_counter_totals be version_id as_of) (\<lambda>counters.
     Inr \<lparr>sn_version_id = version_id, sn_facts = facts, sn_anchors = anchors,
       sn_digests = digests, sn_promises = promises, sn_counters = counters, sn_entities = [],
       sn_as_of_seq = as_of, sn_as_of_date = None\<rparr>)))))"

section \<open>The contract of a pinned backend\<close>

text \<open>
  Two states of a backend agree at a pin when their pinned reads of facts, anchors and promises
  are the same; the locale states that every read under a pin stays within it.
\<close>

locale pinned_backend =
  fixes be :: "'s \<Rightarrow> backend"
    and ok :: "'s \<Rightarrow> bool"
  assumes facts_within: "ok s \<Longrightarrow> be_slice_facts (be s) v q = Inr cs \<Longrightarrow> q_as_of_seq q = Some p \<Longrightarrow>
      c \<in> set cs \<Longrightarrow> c_seq c \<le> p"
    and anchors_within: "ok s \<Longrightarrow> be_anchors (be s) v (Some p) = Inr m \<Longrightarrow> (k, a) \<in> set m \<Longrightarrow>
      a_seq a \<le> p \<and> a_status a = Locked"
    and promises_within: "ok s \<Longrightarrow> be_promises (be s) v (Some p) = Inr ps \<Longrightarrow> x \<in> set ps \<Longrightarrow>
      p_seq x \<le> p \<and> (p_status x = Fulfilled \<longrightarrow> (\<exists>f. p_fulfilled_seq x = Some f \<and> f \<le> p))"
begin

lemma snapshot_within:
  assumes "ok s" "load_snapshot sha (be s) v scope fl (Some p) = Inr sn"
  shows "(\<forall>c \<in> set (sn_facts sn). c_seq c \<le> p)
    \<and> (\<forall>a \<in> snd ` set (sn_anchors sn). a_seq a \<le> p \<and> a_status a = Locked)
    \<and> (\<forall>x \<in> set (sn_promises sn). p_seq x \<le> p \<and>
        (p_status x = Fulfilled \<longrightarrow> (\<exists>f. p_fulfilled_seq x = Some f \<and> f \<le> p)))
    \<and> sn_as_of_seq sn = Some p"
proof -
  from assms(2) obtain ds where r:
    "be_slice_facts (be s) v \<lparr>q_scope_prefix = scope, q_as_of_seq = Some p, q_statuses = [],
       q_limit = fl\<rparr> = Inr (sn_facts sn)"
    "be_anchors (be s) v (Some p) = Inr (sn_anchors sn)"
    "be_promises (be s) v (Some p) = Inr (sn_promises sn)"
    "sn_as_of_seq sn = Some p"
    unfolding load_snapshot_def by (auto simp: res_bind_eq_Inr)
  show ?thesis
    using facts_within[OF assms(1) r(1)] anchors_within[OF assms(1) r(2)]
      promises_within[OF assms(1) r(3)] r(4) by fastforce
qed

lemma snapshot_digests_rebuilt:
  assumes "load_snapshot sha (be s) v scope fl (Some p) = Inr sn"
  shows "\<exists>all_pinned. be_slice_facts (be s) v (fact_query_default\<lparr>q_as_of_seq := Some p\<rparr>) = Inr all_pinned
    \<and> sn_digests sn = build_ladder sha v all_pinned"
  using assms unfolding load_snapshot_def snapshot_digests_def by (auto simp: res_bind_eq_Inr)

end

end
