(* ===== verification/Mem_Store.thy ===== *)
theory Mem_Store
  imports Storage Governance
begin

text \<open>
  The in-memory store (\<open>munarium-store-mem/src/lib.rs\<close>). Every operation takes the lock for its
  whole body, so it is one atomic step on the state. A \<open>HashMap\<close> is a map; where the code
  iterates over one, the order of its keys is the argument \<open>order\<close>, because the standard
  library leaves it unspecified. The identity generator is the parameter \<open>gen\<close>, whose n-th
  value is the n-th identity drawn, and \<open>ms_drawn\<close> counts the draws. \<open>Inl\<close> carries no state:
  a failing operation changes nothing.
\<close>

section \<open>State\<close>

record counter_row =
  r_key :: string
  r_scope_path :: string
  r_count :: nat
  r_budget :: "nat option"
  r_seq :: seq

record mem_state =
  ms_versions :: "(string \<times> string option) list"
  ms_version_meta :: "string \<Rightarrow> json option"
  ms_claims :: "string \<Rightarrow> claim list option"
  ms_anchors :: "string \<Rightarrow> anchor list option"
  ms_promises :: "string \<Rightarrow> promise list option"
  ms_counters :: "string \<Rightarrow> counter_row list option"
  ms_digests :: "string \<Rightarrow> digest list option"
  ms_findings :: "string \<Rightarrow> stored_finding list option"
  ms_drawn :: nat

definition mem_new :: mem_state where
  "mem_new = \<lparr>ms_versions = [], ms_version_meta = Map.empty, ms_claims = Map.empty,
     ms_anchors = Map.empty, ms_promises = Map.empty, ms_counters = Map.empty,
     ms_digests = Map.empty, ms_findings = Map.empty, ms_drawn = 0\<rparr>"

text \<open>\<open>get(&v).into_iter().flatten()\<close> and \<open>entry(v).or_default()\<close>.\<close>

definition rows :: "(string \<Rightarrow> 'a list option) \<Rightarrow> string \<Rightarrow> 'a list" where
  "rows m v = (case m v of None \<Rightarrow> [] | Some xs \<Rightarrow> xs)"

definition push_row :: "string \<Rightarrow> 'a \<Rightarrow> (string \<Rightarrow> 'a list option) \<Rightarrow> (string \<Rightarrow> 'a list option)" where
  "push_row v x m = m(v \<mapsto> rows m v @ [x])"

definition known :: "mem_state \<Rightarrow> string \<Rightarrow> bool" where
  "known st v \<longleftrightarrow> map_of (ms_versions st) v \<noteq> None"

definition version_not_found :: "string \<Rightarrow> kernel_error" where
  "version_not_found v = NotFound ''version'' v"

definition claim_not_found :: "string \<Rightarrow> kernel_error" where
  "claim_not_found c = NotFound ''claim'' c"

section \<open>Lineage and head\<close>

text \<open>
  The loop of \<open>lineage_of\<close>, with the number of iterations left: \<open>None\<close> when it runs out. The
  walk visits each version at most once when parents are created before their children, so one
  iteration per version and one more are enough; \<open>lineage_walk_ends\<close> proves it for every
  reachable store, and the last case of \<open>lineage_of\<close> is never taken there.
\<close>

fun lineage_walk :: "gov_env \<Rightarrow> mem_state \<Rightarrow> nat \<Rightarrow> string option \<Rightarrow> string list \<Rightarrow>
    (kernel_error + string list) option" where
  "lineage_walk env st n None chain = Some (Inr (rev chain))"
| "lineage_walk env st 0 (Some v) chain = None"
| "lineage_walk env st (Suc n) (Some v) chain =
     (case map_of (ms_versions st) v of
        None \<Rightarrow> Some (Inl (version_not_found v))
      | Some parent \<Rightarrow>
          (case from_stored_metadata env (ms_version_meta st v) of
             Inl e \<Rightarrow> Some (Inl e)
           | Inr _ \<Rightarrow> lineage_walk env st n parent (chain @ [v])))"

definition lineage_of :: "gov_env \<Rightarrow> mem_state \<Rightarrow> string \<Rightarrow> kernel_error + string list" where
  "lineage_of env st v =
     (case lineage_walk env st (Suc (length (ms_versions st))) (Some v) [] of
        Some r \<Rightarrow> r | None \<Rightarrow> Inl (Storage ''lineage without a root''))"

definition lineage_claims :: "gov_env \<Rightarrow> mem_state \<Rightarrow> string \<Rightarrow> kernel_error + claim list" where
  "lineage_claims env st v =
     res_bind (lineage_of env st v) (\<lambda>lin. Inr (concat (map (rows (ms_claims st)) lin)))"

definition promise_seqs :: "promise \<Rightarrow> seq list" where
  "promise_seqs p = [p_seq p, case p_fulfilled_seq p of None \<Rightarrow> 0 | Some f \<Rightarrow> f]"

definition version_seqs :: "mem_state \<Rightarrow> string \<Rightarrow> seq list" where
  "version_seqs st v = map c_seq (rows (ms_claims st) v) @ map a_seq (rows (ms_anchors st) v)
     @ concat (map promise_seqs (rows (ms_promises st) v)) @ map r_seq (rows (ms_counters st) v)"

definition head_of :: "gov_env \<Rightarrow> mem_state \<Rightarrow> string \<Rightarrow> kernel_error + seq" where
  "head_of env st v =
     res_bind (lineage_of env st v) (\<lambda>lin. Inr (max_or_0 (concat (map (version_seqs st) lin))))"

section \<open>Versions\<close>

definition anchors_of_lineage :: "mem_state \<Rightarrow> string list \<Rightarrow> (string \<times> anchor) list" where
  "anchors_of_lineage st lin =
     fold (\<lambda>a. bt_insert (a_detail_key a) a) (concat (map (rows (ms_anchors st)) lin)) []"

text \<open>The snapshot of the parent a transition is assessed on; it is filled only when the metadata
  declares a transition.\<close>

definition parent_snapshot :: "gov_env \<Rightarrow> mem_state \<Rightarrow> bool \<Rightarrow> string \<Rightarrow> kernel_error + mesh_snapshot" where
  "parent_snapshot env st assess p =
     res_bind (if assess then lineage_of env st p else Inr []) (\<lambda>lin.
     res_bind (head_of env st p) (\<lambda>h.
     res_bind (if assess
         then res_bind (lineage_claims env st p) (\<lambda>cs. Inr (resolve_slice cs fact_query_default))
         else Inr []) (\<lambda>facts.
     Inr (snapshot_default\<lparr>sn_version_id := p, sn_as_of_seq := Some h, sn_facts := facts,
       sn_anchors := anchors_of_lineage st lin\<rparr>))))"

text \<open>The writes that follow the checks: the companion finding, the version, its metadata.\<close>

definition insert_version :: "string \<Rightarrow> string option \<Rightarrow> mesh_snapshot option \<Rightarrow> json option \<Rightarrow>
    mem_state \<Rightarrow> mem_state" where
  "insert_version i parent_id psnap metadata st =
     (let seq0 = (case Option.bind psnap sn_as_of_seq of None \<Rightarrow> 0 | Some n \<Rightarrow> n) in
      st\<lparr>ms_findings := (case policy_finding i metadata of
             None \<Rightarrow> ms_findings st
           | Some f \<Rightarrow> push_row i \<lparr>sf_seq = seq0, sf_finding = f\<rparr> (ms_findings st)),
         ms_versions := (i, parent_id) # ms_versions st,
         ms_version_meta := (case metadata of
             None \<Rightarrow> ms_version_meta st | Some m \<Rightarrow> (ms_version_meta st)(i \<mapsto> m)),
         ms_drawn := Suc (ms_drawn st)\<rparr>)"

definition create_version :: "gov_env \<Rightarrow> (nat \<Rightarrow> string) \<Rightarrow> mem_state \<Rightarrow> string option \<Rightarrow> json option \<Rightarrow>
    kernel_error + string \<times> mem_state" where
  "create_version env gen st parent_id metadata =
     res_bind (case parent_id of
         Some p \<Rightarrow> ensure (known st p) (version_not_found p) | None \<Rightarrow> Inr ()) (\<lambda>_.
     let assess = meta_get metadata ''governance_transition'' \<noteq> None in
     res_bind (case parent_id of
         None \<Rightarrow> Inr None
       | Some p \<Rightarrow> res_bind (parent_snapshot env st assess p) (\<lambda>sn. Inr (Some sn))) (\<lambda>psnap.
     res_bind (prepare_version_metadata env metadata
         (Option.bind parent_id (ms_version_meta st)) psnap) (\<lambda>metadata'.
     let i = ''memv-'' @ gen (ms_drawn st)
     in Inr (i, insert_version i parent_id psnap metadata' st))))"

section \<open>Claims\<close>

definition stored_claim :: "string \<Rightarrow> string \<Rightarrow> seq \<Rightarrow> new_claim \<Rightarrow> claim" where
  "stored_claim i v s nc = \<lparr>c_id = i, c_version_id = v, c_seq = s, c_claim_type = nc_claim_type nc,
     c_subject = nc_subject nc, c_key = nc_key nc, c_value = nc_value nc,
     c_scope_path = nc_scope_path nc, c_status = nc_status nc, c_provenance = nc_provenance nc,
     c_supersedes_id = nc_supersedes_id nc, c_entity_id = nc_entity_id nc,
     c_evidence = nc_evidence nc, c_confidence = nc_confidence nc, c_shape_ref = nc_shape_ref nc,
     c_origin = nc_origin nc\<rparr>"

definition check_head :: "seq option \<Rightarrow> seq \<Rightarrow> kernel_error + unit" where
  "check_head expected head = (case expected of
     None \<Rightarrow> Inr () | Some e \<Rightarrow> ensure (e = head) (HeadConflict e head))"

definition store_claim :: "(nat \<Rightarrow> string) \<Rightarrow> string \<Rightarrow> seq \<Rightarrow> new_claim \<Rightarrow> mem_state \<Rightarrow> claim \<times> mem_state" where
  "store_claim gen v s nc st =
     (let stored = stored_claim (''claim-'' @ gen (ms_drawn st)) v s nc
      in (stored, st\<lparr>ms_claims := push_row v stored (ms_claims st), ms_drawn := Suc (ms_drawn st)\<rparr>))"

definition append_claim :: "gov_env \<Rightarrow> (nat \<Rightarrow> string) \<Rightarrow> mem_state \<Rightarrow> string \<Rightarrow> new_claim \<Rightarrow>
    seq option \<Rightarrow> kernel_error + claim \<times> mem_state" where
  "append_claim env gen st v nc expected =
     res_bind (head_of env st v) (\<lambda>head.
     res_bind (check_head expected head) (\<lambda>_.
     res_bind (case nc_supersedes_id nc of
         None \<Rightarrow> Inr ()
       | Some sup0 \<Rightarrow> res_bind (lineage_claims env st v) (\<lambda>cs.
           ensure (\<exists>c \<in> set cs. c_id c = sup0) (claim_not_found sup0))) (\<lambda>_.
     Inr (store_claim gen v (head + 1) nc st))))"

text \<open>The batch: the check of every superseded claim, then the loop that stores.\<close>

fun check_supersedes :: "string list \<Rightarrow> new_claim list \<Rightarrow> kernel_error + unit" where
  "check_supersedes existing [] = Inr ()"
| "check_supersedes existing (nc # ncs) =
     (case nc_supersedes_id nc of
        Some sup0 \<Rightarrow> if sup0 \<notin> set existing then Inl (claim_not_found sup0)
                    else check_supersedes existing ncs
      | None \<Rightarrow> check_supersedes existing ncs)"

fun store_batch :: "(nat \<Rightarrow> string) \<Rightarrow> string \<Rightarrow> seq \<Rightarrow> new_claim list \<Rightarrow> mem_state \<Rightarrow> claim list \<times> mem_state" where
  "store_batch gen v s [] st = ([], st)"
| "store_batch gen v s (nc # ncs) st =
     (let (stored, st') = store_claim gen v s nc st;
          (out, st'') = store_batch gen v (s + 1) ncs st'
      in (stored # out, st''))"

definition extend_findings :: "string \<Rightarrow> seq \<Rightarrow> gate_finding list \<Rightarrow> mem_state \<Rightarrow> mem_state" where
  "extend_findings v s fs st = st\<lparr>ms_findings := (ms_findings st)(v \<mapsto>
     rows (ms_findings st) v @ map (\<lambda>f. \<lparr>sf_seq = s, sf_finding = f\<rparr>) fs)\<rparr>"

definition append_batch :: "gov_env \<Rightarrow> (nat \<Rightarrow> string) \<Rightarrow> mem_state \<Rightarrow> string \<Rightarrow> new_claim list \<Rightarrow>
    seq option \<Rightarrow> gate_finding list \<Rightarrow> kernel_error + claim list \<times> mem_state" where
  "append_batch env gen st v ncs expected findings =
     (if ncs = [] then Inr ([], st)
      else
      res_bind (head_of env st v) (\<lambda>head.
      res_bind (check_head expected head) (\<lambda>_.
      res_bind (lineage_claims env st v) (\<lambda>cs.
      res_bind (check_supersedes (map c_id cs) ncs) (\<lambda>_.
      let (out, st') = store_batch gen v (head + 1) ncs st
      in Inr (out, if out = [] then st' else extend_findings v (c_seq (last out)) findings st'))))))"

definition append_claims :: "gov_env \<Rightarrow> (nat \<Rightarrow> string) \<Rightarrow> mem_state \<Rightarrow> string \<Rightarrow> new_claim list \<Rightarrow>
    seq option \<Rightarrow> kernel_error + claim list \<times> mem_state" where
  "append_claims env gen st v ncs expected = append_batch env gen st v ncs expected []"

definition append_evaluated_claims :: "gov_env \<Rightarrow> (nat \<Rightarrow> string) \<Rightarrow> mem_state \<Rightarrow> string \<Rightarrow>
    new_claim list \<Rightarrow> seq \<Rightarrow> gate_finding list \<Rightarrow> kernel_error + claim list \<times> mem_state" where
  "append_evaluated_claims env gen st v ncs expected findings =
     append_batch env gen st v ncs (Some expected) findings"

definition slice_facts :: "gov_env \<Rightarrow> mem_state \<Rightarrow> string \<Rightarrow> fact_query \<Rightarrow> kernel_error + claim list" where
  "slice_facts env st v q = res_bind (lineage_claims env st v) (\<lambda>cs. Inr (resolve_slice cs q))"

definition all_claims :: "mem_state \<Rightarrow> string list \<Rightarrow> claim list" where
  "all_claims st order = concat (map (rows (ms_claims st)) order)"

definition get_claim :: "gov_env \<Rightarrow> mem_state \<Rightarrow> string list \<Rightarrow> string \<Rightarrow> kernel_error + claim option" where
  "get_claim env st order claim_id =
     (case find (\<lambda>c. c_id c = claim_id) (all_claims st order) of
        None \<Rightarrow> Inr None
      | Some c \<Rightarrow> res_bind (lineage_of env st (c_version_id c)) (\<lambda>_. Inr (Some c)))"

text \<open>\<open>min_by_key\<close> returns the first of the smallest elements.\<close>

fun min_by_key :: "('a \<Rightarrow> nat) \<Rightarrow> 'a list \<Rightarrow> 'a option" where
  "min_by_key f [] = None"
| "min_by_key f (x # xs) = (case min_by_key f xs of
     None \<Rightarrow> Some x | Some y \<Rightarrow> if f y < f x then Some y else Some x)"

definition superseded_by :: "mem_state \<Rightarrow> string list \<Rightarrow> string \<Rightarrow> string option" where
  "superseded_by st order claim_id =
     map_option c_id (min_by_key c_seq
       (filter (\<lambda>c. c_supersedes_id c = Some claim_id) (all_claims st order)))"

section \<open>Anchors\<close>

definition lock_anchor :: "gov_env \<Rightarrow> (nat \<Rightarrow> string) \<Rightarrow> mem_state \<Rightarrow> string \<Rightarrow> string \<Rightarrow> string \<Rightarrow>
    string \<Rightarrow> string option \<Rightarrow> json option \<Rightarrow> kernel_error + anchor \<times> mem_state" where
  "lock_anchor env gen st v subject key val scope_path evidence =
     res_bind (head_of env st v) (\<lambda>h.
     let anc = \<lparr>a_id = ''anchor-'' @ gen (ms_drawn st), a_version_id = v,
           a_detail_key = subject @ ''.'' @ key, a_locked_value = val, a_locked_at_scope = scope_path,
           a_status = Locked, a_seq = h + 1, a_evidence = evidence\<rparr>
     in Inr (anc, st\<lparr>ms_anchors := push_row v anc (ms_anchors st), ms_drawn := Suc (ms_drawn st)\<rparr>))"

definition anchors :: "gov_env \<Rightarrow> mem_state \<Rightarrow> string \<Rightarrow> seq option \<Rightarrow>
    kernel_error + (string \<times> anchor) list" where
  "anchors env st v as_of =
     res_bind (lineage_of env st v) (\<lambda>lin.
     Inr (fold (\<lambda>a. bt_insert (a_detail_key a) a)
       (filter (\<lambda>a. a_status a = Locked \<and> within_pin as_of (a_seq a))
         (concat (map (rows (ms_anchors st)) lin))) []))"

section \<open>Promises\<close>

definition register_promise :: "gov_env \<Rightarrow> (nat \<Rightarrow> string) \<Rightarrow> mem_state \<Rightarrow> string \<Rightarrow> string \<Rightarrow> string \<Rightarrow>
    string \<Rightarrow> string option \<Rightarrow> string option \<Rightarrow> kernel_error + promise \<times> mem_state" where
  "register_promise env gen st v key knd description origin_scope due_scope =
     res_bind (head_of env st v) (\<lambda>h.
     let p = \<lparr>p_id = ''prom-'' @ gen (ms_drawn st), p_version_id = v, p_key = key, p_kind = knd,
           p_description = description, p_origin_scope = origin_scope, p_due_scope = due_scope,
           p_status = Open, p_seq = h + 1, p_fulfilled_seq = None\<rparr>
     in Inr (p, st\<lparr>ms_promises := push_row v p (ms_promises st), ms_drawn := Suc (ms_drawn st)\<rparr>))"

definition promise_view :: "seq option \<Rightarrow> promise \<Rightarrow> promise" where
  "promise_view as_of p =
     (let view = p\<lparr>p_status := status_as_of p as_of\<rparr>
      in if p_status view = Open then view\<lparr>p_fulfilled_seq := None\<rparr> else view)"

definition promises :: "gov_env \<Rightarrow> mem_state \<Rightarrow> string \<Rightarrow> seq option \<Rightarrow> kernel_error + promise list" where
  "promises env st v as_of =
     res_bind (lineage_of env st v) (\<lambda>lin.
     Inr (sort_key (\<lambda>p. (p_seq p, p_key p)) (map (promise_view as_of)
       (filter (\<lambda>p. within_pin as_of (p_seq p)) (concat (map (rows (ms_promises st)) lin))))))"

text \<open>The first open promise with the key in a version's list; the list after the update.\<close>

fun fulfill_first :: "string \<Rightarrow> seq \<Rightarrow> promise list \<Rightarrow> promise list option" where
  "fulfill_first key s [] = None"
| "fulfill_first key s (p # ps) =
     (if p_key p = key \<and> p_status p = Open
      then Some (p\<lparr>p_status := Fulfilled, p_fulfilled_seq := Some s\<rparr> # ps)
      else map_option (Cons p) (fulfill_first key s ps))"

fun fulfill_in :: "string \<Rightarrow> seq \<Rightarrow> string list \<Rightarrow> mem_state \<Rightarrow> bool \<times> mem_state" where
  "fulfill_in key s [] st = (False, st)"
| "fulfill_in key s (v # vs) st =
     (case fulfill_first key s (rows (ms_promises st) v) of
        Some ps \<Rightarrow> (True, st\<lparr>ms_promises := (ms_promises st)(v \<mapsto> ps)\<rparr>)
      | None \<Rightarrow> fulfill_in key s vs st)"

definition fulfill_promise :: "gov_env \<Rightarrow> mem_state \<Rightarrow> string \<Rightarrow> string \<Rightarrow> kernel_error + bool \<times> mem_state" where
  "fulfill_promise env st v key =
     res_bind (head_of env st v) (\<lambda>h.
     res_bind (lineage_of env st v) (\<lambda>lin. Inr (fulfill_in key (h + 1) lin st)))"

section \<open>Counters\<close>

fun upsert_count :: "string \<Rightarrow> string \<Rightarrow> nat \<Rightarrow> nat option \<Rightarrow> seq \<Rightarrow> counter_row list \<Rightarrow> counter_row list" where
  "upsert_count key scope n budget s [] =
     [\<lparr>r_key = key, r_scope_path = scope, r_count = n, r_budget = budget, r_seq = s\<rparr>]"
| "upsert_count key scope n budget s (r # rs) =
     (if r_key r = key \<and> r_scope_path r = scope
      then r\<lparr>r_count := n, r_seq := s, r_budget := (if budget \<noteq> None then budget else r_budget r)\<rparr> # rs
      else r # upsert_count key scope n budget s rs)"

definition record_counts :: "gov_env \<Rightarrow> mem_state \<Rightarrow> string \<Rightarrow> string \<Rightarrow> string \<Rightarrow> nat \<Rightarrow> nat option \<Rightarrow>
    kernel_error + mem_state" where
  "record_counts env st v key scope n budget =
     res_bind (head_of env st v) (\<lambda>h.
     Inr (st\<lparr>ms_counters := (ms_counters st)(v \<mapsto>
       upsert_count key scope n budget (h + 1) (rows (ms_counters st) v))\<rparr>))"

definition merge_budget :: "nat option \<Rightarrow> nat option \<Rightarrow> nat option" where
  "merge_budget x y = (case (x, y) of (Some a, Some b) \<Rightarrow> Some (max a b) | (None, b) \<Rightarrow> b | (a, None) \<Rightarrow> a)"

definition add_count :: "(string \<times> nat \<times> nat option) list \<Rightarrow> counter_row \<Rightarrow>
    kernel_error + (string \<times> nat \<times> nat option) list" where
  "add_count agg r =
     (let (total, budget) = (case map_of agg (r_key r) of None \<Rightarrow> (0, None) | Some e \<Rightarrow> e) in
      res_bind (ok_or (checked_add total (r_count r)) (Storage ''counter total exceeds u64'')) (\<lambda>t.
      Inr (bt_insert (r_key r) (t, merge_budget budget (r_budget r)) agg)))"

definition counter_totals :: "gov_env \<Rightarrow> mem_state \<Rightarrow> string \<Rightarrow> seq option \<Rightarrow>
    kernel_error + counter_total list" where
  "counter_totals env st v as_of =
     res_bind (lineage_of env st v) (\<lambda>lin.
     res_bind (res_fold add_count [] (filter (\<lambda>r. within_pin as_of (r_seq r))
         (concat (map (rows (ms_counters st)) lin)))) (\<lambda>agg.
     Inr (map (\<lambda>(key, total, budget). \<lparr>ct_key = key, ct_total = total, ct_budget = budget\<rparr>) agg)))"

section \<open>Digests, metadata and findings\<close>

fun replace_digest :: "digest \<Rightarrow> digest list \<Rightarrow> digest list" where
  "replace_digest d [] = [d]"
| "replace_digest d (x # xs) =
     (if d_tier x = d_tier d \<and> d_scope_path x = d_scope_path d then d # xs else x # replace_digest d xs)"

definition upsert_digest :: "mem_state \<Rightarrow> digest \<Rightarrow> mem_state" where
  "upsert_digest st d = st\<lparr>ms_digests := (ms_digests st)(d_version_id d \<mapsto>
     replace_digest d (rows (ms_digests st) (d_version_id d)))\<rparr>"

definition digests :: "gov_env \<Rightarrow> mem_state \<Rightarrow> string \<Rightarrow> kernel_error + digest list" where
  "digests env st v =
     res_bind (lineage_of env st v) (\<lambda>lin. Inr (concat (map (rows (ms_digests st)) lin)))"

definition version_metadata :: "mem_state \<Rightarrow> string \<Rightarrow> kernel_error + json option" where
  "version_metadata st v =
     (if known st v then Inr (ms_version_meta st v) else Inl (version_not_found v))"

definition record_findings :: "gov_env \<Rightarrow> mem_state \<Rightarrow> string \<Rightarrow> seq \<Rightarrow> gate_finding list \<Rightarrow>
    kernel_error + mem_state" where
  "record_findings env st v s fs =
     res_bind (lineage_of env st v) (\<lambda>_. Inr (extend_findings v s fs st))"

definition finding_matches :: "findings_query \<Rightarrow> stored_finding \<Rightarrow> bool" where
  "finding_matches q f \<longleftrightarrow> within_pin (fq_as_of_seq q) (sf_seq f)
     \<and> (case fq_severity q of None \<Rightarrow> True | Some sev \<Rightarrow> f_severity (sf_finding f) = sev)
     \<and> (case fq_rule_id q of None \<Rightarrow> True | Some r \<Rightarrow> f_rule_id (sf_finding f) = r)
     \<and> (case fq_rule_prefix q of None \<Rightarrow> True | Some p \<Rightarrow> starts_with (f_rule_id (sf_finding f)) p)"

definition findings :: "gov_env \<Rightarrow> mem_state \<Rightarrow> string \<Rightarrow> findings_query \<Rightarrow>
    kernel_error + stored_finding list" where
  "findings env st v q =
     res_bind (lineage_of env st v) (\<lambda>lin.
     Inr (take (case fq_limit q of None \<Rightarrow> 1000 | Some n \<Rightarrow> n)
       (filter (finding_matches q) (sort_key sf_seq (concat (map (rows (ms_findings st)) lin))))))"

text \<open>The store as a backend of \<open>load_snapshot\<close>.\<close>

definition mem_backend :: "gov_env \<Rightarrow> mem_state \<Rightarrow> backend" where
  "mem_backend env st = \<lparr>be_slice_facts = slice_facts env st, be_anchors = anchors env st,
     be_promises = promises env st, be_counter_totals = counter_totals env st,
     be_digests = digests env st\<rparr>"

end
