(* ===== verification/Mem_Invariant.thy ===== *)
theory Mem_Invariant
  imports Mem_Store
begin

text \<open>
  The reachable states of the in-memory store: its operations as one step relation, the
  invariant every step keeps, and what follows from it for the lineage walk, for identities and
  for the append-only ledger.
\<close>

section \<open>Steps\<close>

text \<open>\<open>mem_step env gen st v st'\<close>: an operation that writes at version \<open>v\<close> succeeds.\<close>

inductive mem_step :: "gov_env \<Rightarrow> (nat \<Rightarrow> string) \<Rightarrow> mem_state \<Rightarrow> string \<Rightarrow> mem_state \<Rightarrow> bool"
  for env :: gov_env and gen :: "nat \<Rightarrow> string" where
  create: "create_version env gen st parent md = Inr (v, st') \<Longrightarrow> mem_step env gen st v st'"
| claim: "append_claim env gen st v nc e = Inr (c, st') \<Longrightarrow> mem_step env gen st v st'"
| batch: "append_batch env gen st v ncs e fs = Inr (cs, st') \<Longrightarrow> mem_step env gen st v st'"
| lock: "lock_anchor env gen st v subject key val sc ev = Inr (a, st') \<Longrightarrow> mem_step env gen st v st'"
| register: "register_promise env gen st v key knd descr os ds = Inr (p, st') \<Longrightarrow> mem_step env gen st v st'"
| fulfill: "fulfill_promise env st v key = Inr (b, st') \<Longrightarrow> mem_step env gen st v st'"
| counts: "record_counts env st v key scope n budget = Inr st' \<Longrightarrow> mem_step env gen st v st'"
| digest: "mem_step env gen st (d_version_id d) (upsert_digest st d)"
| finds: "record_findings env st v s fs = Inr st' \<Longrightarrow> mem_step env gen st v st'"

inductive reachable :: "gov_env \<Rightarrow> (nat \<Rightarrow> string) \<Rightarrow> mem_state \<Rightarrow> bool"
  for env :: gov_env and gen :: "nat \<Rightarrow> string" where
  start: "reachable env gen mem_new"
| step: "reachable env gen st \<Longrightarrow> mem_step env gen st v st' \<Longrightarrow> reachable env gen st'"

section \<open>The lineage as a path\<close>

text \<open>Versions are listed newest first; a parent is older than its children.\<close>

fun versions_ok :: "(string \<times> string option) list \<Rightarrow> bool" where
  "versions_ok [] = True"
| "versions_ok ((v, parent) # vs) = (v \<notin> fst ` set vs \<and>
     (case parent of None \<Rightarrow> True | Some p \<Rightarrow> p \<in> fst ` set vs) \<and> versions_ok vs)"

fun path :: "(string \<times> string option) list \<Rightarrow> string \<Rightarrow> string list" where
  "path [] v = []"
| "path ((u, parent) # vs) v =
     (if u = v then (case parent of None \<Rightarrow> [] | Some p \<Rightarrow> path vs p) @ [v] else path vs v)"

lemma known_iff: "known st v \<longleftrightarrow> v \<in> fst ` set (ms_versions st)"
  by (simp add: known_def map_of_eq_None_iff)

lemma path_keys: "set (path vs v) \<subseteq> fst ` set vs"
  by (induction vs v rule: path.induct) (auto split: option.splits)

lemma path_last: "v \<in> fst ` set vs \<Longrightarrow> path vs v \<noteq> [] \<and> last (path vs v) = v"
  by (induction vs v rule: path.induct) (auto split: option.splits)

lemma path_mem: "v \<in> fst ` set vs \<Longrightarrow> v \<in> set (path vs v)"
  using path_last last_in_set by metis

lemma path_distinct: "versions_ok vs \<Longrightarrow> distinct (path vs v)"
proof (induction vs v rule: path.induct)
  case (2 u parent vs v)
  then show ?case using path_keys[of vs] by (fastforce split: option.splits)
qed simp

lemma map_of_versions_ok:
  assumes "versions_ok (pre @ (v, p) # vs)"
  shows "map_of (pre @ (v, p) # vs) v = Some p"
  using assms by (induction pre) (auto simp: image_Un)

definition tree_ok :: "gov_env \<Rightarrow> mem_state \<Rightarrow> bool" where
  "tree_ok env st \<longleftrightarrow> versions_ok (ms_versions st)
     \<and> (\<forall>v. known st v \<longrightarrow> (\<exists>p. from_stored_metadata env (ms_version_meta st v) = Inr p))
     \<and> (\<forall>v. \<not> known st v \<longrightarrow> ms_version_meta st v = None)"

text \<open>The loop follows the path; it needs no more iterations than there are versions.\<close>

lemma lineage_walk_path:
  assumes "tree_ok env st" "ms_versions st = pre @ vs" "v \<in> fst ` set vs" "length vs \<le> n"
  shows "lineage_walk env st n (Some v) chain = Some (Inr (path vs v @ rev chain))"
  using assms(2-4)
proof (induction vs arbitrary: pre v n chain)
  case Nil
  then show ?case by simp
next
  case (Cons up vs)
  obtain u p where up: "up = (u, p)" by force
  show ?case
  proof (cases "u = v")
    case True
    obtain n' where n: "n = Suc n'" "length vs \<le> n'" using Cons.prems(3) by (cases n) auto
    have ok: "versions_ok (pre @ (v, p) # vs)"
      using assms(1) Cons.prems(1) True up by (simp add: tree_ok_def)
    then have lk: "map_of (ms_versions st) v = Some p"
      using map_of_versions_ok Cons.prems(1) up True by simp
    then obtain q where q: "from_stored_metadata env (ms_version_meta st v) = Inr q"
      using assms(1) by (auto simp: tree_ok_def known_def)
    have par: "case p of None \<Rightarrow> True | Some w \<Rightarrow> w \<in> fst ` set vs"
      using ok by (induction pre) auto
    show ?thesis
    proof (cases p)
      case None
      with n lk q up True show ?thesis by simp
    next
      case (Some w)
      have "lineage_walk env st n' (Some w) (chain @ [v]) = Some (Inr (path vs w @ rev (chain @ [v])))"
        using Cons.IH[of "pre @ [up]" w n' "chain @ [v]"] Cons.prems(1) par Some n(2) by simp
      with n lk q up True Some show ?thesis by simp
    qed
  next
    case False
    then show ?thesis using Cons.IH[of "pre @ [up]" v n chain] Cons.prems up by simp
  qed
qed

definition lineage :: "mem_state \<Rightarrow> string \<Rightarrow> string list" where
  "lineage st v = path (ms_versions st) v"

lemma lineage_of_ok: "tree_ok env st \<Longrightarrow> lineage_of env st v =
    (if known st v then Inr (lineage st v) else Inl (version_not_found v))"
proof (cases "known st v")
  case True
  assume "tree_ok env st"
  with True have "lineage_walk env st (Suc (length (ms_versions st))) (Some v) [] = Some (Inr (lineage st v))"
    using lineage_walk_path[of env st "[]" "ms_versions st" v "Suc (length (ms_versions st))" "[]"]
    by (simp add: lineage_def known_iff)
  with True show ?thesis by (simp only: lineage_of_def option.case if_True)
next
  case False
  then show ?thesis by (simp add: lineage_of_def known_def)
qed

definition lin_rows :: "(string \<Rightarrow> 'a list option) \<Rightarrow> mem_state \<Rightarrow> string \<Rightarrow> 'a list" where
  "lin_rows m st v = concat (map (rows m) (lineage st v))"

definition head :: "mem_state \<Rightarrow> string \<Rightarrow> seq" where
  "head st v = max_or_0 (concat (map (version_seqs st) (lineage st v)))"

lemma head_of_ok: "tree_ok env st \<Longrightarrow> head_of env st v =
    (if known st v then Inr (head st v) else Inl (version_not_found v))"
  by (simp add: head_of_def lineage_of_ok head_def)

lemma lineage_claims_ok: "tree_ok env st \<Longrightarrow> lineage_claims env st v =
    (if known st v then Inr (lin_rows (ms_claims st) st v) else Inl (version_not_found v))"
  by (simp add: lineage_claims_def lineage_of_ok lin_rows_def)

lemmas tree_simps = lineage_of_ok head_of_ok lineage_claims_ok

lemma lineage_self: "known st v \<Longrightarrow> v \<in> set (lineage st v)"
  by (simp add: lineage_def known_iff path_mem)

lemma lineage_known: "w \<in> set (lineage st v) \<Longrightarrow> known st w"
  using path_keys by (auto simp: lineage_def known_iff)

lemma head_ge: "w \<in> set (lineage st v) \<Longrightarrow> s \<in> set (version_seqs st w) \<Longrightarrow> s \<le> head st v"
  unfolding head_def by (rule max_or_0_ge) auto

section \<open>Rows\<close>

lemma rows_push: "rows (push_row v x m) w = (if w = v then rows m v @ [x] else rows m w)"
  by (simp add: rows_def push_row_def)

lemma rows_upd: "rows (m(v \<mapsto> xs)) w = (if w = v then xs else rows m w)"
  by (simp add: rows_def)

lemma rows_empty [simp]: "rows Map.empty v = []"
  by (simp add: rows_def)

text \<open>What a batch stores.\<close>

lemma store_claim_simps: "store_claim gen v s nc st = (c, st') \<longleftrightarrow>
    c = stored_claim (''claim-'' @ gen (ms_drawn st)) v s nc
    \<and> st' = st\<lparr>ms_claims := push_row v c (ms_claims st), ms_drawn := Suc (ms_drawn st)\<rparr>"
  by (auto simp: store_claim_def Let_def)

lemma push_row_same: "push_row v x m v = Some (rows m v @ [x])"
  by (simp add: push_row_def)

lemma store_batch_result:
  "store_batch gen v s ncs st = (out, st') \<Longrightarrow>
     out = map (\<lambda>i. stored_claim (''claim-'' @ gen (ms_drawn st + i)) v (s + i) (ncs ! i)) [0..<length ncs]
     \<and> st' = (if ncs = [] then st else st\<lparr>ms_claims := (ms_claims st)(v \<mapsto> rows (ms_claims st) v @ out),
          ms_drawn := ms_drawn st + length ncs\<rparr>)"
proof (induction ncs arbitrary: s st out st')
  case Nil
  then show ?case by simp
next
  case (Cons nc ncs)
  let ?c = "stored_claim (''claim-'' @ gen (ms_drawn st)) v s nc"
  let ?st1 = "st\<lparr>ms_claims := push_row v ?c (ms_claims st), ms_drawn := Suc (ms_drawn st)\<rparr>"
  obtain out' where o: "store_batch gen v (s + 1) ncs ?st1 = (out', st')" "out = ?c # out'"
    using Cons.prems by (auto simp: store_claim_def Let_def split: prod.splits)
  note ih = Cons.IH[OF o(1)]
  have "out = map (\<lambda>i. stored_claim (''claim-'' @ gen (ms_drawn st + i)) v (s + i) ((nc # ncs) ! i))
      [0..<length (nc # ncs)]"
    using ih o(2) by (simp add: upt_conv_Cons map_Suc_upt[symmetric] comp_def del: upt_Suc)
  moreover have "st' = st\<lparr>ms_claims := (ms_claims st)(v \<mapsto> rows (ms_claims st) v @ out),
          ms_drawn := ms_drawn st + length (nc # ncs)\<rparr>"
    using ih o(2) by (auto simp: rows_push push_row_def rows_upd split: if_splits)
  ultimately show ?case by simp
qed

section \<open>What each operation does\<close>

definition sup_known :: "claim list \<Rightarrow> new_claim \<Rightarrow> bool" where
  "sup_known cs nc \<longleftrightarrow> (case nc_supersedes_id nc of None \<Rightarrow> True | Some i \<Rightarrow> i \<in> c_id ` set cs)"

lemma check_head_Inr: "check_head e h = Inr u \<longleftrightarrow> e = None \<or> e = Some h"
  by (auto simp: check_head_def res_simps split: option.splits)

lemma append_claim_Inr: "tree_ok env st \<Longrightarrow> append_claim env gen st v nc e = Inr (c, st') \<longleftrightarrow>
    known st v \<and> (e = None \<or> e = Some (head st v)) \<and> sup_known (lin_rows (ms_claims st) st v) nc
    \<and> store_claim gen v (head st v + 1) nc st = (c, st')"
  unfolding append_claim_def
  by (auto simp: tree_simps res_simps check_head_Inr sup_known_def split: option.splits)

lemma check_supersedes_Inr: "check_supersedes (map c_id cs) ncs = Inr () \<longleftrightarrow> (\<forall>nc \<in> set ncs. sup_known cs nc)"
  by (induction ncs) (auto simp: sup_known_def split: option.splits)

definition batch_claims :: "(nat \<Rightarrow> string) \<Rightarrow> mem_state \<Rightarrow> string \<Rightarrow> seq \<Rightarrow> new_claim list \<Rightarrow> claim list" where
  "batch_claims gen st v s ncs =
     map (\<lambda>i. stored_claim (''claim-'' @ gen (ms_drawn st + i)) v (s + i) (ncs ! i)) [0..<length ncs]"

definition claims_added :: "mem_state \<Rightarrow> string \<Rightarrow> claim list \<Rightarrow> mem_state" where
  "claims_added st v cs = st\<lparr>ms_claims := (ms_claims st)(v \<mapsto> rows (ms_claims st) v @ cs),
     ms_drawn := ms_drawn st + length cs\<rparr>"

lemma length_batch_claims [simp]: "length (batch_claims gen st v s ncs) = length ncs"
  by (simp add: batch_claims_def)

lemma store_batch_eq: "ncs \<noteq> [] \<Longrightarrow> store_batch gen v s ncs st =
    (batch_claims gen st v s ncs, claims_added st v (batch_claims gen st v s ncs))"
  by (cases "store_batch gen v s ncs st") (auto dest!: store_batch_result simp: batch_claims_def claims_added_def)

lemma append_batch_Inr: "tree_ok env st \<Longrightarrow> ncs \<noteq> [] \<Longrightarrow> append_batch env gen st v ncs e fs = Inr (cs, st') \<longleftrightarrow>
    known st v \<and> (e = None \<or> e = Some (head st v))
    \<and> (\<forall>nc \<in> set ncs. sup_known (lin_rows (ms_claims st) st v) nc)
    \<and> cs = batch_claims gen st v (head st v + 1) ncs
    \<and> st' = extend_findings v (c_seq (last cs)) fs (claims_added st v cs)"
  using length_batch_claims[of gen st v "head st v + 1" ncs]
  unfolding append_batch_def
  by (auto simp: tree_simps res_bind_eq_Inr check_head_Inr check_supersedes_Inr store_batch_eq
      simp del: length_batch_claims)

lemma store_claim_batch: "store_claim gen v s nc st =
    (stored_claim (''claim-'' @ gen (ms_drawn st)) v s nc,
     claims_added st v [stored_claim (''claim-'' @ gen (ms_drawn st)) v s nc])"
  by (simp add: store_claim_def claims_added_def push_row_def Let_def)

lemma lock_anchor_Inr: "tree_ok env st \<Longrightarrow> lock_anchor env gen st v subject key val sc ev = Inr (a, st') \<longleftrightarrow>
    known st v \<and> a = \<lparr>a_id = ''anchor-'' @ gen (ms_drawn st), a_version_id = v,
        a_detail_key = subject @ ''.'' @ key, a_locked_value = val, a_locked_at_scope = sc,
        a_status = Locked, a_seq = head st v + 1, a_evidence = ev\<rparr>
    \<and> st' = st\<lparr>ms_anchors := push_row v a (ms_anchors st), ms_drawn := Suc (ms_drawn st)\<rparr>"
  by (auto simp: lock_anchor_def tree_simps Let_def)

lemma register_promise_Inr: "tree_ok env st \<Longrightarrow> register_promise env gen st v key knd descr os ds = Inr (p, st') \<longleftrightarrow>
    known st v \<and> p = \<lparr>p_id = ''prom-'' @ gen (ms_drawn st), p_version_id = v, p_key = key, p_kind = knd,
        p_description = descr, p_origin_scope = os, p_due_scope = ds, p_status = Open,
        p_seq = head st v + 1, p_fulfilled_seq = None\<rparr>
    \<and> st' = st\<lparr>ms_promises := push_row v p (ms_promises st), ms_drawn := Suc (ms_drawn st)\<rparr>"
  by (auto simp: register_promise_def tree_simps Let_def)

lemma fulfill_promise_Inr: "tree_ok env st \<Longrightarrow> fulfill_promise env st v key = Inr (b, st') \<longleftrightarrow>
    known st v \<and> fulfill_in key (head st v + 1) (lineage st v) st = (b, st')"
  by (auto simp: fulfill_promise_def tree_simps)

lemma record_counts_Inr: "tree_ok env st \<Longrightarrow> record_counts env st v key scope n budget = Inr st' \<longleftrightarrow>
    known st v \<and> st' = st\<lparr>ms_counters := (ms_counters st)(v \<mapsto>
       upsert_count key scope n budget (head st v + 1) (rows (ms_counters st) v))\<rparr>"
  by (auto simp: record_counts_def tree_simps)

lemma record_findings_Inr: "tree_ok env st \<Longrightarrow> record_findings env st v s fs = Inr st' \<longleftrightarrow>
    known st v \<and> st' = extend_findings v s fs st"
  by (auto simp: record_findings_def tree_simps)

text \<open>Fulfilment changes at most one promise, from open to fulfilled at the given number.\<close>

lemma fulfill_first_Some:
  "fulfill_first key s ps = Some ps' \<Longrightarrow> \<exists>xs p ys. ps = xs @ p # ys \<and> p_key p = key \<and> p_status p = Open
     \<and> (\<forall>x \<in> set xs. \<not> (p_key x = key \<and> p_status x = Open))
     \<and> ps' = xs @ p\<lparr>p_status := Fulfilled, p_fulfilled_seq := Some s\<rparr> # ys"
proof (induction ps arbitrary: ps')
  case (Cons p ps)
  show ?case
  proof (cases "p_key p = key \<and> p_status p = Open")
    case True
    with Cons.prems show ?thesis by (intro exI[of _ "[]"]) auto
  next
    case False
    with Cons.prems obtain qs where q: "fulfill_first key s ps = Some qs" "ps' = p # qs" by auto
    from Cons.IH[OF q(1)] obtain xs p' ys where "ps = xs @ p' # ys \<and> p_key p' = key \<and> p_status p' = Open
     \<and> (\<forall>x \<in> set xs. \<not> (p_key x = key \<and> p_status x = Open))
     \<and> qs = xs @ p'\<lparr>p_status := Fulfilled, p_fulfilled_seq := Some s\<rparr> # ys" by blast
    with False q(2) show ?thesis by (intro exI[of _ "p # xs"]) auto
  qed
qed simp

lemma fulfill_first_None: "fulfill_first key s ps = None \<longleftrightarrow> (\<forall>p \<in> set ps. \<not> (p_key p = key \<and> p_status p = Open))"
  by (induction ps) auto

definition no_open :: "string \<Rightarrow> promise list \<Rightarrow> bool" where
  "no_open key ps \<longleftrightarrow> (\<forall>p \<in> set ps. \<not> (p_key p = key \<and> p_status p = Open))"

definition fulfils :: "string \<Rightarrow> seq \<Rightarrow> string list \<Rightarrow> mem_state \<Rightarrow> mem_state \<Rightarrow> bool" where
  "fulfils key s vs st st' \<longleftrightarrow> (\<exists>us v ws xs p ys. vs = us @ v # ws \<and> rows (ms_promises st) v = xs @ p # ys
     \<and> p_key p = key \<and> p_status p = Open \<and> (\<forall>u \<in> set us. no_open key (rows (ms_promises st) u))
     \<and> no_open key xs
     \<and> st' = st\<lparr>ms_promises := (ms_promises st)(v \<mapsto>
          xs @ p\<lparr>p_status := Fulfilled, p_fulfilled_seq := Some s\<rparr> # ys)\<rparr>)"

lemma fulfils_Cons: "no_open key (rows (ms_promises st) v) \<Longrightarrow> fulfils key s vs st st' \<Longrightarrow> fulfils key s (v # vs) st st'"
  unfolding fulfils_def by (elim exE conjE, rule_tac x = "v # us" in exI) auto

lemma fulfill_in_result:
  "fulfill_in key s vs st = (b, st') \<Longrightarrow>
     (\<not> b \<and> st' = st \<and> (\<forall>v \<in> set vs. no_open key (rows (ms_promises st) v))) \<or> (b \<and> fulfils key s vs st st')"
proof (induction vs)
  case Nil
  then show ?case by simp
next
  case (Cons v vs)
  show ?case
  proof (cases "fulfill_first key s (rows (ms_promises st) v)")
    case None
    then have no: "no_open key (rows (ms_promises st) v)"
      by (simp only: fulfill_first_None no_open_def)
    from None Cons.prems have "fulfill_in key s vs st = (b, st')" by simp
    from Cons.IH[OF this] no show ?thesis by (auto intro: fulfils_Cons)
  next
    case (Some ps)
    from fulfill_first_Some[OF Some] obtain xs p ys where
      f: "rows (ms_promises st) v = xs @ p # ys" "p_key p = key" "p_status p = Open" "no_open key xs"
      "ps = xs @ p\<lparr>p_status := Fulfilled, p_fulfilled_seq := Some s\<rparr> # ys"
      unfolding no_open_def by blast
    have "b" "st' = st\<lparr>ms_promises := (ms_promises st)(v \<mapsto> ps)\<rparr>" using Some Cons.prems by auto
    moreover have "fulfils key s (v # vs) st (st\<lparr>ms_promises := (ms_promises st)(v \<mapsto> ps)\<rparr>)"
      unfolding fulfils_def
      by (rule exI[of _ "[]"], rule exI[of _ v], rule exI[of _ vs], rule exI[of _ xs],
          rule exI[of _ p], rule exI[of _ ys]) (simp add: f)
    ultimately show ?thesis by simp
  qed
qed

lemma set_fulfils: "fulfils key s vs st st' \<Longrightarrow> set (rows (ms_promises st') v) \<subseteq>
    set (rows (ms_promises st) v) \<union> (\<lambda>p. p\<lparr>p_status := Fulfilled, p_fulfilled_seq := Some s\<rparr>) `
      {p \<in> set (rows (ms_promises st) v). p_status p = Open \<and> p_key p = key}"
  by (auto simp: fulfils_def rows_upd split: if_splits)

section \<open>The invariant\<close>

definition promise_ok :: "promise \<Rightarrow> bool" where
  "promise_ok p \<longleftrightarrow> (p_status p = Open \<and> p_fulfilled_seq p = None)
     \<or> (p_status p = Fulfilled \<and> (\<exists>f. p_fulfilled_seq p = Some f \<and> p_seq p < f))"

definition ids_ok :: "(nat \<Rightarrow> string) \<Rightarrow> mem_state \<Rightarrow> bool" where
  "ids_ok gen st \<longleftrightarrow> (\<forall>v. known st v \<longrightarrow> (\<exists>k < ms_drawn st. v = ''memv-'' @ gen k))
     \<and> (\<forall>v. \<forall>c \<in> set (rows (ms_claims st) v). c_version_id c = v \<and> (\<exists>k < ms_drawn st. c_id c = ''claim-'' @ gen k))
     \<and> (\<forall>v w. \<forall>c \<in> set (rows (ms_claims st) v). \<forall>d \<in> set (rows (ms_claims st) w). c_id c = c_id d \<longrightarrow> c = d)"

definition rows_ok :: "mem_state \<Rightarrow> bool" where
  "rows_ok st \<longleftrightarrow> (\<forall>v. \<not> known st v \<longrightarrow> version_seqs st v = [])
     \<and> (\<forall>v. sorted_wrt (<) (map c_seq (rows (ms_claims st) v)))
     \<and> (\<forall>v. \<forall>a \<in> set (rows (ms_anchors st) v). a_status a = Locked)
     \<and> (\<forall>v. \<forall>p \<in> set (rows (ms_promises st) v). promise_ok p)"

definition mem_ok :: "gov_env \<Rightarrow> (nat \<Rightarrow> string) \<Rightarrow> mem_state \<Rightarrow> bool" where
  "mem_ok env gen st \<longleftrightarrow> tree_ok env st \<and> ids_ok gen st \<and> rows_ok st"

lemma rows_of_unknown: "rows_ok st \<Longrightarrow> \<not> known st v \<Longrightarrow> rows (ms_claims st) v = [] \<and> rows (ms_anchors st) v = []
    \<and> rows (ms_promises st) v = [] \<and> rows (ms_counters st) v = []"
  by (auto simp: rows_ok_def version_seqs_def promise_seqs_def)

lemma mem_ok_new: "mem_ok env gen mem_new"
  by (simp add: mem_ok_def tree_ok_def ids_ok_def rows_ok_def known_def mem_new_def version_seqs_def)

lemma known_frame: "ms_versions st' = ms_versions st \<Longrightarrow> known st' v = known st v"
  by (simp add: known_def)

lemma lineage_frame: "ms_versions st' = ms_versions st \<Longrightarrow> lineage st' v = lineage st v"
  by (simp add: lineage_def)

lemma tree_frame: "ms_versions st' = ms_versions st \<Longrightarrow> ms_version_meta st' = ms_version_meta st \<Longrightarrow>
    tree_ok env st' = tree_ok env st"
  by (simp add: tree_ok_def known_def)

text \<open>Adding claims numbered after everything in the version.\<close>

lemma claims_added_frame [simp]:
  "ms_versions (claims_added st v cs) = ms_versions st"
  "ms_version_meta (claims_added st v cs) = ms_version_meta st"
  "ms_anchors (claims_added st v cs) = ms_anchors st"
  "ms_promises (claims_added st v cs) = ms_promises st"
  "ms_counters (claims_added st v cs) = ms_counters st"
  "ms_drawn (claims_added st v cs) = ms_drawn st + length cs"
  "rows (ms_claims (claims_added st v cs)) w = rows (ms_claims st) w @ (if w = v then cs else [])"
  by (simp_all add: claims_added_def rows_upd)

lemma extend_findings_frame [simp]:
  "ms_versions (extend_findings v s fs st) = ms_versions st"
  "ms_version_meta (extend_findings v s fs st) = ms_version_meta st"
  "ms_claims (extend_findings v s fs st) = ms_claims st"
  "ms_anchors (extend_findings v s fs st) = ms_anchors st"
  "ms_promises (extend_findings v s fs st) = ms_promises st"
  "ms_counters (extend_findings v s fs st) = ms_counters st"
  "ms_drawn (extend_findings v s fs st) = ms_drawn st"
  by (simp_all add: extend_findings_def)

lemma set_batch_claims: "set (batch_claims gen st v s ncs) =
    {stored_claim (''claim-'' @ gen (ms_drawn st + i)) v (s + i) (ncs ! i) | i. i < length ncs}"
  by (auto simp: batch_claims_def)

lemma stored_claim_simps [simp]: "c_id (stored_claim i v s nc) = i" "c_version_id (stored_claim i v s nc) = v"
  "c_seq (stored_claim i v s nc) = s" "c_supersedes_id (stored_claim i v s nc) = nc_supersedes_id nc"
  by (simp_all add: stored_claim_def)

lemma batch_claims_seqs: "map c_seq (batch_claims gen st v s ncs) = [s..<s + length ncs]"
  by (rule nth_equalityI) (simp_all add: batch_claims_def)

lemma mem_version_seqs:
  "c \<in> set (rows (ms_claims st) v) \<Longrightarrow> c_seq c \<in> set (version_seqs st v)"
  "a \<in> set (rows (ms_anchors st) v) \<Longrightarrow> a_seq a \<in> set (version_seqs st v)"
  "p \<in> set (rows (ms_promises st) v) \<Longrightarrow> set (promise_seqs p) \<subseteq> set (version_seqs st v)"
  "r \<in> set (rows (ms_counters st) v) \<Longrightarrow> r_seq r \<in> set (version_seqs st v)"
  by (auto simp: version_seqs_def)

lemma set_promise_seqs: "p_seq p \<in> set (promise_seqs p)"
  "p_fulfilled_seq p = Some f \<Longrightarrow> f \<in> set (promise_seqs p)"
  by (simp_all add: promise_seqs_def)

lemma head_ge_lineage:
  assumes "w \<in> set (lineage st v)"
  shows "c \<in> set (rows (ms_claims st) w) \<Longrightarrow> c_seq c \<le> head st v"
    and "a \<in> set (rows (ms_anchors st) w) \<Longrightarrow> a_seq a \<le> head st v"
    and "p \<in> set (rows (ms_promises st) w) \<Longrightarrow> p_seq p \<le> head st v"
    and "p \<in> set (rows (ms_promises st) w) \<Longrightarrow> p_fulfilled_seq p = Some f \<Longrightarrow> f \<le> head st v"
    and "r \<in> set (rows (ms_counters st) w) \<Longrightarrow> r_seq r \<le> head st v"
  using head_ge[OF assms] mem_version_seqs set_promise_seqs by (blast, blast, blast, blast, blast)

lemmas head_ge_rows = head_ge_lineage[OF lineage_self]

lemma ids_ok_add:
  assumes "inj gen" "ids_ok gen st"
  shows "ids_ok gen (claims_added st v (batch_claims gen st v s ncs))"
proof -
  let ?new = "batch_claims gen st v s ncs"
  have old: "\<exists>k < ms_drawn st. c_id c = ''claim-'' @ gen k" "c_version_id c = w"
    if "c \<in> set (rows (ms_claims st) w)" for c w
    using assms(2) that by (auto simp: ids_ok_def)
  have fresh: "c_id d \<noteq> c_id c" if "c \<in> set ?new" "d \<in> set (rows (ms_claims st) w)" for c d w
    using old(1)[OF that(2)] that(1) assms(1) by (auto simp: set_batch_claims dest: injD)
  have same: "c = d" if "c \<in> set ?new" "d \<in> set ?new" "c_id c = c_id d" for c d
    using that by (auto simp: set_batch_claims inj_eq[OF assms(1)])
  have new: "c_version_id c = v" "\<exists>k < ms_drawn st + length ncs. c_id c = ''claim-'' @ gen k"
    if "c \<in> set ?new" for c
    using that by (auto simp: set_batch_claims) (metis nat_add_left_cancel_less)
  have kn: "\<forall>w. known st w \<longrightarrow> (\<exists>k < ms_drawn st + length ncs. w = ''memv-'' @ gen k)"
    using assms(2) unfolding ids_ok_def by (meson trans_less_add1)
  have mono: "\<exists>k < ms_drawn st + length ncs. c_id c = ''claim-'' @ gen k" if "c \<in> set (rows (ms_claims st) w)" for c w
    using old(1)[OF that] by (meson trans_less_add1)
  have uniq: "\<forall>a b. \<forall>c \<in> set (rows (ms_claims st) a). \<forall>d \<in> set (rows (ms_claims st) b). c_id c = c_id d \<longrightarrow> c = d"
    using assms(2) unfolding ids_ok_def by blast
  show ?thesis unfolding ids_ok_def
    using kn old mono new uniq fresh same by (auto simp: known_frame[of "claims_added st v ?new" st]) metis+
qed

lemma sorted_append_upt:
  assumes "sorted_wrt (<) (xs :: nat list)" "\<forall>x \<in> set xs. x < s"
  shows "sorted_wrt (<) (xs @ [s..<t])"
  using assms by (auto simp: sorted_wrt_append)

lemma rows_ok_add:
  assumes "rows_ok st" "known st v" "head st v < s"
  shows "rows_ok (claims_added st v (batch_claims gen st v s ncs))"
proof -
  let ?st = "claims_added st v (batch_claims gen st v s ncs)"
  have "sorted_wrt (<) (map c_seq (rows (ms_claims ?st) w))" for w
  proof (cases "w = v")
    case True
    have "\<forall>x \<in> set (map c_seq (rows (ms_claims st) v)). x < s"
      using head_ge_rows(1)[OF assms(2)] assms(3) by fastforce
    moreover have "sorted_wrt (<) (map c_seq (rows (ms_claims st) v))" using assms(1) by (simp add: rows_ok_def)
    ultimately show ?thesis using True
      by (simp add: batch_claims_seqs sorted_append_upt del: map_append) (simp add: batch_claims_seqs sorted_append_upt)
  next
    case False
    with assms(1) show ?thesis by (simp add: rows_ok_def)
  qed
  moreover have "version_seqs ?st w = []" if "\<not> known ?st w" for w
    using that assms(1,2) by (auto simp: known_frame[of ?st st] rows_ok_def version_seqs_def)
  ultimately show ?thesis using assms(1) by (simp add: rows_ok_def)
qed

lemma mem_ok_add:
  assumes "inj gen" "mem_ok env gen st" "known st v" "head st v < s"
  shows "mem_ok env gen (claims_added st v (batch_claims gen st v s ncs))"
  using assms ids_ok_add rows_ok_add by (auto simp: mem_ok_def tree_frame[of "claims_added _ _ _"])

text \<open>Updates that leave the versions, the claims and the draws of claims alone.\<close>

lemma ids_frame:
  assumes "ids_ok gen st" "ms_versions st' = ms_versions st" "ms_claims st' = ms_claims st"
    "ms_drawn st \<le> ms_drawn st'"
  shows "ids_ok gen st'"
proof -
  have "(\<exists>k < ms_drawn st. P k) \<Longrightarrow> (\<exists>k < ms_drawn st'. P k)" for P
    using assms(4) by (meson order_less_le_trans)
  then show ?thesis using assms(1)
    unfolding ids_ok_def known_frame[OF assms(2)] assms(3) by simp
qed

lemma mem_ok_frame:
  assumes "mem_ok env gen st" "ms_versions st' = ms_versions st" "ms_version_meta st' = ms_version_meta st"
    "ms_claims st' = ms_claims st" "ms_drawn st \<le> ms_drawn st'"
    "\<And>w. \<not> known st w \<Longrightarrow> version_seqs st' w = []"
    "\<And>w a. a \<in> set (rows (ms_anchors st') w) \<Longrightarrow> a_status a = Locked"
    "\<And>w p. p \<in> set (rows (ms_promises st') w) \<Longrightarrow> promise_ok p"
  shows "mem_ok env gen st'"
  using assms ids_frame[of gen st st']
  by (simp add: mem_ok_def tree_frame[of st' st] known_frame[of st' st] rows_ok_def)

lemma version_seqs_frame:
  "rows (ms_claims st') w = rows (ms_claims st) w \<Longrightarrow> rows (ms_anchors st') w = rows (ms_anchors st) w \<Longrightarrow>
   rows (ms_promises st') w = rows (ms_promises st) w \<Longrightarrow> rows (ms_counters st') w = rows (ms_counters st) w \<Longrightarrow>
   version_seqs st' w = version_seqs st w"
  by (simp add: version_seqs_def)

lemma fulfils_ok:
  assumes "mem_ok env gen st" "fulfils key (head st v + 1) (lineage st v) st st'"
  shows "mem_ok env gen st'"
proof -
  from assms(2) obtain us u ws xs p ys where f: "lineage st v = us @ u # ws" "rows (ms_promises st) u = xs @ p # ys"
     "p_status p = Open" "st' = st\<lparr>ms_promises := (ms_promises st)(u \<mapsto>
          xs @ p\<lparr>p_status := Fulfilled, p_fulfilled_seq := Some (head st v + 1)\<rparr> # ys)\<rparr>"
    unfolding fulfils_def by blast
  have u: "u \<in> set (lineage st v)" "known st u" using f(1) lineage_known[of u st v] by auto
  have "p_seq p \<le> head st v" using head_ge_lineage(3)[OF u(1)] f(2) by simp
  then have new: "promise_ok (p\<lparr>p_status := Fulfilled, p_fulfilled_seq := Some (head st v + 1)\<rparr>)"
    by (simp add: promise_ok_def)
  have old: "promise_ok q" if "q \<in> set (rows (ms_promises st) w)" for q w
    using assms(1) that by (simp add: mem_ok_def rows_ok_def)
  have "promise_ok q" if q: "q \<in> set (rows (ms_promises st') w)" for q w
  proof (cases "w = u")
    case True
    with q f(4) consider "q \<in> set (rows (ms_promises st) u)"
      | "q = p\<lparr>p_status := Fulfilled, p_fulfilled_seq := Some (head st v + 1)\<rparr>"
      using f(2) by (auto simp: rows_upd)
    then show ?thesis by cases (simp_all only: old new)
  next
    case False
    with q f(4) show ?thesis using old[of q w] by (simp add: rows_upd)
  qed
  moreover have "version_seqs st' w = []" if "\<not> known st w" for w
  proof -
    have "version_seqs st' w = version_seqs st w"
      using that u(2) f(4) by (intro version_seqs_frame) (auto simp: rows_upd)
    then show ?thesis using assms(1) that by (simp add: mem_ok_def rows_ok_def)
  qed
  ultimately show ?thesis using assms(1) f(4)
    by (intro mem_ok_frame[OF assms(1)]) (auto simp: mem_ok_def rows_ok_def)
qed

section \<open>New versions\<close>

lemma insert_version_frame [simp]:
  "ms_versions (insert_version i parent psnap md st) = (i, parent) # ms_versions st"
  "ms_version_meta (insert_version i parent psnap md st) =
     (case md of None \<Rightarrow> ms_version_meta st | Some m \<Rightarrow> (ms_version_meta st)(i \<mapsto> m))"
  "ms_claims (insert_version i parent psnap md st) = ms_claims st"
  "ms_anchors (insert_version i parent psnap md st) = ms_anchors st"
  "ms_promises (insert_version i parent psnap md st) = ms_promises st"
  "ms_counters (insert_version i parent psnap md st) = ms_counters st"
  "ms_drawn (insert_version i parent psnap md st) = Suc (ms_drawn st)"
  by (simp_all add: insert_version_def Let_def)

lemma create_version_Inr: "create_version env gen st parent md = Inr (v, st') \<longleftrightarrow>
    (\<exists>psnap md'. v = ''memv-'' @ gen (ms_drawn st) \<and> (\<forall>p. parent = Some p \<longrightarrow> known st p)
      \<and> (case parent of None \<Rightarrow> psnap = None
         | Some p \<Rightarrow> \<exists>sn. parent_snapshot env st (meta_get md ''governance_transition'' \<noteq> None) p = Inr sn
              \<and> psnap = Some sn)
      \<and> prepare_version_metadata env md (Option.bind parent (ms_version_meta st)) psnap = Inr md'
      \<and> st' = insert_version v parent psnap md' st)"
  unfolding create_version_def Let_def
  by (cases parent) (auto simp: res_bind_eq_Inr ensure_eq_Inr)

lemma seqs_same_rows:
  "ms_claims st' = ms_claims st \<Longrightarrow> ms_anchors st' = ms_anchors st \<Longrightarrow>
   ms_promises st' = ms_promises st \<Longrightarrow> ms_counters st' = ms_counters st \<Longrightarrow>
   version_seqs st' w = version_seqs st w"
  by (simp add: version_seqs_def)

lemma create_fresh: "inj gen \<Longrightarrow> ids_ok gen st \<Longrightarrow> \<not> known st (''memv-'' @ gen (ms_drawn st))"
  by (auto simp: ids_ok_def inj_eq)

lemma create_ok:
  assumes g: "gov_env_ok env" and inj: "inj gen" and ok: "mem_ok env gen st"
    and c: "create_version env gen st parent md = Inr (v, st')"
  shows "mem_ok env gen st'"
proof -
  from c obtain psnap md' where d: "v = ''memv-'' @ gen (ms_drawn st)" "\<forall>p. parent = Some p \<longrightarrow> known st p"
    "prepare_version_metadata env md (Option.bind parent (ms_version_meta st)) psnap = Inr md'"
    "st' = insert_version v parent psnap md' st" unfolding create_version_Inr by blast
  have fresh: "\<not> known st v" using create_fresh[OF inj] ok d(1) by (simp add: mem_ok_def)
  have kn: "known st' w \<longleftrightarrow> w = v \<or> known st w" for w by (simp add: d(4) known_iff)
  have meta: "ms_version_meta st' w = (if w = v then md' else ms_version_meta st w)" for w
    using ok fresh by (auto simp: d(4) mem_ok_def tree_ok_def split: option.splits)
  have "tree_ok env st'"
    using ok fresh d(2) prepared_reads_back[OF g d(3)]
    by (auto simp: tree_ok_def mem_ok_def kn meta) (auto simp: d(4) known_iff split: option.splits)
  moreover have "ids_ok gen st'"
  proof -
    have suc: "(\<exists>k < ms_drawn st. P k) \<Longrightarrow> (\<exists>k < ms_drawn st'. P k)" for P
      unfolding d(4) insert_version_frame by (meson less_SucI)
    have "\<exists>k < ms_drawn st'. w = ''memv-'' @ gen k" if "known st' w" for w
    proof (cases "w = v")
      case True
      then show ?thesis unfolding d(4) insert_version_frame d(1) by blast
    next
      case False
      with that kn ok have "\<exists>k < ms_drawn st. w = ''memv-'' @ gen k" by (simp add: mem_ok_def ids_ok_def)
      then show ?thesis by (rule suc)
    qed
    moreover have "\<exists>k < ms_drawn st'. c_id c = ''claim-'' @ gen k" if "c \<in> set (rows (ms_claims st) w)" for c w
    proof -
      have "\<exists>k < ms_drawn st. c_id c = ''claim-'' @ gen k" using that ok unfolding mem_ok_def ids_ok_def by blast
      then show ?thesis by (rule suc)
    qed
    ultimately show ?thesis using ok unfolding ids_ok_def mem_ok_def by (simp add: d(4))
  qed
  moreover have "rows_ok st'"
  proof -
    have "version_seqs st' w = version_seqs st w" for w by (rule seqs_same_rows) (simp_all add: d(4))
    moreover have "ms_claims st' = ms_claims st" "ms_anchors st' = ms_anchors st"
      "ms_promises st' = ms_promises st" by (simp_all add: d(4))
    ultimately show ?thesis using ok by (simp add: rows_ok_def mem_ok_def kn)
  qed
  ultimately show ?thesis by (simp add: mem_ok_def)
qed

section \<open>Every step keeps the invariant\<close>

lemma rows_okD:
  assumes "mem_ok env gen st"
  shows "\<not> known st w \<Longrightarrow> version_seqs st w = []"
    and "a \<in> set (rows (ms_anchors st) w) \<Longrightarrow> a_status a = Locked"
    and "p \<in> set (rows (ms_promises st) w) \<Longrightarrow> promise_ok p"
    and "sorted_wrt (<) (map c_seq (rows (ms_claims st) w))"
  using assms by (auto simp: mem_ok_def rows_ok_def)

text \<open>A change of the rows of known versions only.\<close>

lemma mem_ok_rows:
  assumes "mem_ok env gen st" "known st v"
    "ms_versions st' = ms_versions st" "ms_version_meta st' = ms_version_meta st"
    "ms_claims st' = ms_claims st" "ms_drawn st \<le> ms_drawn st'"
    "\<And>w. w \<noteq> v \<Longrightarrow> rows (ms_anchors st') w = rows (ms_anchors st) w
        \<and> rows (ms_promises st') w = rows (ms_promises st) w \<and> rows (ms_counters st') w = rows (ms_counters st) w"
    "\<forall>a \<in> set (rows (ms_anchors st') v). a_status a = Locked"
    "\<forall>p \<in> set (rows (ms_promises st') v). promise_ok p"
  shows "mem_ok env gen st'"
proof (rule mem_ok_frame[OF assms(1,3,4,5,6)])
  fix w assume "\<not> known st w"
  with assms(2) have "w \<noteq> v" by auto
  then have "version_seqs st' w = version_seqs st w"
    by (intro version_seqs_frame) (simp_all add: assms(5,7))
  with \<open>\<not> known st w\<close> show "version_seqs st' w = []" using rows_okD(1)[OF assms(1)] by simp
next
  fix w a assume "a \<in> set (rows (ms_anchors st') w)"
  then show "a_status a = Locked" using assms(7,8) rows_okD(2)[OF assms(1), of a w] by (cases "w = v") auto
next
  fix w p assume "p \<in> set (rows (ms_promises st') w)"
  then show "promise_ok p" using assms(7,9) rows_okD(3)[OF assms(1), of p w] by (cases "w = v") auto
qed

lemma mem_ok_findings:
  assumes "mem_ok env gen st"
  shows "mem_ok env gen (extend_findings v s fs st)"
proof -
  have "version_seqs (extend_findings v s fs st) w = version_seqs st w" for w
    by (rule seqs_same_rows) simp_all
  then show ?thesis using rows_okD[OF assms] by (intro mem_ok_frame[OF assms]) simp_all
qed

lemma store_claim_batch1: "store_claim gen v s nc st =
    (hd (batch_claims gen st v s [nc]), claims_added st v (batch_claims gen st v s [nc]))"
  by (simp add: store_claim_batch batch_claims_def)

lemma step_ok:
  assumes g: "gov_env_ok env" and inj: "inj gen" and ok: "mem_ok env gen st"
    and s: "mem_step env gen st v st'"
  shows "mem_ok env gen st'"
proof -
  have tree: "tree_ok env st" using ok by (simp add: mem_ok_def)
  note locked = rows_okD(2)[OF ok] and prom = rows_okD(3)[OF ok]
  from s show ?thesis
  proof cases
    case (create parent md)
    then show ?thesis using create_ok[OF g inj ok] by blast
  next
    case (claim nc e c)
    then have "known st v" "st' = claims_added st v (batch_claims gen st v (head st v + 1) [nc])"
      by (auto simp: append_claim_Inr[OF tree] store_claim_batch1)
    then show ?thesis using mem_ok_add[OF inj ok] by simp
  next
    case (batch ncs e fs cs)
    show ?thesis
    proof (cases "ncs = []")
      case True
      with batch ok show ?thesis by (simp add: append_batch_def)
    next
      case False
      let ?st1 = "claims_added st v cs"
      from batch have b: "known st v" "cs = batch_claims gen st v (head st v + 1) ncs"
        "st' = extend_findings v (c_seq (last cs)) fs ?st1"
        by (auto simp: append_batch_Inr[OF tree False])
      have "mem_ok env gen ?st1" unfolding b(2) by (rule mem_ok_add[OF inj ok b(1)]) simp
      then show ?thesis unfolding b(3) by (rule mem_ok_findings)
    qed
  next
    case (lock subject key val sc ev a)
    then have "known st v" "a_status a = Locked"
      "st' = st\<lparr>ms_anchors := push_row v a (ms_anchors st), ms_drawn := Suc (ms_drawn st)\<rparr>"
      by (auto simp: lock_anchor_Inr[OF tree])
    then show ?thesis by (intro mem_ok_rows[OF ok, of v]) (auto simp: rows_push locked prom)
  next
    case (register key knd descr os ds p)
    then have "known st v" "promise_ok p"
      "st' = st\<lparr>ms_promises := push_row v p (ms_promises st), ms_drawn := Suc (ms_drawn st)\<rparr>"
      by (auto simp: register_promise_Inr[OF tree] promise_ok_def)
    then show ?thesis by (intro mem_ok_rows[OF ok, of v]) (auto simp: rows_push locked prom)
  next
    case (fulfill key b)
    then have "fulfill_in key (head st v + 1) (lineage st v) st = (b, st')"
      by (simp add: fulfill_promise_Inr[OF tree])
    from fulfill_in_result[OF this] show ?thesis using ok fulfils_ok[OF ok] by blast
  next
    case (counts key scope n budget)
    then have "known st v" "st' = st\<lparr>ms_counters := (ms_counters st)(v \<mapsto>
       upsert_count key scope n budget (head st v + 1) (rows (ms_counters st) v))\<rparr>"
      by (auto simp: record_counts_Inr[OF tree])
    then show ?thesis by (intro mem_ok_rows[OF ok, of v]) (auto simp: rows_upd locked prom)
  next
    case (digest d)
    have fr: "ms_versions (upsert_digest st d) = ms_versions st" "ms_version_meta (upsert_digest st d) = ms_version_meta st"
      "ms_claims (upsert_digest st d) = ms_claims st" "ms_drawn (upsert_digest st d) = ms_drawn st"
      "ms_anchors (upsert_digest st d) = ms_anchors st" "ms_promises (upsert_digest st d) = ms_promises st"
      "ms_counters (upsert_digest st d) = ms_counters st" by (simp_all add: upsert_digest_def)
    have "version_seqs (upsert_digest st d) w = version_seqs st w" for w by (rule seqs_same_rows) (rule fr)+
    then have "mem_ok env gen (upsert_digest st d)"
      using locked prom rows_okD(1)[OF ok] by (intro mem_ok_frame[OF ok]) (simp_all add: fr)
    with digest show ?thesis by simp
  next
    case (finds s fs)
    then have "known st v" "st' = extend_findings v s fs st" by (auto simp: record_findings_Inr[OF tree])
    then show ?thesis using mem_ok_findings[OF ok] by simp
  qed
qed

theorem reachable_ok:
  assumes "gov_env_ok env" "inj gen" "reachable env gen st"
  shows "mem_ok env gen st"
  using assms(3) by induction (auto intro: mem_ok_new step_ok[OF assms(1,2)])

end
