(* ===== verification/Mem_Pins.thy ===== *)
theory Mem_Pins
  imports Mem_Invariant
begin

text \<open>
  Pinned reads of the in-memory store: every write is numbered after the head of the version it
  writes to, so a read pinned at or below that head does not see it. The store is an instance of
  the contract \<open>pinned_backend\<close>.
\<close>

section \<open>Heads\<close>

lemma max_or_0_Max: "max_or_0 xs = Max (insert 0 (set xs))"
proof (rule antisym)
  show "max_or_0 xs \<le> Max (insert 0 (set xs))"
    by (simp add: max_or_0_le_iff)
  show "Max (insert 0 (set xs)) \<le> max_or_0 xs"
    by (simp add: max_or_0_ge)
qed

lemma head_le_iff: "head st v \<le> n \<longleftrightarrow> (\<forall>w \<in> set (lineage st v). \<forall>s \<in> set (version_seqs st w). s \<le> n)"
  by (auto simp: head_def max_or_0_le_iff)

text \<open>Numbers are never withdrawn from a version: they are kept or replaced by later ones.\<close>

definition seqs_grow :: "mem_state \<Rightarrow> mem_state \<Rightarrow> bool" where
  "seqs_grow st st' \<longleftrightarrow> (\<forall>w. \<forall>s \<in> set (version_seqs st w). \<exists>s' \<in> set (version_seqs st' w). s \<le> s')"

lemma seqs_growI: "(\<And>w. set (version_seqs st w) \<subseteq> set (version_seqs st' w)) \<Longrightarrow> seqs_grow st st'"
  unfolding seqs_grow_def by blast

lemma upsert_count_seqs: "x \<in> set (map r_seq rs) \<Longrightarrow> \<forall>r \<in> set rs. r_seq r \<le> s \<Longrightarrow>
    \<exists>y \<in> set (map r_seq (upsert_count key scope n b s rs)). x \<le> y"
proof (induction rs)
  case (Cons r rs)
  then show ?case by (cases "r_key r = key \<and> r_scope_path r = scope") fastforce+
qed simp

text \<open>The kinds of change a step makes, as far as facts, anchors and promises are concerned.\<close>

definition pinned_same :: "seq \<Rightarrow> mem_state \<Rightarrow> mem_state \<Rightarrow> bool" where
  "pinned_same p st st' \<longleftrightarrow> (\<forall>w.
     filter (\<lambda>c. c_seq c \<le> p) (rows (ms_claims st') w) = filter (\<lambda>c. c_seq c \<le> p) (rows (ms_claims st) w)
     \<and> filter (\<lambda>a. a_seq a \<le> p) (rows (ms_anchors st') w) = filter (\<lambda>a. a_seq a \<le> p) (rows (ms_anchors st) w)
     \<and> map (promise_view (Some p)) (filter (\<lambda>x. p_seq x \<le> p) (rows (ms_promises st') w)) =
       map (promise_view (Some p)) (filter (\<lambda>x. p_seq x \<le> p) (rows (ms_promises st) w)))"

definition same_rows :: "mem_state \<Rightarrow> mem_state \<Rightarrow> bool" where
  "same_rows st st' \<longleftrightarrow> ms_claims st' = ms_claims st \<and> ms_anchors st' = ms_anchors st \<and> ms_promises st' = ms_promises st"

lemma same_rows_pinned: "same_rows st st' \<Longrightarrow> pinned_same p st st'"
  by (simp add: same_rows_def pinned_same_def)

lemma promise_view_fulfilled:
  "p_status x = Open \<Longrightarrow> p_fulfilled_seq x = None \<Longrightarrow> p < s \<Longrightarrow>
   promise_view (Some p) (x\<lparr>p_status := Fulfilled, p_fulfilled_seq := Some s\<rparr>) = promise_view (Some p) x"
  by (simp add: promise_view_def status_as_of_def Let_def)

lemma fulfils_pinned:
  assumes "\<And>w q. q \<in> set (rows (ms_promises st) w) \<Longrightarrow> promise_ok q" "fulfils key s vs st st'" "p < s"
  shows "pinned_same p st st'"
proof -
  from assms(2) obtain u xs q ys where f: "rows (ms_promises st) u = xs @ q # ys" "p_status q = Open"
     "st' = st\<lparr>ms_promises := (ms_promises st)(u \<mapsto>
          xs @ q\<lparr>p_status := Fulfilled, p_fulfilled_seq := Some s\<rparr> # ys)\<rparr>"
    unfolding fulfils_def by blast
  have "promise_ok q" by (rule assms(1)[of _ u]) (simp add: f)
  with f(2) have "p_fulfilled_seq q = None" by (simp add: promise_ok_def)
  with f assms(3) show ?thesis
    by (simp add: pinned_same_def rows_upd promise_view_fulfilled)
qed

lemma filter_new_seqs: "\<forall>c \<in> set cs. p < f c \<Longrightarrow> filter (\<lambda>c. f c \<le> (p :: nat)) cs = []"
  by (auto simp: filter_empty_conv)

lemma claims_added_pinned: "\<forall>c \<in> set cs. p < c_seq c \<Longrightarrow> pinned_same p st (claims_added st v cs)"
  by (simp add: pinned_same_def filter_new_seqs)

lemma batch_claims_after: "c \<in> set (batch_claims gen st v s ncs) \<Longrightarrow> s \<le> c_seq c"
  by (auto simp: set_batch_claims)

text \<open>A step leaves every read pinned at or below the head of the written version alone.\<close>

lemma step_pinned_same:
  assumes ok: "mem_ok env gen st" and s: "mem_step env gen st v st'"
    and p: "known st v \<Longrightarrow> p \<le> head st v"
  shows "pinned_same p st st'"
proof -
  have tree: "tree_ok env st" using ok by (simp add: mem_ok_def)
  from s show ?thesis
  proof cases
    case (create parent md)
    then have "same_rows st st'" by (auto simp: create_version_Inr same_rows_def)
    then show ?thesis by (rule same_rows_pinned)
  next
    case (claim nc e c)
    then have a: "known st v" "st' = claims_added st v (batch_claims gen st v (head st v + 1) [nc])"
      by (auto simp: append_claim_Inr[OF tree] store_claim_batch1)
    with p show ?thesis by (auto intro!: claims_added_pinned dest!: batch_claims_after)
  next
    case (batch ncs e fs cs)
    show ?thesis
    proof (cases "ncs = []")
      case True
      with batch show ?thesis by (simp add: append_batch_def pinned_same_def)
    next
      case False
      from batch have b: "known st v" "cs = batch_claims gen st v (head st v + 1) ncs"
        "st' = extend_findings v (c_seq (last cs)) fs (claims_added st v cs)"
        by (auto simp: append_batch_Inr[OF tree False])
      then have "pinned_same p st (claims_added st v cs)"
        using p by (intro claims_added_pinned) (auto dest!: batch_claims_after)
      then show ?thesis by (simp add: b(3) pinned_same_def)
    qed
  next
    case (lock subject key val sc ev a)
    then show ?thesis using p by (auto simp: lock_anchor_Inr[OF tree] pinned_same_def rows_push)
  next
    case (register key knd descr os ds q)
    then show ?thesis using p by (auto simp: register_promise_Inr[OF tree] pinned_same_def rows_push)
  next
    case (fulfill key b)
    then have k: "known st v" "fulfill_in key (head st v + 1) (lineage st v) st = (b, st')"
      by (simp_all add: fulfill_promise_Inr[OF tree])
    from fulfill_in_result[OF k(2)] show ?thesis
    proof
      assume "b \<and> fulfils key (head st v + 1) (lineage st v) st st'"
      then show ?thesis using fulfils_pinned[of st] rows_okD(3)[OF ok] p[OF k(1)] by auto
    qed (simp add: pinned_same_def)
  next
    case (counts key scope n budget)
    then have "same_rows st st'" by (auto simp: record_counts_Inr[OF tree] same_rows_def)
    then show ?thesis by (rule same_rows_pinned)
  next
    case (digest d)
    then have "same_rows st st'" by (simp add: same_rows_def upsert_digest_def)
    then show ?thesis by (rule same_rows_pinned)
  next
    case (finds s fs)
    then have "same_rows st st'" by (auto simp: record_findings_Inr[OF tree] same_rows_def)
    then show ?thesis by (rule same_rows_pinned)
  qed
qed

section \<open>The tree only grows\<close>

lemma step_versions:
  assumes ok: "mem_ok env gen st" and inj: "inj gen" and s: "mem_step env gen st v st'"
  shows "ms_versions st' = ms_versions st
    \<or> (\<exists>parent. ms_versions st' = (v, parent) # ms_versions st \<and> \<not> known st v)"
proof -
  have tree: "tree_ok env st" using ok by (simp add: mem_ok_def)
  from s show ?thesis
  proof cases
    case (create parent md)
    then have "v = ''memv-'' @ gen (ms_drawn st)" "ms_versions st' = (v, parent) # ms_versions st"
      by (auto simp: create_version_Inr)
    moreover have "\<not> known st v" using create_fresh[OF inj] ok calculation(1) by (simp add: mem_ok_def)
    ultimately show ?thesis by blast
  next
    case (claim nc e c)
    then show ?thesis by (auto simp: append_claim_Inr[OF tree] store_claim_batch1)
  next
    case (batch ncs e fs cs)
    then show ?thesis
    proof (cases "ncs = []")
      case True
      with batch show ?thesis by (simp add: append_batch_def)
    next
      case False
      with batch show ?thesis by (auto simp: append_batch_Inr[OF tree False])
    qed
  next
    case (fulfill key b)
    then have "fulfill_in key (head st v + 1) (lineage st v) st = (b, st')"
      by (simp add: fulfill_promise_Inr[OF tree])
    from fulfill_in_result[OF this] show ?thesis by (auto simp: fulfils_def)
  qed (auto simp: lock_anchor_Inr[OF tree] register_promise_Inr[OF tree] record_counts_Inr[OF tree]
      record_findings_Inr[OF tree] upsert_digest_def)
qed

lemma step_lineage:
  assumes "mem_ok env gen st" "inj gen" "mem_step env gen st v st'" "known st w"
  shows "known st' w \<and> lineage st' w = lineage st w"
  using step_versions[OF assms(1-3)]
proof (elim disjE exE conjE)
  fix parent assume c: "ms_versions st' = (v, parent) # ms_versions st" "\<not> known st v"
  then have "v \<noteq> w" using assms(4) by auto
  with c(1) assms(4) show ?thesis by (simp add: known_iff lineage_def)
qed (use assms(4) in \<open>simp add: known_iff lineage_def\<close>)

section \<open>Heads never go back\<close>

lemma seqs_grow_refl: "(\<And>w. version_seqs st' w = version_seqs st w) \<Longrightarrow> seqs_grow st st'"
  by (rule seqs_growI) simp

lemma step_seqs_grow:
  assumes ok: "mem_ok env gen st" and s: "mem_step env gen st v st'"
  shows "seqs_grow st st'"
proof -
  have tree: "tree_ok env st" using ok by (simp add: mem_ok_def)
  have add: "seqs_grow st (claims_added st v cs)" for cs
    by (rule seqs_growI) (auto simp: version_seqs_def)
  from s show ?thesis
  proof cases
    case (create parent md)
    then have "version_seqs st' w = version_seqs st w" for w
      by (intro seqs_same_rows) (auto simp: create_version_Inr)
    then show ?thesis by (rule seqs_grow_refl)
  next
    case (claim nc e c)
    then show ?thesis using add by (auto simp: append_claim_Inr[OF tree] store_claim_batch1)
  next
    case (batch ncs e fs cs)
    show ?thesis
    proof (cases "ncs = []")
      case True
      with batch show ?thesis by (intro seqs_growI) (simp add: append_batch_def)
    next
      case False
      with batch have "st' = extend_findings v (c_seq (last cs)) fs (claims_added st v cs)"
        by (auto simp: append_batch_Inr[OF tree False])
      then have "version_seqs st' w = version_seqs (claims_added st v cs) w" for w
        by (intro seqs_same_rows) simp_all
      then show ?thesis using add[of cs] by (simp add: seqs_grow_def)
    qed
  next
    case (lock subject key val sc ev a)
    then show ?thesis by (intro seqs_growI) (auto simp: lock_anchor_Inr[OF tree] version_seqs_def rows_push)
  next
    case (register key knd descr os ds q)
    then show ?thesis by (intro seqs_growI) (auto simp: register_promise_Inr[OF tree] version_seqs_def rows_push)
  next
    case (fulfill key b)
    then have "fulfill_in key (head st v + 1) (lineage st v) st = (b, st')"
      by (simp add: fulfill_promise_Inr[OF tree])
    from fulfill_in_result[OF this] show ?thesis
    proof
      assume "b \<and> fulfils key (head st v + 1) (lineage st v) st st'"
      then obtain u xs q ys where f: "rows (ms_promises st) u = xs @ q # ys" "p_status q = Open"
        "st' = st\<lparr>ms_promises := (ms_promises st)(u \<mapsto>
          xs @ q\<lparr>p_status := Fulfilled, p_fulfilled_seq := Some (head st v + 1)\<rparr> # ys)\<rparr>"
        unfolding fulfils_def by blast
      have "promise_ok q" by (rule rows_okD(3)[OF ok, of _ u]) (simp add: f)
      with f(2) have "p_fulfilled_seq q = None" by (simp add: promise_ok_def)
      with f show ?thesis
        by (auto simp: seqs_grow_def version_seqs_def rows_upd promise_seqs_def)
    qed (simp add: seqs_grow_def, blast)
  next
    case (counts key scope n budget)
    then have k: "known st v" and st': "st' = st\<lparr>ms_counters := (ms_counters st)(v \<mapsto>
       upsert_count key scope n budget (head st v + 1) (rows (ms_counters st) v))\<rparr>"
      by (auto simp: record_counts_Inr[OF tree])
    have le: "\<forall>r \<in> set (rows (ms_counters st) v). r_seq r \<le> head st v + 1"
      using head_ge_rows(5)[OF k] by fastforce
    show ?thesis unfolding seqs_grow_def
    proof (intro allI ballI)
      fix w s assume s: "s \<in> set (version_seqs st w)"
      show "\<exists>s' \<in> set (version_seqs st' w). s \<le> s'"
      proof (cases "w = v \<and> s \<in> set (map r_seq (rows (ms_counters st) v))")
        case True
        then show ?thesis using upsert_count_seqs[OF _ le, of s key scope n budget]
          by (auto simp: st' version_seqs_def rows_upd)
      next
        case False
        with s have "s \<in> set (version_seqs st' w)" by (auto simp: st' version_seqs_def rows_upd)
        then show ?thesis by blast
      qed
    qed
  next
    case (digest d)
    then have "version_seqs st' w = version_seqs st w" for w
      by (intro seqs_same_rows) (simp_all add: upsert_digest_def)
    then show ?thesis by (rule seqs_grow_refl)
  next
    case (finds s fs)
    then have "version_seqs st' w = version_seqs st w" for w
      by (intro seqs_same_rows) (simp_all add: record_findings_Inr[OF tree])
    then show ?thesis by (rule seqs_grow_refl)
  qed
qed

lemma step_head_mono:
  assumes "mem_ok env gen st" "inj gen" "mem_step env gen st v st'" "known st w"
  shows "head st w \<le> head st' w"
proof -
  have lin: "lineage st' w = lineage st w" using step_lineage[OF assms] by simp
  have "s \<le> head st' w" if "u \<in> set (lineage st w)" "s \<in> set (version_seqs st u)" for u s
    using step_seqs_grow[OF assms(1,3)] that head_ge[of u st' w] lin
    unfolding seqs_grow_def by (metis order_trans)
  then show ?thesis by (simp add: head_le_iff)
qed

section \<open>Reads\<close>

lemma concat_map_filter: "filter P (concat (map f xs)) = concat (map (\<lambda>x. filter P (f x)) xs)"
  by (induction xs) auto

lemma pinned_slice:
  assumes "tree_ok env st" "tree_ok env st'" "pinned_same p st st'" "known st v" "known st' v"
    "lineage st' v = lineage st v" "q_as_of_seq q = Some p"
  shows "slice_facts env st' v q = slice_facts env st v q"
proof -
  have "filter (\<lambda>c. within_pin (q_as_of_seq q) (c_seq c)) (lin_rows (ms_claims st') st' v)
      = filter (\<lambda>c. within_pin (q_as_of_seq q) (c_seq c)) (lin_rows (ms_claims st) st v)"
    using assms(3,6,7) by (simp add: lin_rows_def concat_map_filter pinned_same_def)
  then have "resolve_slice (lin_rows (ms_claims st') st' v) q = resolve_slice (lin_rows (ms_claims st) st v) q"
    by (rule resolve_slice_same_pinned)
  then show ?thesis using assms by (simp add: slice_facts_def tree_simps)
qed

lemma pinned_anchors:
  assumes "tree_ok env st" "tree_ok env st'" "pinned_same p st st'" "known st v" "known st' v"
    "lineage st' v = lineage st v"
  shows "anchors env st' v (Some p) = anchors env st v (Some p)"
proof -
  have "filter (\<lambda>a. a_status a = Locked \<and> a_seq a \<le> p) xs
      = filter (\<lambda>a. a_status a = Locked) (filter (\<lambda>a. a_seq a \<le> p) xs)" for xs
    by (simp add: conj_commute)
  then have "filter (\<lambda>a. a_status a = Locked \<and> a_seq a \<le> p) (rows (ms_anchors st') w)
      = filter (\<lambda>a. a_status a = Locked \<and> a_seq a \<le> p) (rows (ms_anchors st) w)" for w
    using assms(3) unfolding pinned_same_def by metis
  then show ?thesis using assms by (simp add: anchors_def tree_simps concat_map_filter)
qed

lemma pinned_promises:
  assumes "tree_ok env st" "tree_ok env st'" "pinned_same p st st'" "known st v" "known st' v"
    "lineage st' v = lineage st v"
  shows "promises env st' v (Some p) = promises env st v (Some p)"
proof -
  have "map (promise_view (Some p)) (concat (map (\<lambda>w. filter (\<lambda>x. p_seq x \<le> p) (rows (ms_promises st') w)) xs))
     = map (promise_view (Some p)) (concat (map (\<lambda>w. filter (\<lambda>x. p_seq x \<le> p) (rows (ms_promises st) w)) xs))"
    for xs using assms(3) by (induction xs) (simp_all add: pinned_same_def)
  then show ?thesis using assms by (simp add: promises_def tree_simps concat_map_filter)
qed

text \<open>A run of writes, each to a version whose head has reached the pin.\<close>

definition write_after :: "gov_env \<Rightarrow> (nat \<Rightarrow> string) \<Rightarrow> seq \<Rightarrow> mem_state \<Rightarrow> mem_state \<Rightarrow> bool" where
  "write_after env gen p st st' \<longleftrightarrow>
     (\<exists>w. mem_step env gen st w st' \<and> (known st w \<longrightarrow> p \<le> head st w))"

lemma pinned_run:
  assumes "gov_env_ok env" "inj gen" "mem_ok env gen st" "known st v"
    and run: "(write_after env gen p)\<^sup>*\<^sup>* st st'"
  shows "mem_ok env gen st' \<and> known st' v \<and> head st v \<le> head st' v
    \<and> (\<forall>q. q_as_of_seq q = Some p \<longrightarrow> slice_facts env st' v q = slice_facts env st v q)
    \<and> anchors env st' v (Some p) = anchors env st v (Some p)
    \<and> promises env st' v (Some p) = promises env st v (Some p)"
  using run
proof induction
  case base
  then show ?case using assms by simp
next
  case (step s1 s2)
  then obtain w where w: "mem_step env gen s1 w s2" "known s1 w \<Longrightarrow> p \<le> head s1 w"
    unfolding write_after_def by blast
  have ok1: "mem_ok env gen s1" and k1: "known s1 v" using step.IH by simp_all
  have ok2: "mem_ok env gen s2" by (rule step_ok[OF assms(1,2) ok1 w(1)])
  note lin = step_lineage[OF ok1 assms(2) w(1) k1] and hd = step_head_mono[OF ok1 assms(2) w(1) k1]
  have same: "pinned_same p s1 s2" by (rule step_pinned_same[OF ok1 w])
  have t: "tree_ok env s1" "tree_ok env s2" using ok1 ok2 by (simp_all add: mem_ok_def)
  show ?case
    using step.IH lin hd ok2 pinned_slice[OF t same k1] pinned_anchors[OF t same k1]
      pinned_promises[OF t same k1] by auto
qed

end
