(* ===== verification/Mem_Properties.thy ===== *)
theory Mem_Properties
  imports Mem_Pins
begin

text \<open>
  The properties of the in-memory store: allocation of sequence numbers, atomic batches, the
  append-only ledger, pinned reads and snapshots, promises, counters and findings; and a small
  reachable store the witnesses run on.
\<close>

section \<open>The store as a backend\<close>

interpretation mem: pinned_backend "mem_backend env" "mem_ok env gen" for env gen
proof
  fix st v q cs p c
  assume "be_slice_facts (mem_backend env st) v q = Inr cs" "q_as_of_seq q = Some p" "c \<in> set cs"
  then show "c_seq c \<le> p"
    by (auto simp: mem_backend_def slice_facts_def res_bind_eq_Inr answers_def current_at_def
        dest!: resolve_slice_subset)
next
  fix st v p m k a
  assume "be_anchors (mem_backend env st) v (Some p) = Inr m" "(k, a) \<in> set m"
  then obtain as where m: "m = fold (\<lambda>a. bt_insert (a_detail_key a) a)
      (filter (\<lambda>a. a_status a = Locked \<and> a_seq a \<le> p) as) []"
    by (auto simp: mem_backend_def anchors_def res_bind_eq_Inr)
  have "bt_sorted m" unfolding m by (rule bt.ok_fold) simp
  then have "map_of m k = Some a" using \<open>(k, a) \<in> set m\<close> by (simp add: bt_sorted_distinct)
  then show "a_seq a \<le> p \<and> a_status a = Locked"
    unfolding m using bt.get_fold_mem[OF bt_sorted_Nil] by fastforce
next
  fix st v p ps x
  assume ok: "mem_ok env gen st" and "be_promises (mem_backend env st) v (Some p) = Inr ps" "x \<in> set ps"
  then obtain w y where y: "x = promise_view (Some p) y" "p_seq y \<le> p" "y \<in> set (rows (ms_promises st) w)"
    by (auto simp: mem_backend_def promises_def res_bind_eq_Inr)
  have "promise_ok y" using rows_okD(3)[OF ok y(3)] .
  then show "p_seq x \<le> p \<and> (p_status x = Fulfilled \<longrightarrow> (\<exists>f. p_fulfilled_seq x = Some f \<and> f \<le> p))"
    using y(1,2) by (auto simp: promise_ok_def promise_view_def status_as_of_def Let_def split: if_splits)
qed

section \<open>A reachable store\<close>

definition demo_gen :: "nat \<Rightarrow> string" where
  "demo_gen n = replicate n (CHR ''x'')"

lemma inj_demo_gen: "inj demo_gen"
  by (rule injI) (simp add: demo_gen_def replicate_eq_replicate)

text \<open>A root, a child of it, and one claim written to the child.\<close>

definition demo_root :: mem_state where
  "demo_root = insert_version ''memv-'' None None None mem_new"

definition demo_child :: mem_state where
  "demo_child = insert_version ''memv-x'' (Some ''memv-'') (Some (snapshot_default\<lparr>sn_version_id := ''memv-'',
     sn_as_of_seq := Some 0, sn_facts := [], sn_anchors := []\<rparr>)) None demo_root"

definition demo_claim :: claim where
  "demo_claim = stored_claim ''claim-xx'' ''memv-x'' 1 (new_claim_fact ''hero'' ''eyes'' ''green'')"

definition demo_store :: mem_state where
  "demo_store = claims_added demo_child ''memv-x'' [demo_claim]"

lemma demo_prepare: "prepare_version_metadata demo_env None None ps = Inr None"
proof -
  have r: "revision demo_env governance_policy_default = Inr ''governance-v1:''"
    using demo_revision[of "[]"] by (simp add: profile_Nil)
  show ?thesis
    by (cases ps) (simp_all add: prepare_version_metadata_def prepare_with_def from_stored_ungoverned r)
qed

lemma demo_drawn [simp]: "ms_drawn mem_new = 0" "ms_drawn demo_root = 1" "ms_drawn demo_child = 2" "ms_drawn demo_store = 3"
  by (simp_all add: mem_new_def demo_root_def demo_child_def demo_store_def)

lemma demo_versions [simp]: "ms_versions mem_new = []" "ms_versions demo_root = [(''memv-'', None)]"
  "ms_versions demo_child = [(''memv-x'', Some ''memv-''), (''memv-'', None)]"
  "ms_versions demo_store = [(''memv-x'', Some ''memv-''), (''memv-'', None)]"
  by (simp_all add: mem_new_def demo_root_def demo_child_def demo_store_def)

lemma demo_meta [simp]: "ms_version_meta mem_new = Map.empty" "ms_version_meta demo_root = Map.empty"
  "ms_version_meta demo_child = Map.empty" "ms_version_meta demo_store = Map.empty"
  by (simp_all add: mem_new_def demo_root_def demo_child_def demo_store_def)

lemma demo_rows [simp]:
  "ms_claims demo_child = Map.empty" "ms_anchors demo_store = Map.empty" "ms_anchors demo_child = Map.empty"
  "ms_promises demo_store = Map.empty" "ms_promises demo_child = Map.empty"
  "ms_counters demo_store = Map.empty" "ms_counters demo_child = Map.empty"
  "ms_claims demo_root = Map.empty" "ms_anchors demo_root = Map.empty" "ms_promises demo_root = Map.empty"
  "ms_counters demo_root = Map.empty"
  "rows (ms_claims demo_store) w = (if w = ''memv-x'' then [demo_claim] else [])"
  by (simp_all add: mem_new_def demo_root_def demo_child_def demo_store_def)

lemma demo_reach_root: "reachable demo_env demo_gen demo_root"
proof -
  have "create_version demo_env demo_gen mem_new None None = Inr (''memv-'', demo_root)"
    by (simp add: create_version_def demo_prepare Let_def demo_gen_def demo_root_def)
  then show ?thesis by (meson reachable.intros mem_step.create)
qed

lemma demo_tree: "tree_ok demo_env demo_root" "tree_ok demo_env demo_child" "tree_ok demo_env demo_store"
  by (simp_all add: tree_ok_def known_def from_stored_ungoverned)

lemma demo_lineage [simp]: "lineage demo_root ''memv-'' = [''memv-'']"
  "lineage demo_child ''memv-x'' = [''memv-'', ''memv-x'']" "lineage demo_child ''memv-'' = [''memv-'']"
  "lineage demo_store ''memv-x'' = [''memv-'', ''memv-x'']" "lineage demo_store ''memv-'' = [''memv-'']"
  by (simp_all add: lineage_def)

lemma demo_known [simp]: "known demo_root w \<longleftrightarrow> w = ''memv-''"
  "known demo_child w \<longleftrightarrow> w = ''memv-x'' \<or> w = ''memv-''" "known demo_store w \<longleftrightarrow> w = ''memv-x'' \<or> w = ''memv-''"
  by (simp_all add: known_iff)

lemma demo_claim_simps [simp]: "c_seq demo_claim = 1" "c_id demo_claim = ''claim-xx''"
  "c_supersedes_id demo_claim = None" "c_status demo_claim = Accepted" "c_version_id demo_claim = ''memv-x''"
  "c_scope_path demo_claim = None"
  by (simp_all add: demo_claim_def) (simp_all add: stored_claim_def new_claim_fact_def)

lemma demo_head [simp]: "head demo_root ''memv-'' = 0" "head demo_child ''memv-x'' = 0"
  "head demo_store ''memv-x'' = 1" "head demo_store ''memv-'' = 0"
  by (simp_all add: head_def version_seqs_def max_or_0_def)

lemma demo_reach_child: "reachable demo_env demo_gen demo_child"
proof -
  have "create_version demo_env demo_gen demo_root (Some ''memv-'') None = Inr (''memv-x'', demo_child)"
    by (simp add: create_version_def parent_snapshot_def tree_simps demo_tree demo_prepare Let_def
        demo_gen_def demo_child_def anchors_of_lineage_def)
  then show ?thesis by (meson reachable.intros mem_step.create demo_reach_root)
qed

lemma demo_append: "append_claim demo_env demo_gen demo_child ''memv-x'' (new_claim_fact ''hero'' ''eyes'' ''green'') (Some 0)
    = Inr (demo_claim, demo_store)"
  by (simp add: append_claim_Inr demo_tree store_claim_batch sup_known_def demo_gen_def numeral_2_eq_2
      demo_claim_def demo_store_def) (simp add: new_claim_fact_def)

lemma demo_reach: "reachable demo_env demo_gen demo_store"
  using demo_append by (meson reachable.intros mem_step.claim demo_reach_child)

section \<open>Lemmas\<close>

lemma version_seqs_added: "set (version_seqs (claims_added st v cs) w) =
    set (version_seqs st w) \<union> (if w = v then c_seq ` set cs else {})"
  by (auto simp: version_seqs_def)

lemma lineage_added [simp]: "lineage (claims_added st v cs) w = lineage st w"
  by (simp add: lineage_def)

lemma known_added [simp]: "known (claims_added st v cs) w = known st w"
  by (simp add: known_def)

lemma head_added:
  assumes "known st v" "cs \<noteq> []" "map c_seq cs = [head st v + 1..<head st v + 1 + length cs]"
  shows "head (claims_added st v cs) v = head st v + length cs"
proof (rule antisym)
  have new: "c_seq ` set cs = {head st v + 1..<head st v + 1 + length cs}"
    using arg_cong[OF assms(3), of set] by (simp only: set_map set_upt)
  show "head (claims_added st v cs) v \<le> head st v + length cs"
    unfolding head_le_iff lineage_added version_seqs_added
  proof (intro ballI)
    fix w s assume w: "w \<in> set (lineage st v)"
      and s: "s \<in> set (version_seqs st w) \<union> (if w = v then c_seq ` set cs else {})"
    show "s \<le> head st v + length cs"
    proof (cases "s \<in> set (version_seqs st w)")
      case True
      from head_ge[OF w this] show ?thesis by simp
    next
      case False
      with s have "s \<in> c_seq ` set cs" by (auto split: if_splits)
      then have "s < head st v + 1 + length cs" unfolding new by simp
      then show ?thesis by simp
    qed
  qed
  have "head st v + length cs \<in> c_seq ` set cs" using new assms(2) by (cases cs) auto
  then have "head st v + length cs \<in> set (version_seqs (claims_added st v cs) v)"
    by (simp add: version_seqs_added)
  then show "head st v + length cs \<le> head (claims_added st v cs) v"
    by (rule head_ge[rotated]) (simp add: lineage_self assms(1))
qed

lemma head_batch: "known st v \<Longrightarrow> ncs \<noteq> [] \<Longrightarrow>
    head (claims_added st v (batch_claims gen st v (head st v + 1) ncs)) v = head st v + length ncs"
  using head_added[of st v "batch_claims gen st v (head st v + 1) ncs"] length_batch_claims
  by (metis batch_claims_seqs length_0_conv)

lemma batch_claims_Cons: "batch_claims gen st v s (nc # ncs) =
    stored_claim (''claim-'' @ gen (ms_drawn st)) v s nc
    # batch_claims gen (claims_added st v [c]) v (Suc s) ncs"
  by (simp add: batch_claims_def upt_conv_Cons map_Suc_upt[symmetric] comp_def del: upt_Suc)

lemma claims_added_append: "claims_added (claims_added st v cs) v ds = claims_added st v (cs @ ds)"
  by (simp add: claims_added_def rows_upd add.assoc)

lemma lin_rows_added: "set (lin_rows (ms_claims st) st v) \<subseteq>
    set (lin_rows (ms_claims (claims_added st v cs)) (claims_added st v cs) v)"
  by (auto simp: lin_rows_def)

lemma sup_known_mono: "sup_known cs nc \<Longrightarrow> set cs \<subseteq> set ds \<Longrightarrow> sup_known ds nc"
  by (auto simp: sup_known_def split: option.splits)

lemma default_loop:
  assumes "tree_ok env st" "known st v" "ncs \<noteq> []" "e = None \<or> e = Some (head st v)"
    "\<forall>nc \<in> set ncs. sup_known (lin_rows (ms_claims st) st v) nc"
  shows "append_claims_default (\<lambda>s. append_claim env gen s v) st ncs e =
    Inr (batch_claims gen st v (head st v + 1) ncs,
         claims_added st v (batch_claims gen st v (head st v + 1) ncs))"
  using assms
proof (induction ncs arbitrary: st e)
  case Nil
  then show ?case by simp
next
  case (Cons nc ncs)
  define c where "c = stored_claim (''claim-'' @ gen (ms_drawn st)) v (head st v + 1) nc"
  define st1 where "st1 = claims_added st v [c]"
  have cs: "c_seq c = head st v + 1" by (simp add: c_def)
  have a: "append_claim env gen st v nc e = Inr (c, st1)"
    using Cons.prems by (simp add: append_claim_Inr store_claim_batch c_def st1_def)
  have h: "head st1 v = head st v + 1" using head_added[OF Cons.prems(2), of "[c]"] by (simp add: cs st1_def)
  show ?case
  proof (cases "ncs = []")
    case True
    then show ?thesis by (simp add: a batch_claims_def c_def st1_def)
  next
    case False
    have "append_claims_default (\<lambda>s. append_claim env gen s v) st1 ncs (Some (c_seq c)) =
        Inr (batch_claims gen st1 v (head st1 v + 1) ncs,
          claims_added st1 v (batch_claims gen st1 v (head st1 v + 1) ncs))"
    proof (rule Cons.IH)
      show "tree_ok env st1" 
        using Cons.prems(1) tree_frame[of st1 st env] by (simp only: st1_def claims_added_frame)
      show "Some (c_seq c) = None \<or> Some (c_seq c) = Some (head st1 v)"
        by (simp add: h cs)
      show "\<forall>nc \<in> set ncs. sup_known (lin_rows (ms_claims st1) st1 v) nc"
        using Cons.prems(5) sup_known_mono[OF _ lin_rows_added] by (simp add: st1_def)
    qed (use Cons.prems False in \<open>simp_all add: st1_def\<close>)
    then show ?thesis
      using batch_claims_Cons[of gen st v "head st v + 1" nc ncs c, folded c_def st1_def]
      by (simp add: a h claims_added_append[of st v "[c]", folded st1_def] cs)
  qed
qed

text \<open>Every step extends the list of every version's claims.\<close>

lemma step_ledger:
  assumes ok: "mem_ok env gen st" and s: "mem_step env gen st v st'"
  shows "\<exists>new. rows (ms_claims st') w = rows (ms_claims st) w @ new \<and> (\<forall>c \<in> set new. w = v \<and> head st v < c_seq c)"
proof -
  have tree: "tree_ok env st" using ok by (simp add: mem_ok_def)
  have add: "\<exists>new. rows (ms_claims (claims_added st v (batch_claims gen st v (head st v + 1) ncs))) w
      = rows (ms_claims st) w @ new \<and> (\<forall>c \<in> set new. w = v \<and> head st v < c_seq c)" for ncs
    by (cases "w = v") (auto dest: batch_claims_after)
  from s show ?thesis
  proof cases
    case (claim nc e c)
    then show ?thesis using add[of "[nc]"] by (auto simp: append_claim_Inr[OF tree] store_claim_batch1)
  next
    case (batch ncs e fs cs)
    then show ?thesis using add[of ncs]
      by (cases "ncs = []") (simp add: append_batch_def, auto simp: append_batch_Inr[OF tree])
  next
    case (fulfill key b)
    then have "fulfill_in key (head st v + 1) (lineage st v) st = (b, st')"
      by (simp add: fulfill_promise_Inr[OF tree])
    from fulfill_in_result[OF this] show ?thesis by (auto simp: fulfils_def)
  qed (auto simp: create_version_Inr lock_anchor_Inr[OF tree] register_promise_Inr[OF tree]
      record_counts_Inr[OF tree] record_findings_Inr[OF tree] upsert_digest_def)
qed

lemma path_links: "versions_ok vs \<Longrightarrow> i < length (path vs v) \<Longrightarrow>
    map_of vs (path vs v ! i) = Some (if i = 0 then None else Some (path vs v ! (i - 1)))"
proof (induction vs v arbitrary: i rule: path.induct)
  case (1 v)
  then show ?case by simp
next
  case (2 u parent vs v)
  show ?case
  proof (cases "u = v")
    case False
    have "path vs v ! i \<in> fst ` set vs" using path_keys "2.prems"(2) False by (metis nth_mem path.simps(2) subsetD)
    then have "path vs v ! i \<noteq> u" using "2.prems"(1) by auto
    with False 2 show ?thesis by simp
  next
    case True
    show ?thesis
    proof (cases parent)
      case None
      with True "2.prems" show ?thesis by simp
    next
      case (Some p)
      with "2.prems" True have p: "p \<in> fst ` set vs" "versions_ok vs" "u \<notin> fst ` set vs" by auto
      show ?thesis
      proof (cases "i < length (path vs p)")
        case True
        have "path vs p ! i \<in> fst ` set vs" using path_keys True by (metis nth_mem subsetD)
        with p(3) have "path vs p ! i \<noteq> u" by auto
        with True \<open>u = v\<close> Some "2.IH"(1)[OF \<open>u = v\<close> Some p(2) True] show ?thesis
          by (simp add: nth_append less_imp_diff_less)
      next
        case False
        with "2.prems"(2) \<open>u = v\<close> Some have "i = length (path vs p)" by simp
        moreover have "path vs p ! (length (path vs p) - 1) = p"
          using path_last[OF p(1)] last_conv_nth by metis
        ultimately show ?thesis using \<open>u = v\<close> Some path_last[OF p(1)]
          by (simp add: nth_append)
      qed
    qed
  qed
qed

lemma run_ok:
  assumes "gov_env_ok env" "inj gen" "mem_ok env gen st" "(\<lambda>s s'. \<exists>v. mem_step env gen s v s')\<^sup>*\<^sup>* st st'"
  shows "mem_ok env gen st' \<and> (\<forall>w. \<exists>new. rows (ms_claims st') w = rows (ms_claims st) w @ new)
    \<and> (\<forall>w. known st w \<longrightarrow> known st' w)"
  using assms(4)
proof induction
  case base
  then show ?case using assms by simp
next
  case (step s1 s2)
  then obtain v where v: "mem_step env gen s1 v s2" by blast
  have ok1: "mem_ok env gen s1" using step.IH by simp
  have "\<exists>new. rows (ms_claims s2) w = rows (ms_claims st) w @ new" for w
    using step.IH step_ledger[OF ok1 v, of w] by (metis append.assoc)
  moreover have "known st w \<longrightarrow> known s2 w" for w
    using step.IH step_lineage[OF ok1 assms(2) v, of w] by blast
  ultimately show ?case using step_ok[OF assms(1,2) ok1 v] by blast
qed

lemma get_claim_stored:
  assumes ok: "mem_ok env gen st" and c: "c \<in> set (rows (ms_claims st) w)" and w: "w \<in> set order"
  shows "get_claim env st order (c_id c) = Inr (Some c)"
proof -
  have uniq: "d = c" if "d \<in> set (all_claims st order)" "c_id d = c_id c" for d
    using ok c that unfolding mem_ok_def ids_ok_def all_claims_def by fastforce
  have ver: "c_version_id c = w" using ok c by (simp add: mem_ok_def ids_ok_def)
  have "c \<in> set (all_claims st order)" using c w by (auto simp: all_claims_def)
  then have "find (\<lambda>d. c_id d = c_id c) (all_claims st order) \<noteq> None" by (auto simp: find_None_iff')
  then obtain d where d: "find (\<lambda>d. c_id d = c_id c) (all_claims st order) = Some d" by auto
  then have "d \<in> set (all_claims st order)" "c_id d = c_id c" by (auto simp: find_Some_iff)
  then have "d = c" by (rule uniq)
  moreover have "known st w"
  proof (rule ccontr)
    assume "\<not> known st w"
    with ok have "rows (ms_claims st) w = []" by (simp add: mem_ok_def rows_of_unknown)
    with c show False by simp
  qed
  ultimately show ?thesis using d ok ver by (simp add: get_claim_def tree_simps mem_ok_def)
qed

section \<open>Properties\<close>

text \<open>C5. The walk to the root always ends. In every store the operations can reach, the lineage of
  a version is found within one iteration per version, and it is the chain of parents from a root
  to the version, without repetition; an unknown version is reported as not found.\<close>

theorem lineage_walk_ends:
  assumes "gov_env_ok env" "inj gen" "reachable env gen st"
  shows "lineage_walk env st (Suc (length (ms_versions st))) (Some v) [] \<noteq> None
    \<and> (if known st v
       then (\<exists>lin. lineage_of env st v = Inr lin \<and> lin \<noteq> [] \<and> last lin = v \<and> distinct lin
          \<and> (\<forall>i < length lin. map_of (ms_versions st) (lin ! i) = Some (if i = 0 then None else Some (lin ! (i - 1)))))
       else lineage_of env st v = Inl (version_not_found v))"
proof -
  have t: "tree_ok env st" using reachable_ok[OF assms] by (simp add: mem_ok_def)
  have vs: "versions_ok (ms_versions st)" using t by (simp add: tree_ok_def)
  show ?thesis
  proof (cases "known st v")
    case True
    then have "lineage_walk env st (Suc (length (ms_versions st))) (Some v) [] \<noteq> None"
      using lineage_walk_path[OF t, of "[]" "ms_versions st" v "Suc (length (ms_versions st))" "[]"]
      by (simp add: known_iff del: lineage_walk.simps)
    with True show ?thesis
      using lineage_of_ok[OF t, of v] path_last[of v "ms_versions st"] path_distinct[OF vs] path_links[OF vs]
      by (simp add: lineage_def known_iff del: lineage_walk.simps)
  next
    case False
    then show ?thesis by (simp add: lineage_of_ok[OF t]) (simp add: known_def)
  qed
qed

theorem lineage_walk_ends_witness:
  "\<exists>lin. lineage_of demo_env demo_store ''memv-x'' = Inr lin \<and> last lin = ''memv-x''"
proof -
  have k: "known demo_store ''memv-x''" by simp
  from lineage_walk_ends[OF demo_env_ok inj_demo_gen demo_reach, of "''memv-x''"]
  show ?thesis unfolding if_P[OF k] by blast
qed

text \<open>An append allocates exactly the next number. With the head read under the lock, a stale
  expected head is a conflict that names both heads, an unknown superseded claim is not found, and
  otherwise the claim is stored last in its version under the number after the head, which becomes
  the head.\<close>

theorem append_allocates_next:
  assumes "gov_env_ok env" "inj gen" "reachable env gen st" "head_of env st v = Inr h"
    "lineage_claims env st v = Inr cs"
  shows "append_claim env gen st v nc e =
      (if e \<noteq> None \<and> e \<noteq> Some h then Inl (HeadConflict (the e) h)
       else if nc_supersedes_id nc \<notin> {None} \<union> Some ` c_id ` set cs
            then Inl (claim_not_found (the (nc_supersedes_id nc)))
       else Inr (store_claim gen v (h + 1) nc st))
    \<and> (append_claim env gen st v nc e = Inr (c, st') \<longrightarrow>
         c_seq c = h + 1 \<and> head_of env st' v = Inr (h + 1)
         \<and> rows (ms_claims st') v = rows (ms_claims st) v @ [c])"
proof -
  have t: "tree_ok env st" using reachable_ok[OF assms(1-3)] by (simp add: mem_ok_def)
  have k: "known st v" and h: "h = head st v" using assms(4) by (auto simp: head_of_ok[OF t] split: if_splits)
  have "append_claim env gen st v nc e =
      (if e \<noteq> None \<and> e \<noteq> Some h then Inl (HeadConflict (the e) h)
       else if nc_supersedes_id nc \<notin> {None} \<union> Some ` c_id ` set cs
            then Inl (claim_not_found (the (nc_supersedes_id nc)))
       else Inr (store_claim gen v (h + 1) nc st))"
    unfolding append_claim_def assms(4,5) check_head_def ensure_def
    by (cases e; cases "nc_supersedes_id nc") (auto simp: image_iff)
  moreover have "c_seq c = h + 1 \<and> head_of env st' v = Inr (h + 1)
      \<and> rows (ms_claims st') v = rows (ms_claims st) v @ [c]" if "append_claim env gen st v nc e = Inr (c, st')"
  proof -
    from that have s: "c = stored_claim (''claim-'' @ gen (ms_drawn st)) v (h + 1) nc" "st' = claims_added st v [c]"
      by (auto simp: append_claim_Inr[OF t] store_claim_batch h)
    have "head st' v = h + 1" using head_added[OF k, of "[c]"] s by (simp add: h)
    moreover have "tree_ok env st'" using t s(2) tree_frame[of st' st env] by (simp only: claims_added_frame)
    moreover have "known st' v" using k s(2) by simp
    ultimately show ?thesis using s by (simp add: head_of_ok)
  qed
  ultimately show ?thesis by blast
qed

theorem append_allocates_next_witness:
  "head_of demo_env demo_store ''memv-x'' = Inr 1"
  using append_allocates_next[OF demo_env_ok inj_demo_gen demo_reach_child, of "''memv-x''" 0 "[]"
      "new_claim_fact ''hero'' ''eyes'' ''green''" "Some 0" demo_claim demo_store] demo_append
  by (simp add: tree_simps demo_tree lin_rows_def)

text \<open>C6. A batch lands as one unit and means the same as appending one by one: when it is
  accepted, the loop of single appends that chains the expected head returns the same claims,
  numbered consecutively after the head, and leaves the same ledger.\<close>

theorem batch_refines_single_appends:
  assumes "gov_env_ok env" "inj gen" "reachable env gen st"
    and "append_claims env gen st v ncs e = Inr (out, st')" "ncs \<noteq> []"
  shows "\<exists>st''. append_claims_default (\<lambda>s. append_claim env gen s v) st ncs e = Inr (out, st'')
      \<and> st' = st''\<lparr>ms_findings := ms_findings st'\<rparr> \<and> rows (ms_findings st') = rows (ms_findings st'')
      \<and> map c_seq out = [head st v + 1..<head st v + 1 + length ncs]
      \<and> head_of env st' v = Inr (head st v + length ncs)"
proof -
  have t: "tree_ok env st" using reachable_ok[OF assms(1-3)] by (simp add: mem_ok_def)
  let ?cs = "batch_claims gen st v (head st v + 1) ncs"
  let ?st = "claims_added st v ?cs"
  from assms(4) have b: "known st v" "e = None \<or> e = Some (head st v)"
    "\<forall>nc \<in> set ncs. sup_known (lin_rows (ms_claims st) st v) nc" "out = ?cs"
    "st' = extend_findings v (c_seq (last out)) [] ?st"
    unfolding append_claims_def append_batch_Inr[OF t assms(5)] by auto
  have "head st' v = head st v + length ncs"
  proof -
    have "lineage st' v = lineage ?st v" by (simp add: b(5) lineage_def)
    moreover have "version_seqs st' = version_seqs ?st" by (intro ext seqs_same_rows) (simp_all add: b(5))
    ultimately have "head st' v = head ?st v" by (simp only: head_def)
    then show ?thesis using head_batch[OF b(1) assms(5)] by simp
  qed
  moreover have "tree_ok env st'" using t tree_frame[of st' st env] by (simp add: b(5))
  moreover have "known st' v" using b(1) by (simp add: b(5) known_def)
  moreover have "rows (ms_findings st') = rows (ms_findings ?st)"
    by (rule ext) (simp add: b(5) extend_findings_def rows_upd)
  moreover have "st' = ?st\<lparr>ms_findings := ms_findings st'\<rparr>" by (simp add: b(5) extend_findings_def)
  ultimately show ?thesis using default_loop[OF t b(1) assms(5) b(2,3)] b(4)
    by (simp add: head_of_ok batch_claims_seqs)
qed

theorem batch_refines_single_appends_witness:
  "\<exists>out st'. append_claims demo_env demo_gen demo_store ''memv-x''
       [new_claim_fact ''a'' ''b'' ''c'', new_claim_fact ''d'' ''e'' ''f''] (Some 1) = Inr (out, st')
     \<and> map c_seq out = [2, 3]"
proof -
  let ?ncs = "[new_claim_fact ''a'' ''b'' ''c'', new_claim_fact ''d'' ''e'' ''f'']"
  have "\<forall>nc \<in> set ?ncs. sup_known cs nc" for cs by (simp add: sup_known_def new_claim_fact_def)
  then obtain out st' where r: "append_claims demo_env demo_gen demo_store ''memv-x'' ?ncs (Some 1) = Inr (out, st')"
    using append_batch_Inr[OF demo_tree(3), of ?ncs demo_gen "''memv-x''" "Some 1" "[]"]
    by (auto simp: append_claims_def)
  from batch_refines_single_appends[OF demo_env_ok inj_demo_gen demo_reach r] r show ?thesis
    by (auto simp: upt_rec)
qed

text \<open>C7. The ledger is append-only. Whatever operations follow, the claims of every version stay
  where they are with the later ones after them, numbered strictly upwards, and every stored claim
  is found again under its identity, unchanged, in whatever order the versions are searched.\<close>

theorem ledger_append_only:
  assumes "gov_env_ok env" "inj gen" "reachable env gen st"
    and "(\<lambda>s s'. \<exists>v. mem_step env gen s v s')\<^sup>*\<^sup>* st st'"
  shows "(\<exists>new. rows (ms_claims st') w = rows (ms_claims st) w @ new)
    \<and> sorted_wrt (<) (map c_seq (rows (ms_claims st') w))
    \<and> (c \<in> set (rows (ms_claims st) w) \<and> w \<in> set order \<longrightarrow> get_claim env st' order (c_id c) = Inr (Some c))"
proof -
  from run_ok[OF assms(1,2) reachable_ok[OF assms(1-3)] assms(4)]
  have ok: "mem_ok env gen st'" and ext: "\<exists>new. rows (ms_claims st') w = rows (ms_claims st) w @ new" by auto
  then have "get_claim env st' order (c_id c) = Inr (Some c)"
    if "c \<in> set (rows (ms_claims st) w)" "w \<in> set order"
    using that by (intro get_claim_stored[OF ok]) auto
  then show ?thesis using rows_okD(4)[OF ok] ext by blast
qed

theorem ledger_append_only_witness:
  "get_claim demo_env (upsert_digest demo_store \<lparr>d_version_id = ''memv-'', d_tier = 2, d_scope_path = [],
      d_content = [], d_content_hash = [], d_built_from_seq = 0\<rparr>) [''memv-'', ''memv-x''] ''claim-xx''
    = Inr (Some demo_claim)"
proof -
  let ?d = "\<lparr>d_version_id = ''memv-'', d_tier = 2, d_scope_path = [],
      d_content = [], d_content_hash = [], d_built_from_seq = 0\<rparr>"
  have "(\<lambda>s s'. \<exists>v. mem_step demo_env demo_gen s v s')\<^sup>*\<^sup>* demo_store (upsert_digest demo_store ?d)"
    using mem_step.digest[of demo_env demo_gen demo_store ?d] by blast
  from ledger_append_only[OF demo_env_ok inj_demo_gen demo_reach this, of "''memv-x''" demo_claim
      "[''memv-'', ''memv-x'']"] show ?thesis by simp
qed

text \<open>One pin bounds a snapshot: every fact, anchor and promise of a snapshot loaded under a pin
  is numbered within it, anchors are the locked ones, a promise fulfilled after the pin is shown
  open, and the digest ladder is rebuilt from the facts current at the pin, never the stored text.\<close>

theorem snapshot_bounded_by_pin:
  assumes "gov_env_ok env" "inj gen" "reachable env gen st"
    and "load_snapshot sha (mem_backend env st) v scope fl (Some p) = Inr sn"
  shows "c_seq ` set (sn_facts sn) \<subseteq> {..p} \<and> a_seq ` snd ` set (sn_anchors sn) \<subseteq> {..p}
    \<and> a_status ` snd ` set (sn_anchors sn) \<subseteq> {Locked} \<and> p_seq ` set (sn_promises sn) \<subseteq> {..p}
    \<and> p_fulfilled_seq ` {x \<in> set (sn_promises sn). p_status x = Fulfilled} \<subseteq> Some ` {..p}
    \<and> (\<exists>facts. slice_facts env st v (fact_query_default\<lparr>q_as_of_seq := Some p\<rparr>) = Inr facts
        \<and> sn_digests sn = build_ladder sha v facts)"
proof -
  have ok: "mem_ok env gen st" by (rule reachable_ok[OF assms(1-3)])
  from mem.snapshot_digests_rebuilt[OF assms(4)]
  have d: "\<exists>facts. slice_facts env st v (fact_query_default\<lparr>q_as_of_seq := Some p\<rparr>) = Inr facts
        \<and> sn_digests sn = build_ladder sha v facts" by (simp add: mem_backend_def)
  note w0 = mem.snapshot_within[OF ok assms(4)]
  have w: "\<forall>c \<in> set (sn_facts sn). c_seq c \<le> p"
    "\<forall>a \<in> snd ` set (sn_anchors sn). a_seq a \<le> p \<and> a_status a = Locked"
    "\<forall>x \<in> set (sn_promises sn). p_seq x \<le> p \<and>
        (p_status x = Fulfilled \<longrightarrow> (\<exists>f. p_fulfilled_seq x = Some f \<and> f \<le> p))"
    by (rule w0[THEN conjunct1], rule w0[THEN conjunct2, THEN conjunct1],
        rule w0[THEN conjunct2, THEN conjunct2, THEN conjunct1])
  show ?thesis
  proof (intro conjI)
    show "c_seq ` set (sn_facts sn) \<subseteq> {..p}" using w(1) by auto
    show "a_seq ` snd ` set (sn_anchors sn) \<subseteq> {..p}" "a_status ` snd ` set (sn_anchors sn) \<subseteq> {Locked}"
      using w(2) by auto
    show "p_seq ` set (sn_promises sn) \<subseteq> {..p}" using w(3) by auto
    show "p_fulfilled_seq ` {x \<in> set (sn_promises sn). p_status x = Fulfilled} \<subseteq> Some ` {..p}"
      using w(3) by auto
  qed (rule d)
qed

theorem snapshot_bounded_by_pin_witness:
  "\<exists>sn. load_snapshot id (mem_backend demo_env demo_store) ''memv-x'' None None (Some 0) = Inr sn
     \<and> c_seq ` set (sn_facts sn) \<subseteq> {..0}"
proof -
  have t: "lineage_of demo_env demo_store ''memv-x'' = Inr [''memv-'', ''memv-x'']"
    by (simp add: lineage_of_ok demo_tree)
  have cs: "slice_facts demo_env demo_store ''memv-x'' q = Inr (resolve_slice [demo_claim] q)" for q
    by (simp add: slice_facts_def lineage_claims_def t)
  obtain as where as: "anchors demo_env demo_store ''memv-x'' (Some 0) = Inr as"
    using t by (simp add: anchors_def)
  obtain ps where ps: "promises demo_env demo_store ''memv-x'' (Some 0) = Inr ps"
    using t by (simp add: promises_def)
  have ts: "counter_totals demo_env demo_store ''memv-x'' (Some 0) = Inr []"
    by (simp add: counter_totals_def t)
  have "\<exists>sn. load_snapshot id (mem_backend demo_env demo_store) ''memv-x'' None None (Some 0) = Inr sn"
    by (simp add: load_snapshot_def snapshot_digests_def mem_backend_def cs as ps ts)
  then obtain sn where sn: "load_snapshot id (mem_backend demo_env demo_store) ''memv-x'' None None (Some 0) = Inr sn" ..
  from snapshot_bounded_by_pin[OF demo_env_ok inj_demo_gen demo_reach sn, THEN conjunct1] sn
  show ?thesis by (intro exI conjI)
qed

text \<open>C8. Facts, anchors and promises replay: after any run of operations each of which writes to a
  version whose head has reached the pin, these three reads answer at the pin, for every version, as
  they did before, and heads have only moved up. Counter totals are not among them: a count recorded
  again replaces its row and leaves the pin (lemma recount_leaves_the_pin).\<close>

theorem pinned_reads_stable:
  assumes "gov_env_ok env" "inj gen" "reachable env gen st" "known st v"
    and "(write_after env gen p)\<^sup>*\<^sup>* st st'"
  shows "slice_facts env st' v (q\<lparr>q_as_of_seq := Some p\<rparr>) = slice_facts env st v (q\<lparr>q_as_of_seq := Some p\<rparr>)
    \<and> anchors env st' v (Some p) = anchors env st v (Some p)
    \<and> promises env st' v (Some p) = promises env st v (Some p)
    \<and> (\<exists>h h'. head_of env st v = Inr h \<and> head_of env st' v = Inr h' \<and> h \<le> h')"
proof -
  have ok: "mem_ok env gen st" by (rule reachable_ok[OF assms(1-3)])
  from pinned_run[OF assms(1,2) ok assms(4,5)] assms(4) ok show ?thesis
    by (simp add: mem_ok_def head_of_ok)
qed

definition demo_later :: mem_state where
  "demo_later = claims_added demo_store ''memv-x''
     (batch_claims demo_gen demo_store ''memv-x'' 2 [new_claim_fact ''hero'' ''hair'' ''red''])"

lemma demo_append_later: "append_claim demo_env demo_gen demo_store ''memv-x''
    (new_claim_fact ''hero'' ''hair'' ''red'') None =
      Inr (hd (batch_claims demo_gen demo_store ''memv-x'' 2 [new_claim_fact ''hero'' ''hair'' ''red'']), demo_later)"
  by (simp add: append_claim_Inr demo_tree store_claim_batch1 sup_known_def demo_later_def numeral_2_eq_2)
    (simp add: new_claim_fact_def)

lemma demo_slice: "slice_facts demo_env demo_store ''memv-x'' (fact_query_default\<lparr>q_as_of_seq := Some 1\<rparr>)
    = Inr [demo_claim]"
  by (simp add: slice_facts_def tree_simps demo_tree lin_rows_def resolve_slice_def fact_query_default_def
      effective_statuses_def set_superseded_ids)

theorem pinned_reads_stable_witness:
  "slice_facts demo_env demo_later ''memv-x'' (fact_query_default\<lparr>q_as_of_seq := Some 1\<rparr>) = Inr [demo_claim]"
proof -
  have "write_after demo_env demo_gen 1 demo_store demo_later"
    unfolding write_after_def using mem_step.claim[OF demo_append_later]
    by (intro exI[of _ "''memv-x''"]) simp
  then have run: "(write_after demo_env demo_gen 1)\<^sup>*\<^sup>* demo_store demo_later" by blast
  have k: "known demo_store ''memv-x''" by simp
  from pinned_reads_stable[OF demo_env_ok inj_demo_gen demo_reach k run, of fact_query_default] demo_slice
  show ?thesis by simp
qed

definition demo_root_write :: mem_state where
  "demo_root_write = claims_added demo_store ''memv-''
     (batch_claims demo_gen demo_store ''memv-'' 1 [new_claim_fact ''hero'' ''hair'' ''red''])"

text \<open>The condition on the written versions is needed: numbers are allocated per lineage. The root
  of the demonstration store is behind its child; a claim written to the root afterwards takes a number the
  child's pin already covers, and the child's read pinned at its own head changes.\<close>

theorem pins_do_not_cross_branches:
  "mem_step demo_env demo_gen demo_store ''memv-'' demo_root_write
   \<and> head_of demo_env demo_store ''memv-x'' = Inr 1
   \<and> slice_facts demo_env demo_root_write ''memv-x'' (fact_query_default\<lparr>q_as_of_seq := Some 1\<rparr>)
     \<noteq> slice_facts demo_env demo_store ''memv-x'' (fact_query_default\<lparr>q_as_of_seq := Some 1\<rparr>)"
proof -
  have "append_claim demo_env demo_gen demo_store ''memv-'' (new_claim_fact ''hero'' ''hair'' ''red'') None =
      Inr (hd (batch_claims demo_gen demo_store ''memv-'' 1 [new_claim_fact ''hero'' ''hair'' ''red'']), demo_root_write)"
    by (simp add: append_claim_Inr demo_tree store_claim_batch1 sup_known_def demo_root_write_def)
      (simp add: new_claim_fact_def)
  then have s: "mem_step demo_env demo_gen demo_store ''memv-'' demo_root_write" by (rule mem_step.claim)
  have t: "tree_ok demo_env demo_root_write"
    using demo_tree(3) tree_frame[of demo_root_write demo_store demo_env] by (simp add: demo_root_write_def)
  define c where "c = stored_claim ''claim-xxx'' ''memv-'' 1 (new_claim_fact ''hero'' ''hair'' ''red'')"
  have c: "c_seq c = 1" "c_id c = ''claim-xxx''" "c_status c = Accepted" "c_supersedes_id c = None"
    by (simp_all add: c_def) (simp_all add: stored_claim_def new_claim_fact_def)
  have s0: "superseded_ids [c, demo_claim] = []"
    by (simp add: superseded_ids_def List.map_filter_simps c)
  have b: "batch_claims demo_gen demo_store ''memv-'' 1 [new_claim_fact ''hero'' ''hair'' ''red''] = [c]"
    by (simp add: batch_claims_def c_def demo_gen_def numeral_3_eq_3)
  have b': "batch_claims demo_gen demo_store ''memv-'' (Suc 0) [new_claim_fact ''hero'' ''hair'' ''red''] = [c]"
    using b by simp
  have "lineage demo_root_write ''memv-x'' = [''memv-'', ''memv-x'']" "known demo_root_write ''memv-x''"
    by (simp_all add: demo_root_write_def)
  moreover have "lin_rows (ms_claims demo_root_write) demo_root_write ''memv-x'' = [c, demo_claim]"
    by (simp add: lin_rows_def demo_root_write_def b')
  ultimately have "slice_facts demo_env demo_root_write ''memv-x'' (fact_query_default\<lparr>q_as_of_seq := Some 1\<rparr>)
      = Inr [c, demo_claim]"
    by (simp add: slice_facts_def tree_simps t resolve_slice_def fact_query_default_def
        effective_statuses_def c s0)
  then show ?thesis using s demo_slice by (simp add: head_of_ok demo_tree)
qed

section \<open>Where the pin does not reach\<close>

lemma demo_child_step:
  assumes "reachable demo_env demo_gen st" "known st p" "ms_version_meta st p = None"
  shows "reachable demo_env demo_gen (insert_version (''memv-'' @ demo_gen (ms_drawn st)) (Some p) None None st)"
proof -
  have t: "tree_ok demo_env st"
    using reachable_ok[OF demo_env_ok inj_demo_gen assms(1)] by (simp add: mem_ok_def)
  have "insert_version v (Some p) ps None st = insert_version v (Some p) None None st" for v ps
    by (simp add: insert_version_def policy_finding_def Let_def)
  then have "\<exists>v. create_version demo_env demo_gen st (Some p) None =
      Inr (v, insert_version (''memv-'' @ demo_gen (ms_drawn st)) (Some p) None None st)"
    using assms by (simp add: create_version_def parent_snapshot_def tree_simps t demo_prepare Let_def)
  then show ?thesis using assms(1) by (meson reachable.intros mem_step.create)
qed

lemma demo_claim_step:
  assumes "reachable demo_env demo_gen st" "known st v" "sup_known (lin_rows (ms_claims st) st v) nc"
  shows "reachable demo_env demo_gen (claims_added st v
    [stored_claim (''claim-'' @ demo_gen (ms_drawn st)) v (head st v + 1) nc])"
proof -
  have "tree_ok demo_env st"
    using reachable_ok[OF demo_env_ok inj_demo_gen assms(1)] by (simp add: mem_ok_def)
  then have "\<exists>c. append_claim demo_env demo_gen st v nc None = Inr (c, claims_added st v
    [stored_claim (''claim-'' @ demo_gen (ms_drawn st)) v (head st v + 1) nc])"
    using assms by (simp add: append_claim_Inr store_claim_batch)
  then show ?thesis using assms(1) by (meson reachable.intros mem_step.claim)
qed

text \<open>A root claim and two children that each correct it: the corrections have the same number.\<close>

definition fork_correction :: "string \<Rightarrow> new_claim" where
  "fork_correction val = (new_claim_fact ''hero'' ''eyes'' val)\<lparr>nc_claim_type := Correction,
     nc_supersedes_id := Some ''claim-x''\<rparr>"

definition fork_base :: mem_state where
  "fork_base = insert_version ''memv-xxx'' (Some ''memv-'') None None
     (insert_version ''memv-xx'' (Some ''memv-'') None None
       (claims_added demo_root ''memv-'' [stored_claim ''claim-x'' ''memv-'' 1 (new_claim_fact ''hero'' ''eyes'' ''green'')]))"

definition fork :: mem_state where
  "fork = claims_added (claims_added fork_base ''memv-xx''
       [stored_claim ''claim-xxxx'' ''memv-xx'' 2 (fork_correction ''blue'')])
     ''memv-xxx'' [stored_claim ''claim-xxxxx'' ''memv-xxx'' 2 (fork_correction ''brown'')]"

lemma gen_simps: "demo_gen (Suc 0) = ''x''" "demo_gen 2 = ''xx''" "demo_gen 3 = ''xxx''" "demo_gen 4 = ''xxxx''"
  "demo_gen 5 = ''xxxxx''"
  by (simp_all add: demo_gen_def eval_nat_numeral)

lemma fork_base_simps: "ms_versions fork_base = [(''memv-xxx'', Some ''memv-''), (''memv-xx'', Some ''memv-''), (''memv-'', None)]"
  "ms_drawn fork_base = 4" "ms_anchors fork_base = Map.empty" "ms_promises fork_base = Map.empty"
  "ms_counters fork_base = Map.empty"
  "rows (ms_claims fork_base) w = (if w = ''memv-'' then [stored_claim ''claim-x'' ''memv-'' 1 (new_claim_fact ''hero'' ''eyes'' ''green'')] else [])"
  by (simp_all add: fork_base_def)

lemma fork_base_reachable: "reachable demo_env demo_gen fork_base"
proof -
  let ?c = "stored_claim ''claim-x'' ''memv-'' 1 (new_claim_fact ''hero'' ''eyes'' ''green'')"
  let ?s1 = "claims_added demo_root ''memv-'' [?c]"
  have 1: "reachable demo_env demo_gen ?s1"
    using demo_claim_step[OF demo_reach_root, of "''memv-''" "new_claim_fact ''hero'' ''eyes'' ''green''"]
    by (simp add: gen_simps sup_known_def) (simp add: new_claim_fact_def)
  let ?s2 = "insert_version ''memv-xx'' (Some ''memv-'') None None ?s1"
  have 2: "reachable demo_env demo_gen ?s2"
    using demo_child_step[OF 1, of "''memv-''"] by (simp add: gen_simps numeral_2_eq_2[symmetric])
  have "reachable demo_env demo_gen (insert_version ''memv-xxx'' (Some ''memv-'') None None ?s2)"
    using demo_child_step[OF 2, of "''memv-''"] by (simp add: gen_simps numeral_3_eq_3[symmetric] known_iff)
  then show ?thesis by (simp only: fork_base_def)
qed

lemma fork_reachable: "reachable demo_env demo_gen fork"
proof -
  define a where "a = stored_claim ''claim-xxxx'' ''memv-xx'' 2 (fork_correction ''blue'')"
  define s1 where "s1 = claims_added fork_base ''memv-xx'' [a]"
  have sup: "nc_supersedes_id (fork_correction x) = Some ''claim-x''" for x by (simp add: fork_correction_def)
  have h0: "head fork_base ''memv-xx'' + 1 = 2"
    by (simp add: head_def lineage_def version_seqs_def fork_base_simps max_or_0_def)
  have s1: "ms_versions s1 = ms_versions fork_base" "ms_drawn s1 = 5"
    "rows (ms_claims s1) w = rows (ms_claims fork_base) w @ (if w = ''memv-xx'' then [a] else [])"
    "rows (ms_anchors s1) w = []" "rows (ms_promises s1) w = []" "rows (ms_counters s1) w = []" for w
    by (simp_all add: s1_def fork_base_simps)
  have h1: "head s1 ''memv-xxx'' + 1 = 2"
    by (simp add: head_def lineage_def version_seqs_def s1 fork_base_simps max_or_0_def)
  have "known fork_base ''memv-xx''"
    "sup_known (lin_rows (ms_claims fork_base) fork_base ''memv-xx'') (fork_correction ''blue'')"
    by (simp_all add: sup_known_def known_iff fork_base_simps lin_rows_def lineage_def sup)
  from demo_claim_step[OF fork_base_reachable this] have 1: "reachable demo_env demo_gen s1"
    unfolding h0 by (simp add: fork_base_simps gen_simps s1_def a_def)
  have "known s1 ''memv-xxx''" "sup_known (lin_rows (ms_claims s1) s1 ''memv-xxx'') (fork_correction ''brown'')"
    by (simp_all add: sup_known_def known_iff s1 fork_base_simps lin_rows_def lineage_def sup)
  from demo_claim_step[OF 1 this] show ?thesis
    unfolding h1 s1(2) by (simp add: gen_simps fork_def s1_def a_def)
qed

text \<open>The superseding claim that is reported can depend on the iteration order of the map: in a
  reachable store two sibling versions correct the same claim under the same number, and the two
  orders of the siblings report different claims.\<close>

theorem superseded_by_depends_on_order:
  "reachable demo_env demo_gen fork
   \<and> superseded_by fork [''memv-'', ''memv-xx'', ''memv-xxx''] ''claim-x'' = Some ''claim-xxxx''
   \<and> superseded_by fork [''memv-'', ''memv-xxx'', ''memv-xx''] ''claim-x'' = Some ''claim-xxxxx''"
proof -
  have "rows (ms_claims fork) w = (if w = ''memv-'' then [stored_claim ''claim-x'' ''memv-'' 1 (new_claim_fact ''hero'' ''eyes'' ''green'')]
      else if w = ''memv-xx'' then [stored_claim ''claim-xxxx'' ''memv-xx'' 2 (fork_correction ''blue'')]
      else if w = ''memv-xxx'' then [stored_claim ''claim-xxxxx'' ''memv-xxx'' 2 (fork_correction ''brown'')] else [])" for w
    by (simp add: fork_def fork_base_simps)
  then show ?thesis using fork_reachable
    by (simp add: superseded_by_def all_claims_def fork_correction_def) (simp add: new_claim_fact_def)
qed

text \<open>A count recorded again is stamped again: the total read at the earlier pin loses it.\<close>

definition counted_once :: mem_state where
  "counted_once = demo_root\<lparr>ms_counters := [''memv-'' \<mapsto>
     [\<lparr>r_key = ''suddenly'', r_scope_path = ''ch1'', r_count = 3, r_budget = None, r_seq = 1\<rparr>]]\<rparr>"

definition counted_twice :: mem_state where
  "counted_twice = demo_root\<lparr>ms_counters := [''memv-'' \<mapsto>
     [\<lparr>r_key = ''suddenly'', r_scope_path = ''ch1'', r_count = 5, r_budget = None, r_seq = 2\<rparr>]]\<rparr>"

theorem recount_leaves_the_pin:
  "record_counts demo_env demo_root ''memv-'' ''suddenly'' ''ch1'' 3 None = Inr counted_once
   \<and> record_counts demo_env counted_once ''memv-'' ''suddenly'' ''ch1'' 5 None = Inr counted_twice
   \<and> counter_totals demo_env counted_once ''memv-'' (Some 1) = Inr [\<lparr>ct_key = ''suddenly'', ct_total = 3, ct_budget = None\<rparr>]
   \<and> counter_totals demo_env counted_twice ''memv-'' (Some 1) = Inr []"
proof -
  have fr: "ms_versions counted_once = ms_versions demo_root" "ms_version_meta counted_once = ms_version_meta demo_root"
    "ms_versions counted_twice = ms_versions demo_root" "ms_version_meta counted_twice = ms_version_meta demo_root"
    by (simp_all add: counted_once_def counted_twice_def)
  have t: "tree_ok demo_env counted_once" "tree_ok demo_env counted_twice"
    using demo_tree(1) tree_frame[OF fr(1,2), of demo_env] tree_frame[OF fr(3,4), of demo_env] by simp_all
  have k: "known counted_once ''memv-''" "known counted_twice ''memv-''" by (simp_all add: known_iff fr)
  have l: "lineage counted_once ''memv-'' = [''memv-'']" "lineage counted_twice ''memv-'' = [''memv-'']"
    by (simp_all add: lineage_def fr)
  have h: "head counted_once ''memv-'' = 1"
    by (simp add: head_def l version_seqs_def max_or_0_def) (simp add: counted_once_def rows_def)
  have "record_counts demo_env demo_root ''memv-'' ''suddenly'' ''ch1'' 3 None = Inr counted_once"
    by (simp add: record_counts_Inr demo_tree counted_once_def)
  moreover have "record_counts demo_env counted_once ''memv-'' ''suddenly'' ''ch1'' 5 None = Inr counted_twice"
    by (simp add: record_counts_Inr t k h) (simp add: counted_once_def counted_twice_def rows_def numeral_2_eq_2)
  moreover have "counter_totals demo_env counted_once ''memv-'' (Some 1)
      = Inr [\<lparr>ct_key = ''suddenly'', ct_total = 3, ct_budget = None\<rparr>]"
    by (simp add: counter_totals_def tree_simps t k l)
      (simp add: counted_once_def rows_def add_count_def merge_budget_def checked_add_def u64_max_def)
  moreover have "counter_totals demo_env counted_twice ''memv-'' (Some 1) = Inr []"
    by (simp add: counter_totals_def tree_simps t k l) (simp add: counted_twice_def rows_def)
  ultimately show ?thesis by blast
qed

section \<open>Promises and counters\<close>

definition open_for :: "string \<Rightarrow> promise \<Rightarrow> bool" where
  "open_for key p \<longleftrightarrow> p_key p = key \<and> p_status p = Open"

lemma no_open_iff: "no_open key ps \<longleftrightarrow> filter (open_for key) ps = []"
  by (auto simp: no_open_def open_for_def filter_empty_conv)

lemma fulfils_lin_rows:
  assumes "fulfils key s (lineage st v) st st'" "distinct (lineage st v)"
  obtains xs p ys where "lin_rows (ms_promises st) st v = xs @ p # ys" "open_for key p"
    "lin_rows (ms_promises st') st' v = xs @ p\<lparr>p_status := Fulfilled, p_fulfilled_seq := Some s\<rparr> # ys"
    "lineage st' v = lineage st v" "known st' v = known st v" "no_open key xs"
proof -
  from assms(1) obtain us u ws xs p ys where f: "lineage st v = us @ u # ws" "rows (ms_promises st) u = xs @ p # ys"
     "p_key p = key" "p_status p = Open" "\<forall>w \<in> set us. no_open key (rows (ms_promises st) w)" "no_open key xs"
     "st' = st\<lparr>ms_promises := (ms_promises st)(u \<mapsto>
          xs @ p\<lparr>p_status := Fulfilled, p_fulfilled_seq := Some s\<rparr> # ys)\<rparr>"
    unfolding fulfils_def by blast
  have lin: "lineage st' v = lineage st v" by (simp add: f(7) lineage_def)
  have "u \<notin> set us" "u \<notin> set ws" using assms(2) f(1) by auto
  then have same: "map (rows (ms_promises st')) us = map (rows (ms_promises st)) us"
    "map (rows (ms_promises st')) ws = map (rows (ms_promises st)) ws"
    by (auto simp: f(7) rows_upd)
  have "no_open key (concat (map (rows (ms_promises st)) us) @ xs)"
    using f(5,6) by (auto simp: no_open_def)
  then show ?thesis
    using that[of "concat (map (rows (ms_promises st)) us) @ xs" p
        "ys @ concat (map (rows (ms_promises st)) ws)"] f(2,3,4) same lin
    by (simp add: lin_rows_def f(1) open_for_def) (simp add: f(7) rows_upd known_def)
qed

lemma version_seqs_in_lineage: "s \<in> set (concat (map (version_seqs st) (lineage st v))) \<Longrightarrow> s \<le> head st v"
  unfolding head_def by (rule max_or_0_ge)

lemma fulfils_head:
  assumes "fulfils key (head st v + 1) (lineage st v) st st'"
  shows "head st' v = head st v + 1"
proof -
  from assms obtain us u ws xs p ys where f: "lineage st v = us @ u # ws" "rows (ms_promises st) u = xs @ p # ys"
     "st' = st\<lparr>ms_promises := (ms_promises st)(u \<mapsto>
          xs @ p\<lparr>p_status := Fulfilled, p_fulfilled_seq := Some (head st v + 1)\<rparr> # ys)\<rparr>"
    unfolding fulfils_def by blast
  have lin: "lineage st' v = lineage st v" by (simp add: f(3) lineage_def)
  have new: "set (version_seqs st' w) \<subseteq> insert (head st v + 1) (insert 0 (set (version_seqs st w)))" for w
    by (auto simp: f version_seqs_def rows_upd promise_seqs_def)
  show ?thesis
  proof (rule antisym)
    show "head st' v \<le> head st v + 1"
      unfolding head_le_iff lin using new head_ge[of _ st v] by fastforce
    have "head st v + 1 \<in> set (version_seqs st' u)"
      by (simp add: f(3) version_seqs_def rows_upd promise_seqs_def)
    then show "head st v + 1 \<le> head st' v" by (rule head_ge[rotated]) (simp add: lin f(1))
  qed
qed

text \<open>Fulfilment closes one promise, after the head. It reports true exactly when the lineage has
  an open promise with the key; then one such promise becomes fulfilled, the head moves up by one,
  and a read pinned at the old head still sees what it saw; otherwise nothing changes.\<close>

theorem fulfil_promise_exact:
  assumes "gov_env_ok env" "inj gen" "reachable env gen st" "fulfill_promise env st v key = Inr (b, st')"
  shows "b = (filter (open_for key) (lin_rows (ms_promises st) st v) \<noteq> [])
    \<and> (\<not> b \<longrightarrow> st' = st)
    \<and> promises env st' v (Some (head st v)) = promises env st v (Some (head st v))
    \<and> (b \<longrightarrow> length (filter (open_for key) (lin_rows (ms_promises st') st' v)) + 1
               = length (filter (open_for key) (lin_rows (ms_promises st) st v))
           \<and> head_of env st' v = Inr (head st v + 1))"
proof -
  have ok: "mem_ok env gen st" by (rule reachable_ok[OF assms(1-3)])
  then have t: "tree_ok env st" by (simp add: mem_ok_def)
  from assms(4) have k: "known st v" "fulfill_in key (head st v + 1) (lineage st v) st = (b, st')"
    by (simp_all add: fulfill_promise_Inr[OF t])
  have d: "distinct (lineage st v)" using t by (simp add: lineage_def tree_ok_def path_distinct)
  from fulfill_in_result[OF k(2)] show ?thesis
  proof (elim disjE conjE)
    assume n: "\<not> b" "st' = st" "\<forall>w \<in> set (lineage st v). no_open key (rows (ms_promises st) w)"
    then have "filter (open_for key) (lin_rows (ms_promises st) st v) = []"
      by (auto simp: lin_rows_def no_open_iff filter_empty_conv)
    with n show ?thesis by simp
  next
    assume b: "b" and f: "fulfils key (head st v + 1) (lineage st v) st st'"
    from fulfils_lin_rows[OF f d] obtain xs p ys where l: "lin_rows (ms_promises st) st v = xs @ p # ys"
      "open_for key p" "lin_rows (ms_promises st') st' v =
         xs @ p\<lparr>p_status := Fulfilled, p_fulfilled_seq := Some (head st v + 1)\<rparr> # ys"
      "lineage st' v = lineage st v" "known st' v = known st v" by blast
    have t': "tree_ok env st'" using fulfils_ok[OF ok f] by (simp add: mem_ok_def)
    have "pinned_same (head st v) st st'"
      using fulfils_pinned[OF _ f] rows_okD(3)[OF ok] by simp
    then have "promises env st' v (Some (head st v)) = promises env st v (Some (head st v))"
      using pinned_promises[OF t t' _ k(1)] k(1) l(4,5) by simp
    then show ?thesis using b l k(1) fulfils_head[OF f] t' by (simp add: head_of_ok open_for_def)
  qed
qed

definition demo_promised :: mem_state where
  "demo_promised = demo_root\<lparr>ms_promises := [''memv-'' \<mapsto> [\<lparr>p_id = ''prom-x'', p_version_id = ''memv-'',
     p_key = ''letter'', p_kind = ''plot'', p_description = ''the letter is read'', p_origin_scope = None,
     p_due_scope = None, p_status = Open, p_seq = 1, p_fulfilled_seq = None\<rparr>]], ms_drawn := 2\<rparr>"

theorem fulfil_promise_exact_witness:
  "\<exists>st'. fulfill_promise demo_env demo_promised ''memv-'' ''letter'' = Inr (True, st')
     \<and> promises demo_env st' ''memv-'' (Some 1) = promises demo_env demo_promised ''memv-'' (Some 1)"
proof -
  have "register_promise demo_env demo_gen demo_root ''memv-'' ''letter'' ''plot'' ''the letter is read'' None None
      = Inr (hd (rows (ms_promises demo_promised) ''memv-''), demo_promised)"
    by (simp add: register_promise_Inr demo_tree gen_simps)
      (simp add: demo_promised_def rows_def push_row_def numeral_2_eq_2)
  then have r: "reachable demo_env demo_gen demo_promised"
    by (meson reachable.intros mem_step.register demo_reach_root)
  then have t: "tree_ok demo_env demo_promised"
    using reachable_ok[OF demo_env_ok inj_demo_gen] by (simp add: mem_ok_def)
  have k: "known demo_promised ''memv-''" by (simp add: known_iff demo_promised_def)
  obtain b st' where f: "fulfill_promise demo_env demo_promised ''memv-'' ''letter'' = Inr (b, st')"
    by (cases "fulfill_in ''letter'' (head demo_promised ''memv-'' + 1) (lineage demo_promised ''memv-'') demo_promised")
      (use k in \<open>auto simp: fulfill_promise_Inr[OF t]\<close>)
  have l: "lineage demo_promised ''memv-'' = [''memv-'']" by (simp add: lineage_def demo_promised_def)
  have "head demo_promised ''memv-'' = 1"
    by (simp add: head_def l version_seqs_def max_or_0_def) (simp add: demo_promised_def rows_def promise_seqs_def)
  moreover have "filter (open_for ''letter'') (lin_rows (ms_promises demo_promised) demo_promised ''memv-'') \<noteq> []"
    by (simp add: lin_rows_def l) (simp add: demo_promised_def rows_def open_for_def)
  ultimately show ?thesis
    using fulfil_promise_exact[OF demo_env_ok inj_demo_gen r f] f by auto
qed

text \<open>The aggregate of the counter rows, key by key.\<close>

definition key_total :: "string \<Rightarrow> counter_row list \<Rightarrow> nat" where
  "key_total k rs = sum_list (map r_count (filter (\<lambda>r. r_key r = k) rs))"

definition key_budget :: "string \<Rightarrow> counter_row list \<Rightarrow> nat option" where
  "key_budget k rs = (let bs = List.map_filter r_budget (filter (\<lambda>r. r_key r = k) rs)
     in if bs = [] then None else Some (Max (set bs)))"

lemma key_total_snoc: "key_total k (rs @ [r]) = key_total k rs + (if r_key r = k then r_count r else 0)"
  by (simp add: key_total_def)

lemma key_total_absent: "k \<notin> r_key ` set rs \<Longrightarrow> key_total k rs = 0"
  by (auto simp: key_total_def sum_list_eq_0_iff)

lemma key_budget_snoc: "key_budget k (rs @ [r]) =
    (if r_key r = k then merge_budget (key_budget k rs) (r_budget r) else key_budget k rs)"
proof (cases "r_key r = k")
  case True
  let ?bs = "List.map_filter r_budget (filter (\<lambda>r. r_key r = k) rs)"
  have "List.map_filter r_budget (filter (\<lambda>r. r_key r = k) (rs @ [r])) =
      ?bs @ (case r_budget r of None \<Rightarrow> [] | Some b \<Rightarrow> [b])"
    using True by (simp add: List.map_filter_def split: option.splits)
  then show ?thesis using True
    by (cases "r_budget r"; cases "?bs = []")
      (simp_all add: key_budget_def merge_budget_def Let_def max.commute)
next
  case False
  then show ?thesis by (simp add: key_budget_def)
qed

lemma key_budget_absent: "k \<notin> r_key ` set rs \<Longrightarrow> key_budget k rs = None"
proof -
  assume "k \<notin> r_key ` set rs"
  then have "filter (\<lambda>r. r_key r = k) rs = []" by (auto simp: filter_empty_conv)
  then show ?thesis by (simp add: key_budget_def List.map_filter_def)
qed

definition agg_of :: "counter_row list \<Rightarrow> (string \<times> nat \<times> nat option) list \<Rightarrow> bool" where
  "agg_of rs agg \<longleftrightarrow> bt_sorted agg \<and> (\<forall>k. map_of agg k =
     (if k \<in> r_key ` set rs then Some (key_total k rs, key_budget k rs) else None))"

lemma add_count_agg:
  assumes "agg_of rs agg"
  shows "add_count agg r = (if key_total (r_key r) (rs @ [r]) \<le> u64_max
      then Inr (bt_insert (r_key r) (key_total (r_key r) (rs @ [r]), key_budget (r_key r) (rs @ [r])) agg)
      else Inl (Storage ''counter total exceeds u64''))"
proof -
  have "(case map_of agg (r_key r) of None \<Rightarrow> (0, None) | Some e \<Rightarrow> e) =
      (key_total (r_key r) rs, key_budget (r_key r) rs)"
    using assms by (auto simp: agg_of_def key_total_absent key_budget_absent)
  then show ?thesis
    by (simp add: add_count_def key_total_snoc key_budget_snoc checked_add_def)
qed

lemma agg_of_snoc: "agg_of rs agg \<Longrightarrow>
    agg_of (rs @ [r]) (bt_insert (r_key r) (key_total (r_key r) (rs @ [r]), key_budget (r_key r) (rs @ [r])) agg)"
  by (auto simp: agg_of_def key_total_snoc key_budget_snoc)

lemma add_counts:
  "if \<forall>k. key_total k rs \<le> u64_max then \<exists>agg. res_fold add_count [] rs = Inr agg \<and> agg_of rs agg
   else res_fold add_count [] rs = Inl (Storage ''counter total exceeds u64'')"
proof (induction rs rule: rev_induct)
  case Nil
  then show ?case by (simp add: agg_of_def key_total_def)
next
  case (snoc r rs)
  have mono: "key_total k rs \<le> key_total k (rs @ [r])" for k by (simp add: key_total_snoc)
  show ?case
  proof (cases "\<forall>k. key_total k rs \<le> u64_max")
    case True
    with snoc obtain agg where agg: "res_fold add_count [] rs = Inr agg" "agg_of rs agg" by auto
    have "(\<forall>k. key_total k (rs @ [r]) \<le> u64_max) \<longleftrightarrow> key_total (r_key r) (rs @ [r]) \<le> u64_max"
      using True by (auto simp: key_total_snoc)
    then show ?thesis using agg agg_of_snoc[OF agg(2), of r]
      by (simp add: res_fold_append add_count_agg[OF agg(2)])
  next
    case False
    then have "\<not> (\<forall>k. key_total k (rs @ [r]) \<le> u64_max)" using mono order_trans by blast
    with False snoc show ?thesis by (simp add: res_fold_append)
  qed
qed

lemma agg_keys: "agg_of rs agg \<Longrightarrow> map fst agg = sorted_list_of_set (r_key ` set rs)"
proof -
  assume a: "agg_of rs agg"
  have "set (map fst agg) = r_key ` set rs"
  proof (rule set_eqI)
    fix k
    have "k \<in> set (map fst agg) \<longleftrightarrow> map_of agg k \<noteq> None" by (simp add: map_of_eq_None_iff)
    then show "k \<in> set (map fst agg) \<longleftrightarrow> k \<in> r_key ` set rs" using a by (simp add: agg_of_def)
  qed
  moreover have "sorted_wrt (<) (map fst agg)" using a by (simp add: agg_of_def bt_sorted_def)
  ultimately show ?thesis by (metis sorted_list_of_set.idem_if_sorted_distinct strict_sorted_iff)
qed

lemma agg_list:
  assumes "agg_of rs agg"
  shows "agg = map (\<lambda>k. (k, key_total k rs, key_budget k rs)) (sorted_list_of_set (r_key ` set rs))"
proof -
  have d: "distinct (map fst agg)" using assms by (simp add: agg_of_def bt_sorted_distinct)
  have "(k, v) \<in> set agg \<Longrightarrow> v = (key_total k rs, key_budget k rs)" for k v
    using map_of_is_SomeI[OF d, of k v] assms by (auto simp: agg_of_def split: if_splits)
  then have "map (\<lambda>k. (k, key_total k rs, key_budget k rs)) (map fst agg) = agg"
    unfolding map_map by (intro map_idI) auto
  then have "agg = map (\<lambda>k. (k, key_total k rs, key_budget k rs)) (map fst agg)" ..
  then show ?thesis by (simp only: agg_keys[OF assms])
qed

text \<open>Counter totals are exact or refused. The read returns one total per key in key order, the
  sum of the counts and the largest budget of the rows within the pin over the lineage, unless some
  sum leaves the range of a 64-bit number, which is a storage error and never a wrapped total.\<close>

theorem counter_totals_exact:
  assumes "gov_env_ok env" "inj gen" "reachable env gen st" "known st v"
    and "rs = filter (\<lambda>r. within_pin pin (r_seq r)) (lin_rows (ms_counters st) st v)"
  shows "counter_totals env st v pin = (if \<forall>k. key_total k rs \<le> u64_max
     then Inr (map (\<lambda>k. \<lparr>ct_key = k, ct_total = key_total k rs, ct_budget = key_budget k rs\<rparr>)
         (sorted_list_of_set (r_key ` set rs)))
     else Inl (Storage ''counter total exceeds u64''))"
proof -
  have t: "tree_ok env st" using reachable_ok[OF assms(1-3)] by (simp add: mem_ok_def)
  have "counter_totals env st v pin = res_bind (res_fold add_count [] rs) (\<lambda>agg.
     Inr (map (\<lambda>(key, total, budget). \<lparr>ct_key = key, ct_total = total, ct_budget = budget\<rparr>) agg))"
    using assms(4,5) by (simp add: counter_totals_def tree_simps t lin_rows_def)
  moreover have "map (\<lambda>(key, total, budget). \<lparr>ct_key = key, ct_total = total, ct_budget = budget\<rparr>) agg
      = map (\<lambda>k. \<lparr>ct_key = k, ct_total = key_total k rs, ct_budget = key_budget k rs\<rparr>)
         (sorted_list_of_set (r_key ` set rs))" if "agg_of rs agg" for agg
    by (subst agg_list[OF that]) simp
  ultimately show ?thesis using add_counts[of rs] by (auto split: if_splits)
qed

theorem counter_totals_exact_witness:
  "counter_totals demo_env counted_once ''memv-'' None = Inr [\<lparr>ct_key = ''suddenly'', ct_total = 3, ct_budget = None\<rparr>]"
proof -
  have "mem_step demo_env demo_gen demo_root ''memv-'' counted_once"
    using mem_step.counts recount_leaves_the_pin by blast
  then have r: "reachable demo_env demo_gen counted_once" by (rule reachable.step[OF demo_reach_root])
  have k: "known counted_once ''memv-''" by (simp add: known_iff counted_once_def)
  have rs: "filter (\<lambda>r. within_pin None (r_seq r)) (lin_rows (ms_counters counted_once) counted_once ''memv-'')
      = [\<lparr>r_key = ''suddenly'', r_scope_path = ''ch1'', r_count = 3, r_budget = None, r_seq = 1\<rparr>]"
    by (simp add: lin_rows_def lineage_def counted_once_def rows_def)
  from counter_totals_exact[OF demo_env_ok inj_demo_gen r k refl, of None] show ?thesis
    unfolding rs by (simp add: key_total_def key_budget_def List.map_filter_def u64_max_def)
qed

end
