(* ===== verification/Budget.thy ===== *)
theory Budget
  imports Kernel_Types
begin

text \<open>
  Daily token budgets: the accounting types (\<open>munarium-core/src/budget.rs\<close>, and the usage
  evidence and estimate of \<open>provider.rs\<close>) and the in-memory store
  (\<open>munarium-store-mem/src/budget.rs\<close>). The store is one mutex, so every operation is one step.
  The clock reading \<open>now\<close> (seconds) is an argument of the operations that take one, the
  calendar day of a reading is the parameter \<open>day_of\<close> and the identity generator is \<open>gen\<close>.
\<close>

section \<open>Usage evidence and estimates\<close>

datatype usage_source = ProviderReported | LegacyUnverified | Missing | Malformed

record usage_evidence =
  u_input_tokens :: "nat option"
  u_output_tokens :: "nat option"
  u_source :: usage_source

definition complete_usage :: "usage_evidence \<Rightarrow> bool" where
  "complete_usage u \<longleftrightarrow> u_source u = ProviderReported \<and> u_input_tokens u \<noteq> None \<and> u_output_tokens u \<noteq> None"

definition usage_overflow :: kernel_error where
  "usage_overflow = Provider ''completion usage total exceeds u64''"

definition unwrap_or :: "'a \<Rightarrow> 'a option \<Rightarrow> 'a" where
  "unwrap_or d v = (case v of None \<Rightarrow> d | Some x \<Rightarrow> x)"

definition accounted_units :: "usage_evidence \<Rightarrow> nat \<Rightarrow> kernel_error + nat" where
  "accounted_units u reserved =
     res_bind (ok_or (checked_add (unwrap_or 0 (u_input_tokens u)) (unwrap_or 0 (u_output_tokens u)))
       usage_overflow) (\<lambda>subtotal.
     Inr (if complete_usage u then subtotal else max reserved subtotal))"

record completion_estimate =
  ce_input :: nat
  ce_output :: nat

text \<open>\<open>for_request\<close> from the length of the serialized request and the requested ceiling.\<close>

definition estimate_overflow :: kernel_error where
  "estimate_overflow = InvalidInput ''completion estimate overflow''"

definition estimate_for :: "nat \<Rightarrow> nat \<Rightarrow> kernel_error + completion_estimate" where
  "estimate_for bytes_len max_tokens =
     (if u64_max < bytes_len then Inl estimate_overflow
      else res_bind (ok_or (checked_add ((bytes_len + 3) div 4) 32) estimate_overflow) (\<lambda>input.
        Inr \<lparr>ce_input = input, ce_output = max max_tokens 1\<rparr>))"

definition estimate_total :: "completion_estimate \<Rightarrow> kernel_error + nat" where
  "estimate_total e = ok_or (checked_add (ce_input e) (ce_output e)) estimate_overflow"

definition estimate_account :: "completion_estimate \<Rightarrow> usage_evidence \<Rightarrow> kernel_error + nat" where
  "estimate_account e u =
     (if complete_usage u
      then res_bind (estimate_total e) (accounted_units u)
      else
      res_bind (ok_or (checked_add (unwrap_or (ce_input e) (u_input_tokens u))
          (unwrap_or (ce_output e) (u_output_tokens u))) usage_overflow) (\<lambda>subtotal.
      res_bind (estimate_total e) (\<lambda>t. Inr (max t subtotal))))"

section \<open>Reservations, evidence, corrections\<close>

record budget_reservation =
  res_id :: string
  res_tenant :: string
  res_config :: string
  res_tier :: string
  res_day :: string
  res_units :: nat

datatype budget_outcome =
    Unlimited
  | Granted budget_reservation
  | Exhausted nat nat nat

record budget_ledger_row =
  lr_config :: string
  lr_tier :: string
  lr_day :: string
  lr_held_units :: nat
  lr_settled_units :: nat
  lr_reservations :: nat

record budget_evidence =
  ev_reservation_id :: string
  ev_original_units :: "nat option"
  ev_accounted_units :: nat
  ev_state :: string
  ev_usage :: "usage_evidence option"
  ev_revision :: nat
  ev_config :: string
  ev_tier :: string
  ev_day :: string
  ev_estimator_revision :: "string option"

record budget_correction =
  co_id :: string
  co_expected_revision :: nat
  co_accounted_units :: nat
  co_usage :: usage_evidence
  co_evidence_ref :: string

record budget_adjustment =
  adj_correction :: budget_correction
  adj_previous :: budget_evidence
  adj_result :: budget_evidence

definition safe_byte :: "char \<Rightarrow> bool" where
  "safe_byte c = (let n = (of_char c :: nat) in
     48 \<le> n \<and> n \<le> 57 \<or> 65 \<le> n \<and> n \<le> 90 \<or> 97 \<le> n \<and> n \<le> 122 \<or> n = 46 \<or> n = 95 \<or> n = 45)"

definition safe_identifier :: "string \<Rightarrow> bool" where
  "safe_identifier v \<longleftrightarrow> v \<noteq> [] \<and> byte_len v \<le> 160 \<and> (\<forall>c \<in> set v. safe_byte c)"

definition unsafe_evidence :: kernel_error where
  "unsafe_evidence = InvalidInput ''budget evidence requires a safe nonempty identifier (letters, digits, dot, underscore, dash; at most 160 bytes)''"

definition not_settled :: kernel_error where
  "not_settled = InvalidInput ''only a settled reservation can be reconciled''"

definition undercounts :: kernel_error where
  "undercounts = InvalidInput ''budget correction undercounts observed usage or unresolved liability''"

definition correction_floor :: "budget_evidence \<Rightarrow> nat" where
  "correction_floor ev = max (unwrap_or 0 (ev_original_units ev)) (ev_accounted_units ev)"

definition validate_correction :: "budget_correction \<Rightarrow> budget_evidence \<Rightarrow> kernel_error + unit" where
  "validate_correction c previous =
     (if \<not> safe_identifier (co_id c) \<or> \<not> safe_identifier (co_evidence_ref c) then Inl unsafe_evidence
      else if ev_state previous \<noteq> ''settled'' then Inl not_settled
      else if co_expected_revision c \<noteq> ev_revision previous
      then Inl (HeadConflict (co_expected_revision c) (ev_revision previous))
      else
      res_bind (accounted_units (co_usage c) (correction_floor previous)) (\<lambda>minimum.
      if co_accounted_units c < minimum then Inl undercounts else Inr ()))"

section \<open>The store\<close>

datatype row_state = Held | Settled | Released

record budget_row =
  br_id :: string
  br_tenant :: string
  br_config :: string
  br_tier :: string
  br_day :: string
  br_units :: nat
  br_original_units :: nat
  br_usage :: "usage_evidence option"
  br_state :: row_state
  br_created_unix :: int
  br_adjustments :: "budget_adjustment list"
  br_estimator_revision :: "string option"

record budget_state =
  bs_rows :: "budget_row list"
  bs_drawn :: nat

definition budget_new :: budget_state where
  "budget_new = \<lparr>bs_rows = [], bs_drawn = 0\<rparr>"

fun state_name :: "row_state \<Rightarrow> string" where
  "state_name Held = ''held''"
| "state_name Settled = ''settled''"
| "state_name Released = ''released''"

definition row_evidence :: "budget_row \<Rightarrow> budget_evidence" where
  "row_evidence r = \<lparr>ev_reservation_id = br_id r, ev_original_units = Some (br_original_units r),
     ev_accounted_units = br_units r, ev_state = state_name (br_state r), ev_usage = br_usage r,
     ev_revision = length (br_adjustments r), ev_config = br_config r, ev_tier = br_tier r,
     ev_day = br_day r, ev_estimator_revision = br_estimator_revision r\<rparr>"

text \<open>The scope of a ceiling: tenant, config, tier and day.\<close>

type_synonym scope = "string \<times> string \<times> string \<times> string"

definition row_scope :: "budget_row \<Rightarrow> scope" where
  "row_scope r = (br_tenant r, br_config r, br_tier r, br_day r)"

definition in_active :: "scope \<Rightarrow> budget_row \<Rightarrow> bool" where
  "in_active sc r \<longleftrightarrow> row_scope r = sc \<and> br_state r \<noteq> Released"

definition active_units :: "scope \<Rightarrow> budget_row list \<Rightarrow> nat list" where
  "active_units sc rs = map br_units (filter (in_active sc) rs)"

definition total_overflow :: kernel_error where
  "total_overflow = Storage ''budget total exceeds u64''"

definition reserve_estimated :: "(int \<Rightarrow> string) \<Rightarrow> (nat \<Rightarrow> string) \<Rightarrow> budget_state \<Rightarrow> int \<Rightarrow>
    string \<Rightarrow> string \<Rightarrow> string \<Rightarrow> nat \<Rightarrow> string option \<Rightarrow> nat option \<Rightarrow>
    kernel_error + budget_outcome \<times> budget_state" where
  "reserve_estimated day_of gen st now tenant config tier units rev0 limit =
     (case limit of
        None \<Rightarrow> Inr (Unlimited, st)
      | Some lim0 \<Rightarrow>
          let day = day_of now in
          res_bind (ok_or (checked_sum 0 (active_units (tenant, config, tier, day) (bs_rows st))) total_overflow)
            (\<lambda>active.
          if (case checked_add active units of None \<Rightarrow> True | Some t \<Rightarrow> lim0 < t)
          then Inr (Exhausted units (lim0 - active) lim0, st)
          else
            let i = gen (bs_drawn st);
                row = \<lparr>br_id = i, br_tenant = tenant, br_config = config, br_tier = tier, br_day = day,
                  br_units = units, br_original_units = units, br_usage = None, br_state = Held,
                  br_created_unix = now, br_adjustments = [], br_estimator_revision = rev0\<rparr>
            in Inr (Granted \<lparr>res_id = i, res_tenant = tenant, res_config = config, res_tier = tier,
                  res_day = day, res_units = units\<rparr>,
                \<lparr>bs_rows = bs_rows st @ [row], bs_drawn = Suc (bs_drawn st)\<rparr>)))"

definition reserve :: "(int \<Rightarrow> string) \<Rightarrow> (nat \<Rightarrow> string) \<Rightarrow> budget_state \<Rightarrow> int \<Rightarrow> string \<Rightarrow> string \<Rightarrow>
    string \<Rightarrow> nat \<Rightarrow> nat option \<Rightarrow> kernel_error + budget_outcome \<times> budget_state" where
  "reserve day_of gen st now tenant config tier units limit =
     reserve_estimated day_of gen st now tenant config tier units None limit"

text \<open>\<open>iter_mut().find(p)\<close> followed by an update of the row found.\<close>

fun update_first :: "('a \<Rightarrow> bool) \<Rightarrow> ('a \<Rightarrow> 'a) \<Rightarrow> 'a list \<Rightarrow> 'a list" where
  "update_first p f [] = []"
| "update_first p f (x # xs) = (if p x then f x # xs else x # update_first p f xs)"

definition held_row :: "budget_reservation \<Rightarrow> budget_row \<Rightarrow> bool" where
  "held_row r x \<longleftrightarrow> br_id x = res_id r \<and> br_tenant x = res_tenant r \<and> br_state x = Held"

definition settle_row :: "nat option \<Rightarrow> usage_evidence option \<Rightarrow> budget_row \<Rightarrow> budget_row" where
  "settle_row actual usage x = x\<lparr>br_state := Settled, br_usage := usage,
     br_units := (case actual of None \<Rightarrow> br_units x | Some a \<Rightarrow> a)\<rparr>"

definition settle_with_evidence :: "budget_state \<Rightarrow> budget_reservation \<Rightarrow> nat option \<Rightarrow>
    usage_evidence option \<Rightarrow> budget_state" where
  "settle_with_evidence st r actual usage =
     st\<lparr>bs_rows := update_first (held_row r) (settle_row actual usage) (bs_rows st)\<rparr>"

definition settle :: "budget_state \<Rightarrow> budget_reservation \<Rightarrow> nat option \<Rightarrow> budget_state" where
  "settle st r actual = settle_with_evidence st r actual None"

definition release :: "budget_state \<Rightarrow> budget_reservation \<Rightarrow> budget_state" where
  "release st r = st\<lparr>bs_rows := update_first (held_row r) (\<lambda>x. x\<lparr>br_state := Released\<rparr>) (bs_rows st)\<rparr>"

definition is_row :: "string \<Rightarrow> string \<Rightarrow> budget_row \<Rightarrow> bool" where
  "is_row tenant i x \<longleftrightarrow> br_tenant x = tenant \<and> br_id x = i"

definition evidence :: "budget_state \<Rightarrow> string \<Rightarrow> string \<Rightarrow> budget_evidence option" where
  "evidence st tenant i = map_option row_evidence (find (is_row tenant i) (bs_rows st))"

definition reservation_not_found :: "string \<Rightarrow> kernel_error" where
  "reservation_not_found i = NotFound ''budget-reservation'' i"

text \<open>The correction of one row: a replay returns the recorded result, a new correction is
  validated against the current evidence and appended.\<close>

definition reconcile_row :: "budget_correction \<Rightarrow> budget_row \<Rightarrow> kernel_error + budget_evidence \<times> budget_row" where
  "reconcile_row c row =
     (case find (\<lambda>a. co_id (adj_correction a) = co_id c) (br_adjustments row) of
        Some existing \<Rightarrow>
          if adj_correction existing = c then Inr (adj_result existing, row) else Inl IdempotencyMismatch
      | None \<Rightarrow>
          let previous = row_evidence row in
          res_bind (validate_correction c previous) (\<lambda>_.
          res_bind (ok_or (checked_add (ev_revision previous) 1) (Storage ''budget revision overflow'')) (\<lambda>rev0.
          let result = previous\<lparr>ev_accounted_units := co_accounted_units c, ev_usage := Some (co_usage c),
                ev_revision := rev0\<rparr>
          in Inr (result, row\<lparr>br_units := co_accounted_units c, br_usage := Some (co_usage c),
               br_adjustments := br_adjustments row @
                 [\<lparr>adj_correction = c, adj_previous = previous, adj_result = result\<rparr>]\<rparr>))))"

definition reconcile :: "budget_state \<Rightarrow> string \<Rightarrow> string \<Rightarrow> budget_correction \<Rightarrow>
    kernel_error + budget_evidence \<times> budget_state" where
  "reconcile st tenant i c =
     (case find (is_row tenant i) (bs_rows st) of
        None \<Rightarrow> Inl (reservation_not_found i)
      | Some row \<Rightarrow> res_bind (reconcile_row c row) (\<lambda>(result, row').
          Inr (result, st\<lparr>bs_rows := update_first (is_row tenant i) (\<lambda>_. row') (bs_rows st)\<rparr>)))"

definition adjustments :: "budget_state \<Rightarrow> string \<Rightarrow> string \<Rightarrow> kernel_error + budget_adjustment list" where
  "adjustments st tenant i =
     res_bind (ok_or (find (is_row tenant i) (bs_rows st)) (reservation_not_found i)) (\<lambda>row.
     Inr (br_adjustments row))"

definition evidence_for_day :: "budget_state \<Rightarrow> string \<Rightarrow> string \<Rightarrow> kernel_error + budget_evidence list" where
  "evidence_for_day st tenant day =
     (let out = map row_evidence (take 10001 (filter (\<lambda>r. br_tenant r = tenant \<and> br_day r = day) (bs_rows st)))
      in if 10000 < length out
         then Inl (InvalidInput ''budget report exceeds 10000 reservations'')
         else Inr (sort_key ev_reservation_id out))"

definition i64_max :: int where
  "i64_max = 2 ^ 63 - 1"

definition sweep_cutoff :: "int \<Rightarrow> nat \<Rightarrow> int" where
  "sweep_cutoff now older_than_secs = max (- (2 ^ 63)) (now - min (int older_than_secs) i64_max)"

definition stale :: "int \<Rightarrow> budget_row \<Rightarrow> bool" where
  "stale cutoff r \<longleftrightarrow> br_state r = Held \<and> br_created_unix r \<le> cutoff"

definition sweep_stale :: "budget_state \<Rightarrow> int \<Rightarrow> nat \<Rightarrow> nat \<times> budget_state" where
  "sweep_stale st now older_than_secs =
     (let cutoff = sweep_cutoff now older_than_secs
      in (length (filter (stale cutoff) (bs_rows st)),
          st\<lparr>bs_rows := map (\<lambda>r. if stale cutoff r then r\<lparr>br_state := Settled\<rparr> else r) (bs_rows st)\<rparr>))"

definition ledger_step :: "string \<Rightarrow> ((string \<times> string) \<times> budget_ledger_row) list \<Rightarrow> budget_row \<Rightarrow>
    kernel_error + ((string \<times> string) \<times> budget_ledger_row) list" where
  "ledger_step day grouped r =
     (if br_state r = Released then Inr grouped
      else
        let k = (br_config r, br_tier r);
            entry = (case map_of grouped k of
              Some e \<Rightarrow> e
            | None \<Rightarrow> \<lparr>lr_config = br_config r, lr_tier = br_tier r, lr_day = day, lr_held_units = 0,
                lr_settled_units = 0, lr_reservations = 0\<rparr>)
        in
        res_bind (ok_or (checked_add (if br_state r = Settled then lr_settled_units entry else lr_held_units entry)
            (br_units r)) total_overflow) (\<lambda>t.
        Inr (bt_insert k
          (if br_state r = Settled then entry\<lparr>lr_settled_units := t, lr_reservations := lr_reservations entry + 1\<rparr>
           else entry\<lparr>lr_held_units := t, lr_reservations := lr_reservations entry + 1\<rparr>) grouped)))"

definition ledger :: "(int \<Rightarrow> string) \<Rightarrow> budget_state \<Rightarrow> int \<Rightarrow> string \<Rightarrow> kernel_error + budget_ledger_row list" where
  "ledger day_of st now tenant =
     (let day = day_of now in
      res_bind (res_fold (ledger_step day) [] (filter (\<lambda>r. br_tenant r = tenant \<and> br_day r = day) (bs_rows st)))
        (\<lambda>grouped. Inr (map snd grouped)))"

section \<open>The spending-cap contract\<close>

text \<open>
  What a caller relies on: a granted request is added to what is spent and stays within the
  ceiling, a refused one would not have fitted and changes nothing. From it, by any sequence of
  requests, the ceiling holds and the granted units are exactly what was added.
\<close>

locale spend_cap =
  fixes spent :: "'s \<Rightarrow> nat"
    and try_grant :: "nat \<Rightarrow> 's \<Rightarrow> 's option"
    and ceiling :: nat
  assumes grant_Some: "try_grant u s = Some s' \<Longrightarrow> spent s' = spent s + u \<and> spent s' \<le> ceiling"
    and grant_None: "try_grant u s = None \<Longrightarrow> ceiling < spent s + u"
begin

fun run :: "nat list \<Rightarrow> 's \<Rightarrow> nat list \<times> 's" where
  "run [] s = ([], s)"
| "run (u # us) s = (case try_grant u s of
     None \<Rightarrow> run us s
   | Some s' \<Rightarrow> (let (gs, s'') = run us s' in (u # gs, s'')))"

lemma run_within: "spent s \<le> ceiling \<Longrightarrow> spent (snd (run us s)) \<le> ceiling"
proof (induction us s rule: run.induct)
  case (2 u us s)
  show ?case
  proof (cases "try_grant u s")
    case None
    with 2 show ?thesis by simp
  next
    case (Some s')
    from "2.IH"(2)[OF Some] grant_Some[OF Some] Some show ?thesis by (simp add: split_beta)
  qed
qed simp

lemma run_accounts: "spent (snd (run us s)) = spent s + sum_list (fst (run us s))"
proof (induction us s rule: run.induct)
  case (2 u us s)
  then show ?case
    by (cases "try_grant u s") (simp_all add: split_beta Let_def grant_Some)
qed simp

text \<open>When everything fits, everything is granted.\<close>

lemma run_all: "spent s + sum_list us \<le> ceiling \<Longrightarrow> fst (run us s) = us"
proof (induction us s rule: run.induct)
  case (2 u us s)
  show ?case
  proof (cases "try_grant u s")
    case None
    with "2.prems" grant_None[OF None] show ?thesis by simp
  next
    case (Some s')
    with "2.prems" "2.IH"(2)[OF Some] grant_Some[OF Some] show ?thesis
      by (auto split: prod.splits)
  qed
qed simp

end

section \<open>Lemmas\<close>

lemma update_first_id: "(\<forall>x \<in> set xs. \<not> p x) \<Longrightarrow> update_first p f xs = xs"
  by (induction xs) auto

lemma update_first_split: "\<exists>x \<in> set xs. p x \<Longrightarrow>
    \<exists>ys x zs. xs = ys @ x # zs \<and> p x \<and> (\<forall>y \<in> set ys. \<not> p y) \<and> update_first p f xs = ys @ f x # zs"
proof (induction xs)
  case (Cons a xs)
  show ?case
  proof (cases "p a")
    case True
    then show ?thesis by (intro exI[of _ "[]"]) auto
  next
    case False
    with Cons obtain ys x zs where "xs = ys @ x # zs \<and> p x \<and> (\<forall>y \<in> set ys. \<not> p y) \<and> update_first p f xs = ys @ f x # zs"
      by auto
    with False show ?thesis by (intro exI[of _ "a # ys"]) auto
  qed
qed simp

lemma update_first_cases:
  obtains "\<forall>x \<in> set xs. \<not> p x" "update_first p f xs = xs"
  | ys x zs where "xs = ys @ x # zs" "p x" "\<forall>y \<in> set ys. \<not> p y" "update_first p f xs = ys @ f x # zs"
  using update_first_id[of xs p f] update_first_split[of xs p f] by blast

lemma find_update_first: "find p xs = Some x \<Longrightarrow> p (f x) \<Longrightarrow> find p (update_first p f xs) = Some (f x)"
  by (induction xs) (auto split: if_splits)

definition active_sum :: "scope \<Rightarrow> budget_state \<Rightarrow> nat" where
  "active_sum sc st = sum_list (active_units sc (bs_rows st))"

lemma active_units_append: "active_units sc (xs @ ys) = active_units sc xs @ active_units sc ys"
  by (simp add: active_units_def)

lemma active_units_Cons: "active_units sc (x # xs) = (if in_active sc x then br_units x # active_units sc xs else active_units sc xs)"
  by (simp add: active_units_def)

text \<open>The two outcomes of a request under a ceiling, when the total fits a 64-bit number.\<close>

lemma reserve_cases:
  assumes "active_sum (tenant, config, tier, day_of now) st \<le> u64_max" "lim0 \<le> u64_max"
  shows "reserve_estimated day_of gen st now tenant config tier units rev0 (Some lim0) =
    (if active_sum (tenant, config, tier, day_of now) st + units \<le> lim0
     then Inr (Granted \<lparr>res_id = gen (bs_drawn st), res_tenant = tenant, res_config = config, res_tier = tier,
            res_day = day_of now, res_units = units\<rparr>,
        \<lparr>bs_rows = bs_rows st @ [\<lparr>br_id = gen (bs_drawn st), br_tenant = tenant, br_config = config,
            br_tier = tier, br_day = day_of now, br_units = units, br_original_units = units, br_usage = None,
            br_state = Held, br_created_unix = now, br_adjustments = [], br_estimator_revision = rev0\<rparr>],
          bs_drawn = Suc (bs_drawn st)\<rparr>)
     else Inr (Exhausted units (lim0 - active_sum (tenant, config, tier, day_of now) st) lim0, st))"
  using assms
  by (simp add: reserve_estimated_def checked_sum_zero active_sum_def Let_def checked_add_def)

lemma reserve_overflow:
  assumes "u64_max < active_sum (tenant, config, tier, day_of now) st"
  shows "reserve_estimated day_of gen st now tenant config tier units rev0 (Some lim0) = Inl total_overflow"
  using assms by (simp add: reserve_estimated_def checked_sum_zero active_sum_def Let_def)

text \<open>One request against one scope, as the contract sees it.\<close>

definition try_reserve :: "(int \<Rightarrow> string) \<Rightarrow> (nat \<Rightarrow> string) \<Rightarrow> int \<Rightarrow> string \<Rightarrow> string \<Rightarrow> string \<Rightarrow> nat \<Rightarrow>
    nat \<Rightarrow> budget_state \<Rightarrow> budget_state option" where
  "try_reserve day_of gen now tenant config tier lim0 units st =
     (case reserve day_of gen st now tenant config tier units (Some lim0) of
        Inr (Granted _, st') \<Rightarrow> Some st' | _ \<Rightarrow> None)"

lemma try_reserve_Some:
  "try_reserve day_of gen now tenant config tier lim0 u st = Some st' \<Longrightarrow>
   active_sum (tenant, config, tier, day_of now) st' = active_sum (tenant, config, tier, day_of now) st + u
   \<and> active_sum (tenant, config, tier, day_of now) st' \<le> lim0"
  by (auto simp: try_reserve_def reserve_def reserve_estimated_def checked_sum_zero active_sum_def Let_def
      active_units_append active_units_Cons active_units_def[of _ "[]"] in_active_def row_scope_def
      split: if_splits option.splits)

lemma try_reserve_None:
  "lim0 \<le> u64_max \<Longrightarrow> try_reserve day_of gen now tenant config tier lim0 u st = None \<Longrightarrow>
   lim0 < active_sum (tenant, config, tier, day_of now) st + u"
  by (cases "active_sum (tenant, config, tier, day_of now) st \<le> u64_max")
    (auto simp: try_reserve_def reserve_def reserve_cases split: if_splits)

interpretation cap: spend_cap "active_sum (tenant, config, tier, day_of now)"
    "try_reserve day_of gen now tenant config tier (min lim0 u64_max)" "min lim0 u64_max"
  for day_of gen now tenant config tier lim0
  by unfold_locales (auto dest!: try_reserve_Some try_reserve_None[rotated])

end
