(* ===== verification/Budget_Properties.thy ===== *)
theory Budget_Properties
  imports Budget
begin

text \<open>
  What the budget store guarantees: the ceiling under any interleaving of its operations,
  one terminal transition per reservation, the append-only correction log, the sweep and the
  ledger projection. Runs of the store are the reflexive transitive closure of one step
  relation over all its mutating operations.
\<close>

section \<open>Runs of the store\<close>

inductive budget_step :: "(int \<Rightarrow> string) \<Rightarrow> (nat \<Rightarrow> string) \<Rightarrow> budget_state \<Rightarrow> budget_state \<Rightarrow> bool"
  for day_of gen where
  step_reserve: "reserve_estimated day_of gen st now tenant config tier units rev0 limit = Inr (out, st') \<Longrightarrow>
    budget_step day_of gen st st'"
| step_settle: "budget_step day_of gen st (settle_with_evidence st r actual usage)"
| step_release: "budget_step day_of gen st (release st r)"
| step_reconcile: "reconcile st tenant i c = Inr (result, st') \<Longrightarrow> budget_step day_of gen st st'"
| step_sweep: "budget_step day_of gen st (snd (sweep_stale st now older))"

definition budget_reachable :: "(int \<Rightarrow> string) \<Rightarrow> (nat \<Rightarrow> string) \<Rightarrow> budget_state \<Rightarrow> bool" where
  "budget_reachable day_of gen st \<longleftrightarrow> (budget_step day_of gen)\<^sup>*\<^sup>* budget_new st"

text \<open>The correction log of one row: revision numbers count up from zero, each result is what
  the next correction saw, the last one is the row's evidence, no correction is logged twice.\<close>

definition result_of :: "budget_evidence \<Rightarrow> budget_correction \<Rightarrow> budget_evidence" where
  "result_of ev c = ev\<lparr>ev_accounted_units := co_accounted_units c, ev_usage := Some (co_usage c),
     ev_revision := Suc (ev_revision ev)\<rparr>"

definition log_ok :: "budget_row \<Rightarrow> bool" where
  "log_ok r \<longleftrightarrow>
     distinct (map (co_id \<circ> adj_correction) (br_adjustments r)) \<and>
     (br_adjustments r \<noteq> [] \<longrightarrow> br_state r = Settled) \<and>
     (\<forall>i < length (br_adjustments r).
        ev_revision (adj_previous (br_adjustments r ! i)) = i \<and>
        co_expected_revision (adj_correction (br_adjustments r ! i)) = i \<and>
        adj_result (br_adjustments r ! i)
          = result_of (adj_previous (br_adjustments r ! i)) (adj_correction (br_adjustments r ! i)) \<and>
        (if Suc i < length (br_adjustments r)
         then adj_previous (br_adjustments r ! Suc i) = adj_result (br_adjustments r ! i)
         else row_evidence r = adj_result (br_adjustments r ! i)))"

definition budget_ok :: "(nat \<Rightarrow> string) \<Rightarrow> budget_state \<Rightarrow> bool" where
  "budget_ok gen st \<longleftrightarrow> distinct (map br_id (bs_rows st)) \<and>
     br_id ` set (bs_rows st) \<subseteq> gen ` {..<bs_drawn st} \<and> (\<forall>r \<in> set (bs_rows st). log_ok r)"

subsection \<open>Effects on the rows\<close>

lemma map_update_first: "(\<And>x. g (f x) = g x) \<Longrightarrow> map g (update_first p f xs) = map g xs"
  by (induction xs) auto

lemma set_update_first: "set (update_first p f xs) \<subseteq> set xs \<union> f ` {x \<in> set xs. p x}"
  by (induction xs) auto

lemma all_update_first: "\<forall>x \<in> set xs. Q x \<Longrightarrow> (\<And>x. x \<in> set xs \<Longrightarrow> p x \<Longrightarrow> Q x \<Longrightarrow> Q (f x)) \<Longrightarrow>
    \<forall>x \<in> set (update_first p f xs). Q x"
  using set_update_first[of p f xs] by blast

lemma update_first_const: "find p xs = Some x \<Longrightarrow> update_first p (\<lambda>_. f x) xs = update_first p f xs"
  by (induction xs) (auto split: if_splits)

lemma update_first_ident: "find p xs = Some x \<Longrightarrow> update_first p (\<lambda>_. x) xs = xs"
  by (induction xs) (auto split: if_splits)

lemma find_in: "find p xs = Some x \<Longrightarrow> x \<in> set xs \<and> p x"
  by (induction xs) (auto split: if_splits)

lemma log_ok_unlogged: "br_adjustments r = [] \<Longrightarrow> log_ok r"
  by (simp add: log_ok_def)

lemma log_ok_held: "log_ok r \<Longrightarrow> br_state r = Held \<Longrightarrow> br_adjustments r = []"
  by (auto simp: log_ok_def)

lemma log_ok_end_held: "log_ok r \<Longrightarrow> br_state r = Held \<Longrightarrow> br_adjustments r' = br_adjustments r \<Longrightarrow> log_ok r'"
  by (metis log_ok_held log_ok_unlogged)

subsection \<open>The invariant\<close>

lemma reserve_rows:
  assumes "reserve_estimated day_of gen st now tenant config tier units rev0 limit = Inr (out, st')"
  shows "st' = st \<or> (\<exists>row lim0. limit = Some lim0 \<and> bs_rows st' = bs_rows st @ [row] \<and> bs_drawn st' = Suc (bs_drawn st) \<and>
    br_id row = gen (bs_drawn st) \<and> br_adjustments row = [] \<and> br_state row = Held \<and> br_units row = units \<and>
    row_scope row = (tenant, config, tier, day_of now) \<and>
    active_sum (tenant, config, tier, day_of now) st + units \<le> lim0)"
  using assms
  by (auto simp: reserve_estimated_def Let_def row_scope_def res_bind_eq_Inr ok_or_eq_Inr checked_sum_zero
      active_sum_def split: option.splits if_splits)

lemma budget_ok_reserve:
  assumes ok: "budget_ok gen st" and inj: "inj gen"
    and st': "reserve_estimated day_of gen st now tenant config tier units rev0 limit = Inr (out, st')"
  shows "budget_ok gen st'"
  using reserve_rows[OF st']
proof (elim disjE exE conjE)
  fix row lim0
  assume r: "bs_rows st' = bs_rows st @ [row]" "bs_drawn st' = Suc (bs_drawn st)"
    "br_id row = gen (bs_drawn st)" "br_adjustments row = []"
  have "gen (bs_drawn st) \<notin> gen ` {..<bs_drawn st}" using inj by (auto dest: injD)
  with ok r show ?thesis by (auto simp: budget_ok_def log_ok_unlogged lessThan_Suc)
qed (use ok in simp)

lemma budget_ok_update:
  assumes "budget_ok gen st" "\<And>x. br_id (f x) = br_id x"
    and "\<And>x. x \<in> set (bs_rows st) \<Longrightarrow> p x \<Longrightarrow> log_ok x \<Longrightarrow> log_ok (f x)"
  shows "budget_ok gen (st\<lparr>bs_rows := update_first p f (bs_rows st)\<rparr>)"
proof -
  have "map br_id (update_first p f (bs_rows st)) = map br_id (bs_rows st)"
    using assms(2) by (rule map_update_first)
  moreover from this have "br_id ` set (update_first p f (bs_rows st)) = br_id ` set (bs_rows st)"
    by (metis list.set_map)
  moreover have "\<forall>x \<in> set (update_first p f (bs_rows st)). log_ok x"
    using assms by (intro all_update_first) (auto simp: budget_ok_def)
  ultimately show ?thesis using assms(1) by (simp add: budget_ok_def)
qed

lemma row_evidence_revision [simp]: "ev_revision (row_evidence r) = length (br_adjustments r)"
  by (simp add: row_evidence_def)

lemma row_evidence_state [simp]: "ev_state (row_evidence r) = state_name (br_state r)"
  by (simp add: row_evidence_def)

lemma state_name_settled: "state_name s = ''settled'' \<longleftrightarrow> s = Settled"
  by (cases s) auto

text \<open>An accepted correction: a replay, or a validated new entry of the log.\<close>

lemma reconcile_row_Inr:
  assumes "reconcile_row c row = Inr (result, row')"
  obtains a where "a \<in> set (br_adjustments row)" "adj_correction a = c" "result = adj_result a" "row' = row"
  | "\<forall>a \<in> set (br_adjustments row). co_id (adj_correction a) \<noteq> co_id c"
    "validate_correction c (row_evidence row) = Inr ()"
    "result = result_of (row_evidence row) c"
    "row' = row\<lparr>br_units := co_accounted_units c, br_usage := Some (co_usage c),
       br_adjustments := br_adjustments row @
         [\<lparr>adj_correction = c, adj_previous = row_evidence row, adj_result = result\<rparr>]\<rparr>"
proof (cases "find (\<lambda>a. co_id (adj_correction a) = co_id c) (br_adjustments row)")
  case None
  with assms obtain m where v: "validate_correction c (row_evidence row) = Inr m"
    and r: "result = result_of (row_evidence row) c"
    and row': "row' = row\<lparr>br_units := co_accounted_units c, br_usage := Some (co_usage c),
       br_adjustments := br_adjustments row @
         [\<lparr>adj_correction = c, adj_previous = row_evidence row, adj_result = result\<rparr>]\<rparr>"
    unfolding reconcile_row_def
    by (auto simp only: option.case Let_def res_bind_eq_Inr ok_or_eq_Inr checked_add_Some result_of_def
        add_Suc_right add_0_right One_nat_def sum.inject prod.inject)
  from None have "\<forall>a \<in> set (br_adjustments row). co_id (adj_correction a) \<noteq> co_id c"
    by (simp add: find_None_iff')
  from that(2)[OF this] v r row' show ?thesis by simp
next
  case (Some a)
  with assms that(1)[of a] find_in[OF Some] show ?thesis
    by (auto simp: reconcile_row_def split: if_splits)
qed

lemma validate_correction_Inr: "validate_correction c ev = Inr u \<longleftrightarrow>
    safe_identifier (co_id c) \<and> safe_identifier (co_evidence_ref c) \<and> ev_state ev = ''settled'' \<and>
    co_expected_revision c = ev_revision ev \<and>
    (\<exists>m. accounted_units (co_usage c) (correction_floor ev) = Inr m \<and> m \<le> co_accounted_units c)"
  by (simp add: validate_correction_def res_bind_eq_Inr linorder_not_less del: char.simps) blast

lemma log_ok_correct:
  assumes ok: "log_ok row" and s: "br_state row = Settled"
    and new: "\<forall>a \<in> set (br_adjustments row). co_id (adj_correction a) \<noteq> co_id c"
    and rev0: "co_expected_revision c = length (br_adjustments row)"
    and row': "row' = row\<lparr>br_units := co_accounted_units c, br_usage := Some (co_usage c),
       br_adjustments := br_adjustments row @
         [\<lparr>adj_correction = c, adj_previous = row_evidence row, adj_result = result_of (row_evidence row) c\<rparr>]\<rparr>"
  shows "log_ok row'"
proof -
  let ?as = "br_adjustments row"
  have ev: "row_evidence row' = result_of (row_evidence row) c"
    by (simp add: row' row_evidence_def result_of_def)
  have "distinct (map (co_id \<circ> adj_correction) (br_adjustments row'))"
    using ok new by (auto simp: log_ok_def row')
  moreover have "br_state row' = Settled" using s by (simp add: row')
  moreover have "ev_revision (adj_previous (br_adjustments row' ! i)) = i \<and>
      co_expected_revision (adj_correction (br_adjustments row' ! i)) = i \<and>
      adj_result (br_adjustments row' ! i)
        = result_of (adj_previous (br_adjustments row' ! i)) (adj_correction (br_adjustments row' ! i)) \<and>
      (if Suc i < length (br_adjustments row')
       then adj_previous (br_adjustments row' ! Suc i) = adj_result (br_adjustments row' ! i)
       else row_evidence row' = adj_result (br_adjustments row' ! i))"
    if "i < length (br_adjustments row')" for i
  proof (cases "i < length ?as")
    case True
    with ok show ?thesis
      by (auto simp: log_ok_def row' nth_append not_less_eq less_Suc_eq)
  next
    case False
    with that have i: "i = length ?as" by (simp add: row')
    show ?thesis using rev0 by (simp add: i ev) (simp add: row' nth_append)
  qed
  ultimately show ?thesis unfolding log_ok_def by blast
qed

lemma log_ok_reconcile_row:
  assumes ok: "log_ok row" and r: "reconcile_row c row = Inr (result, row')"
  shows "log_ok row'"
  using r
proof (cases rule: reconcile_row_Inr)
  case 2
  then have "ev_state (row_evidence row) = ''settled''" "co_expected_revision c = length (br_adjustments row)"
    by (simp_all add: validate_correction_Inr del: char.simps)
  with 2 ok show ?thesis
    by (intro log_ok_correct[of row c row']) (simp_all only: row_evidence_state state_name_settled)
qed (use ok in simp)

lemma reconcile_Inr:
  assumes "reconcile st tenant i c = Inr (result, st')"
  obtains row row' where "find (is_row tenant i) (bs_rows st) = Some row" "reconcile_row c row = Inr (result, row')"
    "st' = st\<lparr>bs_rows := update_first (is_row tenant i) (\<lambda>_. row') (bs_rows st)\<rparr>"
  using assms by (auto simp: reconcile_def res_bind_eq_Inr split: option.splits)

lemma reconcile_row_id: "reconcile_row c row = Inr (result, row') \<Longrightarrow>
    br_id row' = br_id row \<and> br_tenant row' = br_tenant row \<and> br_state row' = br_state row"
  by (erule reconcile_row_Inr) simp_all

lemma budget_ok_reconcile:
  assumes ok: "budget_ok gen st" and "reconcile st tenant i c = Inr (result, st')"
  shows "budget_ok gen st'"
proof -
  from assms(2) obtain row row' where f: "find (is_row tenant i) (bs_rows st) = Some row"
    and r: "reconcile_row c row = Inr (result, row')"
    and st': "st' = st\<lparr>bs_rows := update_first (is_row tenant i) (\<lambda>_. row') (bs_rows st)\<rparr>"
    by (rule reconcile_Inr)
  let ?f = "\<lambda>x. if x = row then row' else x"
  have "log_ok row'" using ok find_in[OF f] log_ok_reconcile_row[OF _ r] by (auto simp: budget_ok_def)
  then have "budget_ok gen (st\<lparr>bs_rows := update_first (is_row tenant i) ?f (bs_rows st)\<rparr>)"
    using ok reconcile_row_id[OF r] by (intro budget_ok_update) auto
  moreover have "update_first (is_row tenant i) ?f (bs_rows st) = update_first (is_row tenant i) (\<lambda>_. row') (bs_rows st)"
    using update_first_const[OF f, of ?f] by simp
  ultimately show ?thesis by (simp add: st')
qed

lemma budget_ok_sweep:
  assumes "budget_ok gen st"
  shows "budget_ok gen (snd (sweep_stale st now older))"
  using assms by (auto simp: budget_ok_def sweep_stale_def Let_def o_def if_distrib[of br_id] image_image stale_def
      intro: log_ok_end_held cong: if_cong)

lemma budget_step_ok: "budget_step day_of gen st st' \<Longrightarrow> inj gen \<Longrightarrow> budget_ok gen st \<Longrightarrow> budget_ok gen st'"
proof (induction rule: budget_step.induct)
  case (step_settle st r actual usage)
  then show ?case unfolding settle_with_evidence_def
    by (intro budget_ok_update) (auto simp: settle_row_def held_row_def intro: log_ok_end_held)
next
  case (step_release st r)
  then show ?case unfolding release_def
    by (intro budget_ok_update) (auto simp: held_row_def intro: log_ok_end_held)
qed (auto intro: budget_ok_reserve budget_ok_reconcile budget_ok_sweep)

lemma budget_reachable_ok:
  assumes "budget_reachable day_of gen st" "inj gen"
  shows "budget_ok gen st"
  using assms(1) unfolding budget_reachable_def
proof (induction rule: rtranclp_induct)
  case base
  show ?case by (simp add: budget_ok_def budget_new_def)
next
  case (step st st')
  with assms(2) show ?case by (blast intro: budget_step_ok)
qed

section \<open>The ceiling\<close>

text \<open>
  Runs in which every request names a limit within the ceiling of its scope and no settlement
  reports more than was reserved. Corrections are left out: they record liability that was
  already spent and may exceed the ceiling.
\<close>

inductive capped_step :: "(int \<Rightarrow> string) \<Rightarrow> (nat \<Rightarrow> string) \<Rightarrow> (scope \<Rightarrow> nat) \<Rightarrow> budget_state \<Rightarrow> budget_state \<Rightarrow> bool"
  for day_of gen ceil where
  capped_reserve: "reserve_estimated day_of gen st now tenant config tier units rev0 limit = Inr (out, st') \<Longrightarrow>
    (\<And>lim0. limit = Some lim0 \<Longrightarrow> lim0 \<le> ceil (tenant, config, tier, day_of now)) \<Longrightarrow> capped_step day_of gen ceil st st'"
| capped_settle: "(\<And>x. x \<in> set (bs_rows st) \<Longrightarrow> held_row r x \<Longrightarrow> unwrap_or (br_units x) actual \<le> br_units x) \<Longrightarrow>
    capped_step day_of gen ceil st (settle_with_evidence st r actual usage)"
| capped_release: "capped_step day_of gen ceil st (release st r)"
| capped_sweep: "capped_step day_of gen ceil st (snd (sweep_stale st now older))"

definition row_active :: "scope \<Rightarrow> budget_row \<Rightarrow> nat" where
  "row_active sc r = (if in_active sc r then br_units r else 0)"

lemma active_sum_alt: "active_sum sc st = sum_list (map (row_active sc) (bs_rows st))"
proof -
  have "sum_list (active_units sc xs) = sum_list (map (row_active sc) xs)" for xs
    by (induction xs) (simp_all add: active_units_def row_active_def)
  then show ?thesis by (simp add: active_sum_def)
qed

lemma sum_update_first: "(\<And>x. x \<in> set xs \<Longrightarrow> p x \<Longrightarrow> (g (f x) :: nat) \<le> g x) \<Longrightarrow>
    sum_list (map g (update_first p f xs)) \<le> sum_list (map g xs)"
  by (induction xs) auto

lemma active_sum_settle:
  assumes "\<And>x. x \<in> set (bs_rows st) \<Longrightarrow> held_row r x \<Longrightarrow> unwrap_or (br_units x) actual \<le> br_units x"
  shows "active_sum sc (settle_with_evidence st r actual usage) \<le> active_sum sc st"
  unfolding active_sum_alt settle_with_evidence_def using assms
  by (auto intro!: sum_update_first simp: row_active_def in_active_def row_scope_def settle_row_def unwrap_or_def
      held_row_def split: option.splits)

lemma active_sum_release: "active_sum sc (release st r) \<le> active_sum sc st"
  unfolding active_sum_alt release_def
  by (auto intro!: sum_update_first simp: row_active_def in_active_def)

lemma active_sum_sweep: "active_sum sc (snd (sweep_stale st now older)) = active_sum sc st"
  unfolding active_sum_alt sweep_stale_def
  by (auto simp: Let_def row_active_def in_active_def row_scope_def stale_def intro!: arg_cong[of _ _ sum_list])

lemma active_sum_reserve:
  assumes "reserve_estimated day_of gen st now tenant config tier units rev0 limit = Inr (out, st')"
  shows "active_sum sc st' = active_sum sc st \<or>
    (\<exists>lim0. limit = Some lim0 \<and> sc = (tenant, config, tier, day_of now) \<and> active_sum sc st' \<le> lim0)"
  using reserve_rows[OF assms]
proof (elim disjE exE conjE)
  fix row lim0
  assume r: "limit = Some lim0" "bs_rows st' = bs_rows st @ [row]" "row_scope row = (tenant, config, tier, day_of now)"
    "br_units row = units" "active_sum (tenant, config, tier, day_of now) st + units \<le> lim0"
  then show ?thesis by (auto simp: active_sum_alt row_active_def in_active_def)
qed simp

text \<open>C9. The spending ceiling holds under every interleaving of requests, settlements,
  releases and sweeps: as long as each request names a limit within the ceiling of its tenant,
  configuration, tier and day, and no settlement reports more than was reserved, what is held
  and settled in a scope never exceeds the ceiling of that scope.\<close>

theorem ceiling_never_exceeded:
  assumes "(capped_step day_of gen ceil)\<^sup>*\<^sup>* budget_new st"
  shows "active_sum sc st \<le> ceil sc"
  using assms
proof (induction rule: rtranclp_induct)
  case base
  show ?case by (simp add: budget_new_def active_sum_def active_units_def)
next
  case (step st st')
  from step(2) show ?case
  proof cases
    case (capped_reserve now tenant config tier units rev0 limit out)
    from active_sum_reserve[OF capped_reserve(1), of sc] capped_reserve(2) step.IH show ?thesis
      by (auto intro: order_trans)
  next
    case (capped_settle r actual usage)
    have "active_sum sc st' \<le> active_sum sc st"
      unfolding capped_settle(1) using capped_settle(2) by (rule active_sum_settle)
    with step.IH show ?thesis by simp
  next
    case (capped_release r)
    then show ?thesis using active_sum_release[of sc st r] step.IH by simp
  qed (use step.IH active_sum_sweep in simp)
qed

section \<open>One terminal transition\<close>

lemma update_first_none: "\<forall>x \<in> set xs. \<not> p x \<Longrightarrow> update_first p f xs = xs"
  by (rule update_first_id)

text \<open>Identities are distinct, so once the held row of a reservation is closed no other is left.\<close>

lemma no_held_after:
  assumes d: "distinct (map br_id xs)" and f: "\<And>x. br_state (f x) \<noteq> Held" "\<And>x. br_id (f x) = br_id x"
  shows "\<forall>x \<in> set (update_first (held_row r) f xs). \<not> held_row r x"
  using d
proof (induction xs)
  case (Cons a xs)
  show ?case
  proof (cases "held_row r a")
    case True
    with Cons.prems have "res_id r \<notin> br_id ` set xs" by (simp add: held_row_def)
    then have "\<forall>x \<in> set xs. br_id x \<noteq> res_id r" by (metis image_eqI)
    moreover have "\<not> held_row r (f a)" using f(1) by (simp add: held_row_def)
    ultimately show ?thesis using True by (auto simp: held_row_def)
  next
    case False
    with Cons show ?thesis by simp
  qed
qed simp

lemma settle_closes:
  assumes "budget_ok gen st"
  shows "\<forall>x \<in> set (bs_rows (settle_with_evidence st r actual usage)). \<not> held_row r x"
  using assms no_held_after[of "bs_rows st" "settle_row actual usage" r]
  by (simp add: settle_with_evidence_def settle_row_def budget_ok_def)

lemma release_closes:
  assumes "budget_ok gen st"
  shows "\<forall>x \<in> set (bs_rows (release st r)). \<not> held_row r x"
  using assms no_held_after[of "bs_rows st" "\<lambda>x. x\<lparr>br_state := Released\<rparr>" r]
  by (simp add: release_def budget_ok_def)

lemma settle_no_held: "\<forall>x \<in> set (bs_rows st). \<not> held_row r x \<Longrightarrow> settle_with_evidence st r actual usage = st"
  by (simp add: settle_with_evidence_def update_first_none)

lemma release_no_held: "\<forall>x \<in> set (bs_rows st). \<not> held_row r x \<Longrightarrow> release st r = st"
  by (simp add: release_def update_first_none)

text \<open>C10. A reservation is closed once: in every reachable store the first settlement or
  release of a reservation decides, and every later settlement or release of it changes
  nothing.\<close>

theorem first_writer_wins:
  assumes "budget_reachable day_of gen st" "inj gen"
  shows "settle_with_evidence (settle_with_evidence st r a u) r a' u' = settle_with_evidence st r a u
    \<and> release (settle_with_evidence st r a u) r = settle_with_evidence st r a u
    \<and> settle_with_evidence (release st r) r a' u' = release st r
    \<and> release (release st r) r = release st r"
  using budget_reachable_ok[OF assms]
  by (simp add: settle_no_held[OF settle_closes] release_no_held[OF settle_closes]
      settle_no_held[OF release_closes] release_no_held[OF release_closes])

section \<open>Corrections\<close>

lemma update_first_find: "find p xs = Some x \<Longrightarrow> (p y \<Longrightarrow> find p (update_first p (\<lambda>_. y) xs) = Some y)"
  by (induction xs) (auto split: if_splits)

lemma is_row_reconciled: "is_row tenant i row \<Longrightarrow> reconcile_row c row = Inr (result, row') \<Longrightarrow> is_row tenant i row'"
  by (drule reconcile_row_id) (simp add: is_row_def)

lemma find_unique_id:
  assumes "distinct (map (co_id \<circ> adj_correction) as)" "a \<in> set as" "co_id (adj_correction a) = k"
  shows "find (\<lambda>a. co_id (adj_correction a) = k) as = Some a"
  using assms by (induction as) (auto simp: image_iff)

text \<open>After a correction was accepted or replayed, the log holds it with its result.\<close>

lemma reconcile_row_logged:
  assumes "reconcile_row c row = Inr (result, row')"
  shows "\<exists>a \<in> set (br_adjustments row'). adj_correction a = c \<and> adj_result a = result"
  using assms by (cases rule: reconcile_row_Inr) (auto simp: Bex_def)

lemma reconcile_row_again:
  assumes ok: "log_ok row" and r: "reconcile_row c row = Inr (result, row')" and same: "co_id c' = co_id c"
  shows "reconcile_row c' row' = (if c' = c then Inr (result, row') else Inl IdempotencyMismatch)"
proof -
  from reconcile_row_logged[OF r] obtain a
    where a: "a \<in> set (br_adjustments row')" "adj_correction a = c" "adj_result a = result" by blast
  have "distinct (map (co_id \<circ> adj_correction) (br_adjustments row'))"
    using log_ok_reconcile_row[OF ok r] by (simp add: log_ok_def)
  from find_unique_id[OF this a(1)] a same
  have "find (\<lambda>a. co_id (adj_correction a) = co_id c') (br_adjustments row') = Some a" by simp
  with a show ?thesis by (auto simp: reconcile_row_def)
qed

lemma log_ok_result:
  assumes "log_ok row" "a \<in> set (br_adjustments row)"
  shows "adj_result a = result_of (adj_previous a) (adj_correction a) \<and>
    ev_revision (adj_previous a) = co_expected_revision (adj_correction a)"
proof -
  from assms(2) obtain i where "i < length (br_adjustments row)" "a = br_adjustments row ! i"
    by (metis in_set_conv_nth)
  with assms(1) show ?thesis by (simp add: log_ok_def)
qed

lemma reconcile_row_result:
  assumes ok: "log_ok row" and r: "reconcile_row c row = Inr (result, row')"
  shows "ev_accounted_units result = co_accounted_units c \<and> ev_usage result = Some (co_usage c) \<and>
    ev_revision result = Suc (co_expected_revision c)"
proof -
  from reconcile_row_logged[OF r] obtain a
    where a: "a \<in> set (br_adjustments row')" "adj_correction a = c" "adj_result a = result" by blast
  from log_ok_result[OF log_ok_reconcile_row[OF ok r] a(1)] a(2,3) show ?thesis
    by (auto simp: result_of_def)
qed

lemma reconcile_row_floor:
  assumes "reconcile_row c row = Inr (result, row')"
  shows "row' = row \<or> (\<exists>m. accounted_units (co_usage c) (correction_floor (row_evidence row)) = Inr m \<and>
    m \<le> co_accounted_units c)"
  using assms by (cases rule: reconcile_row_Inr) (simp_all add: validate_correction_Inr del: char.simps)

text \<open>The correction of a row as a contract: what a caller may rely on when it retries.\<close>

locale idempotent_log =
  fixes apply_entry :: "'c \<Rightarrow> 's \<Rightarrow> 'e + 'r \<times> 's"
    and ident :: "'c \<Rightarrow> string"
    and ok :: "'s \<Rightarrow> bool"
    and clash :: 'e
  assumes again: "ok s \<Longrightarrow> apply_entry c s = Inr (r, s') \<Longrightarrow> ident c' = ident c \<Longrightarrow>
      apply_entry c' s' = (if c' = c then Inr (r, s') else Inl clash)"
    and keeps: "ok s \<Longrightarrow> apply_entry c s = Inr (r, s') \<Longrightarrow> ok s'"
begin

text \<open>However often an accepted entry is retried, the answer and the state stay the same.\<close>

lemma retries: "ok s \<Longrightarrow> apply_entry c s = Inr (r, s') \<Longrightarrow>
    res_fold (\<lambda>(_, t) _. apply_entry c t) (r, s') (replicate n ()) = Inr (r, s')"
  by (induction n) (simp_all add: again[of s c r s' c])

lemma clash_after: "ok s \<Longrightarrow> apply_entry c s = Inr (r, s') \<Longrightarrow> ident c' = ident c \<Longrightarrow> c' \<noteq> c \<Longrightarrow>
    apply_entry c' s' = Inl clash"
  using again[of s c r s' c'] by simp

end

interpretation row_log: idempotent_log reconcile_row co_id log_ok IdempotencyMismatch
  by unfold_locales (rule reconcile_row_again, assumption+, rule log_ok_reconcile_row)

lemma reconcile_again:
  assumes "budget_ok gen st" "reconcile st tenant i c = Inr (ev, st')" "co_id c' = co_id c"
  shows "reconcile st' tenant i c' = (if c' = c then Inr (ev, st') else Inl IdempotencyMismatch)"
  using assms(2)
proof (rule reconcile_Inr)
  fix row row'
  assume f: "find (is_row tenant i) (bs_rows st) = Some row" and r: "reconcile_row c row = Inr (ev, row')"
    and st': "st' = st\<lparr>bs_rows := update_first (is_row tenant i) (\<lambda>_. row') (bs_rows st)\<rparr>"
  have ok: "log_ok row" using assms(1) find_in[OF f] by (simp add: budget_ok_def)
  have "is_row tenant i row'" using is_row_reconciled[OF _ r] find_in[OF f] by blast
  then have f': "find (is_row tenant i) (bs_rows st') = Some row'"
    using update_first_find[OF f] by (simp add: st')
  have "update_first (is_row tenant i) (\<lambda>_. row') (bs_rows st') = bs_rows st'"
    using f' by (rule update_first_ident)
  then show ?thesis
    using row_log.again[OF ok r assms(3)] by (simp add: reconcile_def f')
qed

interpretation store_log: idempotent_log "\<lambda>c st. reconcile st tenant i c" co_id "budget_ok gen" IdempotencyMismatch
  for tenant i gen
  by unfold_locales (rule reconcile_again, assumption+, rule budget_ok_reconcile)

text \<open>C11. Corrections are idempotent and never undercount: in every reachable store an accepted
  correction answers the accounted units, usage and next revision it names; unless it was a
  replay, it covers what its usage evidence and the unresolved liability require; retrying it
  returns the recorded answer without a change, and another correction under its identity is
  an idempotency mismatch.\<close>

theorem corrections_idempotent:
  assumes "budget_reachable day_of gen st" "inj gen" "reconcile st tenant i c = Inr (ev, st')"
  shows "ev_accounted_units ev = co_accounted_units c \<and> ev_usage ev = Some (co_usage c) \<and>
      ev_revision ev = Suc (co_expected_revision c)
    \<and> (st' = st \<or> (\<exists>prev m. evidence st tenant i = Some prev \<and>
        accounted_units (co_usage c) (correction_floor prev) = Inr m \<and> m \<le> co_accounted_units c))
    \<and> (\<forall>c'. co_id c' = co_id c \<longrightarrow>
        reconcile st' tenant i c' = (if c' = c then Inr (ev, st') else Inl IdempotencyMismatch))"
  using assms(3)
proof (rule reconcile_Inr)
  fix row row'
  assume f: "find (is_row tenant i) (bs_rows st) = Some row" and r: "reconcile_row c row = Inr (ev, row')"
    and st': "st' = st\<lparr>bs_rows := update_first (is_row tenant i) (\<lambda>_. row') (bs_rows st)\<rparr>"
  have bok: "budget_ok gen st" using assms(1,2) by (rule budget_reachable_ok)
  then have ok: "log_ok row" using find_in[OF f] by (simp add: budget_ok_def)
  have "row' = row \<Longrightarrow> st' = st" using update_first_ident[OF f] by (simp add: st')
  then show ?thesis
    using reconcile_row_result[OF ok r] reconcile_row_floor[OF r] reconcile_again[OF bok assms(3)]
    by (auto simp: evidence_def f)
qed

section \<open>The sweep and the ledger\<close>

text \<open>The sweep closes exactly the holds that are old enough, keeps their units, and leaves
  nothing to a second sweep at the same moment.\<close>

lemma sweep_settles_stale:
  "\<forall>r \<in> set (bs_rows (snd (sweep_stale st now older))). \<not> stale (sweep_cutoff now older) r"
  by (auto simp: sweep_stale_def Let_def stale_def)

lemma sweep_again: "sweep_stale (snd (sweep_stale st now older)) now older = (0, snd (sweep_stale st now older))"
proof -
  have "map (\<lambda>r. if stale (sweep_cutoff now older) r then r\<lparr>br_state := Settled\<rparr> else r)
      (bs_rows (snd (sweep_stale st now older))) = bs_rows (snd (sweep_stale st now older))"
    using sweep_settles_stale[of st now older] by (intro map_idI) simp
  moreover have "filter (stale (sweep_cutoff now older)) (bs_rows (snd (sweep_stale st now older))) = []"
    using sweep_settles_stale[of st now older] by (simp add: filter_empty_conv)
  ultimately show ?thesis unfolding sweep_stale_def[of "snd (sweep_stale st now older)"] Let_def by simp
qed

definition counted :: "string \<times> string \<Rightarrow> budget_row list \<Rightarrow> budget_row list" where
  "counted k rs = filter (\<lambda>r. (br_config r, br_tier r) = k \<and> br_state r \<noteq> Released) rs"

definition units_in :: "row_state \<Rightarrow> budget_row list \<Rightarrow> nat" where
  "units_in s rs = sum_list (map br_units (filter (\<lambda>r. br_state r = s) rs))"

definition ledger_row_of :: "string \<Rightarrow> string \<times> string \<Rightarrow> budget_row list \<Rightarrow> budget_ledger_row option" where
  "ledger_row_of day k rs = (if counted k rs = [] then None else
     Some \<lparr>lr_config = fst k, lr_tier = snd k, lr_day = day, lr_held_units = units_in Held (counted k rs),
       lr_settled_units = units_in Settled (counted k rs), lr_reservations = length (counted k rs)\<rparr>)"

lemma counted_snoc: "counted k (rs @ [r]) = counted k rs @
    (if (br_config r, br_tier r) = k \<and> br_state r \<noteq> Released then [r] else [])"
  by (simp add: counted_def)

lemma units_in_snoc: "units_in s (rs @ [r]) = units_in s rs + (if br_state r = s then br_units r else 0)"
  by (simp add: units_in_def)

lemma ledger_step_spec:
  assumes "ledger_step day grouped r = Inr grouped'" "bt_sorted grouped"
    and "\<And>k. map_of grouped k = ledger_row_of day k rs"
  shows "bt_sorted grouped' \<and> map_of grouped' k = ledger_row_of day k (rs @ [r])"
proof (cases "br_state r = Released")
  case True
  with assms show ?thesis by (simp add: ledger_step_def ledger_row_of_def counted_snoc)
next
  case False
  let ?k = "(br_config r, br_tier r)"
  have c: "counted ?k (rs @ [r]) = counted ?k rs @ [r]" using False by (simp add: counted_snoc)
  have o: "k \<noteq> ?k \<Longrightarrow> counted k (rs @ [r]) = counted k rs" by (auto simp: counted_snoc)
  from assms(1) False obtain l where g: "grouped' = bt_insert ?k l grouped"
    by (auto simp: ledger_step_def Let_def res_bind_eq_Inr)
  have "Some l = ledger_row_of day ?k (rs @ [r])"
  proof (cases "counted ?k rs")
    case Nil
    with assms(3)[of ?k] have "map_of grouped ?k = None" by (simp add: ledger_row_of_def)
    with assms(1) False c Nil g show ?thesis
      by (cases "br_state r") (auto simp: ledger_step_def Let_def res_bind_eq_Inr ok_or_eq_Inr ledger_row_of_def units_in_def)
  next
    case (Cons y ys)
    with assms(3)[of ?k] have "map_of grouped ?k = Some \<lparr>lr_config = br_config r, lr_tier = br_tier r, lr_day = day,
      lr_held_units = units_in Held (counted ?k rs), lr_settled_units = units_in Settled (counted ?k rs),
      lr_reservations = length (counted ?k rs)\<rparr>" by (simp add: ledger_row_of_def)
    with assms(1) False c g show ?thesis
      by (cases "br_state r") (auto simp: ledger_step_def Let_def res_bind_eq_Inr ok_or_eq_Inr ledger_row_of_def units_in_snoc)
  qed
  with g assms(2,3) o show ?thesis by (auto simp: ledger_row_of_def)
qed

lemma ledger_fold_spec:
  assumes "res_fold (ledger_step day) [] rs = Inr grouped"
  shows "bt_sorted grouped \<and> (\<forall>k. map_of grouped k = ledger_row_of day k rs)"
  using assms
proof (induction rs arbitrary: grouped rule: rev_induct)
  case Nil
  then show ?case by (simp add: ledger_row_of_def counted_def)
next
  case (snoc r rs)
  then obtain g where g: "res_fold (ledger_step day) [] rs = Inr g" "ledger_step day g r = Inr grouped"
    by (auto simp: res_fold_append res_bind_eq_Inr)
  with snoc.IH[OF g(1)] ledger_step_spec[OF g(2)] show ?case by blast
qed

lemma units_by_state: "\<forall>r \<in> set rs. br_state r \<noteq> Released \<Longrightarrow>
    units_in Held rs + units_in Settled rs = sum_list (map br_units rs)"
proof (induction rs)
  case (Cons r rs)
  then show ?case by (cases "br_state r") (simp_all add: units_in_def)
qed (simp add: units_in_def)

lemma counted_active: "counted (config, tier) (filter (\<lambda>r. br_tenant r = tenant \<and> br_day r = day) rs)
    = filter (in_active (tenant, config, tier, day)) rs"
  by (auto simp: counted_def in_active_def row_scope_def intro!: filter_cong)

text \<open>C12. The ledger of a day accounts for every active unit: its rows are sorted by
  configuration and tier without repetition, a row stands for exactly the reservations of the
  tenant, day, configuration and tier that were not released, its held and settled units
  together are what counts against the ceiling, and a scope without a row has nothing active.\<close>

theorem ledger_accounts_for_everything:
  assumes "ledger day_of st now tenant = Inr rows"
  shows "sorted_wrt (<) (map (\<lambda>l. (lr_config l, lr_tier l)) rows)
    \<and> (\<forall>l \<in> set rows. lr_day l = day_of now \<and>
        (let sc = (tenant, lr_config l, lr_tier l, day_of now) in
         lr_held_units l + lr_settled_units l = active_sum sc st \<and>
         lr_reservations l = length (filter (in_active sc) (bs_rows st)) \<and> 0 < lr_reservations l))
    \<and> (\<forall>config tier. (config, tier) \<notin> (\<lambda>l. (lr_config l, lr_tier l)) ` set rows \<longrightarrow>
        active_sum (tenant, config, tier, day_of now) st = 0)"
proof -
  let ?rs = "filter (\<lambda>r. br_tenant r = tenant \<and> br_day r = day_of now) (bs_rows st)"
  from assms obtain g where g: "res_fold (ledger_step (day_of now)) [] ?rs = Inr g" and rows: "rows = map snd g"
    by (auto simp: ledger_def Let_def res_bind_eq_Inr)
  from ledger_fold_spec[OF g] have s: "bt_sorted g" and m: "\<And>k. map_of g k = ledger_row_of (day_of now) k ?rs"
    by auto
  have entry: "map_of g k = Some l" if "(k, l) \<in> set g" for k l
    using that s by (simp add: bt_sorted_distinct)
  have key: "(lr_config l, lr_tier l) = k" if "(k, l) \<in> set g" for k l
    using entry[OF that] m[of k] by (auto simp: ledger_row_of_def split: if_splits)
  have keys: "map (\<lambda>l. (lr_config l, lr_tier l)) rows = map fst g"
    using key by (auto simp: rows)
  have active: "sum_list (map br_units (filter (in_active sc) (bs_rows st))) = active_sum sc st" for sc
    by (simp add: active_sum_def active_units_def)
  have "lr_day l = day_of now \<and> (let sc = (tenant, lr_config l, lr_tier l, day_of now) in
         lr_held_units l + lr_settled_units l = active_sum sc st \<and>
         lr_reservations l = length (filter (in_active sc) (bs_rows st)) \<and> 0 < lr_reservations l)"
    if l: "l \<in> set rows" for l
  proof -
    from l obtain k where k: "(k, l) \<in> set g" by (auto simp: rows)
    obtain config tier where kk: "k = (config, tier)" by (cases k)
    have e: "ledger_row_of (day_of now) k ?rs = Some l" using entry[OF k] m by simp
    have "\<forall>r \<in> set (counted k ?rs). br_state r \<noteq> Released" by (simp add: counted_def)
    from units_by_state[OF this] e show ?thesis
      by (auto simp: ledger_row_of_def kk counted_active active Let_def split: if_splits)
  qed
  moreover have "active_sum (tenant, config, tier, day_of now) st = 0"
    if "(config, tier) \<notin> (\<lambda>l. (lr_config l, lr_tier l)) ` set rows" for config tier
  proof -
    have "(config, tier) \<notin> fst ` set g" using that keys by (metis list.set_map)
    then have "map_of g (config, tier) = None" by (simp add: map_of_eq_None_iff)
    then have "counted (config, tier) ?rs = []" using m by (auto simp: ledger_row_of_def split: if_splits)
    then show ?thesis by (simp add: counted_active flip: active)
  qed
  moreover have "sorted_wrt (<) (map (\<lambda>l. (lr_config l, lr_tier l)) rows)"
    using s by (simp add: keys bt_sorted_def)
  ultimately show ?thesis by blast
qed

section \<open>Concrete runs\<close>

definition demo_day :: "int \<Rightarrow> string" where
  "demo_day now = (if now < 86400 then ''1970-01-01'' else ''1970-01-02'')"

definition demo_id :: "nat \<Rightarrow> string" where
  "demo_id n = replicate n CHR ''r''"

lemma demo_id_inj: "inj demo_id"
  by (rule injI) (metis demo_id_def length_replicate)

text \<open>One reservation of ten units under a ceiling of twelve.\<close>

definition demo_reservation :: budget_reservation where
  "demo_reservation = \<lparr>res_id = [], res_tenant = ''t'', res_config = ''c'', res_tier = ''fast'',
     res_day = ''1970-01-01'', res_units = 10\<rparr>"

definition demo_held :: budget_state where
  "demo_held = \<lparr>bs_rows = [\<lparr>br_id = [], br_tenant = ''t'', br_config = ''c'', br_tier = ''fast'',
     br_day = ''1970-01-01'', br_units = 10, br_original_units = 10, br_usage = None, br_state = Held,
     br_created_unix = 5, br_adjustments = [], br_estimator_revision = None\<rparr>], bs_drawn = 1\<rparr>"

definition demo_settled :: budget_state where
  "demo_settled = settle demo_held demo_reservation (Some 7)"

definition demo_correction :: budget_correction where
  "demo_correction = \<lparr>co_id = ''fix-1'', co_expected_revision = 0, co_accounted_units = 11,
     co_usage = \<lparr>u_input_tokens = Some 6, u_output_tokens = Some 5, u_source = ProviderReported\<rparr>,
     co_evidence_ref = ''invoice.7''\<rparr>"

lemma demo_reserve: "reserve demo_day demo_id budget_new 5 ''t'' ''c'' ''fast'' 10 (Some 12)
    = Inr (Granted demo_reservation, demo_held)"
  by (simp add: reserve_def reserve_estimated_def budget_new_def active_units_def checked_add_def u64_max_def
      Let_def demo_reservation_def demo_held_def demo_id_def demo_day_def)

lemma demo_held_reachable: "budget_reachable demo_day demo_id demo_held"
  unfolding budget_reachable_def using demo_reserve[unfolded reserve_def]
  by (intro r_into_rtranclp step_reserve)

lemma demo_settled_reachable: "budget_reachable demo_day demo_id demo_settled"
  using demo_held_reachable step_settle[of demo_day demo_id demo_held demo_reservation "Some 7" None]
  by (auto simp: budget_reachable_def demo_settled_def settle_def intro: rtranclp.rtrancl_into_rtrancl)

lemma ceiling_never_exceeded_witness:
  "active_sum (''t'', ''c'', ''fast'', ''1970-01-01'') demo_settled \<le> 12"
proof -
  have "capped_step demo_day demo_id (\<lambda>_. 12) budget_new demo_held"
    using demo_reserve[unfolded reserve_def] by (rule capped_reserve) simp
  moreover have "capped_step demo_day demo_id (\<lambda>_. 12) demo_held demo_settled"
    unfolding demo_settled_def settle_def
    by (rule capped_settle) (simp add: demo_held_def unwrap_or_def)
  ultimately have "(capped_step demo_day demo_id (\<lambda>_. 12))\<^sup>*\<^sup>* budget_new demo_settled"
    by (auto intro: rtranclp.rtrancl_into_rtrancl)
  from ceiling_never_exceeded[OF this] show ?thesis .
qed

lemma first_writer_wins_witness:
  "settle (settle demo_held demo_reservation (Some 7)) demo_reservation (Some 9) = demo_settled
   \<and> demo_settled \<noteq> demo_held"
  using first_writer_wins[OF demo_held_reachable demo_id_inj, of demo_reservation "Some 7" None "Some 9" None]
  by (simp add: settle_def demo_settled_def)
    (simp add: settle_with_evidence_def demo_held_def held_row_def demo_reservation_def settle_row_def)

lemma demo_reconcile: "\<exists>ev st'. reconcile demo_settled ''t'' [] demo_correction = Inr (ev, st')"
  by (simp add: reconcile_def reconcile_row_def demo_settled_def settle_def settle_with_evidence_def demo_held_def
      demo_reservation_def demo_correction_def held_row_def settle_row_def is_row_def Let_def
      validate_correction_def safe_identifier_def safe_byte_def byte_len_def row_evidence_def accounted_units_def
      complete_usage_def checked_add_def u64_max_def unwrap_or_def correction_floor_def)

lemma corrections_idempotent_witness:
  "\<exists>ev st'. reconcile demo_settled ''t'' [] demo_correction = Inr (ev, st') \<and> ev_accounted_units ev = 11
     \<and> reconcile st' ''t'' [] demo_correction = Inr (ev, st')"
proof -
  obtain ev st' where r: "reconcile demo_settled ''t'' [] demo_correction = Inr (ev, st')"
    using demo_reconcile by blast
  have "co_accounted_units demo_correction = 11" by (simp add: demo_correction_def)
  with r corrections_idempotent[OF demo_settled_reachable demo_id_inj r] show ?thesis by auto
qed

lemma demo_ledger: "ledger demo_day demo_settled 5 ''t'' = Inr [\<lparr>lr_config = ''c'', lr_tier = ''fast'',
    lr_day = ''1970-01-01'', lr_held_units = 0, lr_settled_units = 7, lr_reservations = 1\<rparr>]"
  by (simp add: ledger_def ledger_step_def demo_settled_def settle_def settle_with_evidence_def demo_held_def
      demo_reservation_def held_row_def settle_row_def demo_day_def Let_def u64_max_def checked_add_def)

lemma ledger_accounts_for_everything_witness:
  "active_sum (''t'', ''c'', ''fast'', ''1970-01-01'') demo_settled = 7
   \<and> active_sum (''t'', ''c'', ''deep'', ''1970-01-01'') demo_settled = 0"
  using ledger_accounts_for_everything[OF demo_ledger] by (simp add: demo_day_def Let_def)

end
