(* ===== verification/Chronology.thy ===== *)
theory Chronology
  imports Gates
begin

text \<open>
  The chronology gate: the date grammar and the declarative rules of
  \<open>munarium-core/src/chrono_gate.rs\<close>, and the gate \<open>check_chronology\<close> of \<open>gates.rs\<close>.

  A \<open>NaiveDate\<close> is its day number, so that the order of dates and the days between them are
  those of the integers; the calendar itself (\<open>chrono\<close>) is the parameter \<open>cal\<close>: the day of a
  year, month and day, the predecessor of a day, a day plus a span (both with chrono's range
  check) and the ISO text of a day. The patterns are those of the source, in the regular
  expressions below with the leftmost-first semantics of the \<open>regex\<close> crate. The dashes U+2013
  and U+2014 of the range separator are outside the alphabet and never occur in a text; the
  one in a message is the argument \<open>dash\<close>.
\<close>

section \<open>Regular expressions\<close>

datatype re =
    Lit string
  | Cls "char \<Rightarrow> bool"
  | Many nat "char \<Rightarrow> bool"
  | Cat re re
  | Alt re re
  | Opt re
  | Grp nat re

text \<open>
  The successful matches of a prefix in the order in which the engine prefers them: the rest of
  the text and the captured groups. Literals are written in lower case; \<open>ci\<close> is the \<open>(?i)\<close> flag.
\<close>

type_synonym captures = "(nat \<times> string) list"

fun re_matches :: "bool \<Rightarrow> re \<Rightarrow> string \<Rightarrow> (string \<times> captures) list" where
  "re_matches ci (Lit w) s =
     (if (if ci then to_lower (take (length w) s) else take (length w) s) = w then [(drop (length w) s, [])] else [])"
| "re_matches ci (Cls p) s = (case s of [] \<Rightarrow> [] | c # cs \<Rightarrow> if p c then [(cs, [])] else [])"
| "re_matches ci (Many n p) s =
     map (\<lambda>k. (drop k s, [])) (rev [n..<Suc (length (takeWhile p s))])"
| "re_matches ci (Cat r q) s =
     concat (map (\<lambda>(t, g). map (\<lambda>(u, h). (u, g @ h)) (re_matches ci q t)) (re_matches ci r s))"
| "re_matches ci (Alt r q) s = re_matches ci r s @ re_matches ci q s"
| "re_matches ci (Opt r) s = re_matches ci r s @ [(s, [])]"
| "re_matches ci (Grp n r) s =
     map (\<lambda>(t, g). (t, (n, take (length s - length t) s) # g)) (re_matches ci r s)"

text \<open>\<open>captures\<close> of a pattern anchored at both ends, and the text left by \<open>replace\<close> of a match
  anchored at the start.\<close>

definition re_captures :: "bool \<Rightarrow> re \<Rightarrow> string \<Rightarrow> captures option" where
  "re_captures ci r s = map_option snd (find (\<lambda>(t, g). t = []) (re_matches ci r s))"

definition re_strip :: "bool \<Rightarrow> re \<Rightarrow> string \<Rightarrow> string" where
  "re_strip ci r s = (case re_matches ci r s of [] \<Rightarrow> s | (t, g) # _ \<Rightarrow> t)"

definition capture :: "captures \<Rightarrow> nat \<Rightarrow> string" where
  "capture g n = (case map_of g n of None \<Rightarrow> [] | Some s \<Rightarrow> s)"

definition is_digit :: "char \<Rightarrow> bool" where
  "is_digit c = (let n = (of_char c :: nat) in 48 \<le> n \<and> n \<le> 57)"

fun cats :: "re list \<Rightarrow> re" where
  "cats [] = Lit []"
| "cats [r] = r"
| "cats (r # q # rs) = Cat r (cats (q # rs))"

fun alts :: "string list \<Rightarrow> re" where
  "alts [] = Cls (\<lambda>_. False)"
| "alts [w] = Lit w"
| "alts (w # v # ws) = Alt (Lit w) (alts (v # ws))"

definition digits :: "nat \<Rightarrow> re" where
  "digits n = cats (replicate n (Cls is_digit))"

section \<open>The patterns\<close>

definition MONTH_RE :: "string list" where
  "MONTH_RE = [''january'', ''february'', ''march'', ''april'', ''august'', ''september'', ''october'',
     ''november'', ''december'', ''june'', ''july'', ''sept'', ''jan'', ''feb'', ''mar'', ''apr'', ''may'', ''jun'',
     ''jul'', ''aug'', ''sep'', ''oct'', ''nov'', ''dec'']"

definition RANGE_SEP :: re where
  "RANGE_SEP = cats [Many 0 is_ws, alts [''-'', ''to''], Many 0 is_ws]"

definition dot :: re where "dot = Opt (Lit ''.'')"

definition re_circa :: re where
  "re_circa = Cat
     (Alt (Lit ''circa'') (Alt (Cat (Lit ''ca'') dot) (Alt (Lit ''c.'') (Alt (Lit ''~'')
       (Alt (Cat (Lit ''approx'') (Opt (Alt (Lit ''.'') (Lit ''imately'')))) (alts [''around'', ''about'']))))))
     (Many 0 is_ws)"

definition re_iso_day :: re where
  "re_iso_day = cats [Grp 1 (digits 4), Lit ''-'', Grp 2 (digits 2), Lit ''-'', Grp 3 (digits 2)]"

definition re_iso_month :: re where
  "re_iso_month = cats [Grp 1 (digits 4), Lit ''-'', Grp 2 (digits 2)]"

definition re_year :: re where
  "re_year = Grp 1 (digits 4)"

definition re_year_range :: re where
  "re_year_range = cats [Grp 1 (digits 4), RANGE_SEP, Grp 2 (digits 4)]"

definition re_month_year :: re where
  "re_month_year = cats [Grp 1 (alts MONTH_RE), dot, Many 1 is_ws, Grp 2 (digits 4)]"

definition re_month_range :: re where
  "re_month_range = cats [Grp 1 (alts MONTH_RE), dot, RANGE_SEP, Grp 2 (alts MONTH_RE), dot, Many 1 is_ws,
     Grp 3 (digits 4)]"

definition one_or_two_digits :: re where
  "one_or_two_digits = Cat (Cls is_digit) (Opt (Cls is_digit))"

definition ordinal :: re where
  "ordinal = Opt (alts [''st'', ''nd'', ''rd'', ''th''])"

definition re_month_day_year :: re where
  "re_month_day_year = cats [Grp 1 (alts MONTH_RE), dot, Many 1 is_ws, Grp 2 one_or_two_digits, ordinal,
     Alt (Cat (Lit '','') (Many 0 is_ws)) (Many 1 is_ws), Grp 3 (digits 4)]"

definition re_day_month_year :: re where
  "re_day_month_year = cats [Grp 1 one_or_two_digits, ordinal, Many 1 is_ws, Grp 2 (alts MONTH_RE), dot,
     Opt (Lit '',''), Many 1 is_ws, Grp 3 (digits 4)]"

definition re_season :: re where
  "re_season = cats [Grp 1 (alts [''spring'', ''summer'', ''autumn'', ''fall'', ''winter'']), Many 1 is_ws,
     Grp 2 (digits 4)]"

section \<open>Intervals\<close>

record calendar =
  cal_ymd :: "int \<Rightarrow> nat \<Rightarrow> nat \<Rightarrow> int option"
  cal_pred :: "int \<Rightarrow> int option"
  cal_add_days :: "int \<Rightarrow> int \<Rightarrow> int option"
  cal_show :: "int \<Rightarrow> string"

definition PRECISION_DAY :: string where "PRECISION_DAY = ''day''"
definition PRECISION_MONTH :: string where "PRECISION_MONTH = ''month''"
definition PRECISION_YEAR :: string where "PRECISION_YEAR = ''year''"

record when_interval =
  w_start :: int
  w_end :: int
  w_precision :: string
  w_uncertain :: bool

definition overlaps :: "when_interval \<Rightarrow> when_interval \<Rightarrow> bool" where
  "overlaps v w \<longleftrightarrow> w_start v \<le> w_end w \<and> w_start w \<le> w_end v"

definition definitely_before :: "when_interval \<Rightarrow> when_interval \<Rightarrow> bool" where
  "definitely_before v w \<longleftrightarrow> \<not> w_uncertain v \<and> \<not> w_uncertain w \<and> w_end v < w_start w"

definition definitely_after :: "when_interval \<Rightarrow> when_interval \<Rightarrow> bool" where
  "definitely_after v w = definitely_before w v"

definition when_json :: "calendar \<Rightarrow> when_interval \<Rightarrow> json" where
  "when_json cal w = jobj [(''start'', JStr (cal_show cal (w_start w))), (''end'', JStr (cal_show cal (w_end w))),
     (''precision'', JStr (w_precision w)), (''uncertain'', JBool (w_uncertain w))]"

section \<open>Parsing\<close>

definition month_names :: "(string \<times> nat) list" where
  "month_names = [(''january'', 1), (''jan'', 1), (''february'', 2), (''feb'', 2), (''march'', 3), (''mar'', 3),
     (''april'', 4), (''apr'', 4), (''may'', 5), (''june'', 6), (''jun'', 6), (''july'', 7), (''jul'', 7),
     (''august'', 8), (''aug'', 8), (''september'', 9), (''sep'', 9), (''sept'', 9), (''october'', 10),
     (''oct'', 10), (''november'', 11), (''nov'', 11), (''december'', 12), (''dec'', 12)]"

definition month_num :: "string \<Rightarrow> nat option" where
  "month_num name = map_of month_names (to_lower name)"

definition month_end :: "calendar \<Rightarrow> int \<Rightarrow> nat \<Rightarrow> int option" where
  "month_end cal year month =
     (if month = 12 then cal_ymd cal year 12 31
      else Option.bind (cal_ymd cal year (month + 1) 1) (cal_pred cal))"

text \<open>\<open>parse\<close> of captured digits: never empty and at most four, so it never fails.\<close>

definition num :: "string \<Rightarrow> nat" where
  "num s = fold (\<lambda>c n. 10 * n + (of_char c - 48)) s 0"

definition interval :: "int option \<Rightarrow> int option \<Rightarrow> string \<Rightarrow> bool \<Rightarrow> when_interval option" where
  "interval a b precision uncertain = Option.bind a (\<lambda>x. Option.bind b (\<lambda>y.
     Some \<lparr>w_start = x, w_end = y, w_precision = precision, w_uncertain = uncertain\<rparr>))"

definition season_months :: "string \<Rightarrow> (nat \<times> nat) option" where
  "season_months s = map_of [(''spring'', (3, 5)), (''summer'', (6, 8)), (''autumn'', (9, 11)), (''fall'', (9, 11)),
     (''winter'', (12, 2))] (to_lower s)"

text \<open>The branches of \<open>parse_when\<close> after the hedge is removed: each on the groups it captured.\<close>

definition from_iso_day :: "calendar \<Rightarrow> bool \<Rightarrow> captures \<Rightarrow> when_interval option" where
  "from_iso_day cal u g =
     (let day = cal_ymd cal (int (num (capture g 1))) (num (capture g 2)) (num (capture g 3))
      in interval day day PRECISION_DAY u)"

definition from_iso_month :: "calendar \<Rightarrow> bool \<Rightarrow> captures \<Rightarrow> when_interval option" where
  "from_iso_month cal u g =
     (let year = int (num (capture g 1)); month = num (capture g 2)
      in if \<not> (1 \<le> month \<and> month \<le> 12) then None
         else interval (cal_ymd cal year month 1) (month_end cal year month) PRECISION_MONTH u)"

definition from_year_range :: "calendar \<Rightarrow> bool \<Rightarrow> captures \<Rightarrow> when_interval option" where
  "from_year_range cal u g =
     (let y1 = int (num (capture g 1)); y2 = int (num (capture g 2))
      in if y1 > y2 then None else interval (cal_ymd cal y1 1 1) (cal_ymd cal y2 12 31) PRECISION_YEAR u)"

definition from_year :: "calendar \<Rightarrow> bool \<Rightarrow> captures \<Rightarrow> when_interval option" where
  "from_year cal u g =
     (let year = int (num (capture g 1))
      in interval (cal_ymd cal year 1 1) (cal_ymd cal year 12 31) PRECISION_YEAR u)"

definition from_month_range :: "calendar \<Rightarrow> bool \<Rightarrow> captures \<Rightarrow> when_interval option" where
  "from_month_range cal u g =
     Option.bind (month_num (capture g 1)) (\<lambda>m1. Option.bind (month_num (capture g 2)) (\<lambda>m2.
       let year = int (num (capture g 3))
       in if m1 > m2 then None
          else interval (cal_ymd cal year m1 1) (month_end cal year m2) PRECISION_MONTH u))"

definition from_month_day_year :: "calendar \<Rightarrow> bool \<Rightarrow> captures \<Rightarrow> when_interval option" where
  "from_month_day_year cal u g =
     Option.bind (month_num (capture g 1)) (\<lambda>month.
       let day = cal_ymd cal (int (num (capture g 3))) month (num (capture g 2))
       in interval day day PRECISION_DAY u)"

definition from_day_month_year :: "calendar \<Rightarrow> bool \<Rightarrow> captures \<Rightarrow> when_interval option" where
  "from_day_month_year cal u g =
     Option.bind (month_num (capture g 2)) (\<lambda>month.
       let day = cal_ymd cal (int (num (capture g 3))) month (num (capture g 1))
       in interval day day PRECISION_DAY u)"

definition from_month_year :: "calendar \<Rightarrow> bool \<Rightarrow> captures \<Rightarrow> when_interval option" where
  "from_month_year cal u g =
     Option.bind (month_num (capture g 1)) (\<lambda>month.
       let year = int (num (capture g 2))
       in interval (cal_ymd cal year month 1) (month_end cal year month) PRECISION_MONTH u)"

text \<open>A season is uncertain whatever the marker said; winter ends in the following year.\<close>

definition from_season :: "calendar \<Rightarrow> captures \<Rightarrow> when_interval option" where
  "from_season cal g =
     Option.bind (season_months (capture g 1)) (\<lambda>(start_month, end_month).
       let year = int (num (capture g 2));
           end_year = (if end_month < start_month then year + 1 else year)
       in interval (cal_ymd cal year start_month 1) (month_end cal end_year end_month) PRECISION_MONTH True)"

definition parse_cleaned :: "calendar \<Rightarrow> bool \<Rightarrow> string \<Rightarrow> when_interval option" where
  "parse_cleaned cal u s =
     (case re_captures False re_iso_day s of Some g \<Rightarrow> from_iso_day cal u g | None \<Rightarrow>
     (case re_captures False re_iso_month s of Some g \<Rightarrow> from_iso_month cal u g | None \<Rightarrow>
     (case re_captures False re_year_range s of Some g \<Rightarrow> from_year_range cal u g | None \<Rightarrow>
     (case re_captures False re_year s of Some g \<Rightarrow> from_year cal u g | None \<Rightarrow>
     (case re_captures True re_month_range s of Some g \<Rightarrow> from_month_range cal u g | None \<Rightarrow>
     (case re_captures True re_month_day_year s of Some g \<Rightarrow> from_month_day_year cal u g | None \<Rightarrow>
     (case re_captures True re_day_month_year s of Some g \<Rightarrow> from_day_month_year cal u g | None \<Rightarrow>
     (case re_captures True re_month_year s of Some g \<Rightarrow> from_month_year cal u g | None \<Rightarrow>
     (case re_captures True re_season s of Some g \<Rightarrow> from_season cal g | None \<Rightarrow> None)))))))))"

definition parse_when :: "calendar \<Rightarrow> string \<Rightarrow> when_interval option" where
  "parse_when cal text =
     (let cleaned = trim text in
      if cleaned = [] then None
      else
        let hedged = re_strip True re_circa cleaned in
        if hedged \<noteq> cleaned
        then (let rest = trim hedged in if rest = [] then None else parse_cleaned cal True rest)
        else parse_cleaned cal False cleaned)"

section \<open>Rules\<close>

definition default_severity :: string where
  "default_severity = ''warn''"

record order_rule =
  or_before :: string
  or_after :: string
  or_severity :: string

record contains_rule =
  cr_outer :: string
  cr_inner :: string
  cr_severity :: string

record overlap_rule =
  vr_a :: string
  vr_b :: string
  vr_severity :: string

record deadline_rule =
  dr_key :: string
  dr_due_from :: string
  dr_within_days :: int
  dr_severity :: string

record duration_rule =
  ur_start :: string
  ur_end :: string
  ur_min_days :: "int option"
  ur_max_days :: "int option"
  ur_severity :: string

record chronology_rules =
  cr_order :: "order_rule list"
  cr_contains :: "contains_rule list"
  cr_forbid_overlap :: "overlap_rule list"
  cr_deadlines :: "deadline_rule list"
  cr_durations :: "duration_rule list"
  cr_temporal_keys :: "string list"

definition chronology_rules_default :: chronology_rules where
  "chronology_rules_default = \<lparr>cr_order = [], cr_contains = [], cr_forbid_overlap = [], cr_deadlines = [],
     cr_durations = [], cr_temporal_keys = []\<rparr>"

definition all_targets :: "chronology_rules \<Rightarrow> string list" where
  "all_targets rs =
     concat (map (\<lambda>r. [or_before r, or_after r]) (cr_order rs)) @
     concat (map (\<lambda>r. [cr_outer r, cr_inner r]) (cr_contains rs)) @
     concat (map (\<lambda>r. [vr_a r, vr_b r]) (cr_forbid_overlap rs)) @
     concat (map (\<lambda>r. [dr_key r, dr_due_from r]) (cr_deadlines rs)) @
     concat (map (\<lambda>r. [ur_start r, ur_end r]) (cr_durations rs))"

text \<open>An absolute target names one \<open>subject.key\<close>.\<close>

definition is_absolute_target :: "string \<Rightarrow> bool" where
  "is_absolute_target target \<longleftrightarrow> CHR ''.'' \<in> set target \<and> CHR ''*'' \<notin> set target"

definition absolute_targets :: "chronology_rules \<Rightarrow> string list" where
  "absolute_targets rs = map to_lower (filter is_absolute_target (all_targets rs))"

definition DEFAULT_TEMPORAL_KEY_PATTERNS :: "string list" where
  "DEFAULT_TEMPORAL_KEY_PATTERNS = [''*_date'', ''*_on'', ''date_*'', ''*_deadline'', ''*_due'', ''*_when'']"

text \<open>The scan of the literal parts after the first: each at its first place after \<open>pos\<close>.\<close>

fun scan_parts :: "string list \<Rightarrow> string \<Rightarrow> bool" where
  "scan_parts [] rest = True"
| "scan_parts (part # parts) rest =
     (if part = [] then scan_parts parts rest
      else (case find_sub rest part of
          Some found \<Rightarrow> scan_parts parts (drop (found + length part) rest)
        | None \<Rightarrow> False))"

definition key_pattern_matches :: "string \<Rightarrow> string \<Rightarrow> bool" where
  "key_pattern_matches pattern0 key0 =
     (let key = to_lower key0; pattern = to_lower pattern0;
          parts = split_on (\<lambda>c. c = CHR ''*'') pattern
      in if hd parts \<noteq> [] \<and> \<not> starts_with key (hd parts) then False
         else if \<not> scan_parts (tl parts) (drop (length (hd parts)) key) then False
         else if last parts \<noteq> [] \<and> \<not> ends_with key (last parts) then False
         else if last parts \<noteq> [] \<and> length parts = 1 then key = pattern
         else True)"

definition is_temporal_key :: "chronology_rules \<Rightarrow> string \<Rightarrow> bool" where
  "is_temporal_key rs key =
     (let patterns = (if cr_temporal_keys rs = [] then DEFAULT_TEMPORAL_KEY_PATTERNS else cr_temporal_keys rs)
      in \<exists>p \<in> set patterns. key_pattern_matches p key)"

section \<open>Events and evaluation\<close>

record chrono_event =
  ce_subject :: string
  ce_key :: string
  ce_value :: string
  ce_when :: when_interval
  ce_claim_id :: "string option"
  ce_origin :: string

record chrono_violation =
  cv_kind :: string
  cv_severity :: string
  cv_message :: string
  cv_rule :: json
  cv_chain :: "json list"
  cv_extras :: "(string \<times> json) list"
  cv_candidate_claims :: "string list"

definition event_key :: "chrono_event \<Rightarrow> string" where
  "event_key e = claim_key_of (ce_subject e) (ce_key e)"

definition event_detail :: "calendar \<Rightarrow> string \<Rightarrow> chrono_event \<Rightarrow> json" where
  "event_detail cal role e = jobj [(''role'', JStr role), (''claim_id'', jopt JStr (ce_claim_id e)),
     (''claim'', JStr (event_key e)), (''value'', JStr (ce_value e)), (''when'', when_json cal (ce_when e)),
     (''origin'', JStr (ce_origin e))]"

definition target_matches :: "string \<Rightarrow> chrono_event \<Rightarrow> bool" where
  "target_matches target e =
     (if is_absolute_target target then to_lower (event_key e) = to_lower target
      else key_pattern_matches target (ce_key e))"

definition may_pair :: "string \<Rightarrow> string \<Rightarrow> chrono_event \<Rightarrow> chrono_event \<Rightarrow> bool" where
  "may_pair target_a target_b ea eb \<longleftrightarrow>
     target_matches target_a ea \<and> event_key eb \<noteq> event_key ea \<and> target_matches target_b eb \<and>
     (is_absolute_target target_a \<or> is_absolute_target target_b \<or> ce_subject ea = ce_subject eb)"

definition event_pairs :: "chrono_event list \<Rightarrow> string \<Rightarrow> string \<Rightarrow> (chrono_event \<times> chrono_event) list" where
  "event_pairs events target_a target_b =
     concat (map (\<lambda>ea. map (Pair ea) (filter (may_pair target_a target_b ea) events)) events)"

definition is_candidate :: "chrono_event \<Rightarrow> bool" where
  "is_candidate e \<longleftrightarrow> ce_origin e = ''candidate''"

definition involves_candidate :: "chrono_event list \<Rightarrow> bool" where
  "involves_candidate events = list_ex is_candidate events"

definition candidate_claims_of :: "chrono_event list \<Rightarrow> string list" where
  "candidate_claims_of events = map event_key (filter is_candidate events)"

text \<open>\<open>subject.key=value\<close> between apostrophes, as the messages print an event.\<close>

definition shown :: "chrono_event \<Rightarrow> string" where
  "shown e = quoted (event_key e @ ''='' @ ce_value e)"

definition order_violation :: "calendar \<Rightarrow> order_rule \<Rightarrow> chrono_event \<Rightarrow> chrono_event \<Rightarrow> chrono_violation" where
  "order_violation cal r b a = \<lparr>cv_kind = ''order'', cv_severity = or_severity r,
     cv_message = ''chronology: '' @ shown a @ '' must come after '' @ shown b @ '' but is definitely before it'',
     cv_rule = jobj [(''order'', jobj [(''before'', JStr (or_before r)), (''after'', JStr (or_after r))])],
     cv_chain = [event_detail cal ''before'' b, event_detail cal ''after'' a], cv_extras = [],
     cv_candidate_claims = candidate_claims_of [b, a]\<rparr>"

definition order_violations :: "calendar \<Rightarrow> chrono_event list \<Rightarrow> order_rule \<Rightarrow> chrono_violation list" where
  "order_violations cal events r =
     List.map_filter (\<lambda>(b, a). if \<not> involves_candidate [b, a] then None
         else if definitely_before (ce_when a) (ce_when b) then Some (order_violation cal r b a) else None)
       (event_pairs events (or_before r) (or_after r))"

definition contains_violation :: "calendar \<Rightarrow> contains_rule \<Rightarrow> chrono_event \<Rightarrow> chrono_event \<Rightarrow> chrono_violation" where
  "contains_violation cal r outer inner = \<lparr>cv_kind = ''contains'', cv_severity = cr_severity r,
     cv_message = ''chronology: '' @ shown inner @ '' must fall within '' @ shown outer
       @ '' but is definitely outside it'',
     cv_rule = jobj [(''contains'', jobj [(''outer'', JStr (cr_outer r)), (''inner'', JStr (cr_inner r))])],
     cv_chain = [event_detail cal ''outer'' outer, event_detail cal ''inner'' inner], cv_extras = [],
     cv_candidate_claims = candidate_claims_of [outer, inner]\<rparr>"

definition contains_violations :: "calendar \<Rightarrow> chrono_event list \<Rightarrow> contains_rule \<Rightarrow> chrono_violation list" where
  "contains_violations cal events r =
     List.map_filter (\<lambda>(outer, inner). if \<not> involves_candidate [outer, inner] then None
         else let certain = \<not> w_uncertain (ce_when outer) \<and> \<not> w_uncertain (ce_when inner)
              in if certain \<and> \<not> overlaps (ce_when inner) (ce_when outer)
                 then Some (contains_violation cal r outer inner) else None)
       (event_pairs events (cr_outer r) (cr_inner r))"

definition pair_id :: "chrono_event \<Rightarrow> chrono_event \<Rightarrow> string \<times> string" where
  "pair_id a b = (min (event_key a) (event_key b), max (event_key a) (event_key b))"

definition overlap_violation :: "calendar \<Rightarrow> overlap_rule \<Rightarrow> chrono_event \<Rightarrow> chrono_event \<Rightarrow> chrono_violation" where
  "overlap_violation cal r a b = \<lparr>cv_kind = ''overlap'', cv_severity = vr_severity r,
     cv_message = ''chronology: '' @ shown a @ '' and '' @ shown b @ '' must not overlap but definitely do'',
     cv_rule = jobj [(''forbid_overlap'', jobj [(''a'', JStr (vr_a r)), (''b'', JStr (vr_b r))])],
     cv_chain = [event_detail cal ''a'' a, event_detail cal ''b'' b], cv_extras = [],
     cv_candidate_claims = candidate_claims_of [a, b]\<rparr>"

definition definite_day :: "when_interval \<Rightarrow> bool" where
  "definite_day w \<longleftrightarrow> \<not> w_uncertain w \<and> w_precision w = PRECISION_DAY"

text \<open>A pair met again in the other order is skipped; \<open>seen\<close> holds the unordered pairs met.\<close>

fun overlap_scan :: "calendar \<Rightarrow> overlap_rule \<Rightarrow> (string \<times> string) list \<Rightarrow> (chrono_event \<times> chrono_event) list \<Rightarrow>
    chrono_violation list" where
  "overlap_scan cal r seen [] = []"
| "overlap_scan cal r seen ((a, b) # ps) =
     (if pair_id a b \<in> set seen then overlap_scan cal r seen ps
      else
        (if involves_candidate [a, b] \<and> definite_day (ce_when a) \<and> definite_day (ce_when b) \<and>
            overlaps (ce_when a) (ce_when b)
         then [overlap_violation cal r a b] else [])
        @ overlap_scan cal r (pair_id a b # seen) ps)"

definition overlap_violations :: "calendar \<Rightarrow> chrono_event list \<Rightarrow> overlap_rule \<Rightarrow> chrono_violation list" where
  "overlap_violations cal events r = overlap_scan cal r [] (event_pairs events (vr_a r) (vr_b r))"

definition deadline_doc :: "deadline_rule \<Rightarrow> json" where
  "deadline_doc r = jobj [(''deadline'', jobj [(''key'', JStr (dr_key r)), (''due_from'', JStr (dr_due_from r)),
     (''within_days'', jint (dr_within_days r))])]"

definition late_violation :: "calendar \<Rightarrow> deadline_rule \<Rightarrow> int \<Rightarrow> chrono_event \<Rightarrow> chrono_event \<Rightarrow> chrono_violation" where
  "late_violation cal r deadline from_ev key_ev = \<lparr>cv_kind = ''deadline'', cv_severity = dr_severity r,
     cv_message = ''chronology: '' @ shown key_ev @ '' is definitely later than the deadline ''
       @ cal_show cal deadline @ '' ('' @ dec_int (dr_within_days r) @ '' days after '' @ shown from_ev @ '')'',
     cv_rule = deadline_doc r,
     cv_chain = [event_detail cal ''due_from'' from_ev, event_detail cal ''event'' key_ev],
     cv_extras = [(''deadline'', JStr (cal_show cal deadline))],
     cv_candidate_claims = candidate_claims_of [from_ev, key_ev]\<rparr>"

definition absent_violation :: "calendar \<Rightarrow> string \<Rightarrow> deadline_rule \<Rightarrow> int \<Rightarrow> int \<Rightarrow> chrono_event \<Rightarrow> chrono_violation" where
  "absent_violation cal dash r deadline clock from_ev = \<lparr>cv_kind = ''deadline'', cv_severity = dr_severity r,
     cv_message = ''chronology: no '' @ quoted (dr_key r) @ '' event within '' @ dec_int (dr_within_days r)
       @ '' days of '' @ shown from_ev @ '' '' @ dash @ '' deadline '' @ cal_show cal deadline
       @ '' passed as of '' @ cal_show cal clock,
     cv_rule = deadline_doc r,
     cv_chain = [event_detail cal ''due_from'' from_ev],
     cv_extras = [(''deadline'', JStr (cal_show cal deadline)), (''now'', JStr (cal_show cal clock))],
     cv_candidate_claims = candidate_claims_of [from_ev]\<rparr>"

definition key_events :: "chrono_event list \<Rightarrow> deadline_rule \<Rightarrow> chrono_event \<Rightarrow> chrono_event list" where
  "key_events events r from_ev =
     filter (\<lambda>e. event_key e \<noteq> event_key from_ev \<and> target_matches (dr_key r) e \<and>
       (is_absolute_target (dr_key r) \<or> is_absolute_target (dr_due_from r) \<or> ce_subject e = ce_subject from_ev)) events"

definition deadline_for :: "calendar \<Rightarrow> string \<Rightarrow> chrono_event list \<Rightarrow> int option \<Rightarrow> deadline_rule \<Rightarrow> chrono_event \<Rightarrow>
    chrono_violation list" where
  "deadline_for cal dash events now r from_ev =
     (if \<not> target_matches (dr_due_from r) from_ev \<or> w_uncertain (ce_when from_ev) then []
      else (case cal_add_days cal (w_end (ce_when from_ev)) (dr_within_days r) of
          None \<Rightarrow> []
        | Some deadline \<Rightarrow>
            let kes = key_events events r from_ev in
            if kes \<noteq> [] then
              List.map_filter (\<lambda>key_ev. if \<not> involves_candidate [from_ev, key_ev] then None
                else if \<not> w_uncertain (ce_when key_ev) \<and> deadline < w_start (ce_when key_ev)
                then Some (late_violation cal r deadline from_ev key_ev) else None) kes
            else (case now of
                None \<Rightarrow> []
              | Some clock \<Rightarrow>
                  if deadline < clock then [absent_violation cal dash r deadline clock from_ev] else [])))"

definition deadline_violations :: "calendar \<Rightarrow> string \<Rightarrow> chrono_event list \<Rightarrow> int option \<Rightarrow> deadline_rule \<Rightarrow>
    chrono_violation list" where
  "deadline_violations cal dash events now r = concat (map (deadline_for cal dash events now r) events)"

text \<open>The least and greatest number of days that may have passed, and what is wrong with them.\<close>

definition gap_min :: "when_interval \<Rightarrow> when_interval \<Rightarrow> int" where
  "gap_min f t = w_start t - w_end f"

definition gap_max :: "when_interval \<Rightarrow> when_interval \<Rightarrow> int" where
  "gap_max f t = w_end t - w_start f"

definition duration_problem :: "duration_rule \<Rightarrow> int \<Rightarrow> int \<Rightarrow> string option" where
  "duration_problem r lo hi =
     (case Option.bind (ur_max_days r) (\<lambda>m. if m < lo then Some m else None) of
        Some m \<Rightarrow> Some (''definitely exceeds max_days='' @ dec_int m)
      | None \<Rightarrow> (case Option.bind (ur_min_days r) (\<lambda>m. if hi < m then Some m else None) of
          Some m \<Rightarrow> Some (''definitely under min_days='' @ dec_int m)
        | None \<Rightarrow> None))"

definition duration_violation :: "calendar \<Rightarrow> duration_rule \<Rightarrow> chrono_event \<Rightarrow> chrono_event \<Rightarrow> string \<Rightarrow>
    chrono_violation" where
  "duration_violation cal r from_ev to_ev problem =
     (let lo = gap_min (ce_when from_ev) (ce_when to_ev); hi = gap_max (ce_when from_ev) (ce_when to_ev) in
      \<lparr>cv_kind = ''duration'', cv_severity = ur_severity r,
       cv_message = ''chronology: elapsed days from '' @ shown from_ev @ '' to '' @ shown to_ev
         @ '' (between '' @ dec_int lo @ '' and '' @ dec_int hi @ '') '' @ problem,
       cv_rule = jobj [(''duration'', jobj [(''from'', JStr (ur_start r)), (''to'', JStr (ur_end r)),
         (''min_days'', jopt jint (ur_min_days r)), (''max_days'', jopt jint (ur_max_days r))])],
       cv_chain = [event_detail cal ''from'' from_ev, event_detail cal ''to'' to_ev],
       cv_extras = [(''gap_days_max'', jint hi), (''gap_days_min'', jint lo)],
       cv_candidate_claims = candidate_claims_of [from_ev, to_ev]\<rparr>)"

definition duration_violations :: "calendar \<Rightarrow> chrono_event list \<Rightarrow> duration_rule \<Rightarrow> chrono_violation list" where
  "duration_violations cal events r =
     List.map_filter (\<lambda>(f, t). if \<not> involves_candidate [f, t] then None
         else if w_uncertain (ce_when f) \<or> w_uncertain (ce_when t) then None
         else map_option (duration_violation cal r f t)
           (duration_problem r (gap_min (ce_when f) (ce_when t)) (gap_max (ce_when f) (ce_when t))))
       (event_pairs events (ur_start r) (ur_end r))"

definition evaluate :: "calendar \<Rightarrow> string \<Rightarrow> chrono_event list \<Rightarrow> chronology_rules \<Rightarrow> int option \<Rightarrow>
    chrono_violation list" where
  "evaluate cal dash events0 rules now =
     (let events = sort_key (\<lambda>e. (ce_subject e, ce_key e)) events0 in
      concat (map (order_violations cal events) (cr_order rules)) @
      concat (map (contains_violations cal events) (cr_contains rules)) @
      concat (map (overlap_violations cal events) (cr_forbid_overlap rules)) @
      concat (map (deadline_violations cal dash events now) (cr_deadlines rules)) @
      concat (map (duration_violations cal events) (cr_durations rules)))"

section \<open>The gate\<close>

type_synonym timeline = "(string \<times> chrono_event) list"

text \<open>The closure \<open>consider\<close>: an assertion of a relevant key enters the timeline, replacing the
  earlier one; one that does not parse drops the key.\<close>

definition consider_assertion :: "calendar \<Rightarrow> chronology_rules \<Rightarrow> string \<Rightarrow> string \<Rightarrow> string \<Rightarrow> string option \<Rightarrow> string \<Rightarrow>
    timeline \<Rightarrow> timeline" where
  "consider_assertion cal rules subject key val claim_id origin tl0 =
     (let ck = claim_key_of subject key in
      if \<not> (is_temporal_key rules key \<or> to_lower ck \<in> set (absolute_targets rules)) then tl0
      else (case parse_when cal val of
          Some w \<Rightarrow> bt_insert ck \<lparr>ce_subject = subject, ce_key = key, ce_value = val, ce_when = w,
            ce_claim_id = claim_id, ce_origin = origin\<rparr> tl0
        | None \<Rightarrow> bt_remove ck tl0))"

definition consider_fact :: "calendar \<Rightarrow> chronology_rules \<Rightarrow> claim \<Rightarrow> timeline \<Rightarrow> timeline" where
  "consider_fact cal rules f tl0 =
     (if c_subject f \<noteq> [] \<or> c_key f \<noteq> []
      then consider_assertion cal rules (c_subject f) (c_key f) (c_value f) (Some (c_id f)) ''ledger'' tl0 else tl0)"

definition consider_proposed :: "calendar \<Rightarrow> chronology_rules \<Rightarrow> proposed_claim \<Rightarrow> timeline \<Rightarrow> timeline" where
  "consider_proposed cal rules p tl0 =
     consider_assertion cal rules (pc_subject p) (pc_key p) (pc_value p) None ''candidate'' tl0"

definition build_timeline :: "calendar \<Rightarrow> chronology_rules \<Rightarrow> mesh_snapshot \<Rightarrow> candidate \<Rightarrow> timeline" where
  "build_timeline cal rules sn cand =
     fold (consider_proposed cal rules) (cand_claims cand @ cand_corrections cand)
       (fold (consider_fact cal rules) (sn_facts sn) [])"

definition chronology_rule_id :: "string \<Rightarrow> string" where
  "chronology_rule_id kind =
     (if kind = ''deadline'' then ''gate.chronology-deadline''
      else if kind = ''duration'' then ''gate.chronology-duration'' else ''gate.chronology-order'')"

definition chronology_finding :: "string option \<Rightarrow> chrono_violation \<Rightarrow> gate_finding" where
  "chronology_finding scope v = \<lparr>
     f_rule_id = chronology_rule_id (cv_kind v),
     f_severity = (if cv_severity v = ''block'' then Block else Warn),
     f_message = cv_message v,
     f_scope_path = scope,
     f_detail = Some (jobj ([(''kind'', JStr (cv_kind v)), (''rule'', cv_rule v), (''chain'', JArr (cv_chain v))]
       @ cv_extras v
       @ (if cv_candidate_claims v = [] then [] else [(''claim_key'', JStr (last (cv_candidate_claims v)))])))\<rparr>"

definition check_chronology :: "calendar \<Rightarrow> string \<Rightarrow> mesh_snapshot \<Rightarrow> candidate \<Rightarrow> chronology_rules \<Rightarrow> int option \<Rightarrow>
    gate_finding list" where
  "check_chronology cal dash sn cand rules now =
     (let tl0 = build_timeline cal rules sn cand in
      if tl0 = [] then []
      else map (chronology_finding (cand_scope_path cand)) (evaluate cal dash (map snd tl0) rules now))"

end
