(* ===== verification/Chronology_Properties.thy ===== *)
theory Chronology_Properties
  imports Chronology
begin

text \<open>
  What the chronology gate guarantees: the parser's intervals are ordered, wildcard keys match
  as wildcards, every kind of violation is filed exactly when a certain one exists, and the
  timeline holds the latest assertion of each key.
\<close>

section \<open>The calendar\<close>

text \<open>What the model relies on of \<open>chrono\<close>: later dates have greater day numbers, the
  predecessor of a day is the day before, adding a span adds its days.\<close>

definition calendar_ok :: "calendar \<Rightarrow> bool" where
  "calendar_ok cal \<longleftrightarrow>
     (\<forall>y m d a y' m' d' b. cal_ymd cal y m d = Some a \<longrightarrow> cal_ymd cal y' m' d' = Some b \<longrightarrow>
        (y, m, d) < (y', m', d') \<longrightarrow> a < b) \<and>
     (\<forall>d e. cal_pred cal d = Some e \<longrightarrow> e = d - 1) \<and>
     (\<forall>d n e. cal_add_days cal d n = Some e \<longrightarrow> e = d + n)"

text \<open>The proleptic Gregorian calendar from year 0 on is one.\<close>

definition leap :: "int \<Rightarrow> bool" where
  "leap y \<longleftrightarrow> 4 dvd y \<and> (100 dvd y \<longrightarrow> 400 dvd y)"

definition month_days :: "int \<Rightarrow> nat list" where
  "month_days y = [31, if leap y then 29 else 28, 31, 30, 31, 30, 31, 31, 30, 31, 30, 31]"

definition days_before :: "int \<Rightarrow> int" where
  "days_before y = 365 * y + (y - 1) div 4 - (y - 1) div 100 + (y - 1) div 400"

definition gregorian_ymd :: "int \<Rightarrow> nat \<Rightarrow> nat \<Rightarrow> int option" where
  "gregorian_ymd y m d =
     (if 1 \<le> m \<and> m \<le> 12 \<and> 1 \<le> d \<and> d \<le> month_days y ! (m - 1)
      then Some (days_before y + int (sum_list (take (m - 1) (month_days y)) + d)) else None)"

definition gregorian :: calendar where
  "gregorian = \<lparr>cal_ymd = gregorian_ymd, cal_pred = (\<lambda>d. Some (d - 1)),
     cal_add_days = (\<lambda>d n. Some (d + n)), cal_show = dec_int\<rparr>"

lemma sum_month_days: "sum_list (month_days y) = (if leap y then 366 else 365)"
  by (simp add: month_days_def)

lemma div_step: "0 < k \<Longrightarrow> y div k - (y - 1) div k = (if k dvd y then 1 else (0 :: int))"
proof -
  assume k: "0 < k"
  show ?thesis
  proof (cases "k dvd y")
    case True
    then obtain q where "y = k * q" by blast
    moreover have "(k * q - 1) div k = q - 1"
      using k int_div_pos_eq[of "k * q - 1" k "q - 1" "k - 1"] by (simp add: algebra_simps)
    ultimately show ?thesis using k by simp
  next
    case False
    then have "0 < y mod k" using k pos_mod_sign[of k y] by (simp add: dvd_eq_mod_eq_0 order_less_le)
    have e: "y - 1 = k * (y div k) + (y mod k - 1)" using mult_div_mod_eq[of k y] by linarith
    have "(y - 1) div k = y div k"
      using e \<open>0 < y mod k\<close> pos_mod_bound[OF k, of y]
      by (intro int_div_pos_eq[of "y - 1" k "y div k" "y mod k - 1"]) linarith+
    with False show ?thesis by simp
  qed
qed

lemma days_before_Suc: "days_before (y + 1) = days_before y + int (sum_list (month_days y))"
proof -
  have "y div 4 - (y - 1) div 4 = (if 4 dvd y then 1 else 0)"
    "y div 100 - (y - 1) div 100 = (if 100 dvd y then 1 else 0)"
    "y div 400 - (y - 1) div 400 = (if 400 dvd y then 1 else 0)"
    by (simp_all add: div_step)
  moreover have "400 dvd y \<Longrightarrow> 100 dvd y" "100 dvd y \<Longrightarrow> 4 dvd y"
    using dvd_trans[of 100 400 y] dvd_trans[of 4 100 y] by simp_all
  ultimately show ?thesis
    by (auto simp: days_before_def sum_month_days leap_def algebra_simps split: if_splits)
qed

lemma days_before_mono: "y \<le> z \<Longrightarrow> days_before y \<le> days_before z"
proof (induction z rule: int_ge_induct)
  case (step z)
  then show ?case by (simp add: days_before_Suc)
qed simp

lemma take_sum_le: "sum_list (take i xs) \<le> sum_list (xs :: nat list)"
  by (metis append_take_drop_id le_add1 sum_list_append)

lemma take_sum_step: "i < length xs \<Longrightarrow> sum_list (take i xs) + xs ! i = sum_list (take (Suc i) (xs :: nat list))"
  by (simp add: take_Suc_conv_app_nth)

lemma take_sum_mono: "i \<le> j \<Longrightarrow> sum_list (take i xs) \<le> sum_list (take j (xs :: nat list))"
  by (metis min.absorb1 take_sum_le take_take)

lemma gregorian_monotone:
  assumes a: "gregorian_ymd y m d = Some a" and b: "gregorian_ymd y' m' d' = Some b"
    and less: "(y, m, d) < (y', m', d')"
  shows "a < b"
proof -
  have la: "length (month_days z) = 12" for z by (simp add: month_days_def)
  have m: "1 \<le> m" "m \<le> 12" "1 \<le> d" "d \<le> month_days y ! (m - 1)"
    "a = days_before y + int (sum_list (take (m - 1) (month_days y)) + d)"
    using a by (auto simp: gregorian_ymd_def split: if_splits)
  have m': "1 \<le> m'" "m' \<le> 12" "1 \<le> d'"
    "b = days_before y' + int (sum_list (take (m' - 1) (month_days y')) + d')"
    using b by (auto simp: gregorian_ymd_def split: if_splits)
  have end0: "sum_list (take (m - 1) (month_days y)) + d \<le> sum_list (take m (month_days y))"
  proof -
    have "sum_list (take (m - 1) (month_days y)) + month_days y ! (m - 1) = sum_list (take m (month_days y))"
      using m take_sum_step[of "m - 1" "month_days y"] la[of y] by simp
    with m show ?thesis by linarith
  qed
  consider "y < y'" | "y = y'" "m < m'" | "y = y'" "m = m'" "d < d'" using less by (auto simp: le_less)
  then show ?thesis
  proof cases
    case 1
    have "a \<le> days_before y + int (sum_list (month_days y))"
      using m end0 take_sum_le[of m "month_days y"] by linarith
    also have "\<dots> = days_before (y + 1)" by (simp add: days_before_Suc)
    also have "\<dots> \<le> days_before y'" using 1 by (intro days_before_mono) simp
    also have "\<dots> < b" using m' by simp
    finally show ?thesis .
  next
    case 2
    have "sum_list (take m (month_days y)) \<le> sum_list (take (m' - 1) (month_days y))"
      using 2 by (intro take_sum_mono) simp
    with m m' end0 2 show ?thesis by simp
  next
    case 3
    with m m' show ?thesis by simp
  qed
qed

lemma gregorian_ok: "calendar_ok gregorian"
  unfolding calendar_ok_def gregorian_def using gregorian_monotone by auto

section \<open>Intervals\<close>

lemma calendar_less: "calendar_ok cal \<Longrightarrow> cal_ymd cal y m d = Some a \<Longrightarrow> cal_ymd cal y' m' d' = Some b \<Longrightarrow>
    (y, m, d) < (y', m', d') \<Longrightarrow> a < b"
  unfolding calendar_ok_def by blast

lemma calendar_le: "calendar_ok cal \<Longrightarrow> cal_ymd cal y m d = Some a \<Longrightarrow> cal_ymd cal y' m' d' = Some b \<Longrightarrow>
    (y, m, d) \<le> (y', m', d') \<Longrightarrow> a \<le> b"
  using calendar_less[of cal y m d a y' m' d' b] by (cases "(y, m, d) = (y', m', d')") auto

lemma month_end_after:
  assumes ok: "calendar_ok cal" and a: "cal_ymd cal y m 1 = Some a" and b: "month_end cal y' m' = Some b"
    and le: "(y, m) \<le> (y', m')"
  shows "a \<le> b"
proof (cases "m' = 12")
  case True
  with b have "cal_ymd cal y' 12 31 = Some b" by (simp add: month_end_def)
  from calendar_le[OF ok a this] le True show ?thesis by auto
next
  case False
  with b obtain n where n: "cal_ymd cal y' (m' + 1) 1 = Some n" "cal_pred cal n = Some b"
    by (auto simp: month_end_def bind_eq_Some_conv)
  have "a < n" using calendar_less[OF ok a n(1)] le by auto
  moreover have "b = n - 1" using ok n(2) by (simp add: calendar_ok_def)
  ultimately show ?thesis by simp
qed

definition interval_ok :: "when_interval \<Rightarrow> bool" where
  "interval_ok w \<longleftrightarrow> w_start w \<le> w_end w \<and> w_precision w \<in> {PRECISION_DAY, PRECISION_MONTH, PRECISION_YEAR}
     \<and> (w_precision w = PRECISION_DAY \<longrightarrow> w_start w = w_end w)"

lemma interval_Some: "interval a b p u = Some w \<longleftrightarrow>
    (\<exists>x y. a = Some x \<and> b = Some y \<and> w = \<lparr>w_start = x, w_end = y, w_precision = p, w_uncertain = u\<rparr>)"
  by (auto simp: interval_def bind_eq_Some_conv)

lemmas precisions = PRECISION_DAY_def PRECISION_MONTH_def PRECISION_YEAR_def

lemma interval_day_ok: "interval a a PRECISION_DAY u = Some w \<Longrightarrow> interval_ok w \<and> w_uncertain w = u"
  by (auto simp: interval_Some interval_ok_def)

lemma interval_months_ok:
  "calendar_ok cal \<Longrightarrow> interval (cal_ymd cal y m 1) (month_end cal y' m') PRECISION_MONTH u = Some w \<Longrightarrow>
   (y, m) \<le> (y', m') \<Longrightarrow> interval_ok w \<and> w_uncertain w = u"
  by (auto simp: interval_Some interval_ok_def precisions dest: month_end_after)

lemma interval_years_ok:
  "calendar_ok cal \<Longrightarrow> interval (cal_ymd cal y 1 1) (cal_ymd cal y' 12 31) PRECISION_YEAR u = Some w \<Longrightarrow>
   y \<le> y' \<Longrightarrow> interval_ok w \<and> w_uncertain w = u"
  by (auto simp: interval_Some interval_ok_def precisions dest: calendar_le)

lemma season_months_cases: "season_months s = Some (a, b) \<Longrightarrow> (a, b) \<in> {(3, 5), (6, 8), (9, 11), (12, 2)}"
  by (auto simp: season_months_def split: if_splits)

text \<open>Every branch yields an ordered interval that is uncertain when the text was hedged.\<close>

lemma from_season_ok:
  assumes ok: "calendar_ok cal" and w: "from_season cal g = Some w"
  shows "interval_ok w \<and> w_uncertain w"
proof -
  from w obtain a b y where s: "season_months (capture g 1) = Some (a, b)"
    and i: "interval (cal_ymd cal y a 1) (month_end cal (if b < a then y + 1 else y) b) PRECISION_MONTH True = Some w"
    by (auto simp: from_season_def bind_eq_Some_conv Let_def)
  show ?thesis using interval_months_ok[OF ok i] season_months_cases[OF s] by auto
qed

lemma from_iso_day_ok: "from_iso_day cal u g = Some w \<Longrightarrow> interval_ok w \<and> w_uncertain w = u"
  unfolding from_iso_day_def Let_def by (rule interval_day_ok)

lemma from_month_day_year_ok: "from_month_day_year cal u g = Some w \<Longrightarrow> interval_ok w \<and> w_uncertain w = u"
  unfolding from_month_day_year_def Let_def bind_eq_Some_conv by (blast dest: interval_day_ok)

lemma from_day_month_year_ok: "from_day_month_year cal u g = Some w \<Longrightarrow> interval_ok w \<and> w_uncertain w = u"
  unfolding from_day_month_year_def Let_def bind_eq_Some_conv by (blast dest: interval_day_ok)

lemma from_iso_month_ok: "calendar_ok cal \<Longrightarrow> from_iso_month cal u g = Some w \<Longrightarrow> interval_ok w \<and> w_uncertain w = u"
  unfolding from_iso_month_def Let_def by (metis interval_months_ok option.distinct(1) order_refl)

lemma from_month_year_ok: "calendar_ok cal \<Longrightarrow> from_month_year cal u g = Some w \<Longrightarrow> interval_ok w \<and> w_uncertain w = u"
  unfolding from_month_year_def Let_def bind_eq_Some_conv by (blast dest: interval_months_ok)

lemma from_month_range_ok:
  assumes ok: "calendar_ok cal" and w: "from_month_range cal u g = Some w"
  shows "interval_ok w \<and> w_uncertain w = u"
proof -
  from w obtain y a b where "\<not> b < a" and i: "interval (cal_ymd cal y a 1) (month_end cal y b) PRECISION_MONTH u = Some w"
    unfolding from_month_range_def Let_def bind_eq_Some_conv by (metis option.distinct(1))
  then show ?thesis using interval_months_ok[OF ok i] by auto
qed

lemma from_year_ok: "calendar_ok cal \<Longrightarrow> from_year cal u g = Some w \<Longrightarrow> interval_ok w \<and> w_uncertain w = u"
  unfolding from_year_def Let_def by (erule (1) interval_years_ok) simp

lemma from_year_range_ok:
  assumes ok: "calendar_ok cal" and w: "from_year_range cal u g = Some w"
  shows "interval_ok w \<and> w_uncertain w = u"
proof -
  from w obtain y z where "y \<le> z" and i: "interval (cal_ymd cal y 1 1) (cal_ymd cal z 12 31) PRECISION_YEAR u = Some w"
    unfolding from_year_range_def Let_def by (metis linorder_not_less option.distinct(1))
  then show ?thesis using interval_years_ok[OF ok i] by blast
qed

lemmas branches_ok = from_iso_month_ok from_year_range_ok from_year_ok from_month_range_ok
  from_month_year_ok from_season_ok

lemma parse_cleaned_ok:
  assumes ok: "calendar_ok cal" and w: "parse_cleaned cal u s = Some w"
  shows "interval_ok w \<and> (u \<longrightarrow> w_uncertain w)"
  using w unfolding parse_cleaned_def by (auto split: option.splits dest: from_iso_day_ok from_month_day_year_ok
      from_day_month_year_ok branches_ok[OF ok])

text \<open>C13. Whatever date text the grammar covers, the interval it denotes is ordered, has one of
  the three precisions, is a single day when its precision is a day, and is uncertain whenever
  the text carried a hedge such as circa.\<close>

theorem parsed_interval_ordered:
  assumes "calendar_ok cal" "parse_when cal s = Some w"
  shows "w_start w \<le> w_end w \<and> w_precision w \<in> {PRECISION_DAY, PRECISION_MONTH, PRECISION_YEAR}
    \<and> (w_precision w = PRECISION_DAY \<longrightarrow> w_start w = w_end w)
    \<and> (re_strip True re_circa (trim s) \<noteq> trim s \<longrightarrow> w_uncertain w)"
  using assms parse_cleaned_ok[OF assms(1)]
  by (auto simp: parse_when_def Let_def interval_ok_def split: if_splits)

lemma parsed_interval_ordered_witness:
  "\<exists>w. parse_when gregorian ''circa Feb 2020'' = Some w \<and> w_start w \<le> w_end w \<and> w_uncertain w"
proof -
  have "parse_when gregorian ''circa Feb 2020'' \<noteq> None" by code_simp
  then have p: "\<exists>w. parse_when gregorian ''circa Feb 2020'' = Some w" by blast
  have h: "re_strip True re_circa (trim ''circa Feb 2020'') \<noteq> trim ''circa Feb 2020''" by code_simp
  show ?thesis using p h parsed_interval_ordered[OF gregorian_ok] by blast
qed

section \<open>Wildcards\<close>

text \<open>The reference: a star stands for any text, every other character for itself.\<close>

fun wild :: "string \<Rightarrow> string \<Rightarrow> bool" where
  "wild [] k = (k = [])"
| "wild (c # p) [] = (c = CHR ''*'' \<and> wild p [])"
| "wild (c # p) (d # k) = (if c = CHR ''*'' then wild p (d # k) \<or> wild (c # p) k else c = d \<and> wild p k)"

text \<open>The parts of a pattern in a text, each after the other; all but the first may be preceded
  by anything, the last ends the text.\<close>

fun fits :: "string list \<Rightarrow> string \<Rightarrow> bool" where
  "fits [] k = False"
| "fits [w] k = (k = w)"
| "fits (w # v # ws) k = (\<exists>u r. k = w @ u @ r \<and> fits (v # ws) r)"

abbreviation star :: "char \<Rightarrow> bool" where
  "star \<equiv> \<lambda>c. c = CHR ''*''"

lemma wild_star: "wild (CHR ''*'' # p) k \<longleftrightarrow> (\<exists>u r. k = u @ r \<and> wild p r)"
proof (induction k)
  case (Cons d k)
  show ?case
  proof
    assume "wild (CHR ''*'' # p) (d # k)"
    then have "wild p (d # k) \<or> wild (CHR ''*'' # p) k" by simp
    then show "\<exists>u r. d # k = u @ r \<and> wild p r"
    proof
      assume "wild p (d # k)"
      then show ?thesis by (metis append_Nil)
    next
      assume "wild (CHR ''*'' # p) k"
      then obtain u r where "k = u @ r" "wild p r" using Cons.IH by blast
      then show ?thesis by (metis append_Cons)
    qed
  next
    assume "\<exists>u r. d # k = u @ r \<and> wild p r"
    then obtain u r where u: "d # k = u @ r" "wild p r" by blast
    show "wild (CHR ''*'' # p) (d # k)"
    proof (cases u)
      case Nil
      with u have "wild p (d # k)" by simp
      then show ?thesis by simp
    next
      case (Cons x u')
      with u have "k = u' @ r" by simp
      then show ?thesis using Cons.IH u(2) by auto
    qed
  qed
qed auto

lemma fits_Cons_char: "fits ((c # w) # ws) k \<longleftrightarrow> (\<exists>k'. k = c # k' \<and> fits (w # ws) k')"
  by (cases ws) auto

lemma wild_fits: "wild p k \<longleftrightarrow> fits (split_on star p) k"
proof (induction p arbitrary: k)
  case (Cons c p)
  obtain w ws where s: "split_on star p = w # ws" by (cases "split_on star p") auto
  show ?case
  proof (cases "c = CHR ''*''")
    case True
    then show ?thesis by (simp add: wild_star Cons.IH s)
  next
    case False
    then have "wild (c # p) k \<longleftrightarrow> (\<exists>k'. k = c # k' \<and> wild p k')" by (cases k) auto
    with False show ?thesis by (simp add: s fits_Cons_char Cons.IH)
  qed
qed simp

text \<open>The greedy scan against the parts, and the check of the end of the text.\<close>

definition tail_fits :: "string list \<Rightarrow> string \<Rightarrow> bool" where
  "tail_fits ws rest \<longleftrightarrow> (\<exists>u r. rest = u @ r \<and> fits ws r)"

lemma tail_fits_suffix: "tail_fits ws rest \<Longrightarrow> tail_fits ws (x @ rest)"
  unfolding tail_fits_def by (metis append_assoc)

lemma scan_last_length: "ws \<noteq> [] \<Longrightarrow> scan_parts ws rest \<Longrightarrow> length (last ws) \<le> length rest"
proof (induction ws arbitrary: rest)
  case (Cons w ws)
  show ?case
  proof (cases "w = []")
    case True
    with Cons show ?thesis by (cases "ws = []") auto
  next
    case False
    with Cons.prems obtain i where i: "find_sub rest w = Some i" "scan_parts ws (drop (i + length w) rest)"
      by (auto split: option.splits)
    from find_sub_Some_D[OF i(1)] obtain a b where "rest = a @ w @ b" "length a = i" by blast
    with i Cons.IH[of b] show ?thesis by (cases "ws = []") auto
  qed
qed simp

lemma ends_with_suffix: "length w \<le> length b \<Longrightarrow> ends_with (a @ b) w \<longleftrightarrow> ends_with b w"
  by (simp add: ends_with_def starts_with_def)

lemma suffix_cases:
  assumes e: "a @ w @ b = u @ w @ r" and l: "length a \<le> length u"
  shows "\<exists>x. b = x @ r"
proof -
  have "length (a @ w @ b) = length (u @ w @ r)" by (simp only: e)
  with l have "length r \<le> length b" by simp
  moreover have "drop (length (a @ w)) (a @ w @ b) = b" "drop (length (u @ w)) (u @ w @ r) = r" by simp_all
  ultimately have "r = drop (length (u @ w) - length (a @ w)) b"
    using l by (metis add_le_mono1 append_assoc drop_drop e le_add_diff_inverse2 length_append)
  then show ?thesis by (metis append_take_drop_id)
qed

lemma scan_tail_fits:
  "ws \<noteq> [] \<Longrightarrow> scan_parts ws rest \<and> (last ws \<noteq> [] \<longrightarrow> ends_with rest (last ws)) \<longleftrightarrow> tail_fits ws rest"
proof (induction ws arbitrary: rest)
  case (Cons w ws)
  show ?case
  proof (cases ws)
    case Nil
    have "ends_with rest w \<Longrightarrow> find_sub rest w \<noteq> None"
      unfolding ends_with_iff find_sub_None_iff by (metis append_Nil2)
    then show ?thesis by (auto simp: Nil tail_fits_def ends_with_iff split: option.splits)
  next
    case (Cons v vs)
    note ws = this
    have l: "last (w # ws) = last ws" using ws by simp
    show ?thesis
    proof (cases "w = []")
      case True
      have "tail_fits ([] # ws) rest \<longleftrightarrow> tail_fits ws rest"
        unfolding tail_fits_def ws fits.simps append_Nil by (metis append_assoc append_Nil)
      then show ?thesis using Cons.IH[of rest] ws l True by simp
    next
      case w: False
      show ?thesis
      proof (cases "find_sub rest w")
        case None
        then have "\<not> tail_fits (w # ws) rest"
          by (auto simp: find_sub_None_iff tail_fits_def ws)
        with None w show ?thesis by simp
      next
        case (Some i)
        from find_sub_Some_D[OF Some] obtain a b where ab: "rest = a @ w @ b" "length a = i" by blast
        have "scan_parts (w # ws) rest \<longleftrightarrow> scan_parts ws b" using Some w ab by simp
        moreover have "scan_parts ws b \<Longrightarrow> ends_with rest (last ws) \<longleftrightarrow> ends_with b (last ws)"
          using scan_last_length[of ws b] ends_with_suffix[of "last ws" b "a @ w"] ws ab by simp
        moreover have "tail_fits (w # ws) rest \<longleftrightarrow> tail_fits ws b"
        proof
          assume "tail_fits (w # ws) rest"
          then obtain u r where u: "rest = u @ w @ r" "tail_fits ws r"
            unfolding tail_fits_def ws by auto
          have "i \<le> length u" using find_sub_first[OF u(1)] Some by simp
          with suffix_cases[of a w b u r] ab u obtain x where "b = x @ r" by auto
          with u(2) show "tail_fits ws b" by (simp add: tail_fits_suffix)
        next
          assume "tail_fits ws b"
          then show "tail_fits (w # ws) rest" unfolding tail_fits_def ws ab by auto
        qed
        ultimately show ?thesis using Cons.IH[of b] ws l by auto
      qed
    qed
  qed
qed simp

text \<open>C14. A key pattern matches as a wildcard: for every pattern but the empty one, a key
  matches exactly when, ignoring case, it is the pattern with each star replaced by some text;
  the empty pattern matches every key.\<close>

theorem key_pattern_is_wildcard:
  "key_pattern_matches p k = (p = [] \<or> wild (to_lower p) (to_lower k))"
proof -
  define q where "q = to_lower p"
  define l where "l = to_lower k"
  obtain w ws where s: "split_on star q = w # ws" by (cases "split_on star q") auto
  have pe: "p = [] \<longleftrightarrow> q = []" by (simp add: q_def to_lower_def)
  have d: "key_pattern_matches p k \<longleftrightarrow> (w \<noteq> [] \<longrightarrow> starts_with l w) \<and> scan_parts ws (drop (length w) l) \<and>
      (last (w # ws) \<noteq> [] \<longrightarrow> ends_with l (last (w # ws))) \<and> (last (w # ws) \<noteq> [] \<and> ws = [] \<longrightarrow> l = q)"
    unfolding key_pattern_matches_def Let_def q_def[symmetric] l_def[symmetric] s by auto
  show ?thesis
  proof (cases "ws = []")
    case True
    then have "\<not> (\<exists>c \<in> set q. star c)" using split_on_filter_length[of star q] s by (auto simp: filter_empty_conv)
    then have "w = q" using split_on_no_sep[of q star] s True by auto
    with d True show ?thesis unfolding pe q_def[symmetric] l_def[symmetric] wild_fits s
      by (auto simp: ends_with_def)
  next
    case False
    have "q \<noteq> []" using s False by auto
    have "wild q l \<longleftrightarrow> starts_with l w \<and> tail_fits ws (drop (length w) l)"
      unfolding wild_fits s tail_fits_def starts_with_iff using False by (cases ws) fastforce+
    moreover have "starts_with l w \<Longrightarrow> scan_parts ws (drop (length w) l) \<Longrightarrow>
        ends_with l (last ws) \<longleftrightarrow> ends_with (drop (length w) l) (last ws)"
      using scan_last_length[OF False] ends_with_suffix[of "last ws" "drop (length w) l" w]
      by (auto simp: starts_with_iff)
    moreover have "w = [] \<Longrightarrow> starts_with l w" by simp
    ultimately show ?thesis
      unfolding pe d q_def[symmetric] l_def[symmetric]
      using scan_tail_fits[OF False, of "drop (length w) l"] False \<open>q \<noteq> []\<close> by auto
  qed
qed

section \<open>Violations\<close>

text \<open>What breaks a rule, independently of the loops: a pair the rule is about, with a candidate
  side, whose intervals are certain and wrong.\<close>

definition certain :: "chrono_event \<Rightarrow> bool" where
  "certain e \<longleftrightarrow> \<not> w_uncertain (ce_when e)"

definition either_candidate :: "chrono_event \<Rightarrow> chrono_event \<Rightarrow> bool" where
  "either_candidate a b \<longleftrightarrow> is_candidate a \<or> is_candidate b"

definition breaks_order :: "order_rule \<Rightarrow> chrono_event \<Rightarrow> chrono_event \<Rightarrow> bool" where
  "breaks_order r b a \<longleftrightarrow> may_pair (or_before r) (or_after r) b a \<and> either_candidate b a \<and> certain b \<and> certain a \<and>
     w_end (ce_when a) < w_start (ce_when b)"

definition breaks_contains :: "contains_rule \<Rightarrow> chrono_event \<Rightarrow> chrono_event \<Rightarrow> bool" where
  "breaks_contains r outer inner \<longleftrightarrow> may_pair (cr_outer r) (cr_inner r) outer inner \<and>
     either_candidate outer inner \<and> certain outer \<and> certain inner \<and>
     (w_end (ce_when inner) < w_start (ce_when outer) \<or> w_end (ce_when outer) < w_start (ce_when inner))"

definition breaks_overlap :: "overlap_rule \<Rightarrow> chrono_event \<Rightarrow> chrono_event \<Rightarrow> bool" where
  "breaks_overlap r a b \<longleftrightarrow> may_pair (vr_a r) (vr_b r) a b \<and> either_candidate a b \<and>
     definite_day (ce_when a) \<and> definite_day (ce_when b) \<and> overlaps (ce_when a) (ce_when b)"

definition breaks_duration :: "duration_rule \<Rightarrow> chrono_event \<Rightarrow> chrono_event \<Rightarrow> bool" where
  "breaks_duration r f t \<longleftrightarrow> may_pair (ur_start r) (ur_end r) f t \<and> either_candidate f t \<and> certain f \<and> certain t \<and>
     ((\<exists>m. ur_max_days r = Some m \<and> m < gap_min (ce_when f) (ce_when t)) \<or>
      (\<exists>m. ur_min_days r = Some m \<and> gap_max (ce_when f) (ce_when t) < m))"

definition misses_deadline :: "calendar \<Rightarrow> chrono_event list \<Rightarrow> int option \<Rightarrow> deadline_rule \<Rightarrow> chrono_event \<Rightarrow> bool" where
  "misses_deadline cal events now r f \<longleftrightarrow> target_matches (dr_due_from r) f \<and> certain f \<and>
     (\<exists>deadline. cal_add_days cal (w_end (ce_when f)) (dr_within_days r) = Some deadline \<and>
       ((\<exists>e \<in> set (key_events events r f). either_candidate f e \<and> certain e \<and> deadline < w_start (ce_when e)) \<or>
        (key_events events r f = [] \<and> (\<exists>clock. now = Some clock \<and> deadline < clock))))"

lemma set_event_pairs: "(a, b) \<in> set (event_pairs events ta tb) \<longleftrightarrow>
    a \<in> set events \<and> b \<in> set events \<and> may_pair ta tb a b"
  by (auto simp: event_pairs_def)

lemma involves_pair: "involves_candidate [a, b] \<longleftrightarrow> either_candidate a b"
  by (simp add: involves_candidate_def either_candidate_def)

lemma filtered_pairs: "v \<in> set (List.map_filter g (event_pairs events ta tb)) \<longleftrightarrow>
    (\<exists>a b. a \<in> set events \<and> b \<in> set events \<and> may_pair ta tb a b \<and> g (a, b) = Some v)"
  by (simp add: set_map_filter Bex_def set_event_pairs split_paired_Ex conj_assoc)

lemma order_violations_iff: "v \<in> set (order_violations cal events r) \<longleftrightarrow>
    (\<exists>b a. b \<in> set events \<and> a \<in> set events \<and> breaks_order r b a \<and> v = order_violation cal r b a)"
  unfolding order_violations_def filtered_pairs
  by (intro iff_exI) (auto simp: involves_pair breaks_order_def certain_def definitely_before_def)

lemma contains_violations_iff: "v \<in> set (contains_violations cal events r) \<longleftrightarrow>
    (\<exists>b a. b \<in> set events \<and> a \<in> set events \<and> breaks_contains r b a \<and> v = contains_violation cal r b a)"
  unfolding contains_violations_def filtered_pairs
  by (intro iff_exI) (auto simp: involves_pair breaks_contains_def certain_def overlaps_def Let_def)

lemma duration_problem_Some: "(\<exists>p. duration_problem r lo hi = Some p) \<longleftrightarrow>
    (\<exists>m. ur_max_days r = Some m \<and> m < lo) \<or> (\<exists>m. ur_min_days r = Some m \<and> hi < m)"
  by (auto simp: duration_problem_def split: option.splits bind_splits)

lemma duration_violations_iff: "v \<in> set (duration_violations cal events r) \<longleftrightarrow>
    (\<exists>f t. f \<in> set events \<and> t \<in> set events \<and> breaks_duration r f t \<and>
      (\<exists>p. duration_problem r (gap_min (ce_when f) (ce_when t)) (gap_max (ce_when f) (ce_when t)) = Some p \<and>
        v = duration_violation cal r f t p))"
  unfolding duration_violations_def filtered_pairs
proof (intro iff_exI)
  fix f t :: chrono_event
  define lo where "lo = gap_min (ce_when f) (ce_when t)"
  define hi where "hi = gap_max (ce_when f) (ce_when t)"
  show "(f \<in> set events \<and> t \<in> set events \<and> may_pair (ur_start r) (ur_end r) f t \<and>
      (case (f, t) of (f, t) \<Rightarrow> if \<not> involves_candidate [f, t] then None
         else if w_uncertain (ce_when f) \<or> w_uncertain (ce_when t) then None
         else map_option (duration_violation cal r f t)
           (duration_problem r (gap_min (ce_when f) (ce_when t)) (gap_max (ce_when f) (ce_when t)))) = Some v) \<longleftrightarrow>
      f \<in> set events \<and> t \<in> set events \<and> breaks_duration r f t \<and>
      (\<exists>p. duration_problem r (gap_min (ce_when f) (ce_when t)) (gap_max (ce_when f) (ce_when t)) = Some p \<and>
        v = duration_violation cal r f t p)"
    using duration_problem_Some[of r lo hi]
    unfolding breaks_duration_def prod.case lo_def[symmetric] hi_def[symmetric]
    by (cases "duration_problem r lo hi") (auto simp: involves_pair certain_def)
qed

lemma pair_id_swap: "pair_id a b = pair_id c d \<longleftrightarrow>
    event_key a = event_key c \<and> event_key b = event_key d \<or> event_key a = event_key d \<and> event_key b = event_key c"
  by (auto simp: pair_id_def min_def max_def)

text \<open>The scan over the pairs of an overlap rule: a pair skipped as seen was met with the sides
  exchanged, and being wrong does not depend on the order of the sides.\<close>

definition wrong_overlap :: "chrono_event \<times> chrono_event \<Rightarrow> bool" where
  "wrong_overlap x \<longleftrightarrow> either_candidate (fst x) (snd x) \<and> definite_day (ce_when (fst x)) \<and>
     definite_day (ce_when (snd x)) \<and> overlaps (ce_when (fst x)) (ce_when (snd x))"

lemma overlap_scan_sound: "v \<in> set (overlap_scan cal r seen ps) \<Longrightarrow>
    \<exists>a b. (a, b) \<in> set ps \<and> wrong_overlap (a, b) \<and> v = overlap_violation cal r a b"
proof (induction cal r seen ps rule: overlap_scan.induct)
  case (2 cal r seen a b ps)
  then show ?case
    by (auto simp: involves_pair wrong_overlap_def split: if_splits)
qed simp

lemma overlap_scan_complete:
  assumes "x \<in> set ps" "wrong_overlap x" "pair_id (fst x) (snd x) \<notin> set seen"
    and "\<And>y. y \<in> set ps \<Longrightarrow> pair_id (fst y) (snd y) = pair_id (fst x) (snd x) \<Longrightarrow> wrong_overlap y"
  shows "overlap_scan cal r seen ps \<noteq> []"
  using assms
proof (induction cal r seen ps rule: overlap_scan.induct)
  case (2 cal r seen a b ps)
  show ?case
  proof (cases "pair_id a b = pair_id (fst x) (snd x)")
    case True
    with "2.prems"(3) have "pair_id a b \<notin> set seen" by simp
    moreover have "wrong_overlap (a, b)" using "2.prems"(4)[of "(a, b)"] True by simp
    ultimately show ?thesis by (simp add: wrong_overlap_def involves_pair)
  next
    case False
    then have x: "x \<in> set ps" using "2.prems"(1) by auto
    show ?thesis
    proof (cases "pair_id a b \<in> set seen")
      case True
      then show ?thesis using "2.IH"(1)[OF True x "2.prems"(2,3)] "2.prems"(4) by simp
    next
      case F: False
      then have "overlap_scan cal r (pair_id a b # seen) ps \<noteq> []"
        using "2.IH"(2)[OF F x "2.prems"(2)] "2.prems"(3,4) False by auto
      with F show ?thesis by simp
    qed
  qed
qed simp

lemma overlap_violations_iff:
  assumes d: "inj_on event_key (set events)"
  shows "overlap_violations cal events r \<noteq> [] \<longleftrightarrow> (\<exists>a b. a \<in> set events \<and> b \<in> set events \<and> breaks_overlap r a b)"
proof
  assume "overlap_violations cal events r \<noteq> []"
  then obtain v where "v \<in> set (overlap_violations cal events r)" by (metis list.set_sel(1))
  from overlap_scan_sound[OF this[unfolded overlap_violations_def]]
  show "\<exists>a b. a \<in> set events \<and> b \<in> set events \<and> breaks_overlap r a b"
    by (auto simp: set_event_pairs wrong_overlap_def breaks_overlap_def)
next
  assume "\<exists>a b. a \<in> set events \<and> b \<in> set events \<and> breaks_overlap r a b"
  then obtain a b where ab: "a \<in> set events" "b \<in> set events" "breaks_overlap r a b" by blast
  have w: "wrong_overlap (a, b)" using ab(3) by (simp add: breaks_overlap_def wrong_overlap_def)
  have "wrong_overlap y" if y: "y \<in> set (event_pairs events (vr_a r) (vr_b r))"
    and p: "pair_id (fst y) (snd y) = pair_id (fst (a, b)) (snd (a, b))" for y
  proof -
    obtain c e where ce: "y = (c, e)" by (cases y)
    with y have "c \<in> set events" "e \<in> set events" by (simp_all add: set_event_pairs)
    with p ce ab have "c = a \<and> e = b \<or> c = b \<and> e = a"
      by (auto simp: pair_id_swap dest: inj_onD[OF d])
    with w show ?thesis by (auto simp: ce wrong_overlap_def either_candidate_def overlaps_def)
  qed
  moreover have "(a, b) \<in> set (event_pairs events (vr_a r) (vr_b r))"
    using ab by (simp add: set_event_pairs breaks_overlap_def)
  ultimately show "overlap_violations cal events r \<noteq> []"
    unfolding overlap_violations_def using w by (intro overlap_scan_complete[of "(a, b)"]) simp_all
qed

lemma deadline_violations_iff:
  "deadline_violations cal dash events now r \<noteq> [] \<longleftrightarrow> (\<exists>f \<in> set events. misses_deadline cal events now r f)"
proof -
  have "deadline_for cal dash events now r f \<noteq> [] \<longleftrightarrow> misses_deadline cal events now r f" for f
  proof (cases "cal_add_days cal (w_end (ce_when f)) (dr_within_days r)")
    case (Some deadline)
    have nonempty: "List.map_filter g xs \<noteq> [] \<longleftrightarrow> (\<exists>x \<in> set xs. g x \<noteq> None)" for g :: "chrono_event \<Rightarrow> chrono_violation option" and xs
      by (auto simp: List.map_filter_def filter_empty_conv)
    show ?thesis
    proof (cases "key_events events r f = []")
      case True
      then show ?thesis
        by (auto simp: deadline_for_def misses_deadline_def certain_def Some split: option.splits)
    next
      case False
      then show ?thesis
        unfolding deadline_for_def misses_deadline_def Some Let_def option.case
        by (simp add: nonempty certain_def involves_pair) blast
    qed
  qed (simp add: deadline_for_def misses_deadline_def)
  then show ?thesis by (auto simp: deadline_violations_def)
qed

lemma misses_deadline_sort: "misses_deadline cal (sort_key g events) now r f = misses_deadline cal events now r f"
proof -
  have "set (key_events (sort_key g events) r f) = set (key_events events r f)"
    by (simp add: key_events_def)
  moreover from this have "key_events (sort_key g events) r f = [] \<longleftrightarrow> key_events events r f = []"
    by (metis set_empty)
  ultimately show ?thesis by (simp add: misses_deadline_def)
qed

definition breaks_some :: "calendar \<Rightarrow> chrono_event list \<Rightarrow> chronology_rules \<Rightarrow> int option \<Rightarrow> bool" where
  "breaks_some cal events rules now \<longleftrightarrow>
     (\<exists>r \<in> set (cr_order rules). \<exists>b a. b \<in> set events \<and> a \<in> set events \<and> breaks_order r b a) \<or>
     (\<exists>r \<in> set (cr_contains rules). \<exists>b a. b \<in> set events \<and> a \<in> set events \<and> breaks_contains r b a) \<or>
     (\<exists>r \<in> set (cr_forbid_overlap rules). \<exists>a b. a \<in> set events \<and> b \<in> set events \<and> breaks_overlap r a b) \<or>
     (\<exists>r \<in> set (cr_deadlines rules). \<exists>f \<in> set events. misses_deadline cal events now r f) \<or>
     (\<exists>r \<in> set (cr_durations rules). \<exists>f t. f \<in> set events \<and> t \<in> set events \<and> breaks_duration r f t)"

lemma nonempty_iff: "xs \<noteq> [] \<longleftrightarrow> (\<exists>v. v \<in> set xs)"
  by (cases xs) auto

lemma concat_map_nonempty: "concat (map f xs) \<noteq> [] \<longleftrightarrow> (\<exists>x \<in> set xs. f x \<noteq> [])"
  by auto

lemma evaluate_nonempty:
  assumes "inj_on event_key (set events)"
  shows "evaluate cal dash events rules now \<noteq> [] \<longleftrightarrow> breaks_some cal events rules now"
proof -
  let ?s = "sort_key (\<lambda>e. (ce_subject e, ce_key e)) events"
  have "order_violations cal ?s r \<noteq> [] \<longleftrightarrow> (\<exists>b a. b \<in> set events \<and> a \<in> set events \<and> breaks_order r b a)" for r
    unfolding nonempty_iff order_violations_iff by auto
  moreover have "contains_violations cal ?s r \<noteq> [] \<longleftrightarrow>
      (\<exists>b a. b \<in> set events \<and> a \<in> set events \<and> breaks_contains r b a)" for r
    unfolding nonempty_iff contains_violations_iff by auto
  moreover have "overlap_violations cal ?s r \<noteq> [] \<longleftrightarrow>
      (\<exists>a b. a \<in> set events \<and> b \<in> set events \<and> breaks_overlap r a b)" for r
    using overlap_violations_iff[of ?s cal r] assms by simp
  moreover have "deadline_violations cal dash ?s now r \<noteq> [] \<longleftrightarrow>
      (\<exists>f \<in> set events. misses_deadline cal events now r f)" for r
    unfolding deadline_violations_iff misses_deadline_sort by simp
  moreover have "duration_violations cal ?s r \<noteq> [] \<longleftrightarrow>
      (\<exists>f t. f \<in> set events \<and> t \<in> set events \<and> breaks_duration r f t)" for r
  proof -
    have "(\<exists>p. duration_problem r (gap_min (ce_when f) (ce_when t)) (gap_max (ce_when f) (ce_when t)) = Some p)"
      if "breaks_duration r f t" for f t
      using that duration_problem_Some[of r] by (auto simp: breaks_duration_def)
    then show ?thesis unfolding nonempty_iff duration_violations_iff by (simp del: split_paired_Ex) blast
  qed
  ultimately show ?thesis
    unfolding evaluate_def Let_def breaks_some_def append_is_Nil_conv de_Morgan_conj concat_map_nonempty by simp
qed

text \<open>C15. The rules fire exactly on certain evidence: over events with distinct claim keys the
  evaluation is empty just when no declared rule is broken by certain events, a candidate side
  taking part in every pair, or a passed deadline; and each broken order or containment files
  its own violation.\<close>

theorem violations_exact:
  assumes "inj_on event_key (set events)"
  shows "(evaluate cal dash events rules now \<noteq> [] \<longleftrightarrow> breaks_some cal events rules now)
    \<and> (\<forall>r \<in> set (cr_order rules). \<forall>b \<in> set events. \<forall>a \<in> set events. breaks_order r b a \<longrightarrow>
        order_violation cal r b a \<in> set (evaluate cal dash events rules now))
    \<and> (\<forall>r \<in> set (cr_contains rules). \<forall>b \<in> set events. \<forall>a \<in> set events. breaks_contains r b a \<longrightarrow>
        contains_violation cal r b a \<in> set (evaluate cal dash events rules now))"
proof -
  let ?s = "sort_key (\<lambda>e. (ce_subject e, ce_key e)) events"
  have o: "v \<in> set (order_violations cal ?s r) \<Longrightarrow> r \<in> set (cr_order rules) \<Longrightarrow>
      v \<in> set (evaluate cal dash events rules now)" for v r
    unfolding evaluate_def Let_def by auto
  have c: "v \<in> set (contains_violations cal ?s r) \<Longrightarrow> r \<in> set (cr_contains rules) \<Longrightarrow>
      v \<in> set (evaluate cal dash events rules now)" for v r
    unfolding evaluate_def Let_def by auto
  have "breaks_order r b a \<Longrightarrow> b \<in> set events \<Longrightarrow> a \<in> set events \<Longrightarrow>
      order_violation cal r b a \<in> set (order_violations cal ?s r)" for r b a
    unfolding order_violations_iff by auto
  moreover have "breaks_contains r b a \<Longrightarrow> b \<in> set events \<Longrightarrow> a \<in> set events \<Longrightarrow>
      contains_violation cal r b a \<in> set (contains_violations cal ?s r)" for r b a
    unfolding contains_violations_iff by auto
  ultimately show ?thesis using evaluate_nonempty[OF assms] o c by blast
qed

section \<open>The timeline\<close>

record assertion =
  as_subject :: string
  as_key :: string
  as_value :: string
  as_claim_id :: "string option"
  as_origin :: string

definition as_claim_key :: "assertion \<Rightarrow> string" where
  "as_claim_key a = claim_key_of (as_subject a) (as_key a)"

text \<open>The assertions in the order in which the gate considers them.\<close>

definition assertions :: "mesh_snapshot \<Rightarrow> candidate \<Rightarrow> assertion list" where
  "assertions sn cand =
     map (\<lambda>f. \<lparr>as_subject = c_subject f, as_key = c_key f, as_value = c_value f, as_claim_id = Some (c_id f),
         as_origin = ''ledger''\<rparr>) (filter (\<lambda>f. c_subject f \<noteq> [] \<or> c_key f \<noteq> []) (sn_facts sn)) @
     map (\<lambda>p. \<lparr>as_subject = pc_subject p, as_key = pc_key p, as_value = pc_value p, as_claim_id = None,
         as_origin = ''candidate''\<rparr>) (cand_claims cand @ cand_corrections cand)"

definition relevant :: "chronology_rules \<Rightarrow> assertion \<Rightarrow> bool" where
  "relevant rules a \<longleftrightarrow> is_temporal_key rules (as_key a) \<or> to_lower (as_claim_key a) \<in> set (absolute_targets rules)"

definition event_of :: "assertion \<Rightarrow> when_interval \<Rightarrow> chrono_event" where
  "event_of a w = \<lparr>ce_subject = as_subject a, ce_key = as_key a, ce_value = as_value a, ce_when = w,
     ce_claim_id = as_claim_id a, ce_origin = as_origin a\<rparr>"

definition assert_step :: "calendar \<Rightarrow> chronology_rules \<Rightarrow> assertion \<Rightarrow> timeline \<Rightarrow> timeline" where
  "assert_step cal rules a = consider_assertion cal rules (as_subject a) (as_key a) (as_value a) (as_claim_id a) (as_origin a)"

lemma timeline_assertions: "build_timeline cal rules sn cand = fold (assert_step cal rules) (assertions sn cand) []"
proof -
  have "fold (consider_fact cal rules) fs tl0 = fold (assert_step cal rules)
      (map (\<lambda>f. \<lparr>as_subject = c_subject f, as_key = c_key f, as_value = c_value f, as_claim_id = Some (c_id f),
         as_origin = ''ledger''\<rparr>) (filter (\<lambda>f. c_subject f \<noteq> [] \<or> c_key f \<noteq> []) fs)) tl0" for fs tl0
    by (induction fs arbitrary: tl0) (simp_all add: consider_fact_def assert_step_def)
  moreover have "fold (consider_proposed cal rules) ps tl0 = fold (assert_step cal rules)
      (map (\<lambda>p. \<lparr>as_subject = pc_subject p, as_key = pc_key p, as_value = pc_value p, as_claim_id = None,
         as_origin = ''candidate''\<rparr>) ps) tl0" for ps tl0
    by (induction ps arbitrary: tl0) (simp_all add: consider_proposed_def assert_step_def)
  ultimately show ?thesis unfolding build_timeline_def assertions_def fold_append o_apply by simp
qed

lemma assert_step_lookup: "map_of (assert_step cal rules a tl0) ck =
    (if relevant rules a \<and> as_claim_key a = ck then map_option (event_of a) (parse_when cal (as_value a))
     else map_of tl0 ck)"
  by (cases "parse_when cal (as_value a)")
    (auto simp: assert_step_def consider_assertion_def relevant_def as_claim_key_def event_of_def map_of_bt_remove Let_def)

lemma assert_step_sorted: "bt_sorted tl0 \<Longrightarrow> bt_sorted (assert_step cal rules a tl0)"
  by (cases "parse_when cal (as_value a)")
    (auto simp: assert_step_def consider_assertion_def Let_def bt_sorted_remove)

definition latest :: "chronology_rules \<Rightarrow> assertion list \<Rightarrow> string \<Rightarrow> assertion option" where
  "latest rules as ck = find (\<lambda>a. relevant rules a \<and> as_claim_key a = ck) (rev as)"

lemma timeline_fold: "bt_sorted (fold (assert_step cal rules) as []) \<and>
    map_of (fold (assert_step cal rules) as []) ck =
      Option.bind (latest rules as ck) (\<lambda>a. map_option (event_of a) (parse_when cal (as_value a)))"
proof (induction as rule: rev_induct)
  case (snoc a as)
  then show ?case by (simp add: assert_step_sorted assert_step_lookup latest_def)
qed (simp add: latest_def)

lemma timeline_keys:
  assumes "(ck, e) \<in> set (build_timeline cal rules sn cand)"
  shows "event_key e = ck \<and> (\<exists>a \<in> set (assertions sn cand). ce_origin e = as_origin a)"
proof -
  have s: "bt_sorted (build_timeline cal rules sn cand)" using timeline_fold by (simp add: timeline_assertions)
  have "map_of (build_timeline cal rules sn cand) ck = Some e"
    using assms bt_sorted_distinct[OF s] by simp
  then obtain a w where "latest rules (assertions sn cand) ck = Some a" "e = event_of a w"
    using timeline_fold[of cal rules "assertions sn cand" ck] by (auto simp: timeline_assertions bind_eq_Some_conv)
  moreover from this have "as_claim_key a = ck" "a \<in> set (assertions sn cand)"
    by (auto simp: latest_def find_Some_iff2 find_Some_iff) (metis nth_mem length_rev set_rev)+
  ultimately show ?thesis by (auto simp: event_of_def event_key_def as_claim_key_def)
qed

lemma timeline_inj: "inj_on event_key (set (map snd (build_timeline cal rules sn cand)))"
proof (rule inj_onI)
  fix e e'
  assume "e \<in> set (map snd (build_timeline cal rules sn cand))" "e' \<in> set (map snd (build_timeline cal rules sn cand))"
    and eq: "event_key e = event_key e'"
  then obtain k k' where k: "(k, e) \<in> set (build_timeline cal rules sn cand)" "(k', e') \<in> set (build_timeline cal rules sn cand)"
    by auto
  have "k = k'" using timeline_keys[OF k(1)] timeline_keys[OF k(2)] eq by simp
  moreover have "distinct (map fst (build_timeline cal rules sn cand))"
    using timeline_fold by (simp add: timeline_assertions bt_sorted_distinct)
  ultimately show "e = e'" using k by (metis map_of_is_SomeI option.inject)
qed

text \<open>The timeline the gate judges holds, for each claim key, the latest assertion that the
  rules are about: facts in their order, then the claims and corrections of the candidate; an
  assertion whose value is not a date removes the key instead of leaving a stale one. The gate
  finds something exactly when a rule is broken on that timeline, and without claims of the
  candidate only a passed deadline can be found.\<close>

theorem chronology_judges_latest:
  shows "map_of (build_timeline cal rules sn cand) ck =
      Option.bind (latest rules (assertions sn cand) ck) (\<lambda>a. map_option (event_of a) (parse_when cal (as_value a)))
    \<and> (check_chronology cal dash sn cand rules now \<noteq> [] \<longleftrightarrow>
        breaks_some cal (map snd (build_timeline cal rules sn cand)) rules now)
    \<and> (cand_claims cand = [] \<and> cand_corrections cand = [] \<and> now = None \<longrightarrow>
        check_chronology cal dash sn cand rules now = [])"
proof -
  let ?es = "map snd (build_timeline cal rules sn cand)"
  have iff: "check_chronology cal dash sn cand rules now \<noteq> [] \<longleftrightarrow> breaks_some cal ?es rules now"
    using evaluate_nonempty[OF timeline_inj, where cal = cal and dash = dash and now = now and rules = rules]
    by (cases "build_timeline cal rules sn cand = []") (auto simp: check_chronology_def Let_def breaks_some_def)
  have "\<not> breaks_some cal ?es rules now" if "cand_claims cand = []" "cand_corrections cand = []" "now = None"
  proof -
    have "\<not> is_candidate e" if "e \<in> set ?es" for e
    proof -
      from that obtain k where "(k, e) \<in> set (build_timeline cal rules sn cand)" by auto
      from timeline_keys[OF this] \<open>cand_claims cand = []\<close> \<open>cand_corrections cand = []\<close> show ?thesis
        by (auto simp: assertions_def is_candidate_def)
    qed
    then have "\<not> either_candidate a b" if "a \<in> set ?es" "b \<in> set ?es" for a b
      using that by (simp add: either_candidate_def del: set_map)
    then show ?thesis using that
      unfolding breaks_some_def breaks_order_def breaks_contains_def breaks_overlap_def breaks_duration_def
        misses_deadline_def key_events_def by (simp del: set_map) blast
  qed
  with iff show ?thesis
    using timeline_fold[of cal rules "assertions sn cand" ck] by (auto simp: timeline_assertions)
qed

section \<open>Concrete inputs\<close>

definition demo_event :: "string \<Rightarrow> int \<Rightarrow> string \<Rightarrow> chrono_event" where
  "demo_event key day origin = \<lparr>ce_subject = ''trial'', ce_key = key, ce_value = ''x'',
     ce_when = \<lparr>w_start = day, w_end = day, w_precision = PRECISION_DAY, w_uncertain = False\<rparr>,
     ce_claim_id = None, ce_origin = origin\<rparr>"

definition demo_order :: order_rule where
  "demo_order = \<lparr>or_before = ''start_*'', or_after = ''*_end'', or_severity = ''block''\<rparr>"

definition demo_rules :: chronology_rules where
  "demo_rules = chronology_rules_default\<lparr>cr_order := [demo_order], cr_temporal_keys := [''start_*'', ''*_end'']\<rparr>"

lemma demo_breaks_order:
  "breaks_order demo_order (demo_event ''start_on'' 9 ''ledger'') (demo_event ''the_end'' 5 ''candidate'')"
proof -
  have "target_matches ''start_*'' (demo_event ''start_on'' 9 ''ledger'')"
    "target_matches ''*_end'' (demo_event ''the_end'' 5 ''candidate'')"
    by code_simp+
  then show ?thesis
    by (simp add: breaks_order_def may_pair_def demo_order_def) (simp add: demo_event_def event_key_def claim_key_of_def
        either_candidate_def is_candidate_def certain_def)
qed

lemma violations_exact_witness:
  "order_violation gregorian demo_order (demo_event ''start_on'' 9 ''ledger'') (demo_event ''the_end'' 5 ''candidate'')
     \<in> set (evaluate gregorian [] [demo_event ''start_on'' 9 ''ledger'', demo_event ''the_end'' 5 ''candidate'']
         demo_rules None)"
proof -
  have "inj_on event_key (set [demo_event ''start_on'' 9 ''ledger'', demo_event ''the_end'' 5 ''candidate''])"
    by (simp add: demo_event_def event_key_def claim_key_of_def)
  moreover have "demo_order \<in> set (cr_order demo_rules)" by (simp add: demo_rules_def)
  ultimately show ?thesis
    using violations_exact[of "[demo_event ''start_on'' 9 ''ledger'', demo_event ''the_end'' 5 ''candidate'']"
        gregorian "[]" demo_rules None] demo_breaks_order by simp
qed

definition demo_dated :: "string \<Rightarrow> string \<Rightarrow> claim" where
  "demo_dated key day = \<lparr>c_id = key, c_version_id = ''v'', c_seq = 1, c_claim_type = Fact, c_subject = ''trial'',
     c_key = key, c_value = day, c_scope_path = None, c_status = Accepted, c_provenance = Witnessed,
     c_supersedes_id = None, c_entity_id = None, c_evidence = None, c_confidence = None, c_shape_ref = None,
     c_origin = None\<rparr>"

definition demo_dated_snapshot :: mesh_snapshot where
  "demo_dated_snapshot = snapshot_default\<lparr>sn_facts :=
     [demo_dated ''start_on'' ''2021-03-09'', demo_dated ''the_end'' ''5 March 2021'']\<rparr>"

lemma chronology_judges_latest_witness:
  "check_chronology gregorian [] demo_dated_snapshot candidate_default demo_rules None = []
   \<and> length (build_timeline gregorian demo_rules demo_dated_snapshot candidate_default) = 2"
proof
  have "cand_claims candidate_default = [] \<and> cand_corrections candidate_default = [] \<and> (None :: int option) = None"
    by (simp add: candidate_default_def)
  then show "check_chronology gregorian [] demo_dated_snapshot candidate_default demo_rules None = []"
    using chronology_judges_latest[where cal = gregorian and dash = "[]" and sn = demo_dated_snapshot
        and cand = candidate_default and rules = demo_rules and now = None] by blast
  show "length (build_timeline gregorian demo_rules demo_dated_snapshot candidate_default) = 2"
    by code_simp
qed

end
