(* ===== verification/Runbook_Research.thy ===== *)
theory Runbook_Research
  imports Kernel_Types
begin

text \<open>
  The research profiles and data views of a runbook (\<open>munarium-runbooks/src/research.rs\<close>): their
  types, and the validation that fails closed when a runbook is applied.
\<close>

section \<open>Research profiles and data views\<close>

datatype data_view_kind = Contract | MetricView | DataView

fun route :: "data_view_kind \<Rightarrow> string" where
  "route Contract = ''contracts''"
| "route MetricView = ''metricviews''"
| "route DataView = ''dataviews''"

definition is_semantic :: "data_view_kind \<Rightarrow> bool" where
  "is_semantic k \<longleftrightarrow> k \<noteq> Contract"

text \<open>The derived \<open>Debug\<close> name of a kind.\<close>

fun kind_debug :: "data_view_kind \<Rightarrow> string" where
  "kind_debug Contract = ''Contract''"
| "kind_debug MetricView = ''MetricView''"
| "kind_debug DataView = ''DataView''"

record data_view_param =
  dp_kind :: string
  dp_value :: string

record data_view_spec =
  dv_name :: string
  dv_contract :: string
  dv_kind :: data_view_kind
  dv_description :: "string option"
  dv_parameters :: "(string \<times> data_view_param) list"
  dv_access_level :: int
  dv_compartments :: "string list"

record collection_evidence_spec =
  ce_labels :: "string list"

datatype layer_requirement_spec = Required | Optional | Fallback

datatype answer_role_spec = Supporting | Primary | Controlling

record research_layer_spec =
  rl_name :: string
  rl_sources :: "string list"
  rl_requirement :: layer_requirement_spec
  rl_role :: answer_role_spec
  rl_context_char_budget :: "nat option"
  rl_preserve_complete_result :: bool
  rl_max_bytes :: "nat option"
  rl_deadline_ms :: "nat option"

record research_profile_spec =
  rp_name :: string
  rp_description :: "string option"
  rp_layers :: "research_layer_spec list"
  rp_context_char_budget :: "nat option"

datatype research_error =
    DuplicateProfile string
  | DuplicateLayer string string
  | DuplicateDataView string
  | EmptyProfile string
  | EmptyLayerSources string string
  | UnknownSource string string string
  | UnknownDefaultProfile string
  | PreserveExceedsBudget string string nat nat
  | PreserveWithoutMaxBytes string string
  | AllFallback string
  | MalformedName string
  | MalformedContract string string

fun research_message :: "research_error \<Rightarrow> string" where
  "research_message (DuplicateProfile n) = ''duplicate research profile '' @ quoted n"
| "research_message (DuplicateLayer p l) = ''profile '' @ quoted p @ '' declares layer '' @ quoted l @ '' twice''"
| "research_message (DuplicateDataView n) = ''duplicate data view '' @ quoted n"
| "research_message (EmptyProfile n) = ''research profile '' @ quoted n @ '' declares no layers''"
| "research_message (EmptyLayerSources p l) = ''profile '' @ quoted p @ '' layer '' @ quoted l
     @ '' names no sources; a layer that reads nothing cannot contribute evidence''"
| "research_message (UnknownSource p l s) = ''profile '' @ quoted p @ '' layer '' @ quoted l @ '' names source ''
     @ quoted s @ '', which is not a declared collection, data view, or fact scope''"
| "research_message (UnknownDefaultProfile n) = ''retrieval.defaultResearchProfile '' @ quoted n
     @ '' is not a declared profile''"
| "research_message (PreserveExceedsBudget p l m b) = ''profile '' @ quoted p @ '' layer '' @ quoted l
     @ '' is required and preserves its complete result, but its maxBytes '' @ dec m
     @ '' cannot fit completion.contextCharBudget '' @ dec b @ ''; every turn using this profile would refuse''"
| "research_message (PreserveWithoutMaxBytes p l) = ''profile '' @ quoted p @ '' layer '' @ quoted l
     @ '' sets preserveCompleteResult but no maxBytes, so its context budget cannot be checked before a turn runs''"
| "research_message (AllFallback n) = ''research profile '' @ quoted n
     @ '' declares only fallback layers, so no layer ever runs''"
| "research_message (MalformedName n) = ''name '' @ quoted n
     @ '' must be non-empty and must not contain whitespace or '' @ quoted '':''"
| "research_message (MalformedContract v c) = ''data view '' @ quoted v @ '' names contract '' @ quoted c
     @ ''; a contract ref is '' @ quoted ''name@version''
     @ '' with the name drawn from [A-Za-z0-9._-] and a numeric version''"

definition name_ok :: "string \<Rightarrow> bool" where
  "name_ok n \<longleftrightarrow> trim n \<noteq> [] \<and> CHR '':'' \<notin> set n \<and> (\<forall>c \<in> set n. \<not> is_ws c)"

definition contract_ref_ok :: "string \<Rightarrow> bool" where
  "contract_ref_ok c =
     (case split_once CHR ''@'' c of
        None \<Rightarrow> False
      | Some (name, version) \<Rightarrow>
          name \<noteq> [] \<and> (\<forall>ch \<in> set name. ascii_alnum ch \<or> ch \<in> {CHR ''.'', CHR ''_'', CHR ''-''}) \<and>
          name \<noteq> ''.'' \<and> name \<noteq> ''..'' \<and> version \<noteq> [] \<and> (\<forall>ch \<in> set version. ascii_digit ch))"

definition strip_prefix :: "string \<Rightarrow> string \<Rightarrow> string option" where
  "strip_prefix p s = (if starts_with s p then Some (drop (length p) s) else None)"

definition check_view :: "string list \<Rightarrow> data_view_spec \<Rightarrow> research_error + string list" where
  "check_view names v =
     (if \<not> name_ok (dv_name v) then Inl (MalformedName (dv_name v))
      else if \<not> contract_ref_ok (dv_contract v) then Inl (MalformedContract (dv_name v) (dv_contract v))
      else if dv_name v \<in> set names then Inl (DuplicateDataView (dv_name v))
      else Inr (dv_name v # names))"

definition known_source :: "string list \<Rightarrow> string list \<Rightarrow> string \<Rightarrow> bool" where
  "known_source views collections s =
     (case strip_prefix ''matrix:'' s of
        Some view \<Rightarrow> view \<in> set views
      | None \<Rightarrow>
          if starts_with s ''facts:'' then length ''facts:'' < byte_len s
          else if starts_with s ''scope:'' then length ''scope:'' < byte_len s
          else s \<in> set collections)"

fun check_sources :: "string list \<Rightarrow> string list \<Rightarrow> string \<Rightarrow> string \<Rightarrow> string list \<Rightarrow> research_error + unit" where
  "check_sources views collections p l [] = Inr ()"
| "check_sources views collections p l (s # ss) =
     (if \<not> known_source views collections s then Inl (UnknownSource p l s)
      else check_sources views collections p l ss)"

definition opt_or :: "'a option \<Rightarrow> 'a option \<Rightarrow> 'a option" where
  "opt_or a b = (case a of None \<Rightarrow> b | Some x \<Rightarrow> Some x)"

text \<open>The layer's own budget, else the profile's, else the runbook's completion budget.\<close>

definition layer_budget :: "nat option \<Rightarrow> research_profile_spec \<Rightarrow> research_layer_spec \<Rightarrow> nat option" where
  "layer_budget completion p l = opt_or (opt_or (rl_context_char_budget l) (rp_context_char_budget p)) completion"

definition check_preserve :: "nat option \<Rightarrow> research_profile_spec \<Rightarrow> research_layer_spec \<Rightarrow> research_error + unit" where
  "check_preserve completion p l =
     (if \<not> rl_preserve_complete_result l then Inr ()
      else (case rl_max_bytes l of
          None \<Rightarrow> Inl (PreserveWithoutMaxBytes (rp_name p) (rl_name l))
        | Some max_bytes \<Rightarrow>
            (case layer_budget completion p l of
               None \<Rightarrow> Inr ()
             | Some budget \<Rightarrow>
                 if rl_requirement l = Required \<and> budget < max_bytes
                 then Inl (PreserveExceedsBudget (rp_name p) (rl_name l) max_bytes budget) else Inr ())))"

definition check_layer :: "string list \<Rightarrow> string list \<Rightarrow> nat option \<Rightarrow> research_profile_spec \<Rightarrow> string list \<Rightarrow>
    research_layer_spec \<Rightarrow> research_error + string list" where
  "check_layer views collections completion p names l =
     (if trim (rl_name l) = [] then Inl (MalformedName (rl_name l))
      else if rl_name l \<in> set names then Inl (DuplicateLayer (rp_name p) (rl_name l))
      else if rl_sources l = [] then Inl (EmptyLayerSources (rp_name p) (rl_name l))
      else
      res_bind (check_sources views collections (rp_name p) (rl_name l) (rl_sources l)) (\<lambda>_.
      res_bind (check_preserve completion p l) (\<lambda>_. Inr (rl_name l # names))))"

definition check_profile :: "string list \<Rightarrow> string list \<Rightarrow> nat option \<Rightarrow> string list \<Rightarrow> research_profile_spec \<Rightarrow>
    research_error + string list" where
  "check_profile views collections completion names p =
     (if \<not> name_ok (rp_name p) then Inl (MalformedName (rp_name p))
      else if rp_name p \<in> set names then Inl (DuplicateProfile (rp_name p))
      else if rp_layers p = [] then Inl (EmptyProfile (rp_name p))
      else if \<forall>l \<in> set (rp_layers p). rl_requirement l = Fallback then Inl (AllFallback (rp_name p))
      else
      res_bind (res_fold (check_layer views collections completion p) [] (rp_layers p)) (\<lambda>_.
      Inr (rp_name p # names)))"

definition validate_research :: "research_profile_spec list \<Rightarrow> data_view_spec list \<Rightarrow> string option \<Rightarrow> string list \<Rightarrow>
    nat option \<Rightarrow> research_error + unit" where
  "validate_research profiles data_views default_profile collections completion =
     res_bind (res_fold check_view [] data_views) (\<lambda>views.
     res_bind (res_fold (check_profile views collections completion) [] profiles) (\<lambda>names.
     (case default_profile of
        None \<Rightarrow> Inr ()
      | Some d \<Rightarrow> if d \<notin> set names then Inl (UnknownDefaultProfile d) else Inr ())))"

end
