(* ===== verification/Runbook_Doc.thy ===== *)
theory Runbook_Doc
  imports Runbook_Research
begin

text \<open>
  The runbook document of \<open>munarium-runbooks/src/lib.rs\<close>: its types and defaults, and
  \<open>parse_runbook\<close> from the decoded YAML on. The YAML codec is the parameter \<open>decode\<close>: a document
  whose steps are still the raw JSON values, or the codec's message. A floating-point setting
  can be any \<open>f64\<close>: a finite one is the rational it denotes. The em dash of some messages is the
  argument \<open>dash\<close>.
\<close>

section \<open>Floating-point settings\<close>

datatype wide = Fin rat | PosInf | NegInf | NaN

fun wide_finite :: "wide \<Rightarrow> bool" where
  "wide_finite (Fin r) = True"
| "wide_finite _ = False"

text \<open>\<open>(lo..=hi).contains(x)\<close> and the comparisons with zero and one.\<close>

fun wide_within :: "rat \<Rightarrow> rat \<Rightarrow> wide \<Rightarrow> bool" where
  "wide_within lo hi (Fin r) = (lo \<le> r \<and> r \<le> hi)"
| "wide_within lo hi _ = False"

fun wide_positive :: "wide \<Rightarrow> bool" where
  "wide_positive (Fin r) = (0 < r)"
| "wide_positive PosInf = True"
| "wide_positive _ = False"

fun wide_is :: "rat \<Rightarrow> wide \<Rightarrow> bool" where
  "wide_is q (Fin r) = (r = q)"
| "wide_is q _ = False"

section \<open>The document\<close>

record source_binding =
  sb_filename_prefix :: "string option"
  sb_media_types :: "string list"
  sb_content_hashes :: "string list"

definition binding_empty :: "source_binding \<Rightarrow> bool" where
  "binding_empty b \<longleftrightarrow> sb_filename_prefix b = None \<and> sb_media_types b = [] \<and> sb_content_hashes b = []"

record sources_spec =
  ss_container :: "string option"
  ss_prefix :: "string option"

record collection_spec =
  cs_name :: string
  cs_shape :: string
  cs_access_level :: int
  cs_compartments :: "string list"
  cs_sources :: "source_binding option"
  cs_evidence :: "collection_evidence_spec option"

datatype execution_order = StepMajor | CollectionMajor

record query_expansion_spec =
  qe_when_any :: "string list"
  qe_add_terms :: "string list"

record model_query_expansion_spec =
  mq_max_terms :: nat
  mq_max_tokens :: "nat option"
  mq_required :: bool

record collection_selection_spec =
  sel_max_collections :: nat
  sel_probe_candidate_n :: int
  sel_candidate_pool_per_collection :: nat
  sel_phrase_boost :: wide

record collection_route_spec =
  rt_when_all :: "string list"
  rt_collections :: "string list"

datatype demotion_match = Substring | Phrase

record content_demotion_spec =
  dm_contains :: string
  dm_lexical_multiplier :: wide
  dm_vector_distance_penalty :: wide
  dm_except_collections :: "string list"
  dm_match_mode :: demotion_match

record fusion_spec =
  fu_lexical_weight :: wide
  fu_vector_weight :: wide
  fu_collection_evidence_weight :: wide
  fu_unselected_pool_weight :: wide

record retrieval_spec =
  rs_top_k :: nat
  rs_rrf_k :: wide
  rs_candidate_n :: int
  rs_search_concurrency :: nat
  rs_minimum_should_match :: nat
  rs_stop_term_fraction :: wide
  rs_research_profiles :: "research_profile_spec list"
  rs_default_research_profile :: "string option"
  rs_query_expansions :: "query_expansion_spec list"
  rs_query_expansion_weight :: wide
  rs_model_query_expansion :: "model_query_expansion_spec option"
  rs_collection_selection :: "collection_selection_spec option"
  rs_fusion :: "fusion_spec option"
  rs_collection_routes :: "collection_route_spec list"
  rs_content_demotions :: "content_demotion_spec list"

record model_spec =
  ms_provider :: "string option"
  ms_model :: "string option"
  ms_tier :: "string option"

datatype override_policy = NoOverrides | AllOverrides | Allowlist "string list"

record models_spec =
  md_default :: "model_spec option"
  md_tasks :: "(string \<times> model_spec) list"
  md_allow_overrides :: override_policy

record verification_spec =
  vf_quotes :: bool
  vf_citations :: bool
  vf_max_retries :: nat

record completion_spec =
  cm_provider :: "string option"
  cm_model :: "string option"
  cm_prompt_template :: string
  cm_verification :: "verification_spec option"
  cm_context_char_budget :: "nat option"
  cm_max_tokens :: "nat option"

datatype step_spec =
    ResolveSources
  | BuildIndex
  | Verify
  | VerifyDataViews
  | Cutover "string option"
  | RetireOld nat

record runbook_spec =
  sp_shape :: "string option"
  sp_collections :: "collection_spec list"
  sp_retrieval :: "retrieval_spec option"
  sp_data_views :: "data_view_spec list"
  sp_models :: "models_spec option"
  sp_completion :: "completion_spec option"
  sp_sources :: "sources_spec option"
  sp_execution :: "execution_order option"
  sp_steps_raw :: "json list"
  sp_steps :: "step_spec list"

record runbook_doc =
  rb_api_version :: string
  rb_kind :: string
  rb_name :: string
  rb_version :: nat
  rb_spec :: runbook_spec

section \<open>Defaults and small operations\<close>

definition fusion_default :: fusion_spec where
  "fusion_default = \<lparr>fu_lexical_weight = Fin 1, fu_vector_weight = Fin 1, fu_collection_evidence_weight = Fin 0,
     fu_unselected_pool_weight = Fin 1\<rparr>"

definition retrieval_default :: retrieval_spec where
  "retrieval_default = \<lparr>rs_top_k = 10, rs_rrf_k = Fin 60, rs_candidate_n = 50, rs_search_concurrency = 4,
     rs_minimum_should_match = 1, rs_stop_term_fraction = Fin 0, rs_research_profiles = [],
     rs_default_research_profile = None, rs_query_expansions = [], rs_query_expansion_weight = Fin 1,
     rs_model_query_expansion = None, rs_collection_selection = None, rs_fusion = None,
     rs_collection_routes = [], rs_content_demotions = []\<rparr>"

definition model_spec_default :: model_spec where
  "model_spec_default = \<lparr>ms_provider = None, ms_model = None, ms_tier = None\<rparr>"

definition models_spec_default :: models_spec where
  "models_spec_default = \<lparr>md_default = None, md_tasks = [], md_allow_overrides = NoOverrides\<rparr>"

definition model_spec_empty :: "model_spec \<Rightarrow> bool" where
  "model_spec_empty m \<longleftrightarrow> ms_provider m = None \<and> ms_model m = None \<and> ms_tier m = None"

definition TASK_LEVELS :: "string list" where
  "TASK_LEVELS = [''completion'', ''validation'', ''embedding'', ''query_expansion'', ''intent'']"

fun permits :: "override_policy \<Rightarrow> string \<Rightarrow> bool" where
  "permits NoOverrides provider = False"
| "permits AllOverrides provider = True"
| "permits (Allowlist names) provider = (provider \<in> set names)"

definition is_v2 :: "runbook_spec \<Rightarrow> bool" where
  "is_v2 s \<longleftrightarrow> sp_collections s \<noteq> []"

definition execution_order :: "runbook_spec \<Rightarrow> execution_order" where
  "execution_order s = (case sp_execution s of None \<Rightarrow> StepMajor | Some order \<Rightarrow> order)"

text \<open>\<open>split('@').next()\<close>: the part before the first separator.\<close>

definition effective_collections :: "runbook_spec \<Rightarrow> collection_spec list" where
  "effective_collections s =
     (if is_v2 s then sp_collections s
      else (case sp_shape s of
          None \<Rightarrow> []
        | Some shape_ref \<Rightarrow> [\<lparr>cs_name = hd (split_on (\<lambda>c. c = CHR ''@'') shape_ref), cs_shape = shape_ref,
            cs_access_level = 0, cs_compartments = [], cs_sources = None, cs_evidence = None\<rparr>]))"

fun step_name :: "step_spec \<Rightarrow> string" where
  "step_name ResolveSources = ''resolveSources''"
| "step_name BuildIndex = ''buildIndex''"
| "step_name Verify = ''verify''"
| "step_name VerifyDataViews = ''verifyDataViews''"
| "step_name (Cutover approval) = ''cutover''"
| "step_name (RetireOld keep_versions) = ''retireOld''"

fun requires_approval :: "step_spec \<Rightarrow> bool" where
  "requires_approval (Cutover (Some a)) = (a = ''required'')"
| "requires_approval _ = False"

datatype step_state = Pending | Running | AwaitingApproval | Done | Failed

fun step_state_str :: "step_state \<Rightarrow> string" where
  "step_state_str Pending = ''pending''"
| "step_state_str Running = ''running''"
| "step_state_str AwaitingApproval = ''awaiting_approval''"
| "step_state_str Done = ''done''"
| "step_state_str Failed = ''failed''"

section \<open>Parsing\<close>

definition not_single :: string where
  "not_single = ''each step must be a single-key map like `- buildIndex: {}`''"

definition get_field :: "json \<Rightarrow> string \<Rightarrow> json option" where
  "get_field body field = jget body field"

text \<open>The two step fields with a closed vocabulary: anything else is an error, never a default.\<close>

definition approval_from :: "json option \<Rightarrow> string + string option" where
  "approval_from v =
     (case v of
        None \<Rightarrow> Inr None
      | Some j \<Rightarrow>
          (case jas_str j of
             Some s \<Rightarrow>
               if s = ''required'' then Inr (Some ''required'')
               else if s = ''none'' then Inr None
               else Inl (''cutover.approval must be '' @ quoted ''required'' @ '' or '' @ quoted ''none''
                 @ '', got '' @ quoted s)
           | None \<Rightarrow> Inl (''cutover.approval must be the string '' @ quoted ''required'' @ '' or '' @ quoted ''none'')))"

definition u32_max :: nat where
  "u32_max = 2 ^ 32 - 1"

definition default_keep :: nat where
  "default_keep = 2"

definition keep_from :: "json option \<Rightarrow> string + nat" where
  "keep_from v =
     (case v of
        None \<Rightarrow> Inr default_keep
      | Some (JNum (PosInt n)) \<Rightarrow>
          if n \<le> u32_max then Inr n
          else Inl (''retireOld.keep_versions must be an integer between 0 and '' @ dec u32_max)
      | Some _ \<Rightarrow> Inl (''retireOld.keep_versions must be an integer between 0 and '' @ dec u32_max))"

definition step_from_value :: "json \<Rightarrow> string + step_spec" where
  "step_from_value v =
     (case v of
        JObj [(key, body)] \<Rightarrow>
          if key = ''resolveSources'' then Inr ResolveSources
          else if key = ''buildIndex'' then Inr BuildIndex
          else if key = ''verify'' then Inr Verify
          else if key = ''verifyDataViews'' then Inr VerifyDataViews
          else if key = ''cutover''
          then res_bind (approval_from (get_field body ''approval'')) (\<lambda>a. Inr (Cutover a))
          else if key = ''retireOld''
          then res_bind (keep_from (get_field body ''keep_versions'')) (\<lambda>n. Inr (RetireOld n))
          else Inl (''unknown step '' @ quoted key)
      | _ \<Rightarrow> Inl not_single)"

definition has_intent_task :: "runbook_spec \<Rightarrow> bool" where
  "has_intent_task s = (case sp_models s of None \<Rightarrow> False | Some m \<Rightarrow> map_of (md_tasks m) ''intent'' \<noteq> None)"

definition check_semantic_view :: "string \<Rightarrow> runbook_spec \<Rightarrow> data_view_spec \<Rightarrow> string + unit" where
  "check_semantic_view dash s v =
     (if is_semantic (dv_kind v) \<and> \<not> has_intent_task s
      then Inl (''spec.dataViews.'' @ dv_name v @ '': a semantic data view (kind '' @ kind_debug (dv_kind v)
        @ '') needs `models.tasks.intent` '' @ dash
        @ '' the model task that turns the question into measures and dimensions'')
      else Inr ())"

definition spec_profiles :: "runbook_spec \<Rightarrow> research_profile_spec list" where
  "spec_profiles s = (case sp_retrieval s of None \<Rightarrow> [] | Some r \<Rightarrow> rs_research_profiles r)"

definition spec_default_profile :: "runbook_spec \<Rightarrow> string option" where
  "spec_default_profile s = Option.bind (sp_retrieval s) rs_default_research_profile"

definition spec_budget :: "runbook_spec \<Rightarrow> nat option" where
  "spec_budget s = Option.bind (sp_completion s) cm_context_char_budget"

definition check_research :: "string \<Rightarrow> runbook_spec \<Rightarrow> string + unit" where
  "check_research dash s =
     res_bind (res_map (check_semantic_view dash s) (sp_data_views s)) (\<lambda>_.
     if spec_profiles s \<noteq> [] \<or> sp_data_views s \<noteq> [] \<or> spec_default_profile s \<noteq> None
     then (case validate_research (spec_profiles s) (sp_data_views s) (spec_default_profile s)
              (map cs_name (sp_collections s)) (spec_budget s) of
            Inl e \<Rightarrow> Inl (research_message e) | Inr u \<Rightarrow> Inr ())
     else Inr ())"

text \<open>The completion shorthand fills the model task, never overriding what it declares.\<close>

definition fill_model :: "completion_spec \<Rightarrow> model_spec \<Rightarrow> model_spec" where
  "fill_model c m = m\<lparr>ms_provider := opt_or (ms_provider m) (cm_provider c), ms_model := opt_or (ms_model m) (cm_model c)\<rparr>"

definition normalize_completion :: "runbook_spec \<Rightarrow> runbook_spec" where
  "normalize_completion s =
     (case sp_completion s of
        None \<Rightarrow> s
      | Some c \<Rightarrow>
          if cm_provider c \<noteq> None \<or> cm_model c \<noteq> None
          then
            let models = (case sp_models s of None \<Rightarrow> models_spec_default | Some m \<Rightarrow> m);
                entry = (case map_of (md_tasks models) ''completion'' of None \<Rightarrow> model_spec_default | Some e \<Rightarrow> e)
            in s\<lparr>sp_models := Some (models\<lparr>md_tasks := bt_insert ''completion'' (fill_model c entry) (md_tasks models)\<rparr>)\<rparr>
          else s)"

definition parse_runbook :: "(string \<Rightarrow> string + runbook_doc) \<Rightarrow> string \<Rightarrow> string \<Rightarrow> string + runbook_doc" where
  "parse_runbook decode dash yaml =
     (case decode yaml of
        Inl e \<Rightarrow> Inl (''runbook yaml: '' @ e)
      | Inr doc \<Rightarrow>
          if rb_kind doc \<noteq> ''Runbook'' then Inl (''kind must be Runbook, got '' @ quoted (rb_kind doc))
          else if trim (rb_name doc) = [] \<or> CHR ''@'' \<in> set (rb_name doc)
          then Inl (''runbook name '' @ quoted (rb_name doc) @ '' must be non-empty and must not contain '' @ quoted ''@'')
          else
          res_bind (res_map step_from_value (sp_steps_raw (rb_spec doc))) (\<lambda>steps.
          let s = (rb_spec doc)\<lparr>sp_steps := steps\<rparr> in
          if sp_steps s = [] then Inl ''a runbook needs at least one step''
          else if sp_shape s = None \<and> sp_collections s = []
          then Inl ''a runbook needs spec.shape (v1) or spec.collections (v2)''
          else if sp_shape s \<noteq> None \<and> sp_collections s \<noteq> []
          then Inl ''spec.shape and spec.collections are mutually exclusive''
          else
          res_bind (check_research dash s) (\<lambda>_.
          Inr (doc\<lparr>rb_spec := normalize_completion s\<rparr>))))"

definition runbook_ref :: "runbook_doc \<Rightarrow> string" where
  "runbook_ref d = rb_name d @ ''@'' @ dec (rb_version d)"

end
