(* ===== verification/Runbook_Validate.thy ===== *)
theory Runbook_Validate
  imports Runbook_Doc
begin

text \<open>
  The deterministic runbook validator (\<open>munarium-runbooks/src/validate.rs\<close>): one definition per
  block of \<open>validate_runbook\<close>, in its order. \<open>dash\<close> is the em dash of the messages and
  \<open>show_wide\<close> the \<open>Display\<close> of an \<open>f64\<close>.
\<close>

datatype vseverity = VError | VWarn | VInfo

record validation_finding =
  fg_severity :: vseverity
  fg_code :: string
  fg_message :: string
  fg_path :: string

definition vfinding :: "vseverity \<Rightarrow> string \<Rightarrow> string \<Rightarrow> string \<Rightarrow> validation_finding" where
  "vfinding severity code message path =
     \<lparr>fg_severity = severity, fg_code = code, fg_message = message, fg_path = path\<rparr>"

definition emit :: "bool \<Rightarrow> vseverity \<Rightarrow> string \<Rightarrow> string \<Rightarrow> string \<Rightarrow> validation_finding list" where
  "emit c severity code message path = (if c then [vfinding severity code message path] else [])"

definition indexed :: "string \<Rightarrow> nat \<Rightarrow> string" where
  "indexed path i = path @ ''['' @ dec i @ '']''"

text \<open>A loop with \<open>enumerate\<close>.\<close>

definition each :: "(nat \<Rightarrow> 'a \<Rightarrow> validation_finding list) \<Rightarrow> 'a list \<Rightarrow> validation_finding list" where
  "each f xs = concat (map (\<lambda>(i, x). f i x) (List.enumerate 0 xs))"

definition opt_each :: "('a \<Rightarrow> validation_finding list) \<Rightarrow> 'a option \<Rightarrow> validation_finding list" where
  "opt_each f v = (case v of None \<Rightarrow> [] | Some x \<Rightarrow> f x)"

section \<open>Metadata and models in use\<close>

definition check_metadata :: "runbook_doc \<Rightarrow> validation_finding list" where
  "check_metadata d =
     emit (trim (rb_name d) = []) VError ''metadata.name-empty'' ''runbook name must be non-empty'' ''metadata.name'' @
     emit (rb_version d = 0) VWarn ''metadata.version-zero''
       ''version 0 is legal but unconventional; versions usually start at 1'' ''metadata.version''"

definition check_embedding :: "string \<Rightarrow> runbook_spec \<Rightarrow> validation_finding list" where
  "check_embedding dash s = opt_each (\<lambda>models.
     emit (case map_of (md_tasks models) ''embedding'' of None \<Rightarrow> False | Some m \<Rightarrow> \<not> model_spec_empty m)
       VInfo ''models.embedding-not-consumed''
       (''models.embedding is accepted and validated but not yet consumed '' @ dash
        @ '' index builds use the built-in local embedder; provider-backed embeddings are a tracked follow-up'')
       ''spec.models.embedding'') (sp_models s)"

section \<open>Step ordering\<close>

text \<open>\<open>steps.iter().position(|s| s.name() == name)\<close>.\<close>

fun position :: "('a \<Rightarrow> bool) \<Rightarrow> 'a list \<Rightarrow> nat option" where
  "position p [] = None"
| "position p (x # xs) = (if p x then Some 0 else map_option Suc (position p xs))"

definition step_pos :: "step_spec list \<Rightarrow> string \<Rightarrow> nat option" where
  "step_pos steps name = position (\<lambda>s. step_name s = name) steps"

definition check_dependent :: "step_spec list \<Rightarrow> string \<Rightarrow> string \<Rightarrow> validation_finding list" where
  "check_dependent steps dep code = opt_each (\<lambda>d.
     emit (case step_pos steps ''buildIndex'' of None \<Rightarrow> True | Some b \<Rightarrow> d < b) VError code
       (dep @ '' requires a prior buildIndex step'') (indexed ''spec.steps'' d)) (step_pos steps dep)"

definition check_steps :: "string \<Rightarrow> step_spec list \<Rightarrow> validation_finding list" where
  "check_steps dash steps =
     emit (step_pos steps ''buildIndex'' = None) VWarn ''steps.no-build''
       (''no buildIndex step '' @ dash @ '' this runbook never (re)indexes anything'') ''spec.steps'' @
     check_dependent steps ''verify'' ''steps.verify-before-build'' @
     check_dependent steps ''cutover'' ''steps.cutover-before-build'' @
     check_dependent steps ''retireOld'' ''steps.retire-before-build'' @
     (case (step_pos steps ''cutover'', step_pos steps ''verify'') of
        (Some c, Some v) \<Rightarrow> emit (c < v) VWarn ''steps.cutover-before-verify''
          (''cutover precedes verify '' @ dash @ '' the index goes live before verification'') (indexed ''spec.steps'' c)
      | _ \<Rightarrow> []) @
     opt_each (\<lambda>c. emit (\<not> requires_approval (steps ! c)) VInfo ''steps.cutover-unapproved''
       ''cutover has no approval gate; the index goes live without a human in the loop'' (indexed ''spec.steps'' c))
       (step_pos steps ''cutover'') @
     each (\<lambda>i step. emit (step = RetireOld 0) VWarn ''steps.retire-keeps-none''
       (''keep_versions: 0 reclaims every inactive version'' @ [CHR 0x27] @ ''s chunks immediately '' @ dash
        @ '' rollback needs a rebuild'') (indexed ''spec.steps'' i)) steps"

section \<open>Collections and sources\<close>

definition check_binding :: "string \<Rightarrow> string \<Rightarrow> collection_spec \<Rightarrow> validation_finding list" where
  "check_binding dash path col =
     (case cs_sources col of
        None \<Rightarrow> [vfinding VInfo ''collections.no-source-binding''
          (''collection '' @ quoted (cs_name col) @ '' declares no source binding '' @ dash
           @ '' sources must be bound explicitly at ingest'') (path @ ''.sources'')]
      | Some b \<Rightarrow>
          if binding_empty b
          then [vfinding VWarn ''collections.empty-source-binding''
            ''sources: {} matches nothing; drop it or add a matcher'' (path @ ''.sources'')]
          else each (\<lambda>j mt. emit (CHR ''/'' \<notin> set mt) VWarn ''collections.bad-media-type''
            (quoted mt @ '' does not look like a media type (type/subtype)'') (indexed (path @ ''.sources.mediaTypes'') j))
            (sb_media_types b))"

definition check_collection :: "string \<Rightarrow> collection_spec list \<Rightarrow> nat \<Rightarrow> collection_spec \<Rightarrow> validation_finding list" where
  "check_collection dash cols i col =
     (let path = indexed ''spec.collections'' i in
      emit (trim (cs_name col) = []) VError ''collections.name-empty'' ''collection name must be non-empty''
        (path @ ''.name'') @
      emit (cs_name col \<in> set (map cs_name (take i cols))) VError ''collections.name-duplicate''
        (''duplicate collection name '' @ quoted (cs_name col)) (path @ ''.name'') @
      emit (cs_access_level col < 0) VError ''collections.negative-level'' ''access_level must be >= 0''
        (path @ ''.accessLevel'') @
      emit (CHR ''@'' \<notin> set (cs_shape col)) VWarn ''collections.shape-unversioned''
        (''shape '' @ quoted (cs_shape col) @ '' has no @version '' @ dash @ '' pin the shape version'')
        (path @ ''.shape'') @
      check_binding dash path col)"

definition uniform_access :: "collection_spec list \<Rightarrow> bool" where
  "uniform_access cols =
     (length (remdups (map (\<lambda>c. (cs_access_level c, sort (cs_compartments c))) cols)) = 1)"

definition check_collections :: "string \<Rightarrow> collection_spec list \<Rightarrow> validation_finding list" where
  "check_collections dash cols =
     each (check_collection dash cols) cols @
     emit (1 < length cols \<and> uniform_access cols) VInfo ''collections.uniform-access''
       (''every collection has the same access level and compartments '' @ dash
        @ '' one runbook serving multiple clearance levels usually wants them to differ'') ''spec.collections''"

definition prefix_mismatch :: "string \<Rightarrow> string \<Rightarrow> nat \<Rightarrow> collection_spec \<Rightarrow> validation_finding list" where
  "prefix_mismatch dash prefix i col = opt_each (\<lambda>fp.
     emit (\<not> starts_with fp prefix) VError ''sources.prefix-mismatch''
       (''collection '' @ quoted (cs_name col) @ '' binds '' @ quoted fp
        @ '', which is not under the declared sources prefix '' @ quoted prefix @ '' '' @ dash
        @ '' this runbook can never match it'') (indexed ''spec.collections'' i @ ''.sources.filenamePrefix''))
     (Option.bind (cs_sources col) sb_filename_prefix)"

definition check_prefix :: "string \<Rightarrow> collection_spec list \<Rightarrow> string \<Rightarrow> validation_finding list" where
  "check_prefix dash cols prefix =
     (if starts_with prefix ''/'' \<or> contains prefix ''..'' \<or> CHR 0x5C \<in> set prefix
      then [vfinding VError ''sources.prefix-invalid''
        (''prefix '' @ quoted prefix @ '' is not a valid blob path prefix (no leading '' @ quoted ''/'' @ '', ''
         @ quoted ''..'' @ '', or backslashes)'') ''spec.sources.prefix'']
      else emit (prefix \<noteq> [] \<and> \<not> ends_with prefix ''/'') VWarn ''sources.prefix-unterminated''
        (''prefix '' @ quoted prefix @ '' does not end in '' @ quoted ''/''
         @ ''; matching is a literal starts_with, so it also matches sibling paths that merely begin with those characters'')
        ''spec.sources.prefix'') @
     each (prefix_mismatch dash prefix) cols"

definition check_sources_spec :: "string \<Rightarrow> runbook_spec \<Rightarrow> validation_finding list" where
  "check_sources_spec dash s = opt_each (\<lambda>sources.
     opt_each (check_prefix dash (sp_collections s)) (ss_prefix sources) @
     emit (ss_container sources = None) VInfo ''sources.container-unset''
       (''no container declared; the server'' @ [CHR 0x27] @ ''s MUNARIUM_AZURE_BLOB_CONTAINER default applies'')
       ''spec.sources.container'') (sp_sources s)"

section \<open>Retrieval settings\<close>

text \<open>\<open>candidate_n as usize\<close> keeps the 64 bits of the signed value.\<close>

definition as_usize :: "int \<Rightarrow> nat" where
  "as_usize i = nat (i mod 2 ^ 64)"

text \<open>The doubles the literals 0.05 and 0.9 denote.\<close>

definition f64_0_05 :: rat where
  "f64_0_05 = 3602879701896397 / 72057594037927936"

definition f64_0_9 :: rat where
  "f64_0_9 = 8106479329266893 / 9007199254740992"

definition check_ranges :: "string \<Rightarrow> (wide \<Rightarrow> string) \<Rightarrow> retrieval_spec \<Rightarrow> validation_finding list" where
  "check_ranges dash show_wide r =
     emit (rs_top_k r = 0 \<or> 100 < rs_top_k r) VError ''retrieval.top-k-range''
       (''topK '' @ dec (rs_top_k r) @ '' outside 1..=100'') ''spec.retrieval.topK'' @
     emit (\<not> wide_within 1 1000 (rs_rrf_k r)) VError ''retrieval.rrf-k-range''
       (''rrfK '' @ show_wide (rs_rrf_k r) @ '' outside 1..=1000'') ''spec.retrieval.rrfK'' @
     emit (rs_candidate_n r < 1 \<or> 1000 < rs_candidate_n r) VError ''retrieval.candidate-n-range''
       (''candidateN '' @ dec_int (rs_candidate_n r) @ '' outside 1..=1000'') ''spec.retrieval.candidateN'' @
     emit (as_usize (rs_candidate_n r) < rs_top_k r) VWarn ''retrieval.candidates-below-top-k''
       (''candidateN < topK '' @ dash @ '' fusion can never fill topK hits'') ''spec.retrieval'' @
     emit (\<not> wide_finite (rs_query_expansion_weight r) \<or> \<not> wide_within 0 1 (rs_query_expansion_weight r)) VError
       ''retrieval.query-expansion-weight-range'' ''queryExpansionWeight must be finite and in 0..=1''
       ''spec.retrieval.queryExpansionWeight'' @
     emit (\<not> wide_finite (rs_stop_term_fraction r) \<or>
         (\<not> wide_is 0 (rs_stop_term_fraction r) \<and> \<not> wide_within f64_0_05 f64_0_9 (rs_stop_term_fraction r))) VError
       ''retrieval.stop-term-fraction-range'' ''stopTermFraction must be 0 (off) or in 0.05..=0.9''
       ''spec.retrieval.stopTermFraction'' @
     emit (\<not> (1 \<le> rs_minimum_should_match r \<and> rs_minimum_should_match r \<le> 2)) VError
       ''retrieval.minimum-should-match-range''
       ''minimumShouldMatch must be 1 (any query word) or 2 (at least two)'' ''spec.retrieval.minimumShouldMatch'' @
     emit (\<not> (1 \<le> rs_search_concurrency r \<and> rs_search_concurrency r \<le> 16)) VError
       ''retrieval.search-concurrency-range''
       ''searchConcurrency must be in 1..=16 (each in-flight search holds a pooled connection)''
       ''spec.retrieval.searchConcurrency''"

definition check_phrase_boost :: "retrieval_spec \<Rightarrow> validation_finding list" where
  "check_phrase_boost r = opt_each (\<lambda>selection.
     emit (\<not> wide_finite (sel_phrase_boost selection) \<or> \<not> wide_within 0 10 (sel_phrase_boost selection)) VError
       ''retrieval.collection-selection-phrase-boost-range'' ''phraseBoost must be in 0..=10''
       ''spec.retrieval.collectionSelection.phraseBoost'') (rs_collection_selection r)"

definition check_fusion :: "string \<Rightarrow> retrieval_spec \<Rightarrow> validation_finding list" where
  "check_fusion dash r = opt_each (\<lambda>fusion.
     concat (map (\<lambda>(field, weight).
       emit (\<not> wide_finite weight \<or> \<not> wide_within 0 10 weight) VError ''retrieval.fusion-weight-range''
         (field @ '' must be in 0..=10'') (''spec.retrieval.fusion.'' @ field))
       [(''lexicalWeight'', fu_lexical_weight fusion), (''vectorWeight'', fu_vector_weight fusion),
        (''collectionEvidenceWeight'', fu_collection_evidence_weight fusion),
        (''unselectedPoolWeight'', fu_unselected_pool_weight fusion)]) @
     emit (wide_is 0 (fu_lexical_weight fusion) \<and> wide_is 0 (fu_vector_weight fusion)) VError ''retrieval.fusion-no-leg''
       (''lexicalWeight and vectorWeight cannot both be 0 '' @ dash @ '' nothing would rank the hits'')
       ''spec.retrieval.fusion'' @
     emit (wide_positive (fu_collection_evidence_weight fusion) \<and> rs_collection_selection r = None) VWarn
       ''retrieval.fusion-evidence-without-selection''
       ''collectionEvidenceWeight has no effect without collectionSelection (no evidence ranking is produced)''
       ''spec.retrieval.fusion.collectionEvidenceWeight'') (rs_fusion r)"

definition check_model_expansion :: "retrieval_spec \<Rightarrow> validation_finding list" where
  "check_model_expansion r = opt_each (\<lambda>expansion.
     emit (\<not> (1 \<le> mq_max_terms expansion \<and> mq_max_terms expansion \<le> 32)) VError
       ''retrieval.model-query-expansion-max-terms-range'' ''maxTerms must be in 1..=32''
       ''spec.retrieval.modelQueryExpansion.maxTerms'' @
     emit (case mq_max_tokens expansion of None \<Rightarrow> False | Some t \<Rightarrow> \<not> (32 \<le> t \<and> t \<le> 512)) VError
       ''retrieval.model-query-expansion-max-tokens-range'' ''maxTokens must be in 32..=512''
       ''spec.retrieval.modelQueryExpansion.maxTokens'') (rs_model_query_expansion r)"

definition check_selection :: "retrieval_spec \<Rightarrow> validation_finding list" where
  "check_selection r = opt_each (\<lambda>selection.
     let pool = sel_candidate_pool_per_collection selection in
     emit (\<not> (1 \<le> sel_max_collections selection \<and> sel_max_collections selection \<le> 64)) VError
       ''retrieval.collection-selection-max-collections-range'' ''maxCollections must be in 1..=64''
       ''spec.retrieval.collectionSelection.maxCollections'' @
     emit (\<not> (1 \<le> sel_probe_candidate_n selection \<and> sel_probe_candidate_n selection \<le> 1000)) VError
       ''retrieval.collection-selection-probe-candidates-range'' ''probeCandidateN must be in 1..=1000''
       ''spec.retrieval.collectionSelection.probeCandidateN'' @
     (if \<not> (1 \<le> pool \<and> pool \<le> 1000)
      then [vfinding VError ''retrieval.collection-selection-candidate-pool-range''
        ''candidatePoolPerCollection must be in 1..=1000''
        ''spec.retrieval.collectionSelection.candidatePoolPerCollection'']
      else emit (pool < rs_top_k r) VWarn ''retrieval.collection-selection-pool-below-top-k''
        ''candidatePoolPerCollection < topK can discard useful per-collection candidates before global fusion''
        ''spec.retrieval.collectionSelection''))
     (rs_collection_selection r)"

definition bad_term :: "nat \<Rightarrow> string \<Rightarrow> bool" where
  "bad_term limit term_text \<longleftrightarrow> trim term_text = [] \<or> limit < byte_len term_text"

definition check_terms :: "string \<Rightarrow> string \<Rightarrow> string list \<Rightarrow> validation_finding list" where
  "check_terms code path terms = each (\<lambda>j t. emit (bad_term 80 t) VError code
     ''terms must be non-empty and at most 80 bytes'' (indexed path j)) terms"

definition check_route :: "collection_spec list \<Rightarrow> nat \<Rightarrow> collection_route_spec \<Rightarrow> validation_finding list" where
  "check_route cols i rt =
     (let path = indexed ''spec.retrieval.collectionRoutes'' i in
      emit (rt_when_all rt = []) VError ''retrieval.collection-route-no-trigger''
        ''whenAll must contain at least one trigger term'' (path @ ''.whenAll'') @
      emit (rt_collections rt = []) VError ''retrieval.collection-route-no-collections''
        ''collections must contain at least one runbook collection'' (path @ ''.collections'') @
      check_terms ''retrieval.collection-route-bad-term'' (path @ ''.whenAll'') (rt_when_all rt) @
      each (\<lambda>j c. emit (c \<notin> set (map cs_name cols)) VError ''retrieval.collection-route-unknown-collection''
        (''collection '' @ quoted c @ '' is not bound by this runbook'') (indexed (path @ ''.collections'') j))
        (rt_collections rt))"

definition check_expansion :: "nat \<Rightarrow> query_expansion_spec \<Rightarrow> validation_finding list" where
  "check_expansion i rule =
     (let path = indexed ''spec.retrieval.queryExpansions'' i in
      emit (qe_when_any rule = []) VError ''retrieval.query-expansion-no-trigger''
        ''whenAny must contain at least one trigger term'' (path @ ''.whenAny'') @
      emit (qe_add_terms rule = []) VError ''retrieval.query-expansion-no-additions''
        ''addTerms must contain at least one term'' (path @ ''.addTerms'') @
      concat (map (\<lambda>(field, terms).
        emit (64 < length terms) VError ''retrieval.query-expansion-too-many-terms''
          (field @ '' exceeds the maximum of 64 terms'') (path @ ''.'' @ field) @
        check_terms ''retrieval.query-expansion-bad-term'' (path @ ''.'' @ field) terms)
        [(''whenAny'', qe_when_any rule), (''addTerms'', qe_add_terms rule)]))"

definition check_demotion :: "string \<Rightarrow> collection_spec list \<Rightarrow> nat \<Rightarrow> content_demotion_spec \<Rightarrow> validation_finding list" where
  "check_demotion dash cols i rule =
     (let path = indexed ''spec.retrieval.contentDemotions'' i in
      emit (bad_term 512 (dm_contains rule)) VError ''retrieval.content-demotion-bad-marker''
        ''contains must be non-empty and at most 512 bytes'' (path @ ''.contains'') @
      emit (\<not> wide_finite (dm_lexical_multiplier rule) \<or> \<not> wide_within 0 1 (dm_lexical_multiplier rule)) VError
        ''retrieval.content-demotion-bad-lexical-multiplier'' ''lexicalMultiplier must be finite and in 0..=1''
        (path @ ''.lexicalMultiplier'') @
      emit (\<not> wide_finite (dm_vector_distance_penalty rule) \<or> \<not> wide_within 0 10 (dm_vector_distance_penalty rule))
        VError ''retrieval.content-demotion-bad-vector-penalty''
        ''vectorDistancePenalty must be finite and in 0..=10'' (path @ ''.vectorDistancePenalty'') @
      each (\<lambda>j name. emit (name \<notin> set (map cs_name cols)) VError ''retrieval.content-demotion-unknown-collection''
        (''exceptCollections names '' @ quoted name @ '', which spec.collections does not declare'')
        (indexed (path @ ''.exceptCollections'') j)) (dm_except_collections rule) @
      emit (dm_except_collections rule \<noteq> [] \<and> length cols \<le> length (dm_except_collections rule)) VWarn
        ''retrieval.content-demotion-excepts-all''
        (''exceptCollections covers every collection '' @ dash @ '' the rule never applies'')
        (path @ ''.exceptCollections'') @
      emit (wide_is 1 (dm_lexical_multiplier rule) \<and> wide_is 0 (dm_vector_distance_penalty rule)) VWarn
        ''retrieval.content-demotion-no-op'' ''content demotion has no effect'' path)"

definition too_many :: "string \<Rightarrow> string \<Rightarrow> 'a list \<Rightarrow> validation_finding list" where
  "too_many code field xs = emit (32 < length xs) VError code
     (dec (length xs) @ '' '' @ field @ '' exceeds the maximum of 32'') (''spec.retrieval.'' @ field)"

definition check_retrieval :: "string \<Rightarrow> (wide \<Rightarrow> string) \<Rightarrow> runbook_spec \<Rightarrow> validation_finding list" where
  "check_retrieval dash show_wide s = opt_each (\<lambda>r.
     check_ranges dash show_wide r @ check_phrase_boost r @ check_fusion dash r @ check_model_expansion r @
     check_selection r @
     too_many ''retrieval.too-many-collection-routes'' ''collectionRoutes'' (rs_collection_routes r) @
     each (check_route (sp_collections s)) (rs_collection_routes r) @
     too_many ''retrieval.too-many-query-expansions'' ''queryExpansions'' (rs_query_expansions r) @
     each check_expansion (rs_query_expansions r) @
     too_many ''retrieval.too-many-content-demotions'' ''contentDemotions'' (rs_content_demotions r) @
     each (check_demotion dash (sp_collections s)) (rs_content_demotions r)) (sp_retrieval s)"

section \<open>Models and completion\<close>

definition known_tier :: "string \<Rightarrow> bool" where
  "known_tier t \<longleftrightarrow> t \<in> {''fast'', ''capable'', ''frontier''}"

definition check_task :: "string \<times> model_spec \<Rightarrow> validation_finding list" where
  "check_task e =
     (let task = fst e; m = snd e; path = ''spec.models.tasks.'' @ task in
      emit (task \<notin> set TASK_LEVELS) VError ''models.unknown-task''
        (''unknown task level '' @ quoted task @ '' (known: '' @ join '', '' TASK_LEVELS @ '')'') path @
      emit (model_spec_empty m) VError ''models.empty-spec'' ''a model spec needs provider, model, or tier'' path @
      opt_each (\<lambda>t. emit (\<not> known_tier t) VError ''models.bad-tier''
        (''tier '' @ quoted t @ '' must be fast|capable|frontier'') (path @ ''.tier'')) (ms_tier m))"

definition check_models :: "runbook_spec \<Rightarrow> validation_finding list" where
  "check_models s = opt_each (\<lambda>models.
     concat (map check_task (md_tasks models)) @
     opt_each (\<lambda>d. emit (model_spec_empty d) VError ''models.empty-spec''
       ''models.default needs provider, model, or tier'' ''spec.models.default'') (md_default models)) (sp_models s)"

definition has_completion_model :: "runbook_spec \<Rightarrow> bool" where
  "has_completion_model s = (case sp_models s of None \<Rightarrow> False
     | Some m \<Rightarrow> map_of (md_tasks m) ''completion'' \<noteq> None \<or> md_default m \<noteq> None)"

definition check_completion :: "string \<Rightarrow> runbook_spec \<Rightarrow> validation_finding list" where
  "check_completion dash s = opt_each (\<lambda>c.
     concat (map (\<lambda>var. emit (\<not> contains (cm_prompt_template c) var) VWarn ''completion.template-missing-var''
       (''promptTemplate does not reference '' @ var) ''spec.completion.promptTemplate'') [''{context}'', ''{query}'']) @
     emit (\<not> has_completion_model s) VInfo ''completion.no-model-default''
       (''no completion model default '' @ dash @ '' turns will fall back to the tenant'' @ [CHR 0x27]
        @ ''s default provider chain'') ''spec.models'' @
     opt_each (\<lambda>budget. emit (\<not> (4000 \<le> budget \<and> budget \<le> 400000)) VError ''completion.context-char-budget-range''
       ''contextCharBudget must be in 4000..=400000 characters'' ''spec.completion.contextCharBudget'')
       (cm_context_char_budget c) @
     opt_each (\<lambda>tokens. emit (\<not> (256 \<le> tokens \<and> tokens \<le> 16384)) VError ''completion.max-tokens-range''
       ''maxTokens must be in 256..=16384 (the truncation retry pays 4x this)'' ''spec.completion.maxTokens'')
       (cm_max_tokens c)) (sp_completion s)"

section \<open>The validator\<close>

definition validate_runbook :: "string \<Rightarrow> (wide \<Rightarrow> string) \<Rightarrow> runbook_doc \<Rightarrow> validation_finding list" where
  "validate_runbook dash show_wide d =
     (let s = rb_spec d in
      check_metadata d @ check_embedding dash s @ check_steps dash (sp_steps s) @
      check_collections dash (sp_collections s) @ check_sources_spec dash s @
      check_retrieval dash show_wide s @ check_models s @ check_completion dash s)"

definition is_valid :: "validation_finding list \<Rightarrow> bool" where
  "is_valid fs \<longleftrightarrow> \<not> (\<exists>f \<in> set fs. fg_severity f = VError)"

end
