(* ===== verification/Runbook_Runs.thy ===== *)
theory Runbook_Runs
  imports Runbook_Validate Storage
begin

text \<open>
  Execution of a runbook (\<open>munarium-server/src/runbooks_api.rs\<close>): the flattened plan, the walk
  over it from the first unfinished unit, the approval gates, and starting and approving a run.

  A run is its row of \<open>runbook_runs\<close> with its rows of \<open>runbook_steps\<close> in ordinal order. The
  services a step calls (retrieval, the ledger, Munarium Matrix) are the record of parameters
  \<open>services\<close>; each may change the world \<open>'w\<close> they share and may fail. The advisory lock
  keeps one execution of a run at a time, so an execution is one step; \<open>locked\<close> says whether it
  was acquired.
\<close>

section \<open>The plan\<close>

record exec_unit =
  eu_step :: step_spec
  eu_collection :: "collection_spec option"
  eu_name :: string

definition unit_for :: "step_spec \<Rightarrow> collection_spec \<Rightarrow> exec_unit" where
  "unit_for step col = \<lparr>eu_step = step, eu_collection = Some col, eu_name = step_name step @ '':'' @ cs_name col\<rparr>"

definition runbook_scoped :: "step_spec \<Rightarrow> exec_unit" where
  "runbook_scoped step = \<lparr>eu_step = step, eu_collection = None, eu_name = step_name step\<rparr>"

definition expand :: "collection_spec list \<Rightarrow> step_spec \<Rightarrow> exec_unit list" where
  "expand cols step = (if step = VerifyDataViews then [runbook_scoped step] else map (unit_for step) cols)"

definition exec_units :: "runbook_doc \<Rightarrow> exec_unit list" where
  "exec_units d =
     (let s = rb_spec d in
      if is_v2 s
      then (case execution_order s of
          StepMajor \<Rightarrow> concat (map (expand (sp_collections s)) (sp_steps s))
        | CollectionMajor \<Rightarrow>
            concat (map (\<lambda>col. map (\<lambda>step. unit_for step col) (filter (\<lambda>step. step \<noteq> VerifyDataViews) (sp_steps s)))
              (sp_collections s)) @
            map runbook_scoped (filter (\<lambda>step. step = VerifyDataViews) (sp_steps s)))
      else map runbook_scoped (sp_steps s))"

section \<open>The run\<close>

record step_row =
  sr_name :: string
  sr_state :: step_state
  sr_detail :: "json option"

record 'w run =
  rn_id :: string
  rn_ref :: string
  rn_state :: string
  rn_version :: "string option"
  rn_steps :: "step_row list"
  rn_world :: 'w

text \<open>\<open>KernelError\<close>'s \<open>Display\<close>.\<close>

fun error_text :: "kernel_error \<Rightarrow> string" where
  "error_text (HeadConflict e a) = ''head conflict: expected seq '' @ dec e @ '', actual '' @ dec a"
| "error_text (PolicyRejection fs) = ''policy rejection: '' @ dec (length fs) @ '' finding(s)''"
| "error_text (NotFound k i) = ''not found: '' @ k @ '' '' @ i"
| "error_text (ShapeViolation s d) = ''shape violation for '' @ s @ '': '' @ d"
| "error_text IdempotencyMismatch = ''idempotency key replayed with a different request''"
| "error_text (InvalidInput s) = ''invalid input: '' @ s"
| "error_text (Unauthenticated s) = ''unauthenticated: '' @ s"
| "error_text (Forbidden s) = ''forbidden: '' @ s"
| "error_text (RateLimited s) = ''rate limited: '' @ s"
| "error_text (Storage s) = ''storage error: '' @ s"
| "error_text (DatastoreUnavailable s) = ''datastore unavailable: '' @ s"
| "error_text (Provider s) = ''provider error: '' @ s"

type_synonym ('w, 'a) service = "'w \<Rightarrow> (kernel_error + 'a) \<times> 'w"

record 'w services =
  sv_event :: "string \<Rightarrow> new_claim \<Rightarrow> ('w, unit) service"
  sv_head :: "string \<Rightarrow> ('w, nat) service"
  sv_sync_collection :: "collection_spec \<Rightarrow> ('w, string \<times> nat \<times> string list) service"
  sv_source_count :: "string \<Rightarrow> ('w, nat) service"
  sv_build_collection :: "collection_spec \<Rightarrow> nat \<Rightarrow> ('w, string \<times> nat) service"
  sv_build_shape :: "string \<Rightarrow> nat \<Rightarrow> ('w, string \<times> nat) service"
  sv_verify_collection :: "string \<Rightarrow> ('w, json) service"
  sv_verify_shape :: "string \<Rightarrow> ('w, json) service"
  sv_activate_collection :: "collection_spec \<Rightarrow> string \<Rightarrow> ('w, unit) service"
  sv_activate_shape :: "string \<Rightarrow> string \<Rightarrow> ('w, unit) service"
  sv_retire_collection :: "collection_spec \<Rightarrow> nat \<Rightarrow> ('w, nat) service"
  sv_retire_shape :: "string \<Rightarrow> nat \<Rightarrow> ('w, nat) service"
  sv_matrix_base :: "string option"
  sv_verify_views :: "string \<Rightarrow> data_view_spec list \<Rightarrow> ('w, json) service"

text \<open>A call of a service inside a run: its result, and the run in the world it left.\<close>

definition call :: "('w, 'a) service \<Rightarrow> 'w run \<Rightarrow> (kernel_error + 'a) \<times> 'w run" where
  "call f r = (let (x, w) = f (rn_world r) in (x, r\<lparr>rn_world := w\<rparr>))"

definition set_run_state :: "string \<Rightarrow> 'w run \<Rightarrow> 'w run" where
  "set_run_state st r = r\<lparr>rn_state := st\<rparr>"

definition mark :: "step_state \<Rightarrow> json option \<Rightarrow> step_row \<Rightarrow> step_row" where
  "mark st detail x = x\<lparr>sr_state := st, sr_detail := (case detail of None \<Rightarrow> sr_detail x | Some d \<Rightarrow> Some d)\<rparr>"

definition step_claim :: "string \<Rightarrow> nat \<Rightarrow> string \<Rightarrow> step_state \<Rightarrow> json option \<Rightarrow> new_claim" where
  "step_claim run_id ordinal name st detail =
     (new_claim_fact (''runbook-run-'' @ take 12 run_id)
        (''step-'' @ dec ordinal @ ''-'' @ name @ ''-'' @ step_state_str st) (step_state_str st))\<lparr>nc_evidence := detail\<rparr>"

definition checkpoint_mismatch :: kernel_error where
  "checkpoint_mismatch = InvalidInput ''runbook checkpoint identity mismatch''"

definition i32_max :: nat where
  "i32_max = 2 ^ 31 - 1"

text \<open>One transaction: the event, then the checkpoint row, which must be the one row of that
  ordinal, name and version; otherwise both are rolled back.\<close>

definition set_step :: "'w services \<Rightarrow> string option \<Rightarrow> nat \<Rightarrow> string \<Rightarrow> step_state \<Rightarrow> json option \<Rightarrow> 'w run \<Rightarrow>
    kernel_error + 'w run" where
  "set_step sv version_id ordinal name st detail r =
     (if i32_max < ordinal then Inl (InvalidInput ''step ordinal exceeds i32'')
      else
      res_bind (case version_id of
          None \<Rightarrow> Inr r
        | Some v \<Rightarrow> (case call (sv_event sv v (step_claim (rn_id r) ordinal name st detail)) r of
            (Inl e, _) \<Rightarrow> Inl e | (Inr _, r') \<Rightarrow> Inr r')) (\<lambda>r'.
      if ordinal < length (rn_steps r) \<and> sr_name (rn_steps r ! ordinal) = name \<and> rn_version r = version_id
      then Inr (r'\<lparr>rn_steps := (rn_steps r)[ordinal := mark st detail (rn_steps r ! ordinal)]\<rparr>)
      else Inl checkpoint_mismatch))"

definition step_detail :: "string \<Rightarrow> 'w run \<Rightarrow> json option" where
  "step_detail name r = Option.bind (find (\<lambda>x. sr_name x = name) (rn_steps r)) sr_detail"

section \<open>One unit\<close>

text \<open>An early return with \<open>?\<close> inside the match leaves \<open>execute\<close> at once; any other result of the
  step is recorded on its row.\<close>

datatype outcome = Abort kernel_error | Outcome "kernel_error + json"

fun map_res :: "('a \<Rightarrow> 'b) \<Rightarrow> 'e + 'a \<Rightarrow> 'e + 'b" where
  "map_res f (Inl e) = Inl e"
| "map_res f (Inr x) = Inr (f x)"

definition record_as :: "('a \<Rightarrow> json) \<Rightarrow> (kernel_error + 'a) \<times> 'w run \<Rightarrow> outcome \<times> 'w run" where
  "record_as f x = (Outcome (map_res f (fst x)), snd x)"

definition built_index :: "string \<Rightarrow> 'w run \<Rightarrow> string option" where
  "built_index name r = Option.bind (step_detail name r) (\<lambda>d. Option.bind (jget d ''index_version'') jas_str)"

definition index_json :: "string \<times> nat \<Rightarrow> json" where
  "index_json iv = jobj [(''index_version'', JStr (fst iv)), (''watermark'', jnat (snd iv))]"

definition activated_json :: "string \<Rightarrow> unit \<Rightarrow> json" where
  "activated_json built u = jobj [(''activated'', JStr built)]"

definition retired_json :: "nat \<Rightarrow> json" where
  "retired_json n = jobj [(''retired_chunk_rows'', jnat n)]"

definition needs_build :: "string \<Rightarrow> kernel_error" where
  "needs_build what = InvalidInput (what @ '' needs a prior buildIndex'')"

text \<open>The watermark is the head of the run's lineage; failing to read it is an early return.\<close>

definition watermark :: "'w services \<Rightarrow> string option \<Rightarrow> 'w run \<Rightarrow> (kernel_error + nat) \<times> 'w run" where
  "watermark sv version_id r = (case version_id of None \<Rightarrow> (Inr 0, r) | Some v \<Rightarrow> call (sv_head sv v) r)"

definition build_with :: "'w services \<Rightarrow> string option \<Rightarrow> (nat \<Rightarrow> ('w, string \<times> nat) service) \<Rightarrow> 'w run \<Rightarrow>
    outcome \<times> 'w run" where
  "build_with sv version_id f r =
     (case watermark sv version_id r of
        (Inl e, r') \<Rightarrow> (Abort e, r')
      | (Inr n, r') \<Rightarrow> record_as index_json (call (f n) r'))"

definition with_built :: "string \<Rightarrow> string \<Rightarrow> (string \<Rightarrow> 'w run \<Rightarrow> outcome \<times> 'w run) \<Rightarrow> 'w run \<Rightarrow> outcome \<times> 'w run" where
  "with_built what name f r =
     (case built_index name r of None \<Rightarrow> (Abort (needs_build what), r) | Some built \<Rightarrow> f built r)"

definition verify_data_views :: "'w services \<Rightarrow> runbook_doc \<Rightarrow> 'w run \<Rightarrow> (kernel_error + json) \<times> 'w run" where
  "verify_data_views sv d r =
     (let views = sp_data_views (rb_spec d) in
      if views = [] then (Inr (jobj [(''data_views'', jnat 0), (''verified'', jnat 0)]), r)
      else (case sv_matrix_base sv of
          None \<Rightarrow> (Inl (InvalidInput (''this runbook declares '' @ dec (length views)
            @ '' data view(s) but MUNARIUM_MATRIX_BASE_URL is not set, so they cannot be verified; set it or remove spec.dataViews'')), r)
        | Some base \<Rightarrow> call (sv_verify_views sv base views) r))"

definition sync_json :: "string \<times> nat \<times> string list \<Rightarrow> json" where
  "sync_json x = (case x of (i, n, missing) \<Rightarrow> jobj [(''collection_id'', JStr i), (''sources'', jnat n),
     (''missing_declared_hashes'', JArr (map JStr missing))])"

text \<open>The steps of a collection, and those of the shape-scoped pipeline.\<close>

fun perform_collection :: "'w services \<Rightarrow> runbook_doc \<Rightarrow> string option \<Rightarrow> collection_spec \<Rightarrow> step_spec \<Rightarrow> 'w run \<Rightarrow>
    outcome \<times> 'w run" where
  "perform_collection sv d version_id col ResolveSources r = record_as sync_json (call (sv_sync_collection sv col) r)"
| "perform_collection sv d version_id col BuildIndex r = build_with sv version_id (sv_build_collection sv col) r"
| "perform_collection sv d version_id col Verify r =
     with_built ''verify'' (''buildIndex:'' @ cs_name col) (\<lambda>built r. record_as id (call (sv_verify_collection sv built) r)) r"
| "perform_collection sv d version_id col (Cutover a) r =
     with_built ''cutover'' (''buildIndex:'' @ cs_name col)
       (\<lambda>built r. record_as (activated_json built) (call (sv_activate_collection sv col built) r)) r"
| "perform_collection sv d version_id col (RetireOld keep) r =
     record_as retired_json (call (sv_retire_collection sv col keep) r)"
| "perform_collection sv d version_id col VerifyDataViews r = record_as id (verify_data_views sv d r)"

definition shape_of :: "runbook_doc \<Rightarrow> string" where
  "shape_of d = (case sp_shape (rb_spec d) of None \<Rightarrow> [] | Some s \<Rightarrow> s)"

fun perform_shape :: "'w services \<Rightarrow> runbook_doc \<Rightarrow> string option \<Rightarrow> step_spec \<Rightarrow> 'w run \<Rightarrow> outcome \<times> 'w run" where
  "perform_shape sv d version_id ResolveSources r =
     record_as (\<lambda>n. jobj [(''sources'', jnat n)]) (call (sv_source_count sv (shape_of d)) r)"
| "perform_shape sv d version_id BuildIndex r = build_with sv version_id (sv_build_shape sv (shape_of d)) r"
| "perform_shape sv d version_id Verify r =
     with_built ''verify'' ''buildIndex'' (\<lambda>built r. record_as id (call (sv_verify_shape sv built) r)) r"
| "perform_shape sv d version_id (Cutover a) r =
     with_built ''cutover'' ''buildIndex''
       (\<lambda>built r. record_as (activated_json built) (call (sv_activate_shape sv (shape_of d) built) r)) r"
| "perform_shape sv d version_id (RetireOld keep) r =
     record_as retired_json (call (sv_retire_shape sv (shape_of d) keep) r)"
| "perform_shape sv d version_id VerifyDataViews r = record_as id (verify_data_views sv d r)"

definition perform :: "'w services \<Rightarrow> runbook_doc \<Rightarrow> string option \<Rightarrow> exec_unit \<Rightarrow> 'w run \<Rightarrow> outcome \<times> 'w run" where
  "perform sv d version_id u r =
     (case eu_collection u of
        Some col \<Rightarrow> perform_collection sv d version_id col (eu_step u) r
      | None \<Rightarrow> perform_shape sv d version_id (eu_step u) r)"

section \<open>The walk\<close>

definition current_state :: "step_row list \<Rightarrow> nat \<Rightarrow> step_state" where
  "current_state rows ordinal = (if ordinal < length rows then sr_state (rows ! ordinal) else Pending)"

definition error_json :: "kernel_error \<Rightarrow> json" where
  "error_json e = jobj [(''error'', JStr (error_text e))]"

text \<open>The unit is running: perform it and record what it gave. \<open>Inr r\<close> goes on with the next
  unit, \<open>Inl (result, r)\<close> leaves the walk.\<close>

definition finish_unit :: "'w services \<Rightarrow> runbook_doc \<Rightarrow> string option \<Rightarrow> nat \<Rightarrow> exec_unit \<Rightarrow> 'w run \<Rightarrow>
    (kernel_error + string) \<times> 'w run + 'w run" where
  "finish_unit sv d version_id ordinal u r =
     (case perform sv d version_id u r of
        (Abort e, r') \<Rightarrow> Inl (Inl e, r')
      | (Outcome (Inr detail), r') \<Rightarrow>
          (case set_step sv version_id ordinal (eu_name u) Done (Some detail) r' of
             Inl e \<Rightarrow> Inl (Inl e, r') | Inr r'' \<Rightarrow> Inr r'')
      | (Outcome (Inl e), r') \<Rightarrow>
          (case set_step sv version_id ordinal (eu_name u) Failed (Some (error_json e)) r' of
             Inl e' \<Rightarrow> Inl (Inl e', r') | Inr r'' \<Rightarrow> Inl (Inl e, set_run_state ''failed'' r'')))"

fun walk :: "'w services \<Rightarrow> runbook_doc \<Rightarrow> string option \<Rightarrow> nat option \<Rightarrow> step_row list \<Rightarrow> (nat \<times> exec_unit) list \<Rightarrow>
    'w run \<Rightarrow> (kernel_error + string) \<times> 'w run" where
  "walk sv d version_id approved rows [] r = (Inr ''done'', set_run_state ''done'' r)"
| "walk sv d version_id approved rows ((ordinal, u) # us) r =
     (let current = current_state rows ordinal in
      if current = Done then walk sv d version_id approved rows us r
      else if requires_approval (eu_step u) \<and> approved \<noteq> Some ordinal \<and> current \<noteq> AwaitingApproval
      then (case set_step sv version_id ordinal (eu_name u) AwaitingApproval None r of
          Inl e \<Rightarrow> (Inl e, r)
        | Inr r' \<Rightarrow> (Inr ''awaiting_approval'', set_run_state ''awaiting_approval'' r'))
      else if current = AwaitingApproval \<and> approved \<noteq> Some ordinal then (Inr ''awaiting_approval'', r)
      else (case set_step sv version_id ordinal (eu_name u) Running None r of
          Inl e \<Rightarrow> (Inl e, r)
        | Inr r' \<Rightarrow>
            (case finish_unit sv d version_id ordinal u r' of
               Inl result \<Rightarrow> result
             | Inr r'' \<Rightarrow> walk sv d version_id approved rows us r'')))"

definition execute :: "'w services \<Rightarrow> runbook_doc \<Rightarrow> string option \<Rightarrow> nat option \<Rightarrow> 'w run \<Rightarrow>
    (kernel_error + string) \<times> 'w run" where
  "execute sv d version_id approved r =
     walk sv d version_id approved (rn_steps r) (List.enumerate 0 (exec_units d)) r"

section \<open>Starting and approving\<close>

definition run_locked :: "string \<Rightarrow> kernel_error" where
  "run_locked run_id = InvalidInput (''run-locked: run '' @ quoted run_id
     @ '' is already executing on another instance; poll GET /v1/runs/'' @ run_id @ '' and retry when it settles'')"

definition planned_run :: "runbook_doc \<Rightarrow> string \<Rightarrow> string option \<Rightarrow> 'w \<Rightarrow> 'w run" where
  "planned_run d run_id version_id w = \<lparr>rn_id = run_id, rn_ref = runbook_ref d, rn_state = ''running'',
     rn_version = version_id,
     rn_steps = map (\<lambda>u. \<lparr>sr_name = eu_name u, sr_state = Pending, sr_detail = None\<rparr>) (exec_units d), rn_world = w\<rparr>"

definition op_run_runbook :: "'w services \<Rightarrow> bool \<Rightarrow> runbook_doc \<Rightarrow> string \<Rightarrow> string option \<Rightarrow> 'w \<Rightarrow>
    (kernel_error + string) \<times> 'w run" where
  "op_run_runbook sv locked d run_id version_id w =
     (let r = planned_run d run_id version_id w in
      if \<not> locked then (Inl (run_locked run_id), r) else execute sv d version_id None r)"

text \<open>The document is loaded again under the stored reference, so it may be a later edition.\<close>

definition op_approve_step :: "'w services \<Rightarrow> bool \<Rightarrow> kernel_error + runbook_doc \<Rightarrow> nat \<Rightarrow> 'w run \<Rightarrow>
    (kernel_error + string) \<times> 'w run" where
  "op_approve_step sv locked loaded ordinal r =
     (if i32_max < ordinal then (Inl (InvalidInput ''step ordinal exceeds signed-32 range''), r)
      else if \<not> locked then (Inl (run_locked (rn_id r)), r)
      else if length (rn_steps r) \<le> ordinal then (Inl (NotFound ''step'' (dec ordinal)), r)
      else if sr_state (rn_steps r ! ordinal) \<noteq> AwaitingApproval
      then (Inl (InvalidInput (''step '' @ dec ordinal @ '' is '' @ quoted (step_state_str (sr_state (rn_steps r ! ordinal)))
        @ '', not awaiting_approval'')), r)
      else (case loaded of
          Inl e \<Rightarrow> (Inl e, r)
        | Inr d \<Rightarrow> execute sv d (rn_version r) (Some ordinal) (set_run_state ''running'' r)))"

end
