(* ===== verification/Runbook_Plan.thy ===== *)
theory Runbook_Plan
  imports Runbook_Runs "HOL-Library.Multiset"
begin

text \<open>
  What an accepted runbook guarantees before it runs: the research profiles that validation
  lets through, the order of steps a runbook without error findings has, and the flattened
  plan under both execution orders.
\<close>

section \<open>Validated research profiles\<close>

text \<open>A fold that checks each element and remembers its key, refusing a key met before.\<close>

lemma res_fold_keyed:
  assumes "\<And>names x ys. f names x = Inr ys \<longleftrightarrow> P x \<and> key x \<notin> set names \<and> ys = key x # names"
  shows "res_fold f names xs = Inr ys \<longleftrightarrow>
    (\<forall>x \<in> set xs. P x) \<and> distinct (map key xs) \<and> set (map key xs) \<inter> set names = {} \<and> ys = rev (map key xs) @ names"
proof (induction xs arbitrary: names)
  case (Cons x xs)
  have "res_fold f names (x # xs) = Inr ys \<longleftrightarrow> P x \<and> key x \<notin> set names \<and> res_fold f (key x # names) xs = Inr ys"
    by (auto simp: res_bind_eq_Inr assms)
  then show ?case unfolding Cons.IH by auto
qed auto

definition view_ok :: "data_view_spec \<Rightarrow> bool" where
  "view_ok v \<longleftrightarrow> name_ok (dv_name v) \<and> contract_ref_ok (dv_contract v)"

lemma check_view_Inr: "check_view names v = Inr ys \<longleftrightarrow> view_ok v \<and> dv_name v \<notin> set names \<and> ys = dv_name v # names"
  by (auto simp: check_view_def view_ok_def)

lemma check_sources_Inr: "check_sources views collections p l ss = Inr u \<longleftrightarrow> (\<forall>s \<in> set ss. known_source views collections s)"
  by (induction ss) auto

text \<open>A layer that must survive whole names its size, and when it is required it fits the budget
  that applies to it.\<close>

definition preserve_ok :: "nat option \<Rightarrow> research_profile_spec \<Rightarrow> research_layer_spec \<Rightarrow> bool" where
  "preserve_ok completion p l \<longleftrightarrow> (rl_preserve_complete_result l \<longrightarrow>
     (\<exists>m. rl_max_bytes l = Some m \<and>
       (rl_requirement l = Required \<longrightarrow> (\<forall>b. layer_budget completion p l = Some b \<longrightarrow> m \<le> b))))"

lemma check_preserve_Inr: "check_preserve completion p l = Inr u \<longleftrightarrow> preserve_ok completion p l"
  by (auto simp: check_preserve_def preserve_ok_def split: option.splits)

definition layer_ok :: "string list \<Rightarrow> string list \<Rightarrow> nat option \<Rightarrow> research_profile_spec \<Rightarrow> research_layer_spec \<Rightarrow> bool" where
  "layer_ok views collections completion p l \<longleftrightarrow> trim (rl_name l) \<noteq> [] \<and> rl_sources l \<noteq> [] \<and>
     (\<forall>s \<in> set (rl_sources l). known_source views collections s) \<and> preserve_ok completion p l"

lemma check_layer_Inr: "check_layer views collections completion p names l = Inr ys \<longleftrightarrow>
    layer_ok views collections completion p l \<and> rl_name l \<notin> set names \<and> ys = rl_name l # names"
  by (auto simp: check_layer_def layer_ok_def res_bind_eq_Inr check_sources_Inr check_preserve_Inr)

definition profile_ok :: "string list \<Rightarrow> string list \<Rightarrow> nat option \<Rightarrow> research_profile_spec \<Rightarrow> bool" where
  "profile_ok views collections completion p \<longleftrightarrow> name_ok (rp_name p) \<and>
     (\<exists>l \<in> set (rp_layers p). rl_requirement l \<noteq> Fallback) \<and>
     distinct (map rl_name (rp_layers p)) \<and>
     (\<forall>l \<in> set (rp_layers p). layer_ok views collections completion p l)"

lemma check_profile_Inr: "check_profile views collections completion names p = Inr ys \<longleftrightarrow>
    profile_ok views collections completion p \<and> rp_name p \<notin> set names \<and> ys = rp_name p # names"
  by (auto simp: check_profile_def profile_ok_def res_bind_eq_Inr
      res_fold_keyed[of _ "layer_ok views collections completion p" rl_name, OF check_layer_Inr])

lemma known_source_names: "set views = set views' \<Longrightarrow> known_source views collections s = known_source views' collections s"
  by (simp add: known_source_def split: option.splits)

lemma profile_ok_names: "set views = set views' \<Longrightarrow>
    profile_ok views collections completion p = profile_ok views' collections completion p"
  by (simp add: profile_ok_def layer_ok_def known_source_names[of views views'])

text \<open>Research validation accepts exactly the profiles that can be served: data views and
  profiles have well-formed, distinct names and pinned contracts; every profile has distinct
  layers of which one is not a fallback; every source a layer names is a declared collection,
  data view or fact scope; a layer that preserves its complete result names its size, and a
  required one fits the budget that applies to it; and the default profile is declared.\<close>

theorem validate_research_exact:
  "validate_research profiles data_views default_profile collections completion = Inr () \<longleftrightarrow>
     list_all view_ok data_views \<and> distinct (map dv_name data_views) \<and>
     list_all (profile_ok (map dv_name data_views) collections completion) profiles \<and>
     distinct (map rp_name profiles) \<and>
     (case default_profile of None \<Rightarrow> True | Some d \<Rightarrow> d \<in> rp_name ` set profiles)"
proof -
  have v: "res_fold check_view [] data_views = Inr views \<longleftrightarrow>
      (\<forall>v \<in> set data_views. view_ok v) \<and> distinct (map dv_name data_views) \<and> views = rev (map dv_name data_views)" for views
    by (simp add: res_fold_keyed[of check_view view_ok dv_name, OF check_view_Inr])
  have p: "res_fold (check_profile views collections completion) [] profiles = Inr names \<longleftrightarrow>
      (\<forall>p \<in> set profiles. profile_ok views collections completion p) \<and> distinct (map rp_name profiles) \<and>
      names = rev (map rp_name profiles)" for views names
    by (simp add: res_fold_keyed[of _ "profile_ok views collections completion" rp_name, OF check_profile_Inr])
  have "profile_ok (rev (map dv_name data_views)) collections completion = profile_ok (map dv_name data_views) collections completion"
    by (rule ext, rule profile_ok_names) simp
  then show ?thesis unfolding validate_research_def res_bind_eq_Inr v p list_all_iff
    by (auto split: option.splits if_splits)
qed

section \<open>Steps of a valid runbook\<close>

lemma position_Some: "position P xs = Some i \<longleftrightarrow> i < length xs \<and> P (xs ! i) \<and> (\<forall>j < i. \<not> P (xs ! j))"
proof (induction xs arbitrary: i)
  case (Cons x xs)
  show ?case
  proof (cases "P x")
    case True
    then show ?thesis by (cases i) auto
  next
    case False
    then show ?thesis using Cons.IH by (cases i) (auto simp: less_Suc_eq_0_disj)
  qed
qed simp

lemma position_None: "position P xs = None \<longleftrightarrow> (\<forall>x \<in> set xs. \<not> P x)"
  by (induction xs) auto

definition after_build :: "step_spec \<Rightarrow> bool" where
  "after_build s \<longleftrightarrow> step_name s \<in> {''verify'', ''cutover'', ''retireOld''}"

lemma step_name_build: "step_name s = ''buildIndex'' \<longleftrightarrow> s = BuildIndex"
  by (cases s) simp_all

lemma is_valid_append: "is_valid (xs @ ys) \<longleftrightarrow> is_valid xs \<and> is_valid ys"
  by (auto simp: is_valid_def)

lemma is_valid_emit_error: "is_valid (emit c VError code message path) \<longleftrightarrow> \<not> c"
  by (simp add: is_valid_def emit_def vfinding_def)

lemma valid_dependent:
  assumes "is_valid (check_dependent steps dep code)" "i < length steps" "step_name (steps ! i) = dep" "dep \<noteq> ''buildIndex''"
  shows "\<exists>b < i. steps ! b = BuildIndex"
proof -
  obtain e where e: "step_pos steps dep = Some e"
    using assms(2,3) position_None[of "\<lambda>s. step_name s = dep" steps] by (fastforce simp: step_pos_def)
  from e have first: "e \<le> i" "step_name (steps ! e) = dep"
    using assms(2,3) by (auto simp: step_pos_def position_Some not_less[symmetric])
  from assms(1) e have "\<not> (case step_pos steps ''buildIndex'' of None \<Rightarrow> True | Some b \<Rightarrow> e < b)"
    unfolding check_dependent_def e opt_each_def option.case is_valid_emit_error by (simp only: not_True_eq_False simp_thms)
  then obtain b where b: "step_pos steps ''buildIndex'' = Some b" "b \<le> e" by (auto split: option.splits)
  from b(1) have "step_name (steps ! b) = ''buildIndex''" by (simp add: step_pos_def position_Some)
  then have "steps ! b = BuildIndex" "b \<noteq> e" using first(2) assms(4) by (auto simp: step_name_build)
  with b(2) first(1) show ?thesis by (intro exI[of _ b]) simp
qed

lemma valid_steps:
  assumes "is_valid (validate_runbook dash show_wide d)" "i < length (sp_steps (rb_spec d))"
    and "after_build (sp_steps (rb_spec d) ! i)"
  shows "\<exists>b < i. sp_steps (rb_spec d) ! b = BuildIndex"
proof -
  let ?steps = "sp_steps (rb_spec d)"
  have v: "is_valid (check_dependent ?steps ''verify'' ''steps.verify-before-build'')"
    "is_valid (check_dependent ?steps ''cutover'' ''steps.cutover-before-build'')"
    "is_valid (check_dependent ?steps ''retireOld'' ''steps.retire-before-build'')"
    using assms(1) unfolding validate_runbook_def check_steps_def Let_def is_valid_append by blast+
  from assms(3) consider "step_name (?steps ! i) = ''verify''" | "step_name (?steps ! i) = ''cutover''"
    | "step_name (?steps ! i) = ''retireOld''" unfolding after_build_def by blast
  then show ?thesis
  proof cases
    case 1
    from valid_dependent[OF v(1) assms(2) 1] show ?thesis by simp
  next
    case 2
    from valid_dependent[OF v(2) assms(2) 2] show ?thesis by simp
  next
    case 3
    from valid_dependent[OF v(3) assms(2) 3] show ?thesis by simp
  qed
qed

section \<open>The flattened plan\<close>

definition with_order :: "execution_order \<Rightarrow> runbook_doc \<Rightarrow> runbook_doc" where
  "with_order order d = d\<lparr>rb_spec := (rb_spec d)\<lparr>sp_execution := Some order\<rparr>\<rparr>"

definition collection_steps :: "runbook_doc \<Rightarrow> step_spec list" where
  "collection_steps d = filter (\<lambda>step. step \<noteq> VerifyDataViews) (sp_steps (rb_spec d))"

lemma mset_concat_Cons: "mset (concat (map (\<lambda>c. f c # g c) cs)) = mset (map f cs) + mset (concat (map g cs))"
  by (induction cs) simp_all

lemma mset_plan:
  "mset (concat (map (expand cols) steps)) =
     mset (concat (map (\<lambda>col. map (\<lambda>step. unit_for step col) (filter (\<lambda>step. step \<noteq> VerifyDataViews) steps)) cols)) +
     mset (map runbook_scoped (filter (\<lambda>step. step = VerifyDataViews) steps))"
proof (induction steps)
  case Nil
  show ?case by (induction cols) simp_all
next
  case (Cons step steps)
  show ?case
  proof (cases "step = VerifyDataViews")
    case True
    with Cons show ?thesis by (simp add: expand_def)
  next
    case False
    with Cons show ?thesis
      by (simp add: expand_def mset_concat_Cons[of "unit_for step"])
  qed
qed

lemma filter_concat_unique:
  assumes "distinct cols" "col \<in> set cols" "\<And>c. c \<in> set cols \<Longrightarrow> c \<noteq> col \<Longrightarrow> filter p (f c) = []"
  shows "filter p (concat (map f cols)) = filter p (f col)"
  using assms
proof (induction cols)
  case (Cons c cs)
  show ?case
  proof (cases "c = col")
    case True
    with Cons.prems have "\<forall>x \<in> set cs. filter p (f x) = []" by auto
    then have "filter p (concat (map f cs)) = []" by (auto simp: filter_concat filter_empty_conv)
    with True show ?thesis by simp
  next
    case False
    with Cons show ?thesis by simp
  qed
qed simp

definition of_collection :: "collection_spec \<Rightarrow> exec_unit \<Rightarrow> bool" where
  "of_collection col u \<longleftrightarrow> eu_collection u = Some col"

lemma of_collection_simps [simp]: "of_collection col (unit_for step c) \<longleftrightarrow> c = col" "\<not> of_collection col (runbook_scoped step)"
  by (auto simp: of_collection_def unit_for_def runbook_scoped_def)

lemma filter_expand: "distinct cols \<Longrightarrow> col \<in> set cols \<Longrightarrow>
    filter (of_collection col) (expand cols step) = (if step = VerifyDataViews then [] else [unit_for step col])"
proof -
  assume "distinct cols" "col \<in> set cols"
  then have "filter (of_collection col) (map (unit_for step) cols) = [unit_for step col]"
    by (induction cols) (auto simp: filter_empty_conv)
  then show ?thesis by (simp add: expand_def)
qed

text \<open>The two execution orders plan the same work: as multisets their units are equal, and
  under either order the units of each of the distinct collections are the runbook's steps in
  their order, data-view verification apart, which is planned once.\<close>

theorem plan_orders_agree:
  assumes "sp_collections (rb_spec d) \<noteq> []"
  shows "mset (exec_units (with_order StepMajor d)) = mset (exec_units (with_order CollectionMajor d))
    \<and> (distinct (sp_collections (rb_spec d)) \<longrightarrow> (\<forall>col \<in> set (sp_collections (rb_spec d)). \<forall>order.
        filter (of_collection col) (exec_units (with_order order d)) = map (\<lambda>step. unit_for step col) (collection_steps d)))"
proof -
  let ?cols = "sp_collections (rb_spec d)" and ?steps = "sp_steps (rb_spec d)"
  have s: "exec_units (with_order StepMajor d) = concat (map (expand ?cols) ?steps)"
    using assms by (simp add: exec_units_def with_order_def is_v2_def execution_order_def)
  have c: "exec_units (with_order CollectionMajor d) =
      concat (map (\<lambda>col. map (\<lambda>step. unit_for step col) (filter (\<lambda>step. step \<noteq> VerifyDataViews) ?steps)) ?cols) @
      map runbook_scoped (filter (\<lambda>step. step = VerifyDataViews) ?steps)"
    using assms by (simp add: exec_units_def with_order_def is_v2_def execution_order_def)
  have "filter (of_collection col) (exec_units (with_order order d)) = map (\<lambda>step. unit_for step col) (collection_steps d)"
    if d: "distinct ?cols" and m: "col \<in> set ?cols" for col order
  proof (cases order)
    case StepMajor
    have "filter (of_collection col) (concat (map (expand ?cols) steps)) =
        map (\<lambda>step. unit_for step col) (filter (\<lambda>step. step \<noteq> VerifyDataViews) steps)" for steps
      by (induction steps) (simp_all add: filter_expand[OF d m])
    then show ?thesis by (simp add: StepMajor s collection_steps_def)
  next
    case CollectionMajor
    let ?f = "\<lambda>col. map (\<lambda>step. unit_for step col) (filter (\<lambda>step. step \<noteq> VerifyDataViews) ?steps)"
    have "filter (of_collection col) (concat (map ?f ?cols)) = filter (of_collection col) (?f col)"
      using d m by (rule filter_concat_unique) (auto simp: filter_empty_conv)
    also have "\<dots> = ?f col" by (auto simp: filter_id_conv)
    finally show ?thesis by (simp add: CollectionMajor c collection_steps_def filter_empty_conv)
  qed
  then show ?thesis unfolding s c using mset_plan[of ?cols ?steps] by auto
qed

text \<open>A runbook of two collections.\<close>

definition sample_doc :: "step_spec list \<Rightarrow> runbook_doc" where
  "sample_doc steps = \<lparr>rb_api_version = ''munarium/v2'', rb_kind = ''Runbook'', rb_name = ''nightly'', rb_version = 1,
     rb_spec = \<lparr>sp_shape = None,
       sp_collections = map (\<lambda>n. \<lparr>cs_name = n, cs_shape = ''doc@1'', cs_access_level = 0, cs_compartments = [],
         cs_sources = None, cs_evidence = None\<rparr>) [''press'', ''memo''],
       sp_retrieval = None, sp_data_views = [], sp_models = None, sp_completion = None, sp_sources = None,
       sp_execution = None, sp_steps_raw = [], sp_steps = steps\<rparr>\<rparr>"

lemma plan_orders_agree_witness:
  "mset (exec_units (with_order StepMajor (sample_doc [BuildIndex, Verify]))) =
     mset (exec_units (with_order CollectionMajor (sample_doc [BuildIndex, Verify]))) \<and>
   filter (of_collection (hd (sp_collections (rb_spec (sample_doc [BuildIndex, Verify])))))
       (exec_units (with_order StepMajor (sample_doc [BuildIndex, Verify]))) =
     map (\<lambda>step. unit_for step (hd (sp_collections (rb_spec (sample_doc [BuildIndex, Verify])))))
       (collection_steps (sample_doc [BuildIndex, Verify]))"
proof -
  let ?d = "sample_doc [BuildIndex, Verify]"
  have "sp_collections (rb_spec ?d) \<noteq> []" "distinct (sp_collections (rb_spec ?d))" by (simp_all add: sample_doc_def)
  then show ?thesis using plan_orders_agree[of ?d] hd_in_set by blast
qed

end
