(* ===== verification/Runbook_Properties.thy ===== *)
theory Runbook_Properties
  imports Runbook_Plan
begin

text \<open>
  The order of the units of a valid runbook: every unit that needs an index comes after one that
  builds it, whatever the execution order and the collections.
\<close>

section \<open>Units of a plan\<close>

definition planned :: "exec_unit \<Rightarrow> bool" where
  "planned u \<longleftrightarrow> (\<exists>step. u = runbook_scoped step \<or> (\<exists>col. u = unit_for step col))"

lemma plan_planned: "u \<in> set (exec_units d) \<Longrightarrow> planned u"
  by (auto simp: exec_units_def Let_def expand_def planned_def split: execution_order.splits if_splits)

lemma name_prefix:
  assumes "planned u"
  shows "takeWhile (\<lambda>c. c \<noteq> CHR '':'') (eu_name u) = step_name (eu_step u)"
proof -
  have long: "takeWhile (\<lambda>c. c \<noteq> CHR '':'') (step_name s @ '':'' @ r) = step_name s" for s r
    by (cases s) simp_all
  have short: "takeWhile (\<lambda>c. c \<noteq> CHR '':'') (step_name s) = step_name s" for s
    by (cases s) simp_all
  from assms consider s where "u = runbook_scoped s" | s col where "u = unit_for s col" unfolding planned_def by blast
  then show ?thesis
  proof cases
    case 1
    then show ?thesis by (simp only: runbook_scoped_def exec_unit.select_convs short)
  next
    case 2
    then show ?thesis by (simp only: unit_for_def exec_unit.select_convs long)
  qed
qed

text \<open>The name under which a unit looks up its index.\<close>

definition build_name :: "exec_unit \<Rightarrow> string" where
  "build_name u = (case eu_collection u of None \<Rightarrow> ''buildIndex'' | Some col \<Rightarrow> ''buildIndex:'' @ cs_name col)"

lemma build_name_step: "planned v \<Longrightarrow> eu_name v = build_name u \<Longrightarrow> eu_step v = BuildIndex"
proof -
  assume v: "planned v" "eu_name v = build_name u"
  have "takeWhile (\<lambda>c. c \<noteq> CHR '':'') (build_name u) = ''buildIndex''"
    by (simp add: build_name_def split: option.splits)
  then have "step_name (eu_step v) = ''buildIndex''" using name_prefix[OF v(1)] v(2) by simp
  then show ?thesis by (simp only: step_name_build)
qed

definition needs_index :: "exec_unit \<Rightarrow> bool" where
  "needs_index u \<longleftrightarrow> eu_step u = Verify \<or> (\<exists>a. eu_step u = Cutover a)"

text \<open>Plans in which every unit that needs an index comes after one that builds it.\<close>

definition builds_first :: "exec_unit list \<Rightarrow> bool" where
  "builds_first us \<longleftrightarrow> (\<forall>i < length us. needs_index (us ! i) \<longrightarrow> (\<exists>j < i. eu_name (us ! j) = build_name (us ! i)))"

fun builds_first_from :: "exec_unit set \<Rightarrow> exec_unit list \<Rightarrow> bool" where
  "builds_first_from pre [] = True"
| "builds_first_from pre (u # us) =
     ((needs_index u \<longrightarrow> (\<exists>v \<in> pre. eu_name v = build_name u)) \<and> builds_first_from (insert u pre) us)"

lemma builds_first_from_nth: "builds_first_from pre us \<Longrightarrow> i < length us \<Longrightarrow> needs_index (us ! i) \<Longrightarrow>
    \<exists>v \<in> pre \<union> set (take i us). eu_name v = build_name (us ! i)"
proof (induction us arbitrary: pre i)
  case (Cons u us)
  then show ?case by (cases i) auto
qed simp

lemma builds_first_from_D: "builds_first_from {} us \<Longrightarrow> builds_first us"
  unfolding builds_first_def
proof (intro allI impI)
  fix i
  assume *: "builds_first_from {} us" "i < length us" "needs_index (us ! i)"
  then obtain v where "v \<in> set (take i us)" "eu_name v = build_name (us ! i)"
    using builds_first_from_nth[OF *] by auto
  then show "\<exists>j < i. eu_name (us ! j) = build_name (us ! i)"
    using *(2) by (auto simp: in_set_conv_nth)
qed

lemma builds_first_from_append:
  "builds_first_from pre (xs @ ys) \<longleftrightarrow> builds_first_from pre xs \<and> builds_first_from (set xs \<union> pre) ys"
  by (induction xs arbitrary: pre) auto

lemma builds_first_from_mono: "builds_first_from pre us \<Longrightarrow> pre \<subseteq> pre' \<Longrightarrow> builds_first_from pre' us"
proof (induction us arbitrary: pre pre')
  case (Cons u us)
  from Cons.prems have "builds_first_from (insert u pre') us"
    by (intro Cons.IH[of "insert u pre" "insert u pre'"]) auto
  with Cons.prems show ?case by auto
qed simp

lemma builds_first_from_all: "(\<And>u. u \<in> set us \<Longrightarrow> needs_index u \<Longrightarrow> \<exists>v \<in> pre. eu_name v = build_name u) \<Longrightarrow>
    builds_first_from pre us"
proof (induction us arbitrary: pre)
  case (Cons u us)
  have "builds_first_from (insert u pre) us" using Cons.prems by (intro Cons.IH) (metis insertCI list.set_intros(2))
  with Cons.prems show ?case by simp
qed simp

text \<open>Steps that come after their build.\<close>

fun ordered_steps :: "bool \<Rightarrow> step_spec list \<Rightarrow> bool" where
  "ordered_steps built [] = True"
| "ordered_steps built (s # ss) = ((after_build s \<longrightarrow> built) \<and> ordered_steps (built \<or> s = BuildIndex) ss)"

lemma ordered_steps_iff: "ordered_steps built ss \<longleftrightarrow>
    (\<forall>i < length ss. after_build (ss ! i) \<longrightarrow> built \<or> (\<exists>b < i. ss ! b = BuildIndex))"
proof (induction ss arbitrary: built)
  case (Cons s ss)
  have "(\<exists>b < Suc i. (s # ss) ! b = BuildIndex) \<longleftrightarrow> s = BuildIndex \<or> (\<exists>b < i. ss ! b = BuildIndex)" for i
    by (auto simp: less_Suc_eq_0_disj)
  then show ?case by (auto simp: Cons.IH All_less_Suc2)
qed simp

lemma needs_index_after: "needs_index u \<Longrightarrow> after_build (eu_step u)"
  by (auto simp: needs_index_def after_build_def)

lemma unit_simps [simp]: "eu_step (unit_for s c) = s" "eu_step (runbook_scoped s) = s"
    "eu_name (unit_for BuildIndex c) = ''buildIndex:'' @ cs_name c" "eu_name (runbook_scoped BuildIndex) = ''buildIndex''"
    "build_name (unit_for s c) = ''buildIndex:'' @ cs_name c" "build_name (runbook_scoped s) = ''buildIndex''"
  by (simp_all add: unit_for_def runbook_scoped_def build_name_def)

lemma scoped_builds_first: "ordered_steps built ss \<Longrightarrow> (built \<longrightarrow> runbook_scoped BuildIndex \<in> pre) \<Longrightarrow>
    builds_first_from pre (map runbook_scoped ss)"
proof (induction ss arbitrary: built pre)
  case (Cons s ss)
  have "builds_first_from (insert (runbook_scoped s) pre) (map runbook_scoped ss)"
    using Cons.prems by (intro Cons.IH[of "built \<or> s = BuildIndex"]) auto
  moreover have "\<exists>v \<in> pre. eu_name v = build_name (runbook_scoped s)" if "needs_index (runbook_scoped s)"
    using Cons.prems needs_index_after[OF that] by (intro bexI[of _ "runbook_scoped BuildIndex"]) auto
  ultimately show ?case by simp
qed simp

lemma collection_builds_first: "ordered_steps built ss \<Longrightarrow> (built \<longrightarrow> unit_for BuildIndex col \<in> pre) \<Longrightarrow>
    builds_first_from pre (map (\<lambda>s. unit_for s col) (filter (\<lambda>s. s \<noteq> VerifyDataViews) ss))"
proof (induction ss arbitrary: built pre)
  case (Cons s ss)
  show ?case
  proof (cases "s = VerifyDataViews")
    case True
    with Cons.prems show ?thesis using Cons.IH[of built pre] by simp
  next
    case False
    have "builds_first_from (insert (unit_for s col) pre) (map (\<lambda>s. unit_for s col) (filter (\<lambda>s. s \<noteq> VerifyDataViews) ss))"
      using Cons.prems by (intro Cons.IH[of "built \<or> s = BuildIndex"]) auto
    moreover have "\<exists>v \<in> pre. eu_name v = build_name (unit_for s col)" if "needs_index (unit_for s col)"
      using Cons.prems needs_index_after[OF that] by (intro bexI[of _ "unit_for BuildIndex col"]) auto
    ultimately show ?thesis using False by simp
  qed
qed simp

lemma expand_builds_first: "ordered_steps built ss \<Longrightarrow> (built \<longrightarrow> unit_for BuildIndex ` set cols \<subseteq> pre) \<Longrightarrow>
    builds_first_from pre (concat (map (expand cols) ss))"
proof (induction ss arbitrary: built pre)
  case (Cons s ss)
  have "builds_first_from (set (expand cols s) \<union> pre) (concat (map (expand cols) ss))"
    using Cons.prems by (intro Cons.IH[of "built \<or> s = BuildIndex"]) (auto simp: expand_def)
  moreover have "builds_first_from pre (expand cols s)"
  proof -
    have "\<exists>v \<in> pre. eu_name v = build_name u" if "u \<in> set (expand cols s)" "needs_index u" for u
      using that Cons.prems needs_index_after[OF that(2)]
      by (force simp: expand_def needs_index_def split: if_splits)
    then show ?thesis by (rule builds_first_from_all)
  qed
  ultimately show ?case by (simp add: builds_first_from_append)
qed simp

lemma concat_builds_first: "(\<And>x. x \<in> set xs \<Longrightarrow> builds_first_from {} (f x)) \<Longrightarrow> builds_first_from pre (concat (map f xs))"
proof (induction xs arbitrary: pre)
  case (Cons x xs)
  then have "builds_first_from pre (f x)" by (auto intro: builds_first_from_mono[of "{}"])
  with Cons show ?case by (simp add: builds_first_from_append)
qed simp

lemma valid_plan_builds_first:
  assumes "is_valid (validate_runbook dash show_wide d)"
  shows "builds_first (exec_units d)"
proof -
  let ?s = "rb_spec d"
  have o: "ordered_steps False (sp_steps ?s)"
    using valid_steps[OF assms] by (simp add: ordered_steps_iff)
  have q: "builds_first_from pre (map runbook_scoped (filter (\<lambda>step. step = VerifyDataViews) ss))" for pre ss
    by (rule builds_first_from_all) (auto simp: needs_index_def)
  have "builds_first_from {} (exec_units d)"
    using scoped_builds_first[OF o] expand_builds_first[OF o] q
      concat_builds_first[OF collection_builds_first[OF o]]
    by (auto simp: exec_units_def Let_def builds_first_from_append split: execution_order.splits)
  then show ?thesis by (rule builds_first_from_D)
qed

end
