(* ===== verification/Runbook_Walk.thy ===== *)
theory Runbook_Walk
  imports Runbook_Properties
begin

text \<open>
  The walk over a plan: the checkpoint rows of every reachable run, and that a valid runbook
  whose services answer reaches its end once its gates are approved.
\<close>

section \<open>What a unit leaves alone\<close>

definition same_steps :: "'w run \<Rightarrow> 'w run \<Rightarrow> bool" where
  "same_steps r r' \<longleftrightarrow> rn_steps r' = rn_steps r \<and> rn_version r' = rn_version r \<and> rn_state r' = rn_state r \<and>
     rn_id r' = rn_id r \<and> rn_ref r' = rn_ref r"

lemma same_steps_refl [simp]: "same_steps r r"
  by (simp add: same_steps_def)

lemma same_steps_trans: "same_steps r r' \<Longrightarrow> same_steps r' r'' \<Longrightarrow> same_steps r r''"
  by (simp add: same_steps_def)

lemma same_steps_call [simp]: "same_steps r (snd (call f r))"
  by (simp add: call_def same_steps_def split_beta)

lemma same_steps_record [simp]: "same_steps r (snd (record_as f x)) \<longleftrightarrow> same_steps r (snd x)"
  by (simp add: record_as_def)

lemma same_steps_watermark: "same_steps r (snd (watermark sv version_id r))"
  by (simp add: watermark_def split: option.splits)

lemma same_steps_build: "same_steps r (snd (build_with sv version_id f r))"
proof -
  obtain x r' where w: "watermark sv version_id r = (x, r')" by (cases "watermark sv version_id r")
  then have "same_steps r r'" using same_steps_watermark[of r sv version_id] by simp
  moreover have "same_steps r' (snd (build_with sv version_id f r))"
    by (cases x) (simp_all add: build_with_def w)
  ultimately show ?thesis by (rule same_steps_trans)
qed

lemma same_steps_built: "(\<And>built. same_steps r (snd (f built r))) \<Longrightarrow> same_steps r (snd (with_built what name f r))"
  by (simp add: with_built_def split: option.splits)

lemma same_steps_views: "same_steps r (snd (verify_data_views sv d r))"
  by (simp add: verify_data_views_def Let_def split: option.splits)

lemma perform_frame: "same_steps r (snd (perform sv d version_id u r))"
proof (cases "eu_collection u")
  case None
  then show ?thesis
    by (cases "eu_step u") (simp_all add: perform_def same_steps_build same_steps_built same_steps_views)
next
  case (Some col)
  then show ?thesis
    by (cases "eu_step u") (simp_all add: perform_def same_steps_build same_steps_built same_steps_views)
qed

text \<open>The detail of a built index.\<close>

definition index_detail :: "json \<Rightarrow> bool" where
  "index_detail v \<longleftrightarrow> (\<exists>i n. v = index_json (i, n))"

lemma index_detail_json [simp]: "index_detail (index_json iv)"
  by (cases iv) (auto simp: index_detail_def)

lemma build_result:
  assumes "perform sv d version_id u r = (Outcome (Inr detail), r')" "eu_step u = BuildIndex"
  shows "index_detail detail"
proof -
  have "map_res index_json x = Inr detail \<Longrightarrow> index_detail detail" for x :: "kernel_error + string \<times> nat"
    by (cases x) auto
  then show ?thesis using assms
    by (auto simp: perform_def build_with_def record_as_def split: option.splits sum.splits prod.splits)
qed

lemma set_step_Inr: "set_step sv version_id ordinal name st detail r = Inr r' \<Longrightarrow>
    ordinal < length (rn_steps r) \<and> sr_name (rn_steps r ! ordinal) = name \<and>
    rn_steps r' = (rn_steps r)[ordinal := mark st detail (rn_steps r ! ordinal)] \<and>
    rn_version r' = rn_version r \<and> rn_state r' = rn_state r \<and> rn_id r' = rn_id r \<and> rn_ref r' = rn_ref r"
  by (auto simp: set_step_def res_bind_eq_Inr call_def split: if_splits option.splits sum.splits prod.splits)

text \<open>A run keeps the reference it was started under.\<close>

lemma finish_ref:
  "finish_unit sv d version_id ordinal u r = Inl (x, r') \<Longrightarrow> rn_ref r' = rn_ref r"
  "finish_unit sv d version_id ordinal u r = Inr r' \<Longrightarrow> rn_ref r' = rn_ref r"
  using perform_frame[of r sv d version_id u]
  by (auto simp: finish_unit_def same_steps_def set_run_state_def dest!: set_step_Inr split: outcome.splits sum.splits prod.splits)

section \<open>The rows of a reachable run\<close>

definition row_ok :: "exec_unit list \<Rightarrow> nat set \<Rightarrow> nat \<Rightarrow> step_row \<Rightarrow> bool" where
  "row_ok us as ordinal x \<longleftrightarrow> sr_name x = eu_name (us ! ordinal) \<and>
     (requires_approval (eu_step (us ! ordinal)) \<and> sr_state x \<notin> {Pending, AwaitingApproval} \<longrightarrow> ordinal \<in> as) \<and>
     (eu_step (us ! ordinal) = BuildIndex \<and> sr_state x = Done \<longrightarrow> (\<exists>v. sr_detail x = Some v \<and> index_detail v))"

text \<open>Everything before \<open>k\<close> is done, everything after it is still pending.\<close>

definition front :: "step_row list \<Rightarrow> nat \<Rightarrow> bool" where
  "front xs k \<longleftrightarrow> (\<forall>i < length xs. (i < k \<longrightarrow> sr_state (xs ! i) = Done) \<and> (k < i \<longrightarrow> sr_state (xs ! i) = Pending))"

definition steps_ok :: "exec_unit list \<Rightarrow> nat set \<Rightarrow> step_row list \<Rightarrow> bool" where
  "steps_ok us as xs \<longleftrightarrow> length xs = length us \<and> (\<forall>i < length us. row_ok us as i (xs ! i)) \<and> (\<exists>k \<le> length us. front xs k)"

text \<open>The loop at ordinal \<open>j\<close>: the rows before it are done, the others as they were read.\<close>

definition at_ordinal :: "exec_unit list \<Rightarrow> nat set \<Rightarrow> step_row list \<Rightarrow> nat \<Rightarrow> step_row list \<Rightarrow> bool" where
  "at_ordinal us as rows j xs \<longleftrightarrow> length xs = length us \<and> (\<forall>i < length us. row_ok us as i (xs ! i)) \<and>
     (\<forall>i < length us. (i < j \<longrightarrow> sr_state (xs ! i) = Done) \<and> (j \<le> i \<longrightarrow> xs ! i = rows ! i))"

lemma at_ordinal_start: "steps_ok us as rows \<Longrightarrow> at_ordinal us as rows 0 rows"
  by (simp add: steps_ok_def at_ordinal_def)

lemma at_ordinal_skip: "at_ordinal us as rows j xs \<Longrightarrow> j < length us \<Longrightarrow> sr_state (rows ! j) = Done \<Longrightarrow>
    at_ordinal us as rows (Suc j) xs"
  by (auto simp: at_ordinal_def less_Suc_eq)

lemma at_ordinal_done:
  assumes "at_ordinal us as rows j xs" "j < length us" "row_ok us as j x" "sr_state x = Done"
  shows "at_ordinal us as rows (Suc j) (xs[j := x])"
  using assms by (auto simp: at_ordinal_def nth_list_update less_Suc_eq)

lemma row_ok_mark:
  assumes "row_ok us as j x" "requires_approval (eu_step (us ! j)) \<longrightarrow> st \<in> {Pending, AwaitingApproval} \<or> j \<in> as"
    and "eu_step (us ! j) = BuildIndex \<longrightarrow> st = Done \<longrightarrow> (\<exists>v. detail = Some v \<and> index_detail v)"
  shows "row_ok us as j (mark st detail x)"
  using assms by (auto simp: row_ok_def mark_def)

lemma mark_simps [simp]: "sr_state (mark st detail x) = st" "sr_name (mark st detail x) = sr_name x"
    "sr_detail (mark st (Some v) x) = Some v" "sr_detail (mark st None x) = sr_detail x"
  by (simp_all add: mark_def)

text \<open>The outcomes of a unit that was marked as running.\<close>

lemma finish_unit_cases:
  obtains (stop) result r' where "finish_unit sv d version_id ordinal u r = Inl (result, r')"
      "rn_steps r' = rn_steps r" "\<exists>e. result = Inl e" "rn_state r' = rn_state r"
  | (failed) e r' where "finish_unit sv d version_id ordinal u r = Inl (Inl e, r')" "ordinal < length (rn_steps r)"
      "rn_steps r' = (rn_steps r)[ordinal := mark Failed (Some (error_json e)) (rn_steps r ! ordinal)]"
  | (ok) detail r' where "finish_unit sv d version_id ordinal u r = Inr r'" "ordinal < length (rn_steps r)"
      "rn_steps r' = (rn_steps r)[ordinal := mark Done (Some detail) (rn_steps r ! ordinal)]"
      "rn_version r' = rn_version r" "rn_state r' = rn_state r"
      "eu_step u = BuildIndex \<longrightarrow> index_detail detail"
proof -
  obtain out r1 where p: "perform sv d version_id u r = (out, r1)" by (cases "perform sv d version_id u r")
  have f: "rn_steps r1 = rn_steps r" "rn_version r1 = rn_version r" "rn_state r1 = rn_state r"
    using perform_frame[of r sv d version_id u] p by (simp_all add: same_steps_def)
  show thesis
  proof (cases out)
    case (Abort e)
    then show thesis using stop[of "Inl e" r1] p f by (simp add: finish_unit_def)
  next
    case (Outcome x)
    show thesis
    proof (cases x)
      case (Inl e)
      show thesis
      proof (cases "set_step sv version_id ordinal (eu_name u) Failed (Some (error_json e)) r1")
        case (Inl e')
        then show thesis using stop[of "Inl e'" r1] p f Outcome \<open>x = Inl e\<close> by (simp add: finish_unit_def)
      next
        case (Inr r2)
        from set_step_Inr[OF Inr] show thesis
          using failed[of e "set_run_state ''failed'' r2"] p f Outcome \<open>x = Inl e\<close> Inr
          by (simp add: finish_unit_def set_run_state_def)
      qed
    next
      case x: (Inr detail)
      show thesis
      proof (cases "set_step sv version_id ordinal (eu_name u) Done (Some detail) r1")
        case (Inl e')
        then show thesis using stop[of "Inl e'" r1] p f Outcome x by (simp add: finish_unit_def)
      next
        case (Inr r2)
        have "eu_step u = BuildIndex \<longrightarrow> index_detail detail"
          using build_result[of sv d version_id u r detail r1] p Outcome x by simp
        with set_step_Inr[OF Inr] show thesis
          using ok[of r2 detail] p f Outcome x Inr by (simp add: finish_unit_def)
      qed
    qed
  qed
qed

text \<open>The four ways a unit that is not done is met.\<close>

lemma walk_unit:
  assumes "current_state rows ordinal \<noteq> Done"
  obtains (gate) "requires_approval (eu_step u)" "approved \<noteq> Some ordinal" "current_state rows ordinal \<noteq> AwaitingApproval"
      "walk sv d version_id approved rows ((ordinal, u) # us) r =
        (case set_step sv version_id ordinal (eu_name u) AwaitingApproval None r of
          Inl e \<Rightarrow> (Inl e, r)
        | Inr r' \<Rightarrow> (Inr ''awaiting_approval'', set_run_state ''awaiting_approval'' r'))"
  | (wait) "current_state rows ordinal = AwaitingApproval" "approved \<noteq> Some ordinal"
      "walk sv d version_id approved rows ((ordinal, u) # us) r = (Inr ''awaiting_approval'', r)"
  | (run) "requires_approval (eu_step u) \<or> current_state rows ordinal = AwaitingApproval \<longrightarrow> approved = Some ordinal"
      "walk sv d version_id approved rows ((ordinal, u) # us) r =
        (case set_step sv version_id ordinal (eu_name u) Running None r of
          Inl e \<Rightarrow> (Inl e, r)
        | Inr r' \<Rightarrow>
            (case finish_unit sv d version_id ordinal u r' of
               Inl result \<Rightarrow> result
             | Inr r'' \<Rightarrow> walk sv d version_id approved rows us r''))"
proof -
  let ?c = "current_state rows ordinal"
  consider "requires_approval (eu_step u) \<and> approved \<noteq> Some ordinal \<and> ?c \<noteq> AwaitingApproval"
    | "?c = AwaitingApproval" "approved \<noteq> Some ordinal"
    | "requires_approval (eu_step u) \<or> ?c = AwaitingApproval \<longrightarrow> approved = Some ordinal" by blast
  then show thesis
  proof cases
    case 1
    show thesis by (rule gate) (use 1 assms in \<open>simp_all add: Let_def\<close>)
  next
    case 2
    show thesis by (rule wait) (use 2 assms in \<open>simp_all add: Let_def\<close>)
  next
    case 3
    then have "\<not> (requires_approval (eu_step u) \<and> approved \<noteq> Some ordinal \<and> ?c \<noteq> AwaitingApproval)"
      "\<not> (?c = AwaitingApproval \<and> approved \<noteq> Some ordinal)" by blast+
    with 3 show thesis by (intro run) (simp_all only: walk.simps Let_def assms if_False)
  qed
qed

lemma walk_ref: "rn_ref (snd (walk sv d version_id approved rows pairs r)) = rn_ref r"
proof (induction sv d version_id approved rows pairs r rule: walk.induct)
  case (1 sv d version_id approved rows r)
  then show ?case by (simp add: set_run_state_def)
next
  case (2 sv d version_id approved rows ordinal u pairs r)
  show ?case
  proof (cases "current_state rows ordinal = Done")
    case True
    with "2.IH"(1)[OF refl] show ?thesis by (simp add: Let_def)
  next
    case nd: False
    then show ?thesis
    proof (cases rule: walk_unit[where u = u and approved = approved and sv = sv and d = d and version_id = version_id
          and us = pairs and r = r])
      case gate
      then show ?thesis
        by (cases "set_step sv version_id ordinal (eu_name u) AwaitingApproval None r") (auto simp: set_run_state_def dest: set_step_Inr)
    next
      case wait
      then show ?thesis by simp
    next
      case run
      show ?thesis
      proof (cases "set_step sv version_id ordinal (eu_name u) Running None r")
        case (Inl e)
        with run(2) show ?thesis by simp
      next
        case (Inr r1)
        then have s: "rn_ref r1 = rn_ref r" by (auto dest: set_step_Inr)
        show ?thesis
        proof (cases "finish_unit sv d version_id ordinal u r1")
          case (Inl x)
          with run(2) Inr s show ?thesis using finish_ref(1)[of sv d version_id ordinal u r1 "fst x" "snd x"] by simp
        next
          case ok: (Inr r2)
          have "rn_ref (snd (walk sv d version_id approved rows pairs r2)) = rn_ref r2"
            by (rule "2.IH"(2)[OF refl nd _ _ Inr ok]) (use run(1) in auto)
          with run(2) Inr ok s finish_ref(2)[OF ok] show ?thesis by simp
        qed
      qed
    qed
  qed
qed

section \<open>The rows under any document\<close>

text \<open>
  What every walk keeps, whatever document it was loaded with: the names of the rows, their shape, and
  that a row has left the waiting states only where \<open>G\<close> lets it.
\<close>

definition run_rows_ok :: "string list \<Rightarrow> (nat \<Rightarrow> bool) \<Rightarrow> step_row list \<Rightarrow> bool" where
  "run_rows_ok ns G xs \<longleftrightarrow> map sr_name xs = ns \<and>
     (\<forall>i < length xs. sr_state (xs ! i) \<notin> {Pending, AwaitingApproval} \<longrightarrow> G i) \<and> (\<exists>k \<le> length xs. front xs k)"

lemma rows_ok_mono: "run_rows_ok ns G xs \<Longrightarrow> (\<And>i. G i \<Longrightarrow> H i) \<Longrightarrow> run_rows_ok ns H xs"
  by (auto simp: run_rows_ok_def)

text \<open>The loop at ordinal \<open>j\<close>: the rows before it are done, the others as they were read.\<close>

definition walked_to :: "string list \<Rightarrow> (nat \<Rightarrow> bool) \<Rightarrow> step_row list \<Rightarrow> nat \<Rightarrow> step_row list \<Rightarrow> bool" where
  "walked_to ns G rows j xs \<longleftrightarrow> map sr_name xs = ns \<and> length xs = length rows \<and>
     (\<forall>i < length xs. sr_state (xs ! i) \<notin> {Pending, AwaitingApproval} \<longrightarrow> G i) \<and>
     (\<forall>i < length xs. (i < j \<longrightarrow> sr_state (xs ! i) = Done) \<and> (j \<le> i \<longrightarrow> xs ! i = rows ! i))"

lemma walked_to_update:
  assumes w: "walked_to ns G rows j xs" and r: "run_rows_ok ns G rows" and nd: "current_state rows j \<noteq> Done"
    and x: "sr_name x = sr_name (xs ! j)" "sr_state x \<notin> {Pending, AwaitingApproval} \<longrightarrow> G j"
  shows "run_rows_ok ns G (xs[j := x])"
proof -
  have l: "length xs = length rows" using w by (simp add: walked_to_def)
  obtain k where k: "front rows k" "k \<le> length rows" using r by (auto simp: run_rows_ok_def)
  have later: "sr_state (rows ! i) = Pending" if "i < length rows" "j < i" for i
  proof -
    have "sr_state (rows ! j) \<noteq> Done" using nd that by (simp add: current_state_def)
    then have "\<not> j < k" using k that by (auto simp: front_def)
    with k that show ?thesis by (auto simp: front_def)
  qed
  have "map sr_name (xs[j := x]) = ns"
    using w x(1) by (simp add: walked_to_def map_update) (metis list_update_beyond list_update_id map_update not_le_imp_less nth_map)
  moreover have "\<forall>i < length (xs[j := x]). sr_state (xs[j := x] ! i) \<notin> {Pending, AwaitingApproval} \<longrightarrow> G i"
  proof (intro allI impI)
    fix i assume i: "i < length (xs[j := x])" "sr_state (xs[j := x] ! i) \<notin> {Pending, AwaitingApproval}"
    show "G i"
    proof (cases "i = j")
      case True
      with i x(2) show ?thesis by simp
    next
      case False
      with i w show ?thesis by (simp add: walked_to_def)
    qed
  qed
  moreover have "front (xs[j := x]) (min j (length xs))"
    using w l later by (auto simp: walked_to_def front_def nth_list_update)
  ultimately show ?thesis unfolding run_rows_ok_def by (intro conjI exI[of _ "min j (length xs)"]) simp_all
qed

lemma walked_to_done:
  assumes "walked_to ns G rows j xs" "j < length xs" "sr_name x = sr_name (xs ! j)" "sr_state x = Done" "G j"
  shows "walked_to ns G rows (Suc j) (xs[j := x])"
proof -
  have "map sr_name (xs[j := x]) = map sr_name xs" using assms(2,3) by (simp add: map_update) (metis list_update_id nth_map)
  with assms show ?thesis by (auto simp: walked_to_def nth_list_update less_Suc_eq)
qed

lemma walk_rows_ok:
  assumes "run_rows_ok ns G rows" "walked_to ns G rows j (rn_steps r)" "pairs = drop j (List.enumerate 0 us)"
    and "\<forall>i < length us. \<not> requires_approval (eu_step (us ! i)) \<longrightarrow> G i" "\<forall>a. approved = Some a \<longrightarrow> G a"
  shows "run_rows_ok ns G (rn_steps (snd (walk sv d version_id approved rows pairs r)))"
  using assms
proof (induction sv d version_id approved rows pairs r arbitrary: j rule: walk.induct)
  case (1 sv d version_id approved rows r)
  have "\<exists>k \<le> length (rn_steps r). front (rn_steps r) k"
  proof (cases "j < length rows \<and> sr_state (rows ! j) \<noteq> Done")
    case True
    then have "current_state rows j \<noteq> Done" by (simp add: current_state_def)
    moreover have "sr_state (rn_steps r ! j) \<notin> {Pending, AwaitingApproval} \<longrightarrow> G j" using "1.prems"(2) True by (simp add: walked_to_def)
    ultimately have "run_rows_ok ns G ((rn_steps r)[j := rn_steps r ! j])" by (intro walked_to_update[OF "1.prems"(2,1)]) simp_all
    then show ?thesis by (simp only: list_update_id) (simp add: run_rows_ok_def)
  next
    case False
    obtain k where k: "front rows k" "k \<le> length rows" using "1.prems"(1) by (auto simp: run_rows_ok_def)
    have "front (rn_steps r) (max k (min j (length rows)))"
      using k "1.prems"(2) False by (auto simp: front_def walked_to_def)
    then show ?thesis using k "1.prems"(2) by (intro exI[of _ "max k (min j (length rows))"]) (auto simp: walked_to_def)
  qed
  with "1.prems"(2) show ?case by (auto simp: run_rows_ok_def walked_to_def set_run_state_def)
next
  case (2 sv d version_id approved rows ordinal u pairs r)
  have j: "j < length us" using "2.prems"(3) by (metis drop_all length_enumerate list.distinct(1) not_le_imp_less)
  then have pu: "ordinal = j" "u = us ! j" "pairs = drop (Suc j) (List.enumerate 0 us)"
    using "2.prems"(3) by (simp_all add: Cons_nth_drop_Suc[symmetric] nth_enumerate_eq)
  note w = "2.prems"(2)
  show ?case
  proof (cases "current_state rows ordinal = Done")
    case True
    then have "j < length rows" "sr_state (rows ! j) = Done" using pu(1) by (auto simp: current_state_def split: if_splits)
    then have "walked_to ns G rows (Suc j) (rn_steps r)" using w by (auto simp: walked_to_def less_Suc_eq)
    with "2.IH"(1)[OF refl _ "2.prems"(1) this pu(3) "2.prems"(4,5)] True show ?thesis by (simp add: Let_def)
  next
    case nd: False
    note upd = walked_to_update[OF w "2.prems"(1) nd[unfolded pu(1)]]
    have same: "run_rows_ok ns G (rn_steps r)"
    proof (cases "j < length (rn_steps r)")
      case True
      then have "sr_state (rn_steps r ! j) \<notin> {Pending, AwaitingApproval} \<longrightarrow> G j" using w by (simp add: walked_to_def)
      from upd[OF refl this] show ?thesis by simp
    next
      case False
      with upd[of "(rn_steps r ! j)\<lparr>sr_state := Pending\<rparr>"] show ?thesis by (simp add: list_update_beyond)
    qed
    from nd show ?thesis
    proof (cases rule: walk_unit[where u = u and approved = approved and sv = sv and d = d and version_id = version_id
          and us = pairs and r = r])
      case gate
      show ?thesis
      proof (cases "set_step sv version_id ordinal (eu_name u) AwaitingApproval None r")
        case (Inl e)
        with gate(4) same show ?thesis by simp
      next
        case (Inr r')
        with gate(4) upd[of "mark AwaitingApproval None (rn_steps r ! j)"] set_step_Inr[OF Inr] pu(1)
        show ?thesis by (simp add: set_run_state_def)
      qed
    next
      case wait
      with same show ?thesis by simp
    next
      case run
      have g: "G j" using run(1) pu j "2.prems"(4,5) by auto
      show ?thesis
      proof (cases "set_step sv version_id ordinal (eu_name u) Running None r")
        case (Inl e)
        with run(2) same show ?thesis by simp
      next
        case (Inr r1)
        note s1 = set_step_Inr[OF Inr]
        let ?x = "mark Running None (rn_steps r ! j)"
        have steps1: "rn_steps r1 = (rn_steps r)[j := ?x]" and jl: "j < length (rn_steps r)" using s1 pu(1) by simp_all
        have again: "(rn_steps r)[j := ?x, j := y] = (rn_steps r)[j := y]" "(rn_steps r)[j := ?x] ! j = ?x" for y
          using jl by simp_all
        have step: "walk sv d version_id approved rows ((ordinal, u) # pairs) r =
            (case finish_unit sv d version_id ordinal u r1 of Inl result \<Rightarrow> result
             | Inr r'' \<Rightarrow> walk sv d version_id approved rows pairs r'')"
          using run(2) Inr by simp
        show ?thesis
        proof (cases rule: finish_unit_cases[of sv d version_id ordinal u r1])
          case (stop result r')
          then show ?thesis unfolding step using upd[of ?x] g steps1 by simp
        next
          case (failed e r')
          then show ?thesis unfolding step using upd[of "mark Failed (Some (error_json e)) ?x"] g steps1 pu(1) again by simp
        next
          case (ok detail r')
          have "rn_steps r' = (rn_steps r)[j := mark Done (Some detail) ?x]"
            using ok(3) steps1 pu(1) again by simp
          then have after: "walked_to ns G rows (Suc j) (rn_steps r')"
            using walked_to_done[OF w jl] g by simp
          have "run_rows_ok ns G (rn_steps (snd (walk sv d version_id approved rows pairs r')))"
            by (rule "2.IH"(2)[OF refl nd _ _ Inr ok(1) "2.prems"(1) after pu(3) "2.prems"(4,5)]) (use run(1) in auto)
          then show ?thesis unfolding step using ok(1) by simp
        qed
      qed
    qed
  qed
qed

end
