(* ===== verification/Runbook_Live.thy ===== *)
theory Runbook_Live
  imports Runbook_Walk
begin

text \<open>
  What a run guarantees from outside: its approval gates hold in every reachable state as long as the
  editions of its document applied in place keep asking for them, a valid
  runbook whose services answer reaches its end once its gates are approved, and a plan whose
  step lacks its build leaves the run stuck.
\<close>

section \<open>Reachable runs\<close>

definition awaiting :: "'w run \<Rightarrow> nat \<Rightarrow> bool" where
  "awaiting r ordinal \<longleftrightarrow> ordinal < length (rn_steps r) \<and> sr_state (rn_steps r ! ordinal) = AwaitingApproval"

text \<open>
  A run is started once and then approved any number of times. An approval loads the document stored
  under the run's reference, or fails to load it; the document may have been applied again in place
  since the start (\<open>op_apply_runbook\<close> replaces the text of the same \<open>name@version\<close>). Meanwhile the world may
  change. The first list holds the documents stored under the reference since the start, the last
  one first; the second holds the approvals that met a waiting step and were acted on.
\<close>

definition acted_on :: "bool \<Rightarrow> kernel_error + runbook_doc \<Rightarrow> nat \<Rightarrow> 'w run \<Rightarrow> bool" where
  "acted_on locked loaded ordinal r \<longleftrightarrow> awaiting r ordinal \<and> ordinal \<le> i32_max \<and> locked \<and> (\<exists>d. loaded = Inr d)"

inductive run_reach :: "'w services \<Rightarrow> runbook_doc list \<Rightarrow> nat list \<Rightarrow> 'w run \<Rightarrow> bool"
  for sv :: "'w services" where
  start: "run_reach sv [d] [] (snd (op_run_runbook sv locked d run_id version_id w))"
| approve: "run_reach sv (d # ds) os r \<Longrightarrow> loaded = Inr d \<or> loaded = Inl e \<Longrightarrow>
    run_reach sv (d # ds) (if acted_on locked loaded ordinal r then ordinal # os else os) (snd (op_approve_step sv locked loaded ordinal r))"
| apply_again: "run_reach sv ds os r \<Longrightarrow> runbook_ref d = rn_ref r \<Longrightarrow> run_reach sv (d # ds) os r"
| world: "run_reach sv ds os r \<Longrightarrow> run_reach sv ds os (r\<lparr>rn_world := w\<rparr>)"

lemma reach_documents: "run_reach sv ds os r \<Longrightarrow> ds \<noteq> []"
  by (induction rule: run_reach.induct) simp_all

lemma planned_rows: "rn_steps (planned_run d run_id version_id w) =
    map (\<lambda>u. \<lparr>sr_name = eu_name u, sr_state = Pending, sr_detail = None\<rparr>) (exec_units d)"
  by (simp add: planned_run_def)

lemma planned_ok: "steps_ok (exec_units d) as (rn_steps (planned_run d run_id version_id w))"
  by (auto simp: planned_rows steps_ok_def row_ok_def front_def)

text \<open>A unit may pass its gate when it was approved, or when some document in force did not ask for it.\<close>

definition may_pass :: "runbook_doc list \<Rightarrow> nat list \<Rightarrow> nat \<Rightarrow> bool" where
  "may_pass ds os i \<longleftrightarrow> i \<in> set os \<or>
     (\<exists>d \<in> set ds. i < length (exec_units d) \<and> \<not> requires_approval (eu_step (exec_units d ! i)))"

lemma execute_rows_ok:
  assumes "run_rows_ok ns (may_pass ds os) (rn_steps r)" "d \<in> set ds" "\<forall>a. approved = Some a \<longrightarrow> a \<in> set os"
  shows "run_rows_ok ns (may_pass ds os) (rn_steps (snd (execute sv d version_id approved r)))"
  unfolding execute_def
proof (rule walk_rows_ok[where j = 0, OF assms(1)])
  show "walked_to ns (may_pass ds os) (rn_steps r) 0 (rn_steps r)" using assms(1) by (simp add: run_rows_ok_def walked_to_def)
qed (use assms(2,3) in \<open>auto simp: may_pass_def\<close>)

lemma reach_rows_ok: "run_reach sv ds os r \<Longrightarrow> run_rows_ok (map eu_name (exec_units (last ds))) (may_pass ds os) (rn_steps r)"
proof (induction rule: run_reach.induct)
  case (start d locked run_id version_id w)
  have p: "run_rows_ok (map eu_name (exec_units d)) (may_pass [d] []) (rn_steps (planned_run d run_id version_id w))"
    by (auto simp: planned_rows run_rows_ok_def front_def)
  show ?case by (simp add: op_run_runbook_def Let_def p execute_rows_ok)
next
  case (approve d ds os r loaded e locked ordinal)
  let ?ns = "map eu_name (exec_units (last (d # ds)))"
  show ?case
  proof (cases "acted_on locked loaded ordinal r")
    case True
    have "run_rows_ok ?ns (may_pass (d # ds) (ordinal # os)) (rn_steps (set_run_state ''running'' r))"
      using rows_ok_mono[OF approve.IH] by (auto simp: set_run_state_def may_pass_def)
    from execute_rows_ok[OF this, of d "Some ordinal"] True approve.hyps(2) show ?thesis
      by (auto simp: op_approve_step_def acted_on_def awaiting_def)
  next
    case False
    then have "snd (op_approve_step sv locked loaded ordinal r) = r"
      by (auto simp: op_approve_step_def acted_on_def awaiting_def split: sum.splits)
    with False approve.IH show ?thesis by simp
  qed
next
  case (apply_again ds os r d)
  have "run_rows_ok (map eu_name (exec_units (last ds))) (may_pass (d # ds) os) (rn_steps r)"
    by (rule rows_ok_mono[OF apply_again.IH]) (auto simp: may_pass_def)
  with reach_documents[OF apply_again.hyps(1)] show ?case by simp
next
  case (world ds os r w)
  then show ?case by simp
qed

text \<open>C16. Approval gates hold as long as every edition of the document asks for them. Whatever documents
  are applied in place under the reference of a run after it started, in every state the run can
  reach its checkpoint rows are, by name, the units of the plan it was started with; up to some
  unit every row is done and after it every row is still pending; and a unit that every document
  stored under the reference since the start declares with approval required has left the waiting
  states only if its ordinal was approved, with the lock held, while it was awaiting approval. An edition
  that no longer asks for the approval releases the gate (lemma reapplied_document_opens_gate).\<close>

theorem gates_hold:
  assumes "run_reach sv ds os r"
  shows "map sr_name (rn_steps r) = map eu_name (exec_units (last ds)) \<and>
    (\<exists>k \<le> length (rn_steps r). (\<forall>x \<in> set (take k (rn_steps r)). sr_state x = Done) \<and>
       (\<forall>x \<in> set (drop (Suc k) (rn_steps r)). sr_state x = Pending)) \<and>
    (\<forall>i < length (rn_steps r). (\<forall>d \<in> set ds. i < length (exec_units d) \<longrightarrow> requires_approval (eu_step (exec_units d ! i))) \<longrightarrow>
       sr_state (rn_steps r ! i) \<in> {Pending, AwaitingApproval} \<or> i \<in> set os)"
proof -
  from reach_rows_ok[OF assms] obtain k where ok: "map sr_name (rn_steps r) = map eu_name (exec_units (last ds))"
    "\<forall>i < length (rn_steps r). sr_state (rn_steps r ! i) \<notin> {Pending, AwaitingApproval} \<longrightarrow> may_pass ds os i"
    "k \<le> length (rn_steps r)" "front (rn_steps r) k" unfolding run_rows_ok_def by blast
  have "\<forall>x \<in> set (take k (rn_steps r)). sr_state x = Done" "\<forall>x \<in> set (drop (Suc k) (rn_steps r)). sr_state x = Pending"
    using ok(4) by (auto simp: front_def in_set_conv_nth)
  with ok(1-3) show ?thesis unfolding may_pass_def by blast
qed

text \<open>Services that all answer.\<close>

definition sample_services :: "nat services" where
  "sample_services = \<lparr>sv_event = \<lambda>_ _ w. (Inr (), Suc w), sv_head = \<lambda>_ w. (Inr w, w),
     sv_sync_collection = \<lambda>c w. (Inr (cs_name c, 0, []), w), sv_source_count = \<lambda>_ w. (Inr 0, w),
     sv_build_collection = \<lambda>c n w. (Inr (cs_name c, n), w), sv_build_shape = \<lambda>s n w. (Inr (s, n), w),
     sv_verify_collection = \<lambda>b w. (Inr (JStr b), w), sv_verify_shape = \<lambda>b w. (Inr (JStr b), w),
     sv_activate_collection = \<lambda>_ _ w. (Inr (), w), sv_activate_shape = \<lambda>_ _ w. (Inr (), w),
     sv_retire_collection = \<lambda>_ n w. (Inr n, w), sv_retire_shape = \<lambda>_ n w. (Inr n, w),
     sv_matrix_base = None, sv_verify_views = \<lambda>_ _ w. (Inr JNull, w)\<rparr>"

abbreviation gated_steps :: "step_spec list" where
  "gated_steps \<equiv> [BuildIndex, Verify, Cutover (Some ''required'')]"

lemma gates_hold_witness:
  "(\<exists>r. run_reach sample_services [sample_doc gated_steps] [] r) \<and>
   map sr_name (rn_steps (snd (op_run_runbook sample_services True (sample_doc gated_steps) ''r1'' None 0))) =
     map eu_name (exec_units (sample_doc gated_steps))"
  using run_reach.start[of sample_services "sample_doc gated_steps" True "''r1''" None 0]
    gates_hold[OF run_reach.start[of sample_services "sample_doc gated_steps" True "''r1''" None 0]]
  unfolding last.simps by simp blast

section \<open>A valid runbook completes\<close>

definition responds :: "('w, 'a) service \<Rightarrow> bool" where
  "responds f \<longleftrightarrow> (\<forall>w. \<exists>x w'. f w = (Inr x, w'))"

text \<open>Every service a run of this document may call answers without an error.\<close>

definition services_answer :: "'w services \<Rightarrow> runbook_doc \<Rightarrow> bool" where
  "services_answer sv d \<longleftrightarrow>
     (\<forall>v c. responds (sv_event sv v c)) \<and> (\<forall>v. responds (sv_head sv v)) \<and>
     (\<forall>c. responds (sv_sync_collection sv c)) \<and> (\<forall>s. responds (sv_source_count sv s)) \<and>
     (\<forall>c n. responds (sv_build_collection sv c n)) \<and> (\<forall>s n. responds (sv_build_shape sv s n)) \<and>
     (\<forall>b. responds (sv_verify_collection sv b)) \<and> (\<forall>b. responds (sv_verify_shape sv b)) \<and>
     (\<forall>c b. responds (sv_activate_collection sv c b)) \<and> (\<forall>s b. responds (sv_activate_shape sv s b)) \<and>
     (\<forall>c n. responds (sv_retire_collection sv c n)) \<and> (\<forall>s n. responds (sv_retire_shape sv s n)) \<and>
     (sp_data_views (rb_spec d) = [] \<or> (\<exists>base. sv_matrix_base sv = Some base)) \<and>
     (\<forall>base vs. responds (sv_verify_views sv base vs))"

lemma call_answers: "responds f \<Longrightarrow> \<exists>x w. call f r = (Inr x, r\<lparr>rn_world := w\<rparr>)"
proof -
  assume "responds f"
  then obtain x w where "f (rn_world r) = (Inr x, w)" unfolding responds_def by blast
  then show ?thesis by (auto simp: call_def)
qed

lemma record_answers: "responds f \<Longrightarrow> \<exists>v r'. record_as h (call f r) = (Outcome (Inr v), r')"
  using call_answers[of f r] by (auto simp: record_as_def)

lemma views_answer: "services_answer sv d \<Longrightarrow> \<exists>v r'. record_as id (verify_data_views sv d r) = (Outcome (Inr v), r')"
proof (cases "sp_data_views (rb_spec d) = []")
  case True
  then show ?thesis by (simp add: verify_data_views_def record_as_def)
next
  case False
  assume s: "services_answer sv d"
  then obtain base where b: "sv_matrix_base sv = Some base" using False by (auto simp: services_answer_def)
  have "responds (sv_verify_views sv base (sp_data_views (rb_spec d)))" using s by (simp add: services_answer_def)
  from record_answers[OF this] False b show ?thesis by (simp add: verify_data_views_def Let_def)
qed

lemma build_answers: "services_answer sv d \<Longrightarrow> (\<And>n. responds (f n)) \<Longrightarrow>
    \<exists>v r'. build_with sv version_id f r = (Outcome (Inr v), r')"
proof -
  assume s: "services_answer sv d" "\<And>n. responds (f n)"
  have "\<exists>n r'. watermark sv version_id r = (Inr n, r')"
  proof (cases version_id)
    case (Some v)
    have "responds (sv_head sv v)" using s(1) by (simp add: services_answer_def)
    from call_answers[OF this, of r] obtain n w where "call (sv_head sv v) r = (Inr n, r\<lparr>rn_world := w\<rparr>)" by blast
    with Some show ?thesis by (simp add: watermark_def)
  qed (simp add: watermark_def)
  then obtain n r' where "watermark sv version_id r = (Inr n, r')" by blast
  with record_answers[OF s(2)] show ?thesis by (simp add: build_with_def)
qed

lemma built_answers: "built_index name r = Some built \<Longrightarrow> \<exists>v r'. f built r = (Outcome (Inr v), r') \<Longrightarrow>
    \<exists>v r'. with_built what name f r = (Outcome (Inr v), r')"
  by (simp add: with_built_def)

lemma perform_answers:
  assumes "services_answer sv d" "needs_index u \<longrightarrow> built_index (build_name u) r \<noteq> None"
  shows "\<exists>v r'. perform sv d version_id u r = (Outcome (Inr v), r')"
proof (cases "eu_collection u")
  case None
  then show ?thesis using assms(2) record_answers build_answers[OF assms(1)] views_answer[OF assms(1)]
    by (cases "eu_step u")
      (auto simp: perform_def needs_index_def build_name_def intro!: built_answers record_answers
        simp: assms(1)[unfolded services_answer_def])
next
  case (Some col)
  then show ?thesis using assms(2) record_answers build_answers[OF assms(1)] views_answer[OF assms(1)]
    by (cases "eu_step u")
      (auto simp: perform_def needs_index_def build_name_def intro!: built_answers record_answers
        simp: assms(1)[unfolded services_answer_def])
qed

lemma set_step_answers:
  assumes "services_answer sv d" "ordinal \<le> i32_max" "ordinal < length (rn_steps r)"
    "sr_name (rn_steps r ! ordinal) = name" "rn_version r = version_id"
  shows "\<exists>r'. set_step sv version_id ordinal name st detail r = Inr r'"
proof (cases version_id)
  case None
  with assms show ?thesis by (simp add: set_step_def)
next
  case (Some v)
  have "responds (sv_event sv v (step_claim (rn_id r) ordinal name st detail))"
    using assms(1) by (simp add: services_answer_def)
  from call_answers[OF this, of r] obtain w where
    "call (sv_event sv v (step_claim (rn_id r) ordinal name st detail)) r = (Inr (), r\<lparr>rn_world := w\<rparr>)" by auto
  with Some assms show ?thesis by (simp add: set_step_def)
qed

lemma finish_answers:
  assumes "services_answer sv d" "ordinal \<le> i32_max" "ordinal < length (rn_steps r)"
    "sr_name (rn_steps r ! ordinal) = eu_name u" "rn_version r = version_id"
    "needs_index u \<longrightarrow> built_index (build_name u) r \<noteq> None"
  shows "\<exists>r'. finish_unit sv d version_id ordinal u r = Inr r'"
proof -
  obtain v r1 where p: "perform sv d version_id u r = (Outcome (Inr v), r1)"
    using perform_answers[OF assms(1,6)] by blast
  have f: "rn_steps r1 = rn_steps r" "rn_version r1 = rn_version r"
    using perform_frame[of r sv d version_id u] p by (simp_all add: same_steps_def)
  have "\<exists>r'. set_step sv version_id ordinal (eu_name u) Done (Some v) r1 = Inr r'"
    using assms f by (intro set_step_answers) simp_all
  with p show ?thesis by (auto simp: finish_unit_def)
qed

lemma built_index_found:
  assumes a: "at_ordinal us as rows j (rn_steps r)" and b: "builds_first us" "needs_index (us ! j)" "j < length us"
    and p: "\<forall>u \<in> set us. planned u" and r1: "rn_steps r1 = (rn_steps r)[j := x]"
  shows "built_index (build_name (us ! j)) r1 \<noteq> None"
proof -
  let ?xs = "rn_steps r1" and ?P = "\<lambda>i. sr_name (rn_steps r1 ! i) = build_name (us ! j)"
  have xs: "length ?xs = length us" "i < j \<Longrightarrow> ?xs ! i = rn_steps r ! i" for i
    using a r1 by (simp_all add: at_ordinal_def)
  have row: "row_ok us as i (?xs ! i)" "sr_state (?xs ! i) = Done" if "i < j" for i
    using a that b(3) xs(2)[OF that] by (simp_all add: at_ordinal_def)
  obtain i where i: "i < j" "?P i" using b row(1) unfolding builds_first_def row_ok_def by metis
  define m where "m = (LEAST i. ?P i)"
  have m: "?P m" "m \<le> i" "\<forall>l < m. \<not> ?P l"
    unfolding m_def using i(2) by (auto intro: LeastI Least_le dest: not_less_Least)
  then have mj: "m < j" using i by simp
  have "find (\<lambda>x. sr_name x = build_name (us ! j)) ?xs = Some (?xs ! m)"
    unfolding find_Some_iff using m mj b(3) xs(1) by (intro exI[of _ m]) simp
  moreover have "eu_step (us ! m) = BuildIndex"
  proof (rule build_name_step)
    show "planned (us ! m)" using p mj b(3) by simp
    show "eu_name (us ! m) = build_name (us ! j)" using row(1)[OF mj] m(1) by (simp add: row_ok_def)
  qed
  ultimately show ?thesis using row[OF mj] unfolding row_ok_def index_detail_def
    by (auto simp: built_index_def step_detail_def index_json_def jobj_def)
qed

section \<open>One walk\<close>

text \<open>The rows when a walk is allowed to start at ordinal \<open>m\<close>.\<close>

definition start_rows :: "nat option \<Rightarrow> nat \<Rightarrow> step_row list \<Rightarrow> bool" where
  "start_rows approved m xs \<longleftrightarrow> (\<forall>i < length xs. (i < m \<longrightarrow> sr_state (xs ! i) = Done) \<and>
     (i = m \<longrightarrow> sr_state (xs ! i) = Pending \<or> approved = Some m \<and> sr_state (xs ! i) = AwaitingApproval) \<and>
     (m < i \<longrightarrow> sr_state (xs ! i) = Pending))"

definition finished :: "'w run \<Rightarrow> bool" where
  "finished r \<longleftrightarrow> rn_state r = ''done'' \<and> (\<forall>x \<in> set (rn_steps r). sr_state x = Done)"

text \<open>The run waits for approval of unit \<open>k\<close>.\<close>

definition stopped_at :: "exec_unit list \<Rightarrow> nat \<Rightarrow> 'w run \<Rightarrow> bool" where
  "stopped_at us k r \<longleftrightarrow> length (rn_steps r) = length us \<and> k < length us \<and> requires_approval (eu_step (us ! k)) \<and>
     rn_state r = ''awaiting_approval'' \<and> (\<forall>i < length us. row_ok us UNIV i (rn_steps r ! i)) \<and>
     sr_state (rn_steps r ! k) = AwaitingApproval \<and> start_rows (Some k) k (rn_steps r)"

lemma front_stopped:
  assumes "at_ordinal us UNIV rows j (rn_steps r)" "start_rows approved m rows" "length rows = length us" "m \<le> j" "j < length us"
    and "requires_approval (eu_step (us ! j))" "rn_steps r' = (rn_steps r)[j := mark AwaitingApproval None (rn_steps r ! j)]"
    and "rn_state r' = ''awaiting_approval''"
  shows "stopped_at us j r'"
proof -
  let ?x = "mark AwaitingApproval None (rn_steps r ! j)"
  have "row_ok us UNIV j (rn_steps r ! j)" using assms(1,5) unfolding at_ordinal_def by blast
  then have "row_ok us UNIV j ?x" by (rule row_ok_mark) simp_all
  then have "\<forall>i < length us. row_ok us UNIV i (rn_steps r' ! i)"
    using assms(1,5,7) by (auto simp: at_ordinal_def nth_list_update)
  moreover have "start_rows (Some j) j (rn_steps r')"
    using assms(1-5,7) by (auto simp: start_rows_def at_ordinal_def nth_list_update)
  ultimately show ?thesis using assms by (simp add: stopped_at_def at_ordinal_def)
qed

lemma walk_live:
  assumes sv: "services_answer sv d" and bf: "builds_first us" and pl: "\<forall>u \<in> set us. planned u"
    and len: "length us \<le> Suc i32_max" and rows: "start_rows approved m rows" "length rows = length us"
  assumes "at_ordinal us UNIV rows j (rn_steps r)" "rn_version r = version_id" "pairs = drop j (List.enumerate 0 us)"
  shows "(\<exists>r'. walk sv d version_id approved rows pairs r = (Inr ''done'', r') \<and> finished r') \<or>
    (\<exists>k r'. walk sv d version_id approved rows pairs r = (Inr ''awaiting_approval'', r') \<and> stopped_at us k r' \<and>
       m \<le> k \<and> approved \<noteq> Some k)"
  using assms
proof (induction sv d version_id approved rows pairs r arbitrary: j rule: walk.induct)
  case (1 sv d version_id approved rows r)
  then have "length us \<le> j" by simp
  with "1.prems"(7) have "\<forall>x \<in> set (rn_steps r). sr_state x = Done" by (auto simp: at_ordinal_def in_set_conv_nth)
  then have "finished (set_run_state ''done'' r)" by (simp add: finished_def set_run_state_def)
  then show ?case by simp
next
  case (2 sv d version_id approved rows ordinal u pairs r)
  note prems = "2.prems"
  have j: "j < length us" using prems(9) by (metis drop_all length_enumerate list.distinct(1) not_le_imp_less)
  then have pu: "ordinal = j" "u = us ! j" "pairs = drop (Suc j) (List.enumerate 0 us)"
    using prems(9) by (simp_all add: Cons_nth_drop_Suc[symmetric] nth_enumerate_eq)
  have cur: "current_state rows ordinal = sr_state (rows ! j)" using j prems(6) pu by (simp add: current_state_def)
  have rj: "row_ok us UNIV j (rn_steps r ! j)" "length (rn_steps r) = length us"
    using prems(7) j unfolding at_ordinal_def by blast+
  then have nm: "ordinal \<le> i32_max" "ordinal < length (rn_steps r)" "sr_name (rn_steps r ! ordinal) = eu_name u"
    using prems(4) j pu by (simp_all add: row_ok_def)
  show ?case
  proof (cases "sr_state (rows ! j) = Done")
    case True
    then have "at_ordinal us UNIV rows (Suc j) (rn_steps r)" using prems(7) j by (intro at_ordinal_skip)
    with "2.IH"(1)[OF refl _ prems(1-6) this prems(8) pu(3)] True cur show ?thesis by (simp add: Let_def)
  next
    case nd: False
    then have mj: "m \<le> j" using prems(5,6) j by (auto simp: start_rows_def not_le)
    have nd': "current_state rows ordinal \<noteq> Done" using nd cur by simp
    then show ?thesis
    proof (cases rule: walk_unit[where u = u and approved = approved and sv = sv and d = d and version_id = version_id
          and us = pairs and r = r])
      case gate
      obtain r' where s: "set_step sv version_id ordinal (eu_name u) AwaitingApproval None r = Inr r'"
        using set_step_answers[OF prems(1) nm prems(8)] by blast
      have "stopped_at us j (set_run_state ''awaiting_approval'' r')"
        by (rule front_stopped[OF prems(7,5,6) mj j])
          (use gate(1) set_step_Inr[OF s] pu in \<open>simp_all add: set_run_state_def\<close>)
      with gate s mj pu(1) show ?thesis by auto
    next
      case wait
      with cur prems(5,6) j mj pu(1) have False by (cases "j = m") (auto simp: start_rows_def)
      then show ?thesis ..
    next
      case run
      obtain r1 where s: "set_step sv version_id ordinal (eu_name u) Running None r = Inr r1"
        using set_step_answers[OF prems(1) nm prems(8)] by blast
      let ?x = "mark Running None (rn_steps r ! j)"
      have r1: "rn_steps r1 = (rn_steps r)[j := ?x]" "rn_version r1 = version_id"
        using set_step_Inr[OF s] pu(1) prems(8) by simp_all
      have ok1: "row_ok us UNIV j ?x" using rj(1) by (rule row_ok_mark) simp_all
      have built: "needs_index u \<longrightarrow> built_index (build_name u) r1 \<noteq> None"
        using built_index_found[OF prems(7,2) _ j prems(3) r1(1)] pu(2) by simp
      have "sr_name (rn_steps r1 ! ordinal) = eu_name u" "ordinal < length (rn_steps r1)"
        using r1(1) nm pu(1) by simp_all
      from finish_answers[OF prems(1) nm(1) this(2,1) r1(2) built]
      obtain r2 where f: "finish_unit sv d version_id ordinal u r1 = Inr r2" by blast
      then show ?thesis
      proof (cases rule: finish_unit_cases[of sv d version_id ordinal u r1])
        case (ok detail r')
        have okd: "row_ok us UNIV j (mark Done (Some detail) ?x)"
          using ok1 by (rule row_ok_mark) (use ok(6) pu(2) in simp_all)
        have "rn_steps r' = (rn_steps r)[j := mark Done (Some detail) ?x]"
          using ok(3) r1(1) pu(1) j rj(2) by simp
        then have after: "at_ordinal us UNIV rows (Suc j) (rn_steps r')"
          using at_ordinal_done[OF prems(7) j okd] by simp
        have v: "rn_version r' = version_id" using ok(4) r1(2) by simp
        have w: "walk sv d version_id approved rows ((ordinal, u) # pairs) r = walk sv d version_id approved rows pairs r'"
          using run(2) s ok(1) by simp
        show ?thesis unfolding w
          by (rule "2.IH"(2)[OF refl nd' _ _ s ok(1) prems(1-6) after v pu(3)]) (use run(1) in auto)
      qed (use f in auto)
    qed
  qed
qed

section \<open>Driving a run to its end\<close>

text \<open>An operator who approves whatever waits, \<open>n\<close> times.\<close>

fun drive :: "'w services \<Rightarrow> runbook_doc \<Rightarrow> nat \<Rightarrow> 'w run \<Rightarrow> 'w run" where
  "drive sv d 0 r = r"
| "drive sv d (Suc n) r =
     (case position (\<lambda>x. sr_state x = AwaitingApproval) (rn_steps r) of
        None \<Rightarrow> r
      | Some ordinal \<Rightarrow> drive sv d n (snd (op_approve_step sv True (Inr d) ordinal r)))"

definition gates :: "exec_unit list \<Rightarrow> nat" where
  "gates us = length (filter (\<lambda>u. requires_approval (eu_step u)) us)"

lemma stopped_position: "stopped_at us k r \<Longrightarrow> position (\<lambda>x. sr_state x = AwaitingApproval) (rn_steps r) = Some k"
  by (auto simp: stopped_at_def position_Some start_rows_def)

lemma gates_drop: "k < length us \<Longrightarrow> requires_approval (eu_step (us ! k)) \<Longrightarrow> k < k' \<Longrightarrow>
    gates (drop k' us) < gates (drop k us)"
proof -
  assume k: "k < length us" "requires_approval (eu_step (us ! k))" "k < k'"
  have "gates (drop k us) = Suc (gates (drop (Suc k) us))"
    using k by (simp add: gates_def Cons_nth_drop_Suc[symmetric])
  moreover have "gates (drop k' us) \<le> gates (drop (Suc k) us)"
  proof -
    have "drop (Suc k) us = take (k' - Suc k) (drop (Suc k) us) @ drop k' us"
      using k by (metis append_take_drop_id drop_drop le_add_diff_inverse2 Suc_leI)
    then have "gates (drop (Suc k) us) = gates (take (k' - Suc k) (drop (Suc k) us)) + gates (drop k' us)"
      by (metis filter_append gates_def length_append)
    then show ?thesis by simp
  qed
  ultimately show ?thesis by simp
qed

lemma drive_live:
  assumes "services_answer sv d" "builds_first (exec_units d)" "length (exec_units d) \<le> Suc i32_max"
    and "stopped_at (exec_units d) k r" "gates (drop k (exec_units d)) \<le> n"
  shows "finished (drive sv d n r)"
  using assms(4,5)
proof (induction n arbitrary: k r)
  case 0
  then have "gates (drop k (exec_units d)) = 0" "k < length (exec_units d)"
    "requires_approval (eu_step (exec_units d ! k))" by (simp_all add: stopped_at_def)
  then show ?case using gates_drop[of k "exec_units d" "Suc k"] by simp
next
  case (Suc n)
  let ?us = "exec_units d" and ?r = "set_run_state ''running'' r"
  note st = Suc.prems(1)[unfolded stopped_at_def]
  have "k \<le> i32_max" using st assms(3) by simp
  then have step: "op_approve_step sv True (Inr d) k r = execute sv d (rn_version r) (Some k) ?r"
    using st by (simp add: op_approve_step_def)
  have rows: "rn_steps ?r = rn_steps r" "rn_version ?r = rn_version r" by (simp_all add: set_run_state_def)
  have a0: "at_ordinal ?us UNIV (rn_steps ?r) 0 (rn_steps ?r)" using st by (simp add: rows at_ordinal_def)
  have pl: "\<forall>u \<in> set ?us. planned u" using plan_planned by blast
  have sr: "start_rows (Some k) k (rn_steps ?r)" "length (rn_steps ?r) = length ?us" using st rows by simp_all
  consider r' where "execute sv d (rn_version r) (Some k) ?r = (Inr ''done'', r')" "finished r'"
    | k' r' where "execute sv d (rn_version r) (Some k) ?r = (Inr ''awaiting_approval'', r')" "stopped_at ?us k' r'"
      "k \<le> k'" "Some k \<noteq> Some k'"
    using walk_live[OF assms(1,2) pl assms(3) sr a0 rows(2)] unfolding execute_def by (metis drop_0)
  then show ?case
  proof cases
    case 1
    have "drive sv d n r' = r'"
    proof (cases n)
      case (Suc n')
      have "position (\<lambda>x. sr_state x = AwaitingApproval) (rn_steps r') = None"
        using 1(2) by (simp add: position_None finished_def)
      with Suc show ?thesis by simp
    qed simp
    with 1 step stopped_position[OF Suc.prems(1)] show ?thesis by simp
  next
    case 2
    have "gates (drop k' ?us) \<le> n"
      using gates_drop[of k ?us k'] st 2(3,4) Suc.prems(2) by simp
    from Suc.IH[OF 2(2) this] 2(1) step stopped_position[OF Suc.prems(1)] show ?thesis by simp
  qed
qed

text \<open>C17. A valid runbook completes. When validation finds no error, its services answer and its
  plan has at most as many units as the checkpoint table can number, then starting it and
  approving whatever waits, once for every unit that requires approval, ends with the run
  done and every checkpoint row done; no step is left without the index it needs.\<close>

theorem valid_runbook_completes:
  assumes "is_valid (validate_runbook dash show_wide d)" "services_answer sv d" "length (exec_units d) \<le> Suc i32_max"
  shows "finished (drive sv d (gates (exec_units d)) (snd (op_run_runbook sv True d run_id version_id w)))"
proof -
  let ?us = "exec_units d" and ?r = "planned_run d run_id version_id w"
  note bf = valid_plan_builds_first[OF assms(1)]
  have pl: "\<forall>u \<in> set ?us. planned u" using plan_planned by blast
  have sr: "start_rows None 0 (rn_steps ?r)" "length (rn_steps ?r) = length ?us"
    by (auto simp: planned_rows start_rows_def)
  have a0: "at_ordinal ?us UNIV (rn_steps ?r) 0 (rn_steps ?r)"
    using at_ordinal_start[OF planned_ok] .
  have v: "rn_version ?r = version_id" by (simp add: planned_run_def)
  consider r' where "execute sv d version_id None ?r = (Inr ''done'', r')" "finished r'"
    | k' r' where "execute sv d version_id None ?r = (Inr ''awaiting_approval'', r')" "stopped_at ?us k' r'"
    using walk_live[OF assms(2) bf pl assms(3) sr a0 v] unfolding execute_def by (metis drop_0)
  then show ?thesis
  proof cases
    case 1
    have "position (\<lambda>x. sr_state x = AwaitingApproval) (rn_steps r') = None"
      using 1(2) by (simp add: position_None finished_def)
    then have "drive sv d n r' = r'" for n by (cases n) simp_all
    with 1 show ?thesis by (simp add: op_run_runbook_def Let_def)
  next
    case 2
    have "gates (drop k' ?us) \<le> gates ?us"
      by (metis append_take_drop_id filter_append gates_def le_add2 length_append)
    from drive_live[OF assms(2) bf assms(3) 2(2) this] 2(1) show ?thesis by (simp add: op_run_runbook_def Let_def)
  qed
qed

text \<open>
  An edition applied in place releases the gates of a run in flight. A run of a valid document waits at
  its first gate \<open>k\<close>; the document is applied again under the same reference with the same units and no
  approval required; the operator approves \<open>k\<close> alone, and the run ends with every later gate passed.
\<close>

lemma reapplied_document_opens_gate:
  assumes valid: "is_valid (validate_runbook dash show_wide d)" and sv: "services_answer sv d" "services_answer sv d'"
    and len: "length (exec_units d) \<le> Suc i32_max" and gate: "\<exists>u \<in> set (exec_units d). requires_approval (eu_step u)"
    and same: "runbook_ref d' = runbook_ref d" "map eu_name (exec_units d') = map eu_name (exec_units d)" "builds_first (exec_units d')"
    and open_gates: "\<forall>u \<in> set (exec_units d'). \<not> requires_approval (eu_step u)"
  shows "\<exists>k. let r = snd (op_run_runbook sv True d run_id version_id w); r' = snd (op_approve_step sv True (Inr d') k r) in
    run_reach sv [d] [] r \<and> awaiting r k \<and> run_reach sv [d', d] [k] r' \<and> finished r'"
proof -
  let ?us = "exec_units d" and ?p = "planned_run d run_id version_id w"
  let ?r = "snd (op_run_runbook sv True d run_id version_id w)"
  have reach: "run_reach sv [d] [] ?r" by (rule run_reach.start)
  have pl: "\<forall>u \<in> set (exec_units x). planned u" for x using plan_planned by blast
  have sr: "start_rows None 0 (rn_steps ?p)" "length (rn_steps ?p) = length ?us" by (auto simp: planned_rows start_rows_def)
  have a0: "at_ordinal ?us UNIV (rn_steps ?p) 0 (rn_steps ?p)" using at_ordinal_start[OF planned_ok] .
  have v: "rn_version ?p = version_id" by (simp add: planned_run_def)
  have ex: "?r = snd (walk sv d version_id None (rn_steps ?p) (drop 0 (List.enumerate 0 ?us)) ?p)"
    by (simp add: op_run_runbook_def Let_def execute_def)
  have "\<not> finished ?r"
  proof
    assume f: "finished ?r"
    from gate obtain i where i: "i < length ?us" "requires_approval (eu_step (?us ! i))" by (auto simp: in_set_conv_nth)
    have rows: "run_rows_ok (map eu_name ?us) (may_pass [d] []) (rn_steps ?r)" using reach_rows_ok[OF reach] by simp
    then have l: "length (rn_steps ?r) = length ?us" unfolding run_rows_ok_def by (metis length_map)
    with f i have "sr_state (rn_steps ?r ! i) = Done" by (simp add: finished_def)
    with rows i l show False by (auto simp: run_rows_ok_def may_pass_def)
  qed
  then obtain k where st: "stopped_at ?us k ?r"
    using walk_live[OF sv(1) valid_plan_builds_first[OF valid] pl len sr a0 v refl] unfolding ex by auto
  note s = st[unfolded stopped_at_def]
  let ?q = "set_run_state ''running'' ?r" and ?vs = "exec_units d'"
  have q: "rn_steps ?q = rn_steps ?r" "rn_version ?q = rn_version ?r" by (simp_all add: set_run_state_def)
  have lv: "length ?vs = length ?us" using same(2) by (metis length_map)
  have nm: "eu_name (?vs ! i) = eu_name (?us ! i)" if "i < length ?us" for i using same(2) lv that by (metis nth_map)
  have row: "row_ok ?vs UNIV i (rn_steps ?r ! i)" if i: "i < length ?us" for i
  proof -
    have "eu_step (?us ! i) = BuildIndex" if "eu_step (?vs ! i) = BuildIndex"
    proof (rule build_name_step)
      show "planned (?us ! i)" using i by (intro plan_planned[of _ d]) simp
      have "planned (?vs ! i)" using i lv by (intro plan_planned[of _ d']) simp
      with that have "eu_name (?vs ! i) = build_name (?vs ! i)" by (auto simp: planned_def)
      with nm[OF i] show "eu_name (?us ! i) = build_name (?vs ! i)" by simp
    qed
    with s i nm[OF i] show ?thesis unfolding row_ok_def by auto
  qed
  have a1: "at_ordinal ?vs UNIV (rn_steps ?q) 0 (rn_steps ?q)" using s row lv by (simp add: q at_ordinal_def)
  have k: "k \<le> i32_max" "awaiting ?r k" using s len by (auto simp: awaiting_def)
  have step: "op_approve_step sv True (Inr d') k ?r = execute sv d' (rn_version ?r) (Some k) ?q"
    using k by (simp add: op_approve_step_def awaiting_def)
  have "start_rows (Some k) k (rn_steps ?q)" "length (rn_steps ?q) = length ?vs" "length ?vs \<le> Suc i32_max" using s q lv len by simp_all
  from walk_live[OF sv(2) same(3) pl this(3,1,2) a1 q(2) refl] open_gates
  have f: "finished (snd (op_approve_step sv True (Inr d') k ?r))" unfolding step execute_def by (auto simp: stopped_at_def)
  have "rn_ref ?r = runbook_ref d" unfolding ex walk_ref by (simp add: planned_run_def)
  then have "run_reach sv [d', d] [] ?r" using run_reach.apply_again[OF reach] same(1) by simp
  from run_reach.approve[OF this, of "Inr d'" _ True k] k have "run_reach sv [d', d] [k] (snd (op_approve_step sv True (Inr d') k ?r))"
    by (simp add: acted_on_def)
  with reach k(2) f show ?thesis unfolding Let_def by blast
qed

lemma sample_answers: "services_answer sample_services (sample_doc steps)"
  by (auto simp: services_answer_def responds_def sample_services_def sample_doc_def)

lemma reapplied_document_opens_gate_example:
  "\<exists>k. let r = snd (op_run_runbook sample_services True (sample_doc gated_steps) ''r1'' (Some ''v'') 0);
      r' = snd (op_approve_step sample_services True (Inr (sample_doc [BuildIndex, Verify, Cutover None])) k r) in
    run_reach sample_services [sample_doc gated_steps] [] r \<and> awaiting r k \<and>
    run_reach sample_services [sample_doc [BuildIndex, Verify, Cutover None], sample_doc gated_steps] [k] r' \<and> finished r'"
proof (rule reapplied_document_opens_gate[OF _ sample_answers sample_answers])
  show "is_valid (validate_runbook [] (\<lambda>_. []) (sample_doc gated_steps))" by code_simp
  have v: "is_valid (validate_runbook [] (\<lambda>_. []) (sample_doc [BuildIndex, Verify, Cutover None]))" by code_simp
  show "builds_first (exec_units (sample_doc [BuildIndex, Verify, Cutover None]))" by (rule valid_plan_builds_first[OF v])
  have e: "exec_units (sample_doc [BuildIndex, Verify, c]) = [unit_for BuildIndex (sp_collections (rb_spec (sample_doc [])) ! 0),
      unit_for BuildIndex (sp_collections (rb_spec (sample_doc [])) ! 1), unit_for Verify (sp_collections (rb_spec (sample_doc [])) ! 0),
      unit_for Verify (sp_collections (rb_spec (sample_doc [])) ! 1), unit_for c (sp_collections (rb_spec (sample_doc [])) ! 0),
      unit_for c (sp_collections (rb_spec (sample_doc [])) ! 1)]" if "\<exists>x. c = Cutover x" for c
    using that by (auto simp: sample_doc_def exec_units_def is_v2_def execution_order_def expand_def)
  show "length (exec_units (sample_doc gated_steps)) \<le> Suc i32_max" by (simp add: e i32_max_def)
  show "\<exists>u \<in> set (exec_units (sample_doc gated_steps)). requires_approval (eu_step u)" by (simp add: e)
  show "map eu_name (exec_units (sample_doc [BuildIndex, Verify, Cutover None])) = map eu_name (exec_units (sample_doc gated_steps))"
    by (simp add: e) (simp add: unit_for_def)
  show "\<forall>u \<in> set (exec_units (sample_doc [BuildIndex, Verify, Cutover None])). \<not> requires_approval (eu_step u)" by (simp add: e)
  show "runbook_ref (sample_doc [BuildIndex, Verify, Cutover None]) = runbook_ref (sample_doc gated_steps)"
    by (simp add: runbook_ref_def sample_doc_def)
qed

lemma valid_runbook_completes_witness:
  "finished (drive sample_services (sample_doc gated_steps) 2
     (snd (op_run_runbook sample_services True (sample_doc gated_steps) ''r1'' (Some ''v'') 0)))"
proof -
  have g: "gates (exec_units (sample_doc gated_steps)) = 2" by code_simp
  have l: "length (exec_units (sample_doc gated_steps)) \<le> Suc i32_max"
    by (simp add: sample_doc_def exec_units_def is_v2_def execution_order_def expand_def i32_max_def)
  have v: "is_valid (validate_runbook [] (\<lambda>_. []) (sample_doc gated_steps))" by code_simp
  from valid_runbook_completes[OF v sample_answers l] show ?thesis unfolding g .
qed

section \<open>A run whose first unit lacks its build\<close>

text \<open>C18. The run operation does not validate the document, and a missing build leaves the walk by
  an early return: a runbook whose first unit verifies an index no step built answers with the
  error, but its run stays in the state running with that unit running, never failed; and from then
  on every approval of every step is refused without a change, so nothing in the interface can
  move the run again.\<close>

theorem missing_build_strands_run:
  assumes "exec_units d = u # us" "eu_step u = Verify"
  shows "\<exists>r. op_run_runbook sv True d run_id None w = (Inl (needs_build ''verify''), r) \<and>
    rn_state r = ''running'' \<and> map sr_state (rn_steps r) = Running # map (\<lambda>_. Pending) us \<and>
    (\<forall>locked loaded ordinal. \<exists>e. op_approve_step sv locked loaded ordinal r = (Inl e, r))"
proof -
  let ?r = "planned_run d run_id None w"
  let ?rows = "rn_steps ?r"
  define r1 where "r1 = ?r\<lparr>rn_steps := ?rows[0 := mark Running None (?rows ! 0)]\<rparr>"
  have rows: "?rows ! 0 = \<lparr>sr_name = eu_name u, sr_state = Pending, sr_detail = None\<rparr>" "length ?rows = Suc (length us)"
    using assms(1) by (simp_all add: planned_rows)
  have s: "set_step sv None 0 (eu_name u) Running None ?r = Inr r1"
    using rows by (simp add: set_step_def r1_def) (simp add: planned_run_def)
  have detail: "sr_detail x = None" if "x \<in> set (rn_steps r1)" for x
    using that assms(1) by (auto simp: r1_def planned_rows mark_def)
  have "built_index name r1 = None" for name
    using detail by (auto simp: built_index_def step_detail_def find_Some_iff split: bind_splits)
  then have p: "perform sv d None u r1 = (Abort (needs_build ''verify''), r1)"
    using assms(2) by (simp add: perform_def with_built_def split: option.splits)
  have "walk sv d None None ?rows ((0, u) # us') ?r = (Inl (needs_build ''verify''), r1)" for us'
    using s p rows assms(2) by (simp add: current_state_def finish_unit_def)
  then have run: "op_run_runbook sv True d run_id None w = (Inl (needs_build ''verify''), r1)"
    using assms(1) by (simp add: op_run_runbook_def execute_def)
  have st: "map sr_state (rn_steps r1) = Running # map (\<lambda>_. Pending) us"
    using assms(1) by (simp add: r1_def planned_rows mark_def)
  have na: "sr_state (rn_steps r1 ! i) \<noteq> AwaitingApproval" if "i < length (rn_steps r1)" for i
  proof -
    have "sr_state (rn_steps r1 ! i) \<in> set (map sr_state (rn_steps r1))" using that by simp
    then show ?thesis unfolding st by auto
  qed
  have "\<exists>e. op_approve_step sv locked loaded ordinal r1 = (Inl e, r1)" for locked loaded ordinal
    using na[of ordinal] by (auto simp: op_approve_step_def)
  with run st show ?thesis by (auto simp: r1_def planned_run_def)
qed

lemma missing_build_strands_run_witness:
  "\<exists>r. op_run_runbook sample_services True (sample_doc [Verify]) ''r1'' None 0 = (Inl (needs_build ''verify''), r) \<and>
     rn_state r = ''running''"
proof -
  have e: "exec_units (sample_doc [Verify]) =
      unit_for Verify (hd (sp_collections (rb_spec (sample_doc [Verify])))) #
      map (unit_for Verify) (tl (sp_collections (rb_spec (sample_doc [Verify]))))"
    by (simp add: sample_doc_def exec_units_def is_v2_def execution_order_def expand_def)
  from missing_build_strands_run[OF e unit_simps(1), of sample_services "''r1''" 0] show ?thesis by blast
qed

end
