(* ===== verification/Access.thy ===== *)
theory Access
  imports Kernel_Types
begin

text \<open>
  Capability tokens and the one authorization primitive (\<open>munarium-access/src/lib.rs\<close>), the
  authorization class of sealed evidence (\<open>munarium-core/src/evidence.rs\<close>), and the addresses
  of stored bytes with the in-memory store behind them (\<open>munarium-core/src/sources.rs\<close>,
  \<open>munarium-store-mem/src/sources.rs\<close>).

  The JWT library is a pair of parameters: \<open>encode\<close> signs a claim set, \<open>decode\<close> checks a token
  with a leeway at a given time. SHA-256 is the parameter \<open>sha_hex\<close>, the 64 hexadecimal digits
  of a digest. Bytes are characters.
\<close>

type_synonym bytes = string

section \<open>Tokens\<close>

definition SCOPE_QUERY :: string where "SCOPE_QUERY = ''query''"
definition SCOPE_VOCABULARY :: string where "SCOPE_VOCABULARY = ''vocabulary''"
definition SCOPE_INGEST :: string where "SCOPE_INGEST = ''ingest''"
definition SCOPE_FINDINGS :: string where "SCOPE_FINDINGS = ''findings''"
definition SCOPE_EVIDENCE :: string where "SCOPE_EVIDENCE = ''evidence''"
definition MAX_TTL_SECS :: nat where "MAX_TTL_SECS = 86400"
definition LEEWAY_SECS :: nat where "LEEWAY_SECS = 30"

datatype access_error = TokenExpired | InvalidToken string

record access_claims =
  ac_sub :: string
  ac_ten :: string
  ac_lvl :: int
  ac_cmp :: "string list"
  ac_scopes :: "string list"
  ac_rb :: "string list option"
  ac_jti :: string
  ac_iat :: int
  ac_exp :: int

record access_ctx =
  ax_uid :: string
  ax_tenant_id :: string
  ax_level :: int
  ax_compartments :: "string list"
  ax_all_compartments :: bool
  ax_scopes :: "string list"
  ax_runbooks :: "string list option"
  ax_jti :: string

definition ctx_from :: "access_claims \<Rightarrow> access_ctx" where
  "ctx_from c = \<lparr>ax_uid = ac_sub c, ax_tenant_id = ac_ten c, ax_level = ac_lvl c, ax_compartments = ac_cmp c,
     ax_all_compartments = False, ax_scopes = ac_scopes c, ax_runbooks = ac_rb c, ax_jti = ac_jti c\<rparr>"

definition permits :: "access_ctx \<Rightarrow> int \<Rightarrow> string list \<Rightarrow> bool" where
  "permits a level compartments \<longleftrightarrow>
     level \<le> ax_level a \<and>
     (ax_all_compartments a \<or> (\<forall>c \<in> set compartments. \<exists>have \<in> set (ax_compartments a). have = c))"

definition has_scope :: "access_ctx \<Rightarrow> string \<Rightarrow> bool" where
  "has_scope a scope \<longleftrightarrow> (\<exists>s \<in> set (ax_scopes a). s = scope)"

definition permits_runbook :: "access_ctx \<Rightarrow> string \<Rightarrow> bool" where
  "permits_runbook a name = (case ax_runbooks a of None \<Rightarrow> True | Some names \<Rightarrow> name \<in> set names)"

definition max_level :: int where
  "max_level = 2 ^ 31 - 1"

definition unrestricted_ctx :: "string \<Rightarrow> string \<Rightarrow> access_ctx" where
  "unrestricted_ctx uid tenant_id = \<lparr>ax_uid = uid, ax_tenant_id = tenant_id, ax_level = max_level, ax_compartments = [],
     ax_all_compartments = True, ax_scopes = [SCOPE_QUERY, SCOPE_VOCABULARY, SCOPE_INGEST, SCOPE_FINDINGS, SCOPE_EVIDENCE],
     ax_runbooks = None, ax_jti = []\<rparr>"

datatype jwt_error = ExpiredSignature | JwtError string

definition mint :: "(bytes \<Rightarrow> access_claims \<Rightarrow> string + string) \<Rightarrow> bytes \<Rightarrow> access_claims \<Rightarrow> access_error + string" where
  "mint encode secret claims = (case encode secret claims of Inl e \<Rightarrow> Inl (InvalidToken e) | Inr t \<Rightarrow> Inr t)"

definition verify :: "(bytes \<Rightarrow> nat \<Rightarrow> int \<Rightarrow> string \<Rightarrow> jwt_error + access_claims) \<Rightarrow> int \<Rightarrow> bytes \<Rightarrow> string \<Rightarrow>
    access_error + access_claims" where
  "verify decode now secret token =
     (case decode secret LEEWAY_SECS now token of
        Inr claims \<Rightarrow> Inr claims
      | Inl ExpiredSignature \<Rightarrow> Inl TokenExpired
      | Inl (JwtError e) \<Rightarrow> Inl (InvalidToken e))"

definition known_scope :: "string \<Rightarrow> bool" where
  "known_scope s \<longleftrightarrow> \<not> (s \<noteq> SCOPE_QUERY \<and> s \<noteq> SCOPE_INGEST \<and> s \<noteq> SCOPE_FINDINGS \<and> s \<noteq> SCOPE_EVIDENCE \<and> s \<noteq> SCOPE_VOCABULARY)"

fun check_scopes :: "string list \<Rightarrow> access_error + unit" where
  "check_scopes [] = Inr ()"
| "check_scopes (s # ss) =
     (if \<not> known_scope s
      then Inl (InvalidToken (''unknown scope '' @ quoted s @ '' (query|ingest|findings|evidence|vocabulary)''))
      else check_scopes ss)"

text \<open>\<open>u64 as i64\<close> and addition at 64 bits.\<close>

definition as_i64 :: "int \<Rightarrow> int" where
  "as_i64 n = (n + 2 ^ 63) mod 2 ^ 64 - 2 ^ 63"

definition clamp_ttl :: "nat \<Rightarrow> nat" where
  "clamp_ttl ttl = (if ttl < 1 then 1 else if MAX_TTL_SECS < ttl then MAX_TTL_SECS else ttl)"

text \<open>The clock gives the seconds since the epoch, or an error when it is set before it.\<close>

definition issue :: "(bytes \<Rightarrow> access_claims \<Rightarrow> string + string) \<Rightarrow> string + nat \<Rightarrow> bytes \<Rightarrow> string \<Rightarrow> string \<Rightarrow> int \<Rightarrow>
    string list \<Rightarrow> string list \<Rightarrow> string list option \<Rightarrow> nat \<Rightarrow> string \<Rightarrow> access_error + string \<times> access_claims" where
  "issue encode clock secret uid tenant_id level compartments scopes runbooks ttl_secs jti =
     (if trim uid = [] then Inl (InvalidToken ''uid is required'')
      else if scopes = [] then Inl (InvalidToken ''at least one scope (query|ingest|findings|evidence) is required'')
      else
      res_bind (check_scopes scopes) (\<lambda>_.
      case clock of
        Inl e \<Rightarrow> Inl (InvalidToken e)
      | Inr secs \<Rightarrow>
          let now = as_i64 (int secs);
              claims = \<lparr>ac_sub = uid, ac_ten = tenant_id, ac_lvl = level, ac_cmp = compartments, ac_scopes = scopes,
                ac_rb = runbooks, ac_jti = jti, ac_iat = now, ac_exp = as_i64 (now + int (clamp_ttl ttl_secs))\<rparr>
          in res_bind (mint encode secret claims) (\<lambda>token. Inr (token, claims))))"

section \<open>Authorization classes\<close>

record authorization_class =
  az_name :: "string option"
  az_access_level :: int
  az_compartments :: "string list"

definition dominated_by :: "authorization_class \<Rightarrow> int \<Rightarrow> string list \<Rightarrow> bool \<Rightarrow> bool" where
  "dominated_by c level compartments all_compartments \<longleftrightarrow>
     az_access_level c \<le> level \<and>
     (all_compartments \<or> (\<forall>x \<in> set (az_compartments c). \<exists>have \<in> set compartments. have = x))"

text \<open>The call every route makes with its principal.\<close>

definition class_admits :: "authorization_class \<Rightarrow> access_ctx \<Rightarrow> bool" where
  "class_admits c a = dominated_by c (ax_level a) (ax_compartments a) (ax_all_compartments a)"

text \<open>
  The simple-security property: a principal clears an object of a level and compartments. The
  laws of the rule follow from its form, for every predicate that has it.
\<close>

locale simple_security =
  fixes clears :: "'p \<Rightarrow> int \<Rightarrow> string list \<Rightarrow> bool"
    and clearance :: "'p \<Rightarrow> int"
    and held :: "'p \<Rightarrow> string list"
    and holds_all :: "'p \<Rightarrow> bool"
  assumes clears_iff: "clears p l cs \<longleftrightarrow> l \<le> clearance p \<and> (holds_all p \<or> set cs \<subseteq> set (held p))"
begin

lemma clears_down: "clears p l cs \<Longrightarrow> l' \<le> l \<Longrightarrow> set cs' \<subseteq> set cs \<Longrightarrow> clears p l' cs'"
  by (auto simp: clears_iff)

lemma clears_join: "clears p (max l l') (cs @ cs') \<longleftrightarrow> clears p l cs \<and> clears p l' cs'"
  by (auto simp: clears_iff)

lemma clears_up: "clears p l cs \<Longrightarrow> clearance p \<le> clearance q \<Longrightarrow> set (held p) \<subseteq> set (held q) \<Longrightarrow>
    (holds_all p \<longrightarrow> holds_all q) \<Longrightarrow> clears q l cs"
  by (auto simp: clears_iff)

lemma no_read_up: "clearance p < l \<Longrightarrow> \<not> clears p l cs"
  by (simp add: clears_iff)

end

interpretation collections: simple_security permits ax_level ax_compartments ax_all_compartments
  by unfold_locales (auto simp: permits_def)

interpretation evidence: simple_security
  "\<lambda>a l cs. class_admits \<lparr>az_name = None, az_access_level = l, az_compartments = cs\<rparr> a"
  ax_level ax_compartments ax_all_compartments
  by unfold_locales (auto simp: class_admits_def dominated_by_def)

section \<open>Source addresses\<close>

definition EVIDENCE_PATH_PREFIX :: string where
  "EVIDENCE_PATH_PREFIX = ''evidence/''"

definition source_id :: "(bytes \<Rightarrow> string) \<Rightarrow> string \<Rightarrow> string \<Rightarrow> string" where
  "source_id sha_hex tenant path = ''src-'' @ take 16 (sha_hex (tenant @ ''/'' @ path))"

record source_key =
  sk_tenant :: string
  sk_path :: string
  sk_content_hash :: string

definition bad_path :: "string \<Rightarrow> string \<Rightarrow> kernel_error" where
  "bad_path path detail = InvalidInput (''source path '' @ quoted path @ '' is invalid: '' @ detail)"

fun check_segments :: "string \<Rightarrow> string list \<Rightarrow> kernel_error + unit" where
  "check_segments path [] = Inr ()"
| "check_segments path (s # ss) =
     (if s = [] then Inl (bad_path path ''contains an empty path segment'')
      else if s = ''.'' \<or> s = ''..'' then Inl (bad_path path (''contains a '' @ quoted ''.'' @ '' or '' @ quoted ''..'' @ '' segment''))
      else check_segments path ss)"

text \<open>The bytes of a text in UTF-8: a code point above U+007F takes two.\<close>

definition utf8_byte :: "string \<Rightarrow> nat \<Rightarrow> nat option" where
  "utf8_byte s i =
     (let bs = concat (map (\<lambda>c. let n = of_char c :: nat in if n < 128 then [n] else [192 + n div 64, 128 + n mod 64]) s)
      in if i < length bs then Some (bs ! i) else None)"

definition validate_path :: "string \<Rightarrow> kernel_error + unit" where
  "validate_path path =
     (if path = [] then Inl (bad_path path ''empty'')
      else if 1024 < byte_len path then Inl (bad_path path ''longer than 1024 bytes'')
      else if starts_with path ''/'' then Inl (bad_path path ''absolute paths are not allowed'')
      else if CHR 0x5C \<in> set path then Inl (bad_path path (''backslashes are not allowed; use '' @ quoted ''/'' @ '' separators''))
      else if CHR 0x00 \<in> set path then Inl (bad_path path ''contains a NUL byte'')
      else if 2 \<le> byte_len path \<and> utf8_byte path 1 = Some 58 then Inl (bad_path path ''drive-qualified paths are not allowed'')
      else check_segments path (split_on (\<lambda>c. c = CHR ''/'') path))"

definition refuse_reserved_document_path :: "string \<Rightarrow> kernel_error + unit" where
  "refuse_reserved_document_path path =
     (if starts_with path EVIDENCE_PATH_PREFIX
      then Inl (InvalidInput (''source path '' @ quoted path @ '' is under the reserved '' @ quoted EVIDENCE_PATH_PREFIX
        @ '' prefix; that keyspace belongs to sealed evidence artifacts and cannot hold documents''))
      else Inr ())"

definition new_source_key :: "string \<Rightarrow> string \<Rightarrow> string \<Rightarrow> kernel_error + source_key" where
  "new_source_key tenant path content_hash =
     res_bind (validate_path path) (\<lambda>_.
     if tenant = [] \<or> CHR ''/'' \<in> set tenant
     then Inl (InvalidInput (''tenant '' @ quoted tenant @ '' must be non-empty and must not contain '' @ quoted ''/''))
     else Inr \<lparr>sk_tenant = tenant, sk_path = path, sk_content_hash = content_hash\<rparr>)"

definition blob_name :: "source_key \<Rightarrow> string" where
  "blob_name k = sk_tenant k @ ''/'' @ sk_path k"

definition key_source_id :: "(bytes \<Rightarrow> string) \<Rightarrow> source_key \<Rightarrow> string" where
  "key_source_id sha_hex k = source_id sha_hex (sk_tenant k) (sk_path k)"

section \<open>The in-memory blob store\<close>

text \<open>Its lock is never poisoned: no operation panics while holding it.\<close>

type_synonym blobs = "string \<Rightarrow> bytes option"

definition put_blob :: "source_key \<Rightarrow> bytes \<Rightarrow> blobs \<Rightarrow> string \<times> blobs" where
  "put_blob k bs m = (''mem://'' @ blob_name k, m(blob_name k \<mapsto> bs))"

definition get_blob :: "source_key \<Rightarrow> blobs \<Rightarrow> kernel_error + bytes" where
  "get_blob k m = ok_or (m (blob_name k)) (NotFound ''source blob'' (blob_name k))"

definition blob_exists :: "source_key \<Rightarrow> blobs \<Rightarrow> bool" where
  "blob_exists k m \<longleftrightarrow> m (blob_name k) \<noteq> None"

definition delete_blob :: "source_key \<Rightarrow> blobs \<Rightarrow> blobs" where
  "delete_blob k m = m(blob_name k := None)"




end
