(* ===== verification/Evidence.thy ===== *)
theory Evidence
  imports Access
begin

text \<open>
  Sealed evidence (\<open>munarium-core/src/evidence.rs\<close>): the manifest and its validation, the domain
  key, the stored records. RFC 3339 parsing is the parameter \<open>rfc3339\<close>, SHA-256 the parameter
  \<open>sha_hex\<close>. The contract version is the text of \<open>server/contract/matrix/VERSION\<close>.
\<close>

definition CONTRACT_VERSION :: string where
  "CONTRACT_VERSION = ''0.1.0'' @ [CHR 0x0A]"

definition INLINE_SEAL_MAX_BYTES :: nat where
  "INLINE_SEAL_MAX_BYTES = 1024 * 1024"

definition MAX_ARTIFACT_BYTES :: nat where
  "MAX_ARTIFACT_BYTES = 256 * 1024 * 1024"

definition MAX_ROW_LIMIT :: nat where
  "MAX_ROW_LIMIT = 1000"

definition DEFAULT_ROW_LIMIT :: nat where
  "DEFAULT_ROW_LIMIT = 100"

definition GRANT_TTL_SECS :: int where
  "GRANT_TTL_SECS = 900"

definition MEDIA_TYPE_PARQUET :: string where
  "MEDIA_TYPE_PARQUET = ''application/vnd.apache.parquet''"

definition MEDIA_TYPE_CSV :: string where
  "MEDIA_TYPE_CSV = ''text/csv; charset=utf-8''"

section \<open>The manifest\<close>

datatype evidence_kind = TableEvidence | CountEvidence | ObservationsEvidence

fun evidence_kind_str :: "evidence_kind \<Rightarrow> string" where
  "evidence_kind_str TableEvidence = ''table''"
| "evidence_kind_str CountEvidence = ''count''"
| "evidence_kind_str ObservationsEvidence = ''observations''"

datatype column_type = ColBool | Int64 | Decimal | Float64 | ColString | ColBytes | Date | TimestampTz | TimestampNaive
  | Interval | Uuid | ColJson | ColArray

datatype row_id_rule = Keys | Position

record evidence_column =
  ec_id :: string
  ec_name :: string
  ec_ty :: column_type
  ec_nullable :: bool
  ec_scale :: "int option"
  ec_unit :: "string option"
  ec_additivity :: "string option"
  ec_key :: bool
  ec_element_type :: "string option"

record evidence_identity =
  ei_row_id_rule :: row_id_rule
  ei_order_by :: "string list"
  ei_rows :: "int option"

record completeness =
  cp_truncated :: bool
  cp_declared_max_rows :: "int option"
  cp_rows_covered :: "int option"
  cp_rows_excluded :: "int option"
  cp_exclusion_reason :: "string option"

record redaction =
  rd_denied_columns :: "string list"
  rd_masked :: bool

record source_ref =
  sf_source_id :: string
  sf_source_version :: int
  sf_adapter :: string
  sf_adapter_version :: "string option"
  sf_engine :: "string option"
  sf_driver :: "string option"

record versions =
  vs_query_contract :: "string option"
  vs_claim_mapping :: "string option"
  vs_semantic_provider :: "string option"
  vs_render :: "string option"
  vs_policy :: "string option"
  vs_compiler :: "string option"

record plan_hashes =
  ph_canonical_plan_hash :: "string option"
  ph_bound_parameters_hash :: "string option"

record snapshot_marker =
  sm_source_id :: string
  sm_marker :: "string option"
  sm_isolation :: "string option"
  sm_started_at :: "string option"
  sm_ended_at :: "string option"
  sm_replay_level :: string
  sm_replay_expires_at :: "string option"

record freshness =
  fn_watermark :: "string option"
  fn_observed_at :: "string option"
  fn_lag_seconds :: "int option"

record execution =
  en_started_at :: string
  en_ended_at :: string
  en_effective_principal :: "string option"
  en_statement_id :: "string option"

record retention =
  rt_expires_at :: "string option"
  rt_legal_hold :: bool
  rt_purged_at :: "string option"

definition retention_default :: retention where
  "retention_default = \<lparr>rt_expires_at = None, rt_legal_hold = False, rt_purged_at = None\<rparr>"

record evidence_manifest =
  mf_contract_version :: string
  mf_canon :: string
  mf_evidence_id :: "string option"
  mf_tenant :: string
  mf_kind :: evidence_kind
  mf_logical_result_hash :: string
  mf_artifact_hash :: string
  mf_bytes_len :: int
  mf_media_type :: string
  mf_source :: source_ref
  mf_versions :: versions
  mf_plan :: "plan_hashes option"
  mf_columns :: "evidence_column list"
  mf_identity :: evidence_identity
  mf_completeness :: completeness
  mf_redaction :: "redaction option"
  mf_snapshot_vector :: "snapshot_marker list"
  mf_freshness :: "freshness option"
  mf_execution :: execution
  mf_authorization_class :: authorization_class
  mf_retention :: "retention option"

section \<open>Identity and validation\<close>

definition is_hash :: "string \<Rightarrow> bool" where
  "is_hash s \<longleftrightarrow> byte_len s = 71 \<and> starts_with s ''sha256:'' \<and>
     (\<forall>c \<in> set (drop 7 s). (let n = of_char c :: nat in (48 \<le> n \<and> n \<le> 57) \<or> (97 \<le> n \<and> n \<le> 102)))"

definition unit_separator :: string where
  "unit_separator = [CHR 0x1F]"

definition domain_material :: "evidence_manifest \<Rightarrow> string" where
  "domain_material m =
     mf_tenant m @ unit_separator @ mf_logical_result_hash m @ unit_separator
     @ (case vs_policy (mf_versions m) of None \<Rightarrow> [] | Some p \<Rightarrow> p) @ unit_separator
     @ dec_int (az_access_level (mf_authorization_class m)) @ unit_separator
     @ join unit_separator (sort (az_compartments (mf_authorization_class m)))"

definition domain_key :: "(bytes \<Rightarrow> string) \<Rightarrow> evidence_manifest \<Rightarrow> string" where
  "domain_key sha_hex m = ''dk-'' @ sha_hex (domain_material m)"

definition major_of :: "string \<Rightarrow> string" where
  "major_of v = hd (split_on (\<lambda>c. c = CHR ''.'') (trim v))"

definition bad_hash :: "string \<Rightarrow> string \<Rightarrow> kernel_error" where
  "bad_hash field v = InvalidInput (field @ '' must be '' @ quoted ''sha256:<64 lowercase hex>'' @ '', got '' @ quoted v)"

definition check_retention_field :: "(string \<Rightarrow> bool) \<Rightarrow> string \<Rightarrow> string option \<Rightarrow> kernel_error + unit" where
  "check_retention_field rfc3339 field v =
     (case v of
        None \<Rightarrow> Inr ()
      | Some t \<Rightarrow> if \<not> rfc3339 t
          then Inl (InvalidInput (''retention.'' @ field @ '' must be an RFC 3339 timestamp, got '' @ quoted t)) else Inr ())"

definition check_retention :: "(string \<Rightarrow> bool) \<Rightarrow> retention option \<Rightarrow> kernel_error + unit" where
  "check_retention rfc3339 r =
     (case r of
        None \<Rightarrow> Inr ()
      | Some r \<Rightarrow>
          res_bind (check_retention_field rfc3339 ''expires_at'' (rt_expires_at r)) (\<lambda>_.
          check_retention_field rfc3339 ''purged_at'' (rt_purged_at r)))"

definition no_order :: kernel_error where
  "no_order = InvalidInput (''identity.row_id_rule is '' @ quoted ''position''
     @ '' but order_by is empty; positional row ids are meaningless without a total ordering (canon@1 rule 3)'')"

definition no_key :: kernel_error where
  "no_key = InvalidInput (''identity.row_id_rule is '' @ quoted ''keys''
     @ '' but no column is marked key; the row id would have nothing to derive from (canon@1 rule 3)'')"

definition check_row_ids :: "evidence_manifest \<Rightarrow> kernel_error + unit" where
  "check_row_ids m =
     (case ei_row_id_rule (mf_identity m) of
        Position \<Rightarrow> if ei_order_by (mf_identity m) = [] then Inl no_order else Inr ()
      | Keys \<Rightarrow> if \<not> (\<exists>c \<in> set (mf_columns m). ec_key c) then Inl no_key else Inr ())"

definition bad_canon :: "string \<Rightarrow> kernel_error" where
  "bad_canon v = InvalidInput (''canon must be '' @ quoted ''canon@1'' @ '', got '' @ quoted v
     @ ''; this server implements exactly one canonicalization version'')"

definition bad_contract :: "string \<Rightarrow> kernel_error" where
  "bad_contract v = InvalidInput (''contract major version mismatch: manifest declares '' @ quoted v
     @ '', this server was built against '' @ quoted (trim CONTRACT_VERSION)
     @ ''. A major bump is a wire break, so the two trees must be deployed together'')"

definition bad_media :: "string \<Rightarrow> kernel_error" where
  "bad_media v = InvalidInput (''media_type must be '' @ quoted MEDIA_TYPE_PARQUET @ '' or '' @ quoted MEDIA_TYPE_CSV
     @ '', got '' @ quoted v)"

definition too_long :: "int \<Rightarrow> kernel_error" where
  "too_long n = InvalidInput (''bytes_len '' @ dec_int n @ '' exceeds the '' @ dec MAX_ARTIFACT_BYTES @ ''-byte ceiling'')"

definition no_snapshot :: kernel_error where
  "no_snapshot = InvalidInput ''snapshot_vector must name at least one source; an artifact with no snapshot marker cannot state its freshness (G3)''"

definition validate_manifest :: "(string \<Rightarrow> bool) \<Rightarrow> evidence_manifest \<Rightarrow> kernel_error + unit" where
  "validate_manifest rfc3339 m =
     (if mf_canon m \<noteq> ''canon@1'' then Inl (bad_canon (mf_canon m))
      else if major_of CONTRACT_VERSION \<noteq> major_of (mf_contract_version m) then Inl (bad_contract (mf_contract_version m))
      else if trim (mf_tenant m) = [] then Inl (InvalidInput ''tenant is required'')
      else if \<not> is_hash (mf_logical_result_hash m) then Inl (bad_hash ''logical_result_hash'' (mf_logical_result_hash m))
      else if \<not> is_hash (mf_artifact_hash m) then Inl (bad_hash ''artifact_hash'' (mf_artifact_hash m))
      else if mf_bytes_len m < 0 then Inl (InvalidInput ''bytes_len must not be negative'')
      else if int MAX_ARTIFACT_BYTES < mf_bytes_len m then Inl (too_long (mf_bytes_len m))
      else if mf_media_type m \<noteq> MEDIA_TYPE_PARQUET \<and> mf_media_type m \<noteq> MEDIA_TYPE_CSV then Inl (bad_media (mf_media_type m))
      else if mf_columns m = [] then Inl (InvalidInput ''schema.columns must not be empty'')
      else if length (remdups_adj (sort (map ec_id (mf_columns m)))) \<noteq> length (mf_columns m)
      then Inl (InvalidInput ''schema.columns contains duplicate column ids'')
      else if mf_snapshot_vector m = [] then Inl no_snapshot
      else if az_access_level (mf_authorization_class m) < 0
      then Inl (InvalidInput ''authorization_class.access_level must not be negative'')
      else
      res_bind (check_retention rfc3339 (mf_retention m)) (\<lambda>_. check_row_ids m))"

section \<open>Stored records\<close>

datatype evidence_state = EvPending | EvCommitted | EvPurged

fun evidence_state_str :: "evidence_state \<Rightarrow> string" where
  "evidence_state_str EvPending = ''pending''"
| "evidence_state_str EvCommitted = ''committed''"
| "evidence_state_str EvPurged = ''purged''"

definition parse_evidence_state :: "string \<Rightarrow> evidence_state option" where
  "parse_evidence_state s =
     (if s = ''pending'' then Some EvPending else if s = ''committed'' then Some EvCommitted
      else if s = ''purged'' then Some EvPurged else None)"

record evidence_artifact =
  ea_evidence_id :: string
  ea_tenant :: string
  ea_state :: evidence_state
  ea_manifest :: evidence_manifest
  ea_blob_path :: string
  ea_created_at :: string
  ea_committed_at :: "string option"

record evidence_grant =
  eg_grant_id :: string
  eg_evidence_id :: string
  eg_tenant :: string
  eg_expires_at :: string
  eg_used_at :: "string option"

record evidence_access =
  es_evidence_id :: string
  es_tenant :: string
  es_uid :: string
  es_kind :: string
  es_row_from :: "int option"
  es_row_limit :: "int option"
  es_outcome :: string
  es_at :: string

record seal_outcome =
  so_evidence_id :: string
  so_created :: bool
  so_grant :: "evidence_grant option"

section \<open>The in-memory evidence store\<close>

text \<open>
  \<open>munarium-store-mem/src/evidence.rs\<close>. Each operation runs under one lock. The maps are keyed by
  tenant and id; \<open>purge_due\<close> iterates the artifact map in the order \<open>order\<close> it happens to have.
\<close>

record evidence_store =
  st_artifacts :: "string \<times> string \<Rightarrow> evidence_artifact option"
  st_by_domain_key :: "string \<times> string \<Rightarrow> string option"
  st_grants :: "string \<times> string \<Rightarrow> evidence_grant option"
  st_accesses :: "string \<times> string \<Rightarrow> evidence_access list"

definition new_evidence_store :: evidence_store where
  "new_evidence_store = \<lparr>st_artifacts = \<lambda>_. None, st_by_domain_key = \<lambda>_. None, st_grants = \<lambda>_. None, st_accesses = \<lambda>_. []\<rparr>"

definition ev_register :: "(bytes \<Rightarrow> string) \<Rightarrow> evidence_artifact \<Rightarrow> evidence_grant option \<Rightarrow> evidence_store \<Rightarrow>
    kernel_error + seal_outcome \<times> evidence_store" where
  "ev_register sha_hex a grant st =
     (let dk = (ea_tenant a, domain_key sha_hex (ea_manifest a)); key = (ea_tenant a, ea_evidence_id a) in
      case st_by_domain_key st dk of
        Some existing \<Rightarrow> Inr (\<lparr>so_evidence_id = existing, so_created = False, so_grant = None\<rparr>, st)
      | None \<Rightarrow>
          if st_artifacts st key \<noteq> None
          then Inl (InvalidInput (''evidence id '' @ quoted (ea_evidence_id a) @ '' already exists''))
          else Inr (\<lparr>so_evidence_id = ea_evidence_id a, so_created = True, so_grant = grant\<rparr>,
            st\<lparr>st_by_domain_key := (st_by_domain_key st)(dk \<mapsto> ea_evidence_id a),
               st_artifacts := (st_artifacts st)(key \<mapsto> a),
               st_grants := (case grant of None \<Rightarrow> st_grants st
                 | Some g \<Rightarrow> (st_grants st)((eg_tenant g, eg_grant_id g) \<mapsto> g))\<rparr>))"

definition ev_get :: "string \<Rightarrow> string \<Rightarrow> evidence_store \<Rightarrow> evidence_artifact option" where
  "ev_get tenant i st = st_artifacts st (tenant, i)"

definition find_by_domain_key :: "string \<Rightarrow> string \<Rightarrow> evidence_store \<Rightarrow> evidence_artifact option" where
  "find_by_domain_key tenant k st = Option.bind (st_by_domain_key st (tenant, k)) (\<lambda>i. st_artifacts st (tenant, i))"

definition ev_commit :: "string \<Rightarrow> string \<Rightarrow> string \<Rightarrow> evidence_store \<Rightarrow> kernel_error + bool \<times> evidence_store" where
  "ev_commit tenant i now st =
     (case st_artifacts st (tenant, i) of
        None \<Rightarrow> Inl (NotFound ''evidence'' i)
      | Some a \<Rightarrow>
          if ea_state a \<noteq> EvPending then Inr (False, st)
          else Inr (True, st\<lparr>st_artifacts := (st_artifacts st)((tenant, i) \<mapsto>
            a\<lparr>ea_state := EvCommitted, ea_committed_at := Some now\<rparr>)\<rparr>))"

definition consume_grant :: "string \<Rightarrow> string \<Rightarrow> string \<Rightarrow> string \<Rightarrow> evidence_store \<Rightarrow>
    evidence_grant option \<times> evidence_store" where
  "consume_grant tenant i grant_id now st =
     (case st_grants st (tenant, grant_id) of
        None \<Rightarrow> (None, st)
      | Some g \<Rightarrow>
          if eg_evidence_id g \<noteq> i \<or> eg_used_at g \<noteq> None \<or> eg_expires_at g \<le> now then (None, st)
          else let g' = g\<lparr>eg_used_at := Some now\<rparr> in
            (Some g', st\<lparr>st_grants := (st_grants st)((tenant, grant_id) \<mapsto> g')\<rparr>))"

definition record_access :: "evidence_access \<Rightarrow> evidence_store \<Rightarrow> evidence_store" where
  "record_access x st = (let k = (es_tenant x, es_evidence_id x) in
     st\<lparr>st_accesses := (st_accesses st)(k := st_accesses st k @ [x])\<rparr>)"

definition ev_accesses :: "string \<Rightarrow> string \<Rightarrow> nat \<Rightarrow> evidence_store \<Rightarrow> evidence_access list" where
  "ev_accesses tenant i limit st = take limit (rev (st_accesses st (tenant, i)))"

definition is_due :: "string \<Rightarrow> evidence_artifact \<Rightarrow> bool" where
  "is_due now a \<longleftrightarrow> ea_state a = EvCommitted \<and>
     (case mf_retention (ea_manifest a) of
        None \<Rightarrow> False
      | Some r \<Rightarrow> \<not> (rt_legal_hold r \<or> rt_purged_at r \<noteq> None) \<and>
          (case rt_expires_at r of None \<Rightarrow> False | Some e \<Rightarrow> e \<le> now))"

definition expiry :: "evidence_artifact \<Rightarrow> string" where
  "expiry a = (case Option.bind (mf_retention (ea_manifest a)) rt_expires_at of None \<Rightarrow> [] | Some e \<Rightarrow> e)"

definition purge_due :: "(string \<times> string) list \<Rightarrow> string \<Rightarrow> nat \<Rightarrow> evidence_store \<Rightarrow> evidence_artifact list" where
  "purge_due order now limit st =
     take limit (sort_key expiry (filter (is_due now) (List.map_filter (st_artifacts st) order)))"

definition retention_of :: "evidence_artifact \<Rightarrow> retention" where
  "retention_of a = (case mf_retention (ea_manifest a) of None \<Rightarrow> retention_default | Some r \<Rightarrow> r)"

definition with_retention :: "retention \<Rightarrow> evidence_artifact \<Rightarrow> evidence_artifact" where
  "with_retention r a = a\<lparr>ea_manifest := (ea_manifest a)\<lparr>mf_retention := Some r\<rparr>\<rparr>"

definition mark_purged :: "string \<Rightarrow> string \<Rightarrow> string \<Rightarrow> evidence_store \<Rightarrow> kernel_error + bool \<times> evidence_store" where
  "mark_purged tenant i now st =
     (case st_artifacts st (tenant, i) of
        None \<Rightarrow> Inl (NotFound ''evidence'' i)
      | Some a \<Rightarrow>
          if ea_state a = EvPurged then Inr (False, st)
          else Inr (True, st\<lparr>st_artifacts := (st_artifacts st)((tenant, i) \<mapsto>
            with_retention ((retention_of a)\<lparr>rt_purged_at := Some now\<rparr>) (a\<lparr>ea_state := EvPurged\<rparr>))\<rparr>))"

definition ev_legal_hold :: "string \<Rightarrow> string \<Rightarrow> bool \<Rightarrow> evidence_store \<Rightarrow> bool \<times> evidence_store" where
  "ev_legal_hold tenant i hold st =
     (case st_artifacts st (tenant, i) of
        None \<Rightarrow> (False, st)
      | Some a \<Rightarrow> (True, st\<lparr>st_artifacts := (st_artifacts st)((tenant, i) \<mapsto>
          with_retention ((retention_of a)\<lparr>rt_legal_hold := hold\<rparr>) a)\<rparr>))"

end
