(* ===== verification/Evidence_Api.thy ===== *)
theory Evidence_Api
  imports Evidence
begin

text \<open>
  The sealed evidence plane (\<open>munarium-server/src/evidence_api.rs\<close>) over the in-memory stores:
  sealing, uploading under a grant, committing, resolving, the row window, and retention.

  Decoding the manifest from JSON, base64, UTF-8, RFC 3339 and SHA-256 are parameters, gathered in
  \<open>codecs\<close>. What the server draws per call (the clock's text, the new ids, the grant's expiry)
  is the record \<open>draw\<close>. A failing call may have changed the plane, so the plane is always
  returned.
\<close>

section \<open>Errors, parameters, state\<close>

datatype api_error =
    Mesh kernel_error
  | EvidenceForbidden
  | EvidenceExpired string
  | EvidenceOnHold string
  | EvidenceNotCommitted string
  | EvidenceHashMismatch string
  | EvidenceGrantInvalid
  | EvidenceTooLarge nat nat

record codecs =
  cd_manifest :: "json \<Rightarrow> string + evidence_manifest"
  cd_base64 :: "string \<Rightarrow> string + bytes"
  cd_utf8 :: "bytes \<Rightarrow> string + string"
  cd_rfc3339 :: "string \<Rightarrow> bool"
  cd_sha_hex :: "bytes \<Rightarrow> string"

record draw =
  dr_now :: string
  dr_evidence_id :: string
  dr_grant_id :: string
  dr_grant_expires :: string

record plane =
  pl_store :: evidence_store
  pl_blobs :: blobs

definition on_store :: "(evidence_store \<Rightarrow> evidence_store) \<Rightarrow> plane \<Rightarrow> plane" where
  "on_store f p = p\<lparr>pl_store := f (pl_store p)\<rparr>"

definition on_blobs :: "(blobs \<Rightarrow> blobs) \<Rightarrow> plane \<Rightarrow> plane" where
  "on_blobs f p = p\<lparr>pl_blobs := f (pl_blobs p)\<rparr>"

definition mesh :: "kernel_error + 'a \<Rightarrow> api_error + 'a" where
  "mesh x = (case x of Inl e \<Rightarrow> Inl (Mesh e) | Inr v \<Rightarrow> Inr v)"

section \<open>Checks\<close>

definition evidence_blob_path :: "string \<Rightarrow> string" where
  "evidence_blob_path evidence_id = EVIDENCE_PATH_PREFIX @ evidence_id"

definition wrong_tenant :: "string \<Rightarrow> string \<Rightarrow> kernel_error" where
  "wrong_tenant declared scoped = InvalidInput (''manifest declares tenant '' @ quoted declared
     @ '' but the token is scoped to '' @ quoted scoped)"

definition parse_manifest :: "codecs \<Rightarrow> json \<Rightarrow> access_ctx \<Rightarrow> api_error + evidence_manifest" where
  "parse_manifest cd raw access =
     (case cd_manifest cd raw of
        Inl e \<Rightarrow> Inl (Mesh (InvalidInput (''manifest is invalid: '' @ e)))
      | Inr m \<Rightarrow>
          res_bind (mesh (validate_manifest (cd_rfc3339 cd) m)) (\<lambda>_.
          if mf_tenant m \<noteq> ax_tenant_id access then Inl (Mesh (wrong_tenant (mf_tenant m) (ax_tenant_id access)))
          else if \<not> class_admits (mf_authorization_class m) access then Inl EvidenceForbidden
          else Inr (m\<lparr>mf_evidence_id := None\<rparr>)))"

definition wrong_length :: "int \<Rightarrow> nat \<Rightarrow> string" where
  "wrong_length declared n = ''manifest declares bytes_len '' @ dec_int declared @ '' but '' @ dec n @ '' bytes arrived''"

definition wrong_bytes :: "string \<Rightarrow> string \<Rightarrow> string" where
  "wrong_bytes declared actual = ''artifact_hash mismatch: manifest declares '' @ declared @ '', the bytes hash to '' @ actual"

definition verify_bytes :: "codecs \<Rightarrow> evidence_manifest \<Rightarrow> bytes \<Rightarrow> api_error + unit" where
  "verify_bytes cd m bs =
     (if int (length bs) \<noteq> mf_bytes_len m then Inl (EvidenceHashMismatch (wrong_length (mf_bytes_len m) (length bs)))
      else let actual = ''sha256:'' @ cd_sha_hex cd bs in
        if actual \<noteq> mf_artifact_hash m then Inl (EvidenceHashMismatch (wrong_bytes (mf_artifact_hash m) actual))
        else Inr ())"

definition trim_hash :: "string \<Rightarrow> string" where
  "trim_hash h = (if starts_with h ''sha256:'' then drop 7 h else h)"

definition artifact_key :: "string \<Rightarrow> evidence_artifact \<Rightarrow> api_error + source_key" where
  "artifact_key tenant a = mesh (new_source_key tenant (ea_blob_path a) (trim_hash (mf_artifact_hash (ea_manifest a))))"

section \<open>Sealing\<close>

record seal_response =
  sr_evidence_id :: string
  sr_evidence_state :: string
  sr_created :: bool
  sr_grant :: "(string \<times> string) option"

definition sealed_artifact :: "draw \<Rightarrow> evidence_state \<Rightarrow> evidence_manifest \<Rightarrow> evidence_artifact" where
  "sealed_artifact dr st m = \<lparr>ea_evidence_id = dr_evidence_id dr, ea_tenant = mf_tenant m, ea_state = st, ea_manifest = m,
     ea_blob_path = evidence_blob_path (dr_evidence_id dr), ea_created_at = dr_now dr,
     ea_committed_at = (if st = EvCommitted then Some (dr_now dr) else None)\<rparr>"

definition issued_grant :: "draw \<Rightarrow> evidence_manifest \<Rightarrow> evidence_grant" where
  "issued_grant dr m = \<lparr>eg_grant_id = dr_grant_id dr, eg_evidence_id = dr_evidence_id dr, eg_tenant = mf_tenant m,
     eg_expires_at = dr_grant_expires dr, eg_used_at = None\<rparr>"

definition seal_inline :: "codecs \<Rightarrow> draw \<Rightarrow> evidence_manifest \<Rightarrow> string \<Rightarrow> plane \<Rightarrow> (api_error + seal_response) \<times> plane" where
  "seal_inline cd dr m b64 p =
     (case cd_base64 cd b64 of
        Inl e \<Rightarrow> (Inl (Mesh (InvalidInput (''bytes_base64 is not valid base64: '' @ e))), p)
      | Inr bs \<Rightarrow>
          if INLINE_SEAL_MAX_BYTES < length bs then (Inl (EvidenceTooLarge (length bs) INLINE_SEAL_MAX_BYTES), p)
          else
          (case verify_bytes cd m bs of
             Inl e \<Rightarrow> (Inl e, p)
           | Inr _ \<Rightarrow>
               let a = sealed_artifact dr EvCommitted m in
               (case artifact_key (mf_tenant m) a of
                  Inl e \<Rightarrow> (Inl e, p)
                | Inr k \<Rightarrow>
                    let p1 = on_blobs (\<lambda>b. snd (put_blob k bs b)) p in
                    (case ev_register (cd_sha_hex cd) a None (pl_store p1) of
                       Inl e \<Rightarrow> (Inl (Mesh e), p1)
                     | Inr (out, st) \<Rightarrow>
                         let state = (if so_created out then EvCommitted
                           else (case ev_get (mf_tenant m) (so_evidence_id out) st of
                             None \<Rightarrow> EvCommitted | Some x \<Rightarrow> ea_state x))
                         in (Inr \<lparr>sr_evidence_id = so_evidence_id out, sr_evidence_state = evidence_state_str state,
                               sr_created = so_created out, sr_grant = None\<rparr>, p1\<lparr>pl_store := st\<rparr>)))))"

definition seal_grant :: "codecs \<Rightarrow> draw \<Rightarrow> evidence_manifest \<Rightarrow> plane \<Rightarrow> (api_error + seal_response) \<times> plane" where
  "seal_grant cd dr m p =
     (case ev_register (cd_sha_hex cd) (sealed_artifact dr EvPending m) (Some (issued_grant dr m)) (pl_store p) of
        Inl e \<Rightarrow> (Inl (Mesh e), p)
      | Inr (out, st) \<Rightarrow>
          (Inr \<lparr>sr_evidence_id = so_evidence_id out, sr_evidence_state = evidence_state_str EvPending,
             sr_created = so_created out, sr_grant = map_option (\<lambda>g. (eg_grant_id g, eg_expires_at g)) (so_grant out)\<rparr>,
           p\<lparr>pl_store := st\<rparr>))"

definition op_seal :: "codecs \<Rightarrow> draw \<Rightarrow> access_ctx \<Rightarrow> json \<Rightarrow> string option \<Rightarrow> plane \<Rightarrow> (api_error + seal_response) \<times> plane" where
  "op_seal cd dr access raw b64 p =
     (case parse_manifest cd raw access of
        Inl e \<Rightarrow> (Inl e, p)
      | Inr m \<Rightarrow>
          (case find_by_domain_key (mf_tenant m) (domain_key (cd_sha_hex cd) m) (pl_store p) of
             Some a \<Rightarrow> (Inr \<lparr>sr_evidence_id = ea_evidence_id a, sr_evidence_state = evidence_state_str (ea_state a),
               sr_created = False, sr_grant = None\<rparr>, p)
           | None \<Rightarrow>
               (case b64 of
                  Some b \<Rightarrow> seal_inline cd dr m b p
                | None \<Rightarrow> seal_grant cd dr m p)))"

section \<open>The grant flow\<close>

definition op_put_bytes :: "codecs \<Rightarrow> string \<Rightarrow> access_ctx \<Rightarrow> string \<Rightarrow> string \<Rightarrow> bytes \<Rightarrow> plane \<Rightarrow> (api_error + unit) \<times> plane" where
  "op_put_bytes cd now access i grant_id bs p =
     (let tenant = ax_tenant_id access in
      case ev_get tenant i (pl_store p) of
        None \<Rightarrow> (Inl EvidenceGrantInvalid, p)
      | Some a \<Rightarrow>
          if \<not> class_admits (mf_authorization_class (ea_manifest a)) access then (Inl EvidenceForbidden, p)
          else
          (case verify_bytes cd (ea_manifest a) bs of
             Inl e \<Rightarrow> (Inl e, p)
           | Inr _ \<Rightarrow>
               (case consume_grant tenant i grant_id now (pl_store p) of
                  (None, st) \<Rightarrow> (Inl EvidenceGrantInvalid, p\<lparr>pl_store := st\<rparr>)
                | (Some g, st) \<Rightarrow>
                    (case artifact_key tenant a of
                       Inl e \<Rightarrow> (Inl e, p\<lparr>pl_store := st\<rparr>)
                     | Inr k \<Rightarrow> (Inr (), on_blobs (\<lambda>b. snd (put_blob k bs b)) (p\<lparr>pl_store := st\<rparr>))))))"

definition op_commit :: "codecs \<Rightarrow> string \<Rightarrow> access_ctx \<Rightarrow> string \<Rightarrow> plane \<Rightarrow> (api_error + bool) \<times> plane" where
  "op_commit cd now access i p =
     (let tenant = ax_tenant_id access in
      case ev_get tenant i (pl_store p) of
        None \<Rightarrow> (Inl (Mesh (NotFound ''evidence'' i)), p)
      | Some a \<Rightarrow>
          if \<not> class_admits (mf_authorization_class (ea_manifest a)) access then (Inl EvidenceForbidden, p)
          else
          (case artifact_key tenant a of
             Inl e \<Rightarrow> (Inl e, p)
           | Inr k \<Rightarrow>
               (case get_blob k (pl_blobs p) of
                  Inl (NotFound kind j) \<Rightarrow> (Inl (EvidenceNotCommitted i), p)
                | Inl e \<Rightarrow> (Inl (Mesh e), p)
                | Inr stored \<Rightarrow>
                    (case verify_bytes cd (ea_manifest a) stored of
                       Inl e \<Rightarrow> (Inl e, p)
                     | Inr _ \<Rightarrow>
                         (case ev_commit tenant i now (pl_store p) of
                            Inl e \<Rightarrow> (Inl (Mesh e), p)
                          | Inr (committed, st) \<Rightarrow> (Inr committed, p\<lparr>pl_store := st\<rparr>))))))"

section \<open>Resolving\<close>

definition resolve_readable :: "string \<Rightarrow> access_ctx \<Rightarrow> string \<Rightarrow> string \<Rightarrow> int option \<Rightarrow> int option \<Rightarrow> plane \<Rightarrow>
    (api_error + evidence_artifact) \<times> plane" where
  "resolve_readable now access i kind row_from row_limit p =
     (let tenant = ax_tenant_id access;
          audit = \<lparr>es_evidence_id = i, es_tenant = tenant, es_uid = ax_uid access, es_kind = kind,
            es_row_from = row_from, es_row_limit = row_limit, es_outcome = ''denied'', es_at = now\<rparr>;
          log = (\<lambda>outcome. on_store (record_access (audit\<lparr>es_outcome := outcome\<rparr>)) p) in
      case ev_get tenant i (pl_store p) of
        None \<Rightarrow> (Inl (Mesh (NotFound ''evidence'' i)), p)
      | Some a \<Rightarrow>
          if \<not> class_admits (mf_authorization_class (ea_manifest a)) access then (Inl EvidenceForbidden, log ''denied'')
          else if ea_state a = EvPurged then (Inl (EvidenceExpired i), log ''expired'')
          else if ea_state a \<noteq> EvCommitted then (Inl (EvidenceNotCommitted i), log ''denied'')
          else (Inr a, log ''ok''))"

definition op_get_manifest :: "string \<Rightarrow> access_ctx \<Rightarrow> string \<Rightarrow> plane \<Rightarrow> (api_error + evidence_manifest) \<times> plane" where
  "op_get_manifest now access i p =
     (case resolve_readable now access i ''manifest'' None None p of
        (Inl e, p') \<Rightarrow> (Inl e, p')
      | (Inr a, p') \<Rightarrow> (Inr ((ea_manifest a)\<lparr>mf_evidence_id := Some (ea_evidence_id a)\<rparr>), p'))"

text \<open>\<open>str::lines\<close>: a carriage return before a line feed is dropped, an empty last line is none.\<close>

definition strip_cr :: "string \<Rightarrow> string" where
  "strip_cr s = (if s \<noteq> [] \<and> last s = CHR 0x0D then butlast s else s)"

definition str_lines :: "string \<Rightarrow> string list" where
  "str_lines s = (let ps = split_on (\<lambda>c. c = CHR 0x0A) s in
     map strip_cr (butlast ps) @ (if last ps = [] then [] else [last ps]))"

fun csv_scan :: "string \<Rightarrow> bool \<Rightarrow> string \<Rightarrow> string list" where
  "csv_scan [] q cur = [cur]"
| "csv_scan (c # cs) q cur =
     (if c = CHR 0x22 \<and> q
      then (case cs of
          [] \<Rightarrow> csv_scan [] False cur
        | d # ds \<Rightarrow> if d = CHR 0x22 then csv_scan ds q (cur @ [CHR 0x22]) else csv_scan (d # ds) False cur)
      else if c = CHR 0x22 then csv_scan cs True cur
      else if c = CHR '','' \<and> \<not> q then cur # csv_scan cs q []
      else csv_scan cs q (cur @ [c]))"

definition split_csv_row :: "string \<Rightarrow> string list" where
  "split_csv_row line = csv_scan line False []"

record rows_response =
  rw_evidence_id :: string
  rw_from :: nat
  rw_has_more :: bool
  rw_rows :: "json list"
  rw_total :: nat

definition row_json :: "string list \<Rightarrow> string \<Rightarrow> json" where
  "row_json columns line =
     (let cells = split_csv_row line in
      jobj (map (\<lambda>(i, name). (name, if i < length cells then JStr (cells ! i) else JNull)) (List.enumerate 0 columns)))"

definition data_lines :: "string \<Rightarrow> string list" where
  "data_lines s = filter (\<lambda>l. l \<noteq> []) (drop 1 (str_lines s))"

definition clamp_limit :: "nat \<Rightarrow> nat" where
  "clamp_limit limit = (if limit < 1 then 1 else if MAX_ROW_LIMIT < limit then MAX_ROW_LIMIT else limit)"

definition only_csv :: "string \<Rightarrow> kernel_error" where
  "only_csv media = InvalidInput (''rows are served for '' @ quoted MEDIA_TYPE_CSV @ '' artifacts only; this artifact is ''
     @ quoted media @ ''. Its bytes are sealed and replayable, but this server does not decode them'')"

definition i64_limit :: nat where
  "i64_limit = 2 ^ 63 - 1"

definition op_get_rows :: "codecs \<Rightarrow> string \<Rightarrow> access_ctx \<Rightarrow> string \<Rightarrow> nat \<Rightarrow> nat \<Rightarrow> plane \<Rightarrow>
    (api_error + rows_response) \<times> plane" where
  "op_get_rows cd now access i start limit p =
     (let limit = clamp_limit limit in
      if i64_limit < start then (Inl (Mesh (InvalidInput ''row from exceeds signed-64 range'')), p)
      else
      (case resolve_readable now access i ''rows'' (Some (int start)) (Some (int limit)) p of
         (Inl e, p') \<Rightarrow> (Inl e, p')
       | (Inr a, p') \<Rightarrow>
           if mf_media_type (ea_manifest a) \<noteq> MEDIA_TYPE_CSV then (Inl (Mesh (only_csv (mf_media_type (ea_manifest a)))), p')
           else
           (case res_bind (artifact_key (ax_tenant_id access) a) (\<lambda>k. mesh (get_blob k (pl_blobs p'))) of
              Inl e \<Rightarrow> (Inl e, p')
            | Inr bs \<Rightarrow>
                (case cd_utf8 cd bs of
                   Inl e \<Rightarrow> (Inl (Mesh (Storage (''artifact is not UTF-8: '' @ e))), p')
                 | Inr s \<Rightarrow>
                     let page = take limit (drop start (data_lines s)) in
                     (Inr \<lparr>rw_evidence_id = ea_evidence_id a, rw_from = start,
                        rw_has_more = (start + length page < length (data_lines s)),
                        rw_rows = map (row_json (map ec_name (mf_columns (ea_manifest a)))) page,
                        rw_total = length (data_lines s)\<rparr>, p')))))"

definition op_accesses :: "string \<Rightarrow> string \<Rightarrow> nat \<Rightarrow> plane \<Rightarrow> evidence_access list" where
  "op_accesses tenant i limit p = ev_accesses tenant i limit (pl_store p)"

section \<open>Retention\<close>

text \<open>One artifact of a sweep: the bytes, then the row. The count goes up when this sweep marked it.\<close>

definition purge_item :: "string \<Rightarrow> evidence_artifact \<Rightarrow> nat \<times> plane \<Rightarrow> nat \<times> plane" where
  "purge_item now a np =
     (case artifact_key (ea_tenant a) a of
        Inl e \<Rightarrow> np
      | Inr k \<Rightarrow>
          let p1 = on_blobs (delete_blob k) (snd np) in
          (case mark_purged (ea_tenant a) (ea_evidence_id a) now (pl_store p1) of
             Inl e \<Rightarrow> (fst np, p1)
           | Inr (marked, st) \<Rightarrow> (if marked then Suc (fst np) else fst np, p1\<lparr>pl_store := st\<rparr>)))"

definition purge_once :: "(string \<times> string) list \<Rightarrow> string \<Rightarrow> nat \<Rightarrow> plane \<Rightarrow> nat \<times> plane" where
  "purge_once order now limit p = fold (purge_item now) (purge_due order now limit (pl_store p)) (0, p)"

text \<open>
  The operator's purge awaits three times: the read of the row, the deletion of the bytes, and the
  marking of the row. \<open>others 0\<close> is what other tasks do between the read (and the checks on it) and the
  deletion, \<open>others 1\<close> what they do between the deletion and the marking.
\<close>

definition op_purge :: "string \<Rightarrow> (nat \<Rightarrow> plane \<Rightarrow> plane) \<Rightarrow> string \<Rightarrow> string \<Rightarrow> plane \<Rightarrow> (api_error + bool) \<times> plane" where
  "op_purge now others tenant i p =
     (case ev_get tenant i (pl_store p) of
        None \<Rightarrow> (Inl (Mesh (NotFound ''evidence'' i)), p)
      | Some a \<Rightarrow>
          if (case mf_retention (ea_manifest a) of None \<Rightarrow> False | Some r \<Rightarrow> rt_legal_hold r)
          then (Inl (EvidenceOnHold i), p)
          else if ea_state a = EvPurged then (Inr False, p)
          else
          (case artifact_key tenant a of
             Inl e \<Rightarrow> (Inl e, p)
           | Inr k \<Rightarrow>
               let p1 = on_blobs (delete_blob k) (others 0 p); p2 = others 1 p1 in
               (case mark_purged tenant i now (pl_store p2) of
                  Inl e \<Rightarrow> (Inl (Mesh e), p2)
                | Inr (marked, st) \<Rightarrow> (Inr marked, p2\<lparr>pl_store := st\<rparr>))))"

definition op_set_legal_hold :: "string \<Rightarrow> string \<Rightarrow> bool \<Rightarrow> plane \<Rightarrow> (api_error + unit) \<times> plane" where
  "op_set_legal_hold tenant i hold p =
     (case ev_legal_hold tenant i hold (pl_store p) of
        (found, st) \<Rightarrow> if \<not> found then (Inl (Mesh (NotFound ''evidence'' i)), p\<lparr>pl_store := st\<rparr>)
          else (Inr (), p\<lparr>pl_store := st\<rparr>))"

text \<open>A document's bytes, on the ingress path that guards the reserved prefix.\<close>

definition put_document :: "string \<Rightarrow> string \<Rightarrow> string \<Rightarrow> bytes \<Rightarrow> plane \<Rightarrow> (api_error + unit) \<times> plane" where
  "put_document tenant path content_hash bs p =
     (case res_bind (mesh (refuse_reserved_document_path path)) (\<lambda>_. mesh (new_source_key tenant path content_hash)) of
        Inl e \<Rightarrow> (Inl e, p)
      | Inr k \<Rightarrow> (Inr (), on_blobs (\<lambda>b. snd (put_blob k bs b)) p))"

end
