(* ===== verification/Evidence_Properties.thy ===== *)
theory Evidence_Properties
  imports Evidence_Api
begin

text \<open>
  What the evidence plane guarantees: addresses of bytes that cannot escape their tenant, rows
  that are never lost, reads that are cleared and serve the sealed bytes, one artifact per domain
  key, single-use grants, and retention.
\<close>

section \<open>Addresses\<close>

lemma new_source_key_Inr: "new_source_key t path h = Inr k \<longleftrightarrow> validate_path path = Inr () \<and> t \<noteq> [] \<and> CHR ''/'' \<notin> set t \<and>
    k = \<lparr>sk_tenant = t, sk_path = path, sk_content_hash = h\<rparr>"
  by (auto simp: new_source_key_def res_bind_eq_Inr)

lemma blob_name_inj:
  assumes "new_source_key t path h = Inr k" "new_source_key t' path' h' = Inr k'" "blob_name k = blob_name k'"
  shows "t = t' \<and> path = path'"
proof -
  have "t @ ''/'' @ path = t' @ ''/'' @ path'" "CHR ''/'' \<notin> set t" "CHR ''/'' \<notin> set t'"
    using assms by (auto simp: new_source_key_Inr blob_name_def)
  then have "split_once CHR ''/'' (t @ CHR ''/'' # path) = Some (t, path)"
    "split_once CHR ''/'' (t @ CHR ''/'' # path) = Some (t', path')"
    by (simp_all add: split_once_Some)
  then show ?thesis by simp
qed

lemma check_segments_Inr: "check_segments path ss = Inr u \<longleftrightarrow> (\<forall>s \<in> set ss. s \<noteq> [] \<and> s \<noteq> ''.'' \<and> s \<noteq> ''..'')"
  by (induction ss) auto

lemma validate_path_segments: "validate_path path = Inr u \<Longrightarrow>
    (\<forall>s \<in> set (split_on (\<lambda>c. c = CHR ''/'') path). s \<noteq> [] \<and> s \<noteq> ''.'' \<and> s \<noteq> ''..'')"
  by (auto simp: validate_path_def check_segments_Inr split: if_splits)

text \<open>C23. Stored bytes stay inside their tenant. The blob name of an accepted address begins with
  the tenant as its first segment, its other segments are those of the path, none of them empty,
  a dot or two dots; two accepted addresses share a blob name only if they are the same tenant and
  path; and an accepted document path never names a blob of the reserved evidence keyspace.\<close>

theorem blob_names_confined:
  assumes "new_source_key tenant path h = Inr k"
  shows "split_on (\<lambda>c. c = CHR ''/'') (blob_name k) = tenant # split_on (\<lambda>c. c = CHR ''/'') path \<and>
    (\<forall>s \<in> set (split_on (\<lambda>c. c = CHR ''/'') path). s \<noteq> [] \<and> s \<noteq> ''.'' \<and> s \<noteq> ''..'') \<and>
    (\<forall>tenant' path' h' k'. new_source_key tenant' path' h' = Inr k' \<longrightarrow>
       (blob_name k = blob_name k' \<longleftrightarrow> tenant = tenant' \<and> path = path') \<and>
       (refuse_reserved_document_path path = Inr () \<longrightarrow> path' = evidence_blob_path i \<longrightarrow> blob_name k \<noteq> blob_name k'))"
proof (intro conjI allI impI)
  from assms have k: "blob_name k = tenant @ CHR ''/'' # path" "CHR ''/'' \<notin> set tenant" "validate_path path = Inr ()"
    by (auto simp: new_source_key_Inr blob_name_def)
  show "split_on (\<lambda>c. c = CHR ''/'') (blob_name k) = tenant # split_on (\<lambda>c. c = CHR ''/'') path"
    unfolding k(1) using k(2) split_on_append_sep[of "\<lambda>c. c = CHR ''/''" "CHR ''/''" tenant path]
      split_on_no_sep[of tenant "\<lambda>c. c = CHR ''/''"] by auto
  show "\<forall>s \<in> set (split_on (\<lambda>c. c = CHR ''/'') path). s \<noteq> [] \<and> s \<noteq> ''.'' \<and> s \<noteq> ''..''"
    using validate_path_segments[OF k(3)] .
  fix tenant' path' h' k' assume k': "new_source_key tenant' path' h' = Inr k'"
  show iff: "blob_name k = blob_name k' \<longleftrightarrow> tenant = tenant' \<and> path = path'"
    using blob_name_inj[OF assms k'] assms k' by (auto simp: new_source_key_Inr blob_name_def)
  assume "refuse_reserved_document_path path = Inr ()" "path' = evidence_blob_path i"
  then have "path \<noteq> path'"
    by (auto simp: refuse_reserved_document_path_def evidence_blob_path_def starts_with_iff split: if_splits)
  with iff show "blob_name k \<noteq> blob_name k'" by blast
qed

lemma blob_names_confined_witness:
  "split_on (\<lambda>c. c = CHR ''/'') (blob_name \<lparr>sk_tenant = ''demo'', sk_path = ''a/b.md'', sk_content_hash = ''h''\<rparr>) =
     [''demo'', ''a'', ''b.md'']"
proof -
  have "new_source_key ''demo'' ''a/b.md'' ''h'' = Inr \<lparr>sk_tenant = ''demo'', sk_path = ''a/b.md'', sk_content_hash = ''h''\<rparr>"
    by code_simp
  from blob_names_confined[OF this] show ?thesis by (simp add: blob_name_def)
qed

section \<open>The invariant of the plane\<close>

abbreviation arts :: "plane \<Rightarrow> string \<times> string \<Rightarrow> evidence_artifact option" where
  "arts p \<equiv> st_artifacts (pl_store p)"

abbreviation keyed :: "plane \<Rightarrow> string \<times> string \<Rightarrow> string option" where
  "keyed p \<equiv> st_by_domain_key (pl_store p)"

abbreviation key_of :: "codecs \<Rightarrow> evidence_artifact \<Rightarrow> string" where
  "key_of cd a \<equiv> domain_key (cd_sha_hex cd) (ea_manifest a)"

text \<open>The stored bytes of an artifact are the bytes its manifest declares.\<close>

definition bytes_sealed :: "codecs \<Rightarrow> plane \<Rightarrow> evidence_artifact \<Rightarrow> bool" where
  "bytes_sealed cd p a \<longleftrightarrow> (\<exists>k bs. artifact_key (ea_tenant a) a = Inr k \<and> pl_blobs p (blob_name k) = Some bs \<and>
     verify_bytes cd (ea_manifest a) bs = Inr ())"

definition art_ok :: "codecs \<Rightarrow> plane \<Rightarrow> string \<Rightarrow> string \<Rightarrow> evidence_artifact \<Rightarrow> bool" where
  "art_ok cd p t i a \<longleftrightarrow> ea_tenant a = t \<and> ea_evidence_id a = i \<and> ea_blob_path a = evidence_blob_path i \<and>
     keyed p (t, key_of cd a) = Some i \<and> (ea_state a = EvCommitted \<longrightarrow> bytes_sealed cd p a)"

definition plane_ok :: "codecs \<Rightarrow> plane \<Rightarrow> bool" where
  "plane_ok cd p \<longleftrightarrow> (\<forall>t i a. arts p (t, i) = Some a \<longrightarrow> art_ok cd p t i a) \<and>
     (\<forall>t k i. keyed p (t, k) = Some i \<longrightarrow> (\<exists>a. arts p (t, i) = Some a \<and> key_of cd a = k))"

text \<open>How a row may change: its retention, and its state along pending, committed, purged.\<close>

definition state_moves :: "evidence_state \<Rightarrow> evidence_state \<Rightarrow> bool" where
  "state_moves x y \<longleftrightarrow> x = y \<or> x = EvPending \<or> x = EvCommitted \<and> y = EvPurged"

definition evolves :: "evidence_artifact \<Rightarrow> evidence_artifact \<Rightarrow> bool" where
  "evolves a b \<longleftrightarrow> ea_evidence_id b = ea_evidence_id a \<and> ea_tenant b = ea_tenant a \<and> ea_blob_path b = ea_blob_path a \<and>
     ea_created_at b = ea_created_at a \<and> state_moves (ea_state a) (ea_state b) \<and>
     (ea_manifest b)\<lparr>mf_retention := None\<rparr> = (ea_manifest a)\<lparr>mf_retention := None\<rparr>"

definition rows_kept :: "plane \<Rightarrow> plane \<Rightarrow> bool" where
  "rows_kept p q \<longleftrightarrow> (\<forall>t i a. arts p (t, i) = Some a \<longrightarrow> (\<exists>b. arts q (t, i) = Some b \<and> evolves a b))"

lemma evolves_refl [simp]: "evolves a a"
  by (simp add: evolves_def state_moves_def)

lemma evolves_trans: "evolves a b \<Longrightarrow> evolves b c \<Longrightarrow> evolves a c"
  by (auto simp: evolves_def state_moves_def)

lemma rows_kept_refl [simp]: "rows_kept p p"
  by (auto simp: rows_kept_def)

lemma rows_kept_trans: "rows_kept p q \<Longrightarrow> rows_kept q r \<Longrightarrow> rows_kept p r"
  unfolding rows_kept_def using evolves_trans by blast

lemma rows_kept_same: "arts q = arts p \<Longrightarrow> rows_kept p q"
  by (auto simp: rows_kept_def)

text \<open>What depends on the unchanging part of a manifest.\<close>

lemma manifest_core:
  assumes "evolves a b"
  shows "mf_artifact_hash (ea_manifest b) = mf_artifact_hash (ea_manifest a)"
    "mf_bytes_len (ea_manifest b) = mf_bytes_len (ea_manifest a)"
    "domain_material (ea_manifest b) = domain_material (ea_manifest a)"
    "mf_authorization_class (ea_manifest b) = mf_authorization_class (ea_manifest a)"
proof -
  have core: "mf_artifact_hash m = mf_artifact_hash (m\<lparr>mf_retention := None\<rparr>)"
    "mf_bytes_len m = mf_bytes_len (m\<lparr>mf_retention := None\<rparr>)"
    "domain_material m = domain_material (m\<lparr>mf_retention := None\<rparr>)"
    "mf_authorization_class m = mf_authorization_class (m\<lparr>mf_retention := None\<rparr>)" for m
    by (simp_all add: domain_material_def)
  have same: "(ea_manifest b)\<lparr>mf_retention := None\<rparr> = (ea_manifest a)\<lparr>mf_retention := None\<rparr>"
    using assms by (simp add: evolves_def)
  show "mf_artifact_hash (ea_manifest b) = mf_artifact_hash (ea_manifest a)"
    "mf_bytes_len (ea_manifest b) = mf_bytes_len (ea_manifest a)"
    "domain_material (ea_manifest b) = domain_material (ea_manifest a)"
    "mf_authorization_class (ea_manifest b) = mf_authorization_class (ea_manifest a)"
    using core[of "ea_manifest a"] core[of "ea_manifest b"] same by metis+
qed

lemma evolves_same:
  assumes "evolves a b"
  shows "key_of cd b = key_of cd a" "bytes_sealed cd p b = bytes_sealed cd p a"
    "artifact_key t b = artifact_key t a" "verify_bytes cd (ea_manifest b) bs = verify_bytes cd (ea_manifest a) bs"
proof -
  note core = manifest_core[OF assms]
  show "key_of cd b = key_of cd a" by (simp add: domain_key_def core)
  show k: "artifact_key t b = artifact_key t a" for t using assms by (simp add: artifact_key_def core evolves_def)
  show v: "verify_bytes cd (ea_manifest b) bs = verify_bytes cd (ea_manifest a) bs" for bs
    unfolding verify_bytes_def core by (rule refl)
  show "bytes_sealed cd p b = bytes_sealed cd p a" using assms by (simp add: bytes_sealed_def k v evolves_def)
qed

lemma plane_ok_row: "plane_ok cd p \<Longrightarrow> arts p (t, i) = Some a \<Longrightarrow> art_ok cd p t i a"
  by (simp add: plane_ok_def)

lemma artifact_key_Inr: "artifact_key t a = Inr k \<Longrightarrow> \<exists>h. new_source_key t (ea_blob_path a) h = Inr k"
  by (auto simp: artifact_key_def mesh_def split: sum.splits)

text \<open>Two rows share a blob only if they are one row.\<close>

lemma artifact_key_inj:
  assumes "artifact_key t a = Inr k" "artifact_key t' b = Inr k'" "blob_name k = blob_name k'"
    and "ea_blob_path a = evidence_blob_path i" "ea_blob_path b = evidence_blob_path j"
  shows "t = t' \<and> i = j"
proof -
  obtain h h' where "new_source_key t (ea_blob_path a) h = Inr k" "new_source_key t' (ea_blob_path b) h' = Inr k'"
    using artifact_key_Inr[OF assms(1)] artifact_key_Inr[OF assms(2)] by blast
  from blob_name_inj[OF this assms(3)] assms(4,5) show ?thesis by (simp add: evidence_blob_path_def)
qed

text \<open>A change of the blobs keeps the invariant if the bytes of each committed row are unchanged or
  again the declared ones.\<close>

lemma plane_ok_blobs:
  assumes ok: "plane_ok cd p" and store: "st_artifacts st = arts p" "st_by_domain_key st = keyed p"
    and blobs: "\<And>t i a k. arts p (t, i) = Some a \<Longrightarrow> ea_state a = EvCommitted \<Longrightarrow> artifact_key t a = Inr k \<Longrightarrow>
      b (blob_name k) = pl_blobs p (blob_name k) \<or>
      (\<exists>bs. b (blob_name k) = Some bs \<and> verify_bytes cd (ea_manifest a) bs = Inr ())"
  shows "plane_ok cd \<lparr>pl_store = st, pl_blobs = b\<rparr>"
proof -
  have "bytes_sealed cd \<lparr>pl_store = st, pl_blobs = b\<rparr> a"
    if a: "arts p (t, i) = Some a" and c: "ea_state a = EvCommitted" for t i a
  proof -
    have "art_ok cd p t i a" using plane_ok_row[OF ok a] .
    then obtain k bs where k: "artifact_key t a = Inr k" "pl_blobs p (blob_name k) = Some bs"
      "verify_bytes cd (ea_manifest a) bs = Inr ()" "ea_tenant a = t"
      using c by (auto simp: art_ok_def bytes_sealed_def)
    with blobs[OF a c k(1)] show ?thesis by (auto simp: bytes_sealed_def)
  qed
  with ok store show ?thesis by (auto simp: plane_ok_def art_ok_def)
qed

text \<open>A row that evolves in place.\<close>

lemma plane_ok_evolve:
  assumes ok: "plane_ok cd p" and a: "arts p (t, i) = Some a" and ev: "evolves a b"
    and c: "ea_state b = EvCommitted \<Longrightarrow> bytes_sealed cd p a"
    and st: "st_artifacts st = (arts p)((t, i) \<mapsto> b)" "st_by_domain_key st = keyed p"
  shows "plane_ok cd (p\<lparr>pl_store := st\<rparr>) \<and> rows_kept p (p\<lparr>pl_store := st\<rparr>)"
proof -
  let ?q = "p\<lparr>pl_store := st\<rparr>"
  have s: "bytes_sealed cd ?q x = bytes_sealed cd p x" for x by (simp add: bytes_sealed_def)
  have "art_ok cd ?q t i b"
    using plane_ok_row[OF ok a] ev c st by (auto simp: art_ok_def s evolves_same[OF ev] evolves_def)
  moreover have "art_ok cd ?q t' i' x" if "arts p (t', i') = Some x" for t' i' x
    using plane_ok_row[OF ok that] st by (auto simp: art_ok_def s)
  ultimately have "\<forall>t' i' x. arts ?q (t', i') = Some x \<longrightarrow> art_ok cd ?q t' i' x" using st by auto
  moreover have "\<exists>x. arts ?q (t', j) = Some x \<and> key_of cd x = k" if "keyed p (t', k) = Some j" for t' k j
  proof -
    obtain x where "arts p (t', j) = Some x" "key_of cd x = k" using ok \<open>keyed p (t', k) = Some j\<close> unfolding plane_ok_def by blast
    then show ?thesis using st a evolves_same(1)[OF ev] by (cases "(t', j) = (t, i)") auto
  qed
  ultimately have "plane_ok cd ?q" using st unfolding plane_ok_def by simp
  moreover have "rows_kept p ?q" using st a ev by (auto simp: rows_kept_def)
  ultimately show ?thesis ..
qed

section \<open>Every operation keeps it\<close>

definition follows :: "codecs \<Rightarrow> plane \<Rightarrow> plane \<Rightarrow> bool" where
  "follows cd p q \<longleftrightarrow> plane_ok cd q \<and> rows_kept p q"

lemma follows_trans: "follows cd p q \<Longrightarrow> follows cd q r \<Longrightarrow> follows cd p r"
  by (auto simp: follows_def intro: rows_kept_trans)

lemma follows_refl: "plane_ok cd p \<Longrightarrow> follows cd p p"
  by (simp add: follows_def)

lemma follows_same: "plane_ok cd p \<Longrightarrow> arts q = arts p \<Longrightarrow> keyed q = keyed p \<Longrightarrow> pl_blobs q = pl_blobs p \<Longrightarrow> follows cd p q"
proof -
  assume *: "plane_ok cd p" "arts q = arts p" "keyed q = keyed p" "pl_blobs q = pl_blobs p"
  then have "art_ok cd q = art_ok cd p" by (intro ext) (simp add: art_ok_def bytes_sealed_def)
  with * show ?thesis by (simp add: follows_def plane_ok_def rows_kept_same)
qed

lemma put_blob_simp [simp]: "snd (put_blob k bs m) = m(blob_name k \<mapsto> bs)"
  by (simp add: put_blob_def)

lemma plane_eta: "p\<lparr>pl_store := st, pl_blobs := b\<rparr> = \<lparr>pl_store = st, pl_blobs = b\<rparr>"
  by (cases p) simp

text \<open>Writing verified bytes under a row's own address, or under an address no row has.\<close>

lemma follows_put:
  assumes ok: "plane_ok cd p" and st: "st_artifacts st = arts p" "st_by_domain_key st = keyed p"
    and own: "\<And>t i a k'. arts p (t, i) = Some a \<Longrightarrow> artifact_key t a = Inr k' \<Longrightarrow> blob_name k' = blob_name k \<Longrightarrow>
      verify_bytes cd (ea_manifest a) bs = Inr ()"
  shows "follows cd p (on_blobs (\<lambda>b. snd (put_blob k bs b)) (p\<lparr>pl_store := st\<rparr>))"
proof -
  have "plane_ok cd \<lparr>pl_store = st, pl_blobs = (pl_blobs p)(blob_name k \<mapsto> bs)\<rparr>"
    by (rule plane_ok_blobs[OF ok st]) (use own in auto)
  then show ?thesis using st by (simp add: follows_def on_blobs_def plane_eta rows_kept_same)
qed

lemma put_own:
  assumes ok: "plane_ok cd p" and a: "arts p (t, i) = Some a" and k: "artifact_key t a = Inr k"
    and v: "verify_bytes cd (ea_manifest a) bs = Inr ()"
    and st: "st_artifacts st = arts p" "st_by_domain_key st = keyed p"
  shows "follows cd p (on_blobs (\<lambda>b. snd (put_blob k bs b)) (p\<lparr>pl_store := st\<rparr>))"
proof (rule follows_put[OF ok st])
  fix t' i' x k' assume x: "arts p (t', i') = Some x" "artifact_key t' x = Inr k'" "blob_name k' = blob_name k"
  have "ea_blob_path x = evidence_blob_path i'" "ea_blob_path a = evidence_blob_path i"
    using plane_ok_row[OF ok x(1)] plane_ok_row[OF ok a] by (simp_all add: art_ok_def)
  from artifact_key_inj[OF x(2) k x(3) this] x(1) a v show "verify_bytes cd (ea_manifest x) bs = Inr ()" by simp
qed

text \<open>Registering a new row.\<close>

lemma follows_register:
  assumes ok: "plane_ok cd p" and fresh: "arts p (mf_tenant m, dr_evidence_id dr) = None"
    and r: "ev_register (cd_sha_hex cd) (sealed_artifact dr st m) g (pl_store p) = Inr (out, s)"
    and sealed: "st = EvCommitted \<Longrightarrow> bytes_sealed cd p (sealed_artifact dr st m)"
  shows "follows cd p (p\<lparr>pl_store := s\<rparr>)"
proof (cases "keyed p (mf_tenant m, domain_key (cd_sha_hex cd) m)")
  case (Some i)
  with r have "s = pl_store p" by (simp add: ev_register_def sealed_artifact_def)
  with ok show ?thesis by (simp add: follows_refl)
next
  case None
  let ?a = "sealed_artifact dr st m" and ?q = "p\<lparr>pl_store := s\<rparr>"
  have s: "st_artifacts s = (arts p)((mf_tenant m, dr_evidence_id dr) \<mapsto> ?a)"
    "st_by_domain_key s = (keyed p)((mf_tenant m, domain_key (cd_sha_hex cd) m) \<mapsto> dr_evidence_id dr)"
    using r None fresh by (auto simp: ev_register_def sealed_artifact_def Let_def)
  have b: "bytes_sealed cd ?q x = bytes_sealed cd p x" for x by (simp add: bytes_sealed_def)
  have "art_ok cd ?q (mf_tenant m) (dr_evidence_id dr) ?a"
    using s sealed unfolding art_ok_def b by (simp add: sealed_artifact_def)
  moreover have "art_ok cd ?q t i x" if "arts p (t, i) = Some x" for t i x
    using plane_ok_row[OF ok that] s None by (auto simp: art_ok_def b)
  ultimately have "\<forall>t i x. arts ?q (t, i) = Some x \<longrightarrow> art_ok cd ?q t i x" using s by auto
  moreover have "\<exists>x. arts ?q (t, i) = Some x \<and> key_of cd x = k" if "keyed ?q (t, k) = Some i" for t k i
  proof (cases "(t, k) = (mf_tenant m, domain_key (cd_sha_hex cd) m)")
    case True
    with that s show ?thesis by (auto simp: sealed_artifact_def)
  next
    case False
    with that s have "keyed p (t, k) = Some i" by auto
    with ok obtain x where "arts p (t, i) = Some x" "key_of cd x = k" unfolding plane_ok_def by blast
    with fresh s show ?thesis by auto
  qed
  ultimately have "plane_ok cd ?q" unfolding plane_ok_def by blast
  moreover have "rows_kept p ?q" using s fresh unfolding rows_kept_def by auto
  ultimately show ?thesis by (simp add: follows_def)
qed

lemma parse_manifest_Inr: "parse_manifest cd raw access = Inr m \<Longrightarrow>
    mf_tenant m = ax_tenant_id access \<and> class_admits (mf_authorization_class m) access"
  by (auto simp: parse_manifest_def res_bind_eq_Inr split: sum.splits if_splits)

lemma seal_inline_cases:
  obtains (refused) "snd (seal_inline cd dr m b p) = p"
  | (stored) bs k where "verify_bytes cd m bs = Inr ()" "artifact_key (mf_tenant m) (sealed_artifact dr EvCommitted m) = Inr k"
      "snd (seal_inline cd dr m b p) = (let p1 = on_blobs (\<lambda>b. snd (put_blob k bs b)) p in
         case ev_register (cd_sha_hex cd) (sealed_artifact dr EvCommitted m) None (pl_store p1) of
           Inl e \<Rightarrow> p1 | Inr (out, st) \<Rightarrow> p1\<lparr>pl_store := st\<rparr>)"
proof (cases "cd_base64 cd b")
  case (Inl e)
  then show thesis using refused by (simp add: seal_inline_def)
next
  case bs: (Inr bs)
  show thesis
  proof (cases "INLINE_SEAL_MAX_BYTES < length bs")
    case True
    with bs show thesis using refused by (simp add: seal_inline_def)
  next
    case len: False
    show thesis
    proof (cases "verify_bytes cd m bs")
      case (Inl e)
      with bs len show thesis using refused by (simp add: seal_inline_def)
    next
      case v: (Inr u)
      show thesis
      proof (cases "artifact_key (mf_tenant m) (sealed_artifact dr EvCommitted m)")
        case (Inl e)
        with bs len v show thesis using refused by (simp add: seal_inline_def)
      next
        case k: (Inr k)
        show thesis
          by (rule stored[OF _ k, of bs])
            (use bs len v k in \<open>auto simp: seal_inline_def Let_def split: sum.splits prod.splits\<close>)
      qed
    qed
  qed
qed

lemma seal_inline_follows:
  assumes ok: "plane_ok cd p" and fresh: "arts p (mf_tenant m, dr_evidence_id dr) = None"
  shows "follows cd p (snd (seal_inline cd dr m b p))"
proof -
  let ?a = "sealed_artifact dr EvCommitted m"
  show ?thesis
  proof (cases rule: seal_inline_cases[of cd dr m b p])
    case refused
    with ok show ?thesis by (simp add: follows_refl)
  next
    case 2: (stored bs k)
    define p1 where "p1 = on_blobs (\<lambda>b. snd (put_blob k bs b)) p"
    have no: "\<not> (arts p (t, i) = Some x \<and> artifact_key t x = Inr k' \<and> blob_name k' = blob_name k)" for t i x k'
    proof
      assume x: "arts p (t, i) = Some x \<and> artifact_key t x = Inr k' \<and> blob_name k' = blob_name k"
      have "ea_blob_path x = evidence_blob_path i" using plane_ok_row[OF ok, of t i x] x by (simp add: art_ok_def)
      with artifact_key_inj[of t x k' "mf_tenant m" ?a k i "dr_evidence_id dr"] x 2(2)
      have "t = mf_tenant m \<and> i = dr_evidence_id dr" by (simp add: sealed_artifact_def)
      with x fresh show False by simp
    qed
    have p1: "follows cd p p1" using follows_put[OF ok refl refl, of k bs] no by (auto simp: p1_def)
    have simps: "pl_store p1 = pl_store p" "pl_blobs p1 (blob_name k) = Some bs" by (simp_all add: p1_def on_blobs_def)
    have "bytes_sealed cd p1 ?a" using 2(1,2) simps by (auto simp: bytes_sealed_def sealed_artifact_def)
    then have reg: "ev_register (cd_sha_hex cd) ?a None (pl_store p1) = Inr (out, st) \<Longrightarrow> follows cd p1 (p1\<lparr>pl_store := st\<rparr>)"
      for out st using p1 fresh simps(1) by (intro follows_register) (auto simp: follows_def)
    have "snd (seal_inline cd dr m b p) = (case ev_register (cd_sha_hex cd) ?a None (pl_store p1) of
        Inl e \<Rightarrow> p1 | Inr (out, st) \<Rightarrow> p1\<lparr>pl_store := st\<rparr>)"
      using 2(3) unfolding Let_def p1_def .
    then show ?thesis using p1 follows_trans[OF p1 reg] by (auto split: sum.splits prod.splits)
  qed
qed

lemma seal_follows:
  assumes ok: "plane_ok cd p" and fresh: "arts p (ax_tenant_id access, dr_evidence_id dr) = None"
  shows "follows cd p (snd (op_seal cd dr access raw b64 p))"
proof (cases "parse_manifest cd raw access")
  case (Inl e)
  with ok show ?thesis by (simp add: op_seal_def follows_refl)
next
  case (Inr m)
  then have f: "arts p (mf_tenant m, dr_evidence_id dr) = None" using parse_manifest_Inr[OF Inr] fresh by simp
  have "follows cd p (snd (seal_grant cd dr m p))"
    using follows_register[OF ok f] by (auto simp: seal_grant_def follows_refl[OF ok] split: sum.splits prod.splits)
  with Inr seal_inline_follows[OF ok f] show ?thesis by (auto simp: op_seal_def follows_refl[OF ok] split: option.splits)
qed

lemma put_bytes_follows:
  assumes ok: "plane_ok cd p"
  shows "follows cd p (snd (op_put_bytes cd now access i grant_id bs p))"
proof -
  have grant: "st_artifacts st = arts p \<and> st_by_domain_key st = keyed p"
    if "consume_grant t i grant_id now (pl_store p) = (x, st)" for t x st
    using that by (auto simp: consume_grant_def Let_def split: option.splits if_splits)
  have own: "follows cd p (on_blobs (\<lambda>b. snd (put_blob k bs b)) (p\<lparr>pl_store := st\<rparr>))"
    if "consume_grant (ax_tenant_id access) i grant_id now (pl_store p) = (x, st)"
      "arts p (ax_tenant_id access, i) = Some a" "artifact_key (ax_tenant_id access) a = Inr k"
      "verify_bytes cd (ea_manifest a) bs = Inr ()" for x st a k
    using put_own[OF ok that(2,3,4)] grant[OF that(1)] by blast
  have same: "follows cd p (p\<lparr>pl_store := st\<rparr>)"
    if "consume_grant (ax_tenant_id access) i grant_id now (pl_store p) = (x, st)" for x st
    using grant[OF that] by (intro follows_same[OF ok]) simp_all
  show ?thesis
    using own same follows_refl[OF ok]
    by (auto simp: op_put_bytes_def Let_def ev_get_def split: option.splits sum.splits prod.splits)
qed

lemma commit_follows:
  assumes ok: "plane_ok cd p"
  shows "follows cd p (snd (op_commit cd now access i p))"
proof -
  let ?t = "ax_tenant_id access"
  have step: "follows cd p (p\<lparr>pl_store := st\<rparr>)"
    if a: "arts p (?t, i) = Some a" and k: "artifact_key ?t a = Inr k" and b: "get_blob k (pl_blobs p) = Inr stored"
      and v: "verify_bytes cd (ea_manifest a) stored = Inr ()" and c: "ev_commit ?t i now (pl_store p) = Inr (committed, st)"
    for a k stored committed st
  proof (cases "ea_state a = EvPending")
    case False
    with a c have "st = pl_store p" by (simp add: ev_commit_def)
    with ok show ?thesis by (simp add: follows_refl)
  next
    case True
    let ?b = "a\<lparr>ea_state := EvCommitted, ea_committed_at := Some now\<rparr>"
    have st: "st_artifacts st = (arts p)((?t, i) \<mapsto> ?b)" "st_by_domain_key st = keyed p"
      using a c True by (auto simp: ev_commit_def)
    have "ea_tenant a = ?t" using plane_ok_row[OF ok a] by (simp add: art_ok_def)
    then have "bytes_sealed cd p a"
      using k b v by (auto simp: bytes_sealed_def get_blob_def ok_or_eq_Inr)
    moreover have "evolves a ?b" using True by (simp add: evolves_def state_moves_def)
    ultimately show ?thesis using plane_ok_evolve[OF ok a _ _ st] by (simp add: follows_def)
  qed
  show ?thesis
    using step follows_refl[OF ok]
    by (auto simp: op_commit_def Let_def ev_get_def split: option.splits sum.splits prod.splits kernel_error.splits)
qed

lemma record_access_simps [simp]: "st_artifacts (record_access x st) = st_artifacts st"
    "st_by_domain_key (record_access x st) = st_by_domain_key st" "st_grants (record_access x st) = st_grants st"
  by (simp_all add: record_access_def Let_def)

lemma resolve_cases: "snd (resolve_readable now access i kind f l p) = p \<or>
    (\<exists>x. snd (resolve_readable now access i kind f l p) = on_store (record_access x) p)"
  by (auto simp: resolve_readable_def Let_def split: option.splits)

lemma resolve_follows: "plane_ok cd p \<Longrightarrow> follows cd p (snd (resolve_readable now access i kind f l p))"
  using resolve_cases[of now access i kind f l p] by (auto simp: on_store_def intro: follows_refl follows_same)

lemma get_manifest_plane: "snd (op_get_manifest now access i p) = snd (resolve_readable now access i ''manifest'' None None p)"
  by (auto simp: op_get_manifest_def split: sum.splits prod.splits)

lemma get_rows_plane: "snd (op_get_rows cd now access i start limit p) = p \<or>
    (\<exists>f l. snd (op_get_rows cd now access i start limit p) = snd (resolve_readable now access i ''rows'' f l p))"
proof (cases "i64_limit < start")
  case True
  then show ?thesis by (simp add: op_get_rows_def)
next
  case False
  obtain x q where "resolve_readable now access i ''rows'' (Some (int start)) (Some (int (clamp_limit limit))) p = (x, q)"
    by fastforce
  with False have "snd (op_get_rows cd now access i start limit p) = q"
    by (auto simp: op_get_rows_def Let_def split: sum.splits)
  with \<open>_ = (x, q)\<close> show ?thesis by (metis snd_conv)
qed

text \<open>Retention.\<close>

lemma retention_evolves: "evolves a (with_retention r a)"
  by (simp add: evolves_def state_moves_def with_retention_def)

lemma purge_evolves: "evolves a (with_retention r (a\<lparr>ea_state := EvPurged\<rparr>))"
  by (cases "ea_state a") (simp_all add: evolves_def state_moves_def with_retention_def)

lemma hold_follows: "plane_ok cd p \<Longrightarrow> follows cd p (snd (op_set_legal_hold t i hold p))"
proof -
  assume ok: "plane_ok cd p"
  show ?thesis
  proof (cases "arts p (t, i)")
    case None
    then show ?thesis using ok by (simp add: op_set_legal_hold_def ev_legal_hold_def follows_refl)
  next
    case (Some a)
    let ?b = "with_retention ((retention_of a)\<lparr>rt_legal_hold := hold\<rparr>) a"
    have "ea_state ?b = EvCommitted \<Longrightarrow> bytes_sealed cd p a"
      using plane_ok_row[OF ok Some] by (simp add: art_ok_def with_retention_def)
    from plane_ok_evolve[OF ok Some retention_evolves this, where st = "(pl_store p)\<lparr>st_artifacts := (arts p)((t, i) \<mapsto> ?b)\<rparr>"]
    show ?thesis using Some by (simp add: op_set_legal_hold_def ev_legal_hold_def follows_def)
  qed
qed

text \<open>An artifact as some earlier listing returned it: a row of that id exists.\<close>

definition listed :: "plane \<Rightarrow> evidence_artifact \<Rightarrow> bool" where
  "listed p a \<longleftrightarrow> arts p (ea_tenant a, ea_evidence_id a) \<noteq> None \<and> ea_blob_path a = evidence_blob_path (ea_evidence_id a)"

lemma delete_and_mark:
  assumes ok: "plane_ok cd p" and a: "arts p (t, i) = Some a" and k: "artifact_key t x = Inr k" "ea_blob_path x = evidence_blob_path i"
    and m: "mark_purged t i now (pl_store p) = Inr (marked, st)"
  shows "follows cd p (p\<lparr>pl_blobs := delete_blob k (pl_blobs p), pl_store := st\<rparr>)"
proof -
  define b where "b = (if ea_state a = EvPurged then a else
    with_retention ((retention_of a)\<lparr>rt_purged_at := Some now\<rparr>) (a\<lparr>ea_state := EvPurged\<rparr>))"
  have st: "st_artifacts st = (arts p)((t, i) \<mapsto> b)" "st_by_domain_key st = keyed p"
    using m a by (auto simp: mark_purged_def b_def split: if_splits)
  have b: "evolves a b" by (simp add: b_def purge_evolves)
  have bs: "ea_state b = EvPurged" by (simp add: b_def with_retention_def)
  have q: "plane_ok cd (p\<lparr>pl_store := st\<rparr>)" "rows_kept p (p\<lparr>pl_store := st\<rparr>)"
    using plane_ok_evolve[OF ok a b _ st] bs by simp_all
  have "plane_ok cd \<lparr>pl_store = st, pl_blobs = delete_blob k (pl_blobs p)\<rparr>"
  proof (rule plane_ok_blobs[OF q(1)])
    fix t' i' y k' assume y: "arts (p\<lparr>pl_store := st\<rparr>) (t', i') = Some y" "ea_state y = EvCommitted" "artifact_key t' y = Inr k'"
    have "ea_blob_path y = evidence_blob_path i'" using plane_ok_row[OF q(1) y(1)] by (simp add: art_ok_def)
    then have "blob_name k' \<noteq> blob_name k"
      using artifact_key_inj[OF y(3) k(1) _ _ k(2)] y(1,2) st bs by auto
    then show "delete_blob k (pl_blobs p) (blob_name k') = pl_blobs (p\<lparr>pl_store := st\<rparr>) (blob_name k') \<or>
        (\<exists>bs. delete_blob k (pl_blobs p) (blob_name k') = Some bs \<and> verify_bytes cd (ea_manifest y) bs = Inr ())"
      by (simp add: delete_blob_def)
  qed simp_all
  then show ?thesis using q(2) by (cases p) (simp add: follows_def rows_kept_def)
qed

lemma purge_item_follows:
  assumes ok: "plane_ok cd p" and l: "listed p a"
  shows "follows cd p (snd (purge_item now a (n, p)))"
proof (cases "artifact_key (ea_tenant a) a")
  case (Inl e)
  then show ?thesis using ok by (simp add: purge_item_def follows_refl)
next
  case (Inr k)
  obtain x where x: "arts p (ea_tenant a, ea_evidence_id a) = Some x" using l by (auto simp: listed_def)
  then obtain marked st where m: "mark_purged (ea_tenant a) (ea_evidence_id a) now (pl_store p) = Inr (marked, st)"
    by (cases "ea_state x = EvPurged") (auto simp: mark_purged_def)
  have "ea_blob_path a = evidence_blob_path (ea_evidence_id a)" using l by (simp add: listed_def)
  from delete_and_mark[OF ok x Inr this m] show ?thesis using Inr m by (simp add: purge_item_def on_blobs_def Let_def)
qed

lemma listed_kept: "listed p a \<Longrightarrow> rows_kept p q \<Longrightarrow> listed q a"
  unfolding listed_def rows_kept_def by blast

lemma purge_fold_follows: "plane_ok cd p \<Longrightarrow> (\<forall>a \<in> set as. listed p a) \<Longrightarrow>
    follows cd p (snd (fold (purge_item now) as (n, p)))"
proof (induction as arbitrary: p n)
  case Nil
  then show ?case by (simp add: follows_refl)
next
  case (Cons a as)
  obtain m q where q: "purge_item now a (n, p) = (m, q)" by fastforce
  have f: "follows cd p q" using purge_item_follows[of cd p a now n] Cons.prems q by simp
  then have "follows cd q (snd (fold (purge_item now) as (m, q)))"
    using Cons.prems by (intro Cons.IH) (auto simp: follows_def intro: listed_kept)
  with f q show ?case by (auto intro: follows_trans)
qed

lemma due_listed: "plane_ok cd p \<Longrightarrow> a \<in> set (purge_due order now limit (pl_store p)) \<Longrightarrow>
    listed p a \<and> is_due now a \<and> arts p (ea_tenant a, ea_evidence_id a) = Some a"
proof -
  assume ok: "plane_ok cd p" and "a \<in> set (purge_due order now limit (pl_store p))"
  then obtain t i where "arts p (t, i) = Some a" "is_due now a"
    by (auto simp: purge_due_def set_map_filter dest!: in_set_takeD)
  with plane_ok_row[OF ok this(1)] show ?thesis by (auto simp: listed_def art_ok_def)
qed

lemma purge_once_follows: "plane_ok cd p \<Longrightarrow> follows cd p (snd (purge_once order now limit p))"
  unfolding purge_once_def using due_listed by (intro purge_fold_follows) auto

text \<open>What may overlap an operator's purge: any number of legal hold calls, on any artifact.\<close>

definition hold_calls :: "plane \<Rightarrow> plane \<Rightarrow> bool" where
  "hold_calls = (\<lambda>p q. \<exists>t i hold. q = snd (op_set_legal_hold t i hold p))\<^sup>*\<^sup>*"

lemma hold_calls_refl [simp]: "hold_calls p p"
  by (simp add: hold_calls_def)

lemma hold_calls_once: "hold_calls p (snd (op_set_legal_hold t i hold p))"
  unfolding hold_calls_def by blast

lemma hold_calls_induct [consumes 1, case_names none more]:
  assumes "hold_calls p q" "P p" "\<And>q t i hold. P q \<Longrightarrow> P (snd (op_set_legal_hold t i hold q))"
  shows "P q"
  using assms(1) unfolding hold_calls_def by (induction rule: rtranclp_induct) (use assms(2,3) in auto)

lemma hold_calls_follow: "hold_calls p q \<Longrightarrow> plane_ok cd p \<Longrightarrow> follows cd p q"
proof (induction rule: hold_calls_induct)
  case none
  then show ?case by (simp add: follows_refl)
next
  case (more q t i hold)
  then have f: "follows cd p q" by simp
  from follows_trans[OF f hold_follows] f show ?case by (simp add: follows_def)
qed

lemma hold_calls_blobs: "hold_calls p q \<Longrightarrow> pl_blobs q = pl_blobs p"
  by (induction rule: hold_calls_induct) (auto simp: op_set_legal_hold_def ev_legal_hold_def split: option.splits)

text \<open>The bytes do not matter to a hold, so a deletion before it is a deletion after it.\<close>

lemma hold_on_blobs: "snd (op_set_legal_hold t i hold (on_blobs f p)) = on_blobs f (snd (op_set_legal_hold t i hold p))"
  by (auto simp: op_set_legal_hold_def ev_legal_hold_def on_blobs_def split: option.splits)

lemma hold_calls_on_blobs:
  assumes "hold_calls (on_blobs f p) r"
  shows "\<exists>q. hold_calls p q \<and> r = on_blobs f q"
  using assms
proof (induction rule: hold_calls_induct)
  case none
  then show ?case by (intro exI[of _ p]) simp
next
  case (more r t i hold)
  then obtain q where q: "hold_calls p q" "r = on_blobs f q" by blast
  then have "hold_calls p (snd (op_set_legal_hold t i hold q))" unfolding hold_calls_def by (blast intro: rtranclp.rtrancl_into_rtrancl)
  with q(2) hold_on_blobs show ?case by blast
qed

lemma op_purge_follows:
  assumes ok: "plane_ok cd p" and others: "\<And>k x. hold_calls x (others k x)"
  shows "follows cd p (snd (op_purge now others t i p))"
proof (cases "arts p (t, i)")
  case None
  with ok show ?thesis by (simp add: op_purge_def ev_get_def follows_refl)
next
  case (Some a)
  show ?thesis
  proof (cases "(case mf_retention (ea_manifest a) of None \<Rightarrow> False | Some r \<Rightarrow> rt_legal_hold r) \<or> ea_state a = EvPurged \<or>
      (\<exists>e. artifact_key t a = Inl e)")
    case True
    then show ?thesis using Some ok by (auto simp: op_purge_def ev_get_def follows_refl)
  next
    case False
    then obtain k where k: "artifact_key t a = Inr k" by (cases "artifact_key t a") auto
    obtain q where q: "hold_calls (others 0 p) q" "others 1 (on_blobs (delete_blob k) (others 0 p)) = on_blobs (delete_blob k) q"
      using hold_calls_on_blobs[OF others] by blast
    have "follows cd p (others 0 p)" by (rule hold_calls_follow[OF others ok])
    moreover from this have "follows cd (others 0 p) q" by (intro hold_calls_follow[OF q(1)]) (simp add: follows_def)
    ultimately have f: "follows cd p q" by (rule follows_trans)
    then have okq: "plane_ok cd q" and kept: "rows_kept p q" by (simp_all add: follows_def)
    then obtain b where b: "arts q (t, i) = Some b" using Some unfolding rows_kept_def by blast
    obtain marked st where m: "mark_purged t i now (pl_store q) = Inr (marked, st)"
      using b by (cases "ea_state b = EvPurged") (auto simp: mark_purged_def)
    have path: "ea_blob_path a = evidence_blob_path i" using plane_ok_row[OF ok Some] by (simp add: art_ok_def)
    have "snd (op_purge now others t i p) = q\<lparr>pl_blobs := delete_blob k (pl_blobs q), pl_store := st\<rparr>"
      using Some False k q(2) m by (simp add: op_purge_def ev_get_def Let_def on_blobs_def)
    with follows_trans[OF f delete_and_mark[OF okq b k path m]] show ?thesis by simp
  qed
qed

lemma document_follows: "plane_ok cd p \<Longrightarrow> follows cd p (snd (put_document t path h bs p))"
proof (cases "refuse_reserved_document_path path = Inr () \<and> (\<exists>k. new_source_key t path h = Inr k)")
  case False
  assume "plane_ok cd p"
  then show ?thesis using False
    by (auto simp: put_document_def mesh_def follows_refl split: sum.splits)
next
  case True
  assume ok: "plane_ok cd p"
  from True obtain k where k: "refuse_reserved_document_path path = Inr ()" "new_source_key t path h = Inr k" by blast
  have "follows cd p (on_blobs (\<lambda>b. snd (put_blob k bs b)) (p\<lparr>pl_store := pl_store p\<rparr>))"
  proof (rule follows_put[OF ok refl refl])
    fix t' i' x k' assume x: "arts p (t', i') = Some x" "artifact_key t' x = Inr k'" "blob_name k' = blob_name k"
    obtain h' where "new_source_key t' (ea_blob_path x) h' = Inr k'" using artifact_key_Inr[OF x(2)] by blast
    from blob_name_inj[OF this k(2) x(3)] have "path = evidence_blob_path i'"
      using plane_ok_row[OF ok x(1)] by (simp add: art_ok_def)
    with k(1) show "verify_bytes cd (ea_manifest x) bs = Inr ()"
      by (auto simp: refuse_reserved_document_path_def evidence_blob_path_def starts_with_iff split: if_splits)
  qed
  then show ?thesis using k by (simp add: put_document_def mesh_def)
qed

section \<open>Runs\<close>

text \<open>
  Any principal may call any operation; a new artifact gets ids the tenant has not used. The steps are
  whole calls, except that legal hold calls may run inside an operator's purge.
\<close>

inductive plane_step :: "codecs \<Rightarrow> plane \<Rightarrow> plane \<Rightarrow> bool" for cd :: codecs where
  step_seal: "arts p (ax_tenant_id access, dr_evidence_id dr) = None \<Longrightarrow>
    st_grants (pl_store p) (ax_tenant_id access, dr_grant_id dr) = None \<Longrightarrow>
    plane_step cd p (snd (op_seal cd dr access raw b64 p))"
| step_put: "plane_step cd p (snd (op_put_bytes cd now access i grant_id bs p))"
| step_commit: "plane_step cd p (snd (op_commit cd now access i p))"
| step_manifest: "plane_step cd p (snd (op_get_manifest now access i p))"
| step_rows: "plane_step cd p (snd (op_get_rows cd now access i start limit p))"
| step_sweep: "plane_step cd p (snd (purge_once order now limit p))"
| step_purge: "(\<And>k x. hold_calls x (others k x)) \<Longrightarrow> plane_step cd p (snd (op_purge now others t i p))"
| step_hold: "plane_step cd p (snd (op_set_legal_hold t i hold p))"
| step_document: "plane_step cd p (snd (put_document t path h bs p))"

definition new_plane :: plane where
  "new_plane = \<lparr>pl_store = new_evidence_store, pl_blobs = \<lambda>_. None\<rparr>"

abbreviation plane_run :: "codecs \<Rightarrow> plane \<Rightarrow> plane \<Rightarrow> bool" where
  "plane_run cd \<equiv> (plane_step cd)\<^sup>*\<^sup>*"

lemma step_follows: "plane_step cd p q \<Longrightarrow> plane_ok cd p \<Longrightarrow> follows cd p q"
proof (induction rule: plane_step.induct)
  case (step_rows p now access i start limit)
  then show ?case using get_rows_plane[of cd now access i start limit p]
    by (auto intro: follows_refl simp: resolve_follows)
qed (simp_all add: seal_follows put_bytes_follows commit_follows get_manifest_plane resolve_follows purge_once_follows
    op_purge_follows hold_follows document_follows)

lemma run_follows: "plane_run cd p q \<Longrightarrow> plane_ok cd p \<Longrightarrow> follows cd p q"
proof (induction rule: rtranclp_induct)
  case base
  then show ?case by (simp add: follows_refl)
next
  case (step q r)
  then have "follows cd p q" by simp
  then show ?case using step_follows[OF step.hyps(2)] by (auto simp: follows_def intro: rows_kept_trans)
qed

lemma new_plane_ok: "plane_ok cd new_plane"
  by (simp add: plane_ok_def new_plane_def new_evidence_store_def)

lemma reachable_plane_ok: "plane_run cd new_plane p \<Longrightarrow> plane_ok cd p"
  using run_follows[OF _ new_plane_ok] by (simp add: follows_def)

section \<open>Rows survive\<close>

text \<open>C19. A citation never dangles. A row that exists in a reachable plane is found in every later
  plane under the same id, with the manifest it was sealed with (its retention block apart), its
  state having moved only along pending, committed, purged; so no later read of it answers that
  the evidence does not exist, and a purged row answers that it expired.\<close>

theorem evidence_rows_survive:
  assumes "plane_run cd new_plane p" "plane_run cd p q" "arts p (t, i) = Some a"
  shows "(\<exists>b. arts q (t, i) = Some b \<and> evolves a b) \<and>
    (\<forall>now access kind f l. ax_tenant_id access = t \<longrightarrow>
       (\<forall>k j. fst (resolve_readable now access i kind f l q) \<noteq> Inl (Mesh (NotFound k j))) \<and>
       (ea_state a = EvPurged \<longrightarrow> class_admits (mf_authorization_class (ea_manifest a)) access \<longrightarrow>
          fst (resolve_readable now access i kind f l q) = Inl (EvidenceExpired i)))"
proof -
  have "rows_kept p q" using run_follows[OF assms(2) reachable_plane_ok[OF assms(1)]] by (simp add: follows_def)
  then obtain b where b: "arts q (t, i) = Some b" "evolves a b" using assms(3) unfolding rows_kept_def by blast
  have "ea_state a = EvPurged \<Longrightarrow> ea_state b = EvPurged" using b(2) by (simp add: evolves_def state_moves_def)
  moreover have "mf_authorization_class (ea_manifest b) = mf_authorization_class (ea_manifest a)"
    using manifest_core(4)[OF b(2)] .
  ultimately have "ax_tenant_id access = t \<longrightarrow>
       (\<forall>k j. fst (resolve_readable now access i kind f l q) \<noteq> Inl (Mesh (NotFound k j))) \<and>
       (ea_state a = EvPurged \<longrightarrow> class_admits (mf_authorization_class (ea_manifest a)) access \<longrightarrow>
          fst (resolve_readable now access i kind f l q) = Inl (EvidenceExpired i))" for now access kind f l
    using b(1) by (simp add: resolve_readable_def ev_get_def Let_def)
  with b show ?thesis by blast
qed

section \<open>Reads\<close>

lemma resolve_Inr:
  assumes "resolve_readable now access i kind f l p = (Inr a, q)"
  shows "arts p (ax_tenant_id access, i) = Some a \<and> ea_state a = EvCommitted \<and>
    class_admits (mf_authorization_class (ea_manifest a)) access \<and> pl_blobs q = pl_blobs p \<and>
    (\<exists>x. st_accesses (pl_store q) (ax_tenant_id access, i) = st_accesses (pl_store p) (ax_tenant_id access, i) @ [x] \<and>
       es_uid x = ax_uid access \<and> es_outcome x = ''ok'' \<and> es_kind x = kind)"
proof -
  obtain y where a: "arts p (ax_tenant_id access, i) = Some y" using assms
    by (cases "arts p (ax_tenant_id access, i)") (simp_all add: resolve_readable_def ev_get_def Let_def)
  show ?thesis using assms a
    by (auto simp: resolve_readable_def ev_get_def Let_def on_store_def record_access_def split: if_splits)
qed

lemma get_rows_Inr:
  assumes "op_get_rows cd now access i start limit p = (Inr r, q)"
  obtains a k bs s where
    "resolve_readable now access i ''rows'' (Some (int start)) (Some (int (clamp_limit limit))) p = (Inr a, q)"
    "artifact_key (ax_tenant_id access) a = Inr k" "get_blob k (pl_blobs q) = Inr bs" "cd_utf8 cd bs = Inr s"
    "rw_total r = length (data_lines s)"
    "rw_rows r = map (row_json (map ec_name (mf_columns (ea_manifest a)))) (take (clamp_limit limit) (drop start (data_lines s)))"
    "rw_has_more r \<longleftrightarrow> start + length (rw_rows r) < length (data_lines s)"
proof -
  obtain x p' where res: "resolve_readable now access i ''rows'' (Some (int start)) (Some (int (clamp_limit limit))) p = (x, p')"
    by fastforce
  note op = assms[unfolded op_get_rows_def Let_def res prod.case]
  from op obtain a where x: "x = Inr a" by (cases x) (simp_all split: if_splits)
  from op x obtain k bs where k: "artifact_key (ax_tenant_id access) a = Inr k" "get_blob k (pl_blobs p') = Inr bs"
    by (cases "artifact_key (ax_tenant_id access) a"; cases "get_blob (projr (artifact_key (ax_tenant_id access) a)) (pl_blobs p')")
      (simp_all add: mesh_def split: if_splits)
  from op x k obtain s where s: "cd_utf8 cd bs = Inr s" by (cases "cd_utf8 cd bs") (simp_all add: mesh_def split: if_splits)
  show thesis
    by (rule that[of a k bs s]) (use op x k s res in \<open>auto simp: mesh_def split: if_splits\<close>)
qed

text \<open>C20. Rows are served only to those who clear them and only from the sealed bytes. In a reachable
  plane a successful row read is of a committed artifact of the caller's tenant whose class the
  caller dominates; the rows are the requested window, at most a thousand, of the data lines of
  bytes that have the length and hash the manifest declares; the response says exactly whether
  more remain; and the read is the last entry of the artifact's access log.\<close>

theorem rows_serve_the_seal:
  assumes "plane_run cd new_plane p" "op_get_rows cd now access i start limit p = (Inr r, q)"
  shows "\<exists>a bs s. arts p (ax_tenant_id access, i) = Some a \<and> ea_state a = EvCommitted \<and>
    class_admits (mf_authorization_class (ea_manifest a)) access \<and>
    int (length bs) = mf_bytes_len (ea_manifest a) \<and> ''sha256:'' @ cd_sha_hex cd bs = mf_artifact_hash (ea_manifest a) \<and>
    cd_utf8 cd bs = Inr s \<and> rw_total r = length (data_lines s) \<and>
    rw_rows r = map (row_json (map ec_name (mf_columns (ea_manifest a)))) (take (clamp_limit limit) (drop start (data_lines s))) \<and>
    length (rw_rows r) \<le> 1000 \<and> (rw_has_more r \<longleftrightarrow> drop (start + length (rw_rows r)) (data_lines s) \<noteq> []) \<and>
    (\<exists>x. last (st_accesses (pl_store q) (ax_tenant_id access, i)) = x \<and> es_uid x = ax_uid access \<and>
       es_outcome x = ''ok'' \<and> es_kind x = ''rows'')"
proof -
  from assms(2) obtain a k bs s where a:
    "resolve_readable now access i ''rows'' (Some (int start)) (Some (int (clamp_limit limit))) p = (Inr a, q)"
    "artifact_key (ax_tenant_id access) a = Inr k" "get_blob k (pl_blobs q) = Inr bs" "cd_utf8 cd bs = Inr s"
    "rw_total r = length (data_lines s)"
    "rw_rows r = map (row_json (map ec_name (mf_columns (ea_manifest a)))) (take (clamp_limit limit) (drop start (data_lines s)))"
    "rw_has_more r \<longleftrightarrow> start + length (rw_rows r) < length (data_lines s)"
    by (rule get_rows_Inr)
  note rd = resolve_Inr[OF a(1)]
  have "art_ok cd p (ax_tenant_id access) i a" using plane_ok_row[OF reachable_plane_ok[OF assms(1)]] rd by blast
  then have "verify_bytes cd (ea_manifest a) bs = Inr ()"
    using rd a(2,3) by (auto simp: art_ok_def bytes_sealed_def get_blob_def ok_or_eq_Inr)
  then have "int (length bs) = mf_bytes_len (ea_manifest a)" "''sha256:'' @ cd_sha_hex cd bs = mf_artifact_hash (ea_manifest a)"
    by (auto simp: verify_bytes_def Let_def split: if_splits)
  moreover have "clamp_limit limit \<le> 1000" by (simp add: clamp_limit_def MAX_ROW_LIMIT_def)
  moreover have "length (rw_rows r) \<le> clamp_limit limit" using a(6) by simp
  moreover have "rw_has_more r \<longleftrightarrow> drop (start + length (rw_rows r)) (data_lines s) \<noteq> []" using a(7) by (simp add: not_le)
  moreover have "\<exists>x. last (st_accesses (pl_store q) (ax_tenant_id access, i)) = x \<and> es_uid x = ax_uid access \<and>
       es_outcome x = ''ok'' \<and> es_kind x = ''rows''" using rd by fastforce
  ultimately show ?thesis using rd a(4-6) by (intro exI[of _ a] exI[of _ bs] exI[of _ s]) (simp del: char.simps)
qed

section \<open>Refusals\<close>

text \<open>An under-cleared caller is refused everywhere, and can tell a hidden artifact from a
  missing one. For a row of the caller's tenant whose class the caller does not dominate, reading
  the manifest or the rows, uploading under any grant and committing all answer that the evidence
  is forbidden, and change no row and no bytes; for an id without a row, reads and commits answer
  that it was not found.\<close>

theorem under_cleared_refused:
  assumes "arts p (ax_tenant_id access, i) = Some a" "\<not> class_admits (mf_authorization_class (ea_manifest a)) access"
    and "arts p (ax_tenant_id access, j) = None" "start \<le> i64_limit"
  shows "fst (op_get_manifest now access i p) = Inl EvidenceForbidden \<and>
    fst (op_get_rows cd now access i start limit p) = Inl EvidenceForbidden \<and>
    op_put_bytes cd now access i grant_id bs p = (Inl EvidenceForbidden, p) \<and>
    op_commit cd now access i p = (Inl EvidenceForbidden, p) \<and>
    fst (op_get_manifest now access j p) = Inl (Mesh (NotFound ''evidence'' j)) \<and>
    fst (op_get_rows cd now access j start limit p) = Inl (Mesh (NotFound ''evidence'' j)) \<and>
    op_commit cd now access j p = (Inl (Mesh (NotFound ''evidence'' j)), p) \<and>
    arts (snd (op_get_rows cd now access i start limit p)) = arts p \<and>
    pl_blobs (snd (op_get_rows cd now access i start limit p)) = pl_blobs p"
  using assms
  by (simp add: op_get_manifest_def op_get_rows_def op_put_bytes_def op_commit_def resolve_readable_def ev_get_def Let_def
      on_store_def not_less)

section \<open>One artifact per result\<close>

lemma find_known: "plane_ok cd p \<Longrightarrow> keyed p (t, k) = Some i \<Longrightarrow>
    \<exists>a. find_by_domain_key t k (pl_store p) = Some a \<and> ea_evidence_id a = i"
proof -
  assume ok: "plane_ok cd p" and "keyed p (t, k) = Some i"
  with ok obtain a where "arts p (t, i) = Some a" unfolding plane_ok_def by blast
  with plane_ok_row[OF ok this] \<open>keyed p (t, k) = Some i\<close> show ?thesis
    by (simp add: find_by_domain_key_def art_ok_def)
qed

lemma keyed_kept: "plane_ok cd p \<Longrightarrow> plane_ok cd q \<Longrightarrow> rows_kept p q \<Longrightarrow> keyed p (t, k) = Some i \<Longrightarrow> keyed q (t, k) = Some i"
proof -
  assume *: "plane_ok cd p" "plane_ok cd q" "rows_kept p q" "keyed p (t, k) = Some i"
  then obtain a where a: "arts p (t, i) = Some a" "key_of cd a = k" unfolding plane_ok_def by blast
  with *(3) obtain b where b: "arts q (t, i) = Some b" "evolves a b" unfolding rows_kept_def by blast
  with plane_ok_row[OF *(2) b(1)] a(2) evolves_same(1)[OF b(2)] show ?thesis by (simp add: art_ok_def)
qed

lemma seal_keys:
  assumes ok: "plane_ok cd p" and m: "parse_manifest cd raw access = Inr m" and s: "op_seal cd dr access raw b64 p = (Inr r, p')"
  shows "keyed p' (mf_tenant m, domain_key (cd_sha_hex cd) m) = Some (sr_evidence_id r)"
proof (cases "find_by_domain_key (mf_tenant m) (domain_key (cd_sha_hex cd) m) (pl_store p)")
  case (Some a)
  then obtain i where i: "keyed p (mf_tenant m, domain_key (cd_sha_hex cd) m) = Some i" "arts p (mf_tenant m, i) = Some a"
    by (auto simp: find_by_domain_key_def Option.bind_eq_Some_conv)
  with plane_ok_row[OF ok i(2)] m s Some show ?thesis by (auto simp: op_seal_def art_ok_def)
next
  case None
  then have n: "keyed p (mf_tenant m, domain_key (cd_sha_hex cd) m) = None"
    using find_known[OF ok] by (cases "keyed p (mf_tenant m, domain_key (cd_sha_hex cd) m)") fastforce+
  have reg: "st_by_domain_key st (mf_tenant m, domain_key (cd_sha_hex cd) m) = Some (so_evidence_id out)"
    if "ev_register (cd_sha_hex cd) (sealed_artifact dr st0 m) g st1 = Inr (out, st)" "st_by_domain_key st1 = keyed p" for st0 g st1 out st
    using that n by (auto simp: ev_register_def Let_def sealed_artifact_def split: if_splits)
  show ?thesis
  proof (cases b64)
    case None: None
    with s m \<open>find_by_domain_key _ _ _ = None\<close> have "seal_grant cd dr m p = (Inr r, p')" by (simp add: op_seal_def)
    then show ?thesis using reg[OF _ refl]
      by (auto simp: seal_grant_def split: sum.splits prod.splits)
  next
    case (Some b)
    with s m None have "seal_inline cd dr m b p = (Inr r, p')" by (simp add: op_seal_def)
    then show ?thesis using reg
      by (auto simp: seal_inline_def Let_def on_blobs_def split: sum.splits prod.splits if_splits)
  qed
qed

text \<open>Sealing is idempotent. Once a manifest was sealed in a reachable plane, sealing any manifest
  with the same tenant and domain material answers with the same evidence id as not created,
  issues no grant and changes nothing, in every later plane and whatever bytes come with it.\<close>

theorem sealing_idempotent:
  assumes "plane_run cd new_plane p"
    and "arts p (ax_tenant_id access, dr_evidence_id dr) = None" "st_grants (pl_store p) (ax_tenant_id access, dr_grant_id dr) = None"
    and "parse_manifest cd raw access = Inr m" "op_seal cd dr access raw b64 p = (Inr r, p')" "plane_run cd p' q"
    and "parse_manifest cd raw' access' = Inr m'" "mf_tenant m' = mf_tenant m" "domain_material m' = domain_material m"
  shows "\<exists>state. op_seal cd dr' access' raw' b64' q =
    (Inr \<lparr>sr_evidence_id = sr_evidence_id r, sr_evidence_state = state, sr_created = False, sr_grant = None\<rparr>, q)"
proof -
  have ok: "plane_ok cd p" "plane_ok cd p'"
    using reachable_plane_ok[OF assms(1)] step_follows[OF step_seal[OF assms(2,3), of cd raw b64]] assms(5)
    by (simp_all add: follows_def)
  have q: "plane_ok cd q" "rows_kept p' q" using run_follows[OF assms(6) ok(2)] by (simp_all add: follows_def)
  have "domain_key (cd_sha_hex cd) m' = domain_key (cd_sha_hex cd) m" using assms(9) by (simp add: domain_key_def)
  with keyed_kept[OF ok(2) q seal_keys[OF ok(1) assms(4,5)]] assms(8)
  have "keyed q (mf_tenant m', domain_key (cd_sha_hex cd) m') = Some (sr_evidence_id r)" by simp
  from find_known[OF q(1) this] assms(7) show ?thesis by (auto simp: op_seal_def)
qed

text \<open>The separator of the compartments is itself a legal character of a compartment, so the key does
  not determine the class: a principal holding the two compartments dominates one of these
  classes and not the other.\<close>

definition reclassed :: "evidence_manifest \<Rightarrow> string list \<Rightarrow> evidence_manifest" where
  "reclassed m cs = m\<lparr>mf_authorization_class := (mf_authorization_class m)\<lparr>az_compartments := cs\<rparr>\<rparr>"

lemma domain_key_confuses_classes:
  assumes "x \<le> y"
  shows "domain_key sha_hex (reclassed m [x @ unit_separator @ y]) = domain_key sha_hex (reclassed m [x, y]) \<and>
    dominated_by (mf_authorization_class (reclassed m [x, y])) (az_access_level (mf_authorization_class m)) [x, y] False \<and>
    \<not> dominated_by (mf_authorization_class (reclassed m [x @ unit_separator @ y])) (az_access_level (mf_authorization_class m)) [x, y] False"
proof -
  have "x @ unit_separator @ y \<noteq> x" by (simp add: unit_separator_def)
  moreover have "x @ unit_separator @ y \<noteq> y"
  proof
    assume "x @ unit_separator @ y = y"
    then have "length (x @ unit_separator @ y) = length y" by simp
    then show False by (simp add: unit_separator_def)
  qed
  ultimately show ?thesis using assms
    by (auto simp: domain_key_def domain_material_def reclassed_def dominated_by_def)
qed

end
