(* ===== verification/Evidence_Lifecycle.thy ===== *)
theory Evidence_Lifecycle
  imports Evidence_Properties
begin

text \<open>
  Grants and retention of sealed evidence: a grant uploads once, a hold keeps an artifact from
  being purged, and what a sweep that overlaps another call can do. The concrete run at the end
  supplies the witnesses.
\<close>

section \<open>Grants\<close>

definition spent :: "plane \<Rightarrow> string \<times> string \<Rightarrow> bool" where
  "spent p k \<longleftrightarrow> (\<exists>g. st_grants (pl_store p) k = Some g \<and> eg_used_at g \<noteq> None)"

abbreviation grants :: "plane \<Rightarrow> string \<times> string \<Rightarrow> evidence_grant option" where
  "grants p \<equiv> st_grants (pl_store p)"

lemma consume_grants: "consume_grant t i g now st = (x, st') \<Longrightarrow> st_grants st k = Some h \<Longrightarrow> eg_used_at h \<noteq> None \<Longrightarrow>
    st_grants st' k = Some h"
  by (auto simp: consume_grant_def Let_def split: option.splits if_splits)

lemma mark_purged_grants: "mark_purged t i now st = Inr (b, st') \<Longrightarrow> st_grants st' = st_grants st"
  by (auto simp: mark_purged_def split: option.splits if_splits)

lemma purge_item_grants: "grants (snd (purge_item now a np)) = grants (snd np)"
  by (auto simp: purge_item_def on_blobs_def Let_def split: sum.splits dest: mark_purged_grants)

lemma purge_fold_grants: "grants (snd (fold (purge_item now) as np)) = grants (snd np)"
  by (induction as arbitrary: np) (simp_all add: purge_item_grants)

lemma register_grants: "ev_register sha a g st = Inr (out, st') \<Longrightarrow> (\<forall>h. g = Some h \<longrightarrow> k \<noteq> (eg_tenant h, eg_grant_id h)) \<Longrightarrow>
    st_grants st' k = st_grants st k"
  by (auto simp: ev_register_def Let_def split: option.splits if_splits)

lemma seal_inline_grants: "grants (snd (seal_inline cd dr m b p)) = grants p"
proof (cases rule: seal_inline_cases[of cd dr m b p])
  case (stored bs k)
  then show ?thesis
    by (auto simp: Let_def on_blobs_def intro!: ext register_grants[where g = None] split: sum.splits prod.splits)
qed simp

lemma hold_calls_grants: "hold_calls p q \<Longrightarrow> grants q = grants p"
  by (induction rule: hold_calls_induct) (auto simp: op_set_legal_hold_def ev_legal_hold_def split: option.splits)

lemma step_spent: "plane_step cd p q \<Longrightarrow> spent p k \<Longrightarrow> spent q k"
proof (induction rule: plane_step.induct)
  case (step_seal p access dr raw b64)
  then obtain g where g: "grants p k = Some g" "eg_used_at g \<noteq> None" by (auto simp: spent_def)
  have "grants (snd (op_seal cd dr access raw b64 p)) k = Some g"
  proof (cases "parse_manifest cd raw access")
    case (Inl e)
    with g show ?thesis by (simp add: op_seal_def)
  next
    case (Inr m)
    have "k \<noteq> (mf_tenant m, dr_grant_id dr)" using step_seal.hyps(2) g parse_manifest_Inr[OF Inr] by auto
    then have "grants (snd (seal_grant cd dr m p)) k = Some g"
      using g by (auto simp: seal_grant_def issued_grant_def register_grants split: sum.splits prod.splits)
    with Inr g show ?thesis by (auto simp: op_seal_def seal_inline_grants split: option.splits)
  qed
  with g show ?case by (auto simp: spent_def)
next
  case (step_put p now access i grant_id bs)
  then obtain g where g: "grants p k = Some g" "eg_used_at g \<noteq> None" by (auto simp: spent_def)
  have "grants (snd (op_put_bytes cd now access i grant_id bs p)) k = Some g"
    using g consume_grants[OF _ g]
    by (auto simp: op_put_bytes_def Let_def on_blobs_def split: option.splits sum.splits prod.splits)
  with g show ?case by (auto simp: spent_def)
next
  case (step_commit p now access i)
  then show ?case
    by (auto simp: spent_def op_commit_def Let_def ev_commit_def split: option.splits sum.splits prod.splits kernel_error.splits if_splits)
next
  case (step_manifest p now access i)
  then show ?case using resolve_cases[of now access i "''manifest''" None None p]
    by (auto simp: spent_def get_manifest_plane on_store_def)
next
  case (step_rows p now access i start limit)
  obtain f l where "snd (op_get_rows cd now access i start limit p) = p \<or>
      snd (op_get_rows cd now access i start limit p) = snd (resolve_readable now access i ''rows'' f l p)"
    using get_rows_plane by blast
  with step_rows show ?case using resolve_cases[of now access i "''rows''" f l p]
    by (auto simp: spent_def on_store_def)
next
  case (step_sweep p order now limit)
  then show ?case by (simp add: spent_def purge_once_def purge_fold_grants)
next
  case (step_purge others p now t i)
  have "grants (snd (op_purge now others t i p)) = grants p"
    by (auto simp: op_purge_def on_blobs_def Let_def hold_calls_grants[OF step_purge.hyps]
        split: option.splits sum.splits prod.splits dest!: mark_purged_grants)
  with step_purge show ?case by (simp add: spent_def)
next
  case (step_hold p t i hold)
  then show ?case by (auto simp: spent_def op_set_legal_hold_def ev_legal_hold_def split: option.splits)
next
  case (step_document p t path h bs)
  then show ?case by (auto simp: spent_def put_document_def on_blobs_def split: sum.splits)
qed

lemma run_spent: "plane_run cd p q \<Longrightarrow> spent p k \<Longrightarrow> spent q k"
  by (induction rule: rtranclp_induct) (auto intro: step_spent)

text \<open>C21. An upload grant is spent once. After an upload under a grant succeeded, no upload under
  that grant of that tenant succeeds in any later plane: not for the same artifact or another,
  not by the same principal or another, and not for the same bytes. An upload whose bytes are not
  the declared ones is refused and leaves the grant as it was.\<close>

theorem grant_spent_once:
  assumes "plane_run cd new_plane p" "op_put_bytes cd now access i grant_id bs p = (Inr (), p')" "plane_run cd p' q"
  shows "(\<forall>now' access' j bs'. ax_tenant_id access' = ax_tenant_id access \<longrightarrow>
      fst (op_put_bytes cd now' access' j grant_id bs' q) \<noteq> Inr ()) \<and>
    (\<forall>bs' a e. arts p (ax_tenant_id access, i) = Some a \<longrightarrow> verify_bytes cd (ea_manifest a) bs' = Inl e \<longrightarrow>
      snd (op_put_bytes cd now access i grant_id bs' p) = p)"
proof
  have "spent p' (ax_tenant_id access, grant_id)"
    using assms(2)
    by (auto simp: op_put_bytes_def Let_def consume_grant_def on_blobs_def spent_def
        split: option.splits sum.splits prod.splits if_splits)
  from run_spent[OF assms(3) this] obtain g where
    g: "grants q (ax_tenant_id access, grant_id) = Some g" "eg_used_at g \<noteq> None" by (auto simp: spent_def)
  then have none: "consume_grant (ax_tenant_id access) j grant_id now' (pl_store q) = (None, pl_store q)" for j now'
    by (simp add: consume_grant_def)
  show "\<forall>now' access' j bs'. ax_tenant_id access' = ax_tenant_id access \<longrightarrow>
      fst (op_put_bytes cd now' access' j grant_id bs' q) \<noteq> Inr ()"
    by (auto simp: op_put_bytes_def Let_def none split: option.splits sum.splits)
  show "\<forall>bs' a e. arts p (ax_tenant_id access, i) = Some a \<longrightarrow> verify_bytes cd (ea_manifest a) bs' = Inl e \<longrightarrow>
      snd (op_put_bytes cd now access i grant_id bs' p) = p"
    by (auto simp: op_put_bytes_def Let_def ev_get_def)
qed

section \<open>Holds and sweeps\<close>

definition held :: "evidence_artifact \<Rightarrow> bool" where
  "held a \<longleftrightarrow> (\<exists>r. mf_retention (ea_manifest a) = Some r \<and> rt_legal_hold r)"

lemma mark_purged_other: "mark_purged t i now st = Inr (b, st') \<Longrightarrow> (t', i') \<noteq> (t, i) \<Longrightarrow>
    st_artifacts st' (t', i') = st_artifacts st (t', i')"
  by (auto simp: mark_purged_def split: option.splits if_splits)

lemma purge_item_other: "(t, i) \<noteq> (ea_tenant a, ea_evidence_id a) \<Longrightarrow> arts (snd (purge_item now a np)) (t, i) = arts (snd np) (t, i)"
  by (auto simp: purge_item_def on_blobs_def Let_def split: sum.splits dest: mark_purged_other)

lemma purge_fold_other: "\<forall>a \<in> set as. (t, i) \<noteq> (ea_tenant a, ea_evidence_id a) \<Longrightarrow>
    arts (snd (fold (purge_item now) as np)) (t, i) = arts (snd np) (t, i)"
  by (induction as arbitrary: np) (simp_all add: purge_item_other)

lemma not_due: "plane_ok cd p \<Longrightarrow> arts p (t, i) = Some a \<Longrightarrow> \<not> is_due now a \<Longrightarrow> x \<in> set (purge_due order now limit (pl_store p)) \<Longrightarrow>
    (t, i) \<noteq> (ea_tenant x, ea_evidence_id x)"
  using due_listed[of cd p x order now limit] by auto

text \<open>Another task that places a hold at the given await of an operator's purge.\<close>

definition hold_placed_at :: "nat \<Rightarrow> string \<Rightarrow> string \<Rightarrow> nat \<Rightarrow> plane \<Rightarrow> plane" where
  "hold_placed_at n t i = (\<lambda>k p. if k = n then snd (op_set_legal_hold t i True p) else p)"

lemma hold_placed_at_calls: "hold_calls x (hold_placed_at n t i k x)"
  by (simp add: hold_placed_at_def hold_calls_once)

lemma hold_during_purge:
  assumes a: "arts p (t, i) = Some a" "\<not> held a" "ea_state a \<noteq> EvPurged" and k: "artifact_key t a = Inr k" and n: "n < 2"
  shows "fst (op_purge now (hold_placed_at n t i) t i p) = Inr True \<and>
    (\<exists>b. arts (snd (op_purge now (hold_placed_at n t i) t i p)) (t, i) = Some b \<and> held b \<and> ea_state b = EvPurged) \<and>
    pl_blobs (snd (op_purge now (hold_placed_at n t i) t i p)) (blob_name k) = None"
proof -
  have h: "\<not> (case mf_retention (ea_manifest a) of None \<Rightarrow> False | Some r \<Rightarrow> rt_legal_hold r)"
    using a(2) by (auto simp: held_def split: option.splits)
  have "n = 0 \<or> n = 1" using n by auto
  then show ?thesis
    using a h k by (elim disjE) (simp_all add: op_purge_def ev_get_def hold_placed_at_def op_set_legal_hold_def ev_legal_hold_def on_blobs_def
        delete_blob_def mark_purged_def with_retention_def held_def retention_of_def Let_def)
qed

text \<open>C22. A legal hold blocks deletion when it is in place at the moment the deletion looks, and only then.
  In a reachable plane, the operator's purge of an artifact whose row it reads on hold is refused
  without a change, whatever other tasks do, and a whole sweep that starts then leaves the row as it is
  and its sealed bytes in place. But the purge reads the row once: a hold placed while the purge waits
  to delete the bytes, or to mark the row, is acknowledged and yet the purge answers success,
  the bytes are gone and the held row is marked purged. And a sweep reads the list of due artifacts
  once: for an artifact on that list, a hold placed before the sweep reaches it does not stop the
  sweep from deleting the bytes and marking the held row as purged.\<close>

theorem hold_blocks_purge:
  assumes "plane_run cd new_plane p" "arts p (t, i) = Some a"
  shows "(held a \<longrightarrow> op_purge now others t i p = (Inl (EvidenceOnHold i), p) \<and>
      arts (snd (purge_once order now limit p)) (t, i) = Some a \<and>
      (ea_state a = EvCommitted \<longrightarrow> bytes_sealed cd (snd (purge_once order now limit p)) a)) \<and>
    (\<not> held a \<longrightarrow> ea_state a \<noteq> EvPurged \<longrightarrow> (\<forall>k n. artifact_key t a = Inr k \<longrightarrow> n < 2 \<longrightarrow>
      (let r = snd (op_purge now (hold_placed_at n t i) t i p) in
        fst (op_purge now (hold_placed_at n t i) t i p) = Inr True \<and>
        (\<exists>b. arts r (t, i) = Some b \<and> held b \<and> ea_state b = EvPurged) \<and> pl_blobs r (blob_name k) = None))) \<and>
    (a \<in> set (purge_due order now limit (pl_store p)) \<longrightarrow>
      (\<forall>n. let q = snd (op_set_legal_hold t i True p); r = snd (purge_item now a (n, q)) in
        (\<exists>b. arts q (t, i) = Some b \<and> held b) \<and>
        (\<exists>b. arts r (t, i) = Some b \<and> held b \<and> ea_state b = EvPurged) \<and>
        (\<exists>k. artifact_key t a = Inr k \<and> pl_blobs r (blob_name k) = None)))"
proof (intro conjI impI allI)
  note ok = reachable_plane_ok[OF assms(1)] and row = plane_ok_row[OF reachable_plane_ok[OF assms(1)] assms(2)]
  assume h: "held a"
  then show "op_purge now others t i p = (Inl (EvidenceOnHold i), p)"
    using assms(2) by (auto simp: op_purge_def ev_get_def held_def)
  have "\<not> is_due now a" using h by (auto simp: is_due_def held_def)
  then have keep: "arts (snd (purge_once order now limit p)) (t, i) = Some a"
    using not_due[OF ok assms(2)] purge_fold_other[of "purge_due order now limit (pl_store p)" t i now "(0, p)"] assms(2)
    by (auto simp: purge_once_def)
  then show "arts (snd (purge_once order now limit p)) (t, i) = Some a" .
  assume "ea_state a = EvCommitted"
  with plane_ok_row[of cd "snd (purge_once order now limit p)", OF _ keep] purge_once_follows[OF ok]
  show "bytes_sealed cd (snd (purge_once order now limit p)) a" by (simp add: art_ok_def follows_def)
next
  fix k and n :: nat assume "\<not> held a" "ea_state a \<noteq> EvPurged" "artifact_key t a = Inr k" "n < 2"
  from hold_during_purge[OF assms(2) this, of now]
  show "let r = snd (op_purge now (hold_placed_at n t i) t i p) in
      fst (op_purge now (hold_placed_at n t i) t i p) = Inr True \<and>
      (\<exists>b. arts r (t, i) = Some b \<and> held b \<and> ea_state b = EvPurged) \<and> pl_blobs r (blob_name k) = None" by (simp add: Let_def)
next
  note ok = reachable_plane_ok[OF assms(1)] and row = plane_ok_row[OF reachable_plane_ok[OF assms(1)] assms(2)]
  fix n assume "a \<in> set (purge_due order now limit (pl_store p))"
  then have due: "is_due now a" using due_listed[OF ok] by blast
  have ids: "ea_tenant a = t" "ea_evidence_id a = i" using row by (simp_all add: art_ok_def)
  obtain k where k: "artifact_key t a = Inr k" using row due by (auto simp: art_ok_def is_due_def bytes_sealed_def)
  define b where "b = with_retention ((retention_of a)\<lparr>rt_legal_hold := True\<rparr>) a"
  have q: "snd (op_set_legal_hold t i True p) = p\<lparr>pl_store := (pl_store p)\<lparr>st_artifacts := (arts p)((t, i) \<mapsto> b)\<rparr>\<rparr>"
    using assms(2) by (simp add: op_set_legal_hold_def ev_legal_hold_def b_def)
  have "ea_state b \<noteq> EvPurged" using due by (simp add: b_def with_retention_def is_due_def)
  then show "let q = snd (op_set_legal_hold t i True p); r = snd (purge_item now a (n, q)) in
        (\<exists>b. arts q (t, i) = Some b \<and> held b) \<and>
        (\<exists>b. arts r (t, i) = Some b \<and> held b \<and> ea_state b = EvPurged) \<and>
        (\<exists>k. artifact_key t a = Inr k \<and> pl_blobs r (blob_name k) = None)"
    using k unfolding q Let_def
    by (simp add: purge_item_def ids on_blobs_def delete_blob_def mark_purged_def with_retention_def held_def retention_of_def b_def)
qed

text \<open>Bytes can come back to a purged artifact: a purged pending row still accepts an upload under its
  grant, after which no purge deletes them.\<close>

lemma purged_row_accepts_upload:
  assumes "plane_run cd new_plane p" "arts p (t, i) = Some a" "ea_state a = EvPurged" "\<not> held a"
    and "grants p (t, g) = Some gr" "eg_evidence_id gr = i" "eg_used_at gr = None" "\<not> eg_expires_at gr \<le> now"
    and "ax_tenant_id access = t" "class_admits (mf_authorization_class (ea_manifest a)) access"
    and "verify_bytes cd (ea_manifest a) bs = Inr ()" "artifact_key t a = Inr k"
  shows "let q = snd (op_put_bytes cd now access i g bs p) in
    fst (op_put_bytes cd now access i g bs p) = Inr () \<and> pl_blobs q (blob_name k) = Some bs \<and>
    op_purge now' others t i q = (Inr False, q) \<and> a \<notin> set (purge_due order now' limit (pl_store q))"
proof -
  have q: "op_put_bytes cd now access i g bs p = (Inr (), on_blobs (\<lambda>b. snd (put_blob k bs b))
      (p\<lparr>pl_store := (pl_store p)\<lparr>st_grants := (grants p)((t, g) \<mapsto> gr\<lparr>eg_used_at := Some now\<rparr>)\<rparr>\<rparr>))"
    using assms(2-12) by (simp add: op_put_bytes_def ev_get_def consume_grant_def Let_def)
  have "is_due now' a = False" using assms(3) by (simp add: is_due_def)
  then show ?thesis unfolding q using assms(2,3,4)
    by (auto simp: on_blobs_def op_purge_def ev_get_def held_def purge_due_def Let_def split: option.splits dest!: in_set_takeD)
qed

section \<open>The row form\<close>

definition csv_quoted :: "string \<Rightarrow> string" where
  "csv_quoted s = [CHR 0x22] @ concat (map (\<lambda>c. if c = CHR 0x22 then [CHR 0x22, CHR 0x22] else [c]) s) @ [CHR 0x22]"

text \<open>A cell is written quoted, or as it is when it holds neither a quote nor a comma.\<close>

definition csv_form :: "string \<Rightarrow> string \<Rightarrow> bool" where
  "csv_form s w \<longleftrightarrow> w = csv_quoted s \<or> w = s \<and> CHR 0x22 \<notin> set s \<and> CHR '','' \<notin> set s"

lemma scan_quoted: "rest = [] \<or> hd rest \<noteq> CHR 0x22 \<Longrightarrow>
    csv_scan (concat (map (\<lambda>c. if c = CHR 0x22 then [CHR 0x22, CHR 0x22] else [c]) s) @ CHR 0x22 # rest) True cur =
    csv_scan rest False (cur @ s)"
proof (induction s arbitrary: cur)
  case Nil
  then show ?case by (cases rest) auto
next
  case (Cons c s)
  then show ?case using Cons.IH[of "cur @ [c]"] by simp
qed

lemma scan_plain: "CHR 0x22 \<notin> set s \<Longrightarrow> CHR '','' \<notin> set s \<Longrightarrow> csv_scan (s @ rest) False cur = csv_scan rest False (cur @ s)"
proof (induction s arbitrary: cur)
  case (Cons c s)
  then show ?case using Cons.IH[of "cur @ [c]"] by auto
qed simp

lemma scan_form: "csv_form s w \<Longrightarrow> rest = [] \<or> hd rest = CHR '','' \<Longrightarrow> csv_scan (w @ rest) False [] = csv_scan rest False s"
  unfolding csv_form_def using scan_quoted[of rest s "[]"] scan_plain[of s rest "[]"]
  by (auto simp: csv_quoted_def)

text \<open>Rows read back as they were written. Whatever cells a row has, if every cell is written quoted
  with its quotes doubled, or plainly when it holds no quote and no comma, and the cells are
  joined by commas, splitting the row gives exactly those cells.\<close>

theorem csv_cells_roundtrip:
  assumes "list_all2 csv_form cells ws" "cells \<noteq> []"
  shows "split_csv_row (join '','' ws) = cells"
  using assms
proof (induction cells ws rule: list_all2_induct)
  case (Cons s cells w ws)
  show ?case
  proof (cases ws)
    case Nil
    with Cons scan_form[of s w "[]"] show ?thesis by (simp add: split_csv_row_def)
  next
    case (Cons v vs)
    with Cons.IH Cons.hyps have "split_csv_row (join '','' ws) = cells" by (cases cells) simp_all
    with Cons scan_form[OF Cons.hyps(1), of "CHR '','' # join '','' ws"] show ?thesis by (simp add: split_csv_row_def)
  qed
qed simp

lemma csv_cells_roundtrip_witness: "split_csv_row (join '','' [csv_quoted ''Acme, Inc'', ''EMEA'']) = [''Acme, Inc'', ''EMEA'']"
  by (rule csv_cells_roundtrip) (simp_all add: csv_form_def)

end
