(* ===== verification/Evidence_Run.thy ===== *)
theory Evidence_Run
  imports Evidence_Lifecycle
begin

text \<open>
  A concrete run of the evidence plane: an artifact is sealed under a grant, uploaded and
  committed, and read. It shows that the hypotheses of the properties hold of real runs.
\<close>

definition demo_hash :: string where
  "demo_hash = replicate 64 CHR ''0''"

definition demo_manifest :: evidence_manifest where
  "demo_manifest = \<lparr>mf_contract_version = ''0.1.0'', mf_canon = ''canon@1'', mf_evidence_id = None, mf_tenant = ''demo'',
     mf_kind = TableEvidence, mf_logical_result_hash = ''sha256:'' @ demo_hash, mf_artifact_hash = ''sha256:'' @ demo_hash,
     mf_bytes_len = 3, mf_media_type = MEDIA_TYPE_CSV,
     mf_source = \<lparr>sf_source_id = ''s'', sf_source_version = 1, sf_adapter = ''postgres'', sf_adapter_version = None,
       sf_engine = None, sf_driver = None\<rparr>,
     mf_versions = \<lparr>vs_query_contract = None, vs_claim_mapping = None, vs_semantic_provider = None, vs_render = None,
       vs_policy = None, vs_compiler = None\<rparr>,
     mf_plan = None,
     mf_columns = [\<lparr>ec_id = ''c'', ec_name = ''region'', ec_ty = ColString, ec_nullable = False, ec_scale = None, ec_unit = None,
       ec_additivity = None, ec_key = True, ec_element_type = None\<rparr>],
     mf_identity = \<lparr>ei_row_id_rule = Keys, ei_order_by = [], ei_rows = None\<rparr>,
     mf_completeness = \<lparr>cp_truncated = False, cp_declared_max_rows = None, cp_rows_covered = None, cp_rows_excluded = None,
       cp_exclusion_reason = None\<rparr>,
     mf_redaction = None,
     mf_snapshot_vector = [\<lparr>sm_source_id = ''s'', sm_marker = None, sm_isolation = None, sm_started_at = None,
       sm_ended_at = None, sm_replay_level = ''none'', sm_replay_expires_at = None\<rparr>],
     mf_freshness = None,
     mf_execution = \<lparr>en_started_at = [], en_ended_at = [], en_effective_principal = None, en_statement_id = None\<rparr>,
     mf_authorization_class = \<lparr>az_name = None, az_access_level = 2, az_compartments = [''deal'']\<rparr>,
     mf_retention = Some \<lparr>rt_expires_at = Some ''5'', rt_legal_hold = False, rt_purged_at = None\<rparr>\<rparr>"

definition demo_codecs :: codecs where
  "demo_codecs = \<lparr>cd_manifest = \<lambda>_. Inr demo_manifest, cd_base64 = Inr, cd_utf8 = Inr, cd_rfc3339 = \<lambda>_. True,
     cd_sha_hex = \<lambda>_. demo_hash\<rparr>"

definition demo_draw :: draw where
  "demo_draw = \<lparr>dr_now = ''1'', dr_evidence_id = ''ev-1'', dr_grant_id = ''gr-1'', dr_grant_expires = ''9''\<rparr>"

definition demo_access :: access_ctx where
  "demo_access = unrestricted_ctx ''u'' ''demo''"

definition low_access :: access_ctx where
  "low_access = (unrestricted_ctx ''v'' ''demo'')\<lparr>ax_level := 1\<rparr>"

definition demo_bytes :: bytes where
  "demo_bytes = [CHR ''h'', CHR 0x0A, CHR ''x'']"

definition demo_sealed :: plane where
  "demo_sealed = snd (op_seal demo_codecs demo_draw demo_access JNull None new_plane)"

definition demo_uploaded :: plane where
  "demo_uploaded = snd (op_put_bytes demo_codecs ''2'' demo_access ''ev-1'' ''gr-1'' demo_bytes demo_sealed)"

definition demo_committed :: plane where
  "demo_committed = snd (op_commit demo_codecs ''3'' demo_access ''ev-1'' demo_uploaded)"

definition demo_artifact :: "evidence_state \<Rightarrow> evidence_artifact" where
  "demo_artifact st = \<lparr>ea_evidence_id = ''ev-1'', ea_tenant = ''demo'', ea_state = st, ea_manifest = demo_manifest,
     ea_blob_path = ''evidence/ev-1'', ea_created_at = ''1'',
     ea_committed_at = (if st = EvCommitted then Some ''3'' else None)\<rparr>"

lemma demo_hash_ok: "is_hash (''sha256:'' @ demo_hash)"
  by code_simp

lemma demo_major: "major_of CONTRACT_VERSION = ''0''" "major_of ''0.1.0'' = ''0''"
  by code_simp+

lemma demo_valid: "validate_manifest (\<lambda>_. True) demo_manifest = Inr ()"
  by (simp add: validate_manifest_def demo_manifest_def demo_hash_ok[simplified] demo_major MAX_ARTIFACT_BYTES_def
      check_retention_def check_retention_field_def check_row_ids_def trim_def is_ws_def)

lemma demo_parse: "parse_manifest demo_codecs JNull demo_access = Inr demo_manifest"
proof -
  have "demo_manifest\<lparr>mf_evidence_id := None\<rparr> = demo_manifest" "mf_tenant demo_manifest = ''demo''"
    by (simp_all add: demo_manifest_def)
  moreover have "class_admits (mf_authorization_class demo_manifest) demo_access"
    by (simp add: demo_manifest_def demo_access_def class_admits_def dominated_by_def unrestricted_ctx_def max_level_def)
  ultimately show ?thesis
    by (simp add: parse_manifest_def demo_codecs_def demo_valid mesh_def demo_access_def unrestricted_ctx_def)
qed

lemma demo_fields: "mf_tenant demo_manifest = ''demo''" "mf_bytes_len demo_manifest = 3"
    "mf_artifact_hash demo_manifest = ''sha256:'' @ demo_hash" "mf_media_type demo_manifest = MEDIA_TYPE_CSV"
    "mf_authorization_class demo_manifest = \<lparr>az_name = None, az_access_level = 2, az_compartments = [''deal'']\<rparr>"
    "mf_retention demo_manifest = Some \<lparr>rt_expires_at = Some ''5'', rt_legal_hold = False, rt_purged_at = None\<rparr>"
    "map ec_name (mf_columns demo_manifest) = [''region'']"
  by (simp_all add: demo_manifest_def)

lemma demo_ids: "ax_tenant_id demo_access = ''demo''" "ax_tenant_id low_access = ''demo''" "ax_uid demo_access = ''u''"
    "dr_evidence_id demo_draw = ''ev-1''" "dr_grant_id demo_draw = ''gr-1''" "cd_sha_hex demo_codecs bs = demo_hash"
    "cd_utf8 demo_codecs bs = Inr bs" "dr_now demo_draw = ''1''" "dr_grant_expires demo_draw = ''9''"
    "cd_base64 demo_codecs bs = Inr bs"
  by (simp_all add: demo_access_def low_access_def unrestricted_ctx_def demo_draw_def demo_codecs_def)

lemma demo_clears: "class_admits (mf_authorization_class demo_manifest) demo_access"
    "\<not> class_admits (mf_authorization_class demo_manifest) low_access"
  by (simp_all add: demo_fields demo_access_def low_access_def class_admits_def dominated_by_def unrestricted_ctx_def max_level_def)

definition demo_grant :: evidence_grant where
  "demo_grant = \<lparr>eg_grant_id = ''gr-1'', eg_evidence_id = ''ev-1'', eg_tenant = ''demo'', eg_expires_at = ''9'', eg_used_at = None\<rparr>"

definition demo_key :: source_key where
  "demo_key = \<lparr>sk_tenant = ''demo'', sk_path = ''evidence/ev-1'', sk_content_hash = demo_hash\<rparr>"

lemma demo_path: "validate_path ''evidence/ev-1'' = Inr ()"
  by code_simp

lemma demo_artifact_key: "artifact_key ''demo'' (demo_artifact st) = Inr demo_key"
  by (simp add: artifact_key_def demo_artifact_def new_source_key_def demo_path mesh_def demo_fields demo_key_def trim_hash_def
      starts_with_def)

lemma demo_verified: "verify_bytes demo_codecs demo_manifest demo_bytes = Inr ()"
  by (simp add: verify_bytes_def demo_fields demo_ids demo_bytes_def)

lemma demo_seal: "op_seal demo_codecs demo_draw demo_access JNull None new_plane =
    (Inr \<lparr>sr_evidence_id = ''ev-1'', sr_evidence_state = ''pending'', sr_created = True, sr_grant = Some (''gr-1'', ''9'')\<rparr>, demo_sealed)"
  unfolding demo_sealed_def
  by (simp add: op_seal_def demo_parse find_by_domain_key_def new_plane_def new_evidence_store_def seal_grant_def ev_register_def
      sealed_artifact_def issued_grant_def demo_ids)

lemma demo_sealed_simps:
  "arts demo_sealed = [(''demo'', ''ev-1'') \<mapsto> demo_artifact EvPending]" "grants demo_sealed = [(''demo'', ''gr-1'') \<mapsto> demo_grant]"
  unfolding demo_sealed_def
  by (simp_all add: op_seal_def demo_parse find_by_domain_key_def new_plane_def new_evidence_store_def seal_grant_def ev_register_def
      sealed_artifact_def issued_grant_def demo_ids demo_fields demo_artifact_def demo_grant_def evidence_blob_path_def EVIDENCE_PATH_PREFIX_def)

lemma demo_put:
  "op_put_bytes demo_codecs ''2'' demo_access ''ev-1'' ''gr-1'' demo_bytes demo_sealed = (Inr (), demo_uploaded)"
  "arts demo_uploaded = arts demo_sealed" "pl_blobs demo_uploaded (blob_name demo_key) = Some demo_bytes"
proof -
  have m: "ea_manifest (demo_artifact EvPending) = demo_manifest" by (simp add: demo_artifact_def)
  have "\<not> eg_expires_at demo_grant \<le> ''2''" by (simp add: demo_grant_def less_eq_char_def of_char_def)
  then have c: "consume_grant ''demo'' ''ev-1'' ''gr-1'' ''2'' (pl_store demo_sealed) = (Some (demo_grant\<lparr>eg_used_at := Some ''2''\<rparr>),
      (pl_store demo_sealed)\<lparr>st_grants := (grants demo_sealed)((''demo'', ''gr-1'') \<mapsto> demo_grant\<lparr>eg_used_at := Some ''2''\<rparr>)\<rparr>)"
    by (simp add: consume_grant_def demo_sealed_simps demo_grant_def Let_def)
  show "op_put_bytes demo_codecs ''2'' demo_access ''ev-1'' ''gr-1'' demo_bytes demo_sealed = (Inr (), demo_uploaded)"
    "arts demo_uploaded = arts demo_sealed" "pl_blobs demo_uploaded (blob_name demo_key) = Some demo_bytes"
    unfolding demo_uploaded_def
    by (simp_all add: op_put_bytes_def demo_ids ev_get_def demo_sealed_simps m demo_clears demo_verified c demo_artifact_key on_blobs_def)
qed

lemma demo_commit:
  "op_commit demo_codecs ''3'' demo_access ''ev-1'' demo_uploaded = (Inr True, demo_committed)"
  "arts demo_committed = [(''demo'', ''ev-1'') \<mapsto> demo_artifact EvCommitted]" "pl_blobs demo_committed = pl_blobs demo_uploaded"
proof -
  have m: "ea_manifest (demo_artifact EvPending) = demo_manifest" by (simp add: demo_artifact_def)
  have g: "get_blob demo_key (pl_blobs demo_uploaded) = Inr demo_bytes" using demo_put(3) by (simp add: get_blob_def)
  show "op_commit demo_codecs ''3'' demo_access ''ev-1'' demo_uploaded = (Inr True, demo_committed)"
    "arts demo_committed = [(''demo'', ''ev-1'') \<mapsto> demo_artifact EvCommitted]" "pl_blobs demo_committed = pl_blobs demo_uploaded"
    unfolding demo_committed_def
    by (simp_all add: op_commit_def demo_ids ev_get_def demo_put(2) demo_sealed_simps m demo_clears demo_artifact_key g demo_verified
        ev_commit_def) (simp_all add: demo_artifact_def)
qed

section \<open>The run is reachable\<close>

lemma demo_run: "plane_run demo_codecs new_plane demo_sealed" "plane_run demo_codecs demo_sealed demo_uploaded"
    "plane_run demo_codecs demo_uploaded demo_committed"
proof -
  have "plane_step demo_codecs new_plane demo_sealed"
    unfolding demo_sealed_def by (rule step_seal) (simp_all add: new_plane_def new_evidence_store_def)
  then show "plane_run demo_codecs new_plane demo_sealed" ..
  show "plane_run demo_codecs demo_sealed demo_uploaded" unfolding demo_uploaded_def by (rule r_into_rtranclp, rule step_put)
  show "plane_run demo_codecs demo_uploaded demo_committed" unfolding demo_committed_def by (rule r_into_rtranclp, rule step_commit)
qed

lemma demo_reaches: "plane_run demo_codecs new_plane demo_committed" "plane_run demo_codecs demo_sealed demo_committed"
  using demo_run by (meson rtranclp_trans)+

section \<open>Witnesses\<close>

lemma evidence_rows_survive_witness:
  "(\<exists>b. arts demo_committed (''demo'', ''ev-1'') = Some b \<and> evolves (demo_artifact EvPending) b) \<and>
   fst (resolve_readable ''4'' demo_access ''ev-1'' ''manifest'' None None demo_committed) \<noteq> Inl (Mesh (NotFound ''evidence'' ''ev-1''))"
  using evidence_rows_survive[OF demo_run(1) demo_reaches(2), of "''demo''" "''ev-1''" "demo_artifact EvPending"] demo_ids(1)
  by (simp add: demo_sealed_simps)

lemma demo_resolve: "resolve_readable now demo_access ''ev-1'' kind f l demo_committed = (Inr (demo_artifact EvCommitted),
    snd (resolve_readable now demo_access ''ev-1'' kind f l demo_committed))"
proof -
  have "ea_manifest (demo_artifact EvCommitted) = demo_manifest" "ea_state (demo_artifact EvCommitted) = EvCommitted"
    by (simp_all add: demo_artifact_def)
  then show ?thesis by (simp add: resolve_readable_def demo_ids ev_get_def demo_commit(2) demo_clears)
qed

lemma demo_data_lines: "data_lines demo_bytes = [''x'']"
  by code_simp

lemma demo_window: "fst (op_get_rows demo_codecs ''4'' demo_access ''ev-1'' 0 10 demo_committed) =
    Inr \<lparr>rw_evidence_id = ''ev-1'', rw_from = 0, rw_has_more = False, rw_rows = [row_json [''region''] ''x''], rw_total = 1\<rparr>"
proof -
  let ?q = "snd (resolve_readable ''4'' demo_access ''ev-1'' ''rows'' (Some 0) (Some 10) demo_committed)"
  have m: "ea_manifest (demo_artifact EvCommitted) = demo_manifest" "ea_evidence_id (demo_artifact EvCommitted) = ''ev-1''"
    by (simp_all add: demo_artifact_def)
  have "pl_blobs ?q = pl_blobs demo_uploaded" using resolve_cases[of "''4''" demo_access "''ev-1''" "''rows''" "Some 0" "Some 10" demo_committed]
    by (auto simp: on_store_def demo_commit(3))
  then have g: "get_blob demo_key (pl_blobs ?q) = Inr demo_bytes" using demo_put(3) by (simp add: get_blob_def)
  obtain q where q: "resolve_readable ''4'' demo_access ''ev-1'' ''rows'' (Some 0) (Some 10) demo_committed = (Inr (demo_artifact EvCommitted), q)"
    using demo_resolve by blast
  with g have "get_blob demo_key (pl_blobs q) = Inr demo_bytes" by simp
  then show ?thesis using q
    by (simp add: op_get_rows_def clamp_limit_def MAX_ROW_LIMIT_def i64_limit_def m demo_fields demo_ids demo_artifact_key mesh_def
        demo_data_lines)
qed

lemma rows_serve_the_seal_witness:
  "\<exists>a. arts demo_committed (''demo'', ''ev-1'') = Some a \<and> ea_state a = EvCommitted \<and>
     class_admits (mf_authorization_class (ea_manifest a)) demo_access"
proof -
  obtain q where "op_get_rows demo_codecs ''4'' demo_access ''ev-1'' 0 10 demo_committed =
      (Inr \<lparr>rw_evidence_id = ''ev-1'', rw_from = 0, rw_has_more = False, rw_rows = [row_json [''region''] ''x''], rw_total = 1\<rparr>, q)"
    using demo_window by (metis prod.collapse)
  from rows_serve_the_seal[OF demo_reaches(1) this] show ?thesis
    unfolding demo_ids(1) by (elim exE conjE) (intro exI conjI, assumption+)
qed

lemma under_cleared_refused_witness:
  "fst (op_get_manifest ''4'' low_access ''ev-1'' demo_committed) = Inl EvidenceForbidden \<and>
   fst (op_get_manifest ''4'' low_access ''ev-2'' demo_committed) = Inl (Mesh (NotFound ''evidence'' ''ev-2''))"
proof -
  have "arts demo_committed (ax_tenant_id low_access, ''ev-1'') = Some (demo_artifact EvCommitted)"
    "arts demo_committed (ax_tenant_id low_access, ''ev-2'') = None"
    "\<not> class_admits (mf_authorization_class (ea_manifest (demo_artifact EvCommitted))) low_access" "(0::nat) \<le> i64_limit"
    using demo_clears(2) by (simp_all add: demo_ids demo_commit(2) demo_artifact_def)
  from under_cleared_refused[OF this(1,3,2,4)] show ?thesis by blast
qed

lemma sealing_idempotent_witness:
  "\<exists>state. op_seal demo_codecs demo_draw demo_access JNull None demo_committed =
    (Inr \<lparr>sr_evidence_id = ''ev-1'', sr_evidence_state = state, sr_created = False, sr_grant = None\<rparr>, demo_committed)"
  using sealing_idempotent[of demo_codecs new_plane demo_access demo_draw JNull demo_manifest None _ demo_sealed demo_committed
      JNull demo_access demo_manifest demo_draw None, OF rtranclp.rtrancl_refl _ _ demo_parse demo_seal demo_reaches(2) demo_parse]
  by (simp add: new_plane_def new_evidence_store_def)

lemma grant_spent_once_witness:
  "fst (op_put_bytes demo_codecs ''4'' demo_access ''ev-1'' ''gr-1'' demo_bytes demo_committed) \<noteq> Inr ()"
  using grant_spent_once[OF demo_run(1) demo_put(1) demo_run(3)] by blast

text \<open>The committed artifact is due: a hold that comes during the operator's purge, or after the sweep listed it.\<close>

lemma hold_blocks_purge_witness:
  "\<exists>k. artifact_key ''demo'' (demo_artifact EvCommitted) = Inr k \<and>
     pl_blobs (snd (op_purge ''6'' (hold_placed_at 0 ''demo'' ''ev-1'') ''demo'' ''ev-1'' demo_committed)) (blob_name k) = None \<and>
     pl_blobs (snd (purge_item ''6'' (demo_artifact EvCommitted)
       (0, snd (op_set_legal_hold ''demo'' ''ev-1'' True demo_committed)))) (blob_name k) = None"
proof -
  have "\<not> ''6'' < ''5''" by (simp add: less_eq_char_def less_char_def of_char_def)
  then have "is_due ''6'' (demo_artifact EvCommitted)"
    by (simp add: is_due_def demo_artifact_def demo_fields less_eq_char_def of_char_def)
  then have d: "demo_artifact EvCommitted \<in> set (purge_due [(''demo'', ''ev-1'')] ''6'' 1 (pl_store demo_committed))"
    by (simp add: purge_due_def demo_commit(2) insort_key_def)
  have h: "\<not> held (demo_artifact EvCommitted)" "ea_state (demo_artifact EvCommitted) \<noteq> EvPurged"
    by (simp_all add: held_def demo_artifact_def demo_fields)
  have row: "arts demo_committed (''demo'', ''ev-1'') = Some (demo_artifact EvCommitted)" by (simp add: demo_commit(2))
  note t = hold_blocks_purge[OF demo_reaches(1), of "''demo''" "''ev-1''" "demo_artifact EvCommitted" "''6''" "\<lambda>_ x. x" "[(''demo'', ''ev-1'')]" 1,
      OF row]
  from t[THEN conjunct2, THEN conjunct2, rule_format, OF d, of 0] obtain k where k: "artifact_key ''demo'' (demo_artifact EvCommitted) = Inr k"
    "pl_blobs (snd (purge_item ''6'' (demo_artifact EvCommitted)
       (0, snd (op_set_legal_hold ''demo'' ''ev-1'' True demo_committed)))) (blob_name k) = None"
    unfolding Let_def by blast
  from t[THEN conjunct2, THEN conjunct1, rule_format, OF h k(1), of 0] k show ?thesis unfolding Let_def by auto
qed

end
