(* ===== verification/Canonical.thy ===== *)
theory Canonical
  imports Kernel_Types
begin

text \<open>
  Canonical JSON records and their digests (\<open>munarium-core/src/platform.rs\<close>), which the platform
  ledgers and the governance authority share. The JSON codec and SHA-256 are parameters: \<open>jc_parse\<close>
  is \<open>serde_json::from_slice\<close>, \<open>jc_bytes\<close> is \<open>serde_json::to_vec\<close> of a value, \<open>jc_sha\<close> the
  hexadecimal digest. Bytes are characters.
\<close>

record codec =
  jc_parse :: "string \<Rightarrow> json option"
  jc_bytes :: "json \<Rightarrow> string"
  jc_sha :: "string \<Rightarrow> string"

text \<open>\<open>value["key"]\<close>: \<open>Null\<close> for an absent key and for anything but an object.\<close>

definition jx :: "json \<Rightarrow> string \<Rightarrow> json" where
  "jx v k = (case jget v k of None \<Rightarrow> JNull | Some x \<Rightarrow> x)"

fun jas_u64 :: "json \<Rightarrow> nat option" where
  "jas_u64 (JNum (PosInt n)) = Some n"
| "jas_u64 _ = None"

fun jas_array :: "json \<Rightarrow> json list option" where
  "jas_array (JArr vs) = Some vs"
| "jas_array _ = None"

fun is_object :: "json \<Rightarrow> bool" where
  "is_object (JObj _) = True"
| "is_object _ = False"

text \<open>\<open>v[k] = x\<close> on an object; the code applies it to nothing else.\<close>

fun jset :: "string \<Rightarrow> json \<Rightarrow> json \<Rightarrow> json" where
  "jset k x (JObj m) = JObj (bt_insert k x m)"
| "jset k x v = v"

lemma jx_jobj [simp]: "jx (jobj kvs) k = (case map_of (rev kvs) k of None \<Rightarrow> JNull | Some v \<Rightarrow> v)"
  by (simp add: jx_def)

lemma jas_u64_jnat [simp]: "jas_u64 (jnat n) = Some n"
  by (simp add: jnat_def)

definition max_integer :: nat where
  "max_integer = 9007199254740991"

definition record_invalid :: kernel_error where
  "record_invalid = InvalidInput ''invalid platform decision record''"

fun json_bounded :: "json \<Rightarrow> nat \<Rightarrow> bool" where
  "json_bounded (JObj kvs) n \<longleftrightarrow> n < 16 \<and> list_all (\<lambda>kv. list_all (\<lambda>c. (of_char c :: nat) < 128) (fst kv)) kvs \<and>
     list_all (\<lambda>v. json_bounded v (n + 1)) (map snd kvs)"
| "json_bounded (JArr vs) n \<longleftrightarrow> n < 16 \<and> list_all (\<lambda>v. json_bounded v (n + 1)) vs"
| "json_bounded (JNum (PosInt i)) n \<longleftrightarrow> i \<le> max_integer"
| "json_bounded (JNum (NegInt i)) n \<longleftrightarrow> - int max_integer \<le> i"
| "json_bounded (JNum (Float r)) n \<longleftrightarrow> False"
| "json_bounded _ n \<longleftrightarrow> True"

definition canonical_record :: "codec \<Rightarrow> string \<Rightarrow> kernel_error + json" where
  "canonical_record cd raw =
     (if 65536 < length raw then Inl record_invalid
      else
      (case jc_parse cd raw of
         None \<Rightarrow> Inl record_invalid
       | Some v \<Rightarrow>
           if \<not> is_object v \<or> \<not> json_bounded v 0 \<or> jc_bytes cd v \<noteq> raw then Inl record_invalid else Inr v))"

definition record_digest :: "codec \<Rightarrow> string \<Rightarrow> json \<Rightarrow> kernel_error + string" where
  "record_digest cd domain v =
     (let raw = jc_bytes cd v in
      res_bind (canonical_record cd raw) (\<lambda>_. Inr (''sha256:'' @ jc_sha cd (domain @ [CHR 0x00] @ raw))))"

lemma canonical_record_Inr: "canonical_record cd raw = Inr v \<longleftrightarrow>
    length raw \<le> 65536 \<and> jc_parse cd raw = Some v \<and> is_object v \<and> json_bounded v 0 \<and> jc_bytes cd v = raw"
  by (auto simp: canonical_record_def split: option.splits)

lemma record_digest_Inr: "record_digest cd domain v = Inr d \<longleftrightarrow>
    (\<exists>w. canonical_record cd (jc_bytes cd v) = Inr w) \<and> d = ''sha256:'' @ jc_sha cd (domain @ [CHR 0x00] @ jc_bytes cd v)"
  by (auto simp: record_digest_def Let_def res_bind_eq_Inr)

end
