(* ===== verification/Authority.thy ===== *)
theory Authority
  imports Canonical
begin

text \<open>
  The governance authority (\<open>munarium-core/src/platform_authority.rs\<close>) and its in-memory store
  (\<open>munarium-store-mem/src/platform_authority.rs\<close>): enrolled signers install one governing
  artifact after another, each by a signed attestation that names the revision it follows.

  Base64, the derived decoders and encoders of the records, and Ed25519 are the parameters of
  \<open>auth_env\<close>; the JSON codec and SHA-256 those of \<open>codec\<close>. A \<open>BTreeMap\<close> is a list in key order, a
  \<open>BTreeSet\<close> its sorted elements. Both operations of the store hold its lock throughout.
\<close>

section \<open>Records\<close>

record authority_key =
  ak_public_key :: string
  ak_issuer :: string
  ak_presenter :: string
  ak_subjects :: "string list"

record authority_config =
  cf_deployment :: string
  cf_tenant :: string
  cf_audience :: string
  cf_epoch :: nat
  cf_bootstrap_keys :: "(string \<times> authority_key) list"

record governance_artifact =
  gv_schema_version :: nat
  gv_bindings :: "(string \<times> json) list"
  gv_retire_bootstrap :: bool
  gv_successor_keys :: "(string \<times> authority_key) list"

record authority_attestation =
  tn_schema_version :: nat
  tn_deployment :: string
  tn_tenant :: string
  tn_audience :: string
  tn_issuer :: string
  tn_subject :: string
  tn_subject_kind :: string
  tn_action :: string
  tn_artifact_digest :: string
  tn_expected_revision :: string
  tn_expected_head :: nat
  tn_epoch :: nat
  tn_nonce :: string
  tn_iat :: int
  tn_nbf :: int
  tn_exp :: int

record authority_fence =
  fe_deployment :: string
  fe_tenant :: string
  fe_epoch :: nat
  fe_minimum_head :: nat
  fe_bootstrap_retired :: bool

record authority_admission =
  dm_tenant :: string
  dm_peer_service :: string
  dm_now :: int
  dm_fence :: authority_fence

record authority_state =
  au_config :: authority_config
  au_head :: nat
  au_revision :: string
  au_bootstrap_retired :: bool
  au_governing_keys :: "(string \<times> authority_key) list"
  au_artifact :: "governance_artifact option"

record authority_receipt =
  rc_deployment :: string
  rc_tenant :: string
  rc_epoch :: nat
  rc_nonce :: string
  rc_attestation_digest :: string
  rc_artifact_digest :: string
  rc_prior_revision :: string
  rc_revision :: string
  rc_head :: nat
  rc_subject :: string
  rc_issuer :: string
  rc_key_id :: string
  rc_presenter :: string
  rc_bootstrap_retired :: bool

record jws_header =
  hd_alg :: string
  hd_kid :: string
  hd_typ :: string

record auth_env =
  ae_codec :: codec
  ae_b64_decode :: "string \<Rightarrow> string option"
  ae_b64_encode :: "string \<Rightarrow> string"
  ae_header :: "json \<Rightarrow> jws_header option"
  ae_attestation :: "json \<Rightarrow> authority_attestation option"
  ae_config_json :: "authority_config \<Rightarrow> json"
  ae_artifact_json :: "governance_artifact \<Rightarrow> json"
  ae_key_point :: "string \<Rightarrow> bool"
  ae_key_weak :: "string \<Rightarrow> bool"
  ae_signature :: "string \<Rightarrow> bool"
  ae_verify_strict :: "string \<Rightarrow> string \<Rightarrow> string \<Rightarrow> bool"

section \<open>Checks\<close>

definition auth_denied :: kernel_error where
  "auth_denied = Forbidden ''platform governance authority refused''"

definition auth_invalid :: kernel_error where
  "auth_invalid = InvalidInput ''invalid platform authority record''"

definition auth_identifier :: "string \<Rightarrow> bool" where
  "auth_identifier s \<longleftrightarrow> s \<noteq> [] \<and> byte_len s \<le> 128 \<and> (\<forall>c \<in> set s. ascii_alnum c \<or> c \<in> set '':._/-'')"

definition b64_canonical :: "auth_env \<Rightarrow> string \<Rightarrow> kernel_error + string" where
  "b64_canonical e s =
     (case ae_b64_decode e s of
        None \<Rightarrow> Inl auth_denied
      | Some bs \<Rightarrow> if ae_b64_encode e bs \<noteq> s then Inl auth_denied else Inr bs)"

definition validate_key :: "auth_env \<Rightarrow> authority_key \<Rightarrow> kernel_error + unit" where
  "validate_key e k =
     res_bind (b64_canonical e (ak_public_key k)) (\<lambda>raw.
     if length raw \<noteq> 32 then Inl auth_invalid
     else if \<not> ae_key_point e raw then Inl auth_invalid
     else if ae_key_weak e raw \<or> \<not> auth_identifier (ak_issuer k) \<or> \<not> auth_identifier (ak_presenter k)
       \<or> ak_subjects k = [] \<or> 128 < length (ak_subjects k) \<or> (\<exists>s \<in> set (ak_subjects k). \<not> auth_identifier s)
     then Inl auth_invalid
     else Inr ())"

fun check_keys :: "auth_env \<Rightarrow> string list \<Rightarrow> (string \<times> authority_key) list \<Rightarrow> kernel_error + unit" where
  "check_keys e seen [] = Inr ()"
| "check_keys e seen ((i, k) # ks) =
     (if \<not> auth_identifier i \<or> ak_public_key k \<in> set seen then Inl auth_invalid
      else res_bind (validate_key e k) (\<lambda>_. check_keys e (ak_public_key k # seen) ks))"

definition validate_keys :: "auth_env \<Rightarrow> (string \<times> authority_key) list \<Rightarrow> kernel_error + unit" where
  "validate_keys e ks = (if ks = [] \<or> 32 < length ks then Inl auth_invalid else check_keys e [] ks)"

definition validate_config :: "auth_env \<Rightarrow> authority_config \<Rightarrow> kernel_error + unit" where
  "validate_config e c =
     (if \<not> auth_identifier (cf_deployment c) \<or> \<not> auth_identifier (cf_tenant c) \<or> \<not> auth_identifier (cf_audience c)
       \<or> cf_epoch c = 0 \<or> max_integer < cf_epoch c
      then Inl auth_invalid else validate_keys e (cf_bootstrap_keys c))"

definition artifact_digest :: "auth_env \<Rightarrow> governance_artifact \<Rightarrow> kernel_error + string" where
  "artifact_digest e g =
     (if gv_schema_version g \<noteq> 1 \<or> 256 < length (gv_bindings g) \<or> (\<exists>kv \<in> set (gv_bindings g). \<not> auth_identifier (fst kv))
      then Inl auth_invalid
      else
      res_bind (if gv_retire_bootstrap g then validate_keys e (gv_successor_keys g)
        else if gv_successor_keys g \<noteq> [] then Inl auth_invalid else Inr ()) (\<lambda>_.
      record_digest (ae_codec e) ''munarium:governance-artifact:v1'' (ae_artifact_json e g)))"

section \<open>State\<close>

definition enrolled :: "auth_env \<Rightarrow> authority_config \<Rightarrow> kernel_error + authority_state" where
  "enrolled e c =
     res_bind (validate_config e c) (\<lambda>_.
     res_bind (record_digest (ae_codec e) ''munarium:authority-enrollment:v1'' (ae_config_json e c)) (\<lambda>revision.
     Inr \<lparr>au_config = c, au_head = 0, au_revision = revision, au_bootstrap_retired = False, au_governing_keys = [],
       au_artifact = None\<rparr>))"

definition state_fence :: "authority_state \<Rightarrow> authority_fence" where
  "state_fence st = \<lparr>fe_deployment = cf_deployment (au_config st), fe_tenant = cf_tenant (au_config st),
     fe_epoch = cf_epoch (au_config st), fe_minimum_head = au_head st, fe_bootstrap_retired = au_bootstrap_retired st\<rparr>"

definition check_fence :: "authority_state \<Rightarrow> authority_fence \<Rightarrow> kernel_error + unit" where
  "check_fence st f =
     (if fe_deployment f \<noteq> cf_deployment (au_config st) \<or> fe_tenant f \<noteq> cf_tenant (au_config st)
       \<or> fe_epoch f \<noteq> cf_epoch (au_config st) \<or> au_head st < fe_minimum_head f
       \<or> (fe_bootstrap_retired f \<and> \<not> au_bootstrap_retired st)
      then Inl auth_denied else Inr ())"

section \<open>Transitions\<close>

definition checked_sub_i64 :: "int \<Rightarrow> int \<Rightarrow> int option" where
  "checked_sub_i64 a b = (if - (2 ^ 63) \<le> a - b \<and> a - b < 2 ^ 63 then Some (a - b) else None)"

text \<open>\<open>i64 as u64\<close>.\<close>

definition as_u64 :: "int \<Rightarrow> nat" where
  "as_u64 n = nat (n mod 2 ^ 64)"

text \<open>What a signed attestation must say for the state, the artifact, the signer's key and the
  presenting peer.\<close>

definition attestation_refused :: "authority_state \<Rightarrow> authority_admission \<Rightarrow> authority_attestation \<Rightarrow> string \<Rightarrow>
    authority_key \<Rightarrow> bool" where
  "attestation_refused st adm p digest key \<longleftrightarrow>
     tn_schema_version p \<noteq> 1 \<or> tn_deployment p \<noteq> cf_deployment (au_config st) \<or> tn_tenant p \<noteq> cf_tenant (au_config st)
     \<or> tn_audience p \<noteq> cf_audience (au_config st) \<or> tn_issuer p \<noteq> ak_issuer key \<or> tn_subject p \<notin> set (ak_subjects key)
     \<or> tn_subject_kind p \<noteq> ''human'' \<or> tn_action p \<noteq> ''install-governance'' \<or> tn_epoch p \<noteq> cf_epoch (au_config st)
     \<or> tn_artifact_digest p \<noteq> digest \<or> ak_presenter key \<noteq> dm_peer_service adm \<or> \<not> auth_identifier (tn_nonce p)
     \<or> tn_iat p < 0 \<or> dm_now adm < tn_iat p \<or> tn_nbf p < tn_iat p \<or> dm_now adm < tn_nbf p \<or> tn_exp p \<le> dm_now adm
     \<or> tn_exp p \<le> tn_nbf p \<or> (case checked_sub_i64 (tn_exp p) (tn_iat p) of None \<Rightarrow> True | Some n \<Rightarrow> 300 < n)
     \<or> max_integer < as_u64 (tn_exp p)"

definition signer_keys :: "authority_state \<Rightarrow> (string \<times> authority_key) list" where
  "signer_keys st = (if au_bootstrap_retired st then au_governing_keys st else cf_bootstrap_keys (au_config st))"

definition verify_signature :: "auth_env \<Rightarrow> authority_key \<Rightarrow> string \<Rightarrow> string \<Rightarrow> kernel_error + unit" where
  "verify_signature e key message sig =
     res_bind (b64_canonical e (ak_public_key key)) (\<lambda>public.
     if length public \<noteq> 32 then Inl auth_denied
     else if \<not> ae_key_point e public then Inl auth_denied
     else
     res_bind (b64_canonical e sig) (\<lambda>s.
     if \<not> ae_signature e s then Inl auth_denied
     else if \<not> ae_verify_strict e public message s then Inl auth_denied
     else Inr ()))"

definition reinstates_bootstrap :: "authority_state \<Rightarrow> governance_artifact \<Rightarrow> bool" where
  "reinstates_bootstrap st g \<longleftrightarrow> (\<exists>k \<in> snd ` set (gv_successor_keys g).
     \<exists>old \<in> snd ` set (cf_bootstrap_keys (au_config st)). ak_public_key old = ak_public_key k)"

definition next_head :: "nat \<Rightarrow> kernel_error + nat" where
  "next_head h = (case checked_add h 1 of None \<Rightarrow> Inl auth_invalid
     | Some n \<Rightarrow> if n \<le> max_integer then Inr n else Inl auth_invalid)"

definition revision_record :: "string \<Rightarrow> nat \<Rightarrow> string \<Rightarrow> string \<Rightarrow> json" where
  "revision_record prior head attestation artifact =
     jobj [(''prior'', JStr prior), (''head'', jnat head), (''attestation'', JStr attestation), (''artifact'', JStr artifact)]"

definition install :: "authority_state \<Rightarrow> governance_artifact \<Rightarrow> nat \<Rightarrow> string \<Rightarrow> authority_state" where
  "install st g head revision =
     (let retired = au_bootstrap_retired st \<or> gv_retire_bootstrap g in
      st\<lparr>au_head := head, au_bootstrap_retired := retired,
        au_governing_keys := (if retired then gv_successor_keys g else au_governing_keys st),
        au_artifact := Some g, au_revision := revision\<rparr>)"

definition issue_receipt :: "authority_state \<Rightarrow> authority_state \<Rightarrow> authority_admission \<Rightarrow> authority_attestation \<Rightarrow>
    string \<Rightarrow> string \<Rightarrow> string \<Rightarrow> authority_receipt" where
  "issue_receipt st next_state adm p kid attestation artifact =
     \<lparr>rc_deployment = cf_deployment (au_config st), rc_tenant = cf_tenant (au_config st), rc_epoch = cf_epoch (au_config st),
      rc_nonce = tn_nonce p, rc_attestation_digest = attestation, rc_artifact_digest = artifact,
      rc_prior_revision = au_revision st, rc_revision = au_revision next_state, rc_head = au_head next_state,
      rc_subject = tn_subject p, rc_issuer = tn_issuer p, rc_key_id = kid, rc_presenter = dm_peer_service adm,
      rc_bootstrap_retired = au_bootstrap_retired next_state\<rparr>"

definition parse_attestation :: "auth_env \<Rightarrow> kernel_error \<Rightarrow> string \<Rightarrow> kernel_error + authority_attestation" where
  "parse_attestation e bad part =
     res_bind (b64_canonical e part) (\<lambda>bs.
     res_bind (canonical_record (ae_codec e) bs) (\<lambda>v. ok_or (ae_attestation e v) bad))"

definition parse_header :: "auth_env \<Rightarrow> string \<Rightarrow> kernel_error + jws_header" where
  "parse_header e part =
     res_bind (b64_canonical e part) (\<lambda>bs.
     res_bind (canonical_record (ae_codec e) bs) (\<lambda>v. ok_or (ae_header e v) auth_denied))"

definition replayed :: "authority_state \<Rightarrow> authority_admission \<Rightarrow> string \<Rightarrow> string \<Rightarrow> string \<Rightarrow> authority_receipt \<Rightarrow>
    kernel_error + authority_state \<times> authority_receipt" where
  "replayed st adm nonce attestation artifact prior =
     (if rc_nonce prior \<noteq> nonce \<or> rc_tenant prior \<noteq> dm_tenant adm \<or> rc_presenter prior \<noteq> dm_peer_service adm
      then Inl auth_denied
      else if rc_attestation_digest prior \<noteq> attestation \<or> rc_artifact_digest prior \<noteq> artifact then Inl IdempotencyMismatch
      else Inr (st, prior))"

definition advance :: "auth_env \<Rightarrow> authority_state \<Rightarrow> authority_admission \<Rightarrow> governance_artifact \<Rightarrow> authority_attestation \<Rightarrow>
    string \<Rightarrow> string \<Rightarrow> string \<Rightarrow> kernel_error + authority_state \<times> authority_receipt" where
  "advance e st adm g p kid attestation artifact =
     (if tn_expected_head p \<noteq> au_head st then Inl (HeadConflict (tn_expected_head p) (au_head st))
      else if tn_expected_revision p \<noteq> au_revision st then Inl auth_denied
      else if au_bootstrap_retired st \<and> \<not> gv_retire_bootstrap g then Inl auth_denied
      else if reinstates_bootstrap st g then Inl auth_denied
      else
      res_bind (next_head (au_head st)) (\<lambda>head.
      res_bind (record_digest (ae_codec e) ''munarium:authority-revision:v1''
        (revision_record (au_revision st) head attestation artifact)) (\<lambda>revision.
      let next_state = install st g head revision
      in Inr (next_state, issue_receipt st next_state adm p kid attestation artifact))))"

definition authority_transition :: "auth_env \<Rightarrow> authority_state \<Rightarrow> authority_admission \<Rightarrow> string \<Rightarrow> governance_artifact \<Rightarrow>
    authority_receipt option \<Rightarrow> kernel_error + authority_state \<times> authority_receipt" where
  "authority_transition e st adm signed g prior =
     res_bind (check_fence st (dm_fence adm)) (\<lambda>_.
     if dm_tenant adm \<noteq> cf_tenant (au_config st) \<or> 16384 < byte_len signed then Inl auth_denied
     else
     (case split_on (\<lambda>c. c = CHR ''.'') signed of
        [h, p, s] \<Rightarrow>
          res_bind (parse_header e h) (\<lambda>header.
          if hd_alg header \<noteq> ''Ed25519'' \<or> hd_typ header \<noteq> ''munarium-authority+jws'' then Inl auth_denied
          else
          res_bind (parse_attestation e auth_denied p) (\<lambda>payload.
          res_bind (record_digest (ae_codec e) ''munarium:authority-attestation:v1'' (jobj [(''jws'', JStr signed)])) (\<lambda>attestation.
          res_bind (artifact_digest e g) (\<lambda>artifact.
          (case prior of
             Some r \<Rightarrow> replayed st adm (tn_nonce payload) attestation artifact r
           | None \<Rightarrow>
               res_bind (ok_or (map_of (signer_keys st) (hd_kid header)) auth_denied) (\<lambda>key.
               res_bind (verify_signature e key (h @ ''.'' @ p) s) (\<lambda>_.
               if attestation_refused st adm payload artifact key then Inl auth_denied
               else advance e st adm g payload (hd_kid header) attestation artifact)))))))
      | _ \<Rightarrow> Inl auth_denied))"

definition untrusted_nonce :: "auth_env \<Rightarrow> string \<Rightarrow> kernel_error + string" where
  "untrusted_nonce e signed =
     (if 16384 < byte_len signed then Inl auth_invalid
      else
      (case split_on (\<lambda>c. c = CHR ''.'') signed of
         [h, p, s] \<Rightarrow>
           res_bind (parse_attestation e auth_invalid p) (\<lambda>payload.
           if \<not> auth_identifier (tn_nonce payload) then Inl auth_invalid else Inr (tn_nonce payload))
       | _ \<Rightarrow> Inl auth_invalid))"

section \<open>The in-memory authority store\<close>

record authority_store =
  ah_tenant :: string
  ah_state :: "authority_state option"
  ah_receipts :: "string \<Rightarrow> authority_receipt option"

definition new_authority_store :: "string \<Rightarrow> authority_store" where
  "new_authority_store tenant = \<lparr>ah_tenant = tenant, ah_state = None, ah_receipts = (\<lambda>_. None)\<rparr>"

definition not_enrolled :: kernel_error where
  "not_enrolled = Forbidden ''platform authority is not enrolled''"

definition enroll :: "auth_env \<Rightarrow> authority_config \<Rightarrow> authority_store \<Rightarrow> kernel_error + authority_state \<times> authority_store" where
  "enroll e c s =
     (if cf_tenant c \<noteq> ah_tenant s then Inl not_enrolled
      else
      res_bind (enrolled e c) (\<lambda>initial.
      (case ah_state s of
         Some current \<Rightarrow> if au_config current = au_config initial then Inr (current, s)
           else Inl (Forbidden ''authority enrollment cannot be replaced'')
       | None \<Rightarrow> Inr (initial, s\<lparr>ah_state := Some initial\<rparr>))))"

definition authority_snapshot :: "authority_store \<Rightarrow> kernel_error + authority_state" where
  "authority_snapshot s = ok_or (ah_state s) not_enrolled"

definition apply_transition :: "auth_env \<Rightarrow> authority_admission \<Rightarrow> string \<Rightarrow> governance_artifact \<Rightarrow> authority_store \<Rightarrow>
    kernel_error + authority_receipt \<times> authority_store" where
  "apply_transition e adm signed g s =
     res_bind (untrusted_nonce e signed) (\<lambda>nonce.
     res_bind (ok_or (ah_state s) not_enrolled) (\<lambda>st.
     res_bind (authority_transition e st adm signed g (ah_receipts s nonce)) (\<lambda>(next_state, receipt).
     Inr (receipt, s\<lparr>ah_receipts := (case ah_receipts s nonce of
            None \<Rightarrow> (ah_receipts s)(nonce \<mapsto> receipt) | Some _ \<Rightarrow> ah_receipts s),
          ah_state := Some next_state\<rparr>))))"

end
