(* ===== verification/Authority_Properties.thy ===== *)
theory Authority_Properties
  imports Authority
begin

text \<open>
  The history of an authority store: receipts form one chain of revisions without gaps, retirement
  of the bootstrap keys is final, every installation was signed by an enrolled signer, and a nonce
  is spent once.
\<close>

section \<open>What a successful operation did\<close>

lemma check_fence_Inr: "check_fence st f = Inr u \<longleftrightarrow>
    fe_deployment f = cf_deployment (au_config st) \<and> fe_tenant f = cf_tenant (au_config st) \<and>
    fe_epoch f = cf_epoch (au_config st) \<and> fe_minimum_head f \<le> au_head st \<and> (fe_bootstrap_retired f \<longrightarrow> au_bootstrap_retired st)"
  by (auto simp: check_fence_def)

lemma next_head_Inr: "next_head h = Inr n \<longleftrightarrow> n = h + 1 \<and> h + 1 \<le> max_integer"
proof -
  have "max_integer \<le> u64_max" by (simp add: max_integer_def u64_max_def)
  then show ?thesis by (auto simp: next_head_def split: option.splits)
qed

lemma replayed_Inr: "replayed st adm nonce attestation artifact r = Inr (st', r') \<longleftrightarrow>
    rc_nonce r = nonce \<and> rc_tenant r = dm_tenant adm \<and> rc_presenter r = dm_peer_service adm \<and>
    rc_attestation_digest r = attestation \<and> rc_artifact_digest r = artifact \<and> st' = st \<and> r' = r"
  by (auto simp: replayed_def)

text \<open>The parts of a signed attestation that parse.\<close>

definition reads_as :: "auth_env \<Rightarrow> string \<Rightarrow> string \<Rightarrow> string \<Rightarrow> string \<Rightarrow> jws_header \<Rightarrow> authority_attestation \<Rightarrow> bool" where
  "reads_as e signed h p s header payload \<longleftrightarrow> byte_len signed \<le> 16384 \<and>
     split_on (\<lambda>c. c = CHR ''.'') signed = [h, p, s] \<and> parse_header e h = Inr header \<and>
     hd_alg header = ''Ed25519'' \<and> hd_typ header = ''munarium-authority+jws'' \<and> parse_attestation e auth_denied p = Inr payload"

lemma authority_transition_Inr: "authority_transition e st adm signed g prior = Inr (st', r) \<longleftrightarrow>
    check_fence st (dm_fence adm) = Inr () \<and> dm_tenant adm = cf_tenant (au_config st) \<and>
    (\<exists>h p s header payload attestation artifact.
      reads_as e signed h p s header payload \<and>
      record_digest (ae_codec e) ''munarium:authority-attestation:v1'' (jobj [(''jws'', JStr signed)]) = Inr attestation \<and>
      artifact_digest e g = Inr artifact \<and>
      (case prior of
         Some r0 \<Rightarrow> replayed st adm (tn_nonce payload) attestation artifact r0 = Inr (st', r)
       | None \<Rightarrow> (\<exists>key. map_of (signer_keys st) (hd_kid header) = Some key \<and>
           verify_signature e key (h @ ''.'' @ p) s = Inr () \<and> \<not> attestation_refused st adm payload artifact key \<and>
           advance e st adm g payload (hd_kid header) attestation artifact = Inr (st', r))))"
  unfolding authority_transition_def reads_as_def
  by (cases prior) (auto simp: res_bind_eq_Inr ok_or_eq_Inr guard_eq_Inr not_less split: list.splits)

lemma advance_Inr: "advance e st adm g p kid attestation artifact = Inr (st', r) \<longleftrightarrow>
    tn_expected_head p = au_head st \<and> tn_expected_revision p = au_revision st \<and>
    (au_bootstrap_retired st \<longrightarrow> gv_retire_bootstrap g) \<and> \<not> reinstates_bootstrap st g \<and> au_head st + 1 \<le> max_integer \<and>
    (\<exists>revision. record_digest (ae_codec e) ''munarium:authority-revision:v1''
       (revision_record (au_revision st) (au_head st + 1) attestation artifact) = Inr revision \<and>
     st' = install st g (au_head st + 1) revision \<and> r = issue_receipt st st' adm p kid attestation artifact)"
  by (auto simp: advance_def res_bind_eq_Inr next_head_Inr Let_def)

lemma authority_transition_fresh:
  assumes "authority_transition e st adm signed g None = Inr (st', r)"
  obtains h p s header payload attestation artifact key revision where
    "reads_as e signed h p s header payload" "dm_tenant adm = cf_tenant (au_config st)"
    "record_digest (ae_codec e) ''munarium:authority-attestation:v1'' (jobj [(''jws'', JStr signed)]) = Inr attestation"
    "artifact_digest e g = Inr artifact" "map_of (signer_keys st) (hd_kid header) = Some key"
    "verify_signature e key (h @ ''.'' @ p) s = Inr ()" "\<not> attestation_refused st adm payload artifact key"
    "tn_expected_head payload = au_head st" "tn_expected_revision payload = au_revision st"
    "au_bootstrap_retired st \<longrightarrow> gv_retire_bootstrap g" "\<not> reinstates_bootstrap st g" "au_head st + 1 \<le> max_integer"
    "st' = install st g (au_head st + 1) revision" "r = issue_receipt st st' adm payload (hd_kid header) attestation artifact"
proof -
  from assms obtain h p s header payload attestation artifact key where t:
    "reads_as e signed h p s header payload" "dm_tenant adm = cf_tenant (au_config st)"
    "record_digest (ae_codec e) ''munarium:authority-attestation:v1'' (jobj [(''jws'', JStr signed)]) = Inr attestation"
    "artifact_digest e g = Inr artifact" "map_of (signer_keys st) (hd_kid header) = Some key"
    "verify_signature e key (h @ ''.'' @ p) s = Inr ()" "\<not> attestation_refused st adm payload artifact key"
    "advance e st adm g payload (hd_kid header) attestation artifact = Inr (st', r)"
    unfolding authority_transition_Inr option.case by blast
  from t(8)[unfolded advance_Inr] t(1-7) that show thesis by blast
qed

lemma install_simps [simp]: "au_config (install st g h rev0) = au_config st" "au_head (install st g h rev0) = h"
    "au_revision (install st g h rev0) = rev0"
    "au_bootstrap_retired (install st g h rev0) \<longleftrightarrow> au_bootstrap_retired st \<or> gv_retire_bootstrap g"
    "au_governing_keys (install st g h rev0) =
      (if au_bootstrap_retired st \<or> gv_retire_bootstrap g then gv_successor_keys g else au_governing_keys st)"
    "au_artifact (install st g h rev0) = Some g"
  by (simp_all add: install_def Let_def)

lemma issue_receipt_simps [simp]: "rc_head (issue_receipt st st' adm p kid a b) = au_head st'"
    "rc_nonce (issue_receipt st st' adm p kid a b) = tn_nonce p" "rc_prior_revision (issue_receipt st st' adm p kid a b) = au_revision st"
    "rc_revision (issue_receipt st st' adm p kid a b) = au_revision st'" "rc_tenant (issue_receipt st st' adm p kid a b) = cf_tenant (au_config st)"
    "rc_bootstrap_retired (issue_receipt st st' adm p kid a b) = au_bootstrap_retired st'"
    "rc_epoch (issue_receipt st st' adm p kid a b) = cf_epoch (au_config st)"
    "rc_presenter (issue_receipt st st' adm p kid a b) = dm_peer_service adm"
    "rc_attestation_digest (issue_receipt st st' adm p kid a b) = a" "rc_artifact_digest (issue_receipt st st' adm p kid a b) = b"
    "rc_subject (issue_receipt st st' adm p kid a b) = tn_subject p" "rc_key_id (issue_receipt st st' adm p kid a b) = kid"
  by (simp_all add: issue_receipt_def)

text \<open>A nonce names its attestation: it is read from the same part.\<close>

lemma nonce_reads: "untrusted_nonce e signed = Inr nonce \<Longrightarrow> reads_as e signed h p s header payload \<Longrightarrow> tn_nonce payload = nonce"
  by (auto simp: untrusted_nonce_def reads_as_def parse_attestation_def res_bind_eq_Inr ok_or_eq_Inr split: if_splits)

section \<open>Runs\<close>

inductive auth_step :: "auth_env \<Rightarrow> authority_store \<Rightarrow> authority_store \<Rightarrow> bool" for e :: auth_env where
  step_enroll: "enroll e c s = Inr (st, s') \<Longrightarrow> auth_step e s s'"
| step_apply: "apply_transition e adm signed g s = Inr (r, s') \<Longrightarrow> auth_step e s s'"

abbreviation auth_run :: "auth_env \<Rightarrow> authority_store \<Rightarrow> authority_store \<Rightarrow> bool" where
  "auth_run e \<equiv> (auth_step e)\<^sup>*\<^sup>*"

text \<open>A successful call replays a stored receipt and changes nothing, or installs a state and stores
  its receipt under a fresh nonce.\<close>

definition replays :: "auth_env \<Rightarrow> authority_admission \<Rightarrow> string \<Rightarrow> governance_artifact \<Rightarrow> authority_store \<Rightarrow> authority_receipt \<Rightarrow> bool" where
  "replays e adm signed g s r \<longleftrightarrow> ah_receipts s (rc_nonce r) = Some r \<and> rc_tenant r = dm_tenant adm \<and>
     rc_presenter r = dm_peer_service adm \<and> artifact_digest e g = Inr (rc_artifact_digest r) \<and>
     record_digest (ae_codec e) ''munarium:authority-attestation:v1'' (jobj [(''jws'', JStr signed)]) = Inr (rc_attestation_digest r)"

definition stored :: "authority_state \<Rightarrow> authority_receipt \<Rightarrow> authority_store \<Rightarrow> authority_store" where
  "stored st r s = s\<lparr>ah_receipts := (ah_receipts s)(rc_nonce r \<mapsto> r), ah_state := Some st\<rparr>"

section \<open>The invariant\<close>

abbreviation bootstrap_public :: "authority_state \<Rightarrow> string set" where
  "bootstrap_public st \<equiv> ak_public_key ` snd ` set (cf_bootstrap_keys (au_config st))"

definition keys_ok :: "auth_env \<Rightarrow> authority_state \<Rightarrow> bool" where
  "keys_ok e st \<longleftrightarrow> (au_bootstrap_retired st \<longrightarrow> validate_keys e (au_governing_keys st) = Inr () \<and>
     ak_public_key ` snd ` set (au_governing_keys st) \<inter> bootstrap_public st = {})"

definition receipt_at :: "authority_store \<Rightarrow> nat \<Rightarrow> authority_receipt \<Rightarrow> bool" where
  "receipt_at s h r \<longleftrightarrow> ah_receipts s (rc_nonce r) = Some r \<and> rc_head r = h"

text \<open>The revision and the retirement that hold at a position of the history.\<close>

definition at_head :: "authority_state \<Rightarrow> authority_store \<Rightarrow> nat \<Rightarrow> string \<Rightarrow> bool \<Rightarrow> bool" where
  "at_head init s h rev0 retired \<longleftrightarrow>
     (if h = 0 then rev0 = au_revision init \<and> \<not> retired
      else \<exists>r. receipt_at s h r \<and> rc_revision r = rev0 \<and> rc_bootstrap_retired r = retired)"

definition history_ok :: "auth_env \<Rightarrow> authority_store \<Rightarrow> authority_state \<Rightarrow> authority_state \<Rightarrow> bool" where
  "history_ok e s init st \<longleftrightarrow>
     (\<forall>n r. ah_receipts s n = Some r \<longrightarrow> rc_nonce r = n \<and> rc_tenant r = cf_tenant (au_config st) \<and>
        (\<exists>h < au_head st. rc_head r = Suc h \<and>
          (\<exists>retired. at_head init s h (rc_prior_revision r) retired \<and> (retired \<longrightarrow> rc_bootstrap_retired r)))) \<and>
     (\<forall>h \<in> {1..au_head st}. \<exists>!r. receipt_at s h r) \<and>
     at_head init s (au_head st) (au_revision st) (au_bootstrap_retired st) \<and> au_head st \<le> max_integer"

definition authority_ok :: "auth_env \<Rightarrow> authority_store \<Rightarrow> bool" where
  "authority_ok e s \<longleftrightarrow>
     (case ah_state s of
        None \<Rightarrow> ah_receipts s = (\<lambda>_. None)
      | Some st \<Rightarrow> cf_tenant (au_config st) = ah_tenant s \<and> keys_ok e st \<and>
          (\<exists>init. enrolled e (au_config st) = Inr init \<and> history_ok e s init st))"

lemma enrolled_Inr: "enrolled e c = Inr st \<Longrightarrow> au_config st = c \<and> au_head st = 0 \<and> \<not> au_bootstrap_retired st \<and>
    validate_config e c = Inr ()"
  by (auto simp: enrolled_def res_bind_eq_Inr)

lemma receipts_named: "authority_ok e s \<Longrightarrow> ah_receipts s n = Some r \<Longrightarrow> rc_nonce r = n"
  by (auto simp: authority_ok_def history_ok_def split: option.splits)

lemma apply_cases:
  assumes "apply_transition e adm signed g s = Inr (r, s')"
    and "authority_ok e s"
  obtains (replay) st where "ah_state s = Some st" "check_fence st (dm_fence adm) = Inr ()" "replays e adm signed g s r" "s' = s"
  | (install) st st' where "ah_state s = Some st" "ah_receipts s (rc_nonce r) = None"
      "authority_transition e st adm signed g None = Inr (st', r)" "s' = stored st' r s"
proof -
  from assms(1) obtain nonce st st' where n: "untrusted_nonce e signed = Inr nonce" "ah_state s = Some st"
    "authority_transition e st adm signed g (ah_receipts s nonce) = Inr (st', r)"
    "s' = s\<lparr>ah_receipts := (case ah_receipts s nonce of None \<Rightarrow> (ah_receipts s)(nonce \<mapsto> r) | Some _ \<Rightarrow> ah_receipts s),
       ah_state := Some st'\<rparr>"
    by (auto simp: apply_transition_def res_bind_eq_Inr ok_or_eq_Inr)
  show ?thesis
  proof (cases "ah_receipts s nonce")
    case (Some r0)
    have eta: "s\<lparr>ah_receipts := ah_receipts s, ah_state := Some st\<rparr> = s" using n(2) by (cases s) simp
    have "rc_nonce r0 = nonce" using receipts_named[OF assms(2) Some] .
    with n Some eta show ?thesis
      by (intro replay[of st]) (auto simp: authority_transition_Inr replayed_Inr replays_def)
  next
    case None
    then have "rc_nonce r = nonce" using n(1,3) by (auto simp: authority_transition_Inr advance_Inr dest: nonce_reads)
    with n None show ?thesis by (intro install[of st st']) (auto simp: stored_def)
  qed
qed

lemma apply_reads:
  assumes a: "apply_transition e adm signed g s = Inr (r, s')" and ok: "authority_ok e s"
  shows "untrusted_nonce e signed = Inr (rc_nonce r) \<and> (\<exists>h p sig header payload. reads_as e signed h p sig header payload) \<and>
    artifact_digest e g = Inr (rc_artifact_digest r) \<and>
    record_digest (ae_codec e) ''munarium:authority-attestation:v1'' (jobj [(''jws'', JStr signed)]) = Inr (rc_attestation_digest r) \<and>
    ah_receipts s' (rc_nonce r) = Some r \<and> rc_tenant r = dm_tenant adm"
proof -
  from a obtain nonce st st' where n: "untrusted_nonce e signed = Inr nonce" "ah_state s = Some st"
    "authority_transition e st adm signed g (ah_receipts s nonce) = Inr (st', r)"
    "s' = s\<lparr>ah_receipts := (case ah_receipts s nonce of None \<Rightarrow> (ah_receipts s)(nonce \<mapsto> r) | Some _ \<Rightarrow> ah_receipts s),
       ah_state := Some st'\<rparr>"
    by (auto simp: apply_transition_def res_bind_eq_Inr ok_or_eq_Inr)
  show ?thesis
  proof (cases "ah_receipts s nonce")
    case None
    with n(3) have "authority_transition e st adm signed g None = Inr (st', r)" by simp
    then show ?thesis
    proof (rule authority_transition_fresh)
      fix h p sig header payload attestation artifact key revision
      assume t: "reads_as e signed h p sig header payload" "dm_tenant adm = cf_tenant (au_config st)"
        "record_digest (ae_codec e) ''munarium:authority-attestation:v1'' (jobj [(''jws'', JStr signed)]) = Inr attestation"
        "artifact_digest e g = Inr artifact" "st' = install st g (au_head st + 1) revision"
        "r = issue_receipt st st' adm payload (hd_kid header) attestation artifact"
      have "tn_nonce payload = nonce" using nonce_reads[OF n(1) t(1)] .
      have "rc_nonce r = nonce \<and> rc_artifact_digest r = artifact \<and> rc_attestation_digest r = attestation \<and>
          ah_receipts s' (rc_nonce r) = Some r \<and> rc_tenant r = dm_tenant adm"
        using \<open>tn_nonce payload = nonce\<close> n(4) None t(2,6) by simp
      with n(1) t(1,3,4) show ?thesis by blast
    qed
  next
    case (Some r0)
    with n(3) have "authority_transition e st adm signed g (Some r0) = Inr (st', r)" by simp
    then obtain h p sig header payload where t: "reads_as e signed h p sig header payload"
      "artifact_digest e g = Inr (rc_artifact_digest r)" "rc_tenant r = dm_tenant adm" "rc_nonce r = tn_nonce payload"
      "record_digest (ae_codec e) ''munarium:authority-attestation:v1'' (jobj [(''jws'', JStr signed)]) = Inr (rc_attestation_digest r)" "r0 = r"
      unfolding authority_transition_Inr option.case replayed_Inr by blast
    have "tn_nonce payload = nonce" using nonce_reads[OF n(1) t(1)] .
    then have "untrusted_nonce e signed = Inr (rc_nonce r) \<and> ah_receipts s' (rc_nonce r) = Some r" using n(1,4) t(4,6) Some by simp
    with t show ?thesis by blast
  qed
qed

lemma artifact_successors: "artifact_digest e g = Inr d \<Longrightarrow> gv_retire_bootstrap g \<Longrightarrow> validate_keys e (gv_successor_keys g) = Inr ()"
  by (auto simp: artifact_digest_def res_bind_eq_Inr split: if_splits)

lemma install_keys:
  assumes "authority_transition e st adm signed g None = Inr (st', r)" "keys_ok e st"
  shows "keys_ok e st'"
proof -
  from assms(1) have t: "au_config st' = au_config st" "\<not> reinstates_bootstrap st g" "\<exists>d. artifact_digest e g = Inr d"
    "au_bootstrap_retired st' \<longleftrightarrow> au_bootstrap_retired st \<or> gv_retire_bootstrap g"
    "au_bootstrap_retired st' \<longrightarrow> gv_retire_bootstrap g \<and> au_governing_keys st' = gv_successor_keys g"
    by (auto simp: authority_transition_Inr advance_Inr)
  show ?thesis unfolding keys_ok_def
  proof (intro impI conjI)
    assume "au_bootstrap_retired st'"
    with t(5) have g: "gv_retire_bootstrap g" "au_governing_keys st' = gv_successor_keys g" by auto
    with t(3) artifact_successors show "validate_keys e (au_governing_keys st') = Inr ()" by auto
    show "ak_public_key ` snd ` set (au_governing_keys st') \<inter> bootstrap_public st' = {}"
    proof (rule equals0I)
      fix x assume "x \<in> ak_public_key ` snd ` set (au_governing_keys st') \<inter> bootstrap_public st'"
      then obtain k old where "k \<in> snd ` set (gv_successor_keys g)" "old \<in> snd ` set (cf_bootstrap_keys (au_config st))"
        "ak_public_key old = ak_public_key k" unfolding g(2) t(1) by (elim IntE imageE) (metis image_eqI)
      with t(2) show False unfolding reinstates_bootstrap_def by blast
    qed
  qed
qed

lemma receipt_at_stored: "ah_receipts s (rc_nonce r) = None \<Longrightarrow> receipt_at (stored st' r s) h x \<longleftrightarrow>
    receipt_at s h x \<or> (x = r \<and> h = rc_head r)"
  by (auto simp: receipt_at_def stored_def)

lemma historyD: "history_ok e s init st \<Longrightarrow> ah_receipts s n = Some r \<Longrightarrow>
    \<exists>h retired. h < au_head st \<and> rc_head r = Suc h \<and> at_head init s h (rc_prior_revision r) retired \<and>
      (retired \<longrightarrow> rc_bootstrap_retired r)"
  unfolding history_ok_def by blast

lemma receipt_below: "history_ok e s init st \<Longrightarrow> receipt_at s h x \<Longrightarrow> 1 \<le> h \<and> h \<le> au_head st"
  by (fastforce simp: history_ok_def receipt_at_def)

lemma at_head_stored: "ah_receipts s (rc_nonce r) = None \<Longrightarrow> at_head init s h rev0 ret \<Longrightarrow> at_head init (stored st' r s) h rev0 ret"
  by (auto simp: at_head_def receipt_at_stored split: if_splits)

lemma install_history:
  assumes ok: "history_ok e s init st" and fresh: "ah_receipts s (rc_nonce r) = None"
    and t: "authority_transition e st adm signed g None = Inr (st', r)"
  shows "history_ok e (stored st' r s) init st' \<and> au_config st' = au_config st"
proof -
  let ?s = "stored st' r s"
  from t have r: "au_config st' = au_config st" "rc_head r = Suc (au_head st)" "au_head st' = Suc (au_head st)"
    "rc_prior_revision r = au_revision st" "rc_revision r = au_revision st'" "rc_bootstrap_retired r = au_bootstrap_retired st'"
    "rc_tenant r = cf_tenant (au_config st)" "au_bootstrap_retired st \<longrightarrow> au_bootstrap_retired st'" "Suc (au_head st) \<le> max_integer"
    by (auto simp: authority_transition_Inr advance_Inr)
  note keep = at_head_stored[OF fresh, of init _ _ _ st']
  have here: "receipt_at ?s (Suc (au_head st)) r" using r(2) fresh by (simp add: receipt_at_stored)
  have "\<exists>h < au_head st'. rc_head x = Suc h \<and>
      (\<exists>retired. at_head init ?s h (rc_prior_revision x) retired \<and> (retired \<longrightarrow> rc_bootstrap_retired x))"
    if "ah_receipts ?s n = Some x" for n x
  proof (cases "n = rc_nonce r")
    case True
    with that have "x = r" by (simp add: stored_def)
    have "at_head init s (au_head st) (au_revision st) (au_bootstrap_retired st)" using ok by (simp add: history_ok_def)
    from keep[OF this] \<open>x = r\<close> r show ?thesis by auto
  next
    case False
    with that have "ah_receipts s n = Some x" by (simp add: stored_def)
    with ok obtain h retired where "h < au_head st" "rc_head x = Suc h" "at_head init s h (rc_prior_revision x) retired"
      "retired \<longrightarrow> rc_bootstrap_retired x" using historyD by blast
    with r(3) keep show ?thesis by (auto intro: less_SucI)
  qed
  moreover have "rc_nonce x = n \<and> rc_tenant x = cf_tenant (au_config st')" if "ah_receipts ?s n = Some x" for n x
    using that ok r by (auto simp: stored_def history_ok_def split: if_splits)
  moreover have "\<exists>!x. receipt_at ?s h x" if "h \<in> {1..au_head st'}" for h
  proof (cases "h = Suc (au_head st)")
    case True
    with here receipt_below[OF ok] show ?thesis by (fastforce simp: receipt_at_stored[OF fresh])
  next
    case False
    with that r(3) have "h \<in> {1..au_head st}" by auto
    then have "\<exists>!x. receipt_at s h x" using ok by (simp add: history_ok_def)
    then show ?thesis using False r(2) by (simp add: receipt_at_stored[OF fresh])
  qed
  moreover have "at_head init ?s (au_head st') (au_revision st') (au_bootstrap_retired st')"
    using here r by (auto simp: at_head_def)
  ultimately show ?thesis using r by (simp add: history_ok_def)
qed

lemma step_authority_ok: "auth_step e s s' \<Longrightarrow> authority_ok e s \<Longrightarrow> authority_ok e s'"
proof (induction rule: auth_step.induct)
  case (step_enroll c s st s')
  show ?case
  proof (cases "ah_state s")
    case None
    with step_enroll obtain i where "enrolled e c = Inr i" "s' = s\<lparr>ah_state := Some i\<rparr>" "cf_tenant c = ah_tenant s"
      "ah_receipts s = (\<lambda>_. None)"
      by (auto simp: enroll_def authority_ok_def res_bind_eq_Inr split: if_splits)
    with enrolled_Inr[of e c i] show ?thesis
      by (auto simp: authority_ok_def keys_ok_def history_ok_def at_head_def)
  next
    case (Some x)
    with step_enroll show ?thesis by (auto simp: enroll_def res_bind_eq_Inr split: if_splits)
  qed
next
  case (step_apply adm signed g s r s')
  from step_apply.hyps step_apply.prems show ?case
  proof (cases rule: apply_cases)
    case (install st st')
    with step_apply.prems obtain init where "cf_tenant (au_config st) = ah_tenant s" "keys_ok e st"
      "enrolled e (au_config st) = Inr init" "history_ok e s init st" by (auto simp: authority_ok_def)
    with install_history[OF _ install(2,3)] install_keys[OF install(3)] install(4) show ?thesis
      by (auto simp: authority_ok_def stored_def)
  qed (use step_apply.prems in simp)
qed

lemma run_authority_ok: "auth_run e s s' \<Longrightarrow> authority_ok e s \<Longrightarrow> authority_ok e s'"
  by (induction rule: rtranclp_induct) (auto intro: step_authority_ok)

lemma reachable_authority_ok: "auth_run e (new_authority_store t) s \<Longrightarrow> authority_ok e s"
  by (erule run_authority_ok) (simp add: authority_ok_def new_authority_store_def)

text \<open>What every later store keeps.\<close>

definition succeeds :: "authority_store \<Rightarrow> authority_store \<Rightarrow> bool" where
  "succeeds s q \<longleftrightarrow> ah_tenant q = ah_tenant s \<and> (\<forall>n r. ah_receipts s n = Some r \<longrightarrow> ah_receipts q n = Some r) \<and>
     (\<forall>st. ah_state s = Some st \<longrightarrow> (\<exists>st'. ah_state q = Some st' \<and> au_config st' = au_config st \<and> au_head st \<le> au_head st' \<and>
        (au_bootstrap_retired st \<longrightarrow> au_bootstrap_retired st')))"

lemma succeeds_refl: "succeeds s s"
  by (simp add: succeeds_def)

lemma succeeds_trans: "succeeds s q \<Longrightarrow> succeeds q r \<Longrightarrow> succeeds s r"
proof -
  assume a: "succeeds s q" and b: "succeeds q r"
  have "\<exists>st'. ah_state r = Some st' \<and> au_config st' = au_config st \<and> au_head st \<le> au_head st' \<and>
      (au_bootstrap_retired st \<longrightarrow> au_bootstrap_retired st')" if s: "ah_state s = Some st" for st
  proof -
    obtain x where x: "ah_state q = Some x" "au_config x = au_config st" "au_head st \<le> au_head x"
      "au_bootstrap_retired st \<longrightarrow> au_bootstrap_retired x" using a s by (auto simp: succeeds_def)
    moreover obtain y where "ah_state r = Some y" "au_config y = au_config x" "au_head x \<le> au_head y"
      "au_bootstrap_retired x \<longrightarrow> au_bootstrap_retired y" using b x(1) by (auto simp: succeeds_def)
    ultimately show ?thesis by auto
  qed
  with a b show "succeeds s r" by (simp add: succeeds_def)
qed

lemma install_succeeds:
  assumes "ah_state s = Some st" "ah_receipts s (rc_nonce r) = None" "authority_transition e st adm signed g None = Inr (st', r)"
  shows "succeeds s (stored st' r s)"
proof -
  have "au_config st' = au_config st" "au_head st' = au_head st + 1" "au_bootstrap_retired st \<longrightarrow> au_bootstrap_retired st'"
    using assms(3) by (auto simp: authority_transition_Inr advance_Inr)
  then show ?thesis using assms(1,2) by (simp add: succeeds_def stored_def)
qed

lemma step_succeeds: "auth_step e s s' \<Longrightarrow> authority_ok e s \<Longrightarrow> succeeds s s'"
proof (induction rule: auth_step.induct)
  case (step_enroll c s st s')
  then show ?case by (auto simp: enroll_def succeeds_def res_bind_eq_Inr split: if_splits option.splits)
next
  case (step_apply adm signed g s r s')
  from step_apply.hyps step_apply.prems show ?case
    by (cases rule: apply_cases) (simp_all add: succeeds_refl install_succeeds)
qed

lemma run_succeeds: "auth_run e s q \<Longrightarrow> authority_ok e s \<Longrightarrow> succeeds s q"
proof (induction rule: rtranclp_induct)
  case (step x y)
  then show ?case using run_authority_ok step_succeeds succeeds_trans by metis
qed (rule succeeds_refl)

section \<open>Properties\<close>

text \<open>C24. The governing history is linear. In every store reachable from an empty one, each position
  from one to the head has exactly one receipt, every stored receipt has such a position, the first
  receipt follows the revision of the enrolment, each later one the revision of the receipt before
  it, the last one states the current revision, and a receipt that retires the bootstrap keys is
  never followed by one that does not.\<close>

theorem authority_history_linear:
  assumes "auth_run e (new_authority_store tenant) s" "ah_state s = Some st"
  shows "\<exists>init. enrolled e (au_config st) = Inr init \<and> au_head st \<le> max_integer \<and>
    (\<forall>h \<in> {1..au_head st}. \<exists>!r. receipt_at s h r) \<and>
    (\<forall>n r. ah_receipts s n = Some r \<longrightarrow> receipt_at s (rc_head r) r \<and> rc_head r \<in> {1..au_head st}) \<and>
    (\<forall>r. receipt_at s 1 r \<longrightarrow> rc_prior_revision r = au_revision init) \<and>
    (\<forall>h r r'. 1 \<le> h \<longrightarrow> receipt_at s h r \<longrightarrow> receipt_at s (Suc h) r' \<longrightarrow>
       rc_prior_revision r' = rc_revision r \<and> (rc_bootstrap_retired r \<longrightarrow> rc_bootstrap_retired r')) \<and>
    (\<forall>r. 1 \<le> au_head st \<longrightarrow> receipt_at s (au_head st) r \<longrightarrow>
       rc_revision r = au_revision st \<and> rc_bootstrap_retired r = au_bootstrap_retired st)"
proof -
  from reachable_authority_ok[OF assms(1)] assms(2) obtain init where
    i: "enrolled e (au_config st) = Inr init" and h: "history_ok e s init st" by (auto simp: authority_ok_def)
  have unique: "receipt_at s h r \<Longrightarrow> receipt_at s h r' \<Longrightarrow> r = r'" for h r r'
    using h receipt_below[OF h] by (metis history_ok_def atLeastAtMost_iff)
  have "receipt_at s (rc_head r) r \<and> rc_head r \<in> {1..au_head st}" if "ah_receipts s n = Some r" for n r
  proof -
    have "receipt_at s (rc_head r) r" using that h by (auto simp: receipt_at_def history_ok_def)
    with receipt_below[OF h this] show ?thesis by simp
  qed
  moreover have "rc_prior_revision r = au_revision init" if "receipt_at s 1 r" for r
  proof -
    have r: "ah_receipts s (rc_nonce r) = Some r" "rc_head r = 1" using that by (simp_all add: receipt_at_def)
    from historyD[OF h r(1)] r(2) show ?thesis by (auto simp: at_head_def)
  qed
  moreover have "rc_prior_revision r' = rc_revision r \<and> (rc_bootstrap_retired r \<longrightarrow> rc_bootstrap_retired r')"
    if "1 \<le> k" "receipt_at s k r" "receipt_at s (Suc k) r'" for k r r'
  proof -
    obtain retired where "at_head init s k (rc_prior_revision r') retired" "retired \<longrightarrow> rc_bootstrap_retired r'"
      using historyD[OF h, of "rc_nonce r'" r'] \<open>receipt_at s (Suc k) r'\<close> by (auto simp: receipt_at_def)
    with \<open>1 \<le> k\<close> unique[OF \<open>receipt_at s k r\<close>] show ?thesis by (auto simp: at_head_def split: if_splits)
  qed
  moreover have "rc_revision r = au_revision st \<and> rc_bootstrap_retired r = au_bootstrap_retired st"
    if "1 \<le> au_head st" "receipt_at s (au_head st) r" for r
  proof -
    have "at_head init s (au_head st) (au_revision st) (au_bootstrap_retired st)" using h by (simp add: history_ok_def)
    then obtain x where "receipt_at s (au_head st) x" "rc_revision x = au_revision st" "rc_bootstrap_retired x = au_bootstrap_retired st"
      using \<open>1 \<le> au_head st\<close> by (auto simp: at_head_def)
    with unique[OF \<open>receipt_at s (au_head st) r\<close>] show ?thesis by blast
  qed
  ultimately show ?thesis using i h unfolding history_ok_def by blast
qed

text \<open>C25. Every installation was authorised. When a call installs a new state, it carried a signature
  over its own header and payload that verifies under a key enrolled for the current state, sent
  by the service enrolled for that key; the signed payload names a human subject of the key, this
  deployment, tenant, audience and epoch, exactly this artifact, and the current head and revision,
  and it was inside its validity of at most 300 seconds; and the call moved the head by one.\<close>

theorem installation_authorised:
  assumes "auth_run e (new_authority_store tenant) s" "ah_state s = Some st"
    and "apply_transition e adm signed g s = Inr (r, s')" "ah_receipts s (rc_nonce r) = None"
  shows "\<exists>h p sig payload key artifact st'. split_on (\<lambda>c. c = CHR ''.'') signed = [h, p, sig] \<and>
    parse_attestation e auth_denied p = Inr payload \<and> map_of (signer_keys st) (rc_key_id r) = Some key \<and>
    verify_signature e key (h @ ''.'' @ p) sig = Inr () \<and> ak_presenter key = dm_peer_service adm \<and>
    tn_subject payload \<in> set (ak_subjects key) \<and> tn_subject_kind payload = ''human'' \<and>
    tn_deployment payload = cf_deployment (au_config st) \<and> tn_tenant payload = tenant \<and>
    tn_audience payload = cf_audience (au_config st) \<and> tn_epoch payload = cf_epoch (au_config st) \<and>
    artifact_digest e g = Inr artifact \<and> tn_artifact_digest payload = artifact \<and>
    tn_expected_head payload = au_head st \<and> tn_expected_revision payload = au_revision st \<and>
    0 \<le> tn_iat payload \<and> tn_iat payload \<le> tn_nbf payload \<and> tn_nbf payload \<le> dm_now adm \<and> dm_now adm < tn_exp payload \<and>
    tn_exp payload - tn_iat payload \<le> 300 \<and>
    ah_state s' = Some st' \<and> au_head st' = au_head st + 1 \<and> au_artifact st' = Some g \<and> rc_head r = au_head st'"
proof -
  have ok: "authority_ok e s" using reachable_authority_ok[OF assms(1)] .
  have "ah_tenant s = tenant"
    using run_succeeds[OF assms(1)] by (simp add: succeeds_def authority_ok_def new_authority_store_def)
  with ok assms(2) have tenant: "cf_tenant (au_config st) = tenant" by (simp add: authority_ok_def)
  from assms(3) ok show ?thesis
  proof (cases rule: apply_cases)
    case (replay x)
    with assms(4) show ?thesis by (simp add: replays_def)
  next
    case (install x st')
    with assms(2) have x: "x = st" by simp
    from install(3) show ?thesis unfolding x
    proof (rule authority_transition_fresh)
      fix h p sig header payload attestation artifact key revision
      assume t: "reads_as e signed h p sig header payload" "artifact_digest e g = Inr artifact"
        "map_of (signer_keys st) (hd_kid header) = Some key" "verify_signature e key (h @ ''.'' @ p) sig = Inr ()"
        "\<not> attestation_refused st adm payload artifact key" "tn_expected_head payload = au_head st"
        "tn_expected_revision payload = au_revision st" "st' = install st g (au_head st + 1) revision"
        "r = issue_receipt st st' adm payload (hd_kid header) attestation artifact"
      have w: "tn_exp payload - tn_iat payload \<le> 300 \<and> 0 \<le> tn_iat payload \<and> tn_iat payload \<le> tn_nbf payload \<and>
          tn_nbf payload \<le> dm_now adm \<and> dm_now adm < tn_exp payload"
        using t(5) by (auto simp: attestation_refused_def checked_sub_i64_def split: if_splits)
      have a: "ak_presenter key = dm_peer_service adm \<and> tn_subject payload \<in> set (ak_subjects key) \<and> tn_subject_kind payload = ''human'' \<and>
          tn_deployment payload = cf_deployment (au_config st) \<and> tn_tenant payload = tenant \<and>
          tn_audience payload = cf_audience (au_config st) \<and> tn_epoch payload = cf_epoch (au_config st) \<and> tn_artifact_digest payload = artifact"
        using t(5) tenant by (simp add: attestation_refused_def)
      have "map_of (signer_keys st) (rc_key_id r) = Some key" "ah_state s' = Some st'" "au_head st' = au_head st + 1"
        "au_artifact st' = Some g" "rc_head r = au_head st'" using t install(4) by (simp_all add: stored_def)
      with t a w show ?thesis unfolding reads_as_def by blast
    qed
  qed
qed

text \<open>C26. Retired bootstrap keys have no power left. Once a reachable state has retired its bootstrap
  keys, every later state has, the keys that then govern are valid and none of them is a bootstrap
  key under whatever identifier, and every later installation is signed under one of them.\<close>

theorem retired_bootstrap_powerless:
  assumes "auth_run e (new_authority_store tenant) s" "ah_state s = Some st" "au_bootstrap_retired st" "auth_run e s q"
  shows "\<exists>st'. ah_state q = Some st' \<and> au_bootstrap_retired st' \<and> validate_keys e (au_governing_keys st') = Inr () \<and>
    ak_public_key ` snd ` set (au_governing_keys st') \<inter> bootstrap_public st = {} \<and>
    (\<forall>adm signed g r q'. apply_transition e adm signed g q = Inr (r, q') \<longrightarrow> ah_receipts q (rc_nonce r) = None \<longrightarrow>
      (\<exists>h p sig key. split_on (\<lambda>c. c = CHR ''.'') signed = [h, p, sig] \<and>
        map_of (au_governing_keys st') (rc_key_id r) = Some key \<and> ak_public_key key \<notin> bootstrap_public st \<and>
        verify_signature e key (h @ ''.'' @ p) sig = Inr () \<and> rc_bootstrap_retired r))"
proof -
  have run: "auth_run e (new_authority_store tenant) q" using assms(1,4) by (rule rtranclp_trans)
  have ok: "authority_ok e q" using reachable_authority_ok[OF run] .
  from run_succeeds[OF assms(4) reachable_authority_ok[OF assms(1)]] assms(2,3) obtain st' where
    st': "ah_state q = Some st'" "au_bootstrap_retired st'" "au_config st' = au_config st" by (auto simp: succeeds_def)
  with ok have keys: "validate_keys e (au_governing_keys st') = Inr ()"
    "ak_public_key ` snd ` set (au_governing_keys st') \<inter> bootstrap_public st = {}"
    by (auto simp: authority_ok_def keys_ok_def)
  have "\<exists>h p sig key. split_on (\<lambda>c. c = CHR ''.'') signed = [h, p, sig] \<and>
      map_of (au_governing_keys st') (rc_key_id r) = Some key \<and> ak_public_key key \<notin> bootstrap_public st \<and>
      verify_signature e key (h @ ''.'' @ p) sig = Inr () \<and> rc_bootstrap_retired r"
    if a: "apply_transition e adm signed g q = Inr (r, q')" and fresh: "ah_receipts q (rc_nonce r) = None" for adm signed g r q'
    using a ok
  proof (cases rule: apply_cases)
    case (replay x)
    with fresh show ?thesis by (simp add: replays_def)
  next
    case (install x y)
    with st' have x: "x = st'" by simp
    from install(3)[unfolded x] obtain h p sig key where t: "split_on (\<lambda>c. c = CHR ''.'') signed = [h, p, sig]"
      "map_of (au_governing_keys st') (rc_key_id r) = Some key" "verify_signature e key (h @ ''.'' @ p) sig = Inr ()" "rc_bootstrap_retired r"
      by (rule authority_transition_fresh) (use st'(2) in \<open>auto simp: reads_as_def signer_keys_def\<close>)
    have "ak_public_key key \<in> ak_public_key ` snd ` set (au_governing_keys st')"
      using map_of_SomeD[OF t(2)] by (metis image_eqI snd_conv)
    with keys(2) t show ?thesis by auto
  qed
  with st' keys show ?thesis by blast
qed

text \<open>A nonce is spent once and its receipt can be read again. After an installation, in every later
  store, the same presenter sending the same attestation and artifact under an acceptable fence
  gets the same receipt and changes nothing, whatever became of the signer and the validity; and
  any call whose attestation carries that nonce changes nothing and answers, if it answers, with
  that receipt.\<close>

theorem nonce_spent_once:
  assumes "auth_run e (new_authority_store tenant) s" "apply_transition e adm signed g s = Inr (r, s')" "auth_run e s' q"
  shows "(\<forall>adm' st'. ah_state q = Some st' \<longrightarrow> check_fence st' (dm_fence adm') = Inr () \<longrightarrow> dm_tenant adm' = tenant \<longrightarrow>
      dm_peer_service adm' = rc_presenter r \<longrightarrow> apply_transition e adm' signed g q = Inr (r, q)) \<and>
    (\<forall>adm' signed' g' r' q'. untrusted_nonce e signed' = Inr (rc_nonce r) \<longrightarrow>
      apply_transition e adm' signed' g' q = Inr (r', q') \<longrightarrow> r' = r \<and> q' = q)"
proof -
  have ok: "authority_ok e s" "authority_ok e s'" "authority_ok e q"
    using reachable_authority_ok[OF assms(1)] step_authority_ok[OF step_apply[OF assms(2)]] run_authority_ok[OF assms(3)] by blast+
  have t: "ah_tenant q = tenant"
    using run_succeeds[OF assms(1)] step_succeeds[OF step_apply[OF assms(2)] ok(1)] run_succeeds[OF assms(3) ok(2)]
    by (simp add: succeeds_def authority_ok_def new_authority_store_def)
  note r = apply_reads[OF assms(2) ok(1)]
  have kept: "ah_receipts q (rc_nonce r) = Some r" using run_succeeds[OF assms(3) ok(2)] r by (simp add: succeeds_def)
  have same: "apply_transition e adm' signed g q = Inr (r, q)"
    if q: "ah_state q = Some st'" and a: "check_fence st' (dm_fence adm') = Inr ()" "dm_tenant adm' = tenant"
      "dm_peer_service adm' = rc_presenter r" for adm' st'
  proof -
    have tenant: "cf_tenant (au_config st') = tenant" using ok(3) q t by (simp add: authority_ok_def)
    then have "rc_tenant r = tenant" using ok(3) q kept by (auto simp: authority_ok_def history_ok_def)
    moreover obtain h p sig header payload where rd: "reads_as e signed h p sig header payload" using r by blast
    moreover have "tn_nonce payload = rc_nonce r" using nonce_reads[OF conjunct1[OF r] rd] .
    ultimately have n: "rc_nonce r = tn_nonce payload" "rc_tenant r = dm_tenant adm'" "rc_presenter r = dm_peer_service adm'"
      "reads_as e signed h p sig header payload" "dm_tenant adm' = cf_tenant (au_config st')" using a tenant by simp_all
    from r have d: "artifact_digest e g = Inr (rc_artifact_digest r)"
      "record_digest (ae_codec e) ''munarium:authority-attestation:v1'' (jobj [(''jws'', JStr signed)]) = Inr (rc_attestation_digest r)"
      by blast+
    have "authority_transition e st' adm' signed g (Some r) = Inr (st', r)"
      unfolding authority_transition_Inr option.case replayed_Inr
      by (rule conjI[OF a(1) conjI[OF n(5)]], intro exI conjI, rule n(4), rule d(2), rule d(1))
         (rule n(1) n(2) n(3) refl)+
    moreover have "q\<lparr>ah_receipts := ah_receipts q, ah_state := Some st'\<rparr> = q" using q by (cases q) simp
    ultimately show ?thesis using r q kept by (simp add: apply_transition_def)
  qed
  moreover have "r' = r \<and> q' = q"
    if n: "untrusted_nonce e signed' = Inr (rc_nonce r)" and a: "apply_transition e adm' signed' g' q = Inr (r', q')" for adm' signed' g' r' q'
  proof -
    have "untrusted_nonce e signed' = Inr (rc_nonce r')" using apply_reads[OF a ok(3)] ..
    with n have same: "rc_nonce r' = rc_nonce r" by simp
    from a ok(3) show ?thesis
    proof (cases rule: apply_cases)
      case (replay st)
      then have "ah_receipts q (rc_nonce r') = Some r'" by (simp add: replays_def)
      with same kept replay(4) show ?thesis by simp
    next
      case (install st st')
      with same kept show ?thesis by simp
    qed
  qed
  ultimately show ?thesis by blast
qed

end
