(* ===== verification/Authority_Run.thy ===== *)
theory Authority_Run
  imports Authority_Properties
begin

text \<open>
  A concrete history: an enrolled signer installs an artifact that retires the bootstrap keys. It
  shows that the hypotheses of the authority's properties hold of real runs.
\<close>

text \<open>A codec whose records are named by their first key, and an encoding that is the identity.\<close>

definition sample_codec :: codec where
  "sample_codec = \<lparr>jc_parse = \<lambda>raw. Some (JObj [(raw, JNull)]),
     jc_bytes = (\<lambda>v. case v of JObj ((k, _) # _) \<Rightarrow> k | _ \<Rightarrow> []), jc_sha = \<lambda>raw. ''00''\<rparr>"

definition sample_key :: "char \<Rightarrow> authority_key" where
  "sample_key c = \<lparr>ak_public_key = replicate 32 c, ak_issuer = ''issuer'', ak_presenter = ''council'', ak_subjects = [''alice'']\<rparr>"

definition sample_config :: authority_config where
  "sample_config = \<lparr>cf_deployment = ''dep'', cf_tenant = ''demo'', cf_audience = ''server'', cf_epoch = 1,
     cf_bootstrap_keys = [(''k1'', sample_key CHR ''A'')]\<rparr>"

definition sample_artifact :: governance_artifact where
  "sample_artifact = \<lparr>gv_schema_version = 1, gv_bindings = [], gv_retire_bootstrap = True,
     gv_successor_keys = [(''k2'', sample_key CHR ''B'')]\<rparr>"

definition sample_attestation :: authority_attestation where
  "sample_attestation = \<lparr>tn_schema_version = 1, tn_deployment = ''dep'', tn_tenant = ''demo'', tn_audience = ''server'',
     tn_issuer = ''issuer'', tn_subject = ''alice'', tn_subject_kind = ''human'', tn_action = ''install-governance'',
     tn_artifact_digest = ''sha256:00'', tn_expected_revision = ''sha256:00'', tn_expected_head = 0, tn_epoch = 1,
     tn_nonce = ''n1'', tn_iat = 100, tn_nbf = 100, tn_exp = 200\<rparr>"

definition sample_env :: auth_env where
  "sample_env = \<lparr>ae_codec = sample_codec, ae_b64_decode = Some, ae_b64_encode = (\<lambda>bs. bs),
     ae_header = \<lambda>_. Some \<lparr>hd_alg = ''Ed25519'', hd_kid = ''k1'', hd_typ = ''munarium-authority+jws''\<rparr>,
     ae_attestation = \<lambda>_. Some sample_attestation, ae_config_json = \<lambda>_. JObj [(''c'', JNull)],
     ae_artifact_json = \<lambda>_. JObj [(''g'', JNull)], ae_key_point = \<lambda>_. True, ae_key_weak = \<lambda>_. False,
     ae_signature = \<lambda>_. True, ae_verify_strict = \<lambda>_ _ _. True\<rparr>"

definition sample_start :: authority_state where
  "sample_start = \<lparr>au_config = sample_config, au_head = 0, au_revision = ''sha256:00'', au_bootstrap_retired = False,
     au_governing_keys = [], au_artifact = None\<rparr>"

definition sample_admission :: authority_admission where
  "sample_admission = \<lparr>dm_tenant = ''demo'', dm_peer_service = ''council'', dm_now = 150, dm_fence = state_fence sample_start\<rparr>"

definition sample_enrolled :: authority_store where
  "sample_enrolled = \<lparr>ah_tenant = ''demo'', ah_state = Some sample_start, ah_receipts = (\<lambda>_. None)\<rparr>"

definition sample_next :: authority_state where
  "sample_next = install sample_start sample_artifact 1 ''sha256:00''"

definition sample_receipt :: authority_receipt where
  "sample_receipt = issue_receipt sample_start sample_next sample_admission sample_attestation ''k1'' ''sha256:00'' ''sha256:00''"

definition sample_installed :: authority_store where
  "sample_installed = stored sample_next sample_receipt sample_enrolled"

lemma sample_records: "canonical_record sample_codec raw = (if 65536 < length raw \<or> (\<exists>c \<in> set raw. 128 \<le> (of_char c :: nat))
    then Inl record_invalid else Inr (JObj [(raw, JNull)]))"
  by (auto simp: canonical_record_def sample_codec_def list_all_iff not_less)

lemma sample_codec_simps: "jc_bytes sample_codec (JObj ((k, v) # kvs)) = k" "jc_sha sample_codec raw = ''00''"
  by (simp_all add: sample_codec_def)

lemma sample_digest: "length k \<le> 65536 \<Longrightarrow> (\<forall>c \<in> set k. (of_char c :: nat) < 128) \<Longrightarrow>
    record_digest sample_codec domain (JObj ((k, v) # kvs)) = Inr ''sha256:00''"
  by (auto simp: record_digest_Inr sample_records sample_codec_simps not_le)

lemma sample_identifiers: "auth_identifier ''dep''" "auth_identifier ''demo''" "auth_identifier ''server''" "auth_identifier ''issuer''"
    "auth_identifier ''council''" "auth_identifier ''alice''" "auth_identifier ''k1''" "auth_identifier ''k2''" "auth_identifier ''n1''"
  by code_simp+

lemma sample_b64: "b64_canonical sample_env s = Inr s"
  by (simp add: b64_canonical_def sample_env_def)

lemma sample_keys: "validate_keys sample_env [(''k1'', sample_key c)] = Inr ()" "validate_keys sample_env [(''k2'', sample_key c)] = Inr ()"
  by (simp_all add: validate_keys_def validate_key_def sample_b64 sample_key_def sample_identifiers)
     (simp_all add: sample_env_def)

lemma sample_enroll: "enroll sample_env sample_config (new_authority_store ''demo'') = Inr (sample_start, sample_enrolled)"
proof -
  have "validate_config sample_env sample_config = Inr ()"
    by (simp add: validate_config_def sample_config_def sample_identifiers sample_keys max_integer_def)
  then have "enrolled sample_env sample_config = Inr sample_start"
    using sample_digest[of "''c''"] by (simp add: enrolled_def sample_start_def sample_env_def of_char_def)
  then show ?thesis
    by (simp add: enroll_def new_authority_store_def sample_enrolled_def sample_config_def)
qed

lemma sample_reads: "reads_as sample_env ''h.p.s'' ''h'' ''p'' ''s'' \<lparr>hd_alg = ''Ed25519'', hd_kid = ''k1'', hd_typ = ''munarium-authority+jws''\<rparr>
    sample_attestation"
proof -
  have "split_on (\<lambda>c. c = CHR ''.'') ''h.p.s'' = [''h'', ''p'', ''s'']" "byte_len ''h.p.s'' \<le> 16384" by code_simp+
  then show ?thesis
    by (simp add: reads_as_def parse_header_def parse_attestation_def sample_b64) (simp add: sample_env_def sample_records of_char_def)
qed

lemma sample_apply: "apply_transition sample_env sample_admission ''h.p.s'' sample_artifact sample_enrolled =
    Inr (sample_receipt, sample_installed)"
proof -
  have n: "untrusted_nonce sample_env ''h.p.s'' = Inr ''n1''"
  proof -
    have "parse_attestation sample_env auth_invalid ''p'' = Inr sample_attestation"
      by (simp add: parse_attestation_def sample_b64) (simp add: sample_env_def sample_records of_char_def)
    moreover have "tn_nonce sample_attestation = ''n1''" by (simp add: sample_attestation_def)
    moreover have "split_on (\<lambda>c. c = CHR ''.'') ''h.p.s'' = [''h'', ''p'', ''s'']" "byte_len ''h.p.s'' \<le> 16384"
      using sample_reads unfolding reads_as_def by blast+
    ultimately show ?thesis using sample_identifiers(9) by (simp add: untrusted_nonce_def)
  qed
  have g: "artifact_digest sample_env sample_artifact = Inr ''sha256:00''"
    using sample_digest[of "''g''"] by (simp add: artifact_digest_def sample_artifact_def sample_keys) (simp add: sample_env_def of_char_def)
  have a: "record_digest sample_codec domain (jobj [(''jws'', JStr v)]) = Inr ''sha256:00''" for domain v
    using sample_digest[of "''jws''"] by (simp add: jobj_def of_char_def)
  have "revision_record x n y z = JObj [(''artifact'', JStr z), (''attestation'', JStr y), (''head'', jnat n), (''prior'', JStr x)]" for x n y z
    by (simp add: revision_record_def jobj_def less_char_def of_char_def)
  then have v: "record_digest sample_codec domain (revision_record x n y z) = Inr ''sha256:00''" for domain x n y z
    using sample_digest[of "''artifact''"] by (simp add: of_char_def)
  have k: "map_of (signer_keys sample_start) ''k1'' = Some (sample_key CHR ''A'')"
    by (simp add: signer_keys_def sample_start_def sample_config_def)
  have s: "verify_signature sample_env (sample_key CHR ''A'') m ''s'' = Inr ()" for m
    by (simp add: verify_signature_def sample_b64 sample_key_def) (simp add: sample_env_def)
  have p: "\<not> attestation_refused sample_start sample_admission sample_attestation ''sha256:00'' (sample_key CHR ''A'')"
    using sample_identifiers(9)
    by (simp add: attestation_refused_def sample_start_def sample_admission_def sample_attestation_def sample_config_def sample_key_def
        checked_sub_i64_def as_u64_def max_integer_def)
  have "\<not> reinstates_bootstrap sample_start sample_artifact"
    by (simp add: reinstates_bootstrap_def sample_start_def sample_artifact_def sample_config_def sample_key_def)
  then have d: "advance sample_env sample_start sample_admission sample_artifact sample_attestation ''k1'' ''sha256:00'' ''sha256:00'' =
      Inr (sample_next, sample_receipt)"
    using v unfolding advance_Inr sample_receipt_def
    by (simp add: sample_start_def sample_attestation_def sample_artifact_def sample_next_def max_integer_def) (simp add: sample_env_def)
  have f: "check_fence sample_start (dm_fence sample_admission) = Inr ()" "dm_tenant sample_admission = cf_tenant (au_config sample_start)"
    by (simp_all add: check_fence_def sample_admission_def state_fence_def sample_start_def sample_config_def)
  have "authority_transition sample_env sample_start sample_admission ''h.p.s'' sample_artifact None = Inr (sample_next, sample_receipt)"
    unfolding authority_transition_Inr option.case
    by (rule conjI[OF f(1) conjI[OF f(2)]], intro exI conjI, rule sample_reads, unfold jws_header.simps, simp add: sample_env_def a,
        rule g, rule k, rule s, rule p, rule d)
  then show ?thesis
    by (simp add: apply_transition_def n sample_enrolled_def sample_installed_def stored_def sample_receipt_def sample_attestation_def)
qed

lemma sample_runs: "auth_run sample_env (new_authority_store ''demo'') sample_enrolled" "auth_run sample_env sample_enrolled sample_installed"
    "auth_run sample_env (new_authority_store ''demo'') sample_installed"
proof -
  show a: "auth_run sample_env (new_authority_store ''demo'') sample_enrolled" using step_enroll[OF sample_enroll] by (rule r_into_rtranclp)
  show b: "auth_run sample_env sample_enrolled sample_installed" using step_apply[OF sample_apply] by (rule r_into_rtranclp)
  from a b show "auth_run sample_env (new_authority_store ''demo'') sample_installed" by (rule rtranclp_trans)
qed

lemma sample_states: "ah_state sample_enrolled = Some sample_start" "ah_state sample_installed = Some sample_next"
    "ah_receipts sample_enrolled n = None" "au_bootstrap_retired sample_next" "au_head sample_next = 1" "au_config sample_next = sample_config"
  by (simp_all add: sample_enrolled_def sample_installed_def stored_def sample_next_def sample_artifact_def sample_start_def)

lemma authority_history_linear_witness:
  "\<exists>init. enrolled sample_env (au_config sample_next) = Inr init \<and> (\<forall>h \<in> {1..au_head sample_next}. \<exists>!r. receipt_at sample_installed h r)"
  using authority_history_linear[OF sample_runs(3) sample_states(2)]
proof (elim exE conjE)
  fix init assume "enrolled sample_env (au_config sample_next) = Inr init"
    "\<forall>h \<in> {1..au_head sample_next}. \<exists>!r. receipt_at sample_installed h r"
  then show ?thesis by (intro exI conjI)
qed

lemma installation_authorised_witness:
  "\<exists>key. map_of (signer_keys sample_start) (rc_key_id sample_receipt) = Some key \<and> ak_presenter key = dm_peer_service sample_admission"
  using installation_authorised[OF sample_runs(1) sample_states(1) sample_apply sample_states(3)]
proof (elim exE conjE)
  fix h p sig payload key artifact st'
  assume "map_of (signer_keys sample_start) (rc_key_id sample_receipt) = Some key" "ak_presenter key = dm_peer_service sample_admission"
  then show ?thesis by (intro exI conjI)
qed

lemma retired_bootstrap_powerless_witness:
  "\<exists>st. ah_state sample_installed = Some st \<and> ak_public_key ` snd ` set (au_governing_keys st) \<inter> bootstrap_public sample_next = {}"
  using retired_bootstrap_powerless[OF sample_runs(3) sample_states(2,4) rtranclp.rtrancl_refl]
proof (elim exE conjE)
  fix st assume "ah_state sample_installed = Some st" "ak_public_key ` snd ` set (au_governing_keys st) \<inter> bootstrap_public sample_next = {}"
  then show ?thesis by (intro exI conjI)
qed

lemma nonce_spent_once_witness:
  "apply_transition sample_env sample_admission ''h.p.s'' sample_artifact sample_installed = Inr (sample_receipt, sample_installed)"
proof -
  have "check_fence sample_next (dm_fence sample_admission) = Inr ()" "dm_tenant sample_admission = ''demo''"
    "dm_peer_service sample_admission = rc_presenter sample_receipt"
    by (simp_all add: check_fence_def sample_admission_def state_fence_def sample_start_def sample_next_def sample_receipt_def)
  with nonce_spent_once[OF sample_runs(1) sample_apply rtranclp.rtrancl_refl] sample_states(2) show ?thesis by blast
qed

end
