(* ===== verification/Actions.thy ===== *)
theory Actions
  imports Canonical
begin

text \<open>
  Action records (\<open>munarium-core/src/platform_actions/mod.rs\<close>): the policy that admits producers,
  the intrinsic checks of a record, and the check of an acknowledgement. Records are JSON values,
  as in the code. The JSON Schema validator with its embedded schema and the embedded profile are
  the parameters \<open>an_schema\<close> and \<open>an_profile\<close> (\<open>None\<close> when the embedded file does not parse).
\<close>

record action_env =
  an_codec :: codec
  an_schema :: "(json \<Rightarrow> bool) option"
  an_profile :: "json option"

definition ACTION_PROFILE :: string where
  "ACTION_PROFILE = ''stage2-single-cell-v1''"

definition act_invalid :: kernel_error where
  "act_invalid = InvalidInput ''invalid platform action record''"

definition act_denied :: kernel_error where
  "act_denied = Forbidden ''platform action record authority refused''"

definition j_text :: "json \<Rightarrow> kernel_error + string" where
  "j_text v = ok_or (jas_str v) act_invalid"

definition j_number :: "json \<Rightarrow> kernel_error + nat" where
  "j_number v = (case jas_u64 v of None \<Rightarrow> Inl act_invalid | Some n \<Rightarrow> if n \<le> max_integer then Inr n else Inl act_invalid)"

definition act_identifier :: "string \<Rightarrow> bool" where
  "act_identifier v \<longleftrightarrow> v \<noteq> [] \<and> byte_len v \<le> 128 \<and> ascii_alnum (hd v) \<and>
     (\<forall>c \<in> set v. ascii_alnum c \<or> c \<in> set '':._/-'')"

definition act_hash :: "string \<Rightarrow> bool" where
  "act_hash v \<longleftrightarrow> byte_len v = 71 \<and> starts_with v ''sha256:'' \<and>
     (\<forall>c \<in> set (drop 7 v). ascii_digit c \<or> (let n = of_char c :: nat in 97 \<le> n \<and> n \<le> 102))"

section \<open>Policy\<close>

record scope =
  sc_domain :: string
  sc_tenant :: string
  sc_deployment :: string
  sc_cell :: string

definition scope_value :: "scope \<Rightarrow> json" where
  "scope_value s = jobj [(''domain'', JStr (sc_domain s)), (''tenant'', JStr (sc_tenant s)),
     (''deployment'', JStr (sc_deployment s)), (''cell'', JStr (sc_cell s))]"

definition scope_valid :: "scope \<Rightarrow> bool" where
  "scope_valid s \<longleftrightarrow> list_all act_identifier [sc_domain s, sc_tenant s, sc_deployment s, sc_cell s]"

record stream_registration =
  sg_stream_id :: string
  sg_producer :: string
  sg_service :: string
  sg_generation :: nat
  sg_kinds :: "string list"

record recovery_permit =
  pt_recorder :: string
  pt_producer :: string
  pt_stream_id :: string
  pt_generation :: nat
  pt_kind :: string
  pt_event_digest :: string
  pt_claim_id :: string
  pt_claim_event_digest :: string
  pt_cutoff :: nat

record action_policy =
  py_schema_version :: nat
  py_profile :: string
  py_scope :: scope
  py_streams :: "stream_registration list"
  py_readers :: "string list"
  py_recovery :: "recovery_permit list"

definition producer_allowed :: "string \<Rightarrow> string \<Rightarrow> bool" where
  "producer_allowed kind producer \<longleftrightarrow>
     (if kind = ''approval-recorded'' then producer = ''council''
      else if kind = ''grant-issued'' then producer = ''warden''
      else if kind \<in> {''claim-created'', ''consumption-reserved'', ''predispatch'', ''send-intent'', ''outcome'', ''reconciliation''}
      then producer = ''gate''
      else if kind = ''activation-applied'' then producer \<in> {''gate'', ''registry'', ''server'', ''warden''}
      else False)"

definition recoverable :: "string \<Rightarrow> bool" where
  "recoverable kind \<longleftrightarrow> kind \<in> {''claim-created'', ''grant-issued'', ''consumption-reserved'', ''predispatch'', ''send-intent'',
     ''outcome'', ''reconciliation''}"

definition policy_stream :: "action_policy \<Rightarrow> string \<Rightarrow> stream_registration option" where
  "policy_stream p i = find (\<lambda>s. sg_stream_id s = i) (py_streams p)"

fun check_streams :: "string list \<Rightarrow> stream_registration list \<Rightarrow> kernel_error + unit" where
  "check_streams ids [] = Inr ()"
| "check_streams ids (s # ss) =
     (if \<not> act_identifier (sg_stream_id s) \<or> \<not> act_identifier (sg_service s) \<or> sg_stream_id s \<in> set ids \<or> sg_generation s = 0
       \<or> max_integer < sg_generation s \<or> sg_kinds s = [] \<or> (\<exists>k \<in> set (sg_kinds s). \<not> producer_allowed k (sg_producer s))
      then Inl act_denied else check_streams (sg_stream_id s # ids) ss)"

fun check_permits :: "action_policy \<Rightarrow> (string \<times> string) list \<Rightarrow> recovery_permit list \<Rightarrow> kernel_error + unit" where
  "check_permits p seen [] = Inr ()"
| "check_permits p seen (t # ts) =
     (case policy_stream p (pt_stream_id t) of
        None \<Rightarrow> Inl act_denied
      | Some s \<Rightarrow>
          if \<not> act_identifier (pt_recorder t) \<or> \<not> act_identifier (pt_claim_id t) \<or> pt_producer t \<noteq> sg_producer s
            \<or> pt_generation t = 0 \<or> sg_generation s \<le> pt_generation t \<or> pt_kind t \<notin> set (sg_kinds s) \<or> \<not> recoverable (pt_kind t)
            \<or> \<not> act_hash (pt_event_digest t) \<or> \<not> act_hash (pt_claim_event_digest t) \<or> max_integer < pt_cutoff t
            \<or> (pt_recorder t, pt_event_digest t) \<in> set seen
          then Inl act_denied
          else check_permits p ((pt_recorder t, pt_event_digest t) # seen) ts)"

definition validate_policy :: "action_policy \<Rightarrow> kernel_error + unit" where
  "validate_policy p =
     (if py_schema_version p \<noteq> 1 \<or> py_profile p \<noteq> ACTION_PROFILE \<or> \<not> scope_valid (py_scope p) \<or> py_streams p = []
       \<or> 128 < length (py_streams p) \<or> 32 < length (py_readers p) \<or> (\<exists>r \<in> set (py_readers p). \<not> act_identifier r)
       \<or> 256 < length (py_recovery p)
      then Inl act_denied
      else
      res_bind (check_streams [] (py_streams p)) (\<lambda>_. check_permits p [] (py_recovery p)))"

text \<open>The verified identity a receiving adapter hands over (\<open>platform.rs\<close>).\<close>

record recorder_identity =
  ri_origin :: string
  ri_actor :: string
  ri_origin_kind :: string
  ri_principal_digest :: string

record action_admission =
  aa_identity :: recorder_identity
  aa_service :: string
  aa_tenant :: string
  aa_deployment :: string
  aa_now :: nat
  aa_can_record :: bool
  aa_can_read :: bool

section \<open>Intrinsic checks\<close>

definition action_digest :: "action_env \<Rightarrow> string \<Rightarrow> json \<Rightarrow> kernel_error + string" where
  "action_digest e domain v = record_digest (an_codec e) (''munarium:stage2:'' @ domain @ '':v1'') v"

text \<open>\<open>actual != action_digest(domain, value)?\<close>\<close>

definition digest_differs :: "action_env \<Rightarrow> json \<Rightarrow> string \<Rightarrow> json \<Rightarrow> kernel_error + bool" where
  "digest_differs e actual domain v = res_bind (action_digest e domain v) (\<lambda>d. Inr (actual \<noteq> JStr d))"

text \<open>Disjunction of checks that may fail, evaluated from the left until one holds.\<close>

fun res_any :: "('e + bool) list \<Rightarrow> 'e + bool" where
  "res_any [] = Inr False"
| "res_any (c # cs) = res_bind c (\<lambda>b. if b then Inr True else res_any cs)"

definition refuse_if :: "'e \<Rightarrow> ('e + bool) list \<Rightarrow> 'e + unit" where
  "refuse_if err cs = res_bind (res_any cs) (\<lambda>b. if b then Inl err else Inr ())"

definition attachment_bytes :: "json list \<Rightarrow> kernel_error + nat" where
  "attachment_bytes vs = res_fold (\<lambda>n a. res_bind (j_number (jx a ''bytes'')) (\<lambda>b. ok_or (checked_add n b) act_invalid)) 0 vs"

definition check_request :: "action_env \<Rightarrow> json \<Rightarrow> kernel_error + unit" where
  "check_request e v =
     res_bind (refuse_if act_invalid [digest_differs e (jx v ''intent_digest'') ''intent'' (jx v ''intent''),
       digest_differs e (jx v ''context_digest'') ''context'' (jx v ''context'')]) (\<lambda>_.
     res_bind (ok_or (jas_array (jx (jx v ''intent'') ''attachments'')) act_invalid) (\<lambda>attachments.
     res_bind (attachment_bytes attachments) (\<lambda>bytes. if 1048576 < bytes then Inl act_invalid else Inr ())))"

definition check_approval :: "json \<Rightarrow> kernel_error + unit" where
  "check_approval v =
     res_bind (j_number (jx v ''expires_at'')) (\<lambda>expires.
     res_bind (j_number (jx v ''issued_at'')) (\<lambda>issued.
     res_bind (ok_or (checked_sub expires issued) act_invalid) (\<lambda>lifetime.
     if lifetime = 0 \<or> 300 < lifetime \<or> jx (jx v ''approver'') ''kind'' \<noteq> JStr ''human'' then Inl act_invalid else Inr ())))"

definition number_le :: "json \<Rightarrow> json \<Rightarrow> kernel_error + bool" where
  "number_le a b = res_bind (j_number a) (\<lambda>m. res_bind (j_number b) (\<lambda>n. Inr (m \<le> n)))"

definition activation_participants :: json where
  "activation_participants = JArr [JStr ''gate'', JStr ''registry'', JStr ''server'', JStr ''warden'']"

definition check_activation :: "action_env \<Rightarrow> json \<Rightarrow> kernel_error + unit" where
  "check_activation e v =
     res_bind (ok_or (an_profile e) act_invalid) (\<lambda>profile.
     res_bind (ok_or (jas_array (jx v ''artifacts'')) act_invalid) (\<lambda>artifacts.
     refuse_if act_invalid
       [number_le (jx v ''successor_epoch'') (jx v ''prior_epoch''),
        digest_differs e (jx v ''profile_digest'') ''profile'' profile,
        Inr (\<not> distinct (map (\<lambda>a. jas_str (jx a ''kind'')) artifacts)),
        number_le (jx v ''expires_at'') (jx v ''not_before''),
        Inr (jx v ''participants'' \<noteq> activation_participants),
        digest_differs e (jx v ''artifact_set_digest'') ''artifact-set'' (jobj [(''artifacts'', jx v ''artifacts'')]),
        digest_differs e (jx v ''participant_set_digest'') ''participants'' (jobj [(''participants'', jx v ''participants'')])]))"

definition check_event :: "action_env \<Rightarrow> json \<Rightarrow> kernel_error + unit" where
  "check_event e v =
     res_bind (j_text (jx v ''kind'')) (\<lambda>kind.
     let activation = (kind = ''activation-applied''); payload = jx v ''payload'' in
     res_bind (refuse_if act_invalid
       [Inr (jx payload ''kind'' \<noteq> JStr kind),
        Inr (jx v ''family'' \<noteq> JStr (if activation then ''activation'' else ''action'')),
        digest_differs e (jx v ''payload_digest'') ''event-payload'' payload,
        Inr ((jx v ''sequence'' = jnat 1) \<noteq> (jx v ''predecessor'' = JNull)),
        res_bind (j_text (jx v ''producer'')) (\<lambda>producer. Inr (\<not> producer_allowed kind producer))]) (\<lambda>_.
     if activation \<and> (jx (jx payload ''receipt'') ''participant'' \<noteq> jx v ''producer''
       \<or> jx (jx payload ''receipt'') ''phase'' \<noteq> JStr ''applied'') then Inl act_invalid
     else if kind \<in> {''outcome'', ''reconciliation''} \<and> jx payload ''effect_status'' \<noteq> JStr ''unresolved''
       \<and> (case jas_array (jx payload ''evidence'') of None \<Rightarrow> True | Some vs \<Rightarrow> vs = []) then Inl act_invalid
     else Inr ()))"

definition validate_action_record :: "action_env \<Rightarrow> json \<Rightarrow> kernel_error + unit" where
  "validate_action_record e v =
     res_bind (canonical_record (an_codec e) (jc_bytes (an_codec e) v)) (\<lambda>_.
     res_bind (ok_or (an_schema e) act_invalid) (\<lambda>is_valid.
     if \<not> is_valid v then Inl act_invalid
     else
     res_bind (j_text (jx v ''type'')) (\<lambda>ty.
     if ty = ''action-request'' then check_request e v
     else if ty = ''action-approval'' then check_approval v
     else if ty = ''activation'' then check_activation e v
     else if ty = ''accountability-event'' then check_event e v
     else Inr ())))"

text \<open>Every object inside a value that has a scope has this one.\<close>

fun scope_confined :: "json \<Rightarrow> json \<Rightarrow> bool" where
  "scope_confined (JObj kvs) s \<longleftrightarrow> (case map_of kvs ''scope'' of None \<Rightarrow> True | Some x \<Rightarrow> x = s) \<and>
     list_all (\<lambda>v. scope_confined v s) (map snd kvs)"
| "scope_confined (JArr vs) s \<longleftrightarrow> list_all (\<lambda>v. scope_confined v s) vs"
| "scope_confined _ s \<longleftrightarrow> True"

definition check_scope :: "json \<Rightarrow> json \<Rightarrow> kernel_error + unit" where
  "check_scope v s = (if scope_confined v s then Inr () else Inl act_denied)"

definition verify_action_ack :: "action_env \<Rightarrow> json \<Rightarrow> json \<Rightarrow> kernel_error + unit" where
  "verify_action_ack e event ack =
     res_bind (validate_action_record e event) (\<lambda>_.
     res_bind (validate_action_record e ack) (\<lambda>_.
     refuse_if act_invalid
       [Inr (jx event ''type'' \<noteq> JStr ''accountability-event''),
        Inr (jx ack ''type'' \<noteq> JStr ''event-ack''),
        Inr (jx ack ''scope'' \<noteq> jx event ''scope''),
        Inr (jx ack ''event_id'' \<noteq> jx event ''event_id''),
        digest_differs e (jx ack ''event_digest'') ''accountability-event'' event,
        Inr (jx ack ''payload_digest'' \<noteq> jx event ''payload_digest''),
        Inr (jx (jx ack ''ledger'') ''scope'' \<noteq> jx event ''scope'')]))"

section \<open>What the checks establish\<close>

lemma res_any_False: "res_any cs = Inr False \<longleftrightarrow> list_all (\<lambda>c. c = Inr False) cs"
  by (induction cs) (auto simp: res_bind_eq_Inr)

lemma refuse_if_Inr: "refuse_if err cs = Inr u \<longleftrightarrow> list_all (\<lambda>c. c = Inr False) cs"
  by (auto simp: refuse_if_def res_bind_eq_Inr guard_eq_Inr simp flip: res_any_False)

lemma digest_same: "digest_differs e actual domain v = Inr False \<longleftrightarrow> (\<exists>d. action_digest e domain v = Inr d \<and> actual = JStr d)"
  by (auto simp: digest_differs_def res_bind_eq_Inr)

lemma j_text_Inr: "j_text v = Inr s \<longleftrightarrow> v = JStr s"
  by (cases v) (simp_all add: j_text_def)

lemma jas_u64_Some: "jas_u64 v = Some n \<longleftrightarrow> v = jnat n"
  by (cases v rule: jas_u64.cases) (auto simp: jnat_def)

lemma jnat_eq_iff: "jnat m = jnat n \<longleftrightarrow> m = n"
  by (simp add: jnat_def)

lemma j_number_Inr: "j_number v = Inr n \<longleftrightarrow> v = jnat n \<and> n \<le> max_integer"
  by (auto simp: j_number_def jas_u64_Some jnat_eq_iff split: option.splits)

end
