(* ===== verification/Action_Ledger.thy ===== *)
theory Action_Ledger
  imports Actions Storage "HOL-Library.Option_ord"
begin

text \<open>
  The action ledger (\<open>munarium-core/src/platform_actions/ledger.rs\<close>): artifacts and events are facts
  of one protected version, written with the expected head of the snapshot they were checked
  against. A backend is the record of the four calls the ledger makes. Other tasks run whenever the
  ledger awaits a call: \<open>others k\<close> is what they do to the store before await \<open>k\<close>, where each of the
  attempts that are left has four of its own.
\<close>

section \<open>The backend and the ledger\<close>

record 's fact_backend =
  fb_head :: "string \<Rightarrow> 's \<Rightarrow> kernel_error + seq"
  fb_slice_facts :: "string \<Rightarrow> fact_query \<Rightarrow> 's \<Rightarrow> kernel_error + claim list"
  fb_append_claim :: "string \<Rightarrow> new_claim \<Rightarrow> seq option \<Rightarrow> 's \<Rightarrow> kernel_error + claim \<times> 's"
  fb_append_claims :: "string \<Rightarrow> new_claim list \<Rightarrow> seq option \<Rightarrow> 's \<Rightarrow> kernel_error + claim list \<times> 's"

record 's action_ledger =
  al_store :: "'s fact_backend"
  al_version :: string
  al_policy :: action_policy

record stored_record =
  sd_value :: json
  sd_seq :: seq
  sd_received_at :: nat

definition ARTIFACTS :: string where
  "ARTIFACTS = ''platform.action-artifacts-v1''"

definition EVENTS :: string where
  "EVENTS = ''platform.action-events-v1''"

definition al_scope :: "'s action_ledger \<Rightarrow> json" where
  "al_scope L = scope_value (py_scope (al_policy L))"

section \<open>The loop of the expected head\<close>

text \<open>What one attempt decides on its snapshot: the answer, or what to append.\<close>

datatype append_call = AppendOne new_claim | AppendAll "new_claim list"

datatype attempt = Answer json | Write append_call

fun try_append :: "'s fact_backend \<Rightarrow> string \<Rightarrow> append_call \<Rightarrow> seq \<Rightarrow> 's \<Rightarrow> kernel_error + claim list \<times> 's" where
  "try_append be v (AppendOne nc) pin s = res_bind (fb_append_claim be v nc (Some pin) s) (\<lambda>(stored, s'). Inr ([stored], s'))"
| "try_append be v (AppendAll ncs) pin s = fb_append_claims be v ncs (Some pin) s"

fun is_head_conflict :: "kernel_error \<Rightarrow> bool" where
  "is_head_conflict (HeadConflict _ _) = True"
| "is_head_conflict _ = False"

fun commit_loop :: "'s fact_backend \<Rightarrow> string \<Rightarrow> string \<Rightarrow> ('s \<Rightarrow> 's \<Rightarrow> 's \<Rightarrow> kernel_error + seq \<times> attempt) \<Rightarrow>
    (claim list \<Rightarrow> kernel_error + json) \<Rightarrow> (nat \<Rightarrow> 's \<Rightarrow> 's) \<Rightarrow> nat \<Rightarrow> 's \<Rightarrow> (kernel_error + json) \<times> 's" where
  "commit_loop be v contention decide answer others 0 s = (Inl (Storage contention), s)"
| "commit_loop be v contention decide answer others (Suc n) s =
     (let s1 = others (4 * n) s; s2 = others (4 * n + 1) s1; s3 = others (4 * n + 2) s2 in
      (case decide s1 s2 s3 of
         Inl err \<Rightarrow> (Inl err, s3)
       | Inr (pin, Answer j) \<Rightarrow> (Inr j, s3)
       | Inr (pin, Write w) \<Rightarrow>
           (let s4 = others (4 * n + 3) s3 in
            (case try_append be v w pin s4 of
               Inr (stored, s5) \<Rightarrow> (answer stored, s5)
             | Inl err \<Rightarrow>
                 if is_head_conflict err then commit_loop be v contention decide answer others n s4
                 else (Inl err, s4)))))"

section \<open>Admission and snapshots\<close>

definition authorize :: "'s action_ledger \<Rightarrow> action_admission \<Rightarrow> bool \<Rightarrow> kernel_error + unit" where
  "authorize L adm write =
     res_bind (validate_policy (al_policy L)) (\<lambda>_.
     if aa_tenant adm \<noteq> sc_tenant (py_scope (al_policy L)) \<or> aa_deployment adm \<noteq> sc_deployment (py_scope (al_policy L))
       \<or> ri_origin_kind (aa_identity adm) \<noteq> ''service'' \<or> \<not> act_identifier (ri_actor (aa_identity adm))
       \<or> \<not> act_identifier (ri_origin (aa_identity adm)) \<or> \<not> act_hash (ri_principal_digest (aa_identity adm))
       \<or> max_integer < aa_now adm
       \<or> (if write then \<not> aa_can_record adm else \<not> aa_can_read adm \<or> aa_service adm \<notin> set (py_readers (al_policy L)))
     then Inl act_denied else Inr ())"

definition load_record :: "action_env \<Rightarrow> json \<Rightarrow> claim \<Rightarrow> kernel_error + stored_record" where
  "load_record e scp f =
     res_bind (canonical_record (an_codec e) (c_value f)) (\<lambda>v.
     res_bind (check_scope v scp) (\<lambda>_.
     res_bind (ok_or (c_evidence f) act_invalid) (\<lambda>ev.
     res_bind (j_number (jx ev ''received_at'')) (\<lambda>received_at.
     Inr \<lparr>sd_value = v, sd_seq = c_seq f, sd_received_at = received_at\<rparr>))))"

fun load_records :: "action_env \<Rightarrow> json \<Rightarrow> claim list \<Rightarrow> kernel_error + stored_record list \<times> stored_record list" where
  "load_records e scp [] = Inr ([], [])"
| "load_records e scp (f # fs) =
     (if c_subject f \<noteq> ARTIFACTS \<and> c_subject f \<noteq> EVENTS then load_records e scp fs
      else
      res_bind (load_record e scp f) (\<lambda>r.
      res_bind (load_records e scp fs) (\<lambda>(artifacts, events).
      Inr (if c_subject f = ARTIFACTS then (r # artifacts, events) else (artifacts, r # events)))))"

definition pinned :: "seq \<Rightarrow> fact_query" where
  "pinned pin = fact_query_default\<lparr>q_as_of_seq := Some pin\<rparr>"

text \<open>\<open>s1\<close> and \<open>s2\<close> are the store when the head and the facts are read.\<close>

definition snapshot_at :: "action_env \<Rightarrow> 's action_ledger \<Rightarrow> seq option \<Rightarrow> 's \<Rightarrow> 's \<Rightarrow>
    kernel_error + seq \<times> stored_record list \<times> stored_record list" where
  "snapshot_at e L cutoff s1 s2 =
     res_bind (fb_head (al_store L) (al_version L) s1) (\<lambda>current.
     let hd0 = (case cutoff of None \<Rightarrow> current | Some c \<Rightarrow> c) in
     if current < hd0 \<or> max_integer < hd0 then Inl act_invalid
     else
     res_bind (fb_slice_facts (al_store L) (al_version L) (pinned hd0) s2) (\<lambda>facts.
     res_bind (load_records e (al_scope L) facts) (\<lambda>(artifacts, events). Inr (hd0, artifacts, events))))"

definition ledger_snapshot :: "action_env \<Rightarrow> 's action_ledger \<Rightarrow> 's \<Rightarrow> 's \<Rightarrow>
    kernel_error + seq \<times> stored_record list \<times> stored_record list" where
  "ledger_snapshot e L s1 s2 = snapshot_at e L None s1 s2"

section \<open>Relations between records\<close>

definition artifact_key_of :: "json \<Rightarrow> kernel_error + string \<times> string" where
  "artifact_key_of v =
     res_bind (j_text (jx v ''type'')) (\<lambda>kind.
     res_bind (j_text (if kind = ''activation'' then jx (jx v ''transition'') ''id'' else jx (jx v ''attempt'') ''id'')) (\<lambda>i.
     Inr (kind, i)))"

definition same_attempt :: "json \<Rightarrow> json \<Rightarrow> bool" where
  "same_attempt a b \<longleftrightarrow> jx a ''operation'' = jx b ''operation'' \<and> jx a ''attempt'' = jx b ''attempt''
     \<and> jx a ''request_digest'' = jx b ''request_digest'' \<and> jx a ''context_digest'' = jx b ''context_digest''"

definition artifact_for :: "string \<Rightarrow> json \<Rightarrow> stored_record list \<Rightarrow> kernel_error + json" where
  "artifact_for kind rec0 artifacts =
     ok_or (map_option sd_value (find (\<lambda>a. jx (sd_value a) ''type'' = JStr kind \<and> jx (sd_value a) ''attempt'' = jx rec0 ''attempt''
       \<and> jx (sd_value a) ''operation'' = jx rec0 ''operation'') artifacts)) act_invalid"

definition request_for :: "action_env \<Rightarrow> json \<Rightarrow> stored_record list \<Rightarrow> kernel_error + json" where
  "request_for e rec0 artifacts =
     res_bind (artifact_for ''action-request'' rec0 artifacts) (\<lambda>request.
     res_bind (refuse_if act_invalid [digest_differs e (jx rec0 ''request_digest'') ''action-request'' request,
       Inr (jx rec0 ''context_digest'' \<noteq> jx request ''context_digest'')]) (\<lambda>_. Inr request))"

section \<open>Archiving\<close>

definition archive_owner :: "'s action_ledger \<Rightarrow> string \<Rightarrow> string \<Rightarrow> bool" where
  "archive_owner L service kind \<longleftrightarrow>
     (let owned = (\<lambda>owner. \<exists>s \<in> set (py_streams (al_policy L)). sg_producer s = owner \<and> sg_service s = service) in
      if kind = ''action-request'' \<or> kind = ''action-decision'' then owned ''gate''
      else if kind = ''action-approval'' \<or> kind = ''activation'' then owned ''council''
      else False)"

definition expected_obligations :: "json \<Rightarrow> json" where
  "expected_obligations request = JArr
     [jobj [(''kind'', JStr ''distinct-approval''), (''owner'', JStr ''council''), (''policy_digest'', jx (jx request ''context'') ''policy_digest'')],
      jobj [(''kind'', JStr ''mandatory-recording''), (''owner'', JStr ''server''), (''phase'', JStr ''before-send'')],
      jobj [(''kind'', JStr ''action-capacity''), (''owner'', JStr ''gate''), (''target'', jx (jx request ''intent'') ''target''),
        (''limit'', jnat 2), (''window_seconds'', jnat 3600)],
      jobj [(''kind'', JStr ''credential-custody''), (''owner'', JStr ''warden''), (''audience'', jx (jx request ''intent'') ''target'')]]"

definition check_decision :: "action_env \<Rightarrow> json \<Rightarrow> stored_record list \<Rightarrow> kernel_error + unit" where
  "check_decision e v artifacts =
     res_bind (request_for e v artifacts) (\<lambda>request.
     if jx v ''obligations'' \<noteq> (if jx v ''outcome'' = JStr ''denied'' then JArr [] else expected_obligations request)
     then Inl act_invalid else Inr ())"

definition check_archived_approval :: "action_env \<Rightarrow> json \<Rightarrow> stored_record list \<Rightarrow> kernel_error + unit" where
  "check_archived_approval e v artifacts =
     res_bind (request_for e v artifacts) (\<lambda>request.
     res_bind (artifact_for ''action-decision'' v artifacts) (\<lambda>decision.
     refuse_if act_invalid [Inr (jx decision ''outcome'' \<noteq> JStr ''approval-required''),
       digest_differs e (jx v ''decision_digest'') ''action-decision'' decision,
       Inr (jx v ''approver'' = jx (jx request ''intent'') ''actor''),
       Inr (jx v ''approver'' = jx (jx request ''intent'') ''origin'')]))"

definition validate_archive :: "action_env \<Rightarrow> json \<Rightarrow> stored_record list \<Rightarrow> kernel_error + unit" where
  "validate_archive e v artifacts =
     res_bind (j_text (jx v ''type'')) (\<lambda>kind.
     if kind = ''action-request'' \<or> kind = ''activation'' then Inr ()
     else if kind = ''action-decision'' then check_decision e v artifacts
     else if kind = ''action-approval'' then check_archived_approval e v artifacts
     else Inl act_invalid)"

definition archived :: "string \<Rightarrow> seq \<Rightarrow> string \<Rightarrow> json" where
  "archived digest position kind =
     jobj [(''digest'', JStr digest), (''ledger_position'', jnat position), (''record_type'', JStr kind)]"

fun archive_scan :: "string \<Rightarrow> string \<Rightarrow> json \<Rightarrow> stored_record list \<Rightarrow> kernel_error + json option" where
  "archive_scan kind digest v [] = Inr None"
| "archive_scan kind digest v (old # rest) =
     (if kind = ''action-approval'' \<and> jx (sd_value old) ''type'' = JStr kind
        \<and> jx (sd_value old) ''approval'' = jx v ''approval'' \<and> sd_value old \<noteq> v then Inl IdempotencyMismatch
      else if kind = ''action-request'' \<and> jx (sd_value old) ''type'' = JStr kind
        \<and> jx (sd_value old) ''operation'' = jx v ''operation'' \<and> jx (sd_value old) ''intent_digest'' \<noteq> jx v ''intent_digest''
      then Inl IdempotencyMismatch
      else
      res_bind (artifact_key_of (sd_value old)) (\<lambda>a.
      res_bind (artifact_key_of v) (\<lambda>b.
      if a = b then (if sd_value old \<noteq> v then Inl IdempotencyMismatch else Inr (Some (archived digest (sd_seq old) kind)))
      else archive_scan kind digest v rest)))"

definition identity_json :: "recorder_identity \<Rightarrow> json" where
  "identity_json i = jobj [(''origin'', JStr (ri_origin i)), (''actor'', JStr (ri_actor i)),
     (''origin_kind'', JStr (ri_origin_kind i)), (''principal_digest'', JStr (ri_principal_digest i))]"

definition archive_claim :: "action_admission \<Rightarrow> string \<Rightarrow> string \<Rightarrow> new_claim" where
  "archive_claim adm digest raw = (new_claim_fact ARTIFACTS digest raw)\<lparr>nc_evidence := Some (jobj
     [(''artifact_digest'', JStr digest), (''received_at'', jnat (aa_now adm)),
      (''recorder'', identity_json (aa_identity adm)), (''service'', JStr (aa_service adm))])\<rparr>"

definition archive_decide :: "action_env \<Rightarrow> 's action_ledger \<Rightarrow> action_admission \<Rightarrow> string \<Rightarrow> json \<Rightarrow> string \<Rightarrow> string \<Rightarrow>
    's \<Rightarrow> 's \<Rightarrow> kernel_error + seq \<times> attempt" where
  "archive_decide e L adm raw v kind digest s1 s2 =
     res_bind (ledger_snapshot e L s1 s2) (\<lambda>(pin, artifacts, events).
     res_bind (archive_scan kind digest v artifacts) (\<lambda>found.
     (case found of
        Some j \<Rightarrow> Inr (pin, Answer j)
      | None \<Rightarrow> res_bind (validate_archive e v artifacts) (\<lambda>_. Inr (pin, Write (AppendOne (archive_claim adm digest raw)))))))"

text \<open>The checks before the loop.\<close>

definition archive_check :: "action_env \<Rightarrow> 's action_ledger \<Rightarrow> action_admission \<Rightarrow> string \<Rightarrow> kernel_error + json \<times> string \<times> string" where
  "archive_check e L adm raw =
     res_bind (authorize L adm True) (\<lambda>_.
     res_bind (canonical_record (an_codec e) raw) (\<lambda>v.
     res_bind (validate_action_record e v) (\<lambda>_.
     res_bind (check_scope v (al_scope L)) (\<lambda>_.
     res_bind (j_text (jx v ''type'')) (\<lambda>kind.
     if \<not> archive_owner L (aa_service adm) kind then Inl act_denied
     else res_bind (action_digest e kind v) (\<lambda>digest. Inr (v, kind, digest)))))))"

definition archive :: "action_env \<Rightarrow> 's action_ledger \<Rightarrow> action_admission \<Rightarrow> string \<Rightarrow> (nat \<Rightarrow> 's \<Rightarrow> 's) \<Rightarrow> 's \<Rightarrow>
    (kernel_error + json) \<times> 's" where
  "archive e L adm raw others s =
     (case archive_check e L adm raw of
        Inl err \<Rightarrow> (Inl err, s)
      | Inr (v, kind, digest) \<Rightarrow>
          commit_loop (al_store L) (al_version L) ''platform action archive contention''
            (\<lambda>s1 s2 s3. archive_decide e L adm raw v kind digest s1 s2)
            (\<lambda>stored. Inr (archived digest (c_seq (hd stored)) kind)) others 32 s)"

end
