(* ===== verification/Action_Events.thy ===== *)
theory Action_Events
  imports Action_Ledger
begin

text \<open>
  Appending accountability events to the action ledger, and the reads of the ledger
  (\<open>munarium-core/src/platform_actions/ledger.rs\<close>, from \<open>event_admission\<close> on).
\<close>

section \<open>Admission of an event\<close>

definition permit_matches :: "action_admission \<Rightarrow> json \<Rightarrow> string \<Rightarrow> stream_registration \<Rightarrow> nat \<Rightarrow> recovery_permit \<Rightarrow> bool" where
  "permit_matches adm event digest stream generation p \<longleftrightarrow>
     pt_recorder p = aa_service adm \<and> pt_event_digest p = digest \<and> pt_stream_id p = sg_stream_id stream
     \<and> pt_generation p = generation \<and> pt_producer p = sg_producer stream \<and> jx event ''kind'' = JStr (pt_kind p)
     \<and> (case j_number (jx event ''occurred_at'') of Inl _ \<Rightarrow> False | Inr n \<Rightarrow> n \<le> pt_cutoff p)
     \<and> jx (jx (jx event ''payload'') ''claim'') ''id'' = JStr (pt_claim_id p)"

definition event_admission :: "'s action_ledger \<Rightarrow> action_admission \<Rightarrow> json \<Rightarrow> string \<Rightarrow> kernel_error + recovery_permit option" where
  "event_admission L adm event digest =
     res_bind (j_text (jx (jx event ''stream'') ''id'')) (\<lambda>i.
     res_bind (ok_or (policy_stream (al_policy L) i) act_denied) (\<lambda>stream.
     res_bind (j_number (jx event ''source_generation'')) (\<lambda>generation.
     res_bind (refuse_if act_denied [Inr (jx event ''producer'' \<noteq> JStr (sg_producer stream)),
       res_bind (j_text (jx event ''kind'')) (\<lambda>kind. Inr (kind \<notin> set (sg_kinds stream)))]) (\<lambda>_.
     if generation = sg_generation stream
     then (if aa_service adm \<noteq> sg_service stream then Inl act_denied else Inr None)
     else res_bind (ok_or (find (permit_matches adm event digest stream generation) (py_recovery (al_policy L))) act_denied)
       (\<lambda>p. Inr (Some p))))))"

definition acknowledgement :: "action_env \<Rightarrow> 's action_ledger \<Rightarrow> json \<Rightarrow> seq \<Rightarrow> nat \<Rightarrow> kernel_error + json" where
  "acknowledgement e L event position received_at =
     res_bind (action_digest e ''accountability-event'' event) (\<lambda>digest.
     Inr (jobj [(''schema_version'', jnat 1), (''type'', JStr ''event-ack''), (''profile'', JStr ACTION_PROFILE),
       (''scope'', al_scope L), (''event_id'', jx event ''event_id''), (''event_digest'', JStr digest),
       (''payload_digest'', jx event ''payload_digest''),
       (''ledger'', jobj [(''scope'', al_scope L), (''kind'', JStr ''ledger''), (''id'', JStr (al_version L))]),
       (''position'', jnat position), (''received_at'', jnat received_at)]))"

section \<open>The scan over the recorded events\<close>

definition once_kinds :: "string set" where
  "once_kinds = {''claim-created'', ''grant-issued'', ''consumption-reserved'', ''predispatch'', ''send-intent'', ''outcome''}"

text \<open>\<open>a\<close> is the payload of a recorded action event, \<open>b\<close> that of the new one.\<close>

definition action_conflict :: "json \<Rightarrow> json \<Rightarrow> kernel_error + bool" where
  "action_conflict a b =
     res_any [Inr (jx a ''attempt'' = jx b ''attempt'' \<and> (jx a ''request_digest'' \<noteq> jx b ''request_digest''
         \<or> jx a ''context_digest'' \<noteq> jx b ''context_digest'' \<or> jx a ''operation'' \<noteq> jx b ''operation'')),
       Inr (jget a ''claim'' \<noteq> None \<and> jx a ''claim'' = jx b ''claim''
         \<and> (jx a ''attempt'' \<noteq> jx b ''attempt'' \<or> jx a ''operation'' \<noteq> jx b ''operation'')),
       (if jx a ''attempt'' = jx b ''attempt'' \<and> jx a ''kind'' = jx b ''kind'' \<and> a \<noteq> b
        then res_bind (j_text (jx b ''kind'')) (\<lambda>kind. Inr (kind \<in> once_kinds)) else Inr False)]"

definition conflicts :: "json \<Rightarrow> json \<Rightarrow> kernel_error + bool" where
  "conflicts old event =
     (if jx event ''family'' = JStr ''action'' \<and> jx old ''family'' = JStr ''action''
      then action_conflict (jx old ''payload'') (jx event ''payload'') else Inr False)"

definition in_stream_of :: "json \<Rightarrow> json \<Rightarrow> bool" where
  "in_stream_of event old \<longleftrightarrow> jx old ''stream'' = jx event ''stream'' \<and> jx old ''source_generation'' = jx event ''source_generation''"

definition later_of :: "json \<Rightarrow> json \<Rightarrow> json option \<Rightarrow> json option" where
  "later_of event old last_event =
     (if in_stream_of event old \<and> (case last_event of None \<Rightarrow> True
        | Some v \<Rightarrow> jas_u64 (jx v ''sequence'') < jas_u64 (jx old ''sequence'')) then Some old else last_event)"

text \<open>\<open>Inr (Inl r)\<close>: the event is already recorded as \<open>r\<close>; \<open>Inr (Inr last)\<close>: the last of its stream.\<close>

fun event_scan :: "json \<Rightarrow> stored_record list \<Rightarrow> json option \<Rightarrow> kernel_error + stored_record + json option" where
  "event_scan event [] last_event = Inr (Inr last_event)"
| "event_scan event (old # rest) last_event =
     (if jx (sd_value old) ''event_id'' = jx event ''event_id''
      then (if sd_value old \<noteq> event then Inl IdempotencyMismatch else Inr (Inl old))
      else
      res_bind (conflicts (sd_value old) event) (\<lambda>c.
      if c then Inl IdempotencyMismatch else event_scan event rest (later_of event (sd_value old) last_event)))"

definition check_sequence :: "action_env \<Rightarrow> json \<Rightarrow> json option \<Rightarrow> kernel_error + unit" where
  "check_sequence e event last_event =
     (case last_event of
        None \<Rightarrow> if jx event ''sequence'' \<noteq> jnat 1 \<or> jx event ''predecessor'' \<noteq> JNull then Inl act_invalid else Inr ()
      | Some l \<Rightarrow> refuse_if act_invalid
          [res_bind (j_number (jx event ''sequence'')) (\<lambda>n. res_bind (j_number (jx l ''sequence'')) (\<lambda>k. Inr (n \<noteq> k + 1))),
           digest_differs e (jx event ''predecessor'') ''accountability-event'' l])"

section \<open>Prerequisites\<close>

definition activation_prerequisites :: "action_env \<Rightarrow> json \<Rightarrow> stored_record list \<Rightarrow> kernel_error + unit" where
  "activation_prerequisites e receipt artifacts =
     res_bind (ok_or (find (\<lambda>a. jx (sd_value a) ''type'' = JStr ''activation''
       \<and> jx (sd_value a) ''transition'' = jx receipt ''transition'') artifacts) act_invalid) (\<lambda>t.
     refuse_if act_invalid [digest_differs e (jx receipt ''transition_digest'') ''activation'' (sd_value t),
       Inr (\<exists>k \<in> set [''prior_epoch'', ''successor_epoch'', ''artifact_set_digest'', ''participant_set_digest''].
         jx receipt k \<noteq> jx (sd_value t) k)])"

definition prior_event :: "json \<Rightarrow> stored_record list \<Rightarrow> string \<Rightarrow> kernel_error + stored_record" where
  "prior_event payload events kind =
     ok_or (find (\<lambda>x. jx (sd_value x) ''kind'' = JStr kind \<and> same_attempt (jx (sd_value x) ''payload'') payload) events) act_invalid"

fun check_reservations :: "json \<Rightarrow> string list \<Rightarrow> json list \<Rightarrow> kernel_error + unit" where
  "check_reservations request ids [] = Inr ()"
| "check_reservations request ids (r # rs) =
     res_bind (j_text (jx (jx r ''reservation'') ''id'')) (\<lambda>i.
     res_bind (refuse_if act_invalid [Inr (i \<in> set ids), Inr (jx r ''target'' \<noteq> jx (jx request ''intent'') ''target''),
       Inr (jx r ''root'' \<noteq> jx (jx (jx request ''intent'') ''task'') ''root''),
       res_bind (j_number (jx r ''window_start'')) (\<lambda>n. Inr (n mod 3600 \<noteq> 0))]) (\<lambda>_.
     check_reservations request (i # ids) rs))"

definition check_consumption :: "json \<Rightarrow> json \<Rightarrow> kernel_error + unit" where
  "check_consumption request payload =
     res_bind (ok_or (jas_array (jx payload ''reservations'')) act_invalid) (\<lambda>rs. check_reservations request [] rs)"

definition check_predispatch :: "action_env \<Rightarrow> json \<Rightarrow> stored_record list \<Rightarrow> kernel_error + unit" where
  "check_predispatch e payload events =
     res_bind (prior_event payload events ''consumption-reserved'') (\<lambda>c.
     refuse_if act_invalid [digest_differs e (jx payload ''consumption_event_digest'') ''accountability-event'' (sd_value c)])"

definition check_send_intent :: "action_env \<Rightarrow> 's action_ledger \<Rightarrow> json \<Rightarrow> json \<Rightarrow> stored_record list \<Rightarrow> kernel_error + unit" where
  "check_send_intent e L request payload events =
     res_bind (prior_event payload events ''predispatch'') (\<lambda>p.
     res_bind (acknowledgement e L (sd_value p) (sd_seq p) (sd_received_at p)) (\<lambda>ack.
     res_bind (prior_event payload events ''consumption-reserved'') (\<lambda>c.
     let consumed = jx (sd_value c) ''payload'' in
     refuse_if act_invalid [digest_differs e (jx payload ''predispatch_ack_digest'') ''event-ack'' ack,
       Inr (jx payload ''worker'' \<noteq> jx consumed ''worker''), Inr (jx payload ''worker_fence'' \<noteq> jx consumed ''worker_fence''),
       Inr (jx payload ''target'' \<noteq> jx (jx request ''intent'') ''target''),
       Inr (jx payload ''effect_key'' \<noteq> jx (jx request ''operation'') ''id'')])))"

definition check_outcome :: "json \<Rightarrow> stored_record list \<Rightarrow> kernel_error + unit" where
  "check_outcome payload events =
     res_bind (prior_event payload events ''send-intent'') (\<lambda>x.
     let sent = jx (sd_value x) ''payload'' in
     if jx payload ''invocation'' \<noteq> jx sent ''invocation'' \<or> jx payload ''effect_key'' \<noteq> jx sent ''effect_key''
     then Inl act_invalid else Inr ())"

definition reconciles :: "action_env \<Rightarrow> json \<Rightarrow> stored_record \<Rightarrow> bool" where
  "reconciles e payload x \<longleftrightarrow> jx (sd_value x) ''kind'' \<in> {JStr ''outcome'', JStr ''reconciliation''}
     \<and> same_attempt (jx (sd_value x) ''payload'') payload
     \<and> digest_differs e (jx payload ''prior_outcome_digest'') ''accountability-event'' (sd_value x) = Inr False"

definition check_reconciliation :: "action_env \<Rightarrow> json \<Rightarrow> stored_record list \<Rightarrow> kernel_error + unit" where
  "check_reconciliation e payload events =
     res_bind (ok_or (find (reconciles e payload) events) act_invalid) (\<lambda>x.
     if jx payload ''effect_key'' \<noteq> jx (jx (sd_value x) ''payload'') ''effect_key'' then Inl act_invalid else Inr ())"

definition check_approval_recorded :: "action_env \<Rightarrow> json \<Rightarrow> stored_record list \<Rightarrow> kernel_error + unit" where
  "check_approval_recorded e payload artifacts =
     res_bind (artifact_for ''action-approval'' payload artifacts) (\<lambda>approval.
     refuse_if act_invalid [Inr (jx approval ''approval'' \<noteq> jx payload ''approval''),
       digest_differs e (jx payload ''approval_digest'') ''action-approval'' approval])"

definition check_claim_created :: "json \<Rightarrow> stored_record list \<Rightarrow> kernel_error + unit" where
  "check_claim_created payload events =
     res_bind (prior_event payload events ''approval-recorded'') (\<lambda>_.
     if jx payload ''grant_binding_digest'' \<noteq> jx payload ''request_digest'' then Inl act_invalid else Inr ())"

definition check_grant :: "json \<Rightarrow> stored_record list \<Rightarrow> kernel_error + unit" where
  "check_grant payload events =
     (if jget payload ''grant'' \<noteq> None
      then res_bind (prior_event payload events ''grant-issued'') (\<lambda>g.
        if jx payload ''grant'' \<noteq> jx (jx (sd_value g) ''payload'') ''grant'' then Inl act_invalid else Inr ())
      else Inr ())"

definition prerequisites :: "action_env \<Rightarrow> 's action_ledger \<Rightarrow> json \<Rightarrow> stored_record list \<Rightarrow> stored_record list \<Rightarrow>
    kernel_error + unit" where
  "prerequisites e L event artifacts events =
     (let payload = jx event ''payload'' in
      if jx event ''family'' = JStr ''activation'' then activation_prerequisites e (jx payload ''receipt'') artifacts
      else
      res_bind (request_for e payload artifacts) (\<lambda>request.
      if jx payload ''activation_epoch'' \<noteq> jx (jx (jx request ''context'') ''activation'') ''revision''
        \<or> jx payload ''recovery_epoch'' \<noteq> jx (jx (jx request ''context'') ''recovery'') ''revision'' then Inl act_invalid
      else
      res_bind (j_text (jx event ''kind'')) (\<lambda>kind.
      if kind = ''approval-recorded'' then check_approval_recorded e payload artifacts
      else if kind = ''claim-created'' then check_claim_created payload events
      else
      res_bind (prior_event payload events ''claim-created'') (\<lambda>claim.
      if jx payload ''claim'' \<noteq> jx (jx (sd_value claim) ''payload'') ''claim'' then Inl act_invalid
      else if kind = ''grant-issued'' then Inr ()
      else
      res_bind (check_grant payload events) (\<lambda>_.
      if kind = ''consumption-reserved'' then check_consumption request payload
      else if kind = ''predispatch'' then check_predispatch e payload events
      else if kind = ''send-intent'' then check_send_intent e L request payload events
      else if kind = ''outcome'' then check_outcome payload events
      else if kind = ''reconciliation'' then check_reconciliation e payload events
      else Inl act_invalid)))))"

section \<open>Appending\<close>

definition check_recovery :: "action_env \<Rightarrow> recovery_permit option \<Rightarrow> json \<Rightarrow> string \<Rightarrow> stored_record list \<Rightarrow> kernel_error + unit" where
  "check_recovery e recovery event digest events =
     (case recovery of
        None \<Rightarrow> Inr ()
      | Some p \<Rightarrow>
          if jx event ''kind'' = JStr ''claim-created''
          then (if pt_claim_event_digest p \<noteq> digest then Inl act_denied else Inr ())
          else if \<exists>x \<in> set events. jx (sd_value x) ''kind'' = JStr ''claim-created''
            \<and> action_digest e ''accountability-event'' (sd_value x) = Inr (pt_claim_event_digest p)
            \<and> same_attempt (jx (sd_value x) ''payload'') (jx event ''payload'')
          then Inr () else Inl act_denied)"

definition event_claim :: "action_admission \<Rightarrow> json \<Rightarrow> string \<Rightarrow> string \<Rightarrow> string \<Rightarrow> bool \<Rightarrow> new_claim" where
  "event_claim adm event event_id digest raw historical = (new_claim_fact EVENTS event_id raw)\<lparr>nc_evidence := Some (jobj
     [(''event_digest'', JStr digest), (''received_at'', jnat (aa_now adm)), (''recorder'', identity_json (aa_identity adm)),
      (''recorder_service'', JStr (aa_service adm)), (''original_producer'', jx event ''producer''),
      (''historical'', JBool historical)])\<rparr>"

definition event_decide :: "action_env \<Rightarrow> 's action_ledger \<Rightarrow> action_admission \<Rightarrow> string \<Rightarrow> json \<Rightarrow> string \<Rightarrow> recovery_permit option \<Rightarrow>
    's \<Rightarrow> 's \<Rightarrow> kernel_error + seq \<times> attempt" where
  "event_decide e L adm raw event digest recovery s1 s2 =
     res_bind (ledger_snapshot e L s1 s2) (\<lambda>(pin, artifacts, events).
     res_bind (event_scan event events None) (\<lambda>found.
     (case found of
        Inl old \<Rightarrow> res_bind (acknowledgement e L event (sd_seq old) (sd_received_at old)) (\<lambda>ack. Inr (pin, Answer ack))
      | Inr last_event \<Rightarrow>
          res_bind (check_sequence e event last_event) (\<lambda>_.
          res_bind (prerequisites e L event artifacts events) (\<lambda>_.
          res_bind (check_recovery e recovery event digest events) (\<lambda>_.
          res_bind (j_text (jx event ''event_id'')) (\<lambda>event_id.
          Inr (pin, Write (AppendOne (event_claim adm event event_id digest raw (recovery \<noteq> None)))))))))))"

text \<open>The checks before the loop.\<close>

definition event_check :: "action_env \<Rightarrow> 's action_ledger \<Rightarrow> action_admission \<Rightarrow> string \<Rightarrow>
    kernel_error + json \<times> string \<times> recovery_permit option" where
  "event_check e L adm raw =
     res_bind (authorize L adm True) (\<lambda>_.
     res_bind (canonical_record (an_codec e) raw) (\<lambda>event.
     res_bind (validate_action_record e event) (\<lambda>_.
     if jx event ''type'' \<noteq> JStr ''accountability-event'' then Inl act_invalid
     else
     res_bind (check_scope event (al_scope L)) (\<lambda>_.
     res_bind (action_digest e ''accountability-event'' event) (\<lambda>digest.
     res_bind (event_admission L adm event digest) (\<lambda>recovery. Inr (event, digest, recovery)))))))"

definition append_event :: "action_env \<Rightarrow> 's action_ledger \<Rightarrow> action_admission \<Rightarrow> string \<Rightarrow> (nat \<Rightarrow> 's \<Rightarrow> 's) \<Rightarrow> 's \<Rightarrow>
    (kernel_error + json) \<times> 's" where
  "append_event e L adm raw others s =
     (case event_check e L adm raw of
        Inl err \<Rightarrow> (Inl err, s)
      | Inr (event, digest, recovery) \<Rightarrow>
          commit_loop (al_store L) (al_version L) ''platform action event contention''
            (\<lambda>s1 s2 s3. event_decide e L adm raw event digest recovery s1 s2)
            (\<lambda>stored. acknowledgement e L event (c_seq (hd stored)) (aa_now adm)) others 32 s)"

section \<open>Reads\<close>

definition ledger_lookup :: "action_env \<Rightarrow> 's action_ledger \<Rightarrow> action_admission \<Rightarrow> string \<Rightarrow> 's \<Rightarrow> 's \<Rightarrow> kernel_error + json" where
  "ledger_lookup e L adm operation s1 s2 =
     res_bind (authorize L adm False) (\<lambda>_.
     if \<not> act_identifier operation then Inl act_invalid
     else
     res_bind (ledger_snapshot e L s1 s2) (\<lambda>(pin, artifacts, events).
     Inr (jobj [(''ledger_position'', jnat pin),
       (''artifacts'', JArr (map sd_value (filter (\<lambda>a. jx (jx (sd_value a) ''operation'') ''id'' = JStr operation) artifacts))),
       (''events'', JArr (map sd_value (filter (\<lambda>x. jx (sd_value x) ''family'' = JStr ''action''
          \<and> jx (jx (jx (sd_value x) ''payload'') ''operation'') ''id'' = JStr operation) events)))])))"

definition transition_lookup :: "action_env \<Rightarrow> 's action_ledger \<Rightarrow> action_admission \<Rightarrow> string \<Rightarrow> 's \<Rightarrow> 's \<Rightarrow> kernel_error + json" where
  "transition_lookup e L adm i s1 s2 =
     res_bind (authorize L adm False) (\<lambda>_.
     if \<not> act_identifier i then Inl act_invalid
     else
     res_bind (ledger_snapshot e L s1 s2) (\<lambda>(pin, artifacts, events).
     Inr (jobj [(''ledger_position'', jnat pin),
       (''artifacts'', JArr (map sd_value (filter (\<lambda>a. jx (sd_value a) ''type'' = JStr ''activation''
          \<and> jx (jx (sd_value a) ''transition'') ''id'' = JStr i) artifacts))),
       (''events'', JArr (map sd_value (filter (\<lambda>x. jx (sd_value x) ''family'' = JStr ''activation''
          \<and> jx (jx (jx (jx (sd_value x) ''payload'') ''receipt'') ''transition'') ''id'' = JStr i) events)))])))"

text \<open>\<open>max_by_key\<close> returns the last of the greatest elements.\<close>

fun max_by_key :: "('a \<Rightarrow> 'k::linorder) \<Rightarrow> 'a list \<Rightarrow> 'a option" where
  "max_by_key f [] = None"
| "max_by_key f (x # xs) = (case max_by_key f xs of None \<Rightarrow> Some x | Some y \<Rightarrow> if f y < f x then Some x else Some y)"

definition last_in_stream :: "string \<Rightarrow> nat \<Rightarrow> stored_record list \<Rightarrow> stored_record option" where
  "last_in_stream stream generation events =
     max_by_key (\<lambda>x. jas_u64 (jx (sd_value x) ''sequence'')) (filter (\<lambda>x. jx (jx (sd_value x) ''stream'') ''id'' = JStr stream
       \<and> jx (sd_value x) ''source_generation'' = jnat generation) events)"

definition source_head :: "action_env \<Rightarrow> 's action_ledger \<Rightarrow> action_admission \<Rightarrow> string \<Rightarrow> nat \<Rightarrow> 's \<Rightarrow> 's \<Rightarrow> kernel_error + json" where
  "source_head e L adm stream generation s1 s2 =
     res_bind (authorize L adm False) (\<lambda>_.
     res_bind (ok_or (policy_stream (al_policy L) stream) act_denied) (\<lambda>registration.
     if generation = 0 \<or> sg_generation registration < generation then Inl act_denied
     else
     res_bind (ledger_snapshot e L s1 s2) (\<lambda>(pin, artifacts, events).
     (case last_in_stream stream generation events of
        Some x \<Rightarrow> res_bind (action_digest e ''accountability-event'' (sd_value x)) (\<lambda>digest.
          Inr (jobj [(''sequence'', jx (sd_value x) ''sequence''), (''event_digest'', JStr digest)]))
      | None \<Rightarrow> Inr (jobj [(''sequence'', jnat 0), (''event_digest'', JNull)])))))"

end
