(* ===== verification/Action_Activation.thy ===== *)
theory Action_Activation
  imports Action_Events
begin

text \<open>
  The server's activation state in the action ledger
  (\<open>munarium-core/src/platform_actions/ledger/activation.rs\<close>): one enrolment, then one applied
  transition after another, each committed together with its audit event.
\<close>

section \<open>Records\<close>

record activation_enrollment =
  ac_initial_epoch :: nat
  ac_initial_artifact_set_digest :: string
  ac_service :: string
  ac_coordinator :: string
  ac_stream_id :: string

record activation_evidence =
  pf_ratified :: json
  pf_pause :: json
  pf_gate_head :: json
  pf_registry_receipt :: json
  pf_registry_head :: json
  pf_authority_revision :: string
  pf_now :: nat

definition ENROLLMENT :: string where
  "ENROLLMENT = ''platform.server-activation-enrollment-v1''"

definition APPLIED :: string where
  "APPLIED = ''platform.server-activation-applied-v1''"

definition sat_add :: "nat \<Rightarrow> nat \<Rightarrow> nat" where
  "sat_add a b = min u64_max (a + b)"

definition encoded :: "action_env \<Rightarrow> json \<Rightarrow> kernel_error + string" where
  "encoded e v = res_bind (canonical_record (an_codec e) (jc_bytes (an_codec e) v)) (\<lambda>_. Inr (jc_bytes (an_codec e) v))"

section \<open>Receipts\<close>

definition receipt_keys :: "string list" where
  "receipt_keys = [''transition'', ''prior_epoch'', ''successor_epoch'', ''artifact_set_digest'', ''participant_set_digest'']"

definition activation_receipt :: "action_env \<Rightarrow> json \<Rightarrow> kernel_error + json" where
  "activation_receipt e t =
     res_bind (action_digest e ''activation'' t) (\<lambda>digest.
     let r = fold (\<lambda>k. jset k (jx t k)) receipt_keys
       (jobj [(''schema_version'', jnat 1), (''profile'', JStr ACTION_PROFILE), (''type'', JStr ''activation-receipt''),
          (''participant'', JStr ''server''), (''phase'', JStr ''applied''), (''transition_digest'', JStr digest)])
     in res_bind (validate_action_record e r) (\<lambda>_. Inr r))"

definition check_receipt :: "action_env \<Rightarrow> json \<Rightarrow> json \<Rightarrow> string \<Rightarrow> string \<Rightarrow> kernel_error + unit" where
  "check_receipt e t r owner phase =
     res_bind (validate_action_record e r) (\<lambda>_.
     res_bind (activation_receipt e t) (\<lambda>expected.
     if r \<noteq> jset ''phase'' (JStr phase) (jset ''participant'' (JStr owner) expected) then Inl act_denied else Inr ()))"

section \<open>Enrolment\<close>

definition check_enrollment :: "'s action_ledger \<Rightarrow> activation_enrollment \<Rightarrow> kernel_error + json" where
  "check_enrollment L en =
     res_bind (validate_policy (al_policy L)) (\<lambda>_.
     res_bind (ok_or (policy_stream (al_policy L) (ac_stream_id en)) act_denied) (\<lambda>stream.
     if ac_initial_epoch en = 0 \<or> max_integer < ac_initial_epoch en \<or> \<not> act_hash (ac_initial_artifact_set_digest en)
       \<or> sg_producer stream \<noteq> ''server'' \<or> sg_service stream \<noteq> ac_service en \<or> ''activation-applied'' \<notin> set (sg_kinds stream)
       \<or> \<not> archive_owner L (ac_coordinator en) ''activation''
     then Inl act_denied
     else Inr (jobj [(''scope'', al_scope L), (''initial_epoch'', jnat (ac_initial_epoch en)),
       (''initial_artifact_set_digest'', JStr (ac_initial_artifact_set_digest en))])))"

definition activation_facts :: "'s action_ledger \<Rightarrow> seq \<Rightarrow> 's \<Rightarrow> kernel_error + claim list" where
  "activation_facts L pin s = fb_slice_facts (al_store L) (al_version L) (pinned pin) s"

fun find_enrollment :: "action_env \<Rightarrow> json \<Rightarrow> claim list \<Rightarrow> kernel_error + bool" where
  "find_enrollment e v [] = Inr False"
| "find_enrollment e v (f # fs) =
     (if c_subject f = ENROLLMENT
      then res_bind (canonical_record (an_codec e) (c_value f)) (\<lambda>old. if old \<noteq> v then Inl IdempotencyMismatch else Inr True)
      else find_enrollment e v fs)"

definition enrollment_decide :: "action_env \<Rightarrow> 's action_ledger \<Rightarrow> json \<Rightarrow> 's \<Rightarrow> 's \<Rightarrow> kernel_error + seq \<times> attempt" where
  "enrollment_decide e L v s1 s2 =
     res_bind (fb_head (al_store L) (al_version L) s1) (\<lambda>pin.
     res_bind (activation_facts L pin s2) (\<lambda>facts.
     res_bind (find_enrollment e v facts) (\<lambda>found.
     if found then Inr (pin, Answer JNull)
     else res_bind (encoded e v) (\<lambda>raw. Inr (pin, Write (AppendOne (new_claim_fact ENROLLMENT ''initial'' raw)))))))"

definition initialize_activation :: "action_env \<Rightarrow> 's action_ledger \<Rightarrow> activation_enrollment \<Rightarrow> (nat \<Rightarrow> 's \<Rightarrow> 's) \<Rightarrow> 's \<Rightarrow>
    (kernel_error + json) \<times> 's" where
  "initialize_activation e L en others s =
     (case check_enrollment L en of
        Inl err \<Rightarrow> (Inl err, s)
      | Inr v \<Rightarrow> commit_loop (al_store L) (al_version L) ''activation enrollment contention''
          (\<lambda>s1 s2 s3. enrollment_decide e L v s1 s2) (\<lambda>_. Inr JNull) others 32 s)"

section \<open>The current state\<close>

definition applied_facts :: "claim list \<Rightarrow> claim list" where
  "applied_facts facts = filter (\<lambda>f. c_subject f = APPLIED) facts"

text \<open>The reads after the enrolment: the head, then the facts at it.\<close>

definition activation_head_of :: "action_env \<Rightarrow> 's action_ledger \<Rightarrow> activation_enrollment \<Rightarrow> 's \<Rightarrow> 's \<Rightarrow> kernel_error + json" where
  "activation_head_of e L en s1 s2 =
     res_bind (fb_head (al_store L) (al_version L) s1) (\<lambda>pin.
     res_bind (activation_facts L pin s2) (\<lambda>facts.
     res_bind (case max_by_key c_seq (applied_facts facts) of
         None \<Rightarrow> Inr None
       | Some f \<Rightarrow> res_bind (canonical_record (an_codec e) (c_value f)) (\<lambda>v. Inr (Some v))) (\<lambda>current.
     Inr (jobj [(''scope'', al_scope L), (''participant'', JStr ''server''),
       (''epoch'', case current of None \<Rightarrow> jnat (ac_initial_epoch en) | Some v \<Rightarrow> jx (jx v ''receipt'') ''successor_epoch''),
       (''artifact_set_digest'', case current of None \<Rightarrow> JStr (ac_initial_artifact_set_digest en)
          | Some v \<Rightarrow> jx (jx v ''receipt'') ''artifact_set_digest''),
       (''cell_resumed'', JBool False), (''execution_enabled'', JBool False)]))))"

definition activation_head :: "action_env \<Rightarrow> 's action_ledger \<Rightarrow> activation_enrollment \<Rightarrow> (nat \<Rightarrow> 's \<Rightarrow> 's) \<Rightarrow> 's \<Rightarrow>
    (kernel_error + json) \<times> 's" where
  "activation_head e L en others s =
     (case initialize_activation e L en others s of
        (Inl err, s') \<Rightarrow> (Inl err, s')
      | (Inr _, s') \<Rightarrow> let s1 = others 128 s'; s2 = others 129 s1 in (activation_head_of e L en s1 s2, s2))"

definition activation_lookup_of :: "action_env \<Rightarrow> 's action_ledger \<Rightarrow> string \<Rightarrow> 's \<Rightarrow> 's \<Rightarrow> kernel_error + json" where
  "activation_lookup_of e L i s1 s2 =
     res_bind (fb_head (al_store L) (al_version L) s1) (\<lambda>pin.
     res_bind (activation_facts L pin s2) (\<lambda>facts.
     res_bind (res_map (\<lambda>f. canonical_record (an_codec e) (c_value f)) (applied_facts facts)) (\<lambda>vs.
     res_bind (ok_or (find (\<lambda>v. jx (jx (jx v ''receipt'') ''transition'') ''id'' = JStr i) vs) act_denied) (\<lambda>v.
     Inr (jx v ''receipt'')))))"

definition activation_lookup :: "action_env \<Rightarrow> 's action_ledger \<Rightarrow> activation_enrollment \<Rightarrow> string \<Rightarrow> (nat \<Rightarrow> 's \<Rightarrow> 's) \<Rightarrow> 's \<Rightarrow>
    (kernel_error + json) \<times> 's" where
  "activation_lookup e L en i others s =
     (case initialize_activation e L en others s of
        (Inl err, s') \<Rightarrow> (Inl err, s')
      | (Inr _, s') \<Rightarrow> let s1 = others 128 s'; s2 = others 129 s1 in (activation_lookup_of e L i s1 s2, s2))"

section \<open>Applying a transition\<close>

definition check_ratified :: "action_env \<Rightarrow> json \<Rightarrow> activation_evidence \<Rightarrow> kernel_error + unit" where
  "check_ratified e t pf =
     refuse_if act_denied [Inr (jx t ''type'' \<noteq> JStr ''activation''), Inr (max_integer < pf_now pf),
       Inr (jx (pf_ratified pf) ''ratified'' \<noteq> JBool True), Inr (jx (pf_ratified pf) ''transition'' \<noteq> t),
       digest_differs e (jx (pf_ratified pf) ''transition_digest'') ''activation'' t,
       res_bind (j_number (jx t ''not_before'')) (\<lambda>n. Inr (pf_now pf < sat_add n 2)),
       res_bind (j_number (jx t ''expires_at'')) (\<lambda>n. Inr (n \<le> sat_add (pf_now pf) 2))]"

definition gate_paused_for :: "json \<Rightarrow> json \<Rightarrow> json \<Rightarrow> bool" where
  "gate_paused_for scp h t \<longleftrightarrow>
     jx h ''scope'' = scp \<and> jx h ''participant'' = JStr ''gate'' \<and> jx h ''paused'' = JBool True
     \<and> jx h ''transition_id'' = jx (jx t ''transition'') ''id''
     \<and> (jx h ''epoch'' = jx t ''prior_epoch'' \<and> jx h ''artifact_set_digest'' = jx t ''prior_artifact_set_digest''
        \<or> jx h ''epoch'' = jx t ''successor_epoch'' \<and> jx h ''artifact_set_digest'' = jx t ''artifact_set_digest'')"

definition registry_applied :: "json \<Rightarrow> json \<Rightarrow> json \<Rightarrow> bool" where
  "registry_applied scp h t \<longleftrightarrow>
     jx h ''scope'' = scp \<and> jx h ''participant'' = JStr ''registry'' \<and> jx h ''epoch'' = jx t ''successor_epoch''
     \<and> jx h ''artifact_set_digest'' = jx t ''artifact_set_digest''"

text \<open>The scan over the applied transitions: the recorded receipt, or the latest state.\<close>

fun applied_scan :: "action_env \<Rightarrow> json \<Rightarrow> json \<Rightarrow> claim list \<Rightarrow> (seq \<times> json) option \<Rightarrow> kernel_error + bool \<times> json option" where
  "applied_scan e t r [] current = Inr (False, map_option snd current)"
| "applied_scan e t r (f # fs) current =
     res_bind (canonical_record (an_codec e) (c_value f)) (\<lambda>old.
     if jx (jx old ''receipt'') ''transition'' = jx t ''transition''
     then (if jx old ''receipt'' \<noteq> r then Inl IdempotencyMismatch else Inr (True, None))
     else applied_scan e t r fs (case current of
         None \<Rightarrow> Some (c_seq f, old) | Some (n, x) \<Rightarrow> if n < c_seq f then Some (c_seq f, old) else current))"

definition epoch_of :: "activation_enrollment \<Rightarrow> json option \<Rightarrow> kernel_error + nat \<times> string" where
  "epoch_of en current =
     (case current of
        None \<Rightarrow> Inr (ac_initial_epoch en, ac_initial_artifact_set_digest en)
      | Some v \<Rightarrow> res_bind (j_number (jx (jx v ''receipt'') ''successor_epoch'')) (\<lambda>epoch.
          res_bind (j_text (jx (jx v ''receipt'') ''artifact_set_digest'')) (\<lambda>digest. Inr (epoch, digest))))"

definition applied_event :: "action_env \<Rightarrow> 's action_ledger \<Rightarrow> activation_enrollment \<Rightarrow> string \<Rightarrow> stream_registration \<Rightarrow> json \<Rightarrow> nat \<Rightarrow>
    stored_record option \<Rightarrow> kernel_error + json" where
  "applied_event e L en transition_digest stream r now last_event =
     (let payload = jobj [(''kind'', JStr ''activation-applied''), (''receipt'', r)] in
      res_bind (case last_event of None \<Rightarrow> Inr 0 | Some l \<Rightarrow> j_number (jx (sd_value l) ''sequence'')) (\<lambda>n.
      res_bind (case last_event of None \<Rightarrow> Inr JNull
        | Some l \<Rightarrow> res_bind (action_digest e ''accountability-event'' (sd_value l)) (\<lambda>d. Inr (JStr d))) (\<lambda>predecessor.
      res_bind (action_digest e ''event-payload'' payload) (\<lambda>payload_digest.
      Inr (jobj [(''schema_version'', jnat 1), (''type'', JStr ''accountability-event''), (''profile'', JStr ACTION_PROFILE),
        (''scope'', al_scope L), (''event_id'', JStr (''server-'' @ drop 7 transition_digest)),
        (''stream'', jobj [(''scope'', al_scope L), (''kind'', JStr ''stream''), (''id'', JStr (ac_stream_id en))]),
        (''source_generation'', jnat (sg_generation stream)), (''sequence'', jnat (n + 1)), (''predecessor'', predecessor),
        (''producer'', JStr ''server''), (''family'', JStr ''activation''), (''kind'', JStr ''activation-applied''),
        (''occurred_at'', jnat now), (''clock'', JStr ''bounded-utc-2s''), (''causal_parents'', JArr []),
        (''payload'', payload), (''payload_digest'', JStr payload_digest)])))))"

definition activation_provenance :: "activation_enrollment \<Rightarrow> activation_evidence \<Rightarrow> json" where
  "activation_provenance en pf = jobj [(''received_at'', jnat (pf_now pf)), (''authority_revision'', JStr (pf_authority_revision pf)),
     (''coordinator'', JStr (ac_coordinator en)), (''recorder_service'', JStr (ac_service en)), (''source'', JStr ''server-activation'')]"

definition activation_claims :: "action_env \<Rightarrow> json \<Rightarrow> string \<Rightarrow> json \<Rightarrow> json \<Rightarrow> json \<Rightarrow> bool \<Rightarrow> kernel_error + new_claim list" where
  "activation_claims e t transition_digest event r provenance new_archive =
     res_bind (if new_archive
       then res_bind (encoded e t) (\<lambda>raw. Inr [(new_claim_fact ARTIFACTS transition_digest raw)\<lparr>nc_evidence := Some provenance\<rparr>])
       else Inr []) (\<lambda>archive.
     res_bind (j_text (jx event ''event_id'')) (\<lambda>event_id.
     res_bind (encoded e event) (\<lambda>audit.
     res_bind (j_text (jx (jx t ''transition'') ''id'')) (\<lambda>i.
     res_bind (encoded e (jobj [(''receipt'', r)])) (\<lambda>applied.
     Inr (archive @ [(new_claim_fact EVENTS event_id audit)\<lparr>nc_evidence := Some provenance\<rparr>,
       (new_claim_fact APPLIED i applied)\<lparr>nc_evidence := Some provenance\<rparr>]))))))"

definition apply_decide :: "action_env \<Rightarrow> 's action_ledger \<Rightarrow> activation_enrollment \<Rightarrow> json \<Rightarrow> activation_evidence \<Rightarrow> json \<Rightarrow>
    string \<Rightarrow> stream_registration \<Rightarrow> 's \<Rightarrow> 's \<Rightarrow> 's \<Rightarrow> kernel_error + seq \<times> attempt" where
  "apply_decide e L en t pf r transition_digest stream s1 s2 s3 =
     res_bind (ledger_snapshot e L s1 s2) (\<lambda>(pin, artifacts, events).
     res_bind (activation_facts L pin s3) (\<lambda>facts.
     res_bind (applied_scan e t r (applied_facts facts) None) (\<lambda>(found, current).
     if found then Inr (pin, Answer r)
     else
     res_bind (epoch_of en current) (\<lambda>(epoch, digest).
     if jx t ''prior_epoch'' \<noteq> jnat epoch \<or> jx t ''prior_artifact_set_digest'' \<noteq> JStr digest then Inl IdempotencyMismatch
     else
     res_bind (applied_event e L en transition_digest stream r (pf_now pf)
       (last_in_stream (ac_stream_id en) (sg_generation stream) events)) (\<lambda>event.
     res_bind (validate_action_record e event) (\<lambda>_.
     if \<exists>x \<in> set events. jx (sd_value x) ''event_id'' = jx event ''event_id'' then Inl IdempotencyMismatch
     else
     let old = find (\<lambda>a. jx (sd_value a) ''type'' = JStr ''activation'' \<and> jx (sd_value a) ''transition'' = jx t ''transition'') artifacts in
     if (case old of None \<Rightarrow> False | Some a \<Rightarrow> sd_value a \<noteq> t) then Inl IdempotencyMismatch
     else
     res_bind (activation_claims e t transition_digest event r (activation_provenance en pf) (old = None)) (\<lambda>claims.
     Inr (pin, Write (AppendAll claims)))))))))"

definition check_apply :: "action_env \<Rightarrow> 's action_ledger \<Rightarrow> activation_enrollment \<Rightarrow> json \<Rightarrow> activation_evidence \<Rightarrow>
    kernel_error + json \<times> string \<times> stream_registration" where
  "check_apply e L en t pf =
     res_bind (validate_action_record e t) (\<lambda>_.
     res_bind (check_scope t (al_scope L)) (\<lambda>_.
     res_bind (check_ratified e t pf) (\<lambda>_.
     res_bind (check_receipt e t (pf_pause pf) ''gate'' ''paused'') (\<lambda>_.
     res_bind (check_receipt e t (pf_registry_receipt pf) ''registry'' ''applied'') (\<lambda>_.
     if \<not> gate_paused_for (al_scope L) (pf_gate_head pf) t then Inl act_denied
     else if \<not> registry_applied (al_scope L) (pf_registry_head pf) t then Inl act_denied
     else
     res_bind (activation_receipt e t) (\<lambda>r.
     res_bind (action_digest e ''activation'' t) (\<lambda>digest.
     res_bind (ok_or (policy_stream (al_policy L) (ac_stream_id en)) act_denied) (\<lambda>stream.
     Inr (r, digest, stream)))))))))"

text \<open>What follows the enrolment.\<close>

definition apply_enrolled :: "action_env \<Rightarrow> 's action_ledger \<Rightarrow> activation_enrollment \<Rightarrow> json \<Rightarrow> activation_evidence \<Rightarrow>
    (nat \<Rightarrow> 's \<Rightarrow> 's) \<Rightarrow> 's \<Rightarrow> (kernel_error + json) \<times> 's" where
  "apply_enrolled e L en t pf others s =
     (case check_apply e L en t pf of
        Inl err \<Rightarrow> (Inl err, s)
      | Inr (r, transition_digest, stream) \<Rightarrow>
          commit_loop (al_store L) (al_version L) ''activation commit contention''
            (apply_decide e L en t pf r transition_digest stream) (\<lambda>_. Inr r) others 32 s)"

definition apply_activation :: "action_env \<Rightarrow> 's action_ledger \<Rightarrow> activation_enrollment \<Rightarrow> json \<Rightarrow> activation_evidence \<Rightarrow>
    (nat \<Rightarrow> 's \<Rightarrow> 's) \<Rightarrow> 's \<Rightarrow> (kernel_error + json) \<times> 's" where
  "apply_activation e L en t pf others s =
     (case initialize_activation e L en others s of
        (Inl err, s') \<Rightarrow> (Inl err, s')
      | (Inr _, s') \<Rightarrow> apply_enrolled e L en t pf (\<lambda>k. others (128 + k)) s')"

end
