(* ===== verification/Action_Checkpoint.thy ===== *)
theory Action_Checkpoint
  imports Action_Activation
begin

text \<open>
  The recovery checkpoint of the action ledger
  (\<open>munarium-core/src/platform_actions/ledger/checkpoint.rs\<close>): every retained record at one
  position, exported in bounded pages that all carry the digest of the whole.
\<close>

definition CHECKPOINT_PROFILE :: string where
  "CHECKPOINT_PROFILE = ''stage2-recovery-checkpoint-v1''"

definition PAGE_BYTES :: nat where
  "PAGE_BYTES = 1024 * 1024"

section \<open>Entries\<close>

definition entry :: "string \<Rightarrow> stored_record \<Rightarrow> json \<Rightarrow> json" where
  "entry kind r receipt = jobj [(''kind'', JStr kind), (''position'', jnat (sd_seq r)), (''received_at'', jnat (sd_received_at r)),
     (''record'', sd_value r), (''receipt'', receipt)]"

definition artifact_entry :: "action_env \<Rightarrow> stored_record \<Rightarrow> kernel_error + json" where
  "artifact_entry e r =
     res_bind (validate_action_record e (sd_value r)) (\<lambda>_.
     res_bind (j_text (jx (sd_value r) ''type'')) (\<lambda>kind.
     res_bind (action_digest e kind (sd_value r)) (\<lambda>digest.
     Inr (entry ''artifact'' r (jobj [(''record_type'', JStr kind), (''ledger_position'', jnat (sd_seq r)), (''digest'', JStr digest)])))))"

type_synonym source_heads = "((string \<times> nat) \<times> json) list"

definition source_head_entry :: "json \<Rightarrow> nat \<Rightarrow> nat \<Rightarrow> string \<Rightarrow> json" where
  "source_head_entry event generation sequence digest = jobj [(''stream'', jx event ''stream''), (''source_generation'', jnat generation),
     (''producer'', jx event ''producer''), (''sequence'', jnat sequence), (''event_digest'', JStr digest)]"

definition update_head :: "action_env \<Rightarrow> json \<Rightarrow> source_heads \<Rightarrow> kernel_error + source_heads" where
  "update_head e event heads =
     res_bind (j_text (jx (jx event ''stream'') ''id'')) (\<lambda>i.
     res_bind (j_number (jx event ''source_generation'')) (\<lambda>generation.
     res_bind (j_number (jx event ''sequence'')) (\<lambda>sequence.
     if (case map_of heads (i, generation) of None \<Rightarrow> True
         | Some old \<Rightarrow> (case jas_u64 (jx old ''sequence'') of None \<Rightarrow> True | Some n \<Rightarrow> n < sequence))
     then res_bind (action_digest e ''accountability-event'' event) (\<lambda>digest.
       Inr (bt_insert (i, generation) (source_head_entry event generation sequence digest) heads))
     else Inr heads)))"

fun event_entries :: "action_env \<Rightarrow> 's action_ledger \<Rightarrow> source_heads \<Rightarrow> stored_record list \<Rightarrow> kernel_error + source_heads \<times> json list" where
  "event_entries e L heads [] = Inr (heads, [])"
| "event_entries e L heads (r # rs) =
     res_bind (validate_action_record e (sd_value r)) (\<lambda>_.
     res_bind (update_head e (sd_value r) heads) (\<lambda>heads'.
     res_bind (acknowledgement e L (sd_value r) (sd_seq r) (sd_received_at r)) (\<lambda>receipt.
     res_bind (event_entries e L heads' rs) (\<lambda>(out, es). Inr (out, entry ''event'' r receipt # es)))))"

definition entry_position :: "json \<Rightarrow> nat option" where
  "entry_position x = jas_u64 (jx x ''position'')"

fun adjacent_repeat :: "'a list \<Rightarrow> bool" where
  "adjacent_repeat (x # y # xs) \<longleftrightarrow> x = y \<or> adjacent_repeat (y # xs)"
| "adjacent_repeat _ \<longleftrightarrow> False"

definition checkpoint_entries :: "action_env \<Rightarrow> 's action_ledger \<Rightarrow> stored_record list \<Rightarrow> stored_record list \<Rightarrow>
    kernel_error + source_heads \<times> json list" where
  "checkpoint_entries e L artifacts events =
     res_bind (res_map (artifact_entry e) artifacts) (\<lambda>as.
     res_bind (event_entries e L [] events) (\<lambda>(heads, es).
     let records = sort_key entry_position (as @ es) in
     if adjacent_repeat (map (\<lambda>x. jx x ''position'') records) then Inl act_invalid else Inr (heads, records)))"

section \<open>The descriptor and its digest\<close>

definition checkpoint_descriptor :: "'s action_ledger \<Rightarrow> seq \<Rightarrow> source_heads \<Rightarrow> json list \<Rightarrow> json" where
  "checkpoint_descriptor L pin heads records = jobj [(''schema_version'', jnat 1), (''type'', JStr ''recovery-checkpoint''),
     (''profile'', JStr CHECKPOINT_PROFILE), (''coverage'', JStr ''action-artifacts-and-events''), (''scope'', al_scope L),
     (''ledger'', jobj [(''scope'', al_scope L), (''kind'', JStr ''ledger''), (''id'', JStr (al_version L))]),
     (''ledger_position'', jnat pin), (''total_records'', jnat (length records)), (''source_heads'', JArr (map snd heads)),
     (''digest_profile'', JStr ''sha256-delimited-canonical-v1''), (''execution_enabled'', JBool False)]"

definition checkpoint_digest :: "action_env \<Rightarrow> json \<Rightarrow> json list \<Rightarrow> string" where
  "checkpoint_digest e descriptor records =
     ''sha256:'' @ jc_sha (an_codec e) (''munarium:stage2:recovery-checkpoint:v1'' @ [CHR 0x00] @ jc_bytes (an_codec e) descriptor
       @ concat (map (\<lambda>r. CHR 0x00 # jc_bytes (an_codec e) r) records))"

section \<open>Pages\<close>

definition with_records :: "json \<Rightarrow> json list \<Rightarrow> json \<Rightarrow> json" where
  "with_records page rs next_after = jset ''next_after'' next_after (jset ''records'' (JArr rs) page)"

text \<open>The loop that fills a page: a record that makes the page too large is taken back.\<close>

fun fill_page :: "action_env \<Rightarrow> json \<Rightarrow> json list \<Rightarrow> json list \<Rightarrow> json list" where
  "fill_page e page rs [] = rs"
| "fill_page e page rs (x # xs) =
     (if PAGE_BYTES - 32 < length (jc_bytes (an_codec e) (with_records page (rs @ [x]) (jx x ''position'')))
      then rs else fill_page e page (rs @ [x]) xs)"

definition checkpoint_page :: "action_env \<Rightarrow> json \<Rightarrow> json list \<Rightarrow> nat \<Rightarrow> nat \<Rightarrow> kernel_error + json" where
  "checkpoint_page e descriptor records after limit =
     (let page = jset ''next_after'' JNull (jset ''complete'' (JBool False) (jset ''records'' (JArr []) (jset ''after'' (jnat after)
            (jset ''checkpoint_digest'' (JStr (checkpoint_digest e descriptor records)) descriptor))));
          remaining = filter (\<lambda>x. case entry_position x of None \<Rightarrow> False | Some n \<Rightarrow> after < n) records;
          selected = fill_page e page [] (take limit remaining) in
      if selected = [] \<and> remaining \<noteq> [] then Inl act_invalid
      else
      let complete = (length selected = length remaining);
          result = with_records (jset ''complete'' (JBool complete) page) selected
            (if complete then JNull else jx (last selected) ''position'') in
      if PAGE_BYTES < length (jc_bytes (an_codec e) result) then Inl act_invalid else Inr result)"

definition checkpoint :: "action_env \<Rightarrow> 's action_ledger \<Rightarrow> action_admission \<Rightarrow> seq option \<Rightarrow> nat \<Rightarrow> nat \<Rightarrow> 's \<Rightarrow> 's \<Rightarrow>
    kernel_error + json" where
  "checkpoint e L adm cutoff after limit s1 s2 =
     res_bind (authorize L adm False) (\<lambda>_.
     if \<not> (1 \<le> limit \<and> limit \<le> 64) \<or> max_integer < after then Inl act_invalid
     else
     res_bind (snapshot_at e L cutoff s1 s2) (\<lambda>(pin, artifacts, events).
     if pin < after then Inl act_invalid
     else
     res_bind (checkpoint_entries e L artifacts events) (\<lambda>(heads, records).
     checkpoint_page e (checkpoint_descriptor L pin heads records) records after limit)))"

end
