(* ===== verification/Action_Log.thy ===== *)
theory Action_Log
  imports Action_Checkpoint
begin

text \<open>
  What the action ledger relies on from its store, as the locale \<open>protected_log\<close>: the facts of the
  protected version form a log, a read pinned at a head never sees what comes later, and an append
  with an expected head succeeds only at that head. On it, a loop of optimistic attempts is atomic:
  it answers as it would have at one moment between its start and its end, running alone.
\<close>

definition plain :: "new_claim \<Rightarrow> bool" where
  "plain nc \<longleftrightarrow> nc_supersedes_id nc = None \<and> nc_status nc = Accepted"

fun claims_of :: "append_call \<Rightarrow> new_claim list" where
  "claims_of (AppendOne nc) = [nc]"
| "claims_of (AppendAll ncs) = ncs"

definition plain_call :: "append_call \<Rightarrow> bool" where
  "plain_call w \<longleftrightarrow> claims_of w \<noteq> [] \<and> list_all plain (claims_of w)"

definition carries :: "new_claim \<Rightarrow> claim \<Rightarrow> bool" where
  "carries nc c \<longleftrightarrow> c_subject c = nc_subject nc \<and> c_key c = nc_key nc \<and> c_value c = nc_value nc \<and> c_evidence c = nc_evidence nc"

definition extends_log :: "('s \<Rightarrow> bool) \<Rightarrow> ('s \<Rightarrow> claim list) \<Rightarrow> ('s \<Rightarrow> seq) \<Rightarrow> 's \<Rightarrow> 's \<Rightarrow> bool" where
  "extends_log ok facts tip s s' \<longleftrightarrow> ok s' \<and> tip s \<le> tip s' \<and> (\<exists>new. facts s' = facts s @ new \<and> (\<forall>c \<in> set new. tip s < c_seq c))"

section \<open>The loop\<close>

lemma commit_loop_alone: "commit_loop be v ct d answer (\<lambda>_ x. x) (Suc n) s =
    (case d s s s of
       Inl err \<Rightarrow> (Inl err, s)
     | Inr (pin, Answer j) \<Rightarrow> (Inr j, s)
     | Inr (pin, Write w) \<Rightarrow>
         (case try_append be v w pin s of
            Inr (stored, s') \<Rightarrow> (answer stored, s')
          | Inl err \<Rightarrow> if is_head_conflict err then commit_loop be v ct d answer (\<lambda>_ x. x) n s else (Inl err, s)))"
  by (simp only: commit_loop.simps Let_def)

lemma commit_loop_cases [consumes 2, case_names failed answered appended]:
  assumes "commit_loop be v ct d answer others n s = (r, s')" and others: "\<And>k x. S\<^sup>*\<^sup>* x (others k x)"
  obtains (failed) err where "r = Inl err" "S\<^sup>*\<^sup>* s s'"
    | (answered) s1 s2 pin j where "S\<^sup>*\<^sup>* s s1" "S\<^sup>*\<^sup>* s1 s2" "S\<^sup>*\<^sup>* s2 s'" "d s1 s2 s' = Inr (pin, Answer j)" "r = Inr j"
    | (appended) s1 s2 s3 s4 pin w stored where "S\<^sup>*\<^sup>* s s1" "S\<^sup>*\<^sup>* s1 s2" "S\<^sup>*\<^sup>* s2 s3" "S\<^sup>*\<^sup>* s3 s4" "d s1 s2 s3 = Inr (pin, Write w)"
        "try_append be v w pin s4 = Inr (stored, s')" "r = answer stored"
  using assms(1)
proof (induction n arbitrary: s thesis)
  case 0
  from "0.prems"(4) have "r = Inl (Storage ct)" "s' = s" by simp_all
  then show ?case using "0.prems"(1) by blast
next
  case (Suc n)
  define s1 where "s1 = others (4 * n) s"
  define s2 where "s2 = others (4 * n + 1) s1"
  define s3 where "s3 = others (4 * n + 2) s2"
  define s4 where "s4 = others (4 * n + 3) s3"
  have R: "S\<^sup>*\<^sup>* s s1" "S\<^sup>*\<^sup>* s1 s2" "S\<^sup>*\<^sup>* s2 s3" "S\<^sup>*\<^sup>* s3 s4" by (simp_all add: s1_def s2_def s3_def s4_def others)
  then have R3: "S\<^sup>*\<^sup>* s s3" and R4: "S\<^sup>*\<^sup>* s s4" using R by (meson rtranclp_trans)+
  note u = Suc.prems(4)[unfolded commit_loop.simps Let_def, folded s1_def, folded s2_def, folded s3_def, folded s4_def]
  show ?case
  proof (cases "d s1 s2 s3")
    case (Inl err)
    with u R3 show ?thesis by (auto intro!: Suc.prems(1))
  next
    case (Inr pa)
    obtain pin a where d: "d s1 s2 s3 = Inr (pin, a)" using Inr by (cases pa) simp
    show ?thesis
    proof (cases a)
      case (Answer j)
      with u d have "r = Inr j" "s' = s3" by simp_all
      with R d Answer show ?thesis by (auto intro!: Suc.prems(2))
    next
      case (Write w)
      show ?thesis
      proof (cases "try_append be v w pin s4")
        case (Inl err)
        show ?thesis
        proof (cases "is_head_conflict err")
          case True
          with u d Write Inl have l: "commit_loop be v ct d answer others n s4 = (r, s')" by simp
          show ?thesis
          proof (rule Suc.IH[OF _ _ _ l])
            fix err assume "r = Inl err" "S\<^sup>*\<^sup>* s4 s'"
            then show ?thesis using Suc.prems(1) R4 rtranclp_trans by metis
          next
            fix t1 t2 p j assume "S\<^sup>*\<^sup>* s4 t1" "S\<^sup>*\<^sup>* t1 t2" "S\<^sup>*\<^sup>* t2 s'" "d t1 t2 s' = Inr (p, Answer j)" "r = Inr j"
            then show ?thesis using Suc.prems(2) R4 rtranclp_trans by metis
          next
            fix t1 t2 t3 t4 p x stored assume "S\<^sup>*\<^sup>* s4 t1" "S\<^sup>*\<^sup>* t1 t2" "S\<^sup>*\<^sup>* t2 t3" "S\<^sup>*\<^sup>* t3 t4" "d t1 t2 t3 = Inr (p, Write x)"
              "try_append be v x p t4 = Inr (stored, s')" "r = answer stored"
            then show ?thesis using Suc.prems(3) R4 rtranclp_trans by metis
          qed
        next
          case False
          with u d Write Inl have "r = Inl err \<and> s' = s4" by simp
          with R4 show ?thesis by (auto intro!: Suc.prems(1))
        qed
      next
        case (Inr x)
        obtain stored t where x: "x = (stored, t)" by force
        from u d Write Inr x have "r = answer stored" "s' = t" by simp_all
        with R d Write Inr x show ?thesis by (intro Suc.prems(3)[of s1 s2 s3 s4 pin w stored]) auto
      qed
    qed
  qed
qed

section \<open>The contract\<close>

locale protected_log =
  fixes be :: "'s fact_backend"
    and v :: string
    and ok :: "'s \<Rightarrow> bool"
    and facts :: "'s \<Rightarrow> claim list"
    and tip :: "'s \<Rightarrow> seq"
  assumes head_read: "ok s \<Longrightarrow> fb_head be v s = Inr (tip s)"
    and slice_read: "ok s \<Longrightarrow> fb_slice_facts be v (pinned p) s = Inr (filter (\<lambda>c. c_seq c \<le> p) (facts s))"
    and below_tip: "ok s \<Longrightarrow> c \<in> set (facts s) \<Longrightarrow> c_seq c \<le> tip s"
    and stale: "ok s \<Longrightarrow> plain_call w \<Longrightarrow> p \<noteq> tip s \<Longrightarrow> try_append be v w p s = Inl (HeadConflict p (tip s))"
    and current: "ok s \<Longrightarrow> plain_call w \<Longrightarrow> \<exists>cs s'. try_append be v w (tip s) s = Inr (cs, s') \<and> ok s'
      \<and> tip s < tip s' \<and> facts s' = facts s @ cs \<and> list_all2 carries (claims_of w) cs \<and> (\<forall>c \<in> set cs. tip s < c_seq c)"
begin

lemma extends_log_refl: "ok s \<Longrightarrow> extends_log ok facts tip s s"
  by (simp add: extends_log_def)

lemma extends_log_trans: "extends_log ok facts tip s t \<Longrightarrow> extends_log ok facts tip t u \<Longrightarrow> extends_log ok facts tip s u"
  unfolding extends_log_def by fastforce

lemma extends_logD: "extends_log ok facts tip s t \<Longrightarrow> ok t \<and> tip s \<le> tip t"
  by (simp add: extends_log_def)

lemma extends_log_same: "extends_log ok facts tip s t \<Longrightarrow> tip t = tip s \<Longrightarrow> facts t = facts s"
proof -
  assume e: "extends_log ok facts tip s t" and t: "tip t = tip s"
  then obtain new where n: "ok t" "facts t = facts s @ new" "\<forall>c \<in> set new. tip s < c_seq c" by (auto simp: extends_log_def)
  have "new = []"
  proof (rule ccontr)
    assume "new \<noteq> []"
    then obtain c where "c \<in> set new" by (cases new) auto
    with n below_tip[OF n(1), of c] t show False by fastforce
  qed
  with n show "facts t = facts s" by simp
qed

lemma slice_at_head:
  assumes "ok s" "extends_log ok facts tip s t"
  shows "fb_slice_facts be v (pinned (tip s)) t = Inr (facts s)"
proof -
  from assms(2) obtain new where n: "ok t" "facts t = facts s @ new" "\<forall>c \<in> set new. tip s < c_seq c" by (auto simp: extends_log_def)
  have "filter (\<lambda>c. c_seq c \<le> tip s) new = []" using n(3) by (fastforce simp: filter_empty_conv)
  moreover have "filter (\<lambda>c. c_seq c \<le> tip s) (facts s) = facts s" using below_tip[OF assms(1)] by (simp add: filter_id_conv)
  ultimately show ?thesis using n by (simp add: slice_read)
qed

lemma slice_pinned:
  assumes "ok s" "extends_log ok facts tip s t" "p \<le> tip s"
  shows "fb_slice_facts be v (pinned p) t = fb_slice_facts be v (pinned p) s"
proof -
  from assms(2) obtain new where n: "ok t" "facts t = facts s @ new" "\<forall>c \<in> set new. tip s < c_seq c" by (auto simp: extends_log_def)
  have "filter (\<lambda>c. c_seq c \<le> p) new = []" using n(3) assms(3) by (fastforce simp: filter_empty_conv)
  with n assms(1) show ?thesis by (simp add: slice_read)
qed

text \<open>A decision that looks at the store only through a pinned snapshot, and what it writes.\<close>

lemma loop_atomic:
  assumes others: "\<And>k x. S\<^sup>*\<^sup>* x (others k x)"
    and run: "\<And>x y. ok x \<Longrightarrow> S\<^sup>*\<^sup>* x y \<Longrightarrow> extends_log ok facts tip x y"
    and pinned: "\<And>s1 s2 s3. ok s1 \<Longrightarrow> extends_log ok facts tip s1 s2 \<Longrightarrow> extends_log ok facts tip s2 s3 \<Longrightarrow> d s1 s2 s3 = d s1 s1 s1"
    and same: "\<And>s t. ok s \<Longrightarrow> ok t \<Longrightarrow> tip s = tip t \<Longrightarrow> facts s = facts t \<Longrightarrow> d s s s = d t t t"
    and writes: "\<And>s pin w. ok s \<Longrightarrow> d s s s = Inr (pin, Write w) \<Longrightarrow> pin = tip s \<and> plain_call w"
    and c: "commit_loop be v ct d answer others n s = (r, s')" and s: "ok s"
  shows "(\<exists>err. r = Inl err \<and> S\<^sup>*\<^sup>* s s') \<or>
    (\<exists>s1 s2. S\<^sup>*\<^sup>* s s1 \<and> commit_loop be v ct d answer (\<lambda>_ x. x) (Suc m) s1 = (r, s2) \<and> S\<^sup>*\<^sup>* s2 s')"
  using c others
proof (cases rule: commit_loop_cases)
  case (failed err)
  then show ?thesis by blast
next
  case (answered s1 s2 pin j)
  have e1: "extends_log ok facts tip s s1" using run[OF s answered(1)] .
  then have ok1: "ok s1" using extends_logD by blast
  have e2: "extends_log ok facts tip s1 s2" using run[OF ok1 answered(2)] .
  then have "ok s2" using extends_logD by blast
  from run[OF this answered(3)] e2 pinned[OF ok1] answered(4) have "d s1 s1 s1 = Inr (pin, Answer j)" by metis
  then have "commit_loop be v ct d answer (\<lambda>_ x. x) (Suc m) s1 = (r, s1)" using answered(5) by (simp add: commit_loop_alone)
  then show ?thesis using answered(1-3) by (meson rtranclp_trans)
next
  case (appended s1 s2 s3 s4 pin w stored)
  have e1: "extends_log ok facts tip s s1" using run[OF s appended(1)] .
  then have ok1: "ok s1" using extends_logD by blast
  have e2: "extends_log ok facts tip s1 s2" using run[OF ok1 appended(2)] .
  then have ok2: "ok s2" using extends_logD by blast
  have e3: "extends_log ok facts tip s2 s3" using run[OF ok2 appended(3)] .
  then have "ok s3" using extends_logD by blast
  from run[OF this appended(4)] e2 e3 have e4: "extends_log ok facts tip s1 s4" using extends_log_trans by blast
  then have ok4: "ok s4" using extends_logD by blast
  have d1: "d s1 s1 s1 = Inr (pin, Write w)" using appended(5) pinned[OF ok1 e2 e3] by simp
  note p = writes[OF ok1 d1]
  have tip: "tip s4 = tip s1"
  proof (rule ccontr)
    assume "tip s4 \<noteq> tip s1"
    with stale[OF ok4, of w pin] p appended(6) show False by simp
  qed
  have "d s4 s4 s4 = Inr (pin, Write w)" using same[OF ok4 ok1 tip] extends_log_same[OF e4 tip] d1 by simp
  with appended(6,7) have "commit_loop be v ct d answer (\<lambda>_ x. x) (Suc m) s4 = (r, s')"
    by (simp add: commit_loop_alone)
  moreover have "S\<^sup>*\<^sup>* s s4" using appended(1-4) by (meson rtranclp_trans)
  ultimately show ?thesis by blast
qed

text \<open>What running alone does: the answer without a change, or the claims appended at the head.\<close>

lemma loop_alone:
  assumes ok: "ok s" and writes: "\<And>pin w. d s s s = Inr (pin, Write w) \<Longrightarrow> pin = tip s \<and> plain_call w"
    and c: "commit_loop be v ct d answer (\<lambda>_ x. x) (Suc m) s = (r, s')"
  obtains (failed) err where "d s s s = Inl err" "r = Inl err" "s' = s"
    | (answered) pin j where "d s s s = Inr (pin, Answer j)" "r = Inr j" "s' = s"
    | (appended) w cs where "d s s s = Inr (tip s, Write w)" "plain_call w" "r = answer cs" "ok s'" "tip s < tip s'"
        "facts s' = facts s @ cs" "list_all2 carries (claims_of w) cs" "\<forall>c \<in> set cs. tip s < c_seq c"
proof (cases "d s s s")
  case (Inl err)
  with c have "r = Inl err" "s' = s" by (simp_all add: commit_loop_alone)
  with Inl that(1) show ?thesis by blast
next
  case (Inr pa)
  obtain pin a where d: "d s s s = Inr (pin, a)" using Inr by (cases pa) simp
  show ?thesis
  proof (cases a)
    case (Answer j)
    with c d have "r = Inr j" "s' = s" by (simp_all add: commit_loop_alone)
    with d Answer that(2) show ?thesis by blast
  next
    case (Write w)
    with d have d: "d s s s = Inr (pin, Write w)" by simp
    note p = writes[OF d]
    from current[OF ok, of w] p obtain cs t where t: "try_append be v w (tip s) s = Inr (cs, t)" "ok t" "tip s < tip t"
      "facts t = facts s @ cs" "list_all2 carries (claims_of w) cs" "\<forall>c \<in> set cs. tip s < c_seq c" by blast
    have "r = answer cs \<and> s' = t" using c d p t(1) by (simp add: commit_loop_alone)
    moreover have "d s s s = Inr (tip s, Write w)" using d p by simp
    ultimately show ?thesis using that(3)[of w cs] p t(2-6) by blast
  qed
qed

lemma alone_extends:
  assumes "ok s" "\<And>pin w. d s s s = Inr (pin, Write w) \<Longrightarrow> pin = tip s \<and> plain_call w"
    "commit_loop be v ct d answer (\<lambda>_ x. x) (Suc m) s = (r, s')"
  shows "extends_log ok facts tip s s'"
proof (rule loop_alone[OF assms])
  fix w cs assume "ok s'" "tip s < tip s'" "facts s' = facts s @ cs" "\<forall>c \<in> set cs. tip s < c_seq c"
  then show ?thesis by (auto simp: extends_log_def)
qed (use extends_log_refl[OF assms(1)] in simp_all)

end

end
