(* ===== verification/Action_Steps.thy ===== *)
theory Action_Steps
  imports Action_Log Mem_Properties
begin

text \<open>
  The action ledger on the in-memory store: the store provides the contract \<open>protected_log\<close> for a
  root version that only the ledger writes to, the four operations of the ledger as steps on the
  store, and their atomicity.
\<close>

section \<open>Decisions look at a snapshot only\<close>

lemma archive_claim_plain: "plain_call (AppendOne (archive_claim adm digest raw))"
  by (simp add: plain_call_def plain_def archive_claim_def new_claim_fact_def)

lemma event_claim_plain: "plain_call (AppendOne (event_claim adm event i digest raw h))"
  by (simp add: plain_call_def plain_def event_claim_def new_claim_fact_def)

lemma enrollment_claim_plain: "plain_call (AppendOne (new_claim_fact s k raw))"
  by (simp add: plain_call_def plain_def new_claim_fact_def)

lemma activation_claims_plain: "activation_claims e t d event r p b = Inr ncs \<Longrightarrow> plain_call (AppendAll ncs)"
  by (auto simp: activation_claims_def res_bind_eq_Inr plain_call_def plain_def new_claim_fact_def split: if_splits)

definition snapshot_on :: "action_env \<Rightarrow> 's action_ledger \<Rightarrow> seq \<Rightarrow> claim list \<Rightarrow>
    kernel_error + seq \<times> stored_record list \<times> stored_record list" where
  "snapshot_on e L pin fs = (if max_integer < pin then Inl act_invalid
     else res_bind (load_records e (al_scope L) fs) (\<lambda>(artifacts, events). Inr (pin, artifacts, events)))"

lemma snapshot_on_Inr: "snapshot_on e L pin fs = Inr (p, artifacts, events) \<longleftrightarrow>
    p = pin \<and> pin \<le> max_integer \<and> load_records e (al_scope L) fs = Inr (artifacts, events)"
  by (auto simp: snapshot_on_def res_bind_eq_Inr)

context protected_log
begin

lemma snapshot_pinned:
  assumes "al_store L = be" "al_version L = v" "ok s1" "extends_log ok facts tip s1 s2"
  shows "ledger_snapshot e L s1 s2 = snapshot_on e L (tip s1) (facts s1)"
  using assms by (simp add: ledger_snapshot_def snapshot_at_def snapshot_on_def head_read slice_at_head)

lemma facts_pinned:
  assumes "al_store L = be" "al_version L = v" "ok s1" "extends_log ok facts tip s1 s2"
  shows "activation_facts L (tip s1) s2 = Inr (facts s1)"
  using assms by (simp add: activation_facts_def slice_at_head)

text \<open>The four decisions, written over the head and the facts at it.\<close>

lemma archive_decide_on:
  assumes "al_store L = be" "al_version L = v" "ok s1" "extends_log ok facts tip s1 s2"
  shows "archive_decide e L adm raw w kind digest s1 s2 =
    res_bind (snapshot_on e L (tip s1) (facts s1)) (\<lambda>(pin, artifacts, events).
     res_bind (archive_scan kind digest w artifacts) (\<lambda>found.
     (case found of
        Some j \<Rightarrow> Inr (pin, Answer j)
      | None \<Rightarrow> res_bind (validate_archive e w artifacts) (\<lambda>_. Inr (pin, Write (AppendOne (archive_claim adm digest raw)))))))"
  using snapshot_pinned[OF assms] by (simp add: archive_decide_def)

lemma event_decide_on:
  assumes "al_store L = be" "al_version L = v" "ok s1" "extends_log ok facts tip s1 s2"
  shows "event_decide e L adm raw event digest recovery s1 s2 =
    res_bind (snapshot_on e L (tip s1) (facts s1)) (\<lambda>(pin, artifacts, events).
     res_bind (event_scan event events None) (\<lambda>found.
     (case found of
        Inl old \<Rightarrow> res_bind (acknowledgement e L event (sd_seq old) (sd_received_at old)) (\<lambda>ack. Inr (pin, Answer ack))
      | Inr last_event \<Rightarrow>
          res_bind (check_sequence e event last_event) (\<lambda>_.
          res_bind (prerequisites e L event artifacts events) (\<lambda>_.
          res_bind (check_recovery e recovery event digest events) (\<lambda>_.
          res_bind (j_text (jx event ''event_id'')) (\<lambda>event_id.
          Inr (pin, Write (AppendOne (event_claim adm event event_id digest raw (recovery \<noteq> None)))))))))))"
  using snapshot_pinned[OF assms] by (simp add: event_decide_def)

lemma enrollment_decide_on:
  assumes "al_store L = be" "al_version L = v" "ok s1" "extends_log ok facts tip s1 s2"
  shows "enrollment_decide e L w s1 s2 =
    res_bind (find_enrollment e w (facts s1)) (\<lambda>found.
     if found then Inr (tip s1, Answer JNull)
     else res_bind (encoded e w) (\<lambda>raw. Inr (tip s1, Write (AppendOne (new_claim_fact ENROLLMENT ''initial'' raw)))))"
  using assms facts_pinned[OF assms] by (simp add: enrollment_decide_def head_read)

lemma apply_decide_on:
  assumes "al_store L = be" "al_version L = v" "ok s1" "extends_log ok facts tip s1 s2" "extends_log ok facts tip s2 s3"
  shows "apply_decide e L en t pf r digest stream s1 s2 s3 = apply_decide e L en t pf r digest stream s1 s1 s1"
proof -
  have e: "extends_log ok facts tip s1 s3" "extends_log ok facts tip s1 s1" using assms extends_log_trans extends_log_refl by blast+
  note f = facts_pinned[OF assms(1-3) e(1)] facts_pinned[OF assms(1-3) e(2)]
  show ?thesis unfolding apply_decide_def snapshot_pinned[OF assms(1-4)] snapshot_pinned[OF assms(1-3) e(2)]
    by (cases "snapshot_on e L (tip s1) (facts s1)") (auto simp: snapshot_on_Inr f)
qed

lemma apply_decide_on_same:
  assumes "al_store L = be" "al_version L = v" "ok s" "ok s'" "tip s = tip s'" "facts s = facts s'"
  shows "apply_decide e L en t pf r digest stream s s s = apply_decide e L en t pf r digest stream s' s' s'"
proof -
  note p = snapshot_pinned[OF assms(1,2,3) extends_log_refl[OF assms(3)]] snapshot_pinned[OF assms(1,2,4) extends_log_refl[OF assms(4)]]
  note f = facts_pinned[OF assms(1,2,3) extends_log_refl[OF assms(3)]] facts_pinned[OF assms(1,2,4) extends_log_refl[OF assms(4)]]
  show ?thesis unfolding apply_decide_def p assms(5,6)
    by (cases "snapshot_on e L (tip s') (facts s')") (use f assms(5,6) in \<open>auto simp: snapshot_on_Inr\<close>)
qed

lemma archive_writes: "al_store L = be \<Longrightarrow> al_version L = v \<Longrightarrow> ok s \<Longrightarrow>
    archive_decide e L adm raw w kind digest s s = Inr (pin, Write c) \<Longrightarrow> pin = tip s \<and> plain_call c"
  by (auto simp: archive_decide_on extends_log_refl res_bind_eq_Inr snapshot_on_Inr archive_claim_plain split: option.splits)

lemma event_writes: "al_store L = be \<Longrightarrow> al_version L = v \<Longrightarrow> ok s \<Longrightarrow>
    event_decide e L adm raw event digest recovery s s = Inr (pin, Write c) \<Longrightarrow> pin = tip s \<and> plain_call c"
  by (auto simp: event_decide_on extends_log_refl res_bind_eq_Inr snapshot_on_Inr event_claim_plain case_sum_eq_Inr)

lemma enrollment_writes: "al_store L = be \<Longrightarrow> al_version L = v \<Longrightarrow> ok s \<Longrightarrow>
    enrollment_decide e L w s s = Inr (pin, Write c) \<Longrightarrow> pin = tip s \<and> plain_call c"
  by (auto simp: enrollment_decide_on extends_log_refl res_bind_eq_Inr enrollment_claim_plain split: if_splits)

lemma apply_writes:
  assumes "al_store L = be" "al_version L = v" "ok s" "apply_decide e L en t pf r digest stream s s s = Inr (pin, Write c)"
  shows "pin = tip s \<and> plain_call c"
  using assms(4) snapshot_pinned[OF assms(1-3) extends_log_refl[OF assms(3)]]
  by (auto simp: apply_decide_def res_bind_eq_Inr snapshot_on_Inr Let_def dest: activation_claims_plain split: if_splits)

end

section \<open>The in-memory store\<close>

definition mem_facts :: "gov_env \<Rightarrow> (nat \<Rightarrow> string) \<Rightarrow> mem_state fact_backend" where
  "mem_facts env gen = \<lparr>fb_head = (\<lambda>v s. head_of env s v), fb_slice_facts = (\<lambda>v q s. slice_facts env s v q),
     fb_append_claim = (\<lambda>v nc expected s. append_claim env gen s v nc expected),
     fb_append_claims = (\<lambda>v ncs expected s. append_claims env gen s v ncs expected)\<rparr>"

text \<open>A root version whose claims are accepted and supersede nothing.\<close>

definition protected_ok :: "gov_env \<Rightarrow> (nat \<Rightarrow> string) \<Rightarrow> string \<Rightarrow> mem_state \<Rightarrow> bool" where
  "protected_ok env gen v s \<longleftrightarrow> gov_env_ok env \<and> inj gen \<and> mem_ok env gen s \<and> map_of (ms_versions s) v = Some None
     \<and> (\<forall>c \<in> set (rows (ms_claims s) v). c_status c = Accepted \<and> c_supersedes_id c = None)"

lemma path_root: "versions_ok vs \<Longrightarrow> map_of vs v = Some None \<Longrightarrow> path vs v = [v]"
  by (induction vs v rule: path.induct) (auto split: if_splits)

lemma protected_okD:
  assumes "protected_ok env gen v s"
  shows "known s v" "lineage s v = [v]" "tree_ok env s" "lin_rows (ms_claims s) s v = rows (ms_claims s) v"
    "sorted_wrt (<) (map c_seq (rows (ms_claims s) v))"
proof -
  show t: "tree_ok env s" using assms by (simp add: protected_ok_def mem_ok_def)
  show "known s v" using assms by (simp add: protected_ok_def known_def)
  show l: "lineage s v = [v]" using assms t by (simp add: protected_ok_def tree_ok_def lineage_def path_root)
  then show "lin_rows (ms_claims s) s v = rows (ms_claims s) v" by (simp add: lin_rows_def)
  show "sorted_wrt (<) (map c_seq (rows (ms_claims s) v))" using assms by (simp add: protected_ok_def mem_ok_def rows_ok_def)
qed

lemma stored_claim_plain: "plain nc \<Longrightarrow> c_status (stored_claim i v n nc) = Accepted"
  by (simp add: plain_def stored_claim_def)

lemma stored_claim_carries: "carries nc (stored_claim i v n nc)"
  by (simp add: carries_def stored_claim_def)

lemma sup_known_plain: "plain nc \<Longrightarrow> sup_known cs nc"
  by (simp add: plain_def sup_known_def)

text \<open>Any append of plain claims at the head is a batch on the rows of the version.\<close>

lemma mem_append:
  assumes ok: "protected_ok env gen v s" and w: "plain_call w"
  defines "cs \<equiv> batch_claims gen s v (head s v + 1) (claims_of w)"
  shows "\<exists>s'. try_append (mem_facts env gen) v w (head s v) s = Inr (cs, s') \<and> mem_step env gen s v s' \<and>
    ms_versions s' = ms_versions s \<and> rows (ms_claims s') v = rows (ms_claims s) v @ cs \<and> head s' v = head s v + length (claims_of w)"
proof -
  note t = protected_okD[OF ok]
  have sup0: "\<forall>nc \<in> set (claims_of w). sup_known (lin_rows (ms_claims s) s v) nc" and ne: "claims_of w \<noteq> []"
    using w sup_known_plain by (auto simp: plain_call_def list_all_iff)
  have hd: "head (claims_added s v cs) v = head s v + length (claims_of w)" using head_batch[OF t(1) ne] by (simp add: cs_def)
  show ?thesis
  proof (cases w)
    case (AppendOne nc)
    define c where "c = stored_claim (''claim-'' @ gen (ms_drawn s)) v (head s v + 1) nc"
    have cs: "cs = [c]" by (simp add: cs_def AppendOne batch_claims_def c_def)
    have "append_claim env gen s v nc (Some (head s v)) = Inr (c, claims_added s v cs)"
      using sup0 by (simp add: append_claim_Inr[OF t(3)] t(1) AppendOne store_claim_batch cs c_def)
    then show ?thesis using hd by (auto simp: mem_facts_def AppendOne cs intro: mem_step.claim)
  next
    case (AppendAll ncs)
    let ?s' = "extend_findings v (c_seq (last cs)) [] (claims_added s v cs)"
    have a: "append_batch env gen s v ncs (Some (head s v)) [] = Inr (cs, ?s')"
      using sup0 ne by (simp add: append_batch_Inr[OF t(3)] t(1) AppendAll cs_def)
    have "version_seqs ?s' = version_seqs (claims_added s v cs)"
      by (intro ext seqs_same_rows) simp_all
    then have "head ?s' v = head (claims_added s v cs) v" by (simp add: head_def lineage_def)
    then have "head ?s' v = head s v + length (claims_of w)" using hd by simp
    with a show ?thesis by (auto simp: mem_facts_def AppendAll append_claims_def intro: mem_step.batch)
  qed
qed

lemma mem_stale:
  assumes ok: "protected_ok env gen v s" and w: "plain_call w" and p: "p \<noteq> head s v"
  shows "try_append (mem_facts env gen) v w p s = Inl (HeadConflict p (head s v))"
  using protected_okD[OF ok] w p
  by (cases w) (simp_all add: mem_facts_def append_claim_def append_claims_def append_batch_def tree_simps check_head_def plain_call_def)

lemma mem_slice:
  assumes "protected_ok env gen v s"
  shows "slice_facts env s v (pinned p) = Inr (filter (\<lambda>c. c_seq c \<le> p) (rows (ms_claims s) v))"
proof -
  let ?cs = "rows (ms_claims s) v"
  note t = protected_okD[OF assms]
  have plain: "c \<in> set ?cs \<Longrightarrow> c_status c = Accepted \<and> c_supersedes_id c = None" for c using assms by (simp add: protected_ok_def)
  then have "superseded_ids (filter (\<lambda>c. c_seq c \<le> p) ?cs) = []"
    by (auto simp: superseded_ids_def List.map_filter_def filter_empty_conv)
  moreover have "sorted (map c_seq (filter (\<lambda>c. c_seq c \<le> p) ?cs))"
    using t(5) by (intro sorted_filter) (simp add: strict_sorted_iff)
  moreover have "filter (\<lambda>c. c_seq c \<le> p \<and> c_status c = Accepted) ?cs = filter (\<lambda>c. c_seq c \<le> p) ?cs"
    using plain by (intro filter_cong) auto
  ultimately show ?thesis
    by (simp add: slice_facts_def tree_simps t resolve_slice_def pinned_def fact_query_default_def effective_statuses_def
        sort_key_id_if_sorted conj_commute)
qed

lemma protected_ok_step:
  assumes ok: "protected_ok env gen v s" and step: "mem_step env gen s w s'"
    and new: "rows (ms_claims s') v = rows (ms_claims s) v @ cs" "\<forall>c \<in> set cs. c_status c = Accepted \<and> c_supersedes_id c = None"
  shows "protected_ok env gen v s'"
proof -
  have m: "mem_ok env gen s" "gov_env_ok env" "inj gen" using ok by (simp_all add: protected_ok_def)
  have ok': "mem_ok env gen s'" by (rule step_ok[OF m(2,3,1) step])
  have "map_of (ms_versions s') v = Some None"
    using step_versions[OF m(1,3) step] ok protected_okD(1)[OF ok] by (auto simp: protected_ok_def)
  with ok ok' new show ?thesis by (auto simp: protected_ok_def)
qed

interpretation mem_log: protected_log "mem_facts env gen" v "protected_ok env gen v" "\<lambda>s. rows (ms_claims s) v" "\<lambda>s. head s v"
  for env gen v
proof
  fix s assume ok: "protected_ok env gen v s"
  then show "fb_head (mem_facts env gen) v s = Inr (head s v)" by (simp add: mem_facts_def tree_simps protected_okD)
  show "fb_slice_facts (mem_facts env gen) v (pinned p) s = Inr (filter (\<lambda>c. c_seq c \<le> p) (rows (ms_claims s) v))" for p
    using mem_slice[OF ok] by (simp add: mem_facts_def)
  show "c_seq c \<le> head s v" if "c \<in> set (rows (ms_claims s) v)" for c
    using head_ge_rows(1)[OF protected_okD(1)[OF ok] that] .
next
  fix s w p assume "protected_ok env gen v s" "plain_call w" "p \<noteq> head s v"
  then show "try_append (mem_facts env gen) v w p s = Inl (HeadConflict p (head s v))" by (rule mem_stale)
next
  fix s w assume ok: "protected_ok env gen v s" and w: "plain_call w"
  define cs where "cs = batch_claims gen s v (head s v + 1) (claims_of w)"
  obtain s' where s': "try_append (mem_facts env gen) v w (head s v) s = Inr (cs, s')" "mem_step env gen s v s'"
    "rows (ms_claims s') v = rows (ms_claims s) v @ cs" "head s v < head s' v"
    using mem_append[OF ok w] w unfolding cs_def plain_call_def by fastforce
  have cs: "\<forall>c \<in> set cs. c_status c = Accepted \<and> c_supersedes_id c = None"
    using w by (auto simp: cs_def set_batch_claims plain_call_def list_all_length stored_claim_plain) (simp add: plain_def)
  have "list_all2 carries (claims_of w) cs"
    by (simp add: cs_def batch_claims_def list_all2_conv_all_nth stored_claim_carries)
  moreover have "\<forall>c \<in> set cs. head s v < c_seq c" by (auto simp: cs_def set_batch_claims)
  ultimately show "\<exists>cs s'. try_append (mem_facts env gen) v w (head s v) s = Inr (cs, s') \<and> protected_ok env gen v s' \<and> head s v < head s' v
      \<and> rows (ms_claims s') v = rows (ms_claims s) v @ cs \<and> list_all2 carries (claims_of w) cs \<and> (\<forall>c \<in> set cs. head s v < c_seq c)"
    using s' protected_ok_step[OF ok s'(2,3) cs] by blast
qed

end
