(* ===== verification/Action_Runs.thy ===== *)
theory Action_Runs
  imports Action_Steps
begin

text \<open>
  The operations of the action ledger as steps on the in-memory store, and their atomicity: whatever
  other tasks do between the awaits, a call that answers has answered as it would have running alone
  at one moment in between, and a call that fails before that has written nothing, save that an
  activation may have written its enrolment.
\<close>

section \<open>Calls and steps\<close>

datatype ledger_call =
    Archive action_admission string
  | Record action_admission string
  | Enrol activation_enrollment
  | Apply activation_enrollment json activation_evidence

fun carry_out :: "action_env \<Rightarrow> 's action_ledger \<Rightarrow> ledger_call \<Rightarrow> (nat \<Rightarrow> 's \<Rightarrow> 's) \<Rightarrow> 's \<Rightarrow> (kernel_error + json) \<times> 's" where
  "carry_out e L (Archive adm raw) others s = archive e L adm raw others s"
| "carry_out e L (Record adm raw) others s = append_event e L adm raw others s"
| "carry_out e L (Enrol en) others s = initialize_activation e L en others s"
| "carry_out e L (Apply en t pf) others s = apply_activation e L en t pf others s"

definition alone :: "nat \<Rightarrow> 's \<Rightarrow> 's" where
  "alone k s = s"

definition mem_ledger :: "gov_env \<Rightarrow> (nat \<Rightarrow> string) \<Rightarrow> string \<Rightarrow> action_policy \<Rightarrow> mem_state action_ledger" where
  "mem_ledger env gen v policy = \<lparr>al_store = mem_facts env gen, al_version = v, al_policy = policy\<rparr>"

text \<open>Writes at other versions, and calls of the ledger under any policy.\<close>

inductive action_step :: "action_env \<Rightarrow> gov_env \<Rightarrow> (nat \<Rightarrow> string) \<Rightarrow> string \<Rightarrow> mem_state \<Rightarrow> mem_state \<Rightarrow> bool"
  for e :: action_env and env :: gov_env and gen :: "nat \<Rightarrow> string" and v :: string where
  elsewhere: "mem_step env gen s w s' \<Longrightarrow> w \<noteq> v \<Longrightarrow> action_step e env gen v s s'"
| call: "carry_out e (mem_ledger env gen v policy) c alone s = (r, s') \<Longrightarrow> action_step e env gen v s s'"

abbreviation ledger_run :: "action_env \<Rightarrow> gov_env \<Rightarrow> (nat \<Rightarrow> string) \<Rightarrow> string \<Rightarrow> mem_state \<Rightarrow> mem_state \<Rightarrow> bool" where
  "ledger_run e env gen v \<equiv> (action_step e env gen v)\<^sup>*\<^sup>*"

definition codec_ok :: "codec \<Rightarrow> bool" where
  "codec_ok cd \<longleftrightarrow> (\<forall>v w. jc_parse cd (jc_bytes cd v) = Some w \<longrightarrow> w = v)"

lemma alone_fun: "alone = (\<lambda>k x. x)"
  by (simp add: fun_eq_iff alone_def)

lemma mem_ledger_simps [simp]: "al_store (mem_ledger env gen v policy) = mem_facts env gen"
  "al_version (mem_ledger env gen v policy) = v" "al_policy (mem_ledger env gen v policy) = policy"
  by (simp_all add: mem_ledger_def)

definition grows :: "gov_env \<Rightarrow> (nat \<Rightarrow> string) \<Rightarrow> string \<Rightarrow> mem_state \<Rightarrow> mem_state \<Rightarrow> bool" where
  "grows env gen v s s' \<longleftrightarrow> extends_log (protected_ok env gen v) (\<lambda>s. rows (ms_claims s) v) (\<lambda>s. head s v) s s'"

lemma grows_refl: "protected_ok env gen v s \<Longrightarrow> grows env gen v s s"
  unfolding grows_def by (rule mem_log.extends_log_refl)

lemma grows_trans: "grows env gen v s t \<Longrightarrow> grows env gen v t u \<Longrightarrow> grows env gen v s u"
  unfolding grows_def by (rule mem_log.extends_log_trans)

lemma growsD: "grows env gen v s s' \<Longrightarrow> protected_ok env gen v s' \<and> head s v \<le> head s' v
    \<and> (\<exists>new. rows (ms_claims s') v = rows (ms_claims s) v @ new \<and> (\<forall>c \<in> set new. head s v < c_seq c))"
  by (simp add: grows_def extends_log_def)

section \<open>A call running alone\<close>

lemma thirty_two: "(32 :: nat) = Suc 31"
  by simp

lemmas loop_grows = mem_log.alone_extends[where m = 31, folded thirty_two alone_fun grows_def]

lemma archive_loop: "archive_check e L adm raw = Inr (w, kind, digest) \<Longrightarrow> archive e L adm raw others s =
    commit_loop (al_store L) (al_version L) ''platform action archive contention''
      (\<lambda>s1 s2 s3. archive_decide e L adm raw w kind digest s1 s2) (\<lambda>stored. Inr (archived digest (c_seq (hd stored)) kind)) others 32 s"
  by (simp add: archive_def)

lemma event_loop: "event_check e L adm raw = Inr (event, digest, recovery) \<Longrightarrow> append_event e L adm raw others s =
    commit_loop (al_store L) (al_version L) ''platform action event contention''
      (\<lambda>s1 s2 s3. event_decide e L adm raw event digest recovery s1 s2)
      (\<lambda>stored. acknowledgement e L event (c_seq (hd stored)) (aa_now adm)) others 32 s"
  by (simp add: append_event_def)

lemma enrollment_loop: "check_enrollment L en = Inr w \<Longrightarrow> initialize_activation e L en others s =
    commit_loop (al_store L) (al_version L) ''activation enrollment contention''
      (\<lambda>s1 s2 s3. enrollment_decide e L w s1 s2) (\<lambda>_. Inr JNull) others 32 s"
  by (simp add: initialize_activation_def)

lemma apply_loop: "check_apply e L en t pf = Inr (r, digest, stream) \<Longrightarrow> apply_enrolled e L en t pf others s =
    commit_loop (al_store L) (al_version L) ''activation commit contention''
      (apply_decide e L en t pf r digest stream) (\<lambda>_. Inr r) others 32 s"
  by (simp add: apply_enrolled_def)

lemma archive_grows:
  assumes "protected_ok env gen v s" "archive e (mem_ledger env gen v policy) adm raw alone s = (r, s')"
  shows "grows env gen v s s'"
proof (cases "archive_check e (mem_ledger env gen v policy) adm raw")
  case (Inl err)
  with assms(2) show ?thesis using grows_refl[OF assms(1)] by (simp add: archive_def)
next
  case (Inr x)
  obtain w kind digest where x: "x = (w, kind, digest)" by (cases x)
  show ?thesis
    using loop_grows[OF assms(1) _ assms(2)[unfolded archive_loop[OF Inr[unfolded x]] mem_ledger_simps]]
      mem_log.archive_writes[OF mem_ledger_simps(1,2) assms(1)] by blast
qed

lemma append_event_grows:
  assumes "protected_ok env gen v s" "append_event e (mem_ledger env gen v policy) adm raw alone s = (r, s')"
  shows "grows env gen v s s'"
proof (cases "event_check e (mem_ledger env gen v policy) adm raw")
  case (Inl err)
  with assms(2) show ?thesis using grows_refl[OF assms(1)] by (simp add: append_event_def)
next
  case (Inr x)
  obtain event digest recovery where x: "x = (event, digest, recovery)" by (cases x)
  show ?thesis
    using loop_grows[OF assms(1) _ assms(2)[unfolded event_loop[OF Inr[unfolded x]] mem_ledger_simps]]
      mem_log.event_writes[OF mem_ledger_simps(1,2) assms(1)] by blast
qed

lemma initialize_grows:
  assumes "protected_ok env gen v s" "initialize_activation e (mem_ledger env gen v policy) en alone s = (r, s')"
  shows "grows env gen v s s'"
proof (cases "check_enrollment (mem_ledger env gen v policy) en")
  case (Inl err)
  with assms(2) show ?thesis using grows_refl[OF assms(1)] by (simp add: initialize_activation_def)
next
  case (Inr w)
  show ?thesis
    using loop_grows[OF assms(1) _ assms(2)[unfolded enrollment_loop[OF Inr] mem_ledger_simps]]
      mem_log.enrollment_writes[OF mem_ledger_simps(1,2) assms(1)] by blast
qed

lemma apply_enrolled_grows:
  assumes "protected_ok env gen v s" "apply_enrolled e (mem_ledger env gen v policy) en t pf alone s = (r, s')"
  shows "grows env gen v s s'"
proof (cases "check_apply e (mem_ledger env gen v policy) en t pf")
  case (Inl err)
  with assms(2) show ?thesis using grows_refl[OF assms(1)] by (simp add: apply_enrolled_def)
next
  case (Inr x)
  obtain r digest stream where x: "x = (r, digest, stream)" by (cases x)
  show ?thesis
    using loop_grows[OF assms(1) _ assms(2)[unfolded apply_loop[OF Inr[unfolded x]] mem_ledger_simps]]
      mem_log.apply_writes[OF mem_ledger_simps(1,2) assms(1)] by blast
qed

lemma alone_shift: "(\<lambda>k. alone (n + k)) = alone"
  by (simp add: fun_eq_iff alone_def)

lemma apply_grows:
  assumes "protected_ok env gen v s" "apply_activation e (mem_ledger env gen v policy) en t pf alone s = (r, s')"
  shows "grows env gen v s s'"
proof -
  obtain q s1 where i: "initialize_activation e (mem_ledger env gen v policy) en alone s = (q, s1)" by force
  have g: "grows env gen v s s1" by (rule initialize_grows[OF assms(1) i])
  then have ok: "protected_ok env gen v s1" using growsD by blast
  show ?thesis
  proof (cases q)
    case (Inl err)
    with assms(2) i g show ?thesis by (simp add: apply_activation_def)
  next
    case (Inr j)
    with assms(2) i have "apply_enrolled e (mem_ledger env gen v policy) en t pf alone s1 = (r, s')"
      by (simp add: apply_activation_def alone_shift)
    from grows_trans[OF g apply_enrolled_grows[OF ok this]] show ?thesis .
  qed
qed

lemma carry_out_grows: "protected_ok env gen v s \<Longrightarrow> carry_out e (mem_ledger env gen v policy) c alone s = (r, s') \<Longrightarrow> grows env gen v s s'"
  by (cases c) (auto dest: archive_grows append_event_grows initialize_grows apply_grows)

lemma elsewhere_grows:
  assumes ok: "protected_ok env gen v s" and step: "mem_step env gen s w s'" "w \<noteq> v"
  shows "grows env gen v s s'"
proof -
  have m: "mem_ok env gen s" "inj gen" using ok by (simp_all add: protected_ok_def)
  have r: "rows (ms_claims s') v = rows (ms_claims s) v @ []" using step_ledger[OF m(1) step(1), of v] step(2) by fastforce
  with protected_ok_step[OF ok step(1) r] step_head_mono[OF m step(1) protected_okD(1)[OF ok]] show ?thesis
    by (simp add: grows_def extends_log_def)
qed

lemma step_grows: "protected_ok env gen v s \<Longrightarrow> action_step e env gen v s s' \<Longrightarrow> grows env gen v s s'"
  by (erule action_step.cases) (auto intro: elsewhere_grows carry_out_grows)

lemma run_grows:
  assumes "protected_ok env gen v s" "ledger_run e env gen v s s'"
  shows "grows env gen v s s'"
  using assms(2)
proof induction
  case base
  show ?case by (rule grows_refl[OF assms(1)])
next
  case (step t u)
  then have "protected_ok env gen v t" using growsD by blast
  from step_grows[OF this step(2)] step(3) grows_trans show ?case by blast
qed

section \<open>Atomicity\<close>

lemma decide_on_same:
  assumes "protected_ok env gen v s" "protected_ok env gen v t" "head s v = head t v" "rows (ms_claims s) v = rows (ms_claims t) v"
  shows "archive_decide e (mem_ledger env gen v policy) adm raw w kind digest s s
      = archive_decide e (mem_ledger env gen v policy) adm raw w kind digest t t"
    and "event_decide e (mem_ledger env gen v policy) adm raw event digest recovery s s
      = event_decide e (mem_ledger env gen v policy) adm raw event digest recovery t t"
    and "enrollment_decide e (mem_ledger env gen v policy) w s s = enrollment_decide e (mem_ledger env gen v policy) w t t"
  using assms
  by (simp_all add: mem_log.archive_decide_on mem_log.event_decide_on mem_log.enrollment_decide_on mem_log.extends_log_refl cong: if_cong)

lemma decide_on_pinned:
  assumes "protected_ok env gen v s1" "grows env gen v s1 s2"
  shows "archive_decide e (mem_ledger env gen v policy) adm raw w kind digest s1 s2
      = archive_decide e (mem_ledger env gen v policy) adm raw w kind digest s1 s1"
    and "event_decide e (mem_ledger env gen v policy) adm raw event digest recovery s1 s2
      = event_decide e (mem_ledger env gen v policy) adm raw event digest recovery s1 s1"
    and "enrollment_decide e (mem_ledger env gen v policy) w s1 s2 = enrollment_decide e (mem_ledger env gen v policy) w s1 s1"
  using assms unfolding grows_def
  by (simp_all add: mem_log.archive_decide_on mem_log.event_decide_on mem_log.enrollment_decide_on mem_log.extends_log_refl)

text \<open>The other tasks alone: any of their steps, any number of times, and nothing of the call itself.\<close>

definition others_ran :: "(nat \<Rightarrow> mem_state \<Rightarrow> mem_state) \<Rightarrow> mem_state \<Rightarrow> mem_state \<Rightarrow> bool" where
  "others_ran others = (\<lambda>x y. \<exists>k. y = others k x)\<^sup>*\<^sup>*"

lemma others_ran_refl [simp]: "others_ran others x x"
  by (simp add: others_ran_def)

lemma others_ran_step: "others_ran others x (others k x)"
  unfolding others_ran_def by blast

lemma others_ran_trans: "others_ran others x y \<Longrightarrow> others_ran others y z \<Longrightarrow> others_ran others x z"
  unfolding others_ran_def by (rule rtranclp_trans)

lemma others_ran_alone: "others_ran alone x y \<Longrightarrow> y = x"
  unfolding others_ran_def by (induction rule: rtranclp_induct) (auto simp: alone_fun)

lemma others_ran_ledger:
  assumes "\<And>k x. ledger_run e env gen v x (others k x)" "others_ran others x y"
  shows "ledger_run e env gen v x y"
  using assms(2) unfolding others_ran_def
proof induction
  case (step y z)
  then show ?case using assms(1) by (metis rtranclp_trans)
qed simp

lemma others_ran_grows:
  assumes "\<And>k x. ledger_run e env gen v x (others k x)" "protected_ok env gen v x" "others_ran others x y"
  shows "grows env gen v x y"
  by (rule run_grows[OF assms(2) others_ran_ledger[OF assms(1,3)]])

text \<open>
  A call settles when it fails and only the others have acted, or when the others act, then the call
  runs alone, then the others act again.
\<close>

definition settles :: "(nat \<Rightarrow> mem_state \<Rightarrow> mem_state) \<Rightarrow> (mem_state \<Rightarrow> (kernel_error + json) \<times> mem_state) \<Rightarrow>
    mem_state \<Rightarrow> (kernel_error + json) \<Rightarrow> mem_state \<Rightarrow> bool" where
  "settles others run_alone s r s' \<longleftrightarrow> (\<exists>err. r = Inl err \<and> others_ran others s s') \<or>
     (\<exists>s1 s2. others_ran others s s1 \<and> run_alone s1 = (r, s2) \<and> others_ran others s2 s')"

lemma settles_refused: "settles others f s (Inl err) s"
  by (auto simp: settles_def)

lemmas loop_settles = mem_log.loop_atomic[where m = 31, folded thirty_two alone_fun grows_def]

lemma archive_settles:
  assumes "\<And>k x. others_ran os x (others k x)" "protected_ok env gen v s"
    "\<And>x y. protected_ok env gen v x \<Longrightarrow> others_ran os x y \<Longrightarrow> grows env gen v x y"
    "archive e (mem_ledger env gen v policy) adm raw others s = (r, s')"
  shows "settles os (archive e (mem_ledger env gen v policy) adm raw alone) s r s'"
proof (cases "archive_check e (mem_ledger env gen v policy) adm raw")
  case (Inl err)
  with assms(4) have "r = Inl err" "s' = s" by (simp_all add: archive_def)
  then show ?thesis by (simp add: settles_refused)
next
  case (Inr x)
  obtain w kind digest where x: "x = (w, kind, digest)" by (cases x)
  note l = archive_loop[OF Inr[unfolded x]]
  show ?thesis unfolding settles_def l mem_ledger_simps others_ran_def
    by (rule loop_settles[OF assms(1)[unfolded others_ran_def] assms(3)[unfolded others_ran_def] _ _ _ assms(4)[unfolded l mem_ledger_simps] assms(2)])
      ((assumption | rule decide_on_pinned(1) decide_on_same(1) mem_log.archive_writes[OF mem_ledger_simps(1,2)]; assumption)+)
qed

lemma event_settles:
  assumes "\<And>k x. others_ran os x (others k x)" "protected_ok env gen v s"
    "\<And>x y. protected_ok env gen v x \<Longrightarrow> others_ran os x y \<Longrightarrow> grows env gen v x y"
    "append_event e (mem_ledger env gen v policy) adm raw others s = (r, s')"
  shows "settles os (append_event e (mem_ledger env gen v policy) adm raw alone) s r s'"
proof (cases "event_check e (mem_ledger env gen v policy) adm raw")
  case (Inl err)
  with assms(4) have "r = Inl err" "s' = s" by (simp_all add: append_event_def)
  then show ?thesis by (simp add: settles_refused)
next
  case (Inr x)
  obtain event digest recovery where x: "x = (event, digest, recovery)" by (cases x)
  note l = event_loop[OF Inr[unfolded x]]
  show ?thesis unfolding settles_def l mem_ledger_simps others_ran_def
    by (rule loop_settles[OF assms(1)[unfolded others_ran_def] assms(3)[unfolded others_ran_def] _ _ _ assms(4)[unfolded l mem_ledger_simps] assms(2)])
      ((assumption | rule decide_on_pinned(2) decide_on_same(2) mem_log.event_writes[OF mem_ledger_simps(1,2)]; assumption)+)
qed

lemma enrollment_settles:
  assumes "\<And>k x. others_ran os x (others k x)" "protected_ok env gen v s"
    "\<And>x y. protected_ok env gen v x \<Longrightarrow> others_ran os x y \<Longrightarrow> grows env gen v x y"
    "initialize_activation e (mem_ledger env gen v policy) en others s = (r, s')"
  shows "settles os (initialize_activation e (mem_ledger env gen v policy) en alone) s r s'"
proof (cases "check_enrollment (mem_ledger env gen v policy) en")
  case (Inl err)
  with assms(4) have "r = Inl err" "s' = s" by (simp_all add: initialize_activation_def)
  then show ?thesis by (simp add: settles_refused)
next
  case (Inr w)
  note l = enrollment_loop[OF Inr]
  show ?thesis unfolding settles_def l mem_ledger_simps others_ran_def
    by (rule loop_settles[OF assms(1)[unfolded others_ran_def] assms(3)[unfolded others_ran_def] _ _ _ assms(4)[unfolded l mem_ledger_simps] assms(2)])
      ((assumption | rule decide_on_pinned(3) decide_on_same(3) mem_log.enrollment_writes[OF mem_ledger_simps(1,2)]; assumption)+)
qed

lemma apply_enrolled_settles:
  assumes "\<And>k x. others_ran os x (others k x)" "protected_ok env gen v s"
    "\<And>x y. protected_ok env gen v x \<Longrightarrow> others_ran os x y \<Longrightarrow> grows env gen v x y"
    "apply_enrolled e (mem_ledger env gen v policy) en t pf others s = (r, s')"
  shows "settles os (apply_enrolled e (mem_ledger env gen v policy) en t pf alone) s r s'"
proof (cases "check_apply e (mem_ledger env gen v policy) en t pf")
  case (Inl err)
  with assms(4) have "r = Inl err" "s' = s" by (simp_all add: apply_enrolled_def)
  then show ?thesis by (simp add: settles_refused)
next
  case (Inr x)
  obtain q digest stream where x: "x = (q, digest, stream)" by (cases x)
  note l = apply_loop[OF Inr[unfolded x]]
  show ?thesis unfolding settles_def l mem_ledger_simps others_ran_def
    by (rule loop_settles[OF assms(1)[unfolded others_ran_def] assms(3)[unfolded others_ran_def] _ _ _ assms(4)[unfolded l mem_ledger_simps] assms(2)])
      ((assumption | rule mem_log.apply_decide_on[OF mem_ledger_simps(1,2), folded grows_def]
        mem_log.apply_decide_on_same[OF mem_ledger_simps(1,2)] mem_log.apply_writes[OF mem_ledger_simps(1,2)]; assumption)+)
qed

section \<open>An enrolment stays\<close>

lemma find_enrollment_append: "find_enrollment e w (xs @ ys) =
    res_bind (find_enrollment e w xs) (\<lambda>b. if b then Inr True else find_enrollment e w ys)"
proof (induction xs)
  case (Cons x xs)
  then show ?case by (cases "canonical_record (an_codec e) (c_value x)") auto
qed simp

lemma encoded_Inr: "encoded e w = Inr raw \<longleftrightarrow> raw = jc_bytes (an_codec e) w \<and> (\<exists>x. canonical_record (an_codec e) raw = Inr x)"
  by (auto simp: encoded_def res_bind_eq_Inr)

lemma encoded_parses: "codec_ok (an_codec e) \<Longrightarrow> encoded e w = Inr raw \<Longrightarrow> canonical_record (an_codec e) raw = Inr w"
  by (auto simp: encoded_Inr codec_ok_def) (auto simp: canonical_record_Inr)

lemma enrolled_again:
  assumes cd: "codec_ok (an_codec e)" and ok: "protected_ok env gen v s1"
    and i: "initialize_activation e (mem_ledger env gen v policy) en alone s1 = (Inr j, s2)" and g: "grows env gen v s2 t"
  shows "initialize_activation e (mem_ledger env gen v policy) en alone t = (Inr JNull, t)"
proof -
  obtain w where w: "check_enrollment (mem_ledger env gen v policy) en = Inr w"
    using i by (cases "check_enrollment (mem_ledger env gen v policy) en") (simp_all add: initialize_activation_def)
  note l = enrollment_loop[OF w, of e, unfolded mem_ledger_simps]
  have found: "find_enrollment e w (rows (ms_claims s2) v) = Inr True"
  proof (rule mem_log.loop_alone[where m = 31, folded thirty_two alone_fun, OF ok _ i[unfolded l]])
    fix pin x assume "enrollment_decide e (mem_ledger env gen v policy) w s1 s1 = Inr (pin, Write x)"
    then show "pin = head s1 v \<and> plain_call x" by (rule mem_log.enrollment_writes[OF mem_ledger_simps(1,2) ok])
  next
    fix pin k assume "enrollment_decide e (mem_ledger env gen v policy) w s1 s1 = Inr (pin, Answer k)" "s2 = s1"
    then show ?thesis
      by (auto simp: mem_log.enrollment_decide_on[OF mem_ledger_simps(1,2) ok mem_log.extends_log_refl[OF ok]] res_bind_eq_Inr split: if_splits)
  next
    fix x cs assume d: "enrollment_decide e (mem_ledger env gen v policy) w s1 s1 = Inr (head s1 v, Write x)"
      and r: "rows (ms_claims s2) v = rows (ms_claims s1) v @ cs" "list_all2 carries (claims_of x) cs"
    from d obtain raw where x: "x = AppendOne (new_claim_fact ENROLLMENT ''initial'' raw)" "encoded e w = Inr raw"
      "find_enrollment e w (rows (ms_claims s1) v) = Inr False"
      by (auto simp: mem_log.enrollment_decide_on[OF mem_ledger_simps(1,2) ok mem_log.extends_log_refl[OF ok]] res_bind_eq_Inr split: if_splits)
    with r(2) obtain c where "cs = [c]" "c_subject c = ENROLLMENT" "c_value c = raw"
      by (auto simp: list_all2_Cons1 carries_def new_claim_fact_def)
    with r(1) x encoded_parses[OF cd x(2)] show ?thesis by (simp add: find_enrollment_append)
  qed simp
  have ok2: "protected_ok env gen v t" using growsD[OF g] by blast
  obtain new where "rows (ms_claims t) v = rows (ms_claims s2) v @ new" using growsD[OF g] by blast
  with found have "find_enrollment e w (rows (ms_claims t) v) = Inr True" by (simp add: find_enrollment_append)
  then have "enrollment_decide e (mem_ledger env gen v policy) w t t = Inr (head t v, Answer JNull)"
    by (simp add: mem_log.enrollment_decide_on[OF mem_ledger_simps(1,2) ok2 mem_log.extends_log_refl[OF ok2]])
  then show ?thesis unfolding l thirty_two alone_fun commit_loop_alone by simp
qed

text \<open>An activation is two loops: it settles as a whole, or its enrolment settles first.\<close>

lemma apply_settles:
  assumes cd: "codec_ok (an_codec e)" and others: "\<And>k x. ledger_run e env gen v x (others k x)" and ok: "protected_ok env gen v s"
    and a: "apply_activation e (mem_ledger env gen v policy) en t pf others s = (r, s')"
  shows "settles others (apply_activation e (mem_ledger env gen v policy) en t pf alone) s r s' \<or>
    (\<exists>j s1 s2 s3. others_ran others s s1 \<and> initialize_activation e (mem_ledger env gen v policy) en alone s1 = (Inr j, s2) \<and>
       others_ran others s2 s3 \<and> settles others (apply_activation e (mem_ledger env gen v policy) en t pf alone) s3 r s')"
    (is "?whole s \<or> ?halves")
proof -
  let ?L = "mem_ledger env gen v policy"
  note gr = others_ran_grows[where others = others, OF others]
  obtain q m where i: "initialize_activation e ?L en others s = (q, m)" by force
  have "settles others (initialize_activation e ?L en alone) s q m"
    by (rule enrollment_settles[OF _ ok _ i]) (rule others_ran_step, rule gr)
  note si = this[unfolded settles_def]
  show ?thesis
  proof (cases q)
    case (Inl err)
    with a i have r: "r = Inl err" "s' = m" by (simp_all add: apply_activation_def)
    from si have "?whole s"
    proof (elim disjE exE conjE)
      fix s1 s2 assume "others_ran others s s1" "initialize_activation e ?L en alone s1 = (q, s2)" "others_ran others s2 m"
      then show ?thesis unfolding settles_def apply_activation_def r Inl by (intro disjI2 exI conjI) auto
    qed (use r in \<open>auto simp: settles_def\<close>)
    then show ?thesis ..
  next
    case (Inr j)
    with a i have ap: "apply_enrolled e ?L en t pf (\<lambda>k. others (128 + k)) m = (r, s')" by (simp add: apply_activation_def)
    from si Inr obtain s1 s2 where s12: "others_ran others s s1"
      "initialize_activation e ?L en alone s1 = (Inr j, s2)" "others_ran others s2 m" by auto
    have ok1: "protected_ok env gen v s1" using growsD[OF gr[OF ok s12(1)]] by blast
    have ok2: "protected_ok env gen v s2" using growsD[OF initialize_grows[OF ok1 s12(2)]] by blast
    have okm: "protected_ok env gen v m" using growsD[OF gr[OF ok2 s12(3)]] by blast
    have "settles others (apply_enrolled e ?L en t pf alone) m r s'"
      by (rule apply_enrolled_settles[OF _ okm _ ap]) (rule others_ran_step, rule gr)
    then have "?whole m" unfolding settles_def
    proof (elim disjE exE conjE)
      fix t1 t2 assume t: "others_ran others m t1" "apply_enrolled e ?L en t pf alone t1 = (r, t2)" "others_ran others t2 s'"
      have "others_ran others s2 t1" using s12(3) t(1) by (rule others_ran_trans)
      from enrolled_again[OF cd ok1 s12(2) gr[OF ok2 this]] t(2)
      have "apply_activation e ?L en t pf alone t1 = (r, t2)" by (simp add: apply_activation_def alone_shift)
      with t show "(\<exists>err. r = Inl err \<and> others_ran others m s') \<or> (\<exists>s1 s2. others_ran others m s1 \<and>
        apply_activation e ?L en t pf alone s1 = (r, s2) \<and> others_ran others s2 s')" by blast
    qed blast
    with s12 show ?thesis by blast
  qed
qed

text \<open>C27. The ledger's optimistic writes are atomic. Whatever other tasks do to the store between the
  awaits of an archive, an event append, an enrolment or an activation (any runs of such calls, and
  any writes to other versions), the call either fails and everything that happened to the store was
  done by the others (the call itself wrote nothing), or it ends as the same call ends running alone
  at one moment in between, with its writes made at that moment and only the others acting before
  and after. An activation first enrols, in a loop of its own: it may also enrol at an earlier moment, the
  others act, and the activation proper then settles in one of these two ways, so that a failed
  activation has written nothing or exactly what its enrolment alone writes.\<close>

theorem ledger_calls_atomic:
  assumes "codec_ok (an_codec e)" "protected_ok env gen v s" "\<And>k x. ledger_run e env gen v x (others k x)"
    and "carry_out e (mem_ledger env gen v policy) c others s = (r, s')"
  shows "settles others (carry_out e (mem_ledger env gen v policy) c alone) s r s' \<or>
    (\<exists>en t pf j s1 s2 s3. c = Apply en t pf \<and> others_ran others s s1 \<and>
       carry_out e (mem_ledger env gen v policy) (Enrol en) alone s1 = (Inr j, s2) \<and> others_ran others s2 s3 \<and>
       settles others (carry_out e (mem_ledger env gen v policy) c alone) s3 r s')"
proof (cases c)
  case (Apply en t pf)
  with assms(4) have "apply_activation e (mem_ledger env gen v policy) en t pf others s = (r, s')" by simp
  from apply_settles[OF assms(1,3,2) this] show ?thesis by (simp add: Apply settles_def)
next
  case (Archive adm raw)
  have "settles others (archive e (mem_ledger env gen v policy) adm raw alone) s r s'"
    by (rule archive_settles[OF _ assms(2)]) (use Archive assms(4) in \<open>simp_all add: others_ran_step others_ran_grows[OF assms(3)]\<close>)
  with Archive show ?thesis by (simp add: settles_def)
next
  case (Record adm raw)
  have "settles others (append_event e (mem_ledger env gen v policy) adm raw alone) s r s'"
    by (rule event_settles[OF _ assms(2)]) (use Record assms(4) in \<open>simp_all add: others_ran_step others_ran_grows[OF assms(3)]\<close>)
  with Record show ?thesis by (simp add: settles_def)
next
  case (Enrol en)
  have "settles others (initialize_activation e (mem_ledger env gen v policy) en alone) s r s'"
    by (rule enrollment_settles[OF _ assms(2)]) (use Enrol assms(4) in \<open>simp_all add: others_ran_step others_ran_grows[OF assms(3)]\<close>)
  with Enrol show ?thesis by (simp add: settles_def)
qed

end
