(* ===== verification/Action_History.thy ===== *)
theory Action_History
  imports Action_Runs
begin

text \<open>
  An abstract ledger: the enrolment, the artifacts, the events and the applied transitions as lists of
  records, and the rules by which they grow. What the operations do to the log of the store is such a
  growth; what holds of every abstract history is proved by induction on it.
\<close>

section \<open>Admission\<close>

definition digests_to :: "action_env \<Rightarrow> string \<Rightarrow> json \<Rightarrow> json \<Rightarrow> bool" where
  "digests_to e domain v d \<longleftrightarrow> (\<exists>h. action_digest e domain v = Inr h \<and> d = JStr h)"

lemma digest_differs_False: "digest_differs e d domain v = Inr False \<longleftrightarrow> digests_to e domain v d"
  by (simp add: digest_same digests_to_def)

definition of_attempt :: "string \<Rightarrow> json \<Rightarrow> json \<Rightarrow> bool" where
  "of_attempt kind p a \<longleftrightarrow> jx a ''type'' = JStr kind \<and> jx a ''attempt'' = jx p ''attempt'' \<and> jx a ''operation'' = jx p ''operation''"

definition requested_by :: "action_env \<Rightarrow> json \<Rightarrow> json \<Rightarrow> bool" where
  "requested_by e p q \<longleftrightarrow> of_attempt ''action-request'' p q \<and> digests_to e ''action-request'' q (jx p ''request_digest'')
     \<and> jx p ''context_digest'' = jx q ''context_digest''"

definition event_for :: "string \<Rightarrow> json \<Rightarrow> json \<Rightarrow> bool" where
  "event_for kind p x \<longleftrightarrow> jx x ''kind'' = JStr kind \<and> same_attempt (jx x ''payload'') p"

text \<open>An approval in the archive: it names a decision that asked for one, and its approver is neither
  the actor nor the origin of the request.\<close>

definition approves :: "action_env \<Rightarrow> json list \<Rightarrow> json \<Rightarrow> bool" where
  "approves e A w \<longleftrightarrow> (\<exists>q \<in> set A. requested_by e w q \<and> jx w ''approver'' \<noteq> jx (jx q ''intent'') ''actor''
       \<and> jx w ''approver'' \<noteq> jx (jx q ''intent'') ''origin'') \<and>
     (\<exists>d \<in> set A. of_attempt ''action-decision'' w d \<and> jx d ''outcome'' = JStr ''approval-required''
       \<and> digests_to e ''action-decision'' d (jx w ''decision_digest''))"

definition admits_artifact :: "action_env \<Rightarrow> json list \<Rightarrow> json \<Rightarrow> bool" where
  "admits_artifact e A w \<longleftrightarrow> validate_action_record e w = Inr () \<and>
     (jx w ''type'' = JStr ''action-approval'' \<longrightarrow> approves e A w) \<and>
     (jx w ''type'' = JStr ''activation'' \<longrightarrow> (\<forall>y \<in> set A. jx y ''type'' = JStr ''activation'' \<longrightarrow> jx y ''transition'' \<noteq> jx w ''transition'')) \<and>
     (jx w ''type'' \<noteq> JStr ''activation'' \<longrightarrow> (\<forall>y \<in> set A. artifact_key_of y \<noteq> artifact_key_of w))"

text \<open>The record an event follows in its own stream.\<close>

definition succeeds_in :: "action_env \<Rightarrow> json list \<Rightarrow> json \<Rightarrow> bool" where
  "succeeds_in e E x \<longleftrightarrow> (let before = filter (in_stream_of x) E in jx x ''sequence'' = jnat (length before + 1) \<and>
     (if before = [] then jx x ''predecessor'' = JNull
      else digests_to e ''accountability-event'' (last before) (jx x ''predecessor'')))"

definition caused_activation :: "action_env \<Rightarrow> json list \<Rightarrow> json \<Rightarrow> bool" where
  "caused_activation e A r \<longleftrightarrow> (\<exists>t \<in> set A. jx t ''type'' = JStr ''activation'' \<and> jx t ''transition'' = jx r ''transition''
     \<and> digests_to e ''activation'' t (jx r ''transition_digest'') \<and> jx r ''prior_epoch'' = jx t ''prior_epoch''
     \<and> jx r ''successor_epoch'' = jx t ''successor_epoch'' \<and> jx r ''artifact_set_digest'' = jx t ''artifact_set_digest'')"

definition caused_action :: "action_env \<Rightarrow> json list \<Rightarrow> json list \<Rightarrow> json \<Rightarrow> bool" where
  "caused_action e A E x \<longleftrightarrow> (let p = jx x ''payload'' in (\<exists>q \<in> set A. requested_by e p q) \<and>
     (jx x ''kind'' = JStr ''approval-recorded'' \<longrightarrow> (\<exists>a \<in> set A. of_attempt ''action-approval'' p a
        \<and> digests_to e ''action-approval'' a (jx p ''approval_digest''))) \<and>
     (jx x ''kind'' = JStr ''claim-created'' \<longrightarrow> (\<exists>y \<in> set E. event_for ''approval-recorded'' p y)) \<and>
     (jx x ''kind'' \<notin> {JStr ''approval-recorded'', JStr ''claim-created''} \<longrightarrow>
        (\<exists>y \<in> set E. event_for ''claim-created'' p y \<and> jx p ''claim'' = jx (jx y ''payload'') ''claim'')) \<and>
     (jx x ''kind'' = JStr ''predispatch'' \<longrightarrow> (\<exists>y \<in> set E. event_for ''consumption-reserved'' p y
        \<and> digests_to e ''accountability-event'' y (jx p ''consumption_event_digest''))) \<and>
     (jx x ''kind'' = JStr ''send-intent'' \<longrightarrow> (\<exists>y \<in> set E. event_for ''predispatch'' p y) \<and> (\<exists>y \<in> set E. event_for ''consumption-reserved'' p y
        \<and> jx p ''worker_fence'' = jx (jx y ''payload'') ''worker_fence'')) \<and>
     (jx x ''kind'' = JStr ''outcome'' \<longrightarrow> (\<exists>y \<in> set E. event_for ''send-intent'' p y
        \<and> jx p ''invocation'' = jx (jx y ''payload'') ''invocation'' \<and> jx p ''effect_key'' = jx (jx y ''payload'') ''effect_key'')) \<and>
     (jx x ''kind'' = JStr ''reconciliation'' \<longrightarrow> (\<exists>y \<in> set E. (event_for ''outcome'' p y \<or> event_for ''reconciliation'' p y)
        \<and> digests_to e ''accountability-event'' y (jx p ''prior_outcome_digest''))))"

definition admits_event :: "action_env \<Rightarrow> json list \<Rightarrow> json list \<Rightarrow> json \<Rightarrow> bool" where
  "admits_event e A E x \<longleftrightarrow> validate_action_record e x = Inr () \<and> jx x ''type'' = JStr ''accountability-event'' \<and>
     (\<forall>y \<in> set E. jx y ''event_id'' \<noteq> jx x ''event_id'' \<and> conflicts y x = Inr False) \<and> succeeds_in e E x \<and>
     (if jx x ''family'' = JStr ''activation'' then caused_activation e A (jx (jx x ''payload'') ''receipt'') else caused_action e A E x)"

text \<open>A transition takes over where the one before it, or the enrolment, ended.\<close>

definition takes_over :: "json list \<Rightarrow> json list \<Rightarrow> json \<Rightarrow> bool" where
  "takes_over N P t \<longleftrightarrow>
     (if P = [] then (\<exists>n. N = [n] \<and> jx t ''prior_epoch'' = jx n ''initial_epoch''
        \<and> jx t ''prior_artifact_set_digest'' = jx n ''initial_artifact_set_digest'')
      else jx t ''prior_epoch'' = jx (jx (last P) ''receipt'') ''successor_epoch''
        \<and> jx t ''prior_artifact_set_digest'' = jx (jx (last P) ''receipt'') ''artifact_set_digest'')"

definition applies :: "action_env \<Rightarrow> json \<Rightarrow> json \<Rightarrow> bool" where
  "applies e t r \<longleftrightarrow> digests_to e ''activation'' t (jx r ''transition_digest'') \<and> jx r ''transition'' = jx t ''transition''
     \<and> jx r ''prior_epoch'' = jx t ''prior_epoch'' \<and> jx r ''successor_epoch'' = jx t ''successor_epoch''
     \<and> jx r ''artifact_set_digest'' = jx t ''artifact_set_digest''"

section \<open>Histories\<close>

inductive history :: "action_env \<Rightarrow> json list \<Rightarrow> json list \<Rightarrow> json list \<Rightarrow> json list \<Rightarrow> bool" for e :: action_env where
  start: "history e [] [] [] []"
| artifact: "history e N A E P \<Longrightarrow> admits_artifact e A w \<Longrightarrow> history e N (A @ [w]) E P"
| event: "history e N A E P \<Longrightarrow> admits_event e A E x \<Longrightarrow> history e N A (E @ [x]) P"
| enrolled: "history e [] A E P \<Longrightarrow> history e [n] A E P"
| applied: "history e N A E P \<Longrightarrow> jx x ''family'' = JStr ''activation'' \<Longrightarrow> admits_event e A E x \<Longrightarrow>
    jx (jx x ''payload'') ''receipt'' = r \<Longrightarrow> t \<in> set A \<Longrightarrow> jx t ''type'' = JStr ''activation'' \<Longrightarrow> validate_action_record e t = Inr () \<Longrightarrow>
    applies e t r \<Longrightarrow> takes_over N P t \<Longrightarrow> (\<forall>p \<in> set P. jx (jx p ''receipt'') ''transition'' \<noteq> jx t ''transition'') \<Longrightarrow>
    history e N A (E @ [x]) (P @ [jobj [(''receipt'', r)]])"

definition recs :: "action_env \<Rightarrow> string \<Rightarrow> claim list \<Rightarrow> json list" where
  "recs e subject cs = map (\<lambda>c. case canonical_record (an_codec e) (c_value c) of Inl _ \<Rightarrow> JNull | Inr w \<Rightarrow> w)
     (filter (\<lambda>c. c_subject c = subject) cs)"

definition history_of :: "action_env \<Rightarrow> claim list \<Rightarrow> bool" where
  "history_of e cs \<longleftrightarrow> history e (recs e ENROLLMENT cs) (recs e ARTIFACTS cs) (recs e EVENTS cs) (recs e APPLIED cs)"

lemma recs_append: "recs e k (cs @ ds) = recs e k cs @ recs e k ds"
  by (simp add: recs_def)

lemma recs_Nil [simp]: "recs e k [] = []"
  by (simp add: recs_def)

lemma subjects_distinct [simp]: "ARTIFACTS \<noteq> EVENTS" "EVENTS \<noteq> ARTIFACTS" "ARTIFACTS \<noteq> ENROLLMENT" "ENROLLMENT \<noteq> ARTIFACTS"
  "ARTIFACTS \<noteq> APPLIED" "APPLIED \<noteq> ARTIFACTS" "EVENTS \<noteq> ENROLLMENT" "ENROLLMENT \<noteq> EVENTS" "EVENTS \<noteq> APPLIED" "APPLIED \<noteq> EVENTS"
  "ENROLLMENT \<noteq> APPLIED" "APPLIED \<noteq> ENROLLMENT"
  by (simp_all add: ARTIFACTS_def EVENTS_def ENROLLMENT_def APPLIED_def)

lemma recs_single: "canonical_record (an_codec e) (c_value c) = Inr w \<Longrightarrow> recs e k [c] = (if c_subject c = k then [w] else [])"
  by (simp add: recs_def)

section \<open>What the loaded records are\<close>

lemma load_record_Inr: "load_record e scp f = Inr r \<longleftrightarrow> canonical_record (an_codec e) (c_value f) = Inr (sd_value r) \<and>
    scope_confined (sd_value r) scp \<and> sd_seq r = c_seq f \<and>
    (\<exists>ev. c_evidence f = Some ev \<and> j_number (jx ev ''received_at'') = Inr (sd_received_at r))"
  by (cases r) (auto simp: load_record_def res_bind_eq_Inr check_scope_def ok_or_eq_Inr split: if_splits)

lemma load_records_Inr:
  "load_records e scp fs = Inr (artifacts, events) \<Longrightarrow>
     map sd_value artifacts = recs e ARTIFACTS fs \<and> map sd_value events = recs e EVENTS fs \<and>
     (\<forall>r \<in> set artifacts \<union> set events. scope_confined (sd_value r) scp \<and> sd_seq r \<in> c_seq ` set fs)"
proof (induction fs arbitrary: artifacts events)
  case (Cons f fs)
  show ?case
  proof (cases "c_subject f \<noteq> ARTIFACTS \<and> c_subject f \<noteq> EVENTS")
    case True
    with Cons.prems have "load_records e scp fs = Inr (artifacts, events)" by simp
    from Cons.IH[OF this] True show ?thesis by (auto simp: recs_def)
  next
    case False
    with Cons.prems obtain r as es where r: "load_record e scp f = Inr r" "load_records e scp fs = Inr (as, es)"
      "(if c_subject f = ARTIFACTS then (r # as, es) else (as, r # es)) = (artifacts, events)"
      by (auto simp: res_bind_eq_Inr)
    from Cons.IH[OF r(2)] r(1,3) False show ?thesis
      by (auto simp: recs_def load_record_Inr split: if_splits)
  qed
qed simp

lemma find_Some_D: "find P xs = Some y \<Longrightarrow> y \<in> set xs \<and> P y"
  by (induction xs) (auto split: if_splits)

lemma artifact_for_Inr: "artifact_for kind p artifacts = Inr a \<Longrightarrow> a \<in> sd_value ` set artifacts \<and> of_attempt kind p a"
  by (auto simp: artifact_for_def ok_or_eq_Inr of_attempt_def dest!: find_Some_D)

lemma request_for_Inr: "request_for e p artifacts = Inr q \<Longrightarrow> q \<in> sd_value ` set artifacts \<and> requested_by e p q"
  by (auto simp: request_for_def res_bind_eq_Inr refuse_if_Inr digest_differs_False requested_by_def dest!: artifact_for_Inr)

lemma prior_event_Inr: "prior_event p events kind = Inr x \<Longrightarrow> sd_value x \<in> sd_value ` set events \<and> event_for kind p (sd_value x)"
  by (auto simp: prior_event_def ok_or_eq_Inr event_for_def dest!: find_Some_D)

lemma validate_archive_approves:
  assumes "validate_archive e w artifacts = Inr ()" "jx w ''type'' = JStr ''action-approval''"
  shows "approves e (map sd_value artifacts) w"
proof -
  from assms have "check_archived_approval e w artifacts = Inr ()" by (simp add: validate_archive_def j_text_def)
  then obtain q d where q: "request_for e w artifacts = Inr q" "artifact_for ''action-decision'' w artifacts = Inr d"
    and r: "jx d ''outcome'' = JStr ''approval-required''" "digests_to e ''action-decision'' d (jx w ''decision_digest'')"
      "jx w ''approver'' \<noteq> jx (jx q ''intent'') ''actor''" "jx w ''approver'' \<noteq> jx (jx q ''intent'') ''origin''"
    by (auto simp: check_archived_approval_def res_bind_eq_Inr refuse_if_Inr digest_differs_False)
  from request_for_Inr[OF q(1)] artifact_for_Inr[OF q(2)] r show ?thesis unfolding approves_def by auto
qed

lemma archive_scan_None:
  "archive_scan kind digest w artifacts = Inr None \<Longrightarrow> \<forall>r \<in> set artifacts. \<exists>a b. artifact_key_of (sd_value r) = Inr a \<and>
     artifact_key_of w = Inr b \<and> a \<noteq> b"
proof (induction artifacts)
  case (Cons r rs)
  then show ?case by (fastforce simp: res_bind_eq_Inr split: if_splits)
qed simp

lemma event_scan_fresh:
  "event_scan x events l = Inr (Inr last_event) \<Longrightarrow>
     (\<forall>r \<in> set events. jx (sd_value r) ''event_id'' \<noteq> jx x ''event_id'' \<and> conflicts (sd_value r) x = Inr False) \<and>
     last_event = fold (later_of x) (map sd_value events) l"
proof (induction events arbitrary: l)
  case (Cons r rs)
  then obtain c where c: "jx (sd_value r) ''event_id'' \<noteq> jx x ''event_id''" "conflicts (sd_value r) x = Inr c" "\<not> c"
    "event_scan x rs (later_of x (sd_value r) l) = Inr (Inr last_event)"
    by (auto simp: res_bind_eq_Inr split: if_splits)
  from Cons.IH[OF c(4)] c(1-3) show ?case by auto
qed simp

lemma valid_event:
  assumes "validate_action_record e x = Inr ()" "jx x ''type'' = JStr ''accountability-event''"
  obtains kind producer where "jx x ''kind'' = JStr kind" "jx (jx x ''payload'') ''kind'' = JStr kind"
    "jx x ''family'' = JStr (if kind = ''activation-applied'' then ''activation'' else ''action'')"
    "jx x ''producer'' = JStr producer" "producer_allowed kind producer"
proof -
  from assms have "check_event e x = Inr ()"
    by (auto simp: validate_action_record_def res_bind_eq_Inr ok_or_eq_Inr j_text_Inr split: if_splits)
  then obtain kind where k: "jx x ''kind'' = JStr kind"
    "refuse_if act_invalid
       [Inr (jx (jx x ''payload'') ''kind'' \<noteq> JStr kind),
        Inr (jx x ''family'' \<noteq> JStr (if kind = ''activation-applied'' then ''activation'' else ''action'')),
        digest_differs e (jx x ''payload_digest'') ''event-payload'' (jx x ''payload''),
        Inr ((jx x ''sequence'' = jnat 1) \<noteq> (jx x ''predecessor'' = JNull)),
        res_bind (j_text (jx x ''producer'')) (\<lambda>producer. Inr (\<not> producer_allowed kind producer))] = Inr ()"
    by (auto simp: check_event_def Let_def res_bind_eq_Inr j_text_Inr)
  then show thesis using that[of kind] by (auto simp: refuse_if_Inr res_bind_eq_Inr j_text_Inr)
qed

section \<open>Prerequisites\<close>

lemma activation_prerequisites_caused:
  assumes "activation_prerequisites e r artifacts = Inr ()"
  shows "caused_activation e (map sd_value artifacts) r"
  using assms
  by (auto simp: activation_prerequisites_def res_bind_eq_Inr ok_or_eq_Inr refuse_if_Inr digest_differs_False
      caused_activation_def dest!: find_Some_D)

lemma check_reconciliation_Inr:
  assumes "check_reconciliation e p events = Inr ()"
  shows "\<exists>y \<in> sd_value ` set events. (event_for ''outcome'' p y \<or> event_for ''reconciliation'' p y)
    \<and> digests_to e ''accountability-event'' y (jx p ''prior_outcome_digest'')"
  using assms
  by (auto simp: check_reconciliation_def res_bind_eq_Inr ok_or_eq_Inr reconciles_def digest_differs_False event_for_def dest!: find_Some_D)

lemma prerequisites_caused:
  assumes "prerequisites e L x artifacts events = Inr ()" "jx x ''family'' \<noteq> JStr ''activation''"
  shows "caused_action e (map sd_value artifacts) (map sd_value events) x"
proof -
  define p where "p = jx x ''payload''"
  let ?V = "sd_value ` set events"
  from assms obtain q kind where q: "request_for e p artifacts = Inr q" and k: "jx x ''kind'' = JStr kind" and
    c: "(if kind = ''approval-recorded'' then check_approval_recorded e p artifacts
      else if kind = ''claim-created'' then check_claim_created p events
      else
      res_bind (prior_event p events ''claim-created'') (\<lambda>claim.
      if jx p ''claim'' \<noteq> jx (jx (sd_value claim) ''payload'') ''claim'' then Inl act_invalid
      else if kind = ''grant-issued'' then Inr ()
      else
      res_bind (check_grant p events) (\<lambda>_.
      if kind = ''consumption-reserved'' then check_consumption q p
      else if kind = ''predispatch'' then check_predispatch e p events
      else if kind = ''send-intent'' then check_send_intent e L q p events
      else if kind = ''outcome'' then check_outcome p events
      else if kind = ''reconciliation'' then check_reconciliation e p events
      else Inl act_invalid))) = Inr ()"
    by (auto simp: prerequisites_def Let_def res_bind_eq_Inr j_text_Inr p_def split: if_splits)
  have q': "\<exists>q \<in> sd_value ` set artifacts. requested_by e p q" using request_for_Inr[OF q] by blast
  have approval: "\<exists>a \<in> sd_value ` set artifacts. of_attempt ''action-approval'' p a \<and> digests_to e ''action-approval'' a (jx p ''approval_digest'')"
    if "kind = ''approval-recorded''"
    using c that by (auto simp: check_approval_recorded_def res_bind_eq_Inr refuse_if_Inr digest_differs_False dest!: artifact_for_Inr)
  have recorded: "\<exists>y \<in> ?V. event_for ''approval-recorded'' p y" if "kind = ''claim-created''"
    using c that by (auto simp: check_claim_created_def res_bind_eq_Inr dest!: prior_event_Inr)
  have claim: "\<exists>y \<in> ?V. event_for ''claim-created'' p y \<and> jx p ''claim'' = jx (jx y ''payload'') ''claim''"
    if "kind \<noteq> ''approval-recorded''" "kind \<noteq> ''claim-created''"
    using c that by (auto simp: res_bind_eq_Inr dest!: prior_event_Inr split: if_splits)
  have predispatch: "\<exists>y \<in> ?V. event_for ''consumption-reserved'' p y \<and> digests_to e ''accountability-event'' y (jx p ''consumption_event_digest'')"
    if "kind = ''predispatch''"
  proof -
    from c that have "check_predispatch e p events = Inr ()" by (auto simp: res_bind_eq_Inr split: if_splits)
    then show ?thesis by (auto simp: check_predispatch_def res_bind_eq_Inr refuse_if_Inr digest_differs_False dest!: prior_event_Inr)
  qed
  have sent: "(\<exists>y \<in> ?V. event_for ''predispatch'' p y) \<and> (\<exists>y \<in> ?V. event_for ''consumption-reserved'' p y
      \<and> jx p ''worker_fence'' = jx (jx y ''payload'') ''worker_fence'')" if "kind = ''send-intent''"
  proof -
    from c that have "check_send_intent e L q p events = Inr ()" by (auto simp: res_bind_eq_Inr split: if_splits)
    then obtain x1 x2 where "prior_event p events ''predispatch'' = Inr x1" "prior_event p events ''consumption-reserved'' = Inr x2"
      "jx p ''worker_fence'' = jx (jx (sd_value x2) ''payload'') ''worker_fence''"
      by (auto simp: check_send_intent_def Let_def res_bind_eq_Inr refuse_if_Inr)
    with prior_event_Inr show ?thesis by blast
  qed
  have outcome: "\<exists>y \<in> ?V. event_for ''send-intent'' p y \<and> jx p ''invocation'' = jx (jx y ''payload'') ''invocation''
      \<and> jx p ''effect_key'' = jx (jx y ''payload'') ''effect_key''" if "kind = ''outcome''"
  proof -
    from c that have "check_outcome p events = Inr ()" by (auto simp: res_bind_eq_Inr split: if_splits)
    then obtain x1 where "prior_event p events ''send-intent'' = Inr x1" "jx p ''invocation'' = jx (jx (sd_value x1) ''payload'') ''invocation''"
      "jx p ''effect_key'' = jx (jx (sd_value x1) ''payload'') ''effect_key''"
      by (auto simp: check_outcome_def Let_def res_bind_eq_Inr split: if_splits)
    with prior_event_Inr show ?thesis by blast
  qed
  have reconciled: "\<exists>y \<in> ?V. (event_for ''outcome'' p y \<or> event_for ''reconciliation'' p y)
      \<and> digests_to e ''accountability-event'' y (jx p ''prior_outcome_digest'')" if "kind = ''reconciliation''"
  proof -
    from c that have "check_reconciliation e p events = Inr ()" by (auto simp: res_bind_eq_Inr split: if_splits)
    then show ?thesis by (rule check_reconciliation_Inr)
  qed
  show ?thesis unfolding caused_action_def Let_def p_def[symmetric] k set_map json.inject insert_iff
    using q' approval recorded claim predispatch sent outcome reconciled by blast
qed

section \<open>Streams\<close>

definition chained :: "action_env \<Rightarrow> json list \<Rightarrow> bool" where
  "chained e E \<longleftrightarrow> (\<forall>i < length E. succeeds_in e (take i E) (E ! i))"

lemma chained_snoc: "chained e (E @ [x]) \<longleftrightarrow> chained e E \<and> succeeds_in e E x"
  by (auto simp: chained_def less_Suc_eq nth_append)

lemma history_chained: "history e N A E P \<Longrightarrow> chained e E"
  by (induction rule: history.induct) (auto simp: chained_snoc admits_event_def, simp add: chained_def)

lemma in_stream_of_trans: "in_stream_of x y \<Longrightarrow> in_stream_of y = in_stream_of x"
  by (auto simp: in_stream_of_def fun_eq_iff)

lemma chained_sequences:
  "chained e E \<Longrightarrow> map (\<lambda>y. jx y ''sequence'') (filter (in_stream_of x) E) = map jnat [1..<Suc (length (filter (in_stream_of x) E))]"
proof (induction E rule: rev_induct)
  case (snoc y E)
  then have c: "chained e E" "succeeds_in e E y" by (simp_all add: chained_snoc)
  show ?case
  proof (cases "in_stream_of x y")
    case True
    then have "in_stream_of y = in_stream_of x" using in_stream_of_trans by blast
    with c(2) have "jx y ''sequence'' = jnat (length (filter (in_stream_of x) E) + 1)" by (simp add: succeeds_in_def Let_def)
    with snoc.IH[OF c(1)] True show ?thesis by simp
  next
    case False
    with snoc.IH[OF c(1)] show ?thesis by simp
  qed
qed simp

lemma chained_last:
  assumes "chained e E" "filter (in_stream_of x) E \<noteq> []"
  shows "jx (last (filter (in_stream_of x) E)) ''sequence'' = jnat (length (filter (in_stream_of x) E))"
proof -
  obtain n where n: "length (filter (in_stream_of x) E) = Suc n" using assms(2) by (cases "filter (in_stream_of x) E") auto
  have "last (map (\<lambda>y. jx y ''sequence'') (filter (in_stream_of x) E)) = last (map jnat [1..<Suc (Suc n)])"
    using chained_sequences[OF assms(1), of x] by (simp only: n)
  then show ?thesis using assms(2) n by (simp add: last_map)
qed

lemma fold_later_of:
  assumes "chained e E"
  shows "fold (later_of x) E None = (let b = filter (in_stream_of x) E in if b = [] then None else Some (last b))"
  using assms
proof (induction E rule: rev_induct)
  case (snoc y E)
  then have c: "chained e E" "succeeds_in e E y" by (simp_all add: chained_snoc)
  let ?b = "filter (in_stream_of x) E"
  show ?case
  proof (cases "in_stream_of x y \<and> ?b \<noteq> []")
    case True
    then have "in_stream_of y = in_stream_of x" using in_stream_of_trans by blast
    with c(2) have "jx y ''sequence'' = jnat (length ?b + 1)" by (simp add: succeeds_in_def Let_def)
    moreover have "jx (last ?b) ''sequence'' = jnat (length ?b)" using chained_last[OF c(1)] True by blast
    ultimately show ?thesis using snoc.IH[OF c(1)] True by (simp add: Let_def later_of_def)
  next
    case False
    then show ?thesis using snoc.IH[OF c(1)] by (auto simp: Let_def later_of_def)
  qed
qed simp

lemma check_sequence_succeeds:
  assumes "chained e E" "check_sequence e x (fold (later_of x) E None) = Inr ()"
  shows "succeeds_in e E x"
proof (cases "filter (in_stream_of x) E = []")
  case True
  with assms(2) fold_later_of[OF assms(1), of x] show ?thesis
    by (simp add: check_sequence_def succeeds_in_def Let_def split: if_splits)
next
  case False
  let ?b = "filter (in_stream_of x) E"
  have l: "jx (last ?b) ''sequence'' = jnat (length ?b)" by (rule chained_last[OF assms(1) False])
  with assms(2) False fold_later_of[OF assms(1), of x] show ?thesis
    by (auto simp: check_sequence_def succeeds_in_def Let_def refuse_if_Inr res_bind_eq_Inr digest_differs_False j_number_Inr jnat_eq_iff)
qed

end
