(* ===== verification/Action_Refine.thy ===== *)
theory Action_Refine
  imports Action_History
begin

text \<open>
  The operations of the action ledger refine the abstract ledger: in every state the ledger reaches,
  the log of the protected version is an abstract history.
\<close>

section \<open>Assumptions on the schema\<close>

text \<open>The closed record \<open>stream-ref\<close> of \<open>contract/platform-stage2-v1/schema.json\<close>.\<close>

definition stream_shape :: "action_env \<Rightarrow> bool" where
  "stream_shape e \<longleftrightarrow> (\<forall>p w. an_schema e = Some p \<longrightarrow> p w \<longrightarrow> jx w ''type'' = JStr ''accountability-event'' \<longrightarrow>
     (\<exists>scp i. jx w ''stream'' = jobj [(''scope'', scp), (''kind'', JStr ''stream''), (''id'', JStr i)]))"

lemma valid_schema: "validate_action_record e w = Inr () \<Longrightarrow> \<exists>p. an_schema e = Some p \<and> p w"
  by (auto simp: validate_action_record_def res_bind_eq_Inr ok_or_eq_Inr split: if_splits)

lemma stream_shapeD:
  "stream_shape e \<Longrightarrow> validate_action_record e w = Inr () \<Longrightarrow> jx w ''type'' = JStr ''accountability-event'' \<Longrightarrow>
     \<exists>scp i. jx w ''stream'' = jobj [(''scope'', scp), (''kind'', JStr ''stream''), (''id'', JStr i)]"
  using valid_schema[of e w] by (auto simp: stream_shape_def)

lemma scope_confined_jx: "scope_confined w s \<Longrightarrow> scope_confined (jx w k) s"
  by (cases w) (force simp: jx_def list_all_iff split: option.splits dest: map_of_SomeD)+

lemma scope_confined_scope: "scope_confined w s \<Longrightarrow> jget w ''scope'' = Some x \<Longrightarrow> x = s"
  by (cases w) auto

section \<open>Objects\<close>

lemma jobj_object: "\<exists>m. jobj kvs = JObj m"
  by (simp add: jobj_def)

lemma jx_jset: "is_object w \<Longrightarrow> jx (jset k x w) k' = (if k' = k then x else jx w k')"
  by (cases w) (auto simp: jx_def)

lemma is_object_jset [simp]: "is_object (jset k x w) = is_object w"
  by (cases w) auto

lemma is_object_jobj [simp]: "is_object (jobj kvs)"
  by (simp add: jobj_def)

lemma receipt_applies:
  assumes "activation_receipt e t = Inr r"
  shows "applies e t r"
  using assms by (auto simp: activation_receipt_def res_bind_eq_Inr Let_def receipt_keys_def jx_jset applies_def digests_to_def)

section \<open>Archiving\<close>

lemma archive_check_Inr: "archive_check e L adm raw = Inr (w, kind, digest) \<longleftrightarrow> authorize L adm True = Inr () \<and>
    canonical_record (an_codec e) raw = Inr w \<and> validate_action_record e w = Inr () \<and> scope_confined w (al_scope L) \<and>
    jx w ''type'' = JStr kind \<and> archive_owner L (aa_service adm) kind \<and> action_digest e kind w = Inr digest"
  by (auto simp: archive_check_def res_bind_eq_Inr check_scope_def j_text_Inr split: if_splits)

lemma archive_admits:
  assumes "validate_action_record e w = Inr ()" "jx w ''type'' = JStr kind"
    "archive_scan kind digest w artifacts = Inr None" "validate_archive e w artifacts = Inr ()"
  shows "admits_artifact e (map sd_value artifacts) w"
proof -
  have key: "artifact_key_of y \<noteq> artifact_key_of w" if "y \<in> sd_value ` set artifacts" for y
    using archive_scan_None[OF assms(3)] that by fastforce
  have "jx y ''transition'' \<noteq> jx w ''transition''"
    if "y \<in> sd_value ` set artifacts" "jx y ''type'' = JStr ''activation''" "jx w ''type'' = JStr ''activation''" for y
  proof
    assume "jx y ''transition'' = jx w ''transition''"
    with that(2,3) have "artifact_key_of y = artifact_key_of w" by (simp add: artifact_key_of_def j_text_def)
    with key[OF that(1)] show False by simp
  qed
  with assms(1) key validate_archive_approves[OF assms(4)] show ?thesis
    unfolding admits_artifact_def set_map by blast
qed

lemma archive_history:
  assumes ok: "protected_ok env gen v s" and H: "history_of e (rows (ms_claims s) v)"
    and a: "archive e (mem_ledger env gen v policy) adm raw alone s = (r, s')"
  shows "history_of e (rows (ms_claims s') v)"
proof (cases "archive_check e (mem_ledger env gen v policy) adm raw")
  case (Inl err)
  with a H show ?thesis by (simp add: archive_def)
next
  case (Inr x)
  obtain w kind digest where x: "x = (w, kind, digest)" by (cases x)
  note c = Inr[unfolded x archive_check_Inr]
  note on = mem_log.archive_decide_on[OF mem_ledger_simps(1,2) ok mem_log.extends_log_refl[OF ok]]
  show ?thesis
  proof (rule mem_log.loop_alone[where m = 31, folded thirty_two alone_fun, OF ok _ a[unfolded archive_loop[OF Inr[unfolded x]] mem_ledger_simps]])
    fix pin y assume "archive_decide e (mem_ledger env gen v policy) adm raw w kind digest s s = Inr (pin, Write y)"
    then show "pin = head s v \<and> plain_call y" by (rule mem_log.archive_writes[OF mem_ledger_simps(1,2) ok])
  next
    fix y cs assume d: "archive_decide e (mem_ledger env gen v policy) adm raw w kind digest s s = Inr (head s v, Write y)"
      and f: "rows (ms_claims s') v = rows (ms_claims s) v @ cs" "list_all2 carries (claims_of y) cs"
    from d obtain artifacts events where l: "load_records e (al_scope (mem_ledger env gen v policy)) (rows (ms_claims s) v) = Inr (artifacts, events)"
      and k: "archive_scan kind digest w artifacts = Inr None" "validate_archive e w artifacts = Inr ()"
      and y: "y = AppendOne (archive_claim adm digest raw)"
      unfolding on by (auto simp: res_bind_eq_Inr snapshot_on_Inr case_option_eq_Inr)
    from f(2) y obtain cl where cl: "cs = [cl]" "c_subject cl = ARTIFACTS" "c_value cl = raw"
      by (auto simp: list_all2_Cons1 carries_def archive_claim_def new_claim_fact_def)
    have rec0: "recs e n [cl] = (if n = ARTIFACTS then [w] else [])" for n
      using recs_single[of e cl w n] c cl by auto
    have "admits_artifact e (recs e ARTIFACTS (rows (ms_claims s) v)) w"
      using archive_admits[OF _ _ k] c load_records_Inr[OF l] by simp
    with H show ?thesis
      unfolding history_of_def f(1) cl(1) recs_append rec0 by (simp add: history.artifact)
  qed (use H in simp_all)
qed

section \<open>Recording\<close>

lemma event_check_Inr: "event_check e L adm raw = Inr (x, digest, recovery) \<longleftrightarrow> authorize L adm True = Inr () \<and>
    canonical_record (an_codec e) raw = Inr x \<and> validate_action_record e x = Inr () \<and> jx x ''type'' = JStr ''accountability-event'' \<and>
    scope_confined x (al_scope L) \<and> action_digest e ''accountability-event'' x = Inr digest \<and> event_admission L adm x digest = Inr recovery"
  by (auto simp: event_check_def res_bind_eq_Inr check_scope_def split: if_splits)

lemma event_admits:
  assumes "validate_action_record e x = Inr ()" "jx x ''type'' = JStr ''accountability-event''"
    "chained e (map sd_value events)" "event_scan x events None = Inr (Inr last_event)"
    "check_sequence e x last_event = Inr ()" "prerequisites e L x artifacts events = Inr ()"
  shows "admits_event e (map sd_value artifacts) (map sd_value events) x"
proof -
  note f = event_scan_fresh[OF assms(4)]
  have "succeeds_in e (map sd_value events) x" using check_sequence_succeeds[OF assms(3)] assms(5) f by blast
  moreover have "if jx x ''family'' = JStr ''activation'' then caused_activation e (map sd_value artifacts) (jx (jx x ''payload'') ''receipt'')
      else caused_action e (map sd_value artifacts) (map sd_value events) x"
  proof (cases "jx x ''family'' = JStr ''activation''")
    case True
    with assms(6) have "activation_prerequisites e (jx (jx x ''payload'') ''receipt'') artifacts = Inr ()"
      by (simp add: prerequisites_def Let_def)
    with True show ?thesis using activation_prerequisites_caused by simp
  next
    case False
    with prerequisites_caused[OF assms(6) False] show ?thesis by simp
  qed
  ultimately show ?thesis using assms(1,2) f unfolding admits_event_def by auto
qed

lemma event_history:
  assumes ok: "protected_ok env gen v s" and H: "history_of e (rows (ms_claims s) v)"
    and a: "append_event e (mem_ledger env gen v policy) adm raw alone s = (r, s')"
  shows "history_of e (rows (ms_claims s') v)"
proof (cases "event_check e (mem_ledger env gen v policy) adm raw")
  case (Inl err)
  with a H show ?thesis by (simp add: append_event_def)
next
  case (Inr z)
  obtain x digest recovery where z: "z = (x, digest, recovery)" by (cases z)
  note c = Inr[unfolded z event_check_Inr]
  note on = mem_log.event_decide_on[OF mem_ledger_simps(1,2) ok mem_log.extends_log_refl[OF ok]]
  show ?thesis
  proof (rule mem_log.loop_alone[where m = 31, folded thirty_two alone_fun, OF ok _ a[unfolded event_loop[OF Inr[unfolded z]] mem_ledger_simps]])
    fix pin y assume "event_decide e (mem_ledger env gen v policy) adm raw x digest recovery s s = Inr (pin, Write y)"
    then show "pin = head s v \<and> plain_call y" by (rule mem_log.event_writes[OF mem_ledger_simps(1,2) ok])
  next
    fix y cs assume d: "event_decide e (mem_ledger env gen v policy) adm raw x digest recovery s s = Inr (head s v, Write y)"
      and f: "rows (ms_claims s') v = rows (ms_claims s) v @ cs" "list_all2 carries (claims_of y) cs"
    from d obtain artifacts events last_event i where
      l: "load_records e (al_scope (mem_ledger env gen v policy)) (rows (ms_claims s) v) = Inr (artifacts, events)"
      and k: "event_scan x events None = Inr (Inr last_event)" "check_sequence e x last_event = Inr ()"
        "prerequisites e (mem_ledger env gen v policy) x artifacts events = Inr ()"
      and y: "y = AppendOne (event_claim adm x i digest raw (recovery \<noteq> None))"
      unfolding on by (auto simp: res_bind_eq_Inr snapshot_on_Inr case_sum_eq_Inr)
    from f(2) y obtain cl where cl: "cs = [cl]" "c_subject cl = EVENTS" "c_value cl = raw"
      by (auto simp: list_all2_Cons1 carries_def event_claim_def new_claim_fact_def)
    have rec0: "recs e n [cl] = (if n = EVENTS then [x] else [])" for n
      using recs_single[of e cl x n] c cl by auto
    note m = load_records_Inr[OF l]
    have "chained e (map sd_value events)" using H history_chained m unfolding history_of_def by metis
    then have "admits_event e (recs e ARTIFACTS (rows (ms_claims s) v)) (recs e EVENTS (rows (ms_claims s) v)) x"
      using event_admits[OF _ _ _ k] c m by metis
    with H show ?thesis
      unfolding history_of_def f(1) cl(1) recs_append rec0 by (simp add: history.event)
  qed (use H in simp_all)
qed

section \<open>Enrolment\<close>

lemma find_enrollment_False: "find_enrollment e w cs = Inr False \<Longrightarrow> recs e ENROLLMENT cs = []"
  by (induction cs) (auto simp: recs_def res_bind_eq_Inr split: if_splits)

lemma find_enrollment_True: "find_enrollment e w cs = Inr True \<Longrightarrow> \<exists>ns. recs e ENROLLMENT cs = w # ns"
  by (induction cs) (auto simp: recs_def res_bind_eq_Inr split: if_splits)

lemma history_enrolled: "history e N A E P \<Longrightarrow> length N \<le> 1"
  by (induction rule: history.induct) auto

lemma enrollment_result:
  assumes cd: "codec_ok (an_codec e)" and ok: "protected_ok env gen v s" and H: "history_of e (rows (ms_claims s) v)"
    and i: "initialize_activation e (mem_ledger env gen v policy) en alone s = (r, s')"
  shows "history_of e (rows (ms_claims s') v) \<and> (\<forall>j. r = Inr j \<longrightarrow> (\<exists>w. check_enrollment (mem_ledger env gen v policy) en = Inr w \<and>
    recs e ENROLLMENT (rows (ms_claims s') v) = [w]))"
proof (cases "check_enrollment (mem_ledger env gen v policy) en")
  case (Inl err)
  with i have "r = Inl err" "s' = s" by (simp_all add: initialize_activation_def)
  with H show ?thesis by simp
next
  case (Inr w)
  note on = mem_log.enrollment_decide_on[OF mem_ledger_simps(1,2) ok mem_log.extends_log_refl[OF ok]]
  have one: "recs e ENROLLMENT (rows (ms_claims s) v) = w # ns \<Longrightarrow> ns = []" for ns
    using H history_enrolled unfolding history_of_def by fastforce
  show ?thesis
  proof (rule mem_log.loop_alone[where m = 31, folded thirty_two alone_fun, OF ok _ i[unfolded enrollment_loop[OF Inr] mem_ledger_simps]])
    fix pin y assume "enrollment_decide e (mem_ledger env gen v policy) w s s = Inr (pin, Write y)"
    then show "pin = head s v \<and> plain_call y" by (rule mem_log.enrollment_writes[OF mem_ledger_simps(1,2) ok])
  next
    fix err assume "r = Inl err" "s' = s"
    with H show ?thesis by simp
  next
    fix pin j assume "enrollment_decide e (mem_ledger env gen v policy) w s s = Inr (pin, Answer j)" "s' = s"
    then have "find_enrollment e w (rows (ms_claims s) v) = Inr True" unfolding on by (auto simp: res_bind_eq_Inr split: if_splits)
    with find_enrollment_True one H Inr \<open>s' = s\<close> show ?thesis by blast
  next
    fix y cs assume d: "enrollment_decide e (mem_ledger env gen v policy) w s s = Inr (head s v, Write y)"
      and f: "rows (ms_claims s') v = rows (ms_claims s) v @ cs" "list_all2 carries (claims_of y) cs"
    from d obtain raw where k: "find_enrollment e w (rows (ms_claims s) v) = Inr False" "encoded e w = Inr raw"
      "y = AppendOne (new_claim_fact ENROLLMENT ''initial'' raw)"
      unfolding on by (auto simp: res_bind_eq_Inr split: if_splits)
    from f(2) k(3) obtain cl where cl: "cs = [cl]" "c_subject cl = ENROLLMENT" "c_value cl = raw"
      by (auto simp: list_all2_Cons1 carries_def new_claim_fact_def)
    have rec0: "recs e n [cl] = (if n = ENROLLMENT then [w] else [])" for n
      using recs_single[of e cl w n] encoded_parses[OF cd k(2)] cl by auto
    note none = find_enrollment_False[OF k(1)]
    have "history e [w] (recs e ARTIFACTS (rows (ms_claims s) v)) (recs e EVENTS (rows (ms_claims s) v)) (recs e APPLIED (rows (ms_claims s) v))"
      using H none unfolding history_of_def by (intro history.enrolled) simp
    with none Inr show ?thesis unfolding history_of_def f(1) cl(1) recs_append rec0 by simp
  qed
qed

section \<open>Applying\<close>

lemma history_valid: "history e N A E P \<Longrightarrow> x \<in> set E \<Longrightarrow> validate_action_record e x = Inr () \<and> jx x ''type'' = JStr ''accountability-event''"
  by (induction rule: history.induct) (auto simp: admits_event_def)

lemma applied_scan_False:
  assumes "applied_scan e t r fs current = Inr (False, c)" "sorted_wrt (<) (map c_seq fs)" "\<forall>f \<in> set fs. \<forall>n x. current = Some (n, x) \<longrightarrow> n < c_seq f"
  shows "(\<forall>w \<in> set (map (\<lambda>f. case canonical_record (an_codec e) (c_value f) of Inl _ \<Rightarrow> JNull | Inr w \<Rightarrow> w) fs).
      jx (jx w ''receipt'') ''transition'' \<noteq> jx t ''transition'') \<and>
    c = (if fs = [] then map_option snd current
      else Some (last (map (\<lambda>f. case canonical_record (an_codec e) (c_value f) of Inl _ \<Rightarrow> JNull | Inr w \<Rightarrow> w) fs)))"
  using assms
proof (induction fs arbitrary: current)
  case (Cons f fs)
  from Cons.prems(1) obtain old where o: "canonical_record (an_codec e) (c_value f) = Inr old"
    "jx (jx old ''receipt'') ''transition'' \<noteq> jx t ''transition''"
    and n: "applied_scan e t r fs (case current of None \<Rightarrow> Some (c_seq f, old)
        | Some (n, x) \<Rightarrow> if n < c_seq f then Some (c_seq f, old) else current) = Inr (False, c)"
    by (auto simp: res_bind_eq_Inr split: if_splits)
  have "(case current of None \<Rightarrow> Some (c_seq f, old) | Some (n, x) \<Rightarrow> if n < c_seq f then Some (c_seq f, old) else current)
      = Some (c_seq f, old)" using Cons.prems(3) by (auto split: option.splits)
  with n have "applied_scan e t r fs (Some (c_seq f, old)) = Inr (False, c)" by simp
  from Cons.IH[OF this] Cons.prems(2) o show ?case by auto
qed simp

lemma max_by_key_last: "sorted_wrt (<) (map f xs) \<Longrightarrow> max_by_key f xs = (if xs = [] then None else Some (last xs))"
proof (induction xs)
  case (Cons x xs)
  show ?case
  proof (cases "xs = []")
    case False
    then have "f x < f (last xs)" using Cons.prems by simp
    then have "\<not> f (last xs) < f x" by (rule less_not_sym)
    moreover have "max_by_key f xs = Some (last xs)" using Cons False by simp
    ultimately show ?thesis using False by simp
  qed simp
qed simp

lemma ref_eq_iff: "jobj [(''scope'', s), (''kind'', k), (''id'', JStr i)] = jobj [(''scope'', s), (''kind'', k), (''id'', JStr j)] \<longleftrightarrow> i = j"
  by (auto dest: arg_cong[where f = "\<lambda>v. jx v ''id''"])

lemma chained_sorted: "chained e E \<Longrightarrow> sorted_wrt (<) (map (\<lambda>y. jas_u64 (jx y ''sequence'')) (filter (in_stream_of x) E))"
proof -
  assume c: "chained e E"
  have "map (\<lambda>y. jas_u64 (jx y ''sequence'')) (filter (in_stream_of x) E) = map Some [1..<Suc (length (filter (in_stream_of x) E))]"
    using arg_cong[OF chained_sequences[OF c, of x], of "map jas_u64"] by (simp add: comp_def del: upt_Suc)
  then show ?thesis by (simp add: sorted_wrt_map sorted_wrt_upt del: upt_Suc)
qed

text \<open>The last event of a stream, looked up by its identifier and generation.\<close>

lemma last_in_stream_of:
  assumes shape: "stream_shape e" and ch: "chained e (map sd_value events)"
    and valid: "\<forall>y \<in> sd_value ` set events. validate_action_record e y = Inr () \<and> jx y ''type'' = JStr ''accountability-event''"
    and conf: "\<forall>y \<in> sd_value ` set events. scope_confined y scp"
    and x: "jx x ''stream'' = jobj [(''scope'', scp), (''kind'', JStr ''stream''), (''id'', JStr i)]" "jx x ''source_generation'' = jnat g"
  shows "map_option sd_value (last_in_stream i g events) =
    (let b = filter (in_stream_of x) (map sd_value events) in if b = [] then None else Some (last b))"
proof -
  have "jx (jx y ''stream'') ''id'' = JStr i \<and> jx y ''source_generation'' = jnat g \<longleftrightarrow> in_stream_of x y"
    if y: "y \<in> sd_value ` set events" for y
  proof -
    from stream_shapeD[OF shape] valid y obtain sc j where
      sh: "jx y ''stream'' = jobj [(''scope'', sc), (''kind'', JStr ''stream''), (''id'', JStr j)]" by blast
    have "scope_confined (jx y ''stream'') scp" using scope_confined_jx conf y by blast
    then have "sc = scp" by (rule scope_confined_scope) (simp add: sh)
    with sh x show ?thesis by (auto simp: in_stream_of_def ref_eq_iff)
  qed
  then have f: "filter (\<lambda>x. jx (jx (sd_value x) ''stream'') ''id'' = JStr i \<and> jx (sd_value x) ''source_generation'' = jnat g) events
      = filter (\<lambda>r. in_stream_of x (sd_value r)) events" by (intro filter_cong) auto
  have "sorted_wrt (<) (map (\<lambda>r. jas_u64 (jx (sd_value r) ''sequence'')) (filter (\<lambda>r. in_stream_of x (sd_value r)) events))"
    using chained_sorted[OF ch, of x] by (simp add: filter_map comp_def)
  from max_by_key_last[OF this] show ?thesis
    by (simp add: last_in_stream_def f filter_map comp_def Let_def last_map)
qed

lemma applied_event_Inr:
  assumes "applied_event e L en digest stream r now last_event = Inr x"
  shows "jx x ''type'' = JStr ''accountability-event'' \<and> jx x ''family'' = JStr ''activation'' \<and> jx (jx x ''payload'') ''receipt'' = r \<and>
    jx x ''stream'' = jobj [(''scope'', al_scope L), (''kind'', JStr ''stream''), (''id'', JStr (ac_stream_id en))] \<and>
    jx x ''source_generation'' = jnat (sg_generation stream) \<and>
    (case last_event of None \<Rightarrow> jx x ''sequence'' = jnat 1 \<and> jx x ''predecessor'' = JNull
     | Some l \<Rightarrow> (\<exists>n. jx (sd_value l) ''sequence'' = jnat n \<and> jx x ''sequence'' = jnat (n + 1)) \<and>
         digests_to e ''accountability-event'' (sd_value l) (jx x ''predecessor''))"
  using assms
  by (auto simp: applied_event_def Let_def res_bind_eq_Inr j_number_Inr digests_to_def split: option.splits)

lemma applied_follows:
  assumes "chained e (map sd_value events)" "applied_event e L en digest stream r now l = Inr x"
    "map_option sd_value l = (let b = filter (in_stream_of x) (map sd_value events) in if b = [] then None else Some (last b))"
  shows "succeeds_in e (map sd_value events) x"
proof (cases "filter (in_stream_of x) (map sd_value events) = []")
  case True
  with assms(3) have "l = None" by simp
  with applied_event_Inr[OF assms(2)] True show ?thesis by (simp add: succeeds_in_def Let_def)
next
  case False
  let ?b = "filter (in_stream_of x) (map sd_value events)"
  from assms(3) False obtain y where y: "l = Some y" "sd_value y = last ?b" by (auto simp: Let_def)
  have "jx (last ?b) ''sequence'' = jnat (length ?b)" by (rule chained_last[OF assms(1) False])
  with applied_event_Inr[OF assms(2)] y False show ?thesis
    by (auto simp: succeeds_in_def Let_def jnat_eq_iff)
qed

lemma activation_claims_cases:
  assumes cd: "codec_ok (an_codec e)" and c: "activation_claims e t digest x r prov new_archive = Inr ncs"
    and f: "list_all2 carries ncs cs"
  shows "recs e ARTIFACTS cs = (if new_archive then [t] else []) \<and> recs e EVENTS cs = [x] \<and> recs e APPLIED cs = [jobj [(''receipt'', r)]] \<and>
    recs e ENROLLMENT cs = []"
proof -
  from c obtain a i audit j applied where a: "(if new_archive
       then res_bind (encoded e t) (\<lambda>raw. Inr [(new_claim_fact ARTIFACTS digest raw)\<lparr>nc_evidence := Some prov\<rparr>]) else Inr []) = Inr a"
    and b: "encoded e x = Inr audit" "encoded e (jobj [(''receipt'', r)]) = Inr applied"
    and n: "ncs = a @ [(new_claim_fact EVENTS i audit)\<lparr>nc_evidence := Some prov\<rparr>, (new_claim_fact APPLIED j applied)\<lparr>nc_evidence := Some prov\<rparr>]"
    by (auto simp: activation_claims_def res_bind_eq_Inr)
  note p = encoded_parses[OF cd b(1)] encoded_parses[OF cd b(2)]
  have two: "recs e k ds = (if k = EVENTS then [x] else []) @ (if k = APPLIED then [jobj [(''receipt'', r)]] else [])"
    if "list_all2 carries [(new_claim_fact EVENTS i audit)\<lparr>nc_evidence := Some prov\<rparr>, (new_claim_fact APPLIED j applied)\<lparr>nc_evidence := Some prov\<rparr>] ds"
    for k ds
    using that p by (auto simp: list_all2_Cons1 carries_def new_claim_fact_def recs_def)
  show ?thesis
  proof (cases new_archive)
    case True
    with a obtain raw where raw: "encoded e t = Inr raw" "a = [(new_claim_fact ARTIFACTS digest raw)\<lparr>nc_evidence := Some prov\<rparr>]"
      by (auto simp: res_bind_eq_Inr)
    from f n raw(2) obtain c ds where cs: "cs = c # ds" "carries ((new_claim_fact ARTIFACTS digest raw)\<lparr>nc_evidence := Some prov\<rparr>) c"
      "list_all2 carries [(new_claim_fact EVENTS i audit)\<lparr>nc_evidence := Some prov\<rparr>, (new_claim_fact APPLIED j applied)\<lparr>nc_evidence := Some prov\<rparr>] ds"
      by (auto simp: list_all2_Cons1)
    have "recs e k [c] = (if k = ARTIFACTS then [t] else [])" for k
      using cs(2) encoded_parses[OF cd raw(1)] by (auto simp: carries_def new_claim_fact_def recs_def)
    then have "recs e k cs = (if k = ARTIFACTS then [t] else []) @ recs e k ds" for k
      using recs_append[of e k "[c]" ds] by (simp add: cs(1))
    with two[OF cs(3)] True show ?thesis by simp
  next
    case False
    with a n f two[of cs] show ?thesis by auto
  qed
qed

lemma find_None_D: "find P xs = None \<Longrightarrow> x \<in> set xs \<Longrightarrow> \<not> P x"
  by (induction xs) (auto split: if_splits)

lemma apply_decide_Inr:
  assumes "apply_decide e L en t pf r digest stream s1 s2 s3 = Inr (pin, Write y)"
  obtains artifacts events fs current epoch ad x ncs where "ledger_snapshot e L s1 s2 = Inr (pin, artifacts, events)"
    "activation_facts L pin s3 = Inr fs" "applied_scan e t r (applied_facts fs) None = Inr (False, current)"
    "epoch_of en current = Inr (epoch, ad)" "jx t ''prior_epoch'' = jnat epoch" "jx t ''prior_artifact_set_digest'' = JStr ad"
    "applied_event e L en digest stream r (pf_now pf) (last_in_stream (ac_stream_id en) (sg_generation stream) events) = Inr x"
    "validate_action_record e x = Inr ()" "\<forall>z \<in> set events. jx (sd_value z) ''event_id'' \<noteq> jx x ''event_id''"
    "\<forall>a. find (\<lambda>a. jx (sd_value a) ''type'' = JStr ''activation'' \<and> jx (sd_value a) ''transition'' = jx t ''transition'') artifacts = Some a \<longrightarrow> sd_value a = t"
    "activation_claims e t digest x r (activation_provenance en pf)
       (find (\<lambda>a. jx (sd_value a) ''type'' = JStr ''activation'' \<and> jx (sd_value a) ''transition'' = jx t ''transition'') artifacts = None) = Inr ncs"
    "y = AppendAll ncs"
proof -
  let ?old = "\<lambda>artifacts. find (\<lambda>a. jx (sd_value a) ''type'' = JStr ''activation'' \<and> jx (sd_value a) ''transition'' = jx t ''transition'') artifacts"
  from assms obtain q artifacts events fs found current where 1: "ledger_snapshot e L s1 s2 = Inr (q, artifacts, events)"
    "activation_facts L q s3 = Inr fs" "applied_scan e t r (applied_facts fs) None = Inr (found, current)"
    and k: "(if found then Inr (q, Answer r)
     else
     res_bind (epoch_of en current) (\<lambda>(epoch, digest0).
     if jx t ''prior_epoch'' \<noteq> jnat epoch \<or> jx t ''prior_artifact_set_digest'' \<noteq> JStr digest0 then Inl IdempotencyMismatch
     else
     res_bind (applied_event e L en digest stream r (pf_now pf)
       (last_in_stream (ac_stream_id en) (sg_generation stream) events)) (\<lambda>event.
     res_bind (validate_action_record e event) (\<lambda>_.
     if \<exists>x \<in> set events. jx (sd_value x) ''event_id'' = jx event ''event_id'' then Inl IdempotencyMismatch
     else if (case ?old artifacts of None \<Rightarrow> False | Some a \<Rightarrow> sd_value a \<noteq> t) then Inl IdempotencyMismatch
     else
     res_bind (activation_claims e t digest event r (activation_provenance en pf) (?old artifacts = None)) (\<lambda>claims.
     Inr (q, Write (AppendAll claims))))))) = Inr (pin, Write y)"
    unfolding apply_decide_def Let_def by (simp only: res_bind_eq_Inr split_paired_Ex prod.case) blast
  from k have 2: "\<not> found" by (cases found) simp_all
  with k obtain epoch ad where 3: "epoch_of en current = Inr (epoch, ad)" "jx t ''prior_epoch'' = jnat epoch" "jx t ''prior_artifact_set_digest'' = JStr ad"
    and k2: "res_bind (applied_event e L en digest stream r (pf_now pf)
       (last_in_stream (ac_stream_id en) (sg_generation stream) events)) (\<lambda>event.
     res_bind (validate_action_record e event) (\<lambda>_.
     if \<exists>x \<in> set events. jx (sd_value x) ''event_id'' = jx event ''event_id'' then Inl IdempotencyMismatch
     else if (case ?old artifacts of None \<Rightarrow> False | Some a \<Rightarrow> sd_value a \<noteq> t) then Inl IdempotencyMismatch
     else
     res_bind (activation_claims e t digest event r (activation_provenance en pf) (?old artifacts = None)) (\<lambda>claims.
     Inr (q, Write (AppendAll claims))))) = Inr (pin, Write y)"
    by (simp only: if_False res_bind_eq_Inr split_paired_Ex prod.case guard_eq_Inr) blast
  from k2 obtain x ncs where 4: "applied_event e L en digest stream r (pf_now pf)
       (last_in_stream (ac_stream_id en) (sg_generation stream) events) = Inr x" "validate_action_record e x = Inr ()"
    "\<not> (\<exists>z \<in> set events. jx (sd_value z) ''event_id'' = jx x ''event_id'')"
    "\<not> (case ?old artifacts of None \<Rightarrow> False | Some a \<Rightarrow> sd_value a \<noteq> t)"
    "activation_claims e t digest x r (activation_provenance en pf) (?old artifacts = None) = Inr ncs" "q = pin" "y = AppendAll ncs"
    by (simp only: res_bind_eq_Inr guard_eq_Inr) auto
  from 4(4) have "\<forall>a. ?old artifacts = Some a \<longrightarrow> sd_value a = t" by auto
  note old = this
  have fresh: "\<forall>z \<in> set events. jx (sd_value z) ''event_id'' \<noteq> jx x ''event_id''" using 4(3) by blast
  have sc: "applied_scan e t r (applied_facts fs) None = Inr (False, current)" using 1(3) 2 by simp
  show thesis by (rule that[OF 1(1)[unfolded 4(6)] 1(2)[unfolded 4(6)] sc 3 4(1,2) fresh old 4(5,7)])
qed

lemma check_apply_Inr:
  assumes "check_apply e L en t pf = Inr (r, digest, stream)"
  shows "validate_action_record e t = Inr () \<and> jx t ''type'' = JStr ''activation'' \<and> applies e t r \<and> check_ratified e t pf = Inr ()"
  using assms receipt_applies
  by (auto simp: check_apply_def res_bind_eq_Inr split: if_splits) (auto simp: check_ratified_def refuse_if_Inr)

lemma conflicts_activation: "jx x ''family'' = JStr ''activation'' \<Longrightarrow> conflicts y x = Inr False"
  by (simp add: conflicts_def)

lemma epoch_takes_over:
  assumes w: "check_enrollment L en = Inr w" and N: "N = [w]" and e: "epoch_of en current = Inr (epoch, ad)"
    and t: "jx t ''prior_epoch'' = jnat epoch" "jx t ''prior_artifact_set_digest'' = JStr ad"
    and P: "current = (if P = [] then None else Some (last P))"
  shows "takes_over N P t"
  using w e t P
  by (auto simp: takes_over_def N epoch_of_def check_enrollment_def res_bind_eq_Inr j_number_Inr j_text_Inr split: if_splits)

lemma apply_enrolled_history:
  assumes cd: "codec_ok (an_codec e)" and shape: "stream_shape e" and ok: "protected_ok env gen v s"
    and H: "history_of e (rows (ms_claims s) v)" and w: "check_enrollment (mem_ledger env gen v policy) en = Inr w"
    and N: "recs e ENROLLMENT (rows (ms_claims s) v) = [w]"
    and a: "apply_enrolled e (mem_ledger env gen v policy) en t pf alone s = (q, s')"
  shows "history_of e (rows (ms_claims s') v)"
proof (cases "check_apply e (mem_ledger env gen v policy) en t pf")
  case (Inl err)
  with a H show ?thesis by (simp add: apply_enrolled_def)
next
  case (Inr z)
  let ?L = "mem_ledger env gen v policy" and ?fs = "rows (ms_claims s) v"
  obtain r digest stream where z: "z = (r, digest, stream)" by (cases z)
  note t = check_apply_Inr[OF Inr[unfolded z]]
  note refl = mem_log.extends_log_refl[OF ok]
  show ?thesis
  proof (rule mem_log.loop_alone[where m = 31, folded thirty_two alone_fun, OF ok _ a[unfolded apply_loop[OF Inr[unfolded z]] mem_ledger_simps]])
    fix pin y assume "apply_decide e ?L en t pf r digest stream s s s = Inr (pin, Write y)"
    then show "pin = head s v \<and> plain_call y" by (rule mem_log.apply_writes[OF mem_ledger_simps(1,2) ok])
  next
    fix y cs assume d: "apply_decide e ?L en t pf r digest stream s s s = Inr (head s v, Write y)"
      and f: "rows (ms_claims s') v = ?fs @ cs" "list_all2 carries (claims_of y) cs"
    from d show ?thesis
    proof (rule apply_decide_Inr)
      fix artifacts events fs current epoch ad x ncs
      assume sn: "ledger_snapshot e ?L s s = Inr (head s v, artifacts, events)" and af: "activation_facts ?L (head s v) s = Inr fs"
        and sc: "applied_scan e t r (applied_facts fs) None = Inr (False, current)" and ep: "epoch_of en current = Inr (epoch, ad)"
        and pr: "jx t ''prior_epoch'' = jnat epoch" "jx t ''prior_artifact_set_digest'' = JStr ad"
        and ev: "applied_event e ?L en digest stream r (pf_now pf) (last_in_stream (ac_stream_id en) (sg_generation stream) events) = Inr x"
        and vx: "validate_action_record e x = Inr ()" and fresh: "\<forall>z \<in> set events. jx (sd_value z) ''event_id'' \<noteq> jx x ''event_id''"
        and old: "\<forall>a. find (\<lambda>a. jx (sd_value a) ''type'' = JStr ''activation'' \<and> jx (sd_value a) ''transition'' = jx t ''transition'') artifacts = Some a \<longrightarrow> sd_value a = t"
        and cl: "activation_claims e t digest x r (activation_provenance en pf)
          (find (\<lambda>a. jx (sd_value a) ''type'' = JStr ''activation'' \<and> jx (sd_value a) ''transition'' = jx t ''transition'') artifacts = None) = Inr ncs"
        and y: "y = AppendAll ncs"
      define b where "b \<longleftrightarrow> find (\<lambda>a. jx (sd_value a) ''type'' = JStr ''activation'' \<and> jx (sd_value a) ''transition'' = jx t ''transition'') artifacts = None"
      define A where "A = recs e ARTIFACTS ?fs"
      define E where "E = recs e EVENTS ?fs"
      define P where "P = recs e APPLIED ?fs"
      have fs: "fs = ?fs" using af mem_log.facts_pinned[OF mem_ledger_simps(1,2) ok refl] by simp
      have l: "load_records e (al_scope ?L) ?fs = Inr (artifacts, events)"
        using sn mem_log.snapshot_pinned[OF mem_ledger_simps(1,2) ok refl] by (simp add: snapshot_on_Inr)
      note m = load_records_Inr[OF l]
      have A: "map sd_value artifacts = A" and E: "map sd_value events = E" using m by (simp_all add: A_def E_def)
      have h: "history e [w] A E P" using H N by (simp add: history_of_def A_def E_def P_def)
      note x = applied_event_Inr[OF ev]
      have ch: "chained e E" by (rule history_chained[OF h])
      have valid: "\<forall>y \<in> sd_value ` set events. validate_action_record e y = Inr () \<and> jx y ''type'' = JStr ''accountability-event''"
        using history_valid[OF h] unfolding set_map[symmetric] E by blast
      have "map_option sd_value (last_in_stream (ac_stream_id en) (sg_generation stream) events) =
          (let b = filter (in_stream_of x) (map sd_value events) in if b = [] then None else Some (last b))"
        by (rule last_in_stream_of[OF shape, where scp = "al_scope ?L"]) (use ch E valid m x in auto)
      from applied_follows[OF ch[folded E] ev this] have fl: "succeeds_in e E x" unfolding E .
      have sorted: "sorted_wrt (<) (map c_seq (applied_facts ?fs))"
        using protected_okD(5)[OF ok] unfolding applied_facts_def by (simp add: sorted_wrt_map sorted_wrt_filter)
      from applied_scan_False[OF sc[unfolded fs] sorted]
      have new: "\<forall>p \<in> set P. jx (jx p ''receipt'') ''transition'' \<noteq> jx t ''transition''"
        and cur: "current = (if P = [] then None else Some (last P))"
        by (simp_all add: P_def recs_def applied_facts_def)
      have over: "takes_over [w] P t" by (rule epoch_takes_over[OF w _ ep pr cur]) simp
      note rc = activation_claims_cases[OF cd cl[folded b_def] f(2)[unfolded y claims_of.simps]]
      define A' where "A' = A @ (if b then [t] else [])"
      have tA: "t \<in> set A'"
      proof (cases b)
        case False
        then obtain a where "find (\<lambda>a. jx (sd_value a) ''type'' = JStr ''activation'' \<and> jx (sd_value a) ''transition'' = jx t ''transition'') artifacts = Some a"
          unfolding b_def by blast
        with old find_Some_D[OF this] A show ?thesis unfolding A'_def by force
      qed (simp add: A'_def)
      have h': "history e [w] A' E P"
      proof (cases b)
        case True
        have "jx y ''transition'' \<noteq> jx t ''transition''" if "y \<in> set A" "jx y ''type'' = JStr ''activation''" for y
        proof -
          from that(1) obtain a where "a \<in> set artifacts" "y = sd_value a" unfolding A[symmetric] set_map by blast
          with find_None_D[OF True[unfolded b_def] this(1)] that(2) show ?thesis by simp
        qed
        then have "admits_artifact e A t" using t unfolding admits_artifact_def by auto
        with h True show ?thesis by (simp add: A'_def history.artifact)
      qed (use h in \<open>simp add: A'_def\<close>)
      have "caused_activation e A' r"
        using tA t unfolding caused_activation_def applies_def by auto
      moreover have "\<forall>z \<in> set E. jx z ''event_id'' \<noteq> jx x ''event_id'' \<and> conflicts z x = Inr False"
        using fresh x conflicts_activation unfolding E[symmetric] set_map by blast
      ultimately have "admits_event e A' E x" using vx x fl unfolding admits_event_def by simp
      with h' x t tA over new have "history e [w] A' (E @ [x]) (P @ [jobj [(''receipt'', r)]])"
        by (intro history.applied[where t = t]) auto
      with N rc show ?thesis
        unfolding history_of_def f(1) recs_append A_def[symmetric] E_def[symmetric] P_def[symmetric] by (simp add: A'_def)
    qed
  qed (use H in simp_all)
qed

lemma carry_out_history:
  assumes "codec_ok (an_codec e)" "stream_shape e" "protected_ok env gen v s" "history_of e (rows (ms_claims s) v)"
    "carry_out e (mem_ledger env gen v policy) c alone s = (r, s')"
  shows "history_of e (rows (ms_claims s') v)"
proof (cases c)
  case (Archive adm raw)
  with assms archive_history show ?thesis by simp
next
  case (Record adm raw)
  with assms event_history show ?thesis by simp
next
  case (Enrol en)
  with assms enrollment_result show ?thesis by (metis carry_out.simps(3))
next
  case (Apply en t pf)
  obtain q s1 where i: "initialize_activation e (mem_ledger env gen v policy) en alone s = (q, s1)" by force
  note res = enrollment_result[OF assms(1,3,4) i]
  show ?thesis
  proof (cases q)
    case (Inl err)
    with assms(5) Apply i res show ?thesis by (simp add: apply_activation_def)
  next
    case (Inr j)
    with assms(5) Apply i have a: "apply_enrolled e (mem_ledger env gen v policy) en t pf alone s1 = (r, s')"
      by (simp add: apply_activation_def alone_shift)
    have "protected_ok env gen v s1" using growsD[OF initialize_grows[OF assms(3) i]] by blast
    with res Inr a apply_enrolled_history[OF assms(1,2)] show ?thesis by blast
  qed
qed

lemma run_history:
  assumes "codec_ok (an_codec e)" "stream_shape e" "protected_ok env gen v s" "history_of e (rows (ms_claims s) v)" "ledger_run e env gen v s s'"
  shows "history_of e (rows (ms_claims s') v)"
  using assms(5)
proof induction
  case base
  show ?case by (rule assms(4))
next
  case (step t u)
  have ok: "protected_ok env gen v t" using growsD[OF run_grows[OF assms(3) step(1)]] by blast
  from step(2) show ?case
  proof cases
    case (elsewhere w)
    have "mem_ok env gen t" using ok by (simp add: protected_ok_def)
    from step_ledger[OF this elsewhere(1), of v] elsewhere(2) have "rows (ms_claims u) v = rows (ms_claims t) v" by fastforce
    with step.IH show ?thesis by simp
  next
    case (call policy c r)
    from carry_out_history[OF assms(1,2) ok step.IH this] show ?thesis .
  qed
qed

end
