(* ===== verification/Action_Properties.thy ===== *)
theory Action_Properties
  imports Action_Refine
begin

text \<open>
  The properties of the action ledger, read off the abstract histories its log refines: chained
  streams, one account of each attempt, authorised outcomes, activation epochs, and idempotent
  recording.
\<close>

section \<open>Reachable ledgers\<close>

definition ledger_reaches :: "action_env \<Rightarrow> gov_env \<Rightarrow> (nat \<Rightarrow> string) \<Rightarrow> string \<Rightarrow> mem_state \<Rightarrow> bool" where
  "ledger_reaches e env gen v s \<longleftrightarrow>
     (\<exists>s0. protected_ok env gen v s0 \<and> rows (ms_claims s0) v = [] \<and> ledger_run e env gen v s0 s)"

definition artifacts_of :: "action_env \<Rightarrow> string \<Rightarrow> mem_state \<Rightarrow> json list" where
  "artifacts_of e v s = recs e ARTIFACTS (rows (ms_claims s) v)"

definition events_of :: "action_env \<Rightarrow> string \<Rightarrow> mem_state \<Rightarrow> json list" where
  "events_of e v s = recs e EVENTS (rows (ms_claims s) v)"

definition applied_of :: "action_env \<Rightarrow> string \<Rightarrow> mem_state \<Rightarrow> json list" where
  "applied_of e v s = recs e APPLIED (rows (ms_claims s) v)"

definition enrolments_of :: "action_env \<Rightarrow> string \<Rightarrow> mem_state \<Rightarrow> json list" where
  "enrolments_of e v s = recs e ENROLLMENT (rows (ms_claims s) v)"

lemma reaches_history:
  assumes "codec_ok (an_codec e)" "stream_shape e" "ledger_reaches e env gen v s"
  shows "history e (enrolments_of e v s) (artifacts_of e v s) (events_of e v s) (applied_of e v s)"
proof -
  from assms(3) obtain s0 where s0: "protected_ok env gen v s0" "rows (ms_claims s0) v = []" "ledger_run e env gen v s0 s"
    by (auto simp: ledger_reaches_def)
  have "history_of e (rows (ms_claims s0) v)" by (simp add: s0(2) history_of_def history.start)
  from run_history[OF assms(1,2) s0(1) this s0(3)] show ?thesis
    by (simp add: history_of_def enrolments_of_def artifacts_of_def events_of_def applied_of_def)
qed

lemma reaches_protected_ok: "ledger_reaches e env gen v s \<Longrightarrow> protected_ok env gen v s"
  using growsD run_grows unfolding ledger_reaches_def by blast

section \<open>Facts about histories\<close>

lemma caused_action_more:
  assumes "set A \<subseteq> set B" "caused_action e A E x"
  shows "caused_action e B E x"
proof -
  have m: "\<exists>q \<in> set B. Q q" if "\<exists>q \<in> set A. Q q" for Q using that assms(1) by blast
  show ?thesis using assms(2) unfolding caused_action_def Let_def by (elim conjE, intro conjI) (assumption | intro impI m; simp)+
qed

lemma admits_event_more: "set A \<subseteq> set B \<Longrightarrow> admits_event e A E x \<Longrightarrow> admits_event e B E x"
  using caused_action_more[of A B e E x] by (auto simp: admits_event_def caused_activation_def split: if_splits)

lemma history_event:
  "history e N A E P \<Longrightarrow> i < length E \<Longrightarrow> admits_event e A (take i E) (E ! i)"
proof (induction arbitrary: i rule: history.induct)
  case (artifact N A E P w)
  have "set A \<subseteq> set (A @ [w])" by auto
  from admits_event_more[OF this artifact.IH[OF artifact.prems]] show ?case .
next
  case (event N A E P x)
  then show ?case by (cases "i = length E") (auto simp: nth_append)
next
  case (applied N A E P x r t)
  then show ?case by (cases "i = length E") (auto simp: nth_append)
qed simp_all

lemma history_artifact: "history e N A E P \<Longrightarrow> i < length A \<Longrightarrow> admits_artifact e (take i A) (A ! i)"
proof (induction arbitrary: i rule: history.induct)
  case (artifact N A E P w)
  then show ?case by (cases "i = length A") (auto simp: nth_append)
qed simp_all

text \<open>Two archived records other than transitions have different keys.\<close>

lemma history_artifact_unique:
  assumes h: "history e N A E P" and m: "a \<in> set A" "b \<in> set A" and t: "jx a ''type'' \<noteq> JStr ''activation''" "jx b ''type'' \<noteq> JStr ''activation''"
    and k: "artifact_key_of a = artifact_key_of b"
  shows "a = b"
proof -
  from m obtain i j where i: "i < length A" "A ! i = a" and j: "j < length A" "A ! j = b" by (meson in_set_conv_nth)
  have no: False if "p < q" "q < length A" "artifact_key_of (A ! p) = artifact_key_of (A ! q)" "jx (A ! q) ''type'' \<noteq> JStr ''activation''" for p q
  proof -
    have "A ! p \<in> set (take q A)" using that(1,2) by (auto simp: in_set_conv_nth intro!: exI[of _ p])
    with history_artifact[OF h that(2)] that(3,4) show False by (auto simp: admits_artifact_def)
  qed
  show ?thesis using no[of i j] no[of j i] i j t k by (cases i j rule: linorder_cases) auto
qed

section \<open>Streams\<close>

lemma event_ids_distinct:
  assumes "history e N A E P"
  shows "distinct (map (\<lambda>x. jx x ''event_id'') E)"
proof -
  have "jx (E ! j) ''event_id'' \<noteq> jx (E ! i) ''event_id''" if "j < i" "i < length E" for i j
  proof -
    have "E ! j \<in> set (take i E)" using that by (auto simp: in_set_conv_nth intro!: exI[of _ j])
    with history_event[OF assms that(2)] show ?thesis by (simp add: admits_event_def)
  qed
  then show ?thesis unfolding distinct_conv_nth length_map by (auto simp: nat_neq_iff dest: not_sym)
qed

text \<open>C28. Every event stream of the ledger is a chain. In every reachable store, the events of one
  stream and generation are numbered 1, 2, 3 and so on in the order of the log, the first has no
  predecessor, each later one carries the digest of the one before it, and no two events of the
  ledger have the same identifier.\<close>

theorem event_streams_chained:
  assumes "codec_ok (an_codec e)" "stream_shape e" "ledger_reaches e env gen v s"
  shows "(\<forall>i < length (events_of e v s). \<forall>x before. x = events_of e v s ! i \<longrightarrow>
      before = filter (in_stream_of x) (take i (events_of e v s)) \<longrightarrow>
      jx x ''sequence'' = jnat (length before + 1) \<and>
      (if before = [] then jx x ''predecessor'' = JNull
       else \<exists>d. action_digest e ''accountability-event'' (last before) = Inr d \<and> jx x ''predecessor'' = JStr d)) \<and>
    distinct (map (\<lambda>x. jx x ''event_id'') (events_of e v s))"
proof -
  note h = reaches_history[OF assms]
  let ?E = "events_of e v s"
  have "distinct (map (\<lambda>x. jx x ''event_id'') ?E)" by (rule event_ids_distinct[OF h])
  moreover have "jx x ''sequence'' = jnat (length before + 1) \<and>
      (if before = [] then jx x ''predecessor'' = JNull
       else \<exists>d. action_digest e ''accountability-event'' (last before) = Inr d \<and> jx x ''predecessor'' = JStr d)"
    if "i < length ?E" "x = ?E ! i" "before = filter (in_stream_of x) (take i ?E)" for i x before
  proof -
    have "succeeds_in e (take i ?E) x" using history_event[OF h that(1)] that(2) by (simp add: admits_event_def)
    then show ?thesis unfolding succeeds_in_def Let_def digests_to_def that(3) by simp
  qed
  ultimately show ?thesis by blast
qed

section \<open>One account of each attempt\<close>

text \<open>C29. The ledger keeps one account of each attempt. In every reachable store, two action events
  of one attempt agree on the operation, the request and the context; two events that name the same
  claim belong to the same attempt; and two events of one attempt and one kind, unless it is an
  approval or a reconciliation, say the same.\<close>

theorem one_account_per_attempt:
  assumes "codec_ok (an_codec e)" "stream_shape e" "ledger_reaches e env gen v s"
    and "i < j" "j < length (events_of e v s)" "a = jx (events_of e v s ! i) ''payload''" "b = jx (events_of e v s ! j) ''payload''"
    and "jx (events_of e v s ! i) ''family'' = JStr ''action''" "jx (events_of e v s ! j) ''family'' = JStr ''action''"
  shows "(jx a ''attempt'' = jx b ''attempt'' \<longrightarrow> same_attempt a b) \<and>
    (jget a ''claim'' \<noteq> None \<longrightarrow> jx a ''claim'' = jx b ''claim'' \<longrightarrow> jx a ''attempt'' = jx b ''attempt'') \<and>
    (jx a ''attempt'' = jx b ''attempt'' \<longrightarrow> jx a ''kind'' = jx b ''kind'' \<longrightarrow>
       jx b ''kind'' \<notin> {JStr ''approval-recorded'', JStr ''reconciliation''} \<longrightarrow> a = b)"
proof -
  let ?E = "events_of e v s"
  note h = history_event[OF reaches_history[OF assms(1-3)] assms(5)]
  have "?E ! i \<in> set (take j ?E)" using assms(4,5) by (auto simp: in_set_conv_nth intro!: exI[of _ i])
  with h have "conflicts (?E ! i) (?E ! j) = Inr False" unfolding admits_event_def by blast
  with assms(6-9) have c: "action_conflict a b = Inr False" by (simp add: conflicts_def)
  have valid: "validate_action_record e (?E ! j) = Inr ()" "jx (?E ! j) ''type'' = JStr ''accountability-event''"
    using h by (simp_all add: admits_event_def)
  obtain kind producer where k: "jx b ''kind'' = JStr kind" "jx (?E ! j) ''producer'' = JStr producer" "producer_allowed kind producer"
    "kind = ''activation-applied'' \<longrightarrow> jx (?E ! j) ''family'' = JStr ''activation''"
    by (rule valid_event[OF valid]) (simp add: assms(7))
  have "kind \<noteq> ''activation-applied''" using k(4) assms(9) by auto
  with k(3) have "kind \<in> once_kinds \<or> kind = ''approval-recorded'' \<or> kind = ''reconciliation''"
    by (auto simp: producer_allowed_def once_kinds_def split: if_splits)
  with c k(1) show ?thesis
    by (auto simp: action_conflict_def res_bind_eq_Inr j_text_Inr same_attempt_def split: if_splits)
qed

section \<open>Authorised outcomes\<close>

lemma same_attempt_trans: "same_attempt a b \<Longrightarrow> same_attempt c a \<Longrightarrow> same_attempt c b"
  by (simp add: same_attempt_def)

lemma event_for_trans: "event_for k p x \<Longrightarrow> same_attempt p q \<Longrightarrow> event_for k q x"
  by (auto simp: event_for_def intro: same_attempt_trans)

text \<open>Each kind of event and the one before it.\<close>

lemma caused_actionD:
  assumes "caused_action e A E x"
  shows "jx x ''kind'' = JStr ''claim-created'' \<longrightarrow> (\<exists>y \<in> set E. event_for ''approval-recorded'' (jx x ''payload'') y)"
    and "jx x ''kind'' \<notin> {JStr ''approval-recorded'', JStr ''claim-created''} \<longrightarrow> (\<exists>y \<in> set E. event_for ''claim-created'' (jx x ''payload'') y
      \<and> jx (jx x ''payload'') ''claim'' = jx (jx y ''payload'') ''claim'')"
    and "jx x ''kind'' = JStr ''predispatch'' \<longrightarrow> (\<exists>y \<in> set E. event_for ''consumption-reserved'' (jx x ''payload'') y
      \<and> digests_to e ''accountability-event'' y (jx (jx x ''payload'') ''consumption_event_digest''))"
    and "jx x ''kind'' = JStr ''send-intent'' \<longrightarrow> (\<exists>y \<in> set E. event_for ''predispatch'' (jx x ''payload'') y) \<and>
      (\<exists>y \<in> set E. event_for ''consumption-reserved'' (jx x ''payload'') y \<and> jx (jx x ''payload'') ''worker_fence'' = jx (jx y ''payload'') ''worker_fence'')"
    and "jx x ''kind'' = JStr ''outcome'' \<longrightarrow> (\<exists>y \<in> set E. event_for ''send-intent'' (jx x ''payload'') y
      \<and> jx (jx x ''payload'') ''invocation'' = jx (jx y ''payload'') ''invocation'' \<and> jx (jx x ''payload'') ''effect_key'' = jx (jx y ''payload'') ''effect_key'')"
  using assms unfolding caused_action_def Let_def by - (elim conjE, assumption)+

lemma event_family:
  assumes "admits_event e A E x" "jx x ''kind'' = JStr k" "k \<noteq> ''activation-applied''"
  shows "jx x ''family'' = JStr ''action''"
proof -
  have valid: "validate_action_record e x = Inr ()" "jx x ''type'' = JStr ''accountability-event''"
    using assms(1) by (simp_all add: admits_event_def)
  obtain n where n: "jx x ''kind'' = JStr n" "jx x ''family'' = JStr (if n = ''activation-applied'' then ''activation'' else ''action'')"
    by (rule valid_event[OF valid])
  with assms(2,3) show ?thesis by simp
qed

lemma event_before:
  assumes h: "history e N A E P" and i: "i < length E" and x: "event_for kind p (E ! i)" and kind: "kind \<noteq> ''activation-applied''"
    and prev: "\<And>B F y. caused_action e B F y \<Longrightarrow> jx y ''kind'' = JStr kind \<Longrightarrow> \<exists>z \<in> set F. event_for prev (jx y ''payload'') z"
  obtains j where "j < i" "event_for prev p (E ! j)"
proof -
  have a: "admits_event e A (take i E) (E ! i)" by (rule history_event[OF h i])
  have k: "jx (E ! i) ''kind'' = JStr kind" and sa: "same_attempt (jx (E ! i) ''payload'') p" using x by (simp_all add: event_for_def)
  have "caused_action e A (take i E) (E ! i)" using a event_family[OF a k kind] by (simp add: admits_event_def)
  from prev[OF this k] have "\<exists>y \<in> set (take i E). event_for prev p y" using event_for_trans sa by blast
  then obtain j where "j < i" "event_for prev p (E ! j)" using i by (auto simp: in_set_conv_nth)
  then show thesis by (rule that)
qed

lemma caused_chain:
  assumes "caused_action e A E x"
  shows "jx x ''kind'' = JStr ''claim-created'' \<Longrightarrow> \<exists>y \<in> set E. event_for ''approval-recorded'' (jx x ''payload'') y"
    and "jx x ''kind'' = JStr ''consumption-reserved'' \<Longrightarrow> \<exists>y \<in> set E. event_for ''claim-created'' (jx x ''payload'') y"
    and "jx x ''kind'' = JStr ''predispatch'' \<Longrightarrow> \<exists>y \<in> set E. event_for ''consumption-reserved'' (jx x ''payload'') y"
    and "jx x ''kind'' = JStr ''send-intent'' \<Longrightarrow> \<exists>y \<in> set E. event_for ''predispatch'' (jx x ''payload'') y"
    and "jx x ''kind'' = JStr ''outcome'' \<Longrightarrow> \<exists>y \<in> set E. event_for ''send-intent'' (jx x ''payload'') y"
proof -
  note D = caused_actionD[OF assms]
  show "jx x ''kind'' = JStr ''claim-created'' \<Longrightarrow> \<exists>y \<in> set E. event_for ''approval-recorded'' (jx x ''payload'') y" using D(1) by blast
  show "\<exists>y \<in> set E. event_for ''claim-created'' (jx x ''payload'') y" if "jx x ''kind'' = JStr ''consumption-reserved''"
  proof -
    have "jx x ''kind'' \<notin> {JStr ''approval-recorded'', JStr ''claim-created''}" using that by simp
    with D(2) show ?thesis by blast
  qed
  show "jx x ''kind'' = JStr ''predispatch'' \<Longrightarrow> \<exists>y \<in> set E. event_for ''consumption-reserved'' (jx x ''payload'') y" using D(3) by blast
  show "jx x ''kind'' = JStr ''send-intent'' \<Longrightarrow> \<exists>y \<in> set E. event_for ''predispatch'' (jx x ''payload'') y" using D(4) by blast
  show "jx x ''kind'' = JStr ''outcome'' \<Longrightarrow> \<exists>y \<in> set E. event_for ''send-intent'' (jx x ''payload'') y" using D(5) by blast
qed

text \<open>C30. No outcome without authority. In every reachable store, before each recorded outcome the
  ledger has, for the same operation, attempt, request and context and in this order, the recorded
  approval, the claim, the reserved consumption, the predispatch and the intent to send; and its
  archive has the request, a decision that asked for an approval, and an approval of that request by
  a human who is neither its actor nor its origin.\<close>

theorem outcome_was_authorised:
  assumes "codec_ok (an_codec e)" "stream_shape e" "ledger_reaches e env gen v s"
    and "i < length (events_of e v s)" "jx (events_of e v s ! i) ''kind'' = JStr ''outcome''" "p = jx (events_of e v s ! i) ''payload''"
  shows "(\<exists>a b c d f. a < b \<and> b < c \<and> c < d \<and> d < f \<and> f < i \<and> event_for ''approval-recorded'' p (events_of e v s ! a) \<and>
      event_for ''claim-created'' p (events_of e v s ! b) \<and> event_for ''consumption-reserved'' p (events_of e v s ! c) \<and>
      event_for ''predispatch'' p (events_of e v s ! d) \<and> event_for ''send-intent'' p (events_of e v s ! f)) \<and>
    (\<exists>q w dec. {q, w, dec} \<subseteq> set (artifacts_of e v s) \<and> requested_by e p q \<and> of_attempt ''action-approval'' p w \<and> requested_by e w q \<and>
      of_attempt ''action-decision'' w dec \<and> jx dec ''outcome'' = JStr ''approval-required'' \<and>
      jx (jx w ''approver'') ''kind'' = JStr ''human'' \<and> jx w ''approver'' \<noteq> jx (jx q ''intent'') ''actor'' \<and>
      jx w ''approver'' \<noteq> jx (jx q ''intent'') ''origin'')"
proof -
  let ?E = "events_of e v s" and ?A = "artifacts_of e v s"
  note h = reaches_history[OF assms(1-3)]
  have x: "event_for ''outcome'' p (?E ! i)" using assms(5,6) by (simp add: event_for_def same_attempt_def)
  obtain f where f: "f < i" "event_for ''send-intent'' p (?E ! f)" by (rule event_before[OF h assms(4) x _ caused_chain(5)]) simp_all
  obtain d where d: "d < f" "event_for ''predispatch'' p (?E ! d)" by (rule event_before[OF h _ f(2) _ caused_chain(4)]) (use f assms(4) in simp_all)
  obtain c where c: "c < d" "event_for ''consumption-reserved'' p (?E ! c)" by (rule event_before[OF h _ d(2) _ caused_chain(3)]) (use d f assms(4) in simp_all)
  obtain b where b: "b < c" "event_for ''claim-created'' p (?E ! b)" by (rule event_before[OF h _ c(2) _ caused_chain(2)]) (use c d f assms(4) in simp_all)
  obtain a where a: "a < b" "event_for ''approval-recorded'' p (?E ! a)" by (rule event_before[OF h _ b(2) _ caused_chain(1)]) (use b c d f assms(4) in simp_all)
  have la: "a < length ?E" using a b c d f assms(4) by linarith
  note adm = history_event[OF h la]
  have ka: "jx (?E ! a) ''kind'' = JStr ''approval-recorded''" and sa: "same_attempt (jx (?E ! a) ''payload'') p"
    using a(2) by (simp_all add: event_for_def)
  have "jx (?E ! a) ''family'' = JStr ''action''" using event_family[OF adm ka] by simp
  with adm ka obtain q w where qw: "q \<in> set ?A" "requested_by e (jx (?E ! a) ''payload'') q" "w \<in> set ?A"
    "of_attempt ''action-approval'' (jx (?E ! a) ''payload'') w"
    by (auto simp: admits_event_def caused_action_def Let_def)
  from qw sa have q: "requested_by e p q" and w: "of_attempt ''action-approval'' p w"
    by (simp_all add: requested_by_def of_attempt_def same_attempt_def)
  obtain k where k: "k < length ?A" "?A ! k = w" using qw(3) by (meson in_set_conv_nth)
  have aw: "admits_artifact e (take k ?A) w" using history_artifact[OF h k(1)] k(2) by simp
  have tw: "jx w ''type'' = JStr ''action-approval''" using w by (simp add: of_attempt_def)
  with aw obtain q' dec where q': "q' \<in> set ?A" "requested_by e w q'" "jx w ''approver'' \<noteq> jx (jx q' ''intent'') ''actor''"
    "jx w ''approver'' \<noteq> jx (jx q' ''intent'') ''origin''" and dec: "dec \<in> set ?A" "of_attempt ''action-decision'' w dec"
    "jx dec ''outcome'' = JStr ''approval-required''"
    by (auto simp: admits_artifact_def approves_def dest!: in_set_takeD)
  have "jx (jx w ''approver'') ''kind'' = JStr ''human''"
  proof -
    have "check_approval w = Inr ()" using aw tw by (auto simp: admits_artifact_def validate_action_record_def res_bind_eq_Inr j_text_def split: if_splits)
    then show ?thesis by (auto simp: check_approval_def res_bind_eq_Inr split: if_splits)
  qed
  moreover have "q' = q"
  proof (rule history_artifact_unique[OF h q'(1) qw(1)])
    have "jx q' ''attempt'' = jx q ''attempt''" "jx q ''type'' = JStr ''action-request''" "jx q' ''type'' = JStr ''action-request''"
      using q q'(2) w by (simp_all add: requested_by_def of_attempt_def)
    then show "artifact_key_of q' = artifact_key_of q" "jx q' ''type'' \<noteq> JStr ''activation''" "jx q ''type'' \<noteq> JStr ''activation''"
      by (simp_all add: artifact_key_of_def j_text_def)
  qed
  ultimately have "{q, w, dec} \<subseteq> set ?A \<and> requested_by e p q \<and> of_attempt ''action-approval'' p w \<and> requested_by e w q \<and>
      of_attempt ''action-decision'' w dec \<and> jx dec ''outcome'' = JStr ''approval-required'' \<and>
      jx (jx w ''approver'') ''kind'' = JStr ''human'' \<and> jx w ''approver'' \<noteq> jx (jx q ''intent'') ''actor'' \<and>
      jx w ''approver'' \<noteq> jx (jx q ''intent'') ''origin''" using q q' w dec qw(1,3) by simp
  moreover have "a < b \<and> b < c \<and> c < d \<and> d < f \<and> f < i \<and> event_for ''approval-recorded'' p (?E ! a) \<and>
      event_for ''claim-created'' p (?E ! b) \<and> event_for ''consumption-reserved'' p (?E ! c) \<and>
      event_for ''predispatch'' p (?E ! d) \<and> event_for ''send-intent'' p (?E ! f)" using a b c d f by simp
  ultimately show ?thesis
    apply (intro conjI)
     apply (intro exI, assumption)
    apply (intro exI, assumption)
    done
qed

section \<open>Activation epochs\<close>

definition applied_at :: "action_env \<Rightarrow> json list \<Rightarrow> json list \<Rightarrow> json list \<Rightarrow> json list \<Rightarrow> nat \<Rightarrow> json \<Rightarrow> bool" where
  "applied_at e N A E P i t \<longleftrightarrow> t \<in> set A \<and> jx t ''type'' = JStr ''activation'' \<and> validate_action_record e t = Inr () \<and>
     applies e t (jx (P ! i) ''receipt'') \<and> takes_over N (take i P) t \<and>
     (\<exists>x \<in> set E. jx (jx x ''payload'') ''receipt'' = jx (P ! i) ''receipt'') \<and>
     (\<forall>j < i. jx (jx (P ! j) ''receipt'') ''transition'' \<noteq> jx t ''transition'')"

lemma applied_at_more:
  "set A \<subseteq> set A' \<Longrightarrow> set E \<subseteq> set E' \<Longrightarrow> i < length P \<Longrightarrow> applied_at e N A E P i t \<Longrightarrow> applied_at e N A' E' (P @ Q) i t"
  by (auto simp: applied_at_def nth_append)

lemma history_applied: "history e N A E P \<Longrightarrow> i < length P \<Longrightarrow> \<exists>t. applied_at e N A E P i t"
proof (induction arbitrary: i rule: history.induct)
  case (artifact N A E P w)
  then obtain t where "applied_at e N A E P i t" by blast
  from applied_at_more[of A "A @ [w]" E E i P e N t "[]"] this artifact.prems show ?case by auto
next
  case (event N A E P x)
  then obtain t where "applied_at e N A E P i t" by blast
  from applied_at_more[of A A E "E @ [x]" i P e N t "[]"] this event.prems show ?case by auto
next
  case (enrolled A E P n)
  from enrolled.prems have "0 < length P" by linarith
  then obtain t where "applied_at e [] A E P 0 t" using enrolled.IH[of 0] by blast
  then show ?case by (simp add: applied_at_def takes_over_def)
next
  case (applied N A E P x r t)
  show ?case
  proof (cases "i = length P")
    case True
    have "jx (jx (P ! j) ''receipt'') ''transition'' \<noteq> jx t ''transition''" if "j < length P" for j
      using applied.hyps(10) nth_mem[OF that] by blast
    then have "applied_at e N A (E @ [x]) (P @ [jobj [(''receipt'', r)]]) i t"
      using applied.hyps True by (auto simp: applied_at_def nth_append)
    then show ?thesis by blast
  next
    case False
    with applied.prems have i: "i < length P" by simp
    then obtain u where "applied_at e N A E P i u" using applied.IH by blast
    from applied_at_more[OF _ _ i this, of A "E @ [x]"] show ?thesis by auto
  qed
qed simp

text \<open>C31. Activation epochs form one chain. In every reachable store the server is enrolled at most
  once; each applied transition starts at the epoch and artifact set the one before it ended with,
  the first at those of the enrolment; its epoch number grows; the transition it applied is in the
  archive under the digest its receipt states, an audit event carries that receipt, and no
  transition is applied twice.\<close>

theorem activation_epochs_chain:
  assumes "codec_ok (an_codec e)" "stream_shape e" "ledger_reaches e env gen v s"
  shows "length (enrolments_of e v s) \<le> 1 \<and>
    (\<forall>i < length (applied_of e v s). \<forall>r. r = jx (applied_of e v s ! i) ''receipt'' \<longrightarrow>
      (if i = 0 then \<exists>n. enrolments_of e v s = [n] \<and> jx r ''prior_epoch'' = jx n ''initial_epoch''
       else jx r ''prior_epoch'' = jx (jx (applied_of e v s ! (i - 1)) ''receipt'') ''successor_epoch'') \<and>
      (\<exists>m n. jx r ''prior_epoch'' = jnat m \<and> jx r ''successor_epoch'' = jnat n \<and> m < n) \<and>
      (\<exists>t \<in> set (artifacts_of e v s). digests_to e ''activation'' t (jx r ''transition_digest'') \<and> jx r ''transition'' = jx t ''transition'' \<and>
        (if i = 0 then \<exists>n. enrolments_of e v s = [n] \<and> jx t ''prior_artifact_set_digest'' = jx n ''initial_artifact_set_digest''
         else jx t ''prior_artifact_set_digest'' = jx (jx (applied_of e v s ! (i - 1)) ''receipt'') ''artifact_set_digest'')) \<and>
      (\<exists>x \<in> set (events_of e v s). jx (jx x ''payload'') ''receipt'' = r) \<and>
      (\<forall>j < i. jx (jx (applied_of e v s ! j) ''receipt'') ''transition'' \<noteq> jx r ''transition''))"
proof -
  note h = reaches_history[OF assms]
  let ?P = "applied_of e v s" and ?N = "enrolments_of e v s"
  have "(if i = 0 then \<exists>n. ?N = [n] \<and> jx r ''prior_epoch'' = jx n ''initial_epoch''
       else jx r ''prior_epoch'' = jx (jx (?P ! (i - 1)) ''receipt'') ''successor_epoch'') \<and>
      (\<exists>m n. jx r ''prior_epoch'' = jnat m \<and> jx r ''successor_epoch'' = jnat n \<and> m < n) \<and>
      (\<exists>t \<in> set (artifacts_of e v s). digests_to e ''activation'' t (jx r ''transition_digest'') \<and> jx r ''transition'' = jx t ''transition'' \<and>
        (if i = 0 then \<exists>n. ?N = [n] \<and> jx t ''prior_artifact_set_digest'' = jx n ''initial_artifact_set_digest''
         else jx t ''prior_artifact_set_digest'' = jx (jx (?P ! (i - 1)) ''receipt'') ''artifact_set_digest'')) \<and>
      (\<exists>x \<in> set (events_of e v s). jx (jx x ''payload'') ''receipt'' = r) \<and>
      (\<forall>j < i. jx (jx (?P ! j) ''receipt'') ''transition'' \<noteq> jx r ''transition'')"
    if i: "i < length ?P" and r: "r = jx (?P ! i) ''receipt''" for i r
  proof -
    obtain t where t: "applied_at e ?N (artifacts_of e v s) (events_of e v s) ?P i t" using history_applied[OF h i] by blast
    then have ap: "applies e t r" and ov: "takes_over ?N (take i ?P) t" by (simp_all add: applied_at_def r)
    have "check_activation e t = Inr ()"
      using t by (auto simp: applied_at_def validate_action_record_def res_bind_eq_Inr j_text_def split: if_splits)
    then have "number_le (jx t ''successor_epoch'') (jx t ''prior_epoch'') = Inr False"
      by (auto simp: check_activation_def res_bind_eq_Inr refuse_if_Inr)
    then have n: "\<exists>m n. jx r ''prior_epoch'' = jnat m \<and> jx r ''successor_epoch'' = jnat n \<and> m < n"
      using ap by (auto simp: number_le_def res_bind_eq_Inr j_number_Inr applies_def not_le)
    have l: "last (take i ?P) = ?P ! (i - 1)" if "0 < i" using that i by (cases i) (simp_all add: take_Suc_conv_app_nth)
    have e1: "(if i = 0 then \<exists>n. ?N = [n] \<and> jx r ''prior_epoch'' = jx n ''initial_epoch''
       else jx r ''prior_epoch'' = jx (jx (?P ! (i - 1)) ''receipt'') ''successor_epoch'')"
      using ov ap l i by (auto simp: takes_over_def applies_def split: if_splits)
    have a1: "if i = 0 then \<exists>n. ?N = [n] \<and> jx t ''prior_artifact_set_digest'' = jx n ''initial_artifact_set_digest''
       else jx t ''prior_artifact_set_digest'' = jx (jx (?P ! (i - 1)) ''receipt'') ''artifact_set_digest''"
      using ov l i by (auto simp: takes_over_def split: if_splits)
    have t1: "jx r ''transition'' = jx t ''transition''" "digests_to e ''activation'' t (jx r ''transition_digest'')"
      using ap by (simp_all add: applies_def)
    have t2: "t \<in> set (artifacts_of e v s)" "\<exists>x \<in> set (events_of e v s). jx (jx x ''payload'') ''receipt'' = r"
      "\<forall>j < i. jx (jx (?P ! j) ''receipt'') ''transition'' \<noteq> jx r ''transition''" using t t1(1) by (simp_all add: applied_at_def r)
    show ?thesis by (intro conjI e1 n t2(2,3) bexI[OF _ t2(1)] t1 a1)
  qed
  then show ?thesis using history_enrolled[OF h] by blast
qed

end
