(* ===== verification/Action_Replay.thy ===== *)
theory Action_Replay
  imports Action_Properties
begin

text \<open>Recording an event is idempotent, whatever is recorded after it.\<close>

lemma load_records_append: "load_records e scp (xs @ ys) = Inr (a, es) \<Longrightarrow>
    \<exists>a1 e1 a2 e2. load_records e scp xs = Inr (a1, e1) \<and> load_records e scp ys = Inr (a2, e2) \<and> a = a1 @ a2 \<and> es = e1 @ e2"
proof (induction xs arbitrary: a es)
  case (Cons x xs)
  show ?case
  proof (cases "c_subject x \<noteq> ARTIFACTS \<and> c_subject x \<noteq> EVENTS")
    case True
    with Cons.prems have "load_records e scp (xs @ ys) = Inr (a, es)" by simp
    from Cons.IH[OF this] True show ?thesis by simp
  next
    case False
    with Cons.prems obtain r a' e' where r: "load_record e scp x = Inr r" "load_records e scp (xs @ ys) = Inr (a', e')"
      "(if c_subject x = ARTIFACTS then (r # a', e') else (a', r # e')) = (a, es)" by (auto simp: res_bind_eq_Inr)
    from Cons.IH[OF r(2)] obtain a1 e1 a2 e2 where i: "load_records e scp xs = Inr (a1, e1)" "load_records e scp ys = Inr (a2, e2)"
      "a' = a1 @ a2" "e' = e1 @ e2" by blast
    show ?thesis
    proof (cases "c_subject x = ARTIFACTS")
      case True
      then have "load_records e scp (x # xs) = Inr (r # a1, e1)" using r(1) i(1) by simp
      moreover have "a = (r # a1) @ a2" "es = e1 @ e2" using r(3) i(3,4) True by simp_all
      ultimately show ?thesis using i(2) by blast
    next
      case no: False
      then have "load_records e scp (x # xs) = Inr (a1, r # e1)" using r(1) i(1) False by simp
      moreover have "a = a1 @ a2" "es = (r # e1) @ e2" using r(3) i(3,4) no by simp_all
      ultimately show ?thesis using i(2) by blast
    qed
  qed
qed simp

lemma event_scan_Cons_Inr: "event_scan x (r # es) l = Inr out \<longleftrightarrow>
    (if jx (sd_value r) ''event_id'' = jx x ''event_id'' then sd_value r = x \<and> out = Inl r
     else conflicts (sd_value r) x = Inr False \<and> event_scan x es (later_of x (sd_value r) l) = Inr out)"
  by (auto simp: res_bind_eq_Inr)

lemma event_scan_append_found: "event_scan x es l = Inr (Inl r) \<Longrightarrow> event_scan x (es @ ys) l = Inr (Inl r)"
proof (induction es arbitrary: l)
  case (Cons a es)
  then show ?case unfolding append_Cons event_scan_Cons_Inr by (simp only: split: if_splits) simp_all
qed simp

lemma event_scan_append_none: "event_scan x es l = Inr (Inr l') \<Longrightarrow> event_scan x (es @ ys) l = event_scan x ys l'"
proof (induction es arbitrary: l)
  case (Cons r es)
  then have "jx (sd_value r) ''event_id'' \<noteq> jx x ''event_id''" "conflicts (sd_value r) x = Inr False"
    "event_scan x es (later_of x (sd_value r) l) = Inr (Inr l')" unfolding event_scan_Cons_Inr by (simp_all only: split: if_splits) simp_all
  with Cons.IH show ?case by simp
qed simp

lemma event_scan_found: "event_scan x es l = Inr (Inl r) \<Longrightarrow> r \<in> set es \<and> sd_value r = x"
proof (induction es arbitrary: l)
  case (Cons a es)
  from Cons.prems show ?case unfolding event_scan_Cons_Inr using Cons.IH
    by (cases "jx (sd_value a) ''event_id'' = jx x ''event_id''") auto
qed simp

lemma conflicts_answers:
  assumes "validate_action_record e x = Inr ()" "jx x ''type'' = JStr ''accountability-event''"
  shows "\<exists>b. conflicts y x = Inr b"
proof -
  obtain k where "jx (jx x ''payload'') ''kind'' = JStr k" by (rule valid_event[OF assms])
  then show ?thesis by (auto simp: conflicts_def action_conflict_def j_text_def)
qed

text \<open>An event with a recorded identifier and another content is refused.\<close>

lemma event_scan_other:
  assumes "validate_action_record e x = Inr ()" "jx x ''type'' = JStr ''accountability-event''"
    and "\<exists>r \<in> set es. jx (sd_value r) ''event_id'' = jx x ''event_id''"
    "\<forall>r \<in> set es. jx (sd_value r) ''event_id'' = jx x ''event_id'' \<longrightarrow> sd_value r \<noteq> x"
  shows "event_scan x es l = Inl IdempotencyMismatch"
  using assms(3,4)
proof (induction es arbitrary: l)
  case (Cons r es)
  obtain b where "conflicts (sd_value r) x = Inr b" using conflicts_answers[OF assms(1,2)] by blast
  with Cons show ?case by auto
qed simp

section \<open>The ledger read again\<close>

lemma ledger_read:
  assumes ok: "protected_ok env gen v t"
  shows "ledger_snapshot e (mem_ledger env gen v policy) t t = Inr (pin, artifacts, events) \<longleftrightarrow> pin = head t v \<and>
    head t v \<le> max_integer \<and> load_records e (scope_value (py_scope policy)) (rows (ms_claims t) v) = Inr (artifacts, events)"
  unfolding mem_log.snapshot_pinned[OF mem_ledger_simps(1,2) ok mem_log.extends_log_refl[OF ok]] snapshot_on_Inr
  by (auto simp: al_scope_def)

lemma event_checked:
  assumes "event_check e L adm raw = Inr (ev, d, p)"
  shows "canonical_record (an_codec e) raw = Inr ev" "validate_action_record e ev = Inr ()" "jx ev ''type'' = JStr ''accountability-event''"
    "aa_now adm \<le> max_integer"
  using assms by (auto simp: event_check_def authorize_def res_bind_eq_Inr split: if_splits)

text \<open>What a recorded event leaves in the log, and what it was acknowledged with.\<close>

definition acknowledged :: "action_env \<Rightarrow> mem_state action_ledger \<Rightarrow> json \<Rightarrow> json \<Rightarrow> stored_record list \<Rightarrow> bool" where
  "acknowledged e L ev ack events \<longleftrightarrow> (\<exists>r. event_scan ev events None = Inr (Inl r) \<and>
     acknowledgement e L ev (sd_seq r) (sd_received_at r) = Inr ack)"

lemma acknowledged_append: "acknowledged e L ev ack es \<Longrightarrow> acknowledged e L ev ack (es @ ys)"
  by (auto simp: acknowledged_def dest: event_scan_append_found)

lemma recorded_stays:
  assumes ok: "protected_ok env gen v s" and c: "event_check e (mem_ledger env gen v policy) adm raw = Inr (ev, d, p)"
    and a: "append_event e (mem_ledger env gen v policy) adm raw alone s = (Inr ack, s')" and run: "ledger_run e env gen v s' t"
    and t: "ledger_snapshot e (mem_ledger env gen v policy) t t = Inr (pin, artifacts, events)"
  shows "acknowledged e (mem_ledger env gen v policy) ev ack events"
proof -
  let ?L = "mem_ledger env gen v policy"
  let ?scp = "scope_value (py_scope policy)"
  note l = event_loop[OF c, unfolded mem_ledger_simps]
  have ok': "protected_ok env gen v s'" using growsD[OF append_event_grows[OF ok a]] by blast
  from growsD[OF run_grows[OF ok' run]] obtain new where okt: "protected_ok env gen v t" and new: "rows (ms_claims t) v = rows (ms_claims s') v @ new"
    by blast
  from t[unfolded ledger_read[OF okt]] new
  have "load_records e ?scp (rows (ms_claims s') v @ new) = Inr (artifacts, events)" by simp
  from load_records_append[OF this] obtain a1 e1 e2 where e1: "load_records e ?scp (rows (ms_claims s') v) = Inr (a1, e1)" "events = e1 @ e2"
    by blast
  have "acknowledged e ?L ev ack e1"
  proof (rule mem_log.loop_alone[where m = 31, folded thirty_two alone_fun, OF ok _ a[unfolded l]])
    fix pin w assume "event_decide e ?L adm raw ev d p s s = Inr (pin, Write w)"
    then show "pin = head s v \<and> plain_call w" by (rule mem_log.event_writes[OF mem_ledger_simps(1,2) ok])
  next
    fix pin j assume "event_decide e ?L adm raw ev d p s s = Inr (pin, Answer j)" "Inr ack = Inr j" "s' = s"
    then show ?thesis using e1(1)
      by (auto simp: mem_log.event_decide_on[OF mem_ledger_simps(1,2) ok mem_log.extends_log_refl[OF ok]] snapshot_on_Inr al_scope_def
          res_bind_eq_Inr case_sum_eq_Inr acknowledged_def)
  next
    fix w cs assume w: "event_decide e ?L adm raw ev d p s s = Inr (head s v, Write w)" "list_all2 carries (claims_of w) cs"
      "rows (ms_claims s') v = rows (ms_claims s) v @ cs" and r: "Inr ack = acknowledgement e ?L ev (c_seq (hd cs)) (aa_now adm)"
    from w(1) obtain as es ll i where d: "load_records e ?scp (rows (ms_claims s) v) = Inr (as, es)" "event_scan ev es None = Inr (Inr ll)"
      "w = AppendOne (event_claim adm ev i d raw (p \<noteq> None))"
      by (auto simp: mem_log.event_decide_on[OF mem_ledger_simps(1,2) ok mem_log.extends_log_refl[OF ok]] snapshot_on_Inr al_scope_def
          res_bind_eq_Inr case_sum_eq_Inr)
    obtain cl where cl: "cs = [cl]" "carries (event_claim adm ev i d raw (p \<noteq> None)) cl"
      using w(2) by (auto simp: d(3) list_all2_Cons1)
    from e1(1)[unfolded w(3) cl(1)] load_records_append obtain a1' e1' a2' e2' where sp:
      "load_records e ?scp (rows (ms_claims s) v) = Inr (a1', e1')" "load_records e ?scp [cl] = Inr (a2', e2')" "e1 = e1' @ e2'" by blast
    have sub: "c_subject cl = EVENTS" "c_value cl = raw" "c_evidence cl = nc_evidence (event_claim adm ev i d raw (p \<noteq> None))"
      using cl(2) by (simp_all add: carries_def event_claim_def new_claim_fact_def)
    from sp(2) sub(1) obtain q where q: "load_record e ?scp cl = Inr q" "e2' = [q]" by (auto simp: res_bind_eq_Inr)
    have "sd_value q = ev" "sd_seq q = c_seq cl" using q(1) event_checked(1)[OF c] sub(2) by (simp_all add: load_record_Inr)
    moreover have "sd_received_at q = aa_now adm" using q(1) sub(3) by (auto simp: load_record_Inr event_claim_def j_number_Inr jnat_eq_iff)
    ultimately show ?thesis using event_scan_append_none[OF d(2), of e2'] sp(1,3) d(1) q(2) r cl(1) by (simp add: acknowledged_def)
  qed simp
  then show ?thesis unfolding e1(2) by (rule acknowledged_append)
qed

lemma replay_answers:
  assumes cd: "codec_ok (an_codec e)" "stream_shape e" and reach: "ledger_reaches e env gen v t"
    and t: "ledger_snapshot e (mem_ledger env gen v policy) t t = Inr (pin, artifacts, events)"
    and ack: "acknowledged e (mem_ledger env gen v policy) ev ack events"
    and c: "event_check e (mem_ledger env gen v policy) adm raw = Inr (x, d, p)" and i: "jx x ''event_id'' = jx ev ''event_id''"
  shows "append_event e (mem_ledger env gen v policy) adm raw alone t = (if x = ev then Inr ack else Inl IdempotencyMismatch, t)"
proof -
  let ?L = "mem_ledger env gen v policy"
  have ok: "protected_ok env gen v t" by (rule reaches_protected_ok[OF reach])
  note l = event_loop[OF c, unfolded mem_ledger_simps]
  have sn: "snapshot_on e ?L (head t v) (rows (ms_claims t) v) = Inr (pin, artifacts, events)"
    using t unfolding mem_log.snapshot_pinned[OF mem_ledger_simps(1,2) ok mem_log.extends_log_refl[OF ok]] .
  note d = mem_log.event_decide_on[OF mem_ledger_simps(1,2) ok mem_log.extends_log_refl[OF ok], of e policy adm raw x d p, unfolded sn]
  obtain r where r: "event_scan ev events None = Inr (Inl r)" "acknowledgement e ?L ev (sd_seq r) (sd_received_at r) = Inr ack"
    using ack by (auto simp: acknowledged_def)
  show ?thesis
  proof (cases "x = ev")
    case True
    have "event_decide e ?L adm raw x d p t t = Inr (pin, Answer ack)" unfolding d by (simp add: r True)
    with True show ?thesis unfolding l thirty_two alone_fun commit_loop_alone by simp
  next
    case False
    note f = event_scan_found[OF r(1)]
    have m: "events_of e v t = map sd_value events"
      using load_records_Inr t unfolding ledger_read[OF ok] events_of_def by metis
    have "inj_on ((\<lambda>y. jx y ''event_id'') \<circ> sd_value) (set events)"
      using event_ids_distinct[OF reaches_history[OF cd reach]] unfolding m List.map.compositionality distinct_map by blast
    then have inj: "inj_on (\<lambda>q. jx (sd_value q) ''event_id'') (set events)" by (simp add: comp_def)
    have "event_scan x events None = Inl IdempotencyMismatch"
    proof (rule event_scan_other[OF event_checked(2,3)[OF c]])
      show "\<exists>q \<in> set events. jx (sd_value q) ''event_id'' = jx x ''event_id''" using f i by auto
      show "\<forall>q \<in> set events. jx (sd_value q) ''event_id'' = jx x ''event_id'' \<longrightarrow> sd_value q \<noteq> x"
        using inj_onD[OF inj] f i False by metis
    qed
    then have "event_decide e ?L adm raw x d p t t = Inl IdempotencyMismatch" unfolding d by simp
    with False show ?thesis unfolding l thirty_two alone_fun commit_loop_alone by simp
  qed
qed

text \<open>C32. Recording an event is idempotent. Once an event was acknowledged, whatever other calls do
  afterwards, sending it again (by anyone admitted, at any time) answers the same acknowledgement, the
  position and time of the first recording included, and writes nothing; another event under its
  identifier is refused. The hypothesis on the later store is that it can be read under the policy.\<close>

theorem record_idempotent:
  assumes "codec_ok (an_codec e)" "stream_shape e" "ledger_reaches e env gen v s"
    and "event_check e (mem_ledger env gen v policy) adm raw = Inr (ev, d, p)"
    and "append_event e (mem_ledger env gen v policy) adm raw alone s = (Inr ack, s')" "ledger_run e env gen v s' t"
    and "ledger_snapshot e (mem_ledger env gen v policy) t t = Inr (pin, artifacts, events)"
    and "event_check e (mem_ledger env gen v policy) adm' raw' = Inr (x, d', p')" "jx x ''event_id'' = jx ev ''event_id''"
  shows "append_event e (mem_ledger env gen v policy) adm' raw' alone t = (if x = ev then Inr ack else Inl IdempotencyMismatch, t)"
proof (rule replay_answers[OF assms(1,2) _ assms(7) _ assms(8,9)])
  have "action_step e env gen v s s'" using assms(5) by (intro action_step.call[of _ _ _ _ _ "Record adm raw"]) simp
  then show "ledger_reaches e env gen v t"
    using assms(3,6) unfolding ledger_reaches_def by (meson rtranclp.rtrancl_into_rtrancl rtranclp_trans)
  show "acknowledged e (mem_ledger env gen v policy) ev ack events"
    by (rule recorded_stays[OF reaches_protected_ok[OF assms(3)] assms(4,5,6,7)])
qed

end
