(* ===== verification/Action_Run.thy ===== *)
theory Action_Run
  imports Action_Replay
begin

text \<open>
  A concrete ledger: an action is requested, decided, approved, claimed, sent and its outcome recorded.
  It shows that the hypotheses of the ledger's properties hold of real runs.
\<close>

section \<open>One call on a known ledger\<close>

text \<open>What a call sees of the store: the head, and the records it loads.\<close>

definition reads_as_ledger :: "action_env \<Rightarrow> action_policy \<Rightarrow> gov_env \<Rightarrow> (nat \<Rightarrow> string) \<Rightarrow> string \<Rightarrow> mem_state \<Rightarrow> nat \<Rightarrow>
    stored_record list \<Rightarrow> stored_record list \<Rightarrow> bool" where
  "reads_as_ledger e policy env gen v s n as es \<longleftrightarrow> protected_ok env gen v s \<and> head s v = n \<and> n \<le> max_integer \<and>
     load_records e (scope_value (py_scope policy)) (rows (ms_claims s) v) = Inr (as, es)"

lemma load_records_snoc: "load_records e scp xs = Inr (as, es) \<Longrightarrow> load_records e scp ys = Inr (as', es') \<Longrightarrow>
    load_records e scp (xs @ ys) = Inr (as @ as', es @ es')"
  by (induction xs arbitrary: as es) (auto simp: res_bind_eq_Inr split: if_splits)

lemma mem_append_one:
  assumes ok: "protected_ok env gen v s" and w: "plain nc"
  obtains s' where "try_append (mem_facts env gen) v (AppendOne nc) (head s v) s =
      Inr ([stored_claim (''claim-'' @ gen (ms_drawn s)) v (head s v + 1) nc], s')"
    "protected_ok env gen v s'" "head s' v = head s v + 1"
    "rows (ms_claims s') v = rows (ms_claims s) v @ [stored_claim (''claim-'' @ gen (ms_drawn s)) v (head s v + 1) nc]"
proof -
  have p: "plain_call (AppendOne nc)" using w by (simp add: plain_call_def)
  have b: "batch_claims gen s v (head s v + 1) [nc] = [stored_claim (''claim-'' @ gen (ms_drawn s)) v (head s v + 1) nc]"
    by (simp add: batch_claims_def)
  from mem_append[OF ok p] b obtain s' where s': "try_append (mem_facts env gen) v (AppendOne nc) (head s v) s =
      Inr ([stored_claim (''claim-'' @ gen (ms_drawn s)) v (head s v + 1) nc], s')" "mem_step env gen s v s'"
    "rows (ms_claims s') v = rows (ms_claims s) v @ [stored_claim (''claim-'' @ gen (ms_drawn s)) v (head s v + 1) nc]"
    "head s' v = head s v + 1" by auto
  have "protected_ok env gen v s'"
    by (rule protected_ok_step[OF ok s'(2,3)]) (use w in \<open>simp add: plain_def stored_claim_def\<close>)
  with s' that show thesis by blast
qed

lemma archive_done:
  assumes r: "reads_as_ledger e policy env gen v s n as es" and n: "n < max_integer"
    and c: "archive_check e (mem_ledger env gen v policy) adm raw = Inr (w, kind, digest)"
    and d: "archive_scan kind digest w as = Inr None" "validate_archive e w as = Inr ()"
  shows "\<exists>s'. archive e (mem_ledger env gen v policy) adm raw alone s = (Inr (archived digest (n + 1) kind), s') \<and>
    reads_as_ledger e policy env gen v s' (n + 1) (as @ [\<lparr>sd_value = w, sd_seq = n + 1, sd_received_at = aa_now adm\<rparr>]) es"
proof -
  have ok: "protected_ok env gen v s" and h: "head s v = n" and l: "load_records e (scope_value (py_scope policy)) (rows (ms_claims s) v) = Inr (as, es)"
    using r by (simp_all add: reads_as_ledger_def)
  let ?nc = "archive_claim adm digest raw"
  obtain s' where s': "try_append (mem_facts env gen) v (AppendOne ?nc) n s = Inr ([stored_claim (''claim-'' @ gen (ms_drawn s)) v (n + 1) ?nc], s')"
    "protected_ok env gen v s'" "head s' v = n + 1"
    "rows (ms_claims s') v = rows (ms_claims s) v @ [stored_claim (''claim-'' @ gen (ms_drawn s)) v (n + 1) ?nc]"
    using mem_append_one[OF ok, of ?nc] h by (auto simp: plain_def archive_claim_def new_claim_fact_def)
  have "archive_decide e (mem_ledger env gen v policy) adm raw w kind digest s s = Inr (n, Write (AppendOne ?nc))"
    unfolding mem_log.archive_decide_on[OF mem_ledger_simps(1,2) ok mem_log.extends_log_refl[OF ok]]
    using n h l d by (simp add: snapshot_on_def al_scope_def)
  then have a: "archive e (mem_ledger env gen v policy) adm raw alone s = (Inr (archived digest (n + 1) kind), s')"
    unfolding archive_loop[OF c] mem_ledger_simps thirty_two alone_fun commit_loop_alone
    by (simp add: s'(1) stored_claim_def del: try_append.simps)
  have "canonical_record (an_codec e) raw = Inr w" "scope_confined w (scope_value (py_scope policy))" "aa_now adm \<le> max_integer"
    using c by (auto simp: archive_check_Inr al_scope_def authorize_def res_bind_eq_Inr split: if_splits)
  then have "load_records e (scope_value (py_scope policy)) [stored_claim (''claim-'' @ gen (ms_drawn s)) v (n + 1) ?nc] =
      Inr ([\<lparr>sd_value = w, sd_seq = n + 1, sd_received_at = aa_now adm\<rparr>], [])"
    by (simp add: load_record_def stored_claim_def archive_claim_def new_claim_fact_def check_scope_def ok_or_def j_number_def)
  from load_records_snoc[OF l this] a s' n show ?thesis by (auto simp: reads_as_ledger_def)
qed

lemma record_done:
  assumes r: "reads_as_ledger e policy env gen v s n as es" and n: "n < max_integer"
    and c: "event_check e (mem_ledger env gen v policy) adm raw = Inr (x, digest, recovery)"
    and d: "event_scan x es None = Inr (Inr last_event)" "check_sequence e x last_event = Inr ()"
      "prerequisites e (mem_ledger env gen v policy) x as es = Inr ()" "check_recovery e recovery x digest es = Inr ()"
      "jx x ''event_id'' = JStr i" "acknowledgement e (mem_ledger env gen v policy) x (n + 1) (aa_now adm) = Inr ack"
  shows "\<exists>s'. append_event e (mem_ledger env gen v policy) adm raw alone s = (Inr ack, s') \<and>
    reads_as_ledger e policy env gen v s' (n + 1) as (es @ [\<lparr>sd_value = x, sd_seq = n + 1, sd_received_at = aa_now adm\<rparr>])"
proof -
  have ok: "protected_ok env gen v s" and h: "head s v = n" and l: "load_records e (scope_value (py_scope policy)) (rows (ms_claims s) v) = Inr (as, es)"
    using r by (simp_all add: reads_as_ledger_def)
  define hist where "hist = (recovery \<noteq> None)"
  let ?nc = "event_claim adm x i digest raw hist"
  obtain s' where s': "try_append (mem_facts env gen) v (AppendOne ?nc) n s = Inr ([stored_claim (''claim-'' @ gen (ms_drawn s)) v (n + 1) ?nc], s')"
    "protected_ok env gen v s'" "head s' v = n + 1"
    "rows (ms_claims s') v = rows (ms_claims s) v @ [stored_claim (''claim-'' @ gen (ms_drawn s)) v (n + 1) ?nc]"
    using mem_append_one[OF ok, of ?nc] h by (auto simp: plain_def event_claim_def new_claim_fact_def)
  have "event_decide e (mem_ledger env gen v policy) adm raw x digest recovery s s = Inr (n, Write (AppendOne ?nc))"
    unfolding mem_log.event_decide_on[OF mem_ledger_simps(1,2) ok mem_log.extends_log_refl[OF ok]]
    using n h l d(1-5) by (simp add: snapshot_on_def al_scope_def j_text_def hist_def)
  then have a: "append_event e (mem_ledger env gen v policy) adm raw alone s = (Inr ack, s')"
    unfolding event_loop[OF c] mem_ledger_simps thirty_two alone_fun commit_loop_alone
    using d(6) by (simp add: s'(1) stored_claim_def del: try_append.simps)
  have "canonical_record (an_codec e) raw = Inr x" "scope_confined x (scope_value (py_scope policy))" "aa_now adm \<le> max_integer"
    using c by (auto simp: event_check_Inr al_scope_def authorize_def res_bind_eq_Inr split: if_splits)
  then have "load_records e (scope_value (py_scope policy)) [stored_claim (''claim-'' @ gen (ms_drawn s)) v (n + 1) ?nc] =
      Inr ([], [\<lparr>sd_value = x, sd_seq = n + 1, sd_received_at = aa_now adm\<rparr>])"
    by (simp add: load_record_def stored_claim_def event_claim_def new_claim_fact_def check_scope_def ok_or_def j_number_def)
  from load_records_snoc[OF l this] a s' n show ?thesis by (auto simp: reads_as_ledger_def)
qed

section \<open>Objects\<close>

lemma set_bt_insert: "set (bt_insert k v m) \<subseteq> insert (k, v) (set m)"
  by (induction m) (auto split: if_splits)

lemma set_jobj: "set (fold (\<lambda>(k, v). bt_insert k v) kvs m) \<subseteq> set kvs \<union> set m"
proof (induction kvs arbitrary: m)
  case (Cons kv kvs)
  obtain k v where kv: "kv = (k, v)" by force
  from Cons.IH[of "bt_insert k v m"] set_bt_insert[of k v m] kv show ?case by auto
qed simp

lemma jobj_cases: obtains m where "jobj kvs = JObj m" "set m \<subseteq> set kvs"
  using set_jobj[of kvs "[]"] by (auto simp: jobj_def)

lemma json_bounded_jobj:
  assumes "n < 16" "list_all (\<lambda>kv. list_all (\<lambda>c. (of_char c :: nat) < 128) (fst kv) \<and> json_bounded (snd kv) (n + 1)) kvs"
  shows "json_bounded (jobj kvs) n"
proof -
  obtain m where m: "jobj kvs = JObj m" "set m \<subseteq> set kvs" by (rule jobj_cases)
  with assms show ?thesis by (auto simp: list_all_iff)
qed

lemma scope_confined_jobj:
  assumes "case map_of (rev kvs) ''scope'' of None \<Rightarrow> True | Some x \<Rightarrow> x = s" "list_all (\<lambda>kv. scope_confined (snd kv) s) kvs"
  shows "scope_confined (jobj kvs) s"
proof -
  obtain m where m: "jobj kvs = JObj m" "set m \<subseteq> set kvs" by (rule jobj_cases)
  have "map_of m ''scope'' = map_of (rev kvs) ''scope''" using jget_jobj[of kvs "''scope''"] m(1) by simp
  with assms m show ?thesis by (auto simp: list_all_iff)
qed

section \<open>The example\<close>

definition cell_scope :: scope where
  "cell_scope = \<lparr>sc_domain = ''d'', sc_tenant = ''t'', sc_deployment = ''p'', sc_cell = ''c''\<rparr>"

definition cell_policy :: action_policy where
  "cell_policy = \<lparr>py_schema_version = 1, py_profile = ACTION_PROFILE, py_scope = cell_scope,
     py_streams = [\<lparr>sg_stream_id = ''g'', sg_producer = ''gate'', sg_service = ''gate'', sg_generation = 1,
         sg_kinds = [''claim-created'', ''consumption-reserved'', ''predispatch'', ''send-intent'', ''outcome'']\<rparr>,
       \<lparr>sg_stream_id = ''c'', sg_producer = ''council'', sg_service = ''council'', sg_generation = 1, sg_kinds = [''approval-recorded'']\<rparr>],
     py_readers = [''gate''], py_recovery = []\<rparr>"

definition cell_admission :: "string \<Rightarrow> action_admission" where
  "cell_admission service = \<lparr>aa_identity = \<lparr>ri_origin = ''o'', ri_actor = ''a'', ri_origin_kind = ''service'',
       ri_principal_digest = ''sha256:'' @ replicate 64 (CHR ''0'')\<rparr>, aa_service = service, aa_tenant = ''t'', aa_deployment = ''p'',
     aa_now = 7, aa_can_record = True, aa_can_read = True\<rparr>"

text \<open>Every digest is the same in this example, and a record carries its own encoding in \<open>raw\<close>.\<close>

definition same_digest :: json where
  "same_digest = JStr ''sha256:00''"

definition cell_ref :: "string \<Rightarrow> json" where
  "cell_ref i = jobj [(''id'', JStr i)]"

definition cell_record :: "string \<Rightarrow> (string \<times> json) list \<Rightarrow> json" where
  "cell_record name kvs = jobj ([(''operation'', cell_ref ''op''), (''attempt'', cell_ref ''at''), (''request_digest'', same_digest),
     (''context_digest'', same_digest), (''raw'', JStr name)] @ kvs)"

definition cell_intent :: json where
  "cell_intent = jobj [(''raw'', JStr ''i''), (''actor'', JStr ''agent''), (''origin'', JStr ''person''), (''target'', JStr ''mail''),
     (''attachments'', JArr []), (''task'', jobj [(''root'', JStr ''root'')])]"

definition cell_context :: json where
  "cell_context = jobj [(''raw'', JStr ''x''), (''policy_digest'', same_digest), (''activation'', jobj [(''revision'', jnat 1)]),
     (''recovery'', jobj [(''revision'', jnat 1)])]"

definition cell_request :: json where
  "cell_request = cell_record ''r'' [(''type'', JStr ''action-request''), (''intent'', cell_intent), (''context'', cell_context),
     (''intent_digest'', same_digest)]"

definition cell_decision :: json where
  "cell_decision = cell_record ''d'' [(''type'', JStr ''action-decision''), (''outcome'', JStr ''approval-required''),
     (''obligations'', expected_obligations cell_request)]"

definition cell_approval :: json where
  "cell_approval = cell_record ''a'' [(''type'', JStr ''action-approval''), (''approval'', cell_ref ''ap''), (''decision_digest'', same_digest),
     (''approver'', jobj [(''kind'', JStr ''human''), (''id'', JStr ''boss'')]), (''issued_at'', jnat 5), (''expires_at'', jnat 9)]"

definition cell_payload :: "nat \<Rightarrow> json" where
  "cell_payload k =
    (let f = (\<lambda>kind kvs. cell_record (CHR ''p'' # replicate k (CHR ''i'')) ([(''kind'', JStr kind), (''activation_epoch'', jnat 1), (''recovery_epoch'', jnat 1)] @ kvs));
       claim = (''claim'', cell_ref ''cl''); worker = [(''worker'', JStr ''w''), (''worker_fence'', jnat 1)];
       sent = [(''invocation'', JStr ''inv''), (''effect_key'', JStr ''op'')] in
     if k = 0 then f ''approval-recorded'' [(''approval'', cell_ref ''ap''), (''approval_digest'', same_digest)]
     else if k = 1 then f ''claim-created'' [claim, (''grant_binding_digest'', same_digest)]
     else if k = 2 then f ''consumption-reserved'' ([claim, (''reservations'', JArr [])] @ worker)
     else if k = 3 then f ''predispatch'' [claim, (''consumption_event_digest'', same_digest)]
     else if k = 4 then f ''send-intent'' ([claim, (''predispatch_ack_digest'', same_digest), (''target'', JStr ''mail'')] @ worker @ sent)
     else f ''outcome'' ([claim, (''effect_status'', JStr ''unresolved'')] @ sent))"

definition cell_event :: "nat \<Rightarrow> json" where
  "cell_event k = jobj [(''raw'', JStr (CHR ''e'' # replicate k (CHR ''i''))), (''type'', JStr ''accountability-event''), (''scope'', scope_value cell_scope),
     (''stream'', jobj [(''scope'', scope_value cell_scope), (''kind'', JStr ''stream''), (''id'', JStr (if k = 0 then ''c'' else ''g''))]),
     (''event_id'', JStr (CHR ''e'' # replicate k (CHR ''i''))), (''source_generation'', jnat 1),
     (''sequence'', jnat (if k = 0 then 1 else k)), (''predecessor'', if k < 2 then JNull else same_digest),
     (''producer'', JStr (if k = 0 then ''council'' else ''gate'')), (''family'', JStr ''action''), (''kind'', jx (cell_payload k) ''kind''),
     (''occurred_at'', jnat 6), (''payload'', cell_payload k), (''payload_digest'', same_digest)]"

definition cell_ack :: "nat \<Rightarrow> json" where
  "cell_ack k = jobj [(''schema_version'', jnat 1), (''type'', JStr ''event-ack''), (''profile'', JStr ACTION_PROFILE),
     (''scope'', scope_value cell_scope), (''event_id'', JStr (CHR ''e'' # replicate k (CHR ''i''))), (''event_digest'', same_digest),
     (''payload_digest'', same_digest), (''ledger'', jobj [(''scope'', scope_value cell_scope), (''kind'', JStr ''ledger''), (''id'', JStr ''memv-'')]),
     (''position'', jnat (k + 4)), (''received_at'', jnat 7)]"

definition cell_table :: "(string \<times> json) list" where
  "cell_table = [(''i'', cell_intent), (''x'', cell_context), (''r'', cell_request), (''d'', cell_decision), (''a'', cell_approval),
     (''k'', cell_ack 3)] @ map (\<lambda>k. (CHR ''e'' # replicate k (CHR ''i''), cell_event k)) [0, 1, 2, 3, 4, 5]
     @ map (\<lambda>k. (CHR ''p'' # replicate k (CHR ''i''), cell_payload k)) [0, 1, 2, 3, 4, 5]"

definition cell_codec :: codec where
  "cell_codec = \<lparr>jc_parse = map_of cell_table,
     jc_bytes = (\<lambda>v. let k = (if v = cell_ack 3 then ''k'' else case jx v ''raw'' of JStr k \<Rightarrow> k | _ \<Rightarrow> []) in
        if map_of cell_table k = Some v then k else []),
     jc_sha = (\<lambda>_. ''00'')\<rparr>"

definition cell_schema :: "json \<Rightarrow> bool" where
  "cell_schema w \<longleftrightarrow> (jx w ''type'' = JStr ''accountability-event'' \<longrightarrow> (\<exists>scp i. jx w ''stream'' =
     jobj [(''scope'', scp), (''kind'', JStr ''stream''), (''id'', JStr i)]))"

definition cell_env :: action_env where
  "cell_env = \<lparr>an_codec = cell_codec, an_schema = Some cell_schema, an_profile = None\<rparr>"

lemma cell_codec_ok: "codec_ok (an_codec cell_env)"
  by (auto simp: codec_ok_def cell_env_def cell_codec_def cell_table_def Let_def split: if_splits)

lemma cell_stream_shape: "stream_shape cell_env"
  by (auto simp: stream_shape_def cell_env_def cell_schema_def)


section \<open>Facts about the records\<close>

lemma cell_scope_bounded: "n < 15 \<Longrightarrow> json_bounded (scope_value cell_scope) n"
  by (simp add: scope_value_def cell_scope_def json_bounded_jobj of_char_def)

lemma cell_bounded:
  "n < 10 \<Longrightarrow> json_bounded cell_intent n" "n < 10 \<Longrightarrow> json_bounded cell_context n" "n < 10 \<Longrightarrow> json_bounded cell_approval n"
  by (simp_all add: cell_intent_def cell_context_def cell_approval_def cell_record_def cell_ref_def same_digest_def json_bounded_jobj of_char_def
      jnat_def max_integer_def)

lemma cell_fields: "jx cell_intent ''target'' = JStr ''mail''" "jx cell_context ''policy_digest'' = JStr ''sha256:00''"
  by (simp_all add: cell_intent_def cell_context_def same_digest_def)

lemma cell_bounded_request: "json_bounded cell_request 0" "json_bounded cell_decision 0"
  using cell_bounded(1,2)[of 1]
  by (simp_all add: cell_fields cell_request_def cell_decision_def cell_record_def cell_ref_def same_digest_def json_bounded_jobj of_char_def
      expected_obligations_def jnat_def max_integer_def)

lemma cell_bounded_payload: "n < 10 \<Longrightarrow> k \<in> {0, 1, 2, 3, 4, 5} \<Longrightarrow> json_bounded (cell_payload k) n"
  by (auto simp: cell_payload_def Let_def cell_record_def cell_ref_def same_digest_def json_bounded_jobj of_char_def jnat_def max_integer_def)


definition cell_kind :: "nat \<Rightarrow> string" where
  "cell_kind k = (if k = 0 then ''approval-recorded'' else if k = 1 then ''claim-created'' else if k = 2 then ''consumption-reserved''
     else if k = 3 then ''predispatch'' else if k = 4 then ''send-intent'' else ''outcome'')"

lemma cell_payload_kind: "jx (cell_payload k) ''kind'' = JStr (cell_kind k)"
  by (simp add: cell_payload_def cell_record_def Let_def cell_kind_def)

lemma cell_bounded_event: "k \<in> {0, 1, 2, 3, 4, 5} \<Longrightarrow> json_bounded (cell_event k) 0"
proof -
  assume k: "k \<in> {0, 1, 2, 3, 4, 5}"
  then have "k \<le> max_integer" by (auto simp: max_integer_def)
  moreover have "(1 :: nat) \<le> max_integer" "(6 :: nat) \<le> max_integer" by (simp_all add: max_integer_def)
  moreover have "json_bounded (cell_payload k) 1" using cell_bounded_payload[OF _ k] by simp
  ultimately show ?thesis
    by (simp add: cell_event_def json_bounded_jobj cell_scope_bounded cell_payload_kind of_char_def jnat_def same_digest_def)
qed

lemma cell_bounded_ack: "json_bounded (cell_ack 3) 0"
  by (simp add: cell_ack_def json_bounded_jobj cell_scope_bounded of_char_def jnat_def max_integer_def same_digest_def)

section \<open>The codec\<close>

definition cell_known :: "string \<Rightarrow> json \<Rightarrow> bool" where
  "cell_known k v \<longleftrightarrow> canonical_record cell_codec k = Inr v \<and> jc_bytes cell_codec v = k"

lemma cell_knownI:
  assumes "map_of cell_table k = Some v" "jx v ''raw'' = JStr k" "json_bounded v 0" "is_object v" "length k \<le> 65536"
  shows "cell_known k v"
proof -
  have "jx (cell_ack 3) ''raw'' = JNull" by (simp add: cell_ack_def)
  with assms(2) have "v \<noteq> cell_ack 3" by auto
  with assms show ?thesis by (simp add: cell_known_def canonical_record_Inr) (simp add: cell_codec_def)
qed

lemma cell_known_ack: "cell_known ''k'' (cell_ack 3)"
proof -
  have "map_of cell_table ''k'' = Some (cell_ack 3)" by (simp add: cell_table_def)
  then show ?thesis using cell_bounded_ack
    by (simp add: cell_known_def canonical_record_Inr) (simp add: cell_codec_def cell_ack_def)
qed

lemma cell_known_records: "cell_known ''i'' cell_intent" "cell_known ''x'' cell_context" "cell_known ''r'' cell_request"
    "cell_known ''d'' cell_decision" "cell_known ''a'' cell_approval"
proof -
  have f: "jx cell_intent ''raw'' = JStr ''i''" "jx cell_context ''raw'' = JStr ''x''" "jx cell_request ''raw'' = JStr ''r''"
    "jx cell_decision ''raw'' = JStr ''d''" "jx cell_approval ''raw'' = JStr ''a''"
    by (simp_all add: cell_intent_def cell_context_def cell_request_def cell_decision_def cell_approval_def cell_record_def)
  have o: "is_object cell_intent" "is_object cell_context" "is_object cell_request" "is_object cell_decision" "is_object cell_approval"
    by (simp_all add: cell_intent_def cell_context_def cell_request_def cell_decision_def cell_approval_def cell_record_def)
  have m: "map_of cell_table ''i'' = Some cell_intent" "map_of cell_table ''x'' = Some cell_context" "map_of cell_table ''r'' = Some cell_request"
    "map_of cell_table ''d'' = Some cell_decision" "map_of cell_table ''a'' = Some cell_approval"
    by (simp_all add: cell_table_def)
  show "cell_known ''i'' cell_intent" "cell_known ''x'' cell_context" "cell_known ''r'' cell_request"
    "cell_known ''d'' cell_decision" "cell_known ''a'' cell_approval"
    by (simp_all add: cell_knownI m f o cell_bounded cell_bounded_request)
qed

lemma cell_known_events:
  assumes "k \<in> {0, 1, 2, 3, 4, 5}"
  shows "cell_known (CHR ''e'' # replicate k (CHR ''i'')) (cell_event k)" "cell_known (CHR ''p'' # replicate k (CHR ''i'')) (cell_payload k)"
proof -
  have l: "length (c # replicate k d) \<le> 65536" for c d :: char using assms by auto
  have m: "map_of cell_table (CHR ''e'' # replicate k (CHR ''i'')) = Some (cell_event k)"
    "map_of cell_table (CHR ''p'' # replicate k (CHR ''i'')) = Some (cell_payload k)"
    using assms by (auto simp: cell_table_def numeral_eq_Suc)
  have e: "jx (cell_event k) ''raw'' = JStr (CHR ''e'' # replicate k (CHR ''i''))" "is_object (cell_event k)"
    "jx (cell_payload k) ''raw'' = JStr (CHR ''p'' # replicate k (CHR ''i''))" "is_object (cell_payload k)"
    using assms by (auto simp: cell_event_def cell_payload_def cell_record_def Let_def)
  show "cell_known (CHR ''e'' # replicate k (CHR ''i'')) (cell_event k)" by (rule cell_knownI[OF m(1) e(1) cell_bounded_event[OF assms] e(2) l])
  show "cell_known (CHR ''p'' # replicate k (CHR ''i'')) (cell_payload k)" by (rule cell_knownI[OF m(2) e(3) cell_bounded_payload[OF _ assms] e(4) l]) simp
qed

lemma cell_digest: "cell_known k v \<Longrightarrow> action_digest cell_env domain v = Inr ''sha256:00''"
  by (auto simp: action_digest_def record_digest_Inr cell_known_def cell_env_def) (simp add: cell_codec_def)

lemma cell_differs: "cell_known k v \<Longrightarrow> digest_differs cell_env d domain v = Inr (d \<noteq> same_digest)"
  by (simp add: digest_differs_def cell_digest same_digest_def)

lemma cell_valid: "cell_known k v \<Longrightarrow> validate_action_record cell_env v =
     (if \<not> cell_schema v then Inl act_invalid
     else
     res_bind (j_text (jx v ''type'')) (\<lambda>ty.
     if ty = ''action-request'' then check_request cell_env v
     else if ty = ''action-approval'' then check_approval v
     else if ty = ''activation'' then check_activation cell_env v
     else if ty = ''accountability-event'' then check_event cell_env v
     else Inr ()))"
  by (auto simp: validate_action_record_def cell_known_def cell_env_def ok_or_def cong: if_cong)


section \<open>The calls are admitted\<close>

abbreviation cell_ledger :: "mem_state action_ledger" where
  "cell_ledger \<equiv> mem_ledger demo_env demo_gen ''memv-'' cell_policy"

lemma cell_identifiers: "act_identifier ''d''" "act_identifier ''t''" "act_identifier ''p''" "act_identifier ''c''" "act_identifier ''g''"
    "act_identifier ''gate''" "act_identifier ''council''" "act_identifier ''o''" "act_identifier ''a''"
  by code_simp+

lemma cell_hash: "act_hash (''sha256:'' @ replicate 64 (CHR ''0''))"
  by (simp add: act_hash_def byte_len_def starts_with_def ascii_digit_def sum_list_replicate)

lemma cell_policy_valid: "validate_policy cell_policy = Inr ()"
  by (simp add: validate_policy_def cell_policy_def scope_valid_def cell_scope_def cell_identifiers producer_allowed_def max_integer_def)

lemma cell_authorized: "authorize cell_ledger (cell_admission service) True = Inr ()"
  using cell_hash by (simp add: authorize_def cell_policy_valid cell_admission_def cell_identifiers max_integer_def)
    (simp add: cell_policy_def cell_scope_def)

lemma cell_scopes: "scope_value (py_scope cell_policy) = scope_value cell_scope" "al_scope cell_ledger = scope_value cell_scope"
  by (simp_all add: al_scope_def cell_policy_def)

lemma scope_value_confined: "scope_confined (scope_value sc) s"
  by (simp add: scope_value_def scope_confined_jobj)

lemma cell_confined:
  "scope_confined cell_intent (scope_value cell_scope)" "scope_confined cell_context (scope_value cell_scope)"
  "scope_confined cell_approval (scope_value cell_scope)" "scope_confined (cell_payload k) (scope_value cell_scope)"
  "scope_confined (cell_event k) (scope_value cell_scope)"
proof -
  note d = cell_intent_def cell_context_def cell_approval_def cell_record_def cell_ref_def same_digest_def jnat_def scope_confined_jobj
  show "scope_confined cell_intent (scope_value cell_scope)" "scope_confined cell_context (scope_value cell_scope)"
    "scope_confined cell_approval (scope_value cell_scope)" by (simp_all add: d)
  show p: "scope_confined (cell_payload k) (scope_value cell_scope)" by (simp add: d cell_payload_def Let_def)
  show "scope_confined (cell_event k) (scope_value cell_scope)"
    by (simp add: cell_event_def scope_confined_jobj scope_value_confined p cell_payload_kind same_digest_def jnat_def)
qed

lemma cell_confined_request: "scope_confined cell_request (scope_value cell_scope)" "scope_confined cell_decision (scope_value cell_scope)"
  by (simp_all add: cell_request_def cell_decision_def cell_record_def cell_ref_def same_digest_def jnat_def scope_confined_jobj cell_confined
      expected_obligations_def cell_fields)

lemma cell_types: "jx cell_request ''type'' = JStr ''action-request''" "jx cell_decision ''type'' = JStr ''action-decision''"
    "jx cell_approval ''type'' = JStr ''action-approval''" "jx (cell_event k) ''type'' = JStr ''accountability-event''"
  by (simp_all add: cell_request_def cell_decision_def cell_approval_def cell_event_def cell_record_def)

lemma cell_valid_artifacts: "validate_action_record cell_env cell_request = Inr ()" "validate_action_record cell_env cell_decision = Inr ()"
    "validate_action_record cell_env cell_approval = Inr ()"
proof -
  have s: "cell_schema cell_request" "cell_schema cell_decision" "cell_schema cell_approval" by (simp_all add: cell_schema_def cell_types)
  have "jx cell_request ''intent'' = cell_intent" "jx cell_request ''context'' = cell_context" "jx cell_request ''intent_digest'' = same_digest"
    "jx cell_request ''context_digest'' = same_digest" "jx cell_intent ''attachments'' = JArr []"
    by (simp_all add: cell_request_def cell_record_def cell_intent_def)
  then have "check_request cell_env cell_request = Inr ()"
    by (simp add: check_request_def refuse_if_Inr cell_differs[OF cell_known_records(1)] cell_differs[OF cell_known_records(2)] attachment_bytes_def
        refuse_if_def ok_or_def)
  then show "validate_action_record cell_env cell_request = Inr ()" by (simp add: cell_valid[OF cell_known_records(3)] s cell_types j_text_def)
  show "validate_action_record cell_env cell_decision = Inr ()" by (simp add: cell_valid[OF cell_known_records(4)] s cell_types j_text_def)
  have "check_approval cell_approval = Inr ()"
    by (simp add: check_approval_def cell_approval_def cell_record_def j_number_def max_integer_def checked_sub_def ok_or_def)
  then show "validate_action_record cell_env cell_approval = Inr ()" by (simp add: cell_valid[OF cell_known_records(5)] s cell_types j_text_def)
qed

lemma cell_valid_event:
  assumes "k \<in> {0, 1, 2, 3, 4, 5}"
  shows "validate_action_record cell_env (cell_event k) = Inr ()"
proof -
  have s: "cell_schema (cell_event k)" by (auto simp: cell_schema_def cell_event_def)
  have "jx (cell_event k) ''payload'' = cell_payload k" "jx (cell_event k) ''kind'' = JStr (cell_kind k)" "jx (cell_event k) ''payload_digest'' = same_digest"
    "jx (cell_event k) ''family'' = JStr ''action''" "jx (cell_event k) ''sequence'' = jnat (if k = 0 then 1 else k)"
    "jx (cell_event k) ''predecessor'' = (if k < 2 then JNull else same_digest)" "jx (cell_event k) ''producer'' = JStr (if k = 0 then ''council'' else ''gate'')"
    by (simp_all add: cell_event_def cell_payload_kind)
  moreover have "producer_allowed (cell_kind k) (if k = 0 then ''council'' else ''gate'')" "cell_kind k \<noteq> ''activation-applied''"
    "cell_kind k \<noteq> ''reconciliation''"
    by (simp_all add: producer_allowed_def cell_kind_def)
  moreover have "jx (cell_payload k) ''effect_status'' = JStr ''unresolved''" if "cell_kind k = ''outcome''"
    using that by (auto simp: cell_kind_def cell_payload_def cell_record_def Let_def split: if_splits)
  moreover have "(if k = 0 then 1 else k) = 1 \<longleftrightarrow> k < 2" by auto
  ultimately have "check_event cell_env (cell_event k) = Inr ()"
    by (auto simp: check_event_def Let_def refuse_if_def cell_differs[OF cell_known_events(2)[OF assms]] cell_payload_kind j_text_def jnat_eq_iff same_digest_def
        split: if_splits)
  then show ?thesis by (simp add: cell_valid[OF cell_known_events(1)[OF assms]] s cell_types j_text_def)
qed


section \<open>The calls\<close>

lemma cell_canonical: "cell_known k v \<Longrightarrow> canonical_record (an_codec cell_env) k = Inr v"
  by (simp add: cell_known_def cell_env_def)

lemma cell_archive_check:
  assumes "cell_known k v" "validate_action_record cell_env v = Inr ()" "scope_confined v (scope_value cell_scope)" "jx v ''type'' = JStr kind"
    "archive_owner cell_ledger service kind"
  shows "archive_check cell_env cell_ledger (cell_admission service) k = Inr (v, kind, ''sha256:00'')"
  using assms by (simp add: archive_check_Inr cell_authorized cell_canonical cell_scopes cell_digest) (simp add: cell_admission_def)

definition cell_service :: "nat \<Rightarrow> string" where
  "cell_service k = (if k = 0 then ''council'' else ''gate'')"

lemma cell_event_check:
  assumes k: "k \<in> {0, 1, 2, 3, 4, 5}"
  shows "event_check cell_env cell_ledger (cell_admission (cell_service k)) (CHR ''e'' # replicate k (CHR ''i'')) = Inr (cell_event k, ''sha256:00'', None)"
proof -
  note n = cell_known_events(1)[OF k]
  have f: "jx (cell_event k) ''kind'' = JStr (cell_kind k)" "jx (jx (cell_event k) ''stream'') ''id'' = JStr (if k = 0 then ''c'' else ''g'')"
    "jx (cell_event k) ''source_generation'' = jnat 1" "jx (cell_event k) ''producer'' = JStr (if k = 0 then ''council'' else ''gate'')"
    by (simp_all add: cell_event_def cell_payload_kind)
  have "event_admission cell_ledger (cell_admission (cell_service k)) (cell_event k) ''sha256:00'' = Inr None"
    using k by (auto simp: event_admission_def f j_text_def j_number_def max_integer_def policy_stream_def cell_policy_def refuse_if_def ok_or_def
        cell_kind_def cell_service_def cell_admission_def)
  then show ?thesis
    by (simp add: event_check_Inr cell_authorized cell_canonical[OF n] cell_valid_event[OF k] cell_types cell_confined cell_scopes cell_digest[OF n])
qed

definition cell_artifacts :: "stored_record list" where
  "cell_artifacts = [\<lparr>sd_value = cell_request, sd_seq = 1, sd_received_at = 7\<rparr>, \<lparr>sd_value = cell_decision, sd_seq = 2, sd_received_at = 7\<rparr>,
     \<lparr>sd_value = cell_approval, sd_seq = 3, sd_received_at = 7\<rparr>]"

definition cell_stored :: "nat \<Rightarrow> stored_record list" where
  "cell_stored n = map (\<lambda>k. \<lparr>sd_value = cell_event k, sd_seq = k + 4, sd_received_at = 7\<rparr>) [0..<n]"

abbreviation cell_reads :: "mem_state \<Rightarrow> nat \<Rightarrow> stored_record list \<Rightarrow> stored_record list \<Rightarrow> bool" where
  "cell_reads \<equiv> reads_as_ledger cell_env cell_policy demo_env demo_gen ''memv-''"

lemma cell_now: "aa_now (cell_admission s) = 7"
  by (simp add: cell_admission_def)

lemma cell_start: "cell_reads demo_root 0 [] []"
proof -
  have "mem_ok demo_env demo_gen demo_root" using reachable_ok demo_reach_root inj_demo_gen demo_env_ok by blast
  moreover have "head demo_root ''memv-'' = 0" by simp
  ultimately show ?thesis by (simp add: reads_as_ledger_def protected_ok_def demo_env_ok inj_demo_gen rows_def)
qed


section \<open>The checks against the recorded\<close>

lemma cell_payload_fields: "jx (cell_payload k) ''operation'' = cell_ref ''op''" "jx (cell_payload k) ''attempt'' = cell_ref ''at''"
    "jx (cell_payload k) ''request_digest'' = same_digest" "jx (cell_payload k) ''context_digest'' = same_digest"
    "jx (cell_payload k) ''claim'' = (if k = 0 then JNull else cell_ref ''cl'')" "jget (cell_payload k) ''grant'' = None"
    "jx (cell_payload k) ''activation_epoch'' = jnat 1" "jx (cell_payload k) ''recovery_epoch'' = jnat 1"
  by (simp_all add: cell_payload_def cell_record_def Let_def)

lemma cell_event_fields: "jx (cell_event k) ''payload'' = cell_payload k" "jx (cell_event k) ''kind'' = JStr (cell_kind k)"
    "jx (cell_event k) ''family'' = JStr ''action''" "jx (cell_event k) ''event_id'' = JStr (CHR ''e'' # replicate k (CHR ''i''))"
    "jx (cell_event k) ''sequence'' = jnat (if k = 0 then 1 else k)" "jx (cell_event k) ''predecessor'' = (if k < 2 then JNull else same_digest)"
    "jx (cell_event k) ''payload_digest'' = same_digest"
  by (simp_all add: cell_event_def cell_payload_kind)

lemma cell_kind_inj: "j < k \<Longrightarrow> k < 6 \<Longrightarrow> cell_kind j \<noteq> cell_kind k"
  by (auto simp: cell_kind_def)

lemma cell_conflicts: "j < k \<Longrightarrow> k < 6 \<Longrightarrow> conflicts (cell_event j) (cell_event k) = Inr False"
  using cell_kind_inj[of j k] by (simp add: conflicts_def cell_event_fields action_conflict_def cell_payload_fields cell_payload_kind)

lemma event_scan_ok: "\<forall>r \<in> set es. jx (sd_value r) ''event_id'' \<noteq> jx x ''event_id'' \<and> conflicts (sd_value r) x = Inr False \<Longrightarrow>
    event_scan x es l = Inr (Inr (fold (later_of x) (map sd_value es) l))"
  by (induction es arbitrary: l) auto

lemma cell_in_stream: "in_stream_of (cell_event k) (cell_event j) \<longleftrightarrow> (j = 0 \<longleftrightarrow> k = 0)"
proof -
  have "jx (cell_event n) ''stream'' = jobj [(''scope'', scope_value cell_scope), (''kind'', JStr ''stream''), (''id'', JStr (if n = 0 then ''c'' else ''g''))]" for n
    by (simp add: cell_event_def)
  moreover have "a = b" if "jobj [(''scope'', scope_value cell_scope), (''kind'', JStr ''stream''), (''id'', JStr a)] =
      jobj [(''scope'', scope_value cell_scope), (''kind'', JStr ''stream''), (''id'', JStr b)]" for a b
  proof -
    have "jx (jobj [(''scope'', scope_value cell_scope), (''kind'', JStr ''stream''), (''id'', JStr a)]) ''id'' =
      jx (jobj [(''scope'', scope_value cell_scope), (''kind'', JStr ''stream''), (''id'', JStr b)]) ''id''" by (simp only: that)
    then show ?thesis by simp
  qed
  moreover have "jx (cell_event j) ''source_generation'' = jx (cell_event k) ''source_generation''" by (simp add: cell_event_def)
  ultimately show ?thesis unfolding in_stream_of_def by (cases "j = 0"; cases "k = 0") (simp_all, blast+)
qed

lemma cell_last: "0 < k \<Longrightarrow> fold (later_of (cell_event k)) (map cell_event [0..<n]) None = (if n \<le> 1 then None else Some (cell_event (n - 1)))"
proof (induction n)
  case (Suc n)
  then show ?case by (cases "n \<le> 1") (auto simp: later_of_def cell_in_stream cell_event_fields)
qed simp

lemma cell_scan:
  assumes "k < 6"
  shows "event_scan (cell_event k) (cell_stored k) None = Inr (Inr (if k \<le> 1 then None else Some (cell_event (k - 1))))"
proof -
  have "replicate j (CHR ''i'') \<noteq> replicate k (CHR ''i'')" if "j < k" for j using that by (simp add: replicate_eq_replicate)
  then have "event_scan (cell_event k) (cell_stored k) None = Inr (Inr (fold (later_of (cell_event k)) (map sd_value (cell_stored k)) None))"
    using assms by (intro event_scan_ok) (auto simp: cell_stored_def cell_event_fields cell_conflicts)
  moreover have "map sd_value (cell_stored k) = map cell_event [0..<k]" by (simp add: cell_stored_def)
  ultimately show ?thesis using cell_last[of k k] by (cases "k = 0") simp_all
qed

lemma cell_index: "k < 6 \<Longrightarrow> k \<in> {0, 1, 2, 3, 4, 5 :: nat}"
  by auto

lemma cell_sequence:
  assumes "k < 6"
  shows "check_sequence cell_env (cell_event k) (if k \<le> 1 then None else Some (cell_event (k - 1))) = Inr ()"
proof (cases "k \<le> 1")
  case True
  then have "k = 0 \<or> k = 1" by auto
  then show ?thesis by (auto simp: check_sequence_def cell_event_fields)
next
  case False
  then obtain m where m: "k = Suc m" "m \<noteq> 0" by (cases k) auto
  with assms have "m \<in> {0, 1, 2, 3, 4, 5}" by auto
  note d = cell_differs[OF cell_known_events(1)[OF this]]
  have "Suc m \<le> max_integer" using assms m by (simp add: max_integer_def)
  with m show ?thesis by (simp add: check_sequence_def cell_event_fields refuse_if_def d j_number_def)
qed

lemma cell_prior:
  assumes "j < n" "n \<le> 6"
  shows "prior_event (cell_payload k) (cell_stored n) (cell_kind j) = Inr \<lparr>sd_value = cell_event j, sd_seq = j + 4, sd_received_at = 7\<rparr>"
proof -
  have "find P (map f [0..<n]) = Some (f j)" if "P (f j)" "\<And>i. i < j \<Longrightarrow> \<not> P (f i)" for P and f :: "nat \<Rightarrow> stored_record"
  proof -
    show ?thesis using assms(1) that by (auto simp: find_Some_iff intro!: exI[of _ j])
  qed
  then show ?thesis
    using assms cell_kind_inj[of _ j] unfolding prior_event_def cell_stored_def
    by (simp add: cell_event_fields same_attempt_def cell_payload_fields ok_or_def)
qed


lemma cell_request_fields: "jx cell_request ''operation'' = cell_ref ''op''" "jx cell_request ''attempt'' = cell_ref ''at''"
    "jx cell_request ''context_digest'' = same_digest" "jx cell_request ''intent'' = cell_intent" "jx cell_request ''context'' = cell_context"
    "jx cell_decision ''operation'' = cell_ref ''op''" "jx cell_decision ''attempt'' = cell_ref ''at''" "jx cell_decision ''outcome'' = JStr ''approval-required''"
    "jx cell_approval ''operation'' = cell_ref ''op''" "jx cell_approval ''attempt'' = cell_ref ''at''" "jx cell_approval ''approval'' = cell_ref ''ap''"
    "jx cell_decision ''request_digest'' = same_digest" "jx cell_decision ''context_digest'' = same_digest"
    "jx cell_approval ''request_digest'' = same_digest" "jx cell_approval ''context_digest'' = same_digest"
    "jx cell_approval ''decision_digest'' = same_digest" "jx (cell_ref i) ''id'' = JStr i"
    "jx (jx cell_context ''activation'') ''revision'' = jnat 1" "jx (jx cell_context ''recovery'') ''revision'' = jnat 1"
    "jx cell_intent ''actor'' = JStr ''agent''" "jx cell_intent ''origin'' = JStr ''person''"
  by (simp_all add: cell_request_def cell_decision_def cell_approval_def cell_record_def cell_ref_def cell_context_def cell_intent_def)

lemma cell_approver: "jx cell_approval ''approver'' = jobj [(''kind'', JStr ''human''), (''id'', JStr ''boss'')]"
  by (simp add: cell_approval_def cell_record_def)

lemma cell_request_for:
  assumes "jx w ''operation'' = cell_ref ''op''" "jx w ''attempt'' = cell_ref ''at''" "jx w ''request_digest'' = same_digest" "jx w ''context_digest'' = same_digest"
    "as = \<lparr>sd_value = cell_request, sd_seq = 1, sd_received_at = 7\<rparr> # rest"
  shows "request_for cell_env w as = Inr cell_request"
  using assms by (simp add: request_for_def artifact_for_def cell_types cell_request_fields ok_or_def refuse_if_def cell_differs[OF cell_known_records(3)])

lemma cell_prerequisites:
  assumes "k < 6"
  shows "prerequisites cell_env cell_ledger (cell_event k) cell_artifacts (cell_stored k) = Inr ()"
proof -
  note kk = cell_index[OF assms]
  have q: "request_for cell_env (cell_payload k) cell_artifacts = Inr cell_request"
    by (rule cell_request_for) (simp_all add: cell_payload_fields cell_artifacts_def)
  have a: "artifact_for ''action-approval'' (cell_payload k) cell_artifacts = Inr cell_approval"
    by (simp add: artifact_for_def cell_artifacts_def cell_types cell_payload_fields cell_request_fields ok_or_def)
  have p: "prior_event (cell_payload k) (cell_stored k) (cell_kind j) = Inr \<lparr>sd_value = cell_event j, sd_seq = j + 4, sd_received_at = 7\<rparr>"
    if "j < k" for j using cell_prior[OF that] assms by simp
  note p0 = p[of 0, unfolded cell_kind_def, simplified] and p1 = p[of 1, unfolded cell_kind_def, simplified]
    and p2 = p[of 2, unfolded cell_kind_def, simplified] and p3 = p[of 3, unfolded cell_kind_def, simplified]
    and p4 = p[of 4, unfolded cell_kind_def, simplified]
  have approval: "check_approval_recorded cell_env (cell_payload 0) cell_artifacts = Inr ()" if "k = 0"
    using a that by (simp add: check_approval_recorded_def cell_request_fields refuse_if_def cell_differs[OF cell_known_records(5)])
      (simp add: cell_payload_def cell_record_def Let_def)
  have claim: "check_claim_created (cell_payload 1) (cell_stored 1) = Inr ()" if "k = 1"
    using p0 that by (simp add: check_claim_created_def cell_payload_fields) (simp add: cell_payload_def cell_record_def Let_def)
  have grant: "check_grant (cell_payload k) es = Inr ()" for es by (simp add: check_grant_def cell_payload_fields)
  have consumption: "check_consumption cell_request (cell_payload 2) = Inr ()"
    by (simp add: check_consumption_def ok_or_def) (simp add: cell_payload_def cell_record_def Let_def)
  have predispatch: "check_predispatch cell_env (cell_payload 3) (cell_stored 3) = Inr ()" if "k = 3"
    using p2 that by (simp add: check_predispatch_def refuse_if_def cell_differs[OF cell_known_events(1)])
      (simp add: cell_payload_def cell_record_def Let_def)
  have ack: "acknowledgement cell_env cell_ledger (cell_event 3) 7 7 = Inr (cell_ack 3)"
    by (simp add: acknowledgement_def cell_digest[OF cell_known_events(1)] cell_event_fields cell_scopes cell_ack_def same_digest_def)
  have sent: "check_send_intent cell_env cell_ledger cell_request (cell_payload 4) (cell_stored 4) = Inr ()" if "k = 4"
    using p2 p3 that by (simp add: check_send_intent_def ack cell_event_fields refuse_if_def cell_differs[OF cell_known_ack] cell_request_fields cell_fields)
      (simp add: cell_payload_def cell_record_def Let_def)
  have outcome: "check_outcome (cell_payload 5) (cell_stored 5) = Inr ()" if "k = 5"
    using p4 that by (simp add: check_outcome_def Let_def cell_event_fields) (simp add: cell_payload_def cell_record_def Let_def)
  show ?thesis
    unfolding prerequisites_def Let_def cell_event_fields
    using kk p1 grant[of "cell_stored k"] approval claim consumption predispatch sent outcome
    by (auto simp: q cell_payload_fields cell_request_fields cell_kind_def j_text_def cell_event_fields)
qed


section \<open>The run\<close>

definition after_call :: "ledger_call \<Rightarrow> mem_state \<Rightarrow> mem_state" where
  "after_call c s = snd (carry_out cell_env cell_ledger c alone s)"

definition cell_archive :: "(string \<times> string) list" where
  "cell_archive = [(''gate'', ''r''), (''gate'', ''d''), (''council'', ''a'')]"

definition cell_record_call :: "nat \<Rightarrow> ledger_call" where
  "cell_record_call k = Record (cell_admission (cell_service k)) (CHR ''e'' # replicate k (CHR ''i''))"

definition cell_state :: "nat \<Rightarrow> mem_state" where
  "cell_state n = fold after_call (map (\<lambda>(service, raw). Archive (cell_admission service) raw) cell_archive @ map cell_record_call [0..<n]) demo_root"

lemma after_call_reach: "ledger_reaches cell_env demo_env demo_gen ''memv-'' s \<Longrightarrow> ledger_reaches cell_env demo_env demo_gen ''memv-'' (after_call c s)"
proof -
  assume r: "ledger_reaches cell_env demo_env demo_gen ''memv-'' s"
  have "action_step cell_env demo_env demo_gen ''memv-'' s (after_call c s)"
    unfolding after_call_def by (rule action_step.call[OF prod.collapse[symmetric]])
  with r show ?thesis unfolding ledger_reaches_def by (meson rtranclp.rtrancl_into_rtrancl)
qed

lemma fold_reach: "ledger_reaches cell_env demo_env demo_gen ''memv-'' s \<Longrightarrow> ledger_reaches cell_env demo_env demo_gen ''memv-'' (fold after_call cs s)"
  by (induction cs arbitrary: s) (simp_all add: after_call_reach)

lemma cell_reach: "ledger_reaches cell_env demo_env demo_gen ''memv-'' (cell_state n)"
proof -
  have "protected_ok demo_env demo_gen ''memv-'' demo_root" using cell_start by (simp add: reads_as_ledger_def)
  moreover have "rows (ms_claims demo_root) ''memv-'' = []" by (simp add: rows_def)
  ultimately have "ledger_reaches cell_env demo_env demo_gen ''memv-'' demo_root" unfolding ledger_reaches_def by blast
  then show ?thesis unfolding cell_state_def by (rule fold_reach)
qed

lemma cell_archived: "cell_reads (cell_state 0) 3 cell_artifacts []"
proof -
  have own: "archive_owner cell_ledger ''gate'' ''action-request''" "archive_owner cell_ledger ''gate'' ''action-decision''"
    "archive_owner cell_ledger ''council'' ''action-approval''" by (simp_all add: archive_owner_def cell_policy_def)
  note c1 = cell_archive_check[OF cell_known_records(3) cell_valid_artifacts(1) cell_confined_request(1) cell_types(1) own(1)]
  note c2 = cell_archive_check[OF cell_known_records(4) cell_valid_artifacts(2) cell_confined_request(2) cell_types(2) own(2)]
  note c3 = cell_archive_check[OF cell_known_records(5) cell_valid_artifacts(3) cell_confined(3) cell_types(3) own(3)]
  note keys = artifact_key_of_def cell_types cell_request_fields j_text_def
  have lt: "(0 :: nat) < max_integer" "(1 :: nat) < max_integer" "(2 :: nat) < max_integer" by (simp_all add: max_integer_def)
  let ?r = "\<lparr>sd_value = cell_request, sd_seq = 1, sd_received_at = 7\<rparr>" and ?d = "\<lparr>sd_value = cell_decision, sd_seq = 2, sd_received_at = 7\<rparr>"
  have s1: "cell_reads (after_call (Archive (cell_admission ''gate'') ''r'') demo_root) 1 [?r] []"
    using archive_done[OF cell_start lt(1) c1] by (auto simp: validate_archive_def cell_types j_text_def cell_now after_call_def)
  have "check_decision cell_env cell_decision [?r] = Inr ()"
    by (simp add: check_decision_def cell_request_for[where rest = "[]"] cell_request_fields) (simp add: cell_decision_def cell_record_def)
  then have s2: "cell_reads (after_call (Archive (cell_admission ''gate'') ''d'') (after_call (Archive (cell_admission ''gate'') ''r'') demo_root)) 2 [?r, ?d] []"
    using archive_done[OF s1 lt(2) c2] by (auto simp: validate_archive_def keys cell_now after_call_def numeral_2_eq_2)
  have "check_archived_approval cell_env cell_approval [?r, ?d] = Inr ()"
    by (simp add: check_archived_approval_def cell_request_for[where rest = "[?d]"] cell_request_fields artifact_for_def cell_types ok_or_def refuse_if_def
        cell_differs[OF cell_known_records(4)] cell_approver jobj_def)
  then show ?thesis
    using archive_done[OF s2 lt(3) c3]
    by (auto simp: validate_archive_def keys cell_now after_call_def cell_state_def cell_archive_def cell_artifacts_def numeral_eq_Suc)
qed

lemma cell_recorded: "k \<le> 6 \<Longrightarrow> cell_reads (cell_state k) (k + 3) cell_artifacts (cell_stored k)"
  and cell_acknowledged: "k < 6 \<Longrightarrow> \<exists>ack. append_event cell_env cell_ledger (cell_admission (cell_service k)) (CHR ''e'' # replicate k (CHR ''i'')) alone
    (cell_state k) = (Inr ack, cell_state (Suc k))"
proof -
  have step: "\<exists>ack. append_event cell_env cell_ledger (cell_admission (cell_service k)) (CHR ''e'' # replicate k (CHR ''i'')) alone
      (cell_state k) = (Inr ack, cell_state (Suc k)) \<and> cell_reads (cell_state (Suc k)) (Suc k + 3) cell_artifacts (cell_stored (Suc k))"
    if k: "k < 6" and r: "cell_reads (cell_state k) (k + 3) cell_artifacts (cell_stored k)" for k
  proof -
    have n: "k + 3 < max_integer" using k by (simp add: max_integer_def)
    obtain ack where ack: "acknowledgement cell_env cell_ledger (cell_event k) (k + 3 + 1) (aa_now (cell_admission (cell_service k))) = Inr ack"
      by (simp add: acknowledgement_def cell_digest[OF cell_known_events(1)[OF cell_index[OF k]]])
    have s: "cell_state (Suc k) = after_call (cell_record_call k) (cell_state k)" by (simp add: cell_state_def)
    from record_done[OF r n cell_event_check[OF cell_index[OF k]] cell_scan[OF k] cell_sequence[OF k] cell_prerequisites[OF k] _ cell_event_fields(4) ack]
    show ?thesis unfolding s after_call_def cell_record_call_def carry_out.simps
      by (auto simp: check_recovery_def cell_stored_def cell_now add.commute[of 4 k])
  qed
  show r: "cell_reads (cell_state k) (k + 3) cell_artifacts (cell_stored k)" if "k \<le> 6" for k
    using that
  proof (induction k)
    case 0
    show ?case using cell_archived by (simp add: cell_stored_def)
  next
    case (Suc k)
    then show ?case using step[of k] by auto
  qed
  show "\<exists>ack. append_event cell_env cell_ledger (cell_admission (cell_service k)) (CHR ''e'' # replicate k (CHR ''i'')) alone
    (cell_state k) = (Inr ack, cell_state (Suc k))" if "k < 6" for k using step[OF that r] that by auto
qed

lemma cell_events: "events_of cell_env ''memv-'' (cell_state 6) = map cell_event [0, 1, 2, 3, 4, 5]"
proof -
  have "load_records cell_env (scope_value (py_scope cell_policy)) (rows (ms_claims (cell_state 6)) ''memv-'') = Inr (cell_artifacts, cell_stored 6)"
    using cell_recorded[of 6] by (simp add: reads_as_ledger_def)
  from load_records_Inr[OF this] show ?thesis by (simp add: events_of_def cell_stored_def o_def upt_rec numeral_eq_Suc)
qed

section \<open>Witnesses\<close>

text \<open>Another task records an event between the last read of the first attempt and its write.\<close>

definition cell_others :: "ledger_call \<Rightarrow> nat \<Rightarrow> mem_state \<Rightarrow> mem_state" where
  "cell_others c k s = (if k = 127 then after_call c s else s)"

lemma cell_others_run: "ledger_run cell_env demo_env demo_gen ''memv-'' s (cell_others c k s)"
proof -
  have "action_step cell_env demo_env demo_gen ''memv-'' s (after_call c s)"
    unfolding after_call_def by (rule action_step.call[OF prod.collapse[symmetric]])
  then show ?thesis by (auto simp: cell_others_def)
qed

lemma ledger_calls_atomic_witness:
  "\<exists>r s'. carry_out cell_env cell_ledger (cell_record_call 1) (cell_others (cell_record_call 0)) (cell_state 0) = (r, s') \<and>
    settles (cell_others (cell_record_call 0)) (carry_out cell_env cell_ledger (cell_record_call 1) alone) (cell_state 0) r s'"
proof -
  obtain r s' where c: "carry_out cell_env cell_ledger (cell_record_call 1) (cell_others (cell_record_call 0)) (cell_state 0) = (r, s')" by force
  have n: "cell_record_call 1 \<noteq> Apply en t pf" for en t pf by (simp add: cell_record_call_def)
  from ledger_calls_atomic[OF cell_codec_ok reaches_protected_ok[OF cell_reach] cell_others_run c] c n show ?thesis by blast
qed

lemma event_streams_chained_witness: "distinct (map (\<lambda>x. jx x ''event_id'') (events_of cell_env ''memv-'' (cell_state 6)))"
  using event_streams_chained[OF cell_codec_ok cell_stream_shape cell_reach] by blast

lemma one_account_per_attempt_witness: "same_attempt (cell_payload 1) (cell_payload 5)"
proof -
  have e: "events_of cell_env ''memv-'' (cell_state 6) ! 1 = cell_event 1" "events_of cell_env ''memv-'' (cell_state 6) ! 5 = cell_event 5"
    by (simp_all add: cell_events)
  have "(1 :: nat) < 5" "5 < length (events_of cell_env ''memv-'' (cell_state 6))" by (simp_all add: cell_events)
  from one_account_per_attempt[OF cell_codec_ok cell_stream_shape cell_reach this refl refl] show ?thesis
    unfolding e cell_event_fields cell_payload_fields by blast
qed

lemma outcome_was_authorised_witness:
  "\<exists>q w. {q, w} \<subseteq> set (artifacts_of cell_env ''memv-'' (cell_state 6)) \<and> requested_by cell_env (cell_payload 5) q \<and>
     of_attempt ''action-approval'' (cell_payload 5) w \<and> jx w ''approver'' \<noteq> jx (jx q ''intent'') ''actor''"
proof -
  have e: "events_of cell_env ''memv-'' (cell_state 6) ! 5 = cell_event 5" by (simp add: cell_events)
  have l: "5 < length (events_of cell_env ''memv-'' (cell_state 6))" by (simp add: cell_events)
  have k: "jx (events_of cell_env ''memv-'' (cell_state 6) ! 5) ''kind'' = JStr ''outcome''"
    unfolding e cell_event_fields by (simp add: cell_kind_def)
  have p: "cell_payload 5 = jx (events_of cell_env ''memv-'' (cell_state 6) ! 5) ''payload''" unfolding e cell_event_fields by (rule refl)
  from outcome_was_authorised[OF cell_codec_ok cell_stream_shape cell_reach l k p] show ?thesis by blast
qed

text \<open>The outcome is sent again, and the claim that was recorded before it.\<close>

lemma record_idempotent_witness:
  "\<exists>ack. append_event cell_env cell_ledger (cell_admission ''gate'') ''eiiii'' alone (cell_state 6) = (Inr ack, cell_state 6)"
proof -
  have c: "event_check cell_env cell_ledger (cell_admission ''gate'') ''eiiii'' = Inr (cell_event 4, ''sha256:00'', None)"
    using cell_event_check[of 4] by (simp add: cell_service_def numeral_eq_Suc)
  obtain ack where a: "append_event cell_env cell_ledger (cell_admission ''gate'') ''eiiii'' alone (cell_state 4) = (Inr ack, cell_state 5)"
    using cell_acknowledged[of 4] by (auto simp: cell_service_def numeral_eq_Suc)
  have "cell_state 6 = after_call (cell_record_call 5) (cell_state 5)" by (simp add: cell_state_def upt_rec numeral_eq_Suc)
  then have run: "ledger_run cell_env demo_env demo_gen ''memv-'' (cell_state 5) (cell_state 6)"
    using cell_others_run[of _ "cell_record_call 5" 127] by (simp add: cell_others_def)
  have r: "protected_ok demo_env demo_gen ''memv-'' (cell_state 6)" "head (cell_state 6) ''memv-'' = 9"
    "load_records cell_env (scope_value (py_scope cell_policy)) (rows (ms_claims (cell_state 6)) ''memv-'') = Inr (cell_artifacts, cell_stored 6)"
    using cell_recorded[of 6] by (simp_all add: reads_as_ledger_def)
  then have rd: "ledger_snapshot cell_env cell_ledger (cell_state 6) (cell_state 6) = Inr (9, cell_artifacts, cell_stored 6)"
    by (simp add: ledger_read max_integer_def)
  from record_idempotent[OF cell_codec_ok cell_stream_shape cell_reach c a run rd c refl] show ?thesis by auto
qed

end
