(* ===== verification/Activation_Run.thy ===== *)
theory Activation_Run
  imports Action_Run
begin

text \<open>
  A concrete activation history: the server is enrolled at epoch 1 and two ratified transitions are
  applied, each with its paused gate and its applied registry. The digests of its records are distinct.
\<close>

section \<open>The records\<close>

definition sw_name :: "char \<Rightarrow> nat \<Rightarrow> string" where
  "sw_name c k = [c, if k = 0 then CHR ''0'' else CHR ''1'']"

definition sw_digest :: "string \<Rightarrow> json" where
  "sw_digest name = JStr (''sha256:'' @ name)"

definition sw_policy :: action_policy where
  "sw_policy = \<lparr>py_schema_version = 1, py_profile = ACTION_PROFILE, py_scope = cell_scope,
     py_streams = [\<lparr>sg_stream_id = ''s'', sg_producer = ''server'', sg_service = ''server'', sg_generation = 1, sg_kinds = [''activation-applied'']\<rparr>,
       \<lparr>sg_stream_id = ''c'', sg_producer = ''council'', sg_service = ''council'', sg_generation = 1, sg_kinds = [''approval-recorded'']\<rparr>],
     py_readers = [], py_recovery = []\<rparr>"

definition sw_enrollment :: activation_enrollment where
  "sw_enrollment = \<lparr>ac_initial_epoch = 1, ac_initial_artifact_set_digest = ''sha256:'' @ replicate 64 (CHR ''0''), ac_service = ''server'',
     ac_coordinator = ''council'', ac_stream_id = ''s''\<rparr>"

definition sw_enrolled :: json where
  "sw_enrolled = jobj [(''scope'', scope_value cell_scope), (''initial_epoch'', jnat 1),
     (''initial_artifact_set_digest'', sw_digest (replicate 64 (CHR ''0'')))]"

definition sw_profile :: json where
  "sw_profile = jobj [(''profile'', JStr ''v1'')]"

definition sw_artifacts :: json where
  "sw_artifacts = jobj [(''artifacts'', JArr [])]"

definition sw_participants :: json where
  "sw_participants = jobj [(''participants'', activation_participants)]"

definition sw_transition :: "nat \<Rightarrow> json" where
  "sw_transition k = jobj [(''type'', JStr ''activation''), (''transition'', cell_ref (sw_name (CHR ''k'') k)),
     (''prior_epoch'', jnat (k + 1)), (''successor_epoch'', jnat (k + 2)), (''profile_digest'', sw_digest ''o0''), (''artifacts'', JArr []),
     (''prior_artifact_set_digest'', if k = 0 then sw_digest (replicate 64 (CHR ''0'')) else sw_digest ''m0''),
     (''artifact_set_digest'', sw_digest ''m0''), (''participants'', activation_participants), (''participant_set_digest'', sw_digest ''n0''),
     (''not_before'', jnat 1), (''expires_at'', jnat 90)]"

definition sw_receipt :: "nat \<Rightarrow> (string \<times> json) list \<Rightarrow> json" where
  "sw_receipt k owner = jobj ([(''schema_version'', jnat 1), (''profile'', JStr ACTION_PROFILE), (''type'', JStr ''activation-receipt''),
     (''participant'', JStr ''server''), (''phase'', JStr ''applied''), (''transition_digest'', sw_digest (sw_name (CHR ''t'') k))]
     @ map (\<lambda>x. (x, jx (sw_transition k) x)) receipt_keys @ owner)"

definition sw_paused :: "(string \<times> json) list" where
  "sw_paused = [(''participant'', JStr ''gate''), (''phase'', JStr ''paused'')]"

definition sw_registered :: "(string \<times> json) list" where
  "sw_registered = [(''participant'', JStr ''registry''), (''phase'', JStr ''applied'')]"

definition sw_payload :: "nat \<Rightarrow> json" where
  "sw_payload k = jobj [(''kind'', JStr ''activation-applied''), (''receipt'', sw_receipt k [])]"

definition sw_applied :: "nat \<Rightarrow> json" where
  "sw_applied k = jobj [(''receipt'', sw_receipt k [])]"

definition sw_event :: "nat \<Rightarrow> json" where
  "sw_event k = jobj [(''schema_version'', jnat 1), (''type'', JStr ''accountability-event''), (''profile'', JStr ACTION_PROFILE),
     (''scope'', scope_value cell_scope), (''event_id'', JStr (''server-'' @ sw_name (CHR ''t'') k)),
     (''stream'', jobj [(''scope'', scope_value cell_scope), (''kind'', JStr ''stream''), (''id'', JStr ''s'')]),
     (''source_generation'', jnat 1), (''sequence'', jnat (k + 1)), (''predecessor'', if k = 0 then JNull else sw_digest ''e0''),
     (''producer'', JStr ''server''), (''family'', JStr ''activation''), (''kind'', JStr ''activation-applied''),
     (''occurred_at'', jnat 7), (''clock'', JStr ''bounded-utc-2s''), (''causal_parents'', JArr []),
     (''payload'', sw_payload k), (''payload_digest'', sw_digest (sw_name (CHR ''p'') k))]"

section \<open>The codec\<close>

definition sw_table :: "(string \<times> json) list" where
  "sw_table = [(''i0'', sw_enrolled), (''o0'', sw_profile), (''m0'', sw_artifacts), (''n0'', sw_participants)] @
     concat (map (\<lambda>k. [(sw_name (CHR ''t'') k, sw_transition k), (sw_name (CHR ''r'') k, sw_receipt k []), (sw_name (CHR ''g'') k, sw_receipt k sw_paused),
       (sw_name (CHR ''y'') k, sw_receipt k sw_registered), (sw_name (CHR ''p'') k, sw_payload k), (sw_name (CHR ''a'') k, sw_applied k),
       (sw_name (CHR ''e'') k, sw_event k)]) [0, 1])"

text \<open>The name of a record, read off its fields.\<close>

definition sw_letter :: "json \<Rightarrow> char" where
  "sw_letter v =
     (if jx v ''type'' = JStr ''activation'' then CHR ''t''
      else if jx v ''type'' = JStr ''accountability-event'' then CHR ''e''
      else if jx v ''participant'' = JStr ''server'' then CHR ''r''
      else if jx v ''participant'' = JStr ''gate'' then CHR ''g''
      else if jx v ''participant'' = JStr ''registry'' then CHR ''y''
      else if jx v ''kind'' \<noteq> JNull then CHR ''p''
      else if jx v ''receipt'' \<noteq> JNull then CHR ''a''
      else if jx v ''initial_epoch'' \<noteq> JNull then CHR ''i''
      else if jx v ''artifacts'' \<noteq> JNull then CHR ''m''
      else if jx v ''participants'' \<noteq> JNull then CHR ''n''
      else CHR ''o'')"

definition sw_second :: "json \<Rightarrow> bool" where
  "sw_second v \<longleftrightarrow> (let is = (\<lambda>x. jx (jx x ''transition'') ''id'' = JStr ''k1'') in
     is v \<or> is (jx v ''receipt'') \<or> is (jx (jx v ''payload'') ''receipt''))"

definition sw_codec :: codec where
  "sw_codec = \<lparr>jc_parse = map_of sw_table,
     jc_bytes = (\<lambda>v. let k = sw_name (sw_letter v) (if sw_second v then 1 else 0) in if map_of sw_table k = Some v then k else []),
     jc_sha = (\<lambda>b. drop (length b - 2) b)\<rparr>"

definition sw_env :: action_env where
  "sw_env = \<lparr>an_codec = sw_codec, an_schema = Some cell_schema, an_profile = Some sw_profile\<rparr>"

lemma sw_codec_ok: "codec_ok (an_codec sw_env)"
proof -
  have "map_of sw_table [] = None" by (simp add: sw_table_def sw_name_def)
  then show ?thesis by (auto simp: codec_ok_def sw_env_def sw_codec_def Let_def split: if_splits)
qed

lemma sw_stream_shape: "stream_shape sw_env"
  by (auto simp: stream_shape_def sw_env_def cell_schema_def)

section \<open>Facts about the records\<close>

abbreviation (input) sw_index :: "nat \<Rightarrow> bool" where
  "sw_index k \<equiv> k = 0 \<or> k = 1"

lemma sw_transition_fields: "jx (sw_transition k) ''type'' = JStr ''activation''" "jx (sw_transition k) ''transition'' = cell_ref (sw_name (CHR ''k'') k)"
    "jx (sw_transition k) ''prior_epoch'' = jnat (k + 1)" "jx (sw_transition k) ''successor_epoch'' = jnat (k + 2)"
    "jx (sw_transition k) ''profile_digest'' = sw_digest ''o0''" "jx (sw_transition k) ''artifacts'' = JArr []"
    "jx (sw_transition k) ''prior_artifact_set_digest'' = (if k = 0 then sw_digest (replicate 64 (CHR ''0'')) else sw_digest ''m0'')"
    "jx (sw_transition k) ''artifact_set_digest'' = sw_digest ''m0''" "jx (sw_transition k) ''participants'' = activation_participants"
    "jx (sw_transition k) ''participant_set_digest'' = sw_digest ''n0''" "jx (sw_transition k) ''not_before'' = jnat 1"
    "jx (sw_transition k) ''expires_at'' = jnat 90" "jx (sw_transition k) ''participant'' = JNull" "jx (sw_transition k) ''receipt'' = JNull"
    "jx (sw_transition k) ''payload'' = JNull"
  by (simp_all add: sw_transition_def)

lemma sw_receipt_fields: "jx (sw_receipt k []) ''participant'' = JStr ''server''" "jx (sw_receipt k sw_paused) ''participant'' = JStr ''gate''"
    "jx (sw_receipt k sw_registered) ''participant'' = JStr ''registry''" "jx (sw_receipt k []) ''phase'' = JStr ''applied''"
  by (simp_all add: sw_receipt_def sw_paused_def sw_registered_def receipt_keys_def)

lemma sw_receipt_kept:
  assumes "x \<in> {[], sw_paused, sw_registered}"
  shows "jx (sw_receipt k x) ''type'' = JStr ''activation-receipt''" "jx (sw_receipt k x) ''transition'' = cell_ref (sw_name (CHR ''k'') k)"
    "jx (sw_receipt k x) ''transition_digest'' = sw_digest (sw_name (CHR ''t'') k)" "jx (sw_receipt k x) ''prior_epoch'' = jnat (k + 1)"
    "jx (sw_receipt k x) ''successor_epoch'' = jnat (k + 2)" "jx (sw_receipt k x) ''artifact_set_digest'' = sw_digest ''m0''"
    "jx (sw_receipt k x) ''receipt'' = JNull" "jx (sw_receipt k x) ''payload'' = JNull"
  using assms by (auto simp: sw_receipt_def sw_paused_def sw_registered_def receipt_keys_def sw_transition_fields)

lemma sw_event_fields: "jx (sw_event k) ''type'' = JStr ''accountability-event''" "jx (sw_event k) ''payload'' = sw_payload k"
    "jx (sw_event k) ''event_id'' = JStr (''server-'' @ sw_name (CHR ''t'') k)" "jx (sw_event k) ''kind'' = JStr ''activation-applied''"
    "jx (sw_event k) ''family'' = JStr ''activation''" "jx (sw_event k) ''sequence'' = jnat (k + 1)" "jx (sw_event k) ''producer'' = JStr ''server''"
    "jx (sw_event k) ''predecessor'' = (if k = 0 then JNull else sw_digest ''e0'')" "jx (sw_event k) ''source_generation'' = jnat 1"
    "jx (sw_event k) ''payload_digest'' = sw_digest (sw_name (CHR ''p'') k)" "jx (sw_event k) ''receipt'' = JNull"
    "jx (jx (sw_event k) ''stream'') ''id'' = JStr ''s''" "jx (sw_event k) ''transition'' = JNull"
    "jx (sw_event k) ''stream'' = jobj [(''scope'', scope_value cell_scope), (''kind'', JStr ''stream''), (''id'', JStr ''s'')]"
  by (simp_all add: sw_event_def)

lemma sw_small_fields: "jx (sw_payload k) ''kind'' = JStr ''activation-applied''" "jx (sw_payload k) ''receipt'' = sw_receipt k []"
    "jx (sw_applied k) ''receipt'' = sw_receipt k []" "jx (sw_payload k) ''type'' = JNull" "jx (sw_payload k) ''participant'' = JNull"
    "jx (sw_applied k) ''type'' = JNull" "jx (sw_applied k) ''participant'' = JNull" "jx (sw_applied k) ''kind'' = JNull"
    "jx (sw_payload k) ''transition'' = JNull" "jx (sw_applied k) ''transition'' = JNull" "jx (sw_applied k) ''payload'' = JNull"
    "jx (sw_payload k) ''payload'' = JNull"
  by (simp_all add: sw_payload_def sw_applied_def)

lemma jx_JNull [simp]: "jx JNull k = JNull"
  by (simp add: jx_def)

lemma sw_digest_eq [simp]: "sw_digest a = sw_digest b \<longleftrightarrow> a = b"
  by (simp add: sw_digest_def)

lemma cell_ref_eq [simp]: "cell_ref a = cell_ref b \<longleftrightarrow> a = b"
proof
  assume "cell_ref a = cell_ref b"
  then have "jx (cell_ref a) ''id'' = jx (cell_ref b) ''id''" by simp
  then show "a = b" by (simp add: cell_ref_def)
qed simp

lemma cell_ref_id: "jx (cell_ref i) ''id'' = JStr i"
  by (simp add: cell_ref_def)

section \<open>Names\<close>

definition sw_known :: "string \<Rightarrow> json \<Rightarrow> bool" where
  "sw_known k v \<longleftrightarrow> canonical_record sw_codec k = Inr v \<and> jc_bytes sw_codec v = k \<and> length k = 2"

lemma sw_knownI:
  assumes "map_of sw_table k = Some v" "sw_name (sw_letter v) (if sw_second v then 1 else 0) = k" "json_bounded v 0" "is_object v"
  shows "sw_known k v"
proof -
  have "length k = 2" using assms(2) by (auto simp: sw_name_def)
  with assms show ?thesis by (simp add: sw_known_def canonical_record_Inr) (simp add: sw_codec_def)
qed

lemma sw_bounded_small: "n < 15 \<Longrightarrow> json_bounded (cell_ref (sw_name c k)) n" "n < 15 \<Longrightarrow> json_bounded activation_participants n"
    "json_bounded (sw_digest d) n"
  by (simp_all add: cell_ref_def json_bounded_jobj of_char_def activation_participants_def sw_digest_def)

lemma sw_bounded_transition: "sw_index k \<Longrightarrow> json_bounded (sw_transition k) 0"
  by (auto simp: sw_transition_def json_bounded_jobj sw_bounded_small of_char_def jnat_def max_integer_def)

lemma sw_bounded_receipt: "sw_index k \<Longrightarrow> n < 10 \<Longrightarrow> x \<in> {[], sw_paused, sw_registered} \<Longrightarrow> json_bounded (sw_receipt k x) n"
  unfolding sw_receipt_def receipt_keys_def
  by (rule json_bounded_jobj) (auto simp: sw_transition_fields sw_bounded_small of_char_def jnat_def max_integer_def sw_paused_def sw_registered_def)

lemma sw_bounded_others:
  assumes "sw_index k"
  shows "json_bounded (sw_payload k) 0" "json_bounded (sw_applied k) 0" "json_bounded (sw_event k) 0" "json_bounded sw_enrolled 0"
    "json_bounded sw_profile 0" "json_bounded sw_artifacts 0" "json_bounded sw_participants 0"
proof -
  have p: "json_bounded (sw_payload k) n" if "n < 9" for n
    using sw_bounded_receipt[OF assms, of "n + 1" "[]"] that by (simp add: sw_payload_def json_bounded_jobj of_char_def)
  then show "json_bounded (sw_payload k) 0" by simp
  show "json_bounded (sw_applied k) 0" using sw_bounded_receipt[OF assms, of 1 "[]"] by (simp add: sw_applied_def json_bounded_jobj of_char_def)
  have "k + 1 \<le> max_integer" "(7 :: nat) \<le> max_integer" "(1 :: nat) \<le> max_integer" using assms by (auto simp: max_integer_def)
  then show "json_bounded (sw_event k) 0"
    using p[of 1] by (simp add: sw_event_def json_bounded_jobj cell_scope_bounded of_char_def jnat_def sw_bounded_small)
  show "json_bounded sw_enrolled 0"
    by (simp add: sw_enrolled_def json_bounded_jobj cell_scope_bounded of_char_def jnat_def sw_bounded_small max_integer_def)
  show "json_bounded sw_profile 0" "json_bounded sw_artifacts 0" "json_bounded sw_participants 0"
    by (simp_all add: sw_profile_def sw_artifacts_def sw_participants_def json_bounded_jobj of_char_def sw_bounded_small)
qed

lemma sw_known_parts: "sw_known ''i0'' sw_enrolled" "sw_known ''o0'' sw_profile" "sw_known ''m0'' sw_artifacts" "sw_known ''n0'' sw_participants"
proof -
  have l: "sw_letter sw_enrolled = CHR ''i''" "sw_letter sw_profile = CHR ''o''" "sw_letter sw_artifacts = CHR ''m''" "sw_letter sw_participants = CHR ''n''"
    by (simp_all add: sw_letter_def sw_enrolled_def sw_profile_def sw_artifacts_def sw_participants_def activation_participants_def jnat_def)
  have s: "\<not> sw_second sw_enrolled" "\<not> sw_second sw_profile" "\<not> sw_second sw_artifacts" "\<not> sw_second sw_participants"
    by (simp_all add: sw_second_def sw_enrolled_def sw_profile_def sw_artifacts_def sw_participants_def Let_def)
  have o: "is_object sw_enrolled" "is_object sw_profile" "is_object sw_artifacts" "is_object sw_participants"
    by (simp_all add: sw_enrolled_def sw_profile_def sw_artifacts_def sw_participants_def jobj_def)
  note b = sw_bounded_others[of 0, simplified]
  show "sw_known ''i0'' sw_enrolled" "sw_known ''o0'' sw_profile" "sw_known ''m0'' sw_artifacts" "sw_known ''n0'' sw_participants"
    by (rule sw_knownI; simp add: l s o b sw_name_def sw_table_def)+
qed

lemma sw_known_records:
  assumes k: "sw_index k"
  shows "sw_known (sw_name (CHR ''t'') k) (sw_transition k)" "sw_known (sw_name (CHR ''r'') k) (sw_receipt k [])"
    "sw_known (sw_name (CHR ''g'') k) (sw_receipt k sw_paused)" "sw_known (sw_name (CHR ''y'') k) (sw_receipt k sw_registered)"
    "sw_known (sw_name (CHR ''p'') k) (sw_payload k)" "sw_known (sw_name (CHR ''a'') k) (sw_applied k)" "sw_known (sw_name (CHR ''e'') k) (sw_event k)"
proof -
  note f = sw_transition_fields sw_receipt_fields sw_receipt_kept sw_event_fields sw_small_fields
  have l: "sw_letter (sw_transition k) = CHR ''t''" "sw_letter (sw_receipt k []) = CHR ''r''" "sw_letter (sw_receipt k sw_paused) = CHR ''g''"
    "sw_letter (sw_receipt k sw_registered) = CHR ''y''" "sw_letter (sw_payload k) = CHR ''p''" "sw_letter (sw_event k) = CHR ''e''"
    by (simp_all add: sw_letter_def f)
  have a: "sw_letter (sw_applied k) = CHR ''a''"
  proof -
    have "sw_receipt k [] \<noteq> JNull" by (simp add: sw_receipt_def jobj_def)
    then show ?thesis by (simp add: sw_letter_def f)
  qed
  have s: "sw_second (sw_transition k) \<longleftrightarrow> k \<noteq> 0" "sw_second (sw_receipt k []) \<longleftrightarrow> k \<noteq> 0" "sw_second (sw_receipt k sw_paused) \<longleftrightarrow> k \<noteq> 0"
    "sw_second (sw_receipt k sw_registered) \<longleftrightarrow> k \<noteq> 0" "sw_second (sw_payload k) \<longleftrightarrow> k \<noteq> 0" "sw_second (sw_applied k) \<longleftrightarrow> k \<noteq> 0"
    "sw_second (sw_event k) \<longleftrightarrow> k \<noteq> 0"
    by (simp_all add: sw_second_def f Let_def cell_ref_id sw_name_def)
  have o: "is_object (sw_transition k)" "is_object (sw_receipt k x)" "is_object (sw_payload k)" "is_object (sw_applied k)" "is_object (sw_event k)" for x
    by (simp_all add: sw_transition_def sw_receipt_def sw_payload_def sw_applied_def sw_event_def jobj_def)
  have m: "map_of sw_table (sw_name (CHR ''t'') k) = Some (sw_transition k)" "map_of sw_table (sw_name (CHR ''r'') k) = Some (sw_receipt k [])"
    "map_of sw_table (sw_name (CHR ''g'') k) = Some (sw_receipt k sw_paused)" "map_of sw_table (sw_name (CHR ''y'') k) = Some (sw_receipt k sw_registered)"
    "map_of sw_table (sw_name (CHR ''p'') k) = Some (sw_payload k)" "map_of sw_table (sw_name (CHR ''a'') k) = Some (sw_applied k)"
    "map_of sw_table (sw_name (CHR ''e'') k) = Some (sw_event k)"
    using k by (auto simp: sw_table_def sw_name_def)
  have n: "0 < k \<Longrightarrow> sw_name c (Suc 0) = sw_name c k" for c by (simp add: sw_name_def)
  note b = sw_bounded_transition[OF k] sw_bounded_receipt[OF k] sw_bounded_others[OF k]
  show "sw_known (sw_name (CHR ''t'') k) (sw_transition k)" "sw_known (sw_name (CHR ''r'') k) (sw_receipt k [])"
    "sw_known (sw_name (CHR ''g'') k) (sw_receipt k sw_paused)" "sw_known (sw_name (CHR ''y'') k) (sw_receipt k sw_registered)"
    "sw_known (sw_name (CHR ''p'') k) (sw_payload k)" "sw_known (sw_name (CHR ''a'') k) (sw_applied k)" "sw_known (sw_name (CHR ''e'') k) (sw_event k)"
    by (rule sw_knownI; simp add: m l a s o b n)+
qed

lemma sw_bytes: "sw_known k v \<Longrightarrow> jc_bytes (an_codec sw_env) v = k"
  by (simp add: sw_known_def sw_env_def)

lemma sw_canonical: "sw_known k v \<Longrightarrow> canonical_record (an_codec sw_env) k = Inr v"
  by (simp add: sw_known_def sw_env_def)

lemma sw_encoded: "sw_known k v \<Longrightarrow> encoded sw_env v = Inr k"
  by (simp add: encoded_def sw_bytes sw_canonical)

lemma sw_digests:
  assumes "sw_known k v"
  shows "action_digest sw_env domain v = Inr (''sha256:'' @ k)"
proof -
  have "length k = 2" using assms by (simp add: sw_known_def)
  then have "jc_sha (an_codec sw_env) (xs @ k) = k" for xs by (simp add: sw_env_def sw_codec_def)
  from this[of "(''munarium:stage2:'' @ domain @ '':v1'') @ [CHR 0x00]"] show ?thesis
    unfolding action_digest_def record_digest_Inr sw_bytes[OF assms] append_assoc using sw_canonical[OF assms] by (intro conjI exI) auto
qed

lemma sw_differs: "sw_known k v \<Longrightarrow> digest_differs sw_env d domain v = Inr (d \<noteq> sw_digest k)"
  by (simp add: digest_differs_def sw_digests sw_digest_def)

lemma sw_valid: "sw_known k v \<Longrightarrow> validate_action_record sw_env v =
     (if \<not> cell_schema v then Inl act_invalid
     else
     res_bind (j_text (jx v ''type'')) (\<lambda>ty.
     if ty = ''action-request'' then check_request sw_env v
     else if ty = ''action-approval'' then check_approval v
     else if ty = ''activation'' then check_activation sw_env v
     else if ty = ''accountability-event'' then check_event sw_env v
     else Inr ()))"
  unfolding validate_action_record_def using sw_bytes[of k v] sw_canonical[of k v] by (simp add: sw_env_def ok_or_def cong: if_cong)

section \<open>The checks\<close>

abbreviation sw_ledger :: "mem_state action_ledger" where
  "sw_ledger \<equiv> mem_ledger demo_env demo_gen ''memv-'' sw_policy"

definition sw_proof :: "nat \<Rightarrow> activation_evidence" where
  "sw_proof k = \<lparr>pf_ratified = jobj [(''ratified'', JBool True), (''transition'', sw_transition k), (''transition_digest'', sw_digest (sw_name (CHR ''t'') k))],
     pf_pause = sw_receipt k sw_paused,
     pf_gate_head = jobj [(''scope'', scope_value cell_scope), (''participant'', JStr ''gate''), (''paused'', JBool True),
       (''transition_id'', JStr (sw_name (CHR ''k'') k)), (''epoch'', jnat (k + 1)),
       (''artifact_set_digest'', if k = 0 then sw_digest (replicate 64 (CHR ''0'')) else sw_digest ''m0'')],
     pf_registry_receipt = sw_receipt k sw_registered,
     pf_registry_head = jobj [(''scope'', scope_value cell_scope), (''participant'', JStr ''registry''), (''epoch'', jnat (k + 2)),
       (''artifact_set_digest'', sw_digest ''m0'')],
     pf_authority_revision = ''1'', pf_now = 7\<rparr>"

lemma sw_policy_valid: "validate_policy sw_policy = Inr ()"
proof -
  have "act_identifier ''s''" "act_identifier ''server''" by code_simp+
  then show ?thesis
    by (simp add: validate_policy_def sw_policy_def scope_valid_def cell_scope_def cell_identifiers producer_allowed_def max_integer_def)
qed

lemma sw_scope: "al_scope sw_ledger = scope_value cell_scope" "scope_value (py_scope sw_policy) = scope_value cell_scope"
  by (simp_all add: al_scope_def sw_policy_def)

lemma sw_stream: "policy_stream sw_policy ''s'' = Some \<lparr>sg_stream_id = ''s'', sg_producer = ''server'', sg_service = ''server'', sg_generation = 1,
    sg_kinds = [''activation-applied'']\<rparr>"
  by (simp add: policy_stream_def sw_policy_def)

lemma sw_enrollment_check: "check_enrollment sw_ledger sw_enrollment = Inr sw_enrolled"
proof -
  have o: "archive_owner sw_ledger ''council'' ''activation''" by (simp add: archive_owner_def sw_policy_def)
  show ?thesis
    using cell_hash o by (simp add: check_enrollment_def sw_policy_valid sw_enrollment_def sw_stream ok_or_def max_integer_def sw_scope sw_enrolled_def sw_digest_def)
qed

lemma sw_transition_valid:
  assumes k: "sw_index k"
  shows "validate_action_record sw_env (sw_transition k) = Inr ()"
proof -
  have "cell_schema (sw_transition k)" by (simp add: cell_schema_def sw_transition_fields)
  moreover have "number_le (jx (sw_transition k) ''successor_epoch'') (jx (sw_transition k) ''prior_epoch'') = Inr False"
    "number_le (jx (sw_transition k) ''expires_at'') (jx (sw_transition k) ''not_before'') = Inr False"
    using k by (auto simp: number_le_def sw_transition_fields j_number_def max_integer_def)
  moreover have "an_profile sw_env = Some sw_profile" by (simp add: sw_env_def)
  ultimately show ?thesis
    by (simp add: sw_valid[OF sw_known_records(1)[OF k]] sw_transition_fields j_text_def check_activation_def ok_or_def refuse_if_def
        sw_differs[OF sw_known_parts(2)] sw_differs[OF sw_known_parts(3), unfolded sw_artifacts_def] sw_differs[OF sw_known_parts(4), unfolded sw_participants_def])
qed

lemma sw_receipt_valid:
  assumes k: "sw_index k" and x: "x \<in> {[], sw_paused, sw_registered}"
  shows "validate_action_record sw_env (sw_receipt k x) = Inr ()"
proof -
  obtain n where "sw_known n (sw_receipt k x)" using sw_known_records(2-4)[OF k] x by auto
  from sw_valid[OF this] show ?thesis by (simp add: sw_receipt_kept[OF x] cell_schema_def j_text_def)
qed

section \<open>The two calls\<close>

text \<open>The protected version, as the claims appended to it: the ids aside, which the generator chose.\<close>

definition log_is :: "mem_state \<Rightarrow> new_claim list \<Rightarrow> bool" where
  "log_is s ncs \<longleftrightarrow> protected_ok demo_env demo_gen ''memv-'' s \<and> head s ''memv-'' = length ncs \<and>
     (\<exists>ids. rows (ms_claims s) ''memv-'' = map (\<lambda>i. stored_claim (ids i) ''memv-'' (i + 1) (ncs ! i)) [0..<length ncs])"

lemma log_append:
  assumes l: "log_is s ncs" and w: "plain_call w"
  shows "\<exists>cs s'. try_append (mem_facts demo_env demo_gen) ''memv-'' w (length ncs) s = Inr (cs, s') \<and> log_is s' (ncs @ claims_of w)"
proof -
  let ?v = "''memv-''"
  have ok: "protected_ok demo_env demo_gen ?v s" and h: "head s ?v = length ncs" using l by (simp_all add: log_is_def)
  obtain ids where ids: "rows (ms_claims s) ?v = map (\<lambda>i. stored_claim (ids i) ?v (i + 1) (ncs ! i)) [0..<length ncs]"
    using l by (auto simp: log_is_def)
  define cs where "cs = batch_claims demo_gen s ?v (head s ?v + 1) (claims_of w)"
  obtain s' where s': "try_append (mem_facts demo_env demo_gen) ?v w (head s ?v) s = Inr (cs, s')" "mem_step demo_env demo_gen s ?v s'"
    "rows (ms_claims s') ?v = rows (ms_claims s) ?v @ cs" "head s' ?v = head s ?v + length (claims_of w)"
    using mem_append[OF ok w] by (auto simp: cs_def)
  have "\<forall>c \<in> set cs. c_supersedes_id c = None \<and> c_status c = Accepted"
    using w by (auto simp: cs_def batch_claims_def plain_call_def list_all_iff plain_def stored_claim_def)
  then have ok': "protected_ok demo_env demo_gen ?v s'" by (intro protected_ok_step[OF ok s'(2,3)]) auto
  define ids' where "ids' = (\<lambda>i. if i < length ncs then ids i else ''claim-'' @ demo_gen (ms_drawn s + (i - length ncs)))"
  have "[0..<length ncs + length (claims_of w)] = [0..<length ncs] @ map (\<lambda>i. i + length ncs) [0..<length (claims_of w)]"
    using upt_add_eq_append[of 0 "length ncs" "length (claims_of w)"] map_add_upt[of "length ncs" "length (claims_of w)"] by (simp add: add.commute)
  then have "rows (ms_claims s') ?v = map (\<lambda>i. stored_claim (ids' i) ?v (i + 1) ((ncs @ claims_of w) ! i)) [0..<length (ncs @ claims_of w)]"
    by (simp add: s'(3) ids cs_def batch_claims_def h nth_append add.commute ids'_def)
  then have "log_is s' (ncs @ claims_of w)" unfolding log_is_def by (intro conjI exI[of _ ids']) (use ok' s'(4) h in simp_all)
  with s'(1) h show ?thesis by auto
qed

lemma log_enrol:
  assumes l: "log_is s ncs" and c: "check_enrollment (mem_ledger demo_env demo_gen ''memv-'' policy) en = Inr w"
    and f: "find_enrollment e w (rows (ms_claims s) ''memv-'') = Inr False" and raw: "encoded e w = Inr raw"
  shows "\<exists>s'. initialize_activation e (mem_ledger demo_env demo_gen ''memv-'' policy) en alone s = (Inr JNull, s')
    \<and> log_is s' (ncs @ [new_claim_fact ENROLLMENT ''initial'' raw])"
proof -
  let ?nc = "new_claim_fact ENROLLMENT ''initial'' raw"
  have ok: "protected_ok demo_env demo_gen ''memv-'' s" and h: "head s ''memv-'' = length ncs" using l by (simp_all add: log_is_def)
  have p: "plain_call (AppendOne ?nc)" by (simp add: plain_call_def plain_def new_claim_fact_def)
  obtain cs s' where s': "try_append (mem_facts demo_env demo_gen) ''memv-'' (AppendOne ?nc) (length ncs) s = Inr (cs, s')" "log_is s' (ncs @ [?nc])"
    using log_append[OF l p] by auto
  have "enrollment_decide e (mem_ledger demo_env demo_gen ''memv-'' policy) w s s = Inr (length ncs, Write (AppendOne ?nc))"
    unfolding mem_log.enrollment_decide_on[OF mem_ledger_simps(1,2) ok mem_log.extends_log_refl[OF ok]] f h by (simp add: raw)
  then have "initialize_activation e (mem_ledger demo_env demo_gen ''memv-'' policy) en alone s = (Inr JNull, s')"
    unfolding enrollment_loop[OF c] mem_ledger_simps thirty_two alone_fun commit_loop_alone by (simp add: s'(1) del: try_append.simps)
  with s'(2) show ?thesis by blast
qed

lemma log_enrolled:
  assumes l: "log_is s ncs" and c: "check_enrollment (mem_ledger demo_env demo_gen ''memv-'' policy) en = Inr w"
    and f: "find_enrollment e w (rows (ms_claims s) ''memv-'') = Inr True"
  shows "initialize_activation e (mem_ledger demo_env demo_gen ''memv-'' policy) en alone s = (Inr JNull, s)"
proof -
  have ok: "protected_ok demo_env demo_gen ''memv-'' s" using l by (simp add: log_is_def)
  have "enrollment_decide e (mem_ledger demo_env demo_gen ''memv-'' policy) w s s = Inr (head s ''memv-'', Answer JNull)"
    unfolding mem_log.enrollment_decide_on[OF mem_ledger_simps(1,2) ok mem_log.extends_log_refl[OF ok]] f by simp
  then show ?thesis
    unfolding enrollment_loop[OF c] mem_ledger_simps thirty_two alone_fun commit_loop_alone by simp
qed

lemma log_apply:
  assumes l: "log_is s ncs" and small: "length ncs \<le> max_integer"
    and c: "check_apply e (mem_ledger demo_env demo_gen ''memv-'' policy) en t pf = Inr (r, digest, stream)"
    and rs: "load_records e (scope_value (py_scope policy)) (rows (ms_claims s) ''memv-'') = Inr (as, es)"
    and sc: "applied_scan e t r (applied_facts (rows (ms_claims s) ''memv-'')) None = Inr (False, cur)" "epoch_of en cur = Inr (ep, dg)"
      "jx t ''prior_epoch'' = jnat ep" "jx t ''prior_artifact_set_digest'' = JStr dg"
    and ev: "applied_event e (mem_ledger demo_env demo_gen ''memv-'' policy) en digest stream r (pf_now pf)
        (last_in_stream (ac_stream_id en) (sg_generation stream) es) = Inr x" "validate_action_record e x = Inr ()"
      "\<forall>y \<in> set es. jx (sd_value y) ''event_id'' \<noteq> jx x ''event_id''"
    and new: "\<forall>a \<in> set as. jx (sd_value a) ''transition'' \<noteq> jx t ''transition''"
    and cl: "activation_claims e t digest x r (activation_provenance en pf) True = Inr new_claims" "new_claims \<noteq> []" "list_all plain new_claims"
  shows "\<exists>s'. apply_enrolled e (mem_ledger demo_env demo_gen ''memv-'' policy) en t pf alone s = (Inr r, s') \<and> log_is s' (ncs @ new_claims)"
proof -
  let ?L = "mem_ledger demo_env demo_gen ''memv-'' policy"
  have ok: "protected_ok demo_env demo_gen ''memv-'' s" and h: "head s ''memv-'' = length ncs" using l by (simp_all add: log_is_def)
  note refl = mem_log.extends_log_refl[OF ok]
  have sn: "ledger_snapshot e ?L s s = Inr (length ncs, as, es)"
    using small rs by (simp add: mem_log.snapshot_pinned[OF mem_ledger_simps(1,2) ok refl] snapshot_on_def h al_scope_def)
  have fs: "activation_facts ?L (length ncs) s = Inr (rows (ms_claims s) ''memv-'')"
    using mem_log.facts_pinned[OF mem_ledger_simps(1,2) ok refl] h by simp
  have "find (\<lambda>a. jx (sd_value a) ''type'' = JStr ''activation'' \<and> jx (sd_value a) ''transition'' = jx t ''transition'') as = None"
    using new by (auto simp: find_None_iff)
  then have d: "apply_decide e ?L en t pf r digest stream s s s = Inr (length ncs, Write (AppendAll new_claims))"
    using ev(3) by (simp add: apply_decide_def sn fs sc ev(1,2) cl(1)) 
  have p: "plain_call (AppendAll new_claims)" using cl by (simp add: plain_call_def)
  obtain cs s' where s': "try_append (mem_facts demo_env demo_gen) ''memv-'' (AppendAll new_claims) (length ncs) s = Inr (cs, s')"
    "log_is s' (ncs @ new_claims)" using log_append[OF l p] by auto
  then have "apply_enrolled e ?L en t pf alone s = (Inr r, s')"
    unfolding apply_loop[OF c] mem_ledger_simps thirty_two alone_fun commit_loop_alone by (simp add: d del: try_append.simps)
  with s'(2) show ?thesis by blast
qed

section \<open>The run\<close>

lemma jset_jobj: "jset k x (jobj kvs) = jobj (kvs @ [(k, x)])"
  by (simp add: jobj_def)

lemma fold_jset_jobj: "fold (\<lambda>k. jset k (f k)) ks (jobj kvs) = jobj (kvs @ map (\<lambda>k. (k, f k)) ks)"
  by (induction ks arbitrary: kvs) (simp_all add: jset_jobj)

lemma sw_activation_receipt: "sw_index k \<Longrightarrow> activation_receipt sw_env (sw_transition k) = Inr (sw_receipt k [])"
proof -
  assume k: "sw_index k"
  have "fold (\<lambda>x. jset x (jx (sw_transition k) x)) receipt_keys (jobj [(''schema_version'', jnat 1), (''profile'', JStr ACTION_PROFILE),
      (''type'', JStr ''activation-receipt''), (''participant'', JStr ''server''), (''phase'', JStr ''applied''),
      (''transition_digest'', JStr (''sha256:'' @ sw_name (CHR ''t'') k))]) = sw_receipt k []"
    by (simp add: fold_jset_jobj sw_receipt_def sw_digest_def)
  then show ?thesis
    using sw_receipt_valid[OF k, of "[]"] by (simp add: activation_receipt_def sw_digests[OF sw_known_records(1)[OF k]])
qed

lemma sw_check_receipt:
  assumes k: "sw_index k"
  shows "check_receipt sw_env (sw_transition k) (sw_receipt k sw_paused) ''gate'' ''paused'' = Inr ()"
    "check_receipt sw_env (sw_transition k) (sw_receipt k sw_registered) ''registry'' ''applied'' = Inr ()"
proof -
  have "jset ''phase'' (JStr ''paused'') (jset ''participant'' (JStr ''gate'') (sw_receipt k [])) = sw_receipt k sw_paused"
    "jset ''phase'' (JStr ''applied'') (jset ''participant'' (JStr ''registry'') (sw_receipt k [])) = sw_receipt k sw_registered"
    by (simp_all add: sw_receipt_def jset_jobj sw_paused_def sw_registered_def)
  then show "check_receipt sw_env (sw_transition k) (sw_receipt k sw_paused) ''gate'' ''paused'' = Inr ()"
    "check_receipt sw_env (sw_transition k) (sw_receipt k sw_registered) ''registry'' ''applied'' = Inr ()"
    using sw_receipt_valid[OF k] by (simp_all add: check_receipt_def sw_activation_receipt[OF k])
qed

lemma sw_check_apply:
  assumes k: "sw_index k"
  shows "check_apply sw_env sw_ledger sw_enrollment (sw_transition k) (sw_proof k) =
    Inr (sw_receipt k [], ''sha256:'' @ sw_name (CHR ''t'') k, \<lparr>sg_stream_id = ''s'', sg_producer = ''server'', sg_service = ''server'',
      sg_generation = 1, sg_kinds = [''activation-applied'']\<rparr>)"
proof -
  have "scope_confined (sw_transition k) (scope_value cell_scope)"
    by (simp add: sw_transition_def scope_confined_jobj cell_ref_def sw_digest_def jnat_def activation_participants_def)
  then have s: "check_scope (sw_transition k) (al_scope sw_ledger) = Inr ()" by (simp add: check_scope_def sw_scope)
  have r: "check_ratified sw_env (sw_transition k) (sw_proof k) = Inr ()"
    by (simp add: check_ratified_def refuse_if_def sw_proof_def sw_transition_fields max_integer_def sw_differs[OF sw_known_records(1)[OF k]]
        j_number_def sat_add_def u64_max_def)
  have p: "pf_pause (sw_proof k) = sw_receipt k sw_paused" "pf_registry_receipt (sw_proof k) = sw_receipt k sw_registered" by (simp_all add: sw_proof_def)
  have g: "gate_paused_for (al_scope sw_ledger) (pf_gate_head (sw_proof k)) (sw_transition k)"
    "registry_applied (al_scope sw_ledger) (pf_registry_head (sw_proof k)) (sw_transition k)"
    by (simp_all add: gate_paused_for_def registry_applied_def sw_proof_def sw_scope sw_transition_fields cell_ref_id)
  have "ac_stream_id sw_enrollment = ''s''" by (simp add: sw_enrollment_def)
  with s r g show ?thesis
    by (simp add: check_apply_def p sw_check_receipt[OF k] sw_transition_valid[OF k] sw_activation_receipt[OF k] sw_digests[OF sw_known_records(1)[OF k]]
        sw_stream ok_or_def)
qed

definition sw_new :: "nat \<Rightarrow> new_claim list" where
  "sw_new k = (let p = Some (activation_provenance sw_enrollment (sw_proof k)) in
     [(new_claim_fact ARTIFACTS (''sha256:'' @ sw_name (CHR ''t'') k) (sw_name (CHR ''t'') k))\<lparr>nc_evidence := p\<rparr>,
      (new_claim_fact EVENTS (''server-'' @ sw_name (CHR ''t'') k) (sw_name (CHR ''e'') k))\<lparr>nc_evidence := p\<rparr>,
      (new_claim_fact APPLIED (sw_name (CHR ''k'') k) (sw_name (CHR ''a'') k))\<lparr>nc_evidence := p\<rparr>])"

fun sw_log :: "nat \<Rightarrow> new_claim list" where
  "sw_log 0 = [new_claim_fact ENROLLMENT ''initial'' ''i0'']"
| "sw_log (Suc k) = sw_log k @ sw_new k"

lemma sw_claims: "sw_index k \<Longrightarrow> activation_claims sw_env (sw_transition k) (''sha256:'' @ sw_name (CHR ''t'') k) (sw_event k) (sw_receipt k [])
    (activation_provenance sw_enrollment (sw_proof k)) True = Inr (sw_new k)"
  using sw_known_records(1,6,7)[of k]
  by (simp add: activation_claims_def sw_encoded sw_event_fields j_text_def sw_transition_fields cell_ref_id sw_new_def Let_def flip: sw_applied_def)

lemma sw_event_valid:
  assumes k: "sw_index k"
  shows "validate_action_record sw_env (sw_event k) = Inr ()"
proof -
  have s: "cell_schema (sw_event k)" by (auto simp: cell_schema_def sw_event_fields)
  have "producer_allowed ''activation-applied'' ''server''" by (simp add: producer_allowed_def)
  moreover have "k + 1 = 1 \<longleftrightarrow> k = 0" by simp
  ultimately have "check_event sw_env (sw_event k) = Inr ()"
    by (simp add: check_event_def sw_event_fields j_text_def refuse_if_def sw_small_fields sw_differs[OF sw_known_records(5)[OF k]] sw_receipt_fields jnat_eq_iff
        sw_digest_def)
  then show ?thesis by (simp add: sw_valid[OF sw_known_records(7)[OF k]] s sw_event_fields j_text_def)
qed

lemma sw_applied_event:
  assumes "sw_index k" "es = (if k = 0 then [] else [\<lparr>sd_value = sw_event 0, sd_seq = 3, sd_received_at = 7\<rparr>])"
  shows "applied_event sw_env sw_ledger sw_enrollment (''sha256:'' @ sw_name (CHR ''t'') k) \<lparr>sg_stream_id = ''s'', sg_producer = ''server'',
      sg_service = ''server'', sg_generation = 1, sg_kinds = [''activation-applied'']\<rparr> (sw_receipt k []) (pf_now (sw_proof k))
      (last_in_stream ''s'' 1 es) = Inr (sw_event k)"
proof -
  have n: "pf_now (sw_proof k) = 7" "ac_stream_id sw_enrollment = ''s''" by (simp_all add: sw_proof_def sw_enrollment_def)
  have l: "last_in_stream ''s'' 1 es = (if k = 0 then None else Some \<lparr>sd_value = sw_event 0, sd_seq = 3, sd_received_at = 7\<rparr>)"
    using assms(2) by (simp add: last_in_stream_def sw_event_fields)
  have d: "action_digest sw_env x (sw_event 0) = Inr ''sha256:e0''" for x using sw_digests[OF sw_known_records(7)[of 0]] by (simp add: sw_name_def)
  have p: "action_digest sw_env x (sw_payload 0) = Inr ''sha256:p0''" "action_digest sw_env x (sw_payload (Suc 0)) = Inr ''sha256:p1''" for x
    using sw_digests[OF sw_known_records(5)[of 0]] sw_digests[OF sw_known_records(5)[of 1]] by (simp_all add: sw_name_def)
  have "j_number (jnat 1) = Inr 1" by (simp add: j_number_def max_integer_def)
  with assms(1) show ?thesis
    unfolding applied_event_def sw_payload_def[symmetric] l n
    by (elim disjE) (simp_all add: Let_def sw_event_fields d p sw_scope, simp_all add: sw_event_def sw_digest_def sw_name_def)
qed

text \<open>The records, events and applied transitions that the log reads as, before the \<open>k\<close>-th transition.\<close>

lemma sw_confined:
  assumes "sw_index k"
  shows "scope_confined (sw_transition k) (scope_value cell_scope)" "scope_confined (sw_event k) (scope_value cell_scope)"
proof -
  have t: "scope_confined (cell_ref x) z" "scope_confined activation_participants z" "scope_confined (sw_digest y) z" for x y z
    by (simp_all add: cell_ref_def activation_participants_def sw_digest_def scope_confined_jobj)
  then show "scope_confined (sw_transition k) (scope_value cell_scope)"
    by (simp add: sw_transition_def scope_confined_jobj jnat_def)
  have "scope_confined (sw_receipt k []) z" for z
    unfolding sw_receipt_def receipt_keys_def by (rule scope_confined_jobj) (simp_all add: t sw_transition_fields jnat_def)
  then have "scope_confined (sw_payload k) z" for z by (simp add: sw_payload_def scope_confined_jobj)
  then show "scope_confined (sw_event k) (scope_value cell_scope)"
    by (simp add: sw_event_def scope_confined_jobj scope_value_confined t jnat_def)
qed

lemma sw_load:
  assumes k: "sw_index k" and sub: "subject = ARTIFACTS \<and> v = sw_transition k \<and> name = sw_name (CHR ''t'') k \<or>
    subject = EVENTS \<and> v = sw_event k \<and> name = sw_name (CHR ''e'') k"
  shows "load_record sw_env (scope_value cell_scope) (stored_claim i x n ((new_claim_fact subject key name)
      \<lparr>nc_evidence := Some (activation_provenance sw_enrollment (sw_proof k))\<rparr>)) = Inr \<lparr>sd_value = v, sd_seq = n, sd_received_at = 7\<rparr>"
proof -
  have "canonical_record (an_codec sw_env) name = Inr v" "scope_confined v (scope_value cell_scope)"
    using sub sw_known_records(1,7)[OF k] sw_confined[OF k] by (auto simp: sw_canonical)
  then show ?thesis
    by (simp add: load_record_def stored_claim_def new_claim_fact_def check_scope_def ok_or_def activation_provenance_def j_number_def sw_proof_def
        max_integer_def)
qed

lemma subjects: "c_subject (stored_claim i v n nc) = nc_subject nc" "c_value (stored_claim i v n nc) = nc_value nc"
    "nc_subject (new_claim_fact a b c) = a" "nc_value (new_claim_fact a b c) = c"
  by (simp_all add: stored_claim_def new_claim_fact_def)

lemma sw_subjects: "ENROLLMENT \<noteq> ARTIFACTS" "ENROLLMENT \<noteq> EVENTS" "APPLIED \<noteq> ARTIFACTS" "APPLIED \<noteq> EVENTS" "ENROLLMENT \<noteq> APPLIED" "ARTIFACTS \<noteq> APPLIED"
    "EVENTS \<noteq> APPLIED" "EVENTS \<noteq> ARTIFACTS" "ARTIFACTS \<noteq> EVENTS"
  by simp_all

lemma sw_reads:
  assumes k: "sw_index k" and l: "log_is s (sw_log k)"
  shows "load_records sw_env (scope_value cell_scope) (rows (ms_claims s) ''memv-'') =
      Inr (if k = 0 then [] else [\<lparr>sd_value = sw_transition 0, sd_seq = 2, sd_received_at = 7\<rparr>],
           if k = 0 then [] else [\<lparr>sd_value = sw_event 0, sd_seq = 3, sd_received_at = 7\<rparr>])"
    "find_enrollment sw_env sw_enrolled (rows (ms_claims s) ''memv-'') = Inr True"
    "applied_scan sw_env (sw_transition k) r (applied_facts (rows (ms_claims s) ''memv-'')) None =
      Inr (False, if k = 0 then None else Some (sw_applied 0))"
proof -
  obtain ids where ids: "rows (ms_claims s) ''memv-'' = map (\<lambda>i. stored_claim (ids i) ''memv-'' (i + 1) (sw_log k ! i)) [0..<length (sw_log k)]"
    using l by (auto simp: log_is_def)
  note c = sw_canonical[OF sw_known_parts(1)] sw_canonical[OF sw_known_records(6)[of 0]] 
  note e = ids sw_new_def Let_def subjects sw_subjects
  show "load_records sw_env (scope_value cell_scope) (rows (ms_claims s) ''memv-'') =
      Inr (if k = 0 then [] else [\<lparr>sd_value = sw_transition 0, sd_seq = 2, sd_received_at = 7\<rparr>],
           if k = 0 then [] else [\<lparr>sd_value = sw_event 0, sd_seq = 3, sd_received_at = 7\<rparr>])"
    using k sw_load[of 0] by (elim disjE) (simp_all add: e)
  show "find_enrollment sw_env sw_enrolled (rows (ms_claims s) ''memv-'') = Inr True"
    using k by (elim disjE) (simp_all add: e c)
  show "applied_scan sw_env (sw_transition k) r (applied_facts (rows (ms_claims s) ''memv-'')) None =
      Inr (False, if k = 0 then None else Some (sw_applied 0))"
    using k by (elim disjE) (simp_all add: e c applied_facts_def sw_small_fields sw_receipt_kept sw_transition_fields, simp_all add: sw_name_def)
qed

lemma sw_step:
  assumes k: "sw_index k" and l: "log_is s (sw_log k)"
  shows "\<exists>s'. carry_out sw_env sw_ledger (Apply sw_enrollment (sw_transition k) (sw_proof k)) alone s = (Inr (sw_receipt k []), s')
    \<and> log_is s' (sw_log (Suc k))"
proof -
  note rd = sw_reads[OF k l]
  let ?es = "if k = 0 then [] else [\<lparr>sd_value = sw_event 0, sd_seq = 3, sd_received_at = 7\<rparr>]"
  have small: "length (sw_log k) \<le> max_integer" using k by (auto simp: sw_new_def Let_def max_integer_def)
  have ep: "epoch_of sw_enrollment (if k = 0 then None else Some (sw_applied 0)) =
      Inr (k + 1, if k = 0 then ''sha256:'' @ replicate 64 (CHR ''0'') else ''sha256:m0'')"
    using k by (auto simp: epoch_of_def sw_enrollment_def sw_small_fields sw_receipt_kept j_number_def j_text_def max_integer_def sw_digest_def)
  have pr: "jx (sw_transition k) ''prior_epoch'' = jnat (k + 1)" "jx (sw_transition k) ''prior_artifact_set_digest'' =
      JStr (if k = 0 then ''sha256:'' @ replicate 64 (CHR ''0'') else ''sha256:m0'')"
    by (simp_all add: sw_transition_fields sw_digest_def)
  have st: "ac_stream_id sw_enrollment = ''s''" by (simp add: sw_enrollment_def)
  have "\<exists>s'. apply_enrolled sw_env sw_ledger sw_enrollment (sw_transition k) (sw_proof k) alone s = (Inr (sw_receipt k []), s') \<and>
      log_is s' (sw_log k @ sw_new k)"
  proof (rule log_apply[OF l small sw_check_apply[OF k] rd(1)[folded sw_scope(2)] rd(3) ep pr _ sw_event_valid[OF k] _ _ sw_claims[OF k]])
    show "applied_event sw_env sw_ledger sw_enrollment (''sha256:'' @ sw_name (CHR ''t'') k) \<lparr>sg_stream_id = ''s'', sg_producer = ''server'',
        sg_service = ''server'', sg_generation = 1, sg_kinds = [''activation-applied'']\<rparr> (sw_receipt k []) (pf_now (sw_proof k))
        (last_in_stream (ac_stream_id sw_enrollment) (sg_generation \<lparr>sg_stream_id = ''s'', sg_producer = ''server'',
        sg_service = ''server'', sg_generation = 1, sg_kinds = [''activation-applied'']\<rparr>) ?es) = Inr (sw_event k)"
      unfolding st using sw_applied_event[OF k refl] by simp
    show "\<forall>y \<in> set ?es. jx (sd_value y) ''event_id'' \<noteq> jx (sw_event k) ''event_id''"
      by (simp add: sw_event_fields) (simp add: sw_name_def)
    show "\<forall>a \<in> set (if k = 0 then [] else [\<lparr>sd_value = sw_transition 0, sd_seq = 2, sd_received_at = 7\<rparr>]).
        jx (sd_value a) ''transition'' \<noteq> jx (sw_transition k) ''transition''"
      by (simp add: sw_transition_fields) (simp add: sw_name_def)
    show "sw_new k \<noteq> []" "list_all plain (sw_new k)" by (simp_all add: sw_new_def Let_def plain_def new_claim_fact_def)
  qed
  then show ?thesis
    by (simp add: apply_activation_def log_enrolled[OF l sw_enrollment_check rd(2)] alone_shift)
qed

definition sw_state :: mem_state where
  "sw_state = fold (\<lambda>c s. snd (carry_out sw_env sw_ledger c alone s))
     [Enrol sw_enrollment, Apply sw_enrollment (sw_transition 0) (sw_proof 0), Apply sw_enrollment (sw_transition 1) (sw_proof 1)] demo_root"

lemma sw_reach: "ledger_reaches sw_env demo_env demo_gen ''memv-'' sw_state"
proof -
  have step: "ledger_reaches sw_env demo_env demo_gen ''memv-'' (snd (carry_out sw_env sw_ledger c alone s))"
    if r: "ledger_reaches sw_env demo_env demo_gen ''memv-'' s" for c s
  proof -
    have "action_step sw_env demo_env demo_gen ''memv-'' s (snd (carry_out sw_env sw_ledger c alone s))"
      by (rule action_step.call[OF prod.collapse[symmetric]])
    with r show ?thesis unfolding ledger_reaches_def by (meson rtranclp.rtrancl_into_rtrancl)
  qed
  have "protected_ok demo_env demo_gen ''memv-'' demo_root" using cell_start by (simp add: reads_as_ledger_def)
  moreover have "rows (ms_claims demo_root) ''memv-'' = []" by (simp add: rows_def)
  ultimately have "ledger_reaches sw_env demo_env demo_gen ''memv-'' demo_root" unfolding ledger_reaches_def by blast
  then show ?thesis unfolding sw_state_def by (simp only: fold_simps step)
qed

lemma sw_logged: "log_is sw_state (sw_log 2)"
proof -
  have "protected_ok demo_env demo_gen ''memv-'' demo_root" "head demo_root ''memv-'' = 0" using cell_start by (simp_all add: reads_as_ledger_def)
  then have "log_is demo_root []" by (simp add: log_is_def rows_def)
  moreover have "find_enrollment sw_env sw_enrolled (rows (ms_claims demo_root) ''memv-'') = Inr False" by (simp add: rows_def)
  ultimately obtain s0 where s0: "carry_out sw_env sw_ledger (Enrol sw_enrollment) alone demo_root = (Inr JNull, s0)" "log_is s0 (sw_log 0)"
    using log_enrol[OF _ sw_enrollment_check _ sw_encoded[OF sw_known_parts(1)]] by fastforce
  obtain s1 where s1: "carry_out sw_env sw_ledger (Apply sw_enrollment (sw_transition 0) (sw_proof 0)) alone s0 = (Inr (sw_receipt 0 []), s1)"
    "log_is s1 (sw_log (Suc 0))" using sw_step[OF _ s0(2)] by auto
  obtain s2 where s2: "carry_out sw_env sw_ledger (Apply sw_enrollment (sw_transition 1) (sw_proof 1)) alone s1 = (Inr (sw_receipt 1 []), s2)"
    "log_is s2 (sw_log (Suc 1))" using sw_step[of 1 s1] s1(2) by auto
  have "sw_state = s2" by (simp only: sw_state_def fold_simps s0(1) s1(1) s2(1) snd_conv)
  with s2(2) show ?thesis by (simp only: numeral_2_eq_2 One_nat_def)
qed

lemma sw_recorded: "enrolments_of sw_env ''memv-'' sw_state = [sw_enrolled]" "applied_of sw_env ''memv-'' sw_state = [sw_applied 0, sw_applied 1]"
    "artifacts_of sw_env ''memv-'' sw_state = [sw_transition 0, sw_transition 1]"
proof -
  obtain ids where ids: "rows (ms_claims sw_state) ''memv-'' = map (\<lambda>i. stored_claim (ids i) ''memv-'' (i + 1) (sw_log 2 ! i)) [0..<length (sw_log 2)]"
    using sw_logged by (auto simp: log_is_def)
  note c = sw_canonical[OF sw_known_parts(1)] sw_canonical[OF sw_known_records(6)[of 0]] sw_canonical[OF sw_known_records(6)[of 1]]
    sw_canonical[OF sw_known_records(1)[of 0]] sw_canonical[OF sw_known_records(1)[of 1]]
  show "enrolments_of sw_env ''memv-'' sw_state = [sw_enrolled]" "applied_of sw_env ''memv-'' sw_state = [sw_applied 0, sw_applied 1]"
    "artifacts_of sw_env ''memv-'' sw_state = [sw_transition 0, sw_transition 1]"
    using c by (simp_all add: enrolments_of_def applied_of_def artifacts_of_def recs_def ids sw_new_def Let_def subjects sw_subjects numeral_2_eq_2)
qed

text \<open>Both transitions: the first starts at the enrolment, the second where the first ended.\<close>

lemma activation_epochs_chain_witness:
  "let P = applied_of sw_env ''memv-'' sw_state; first_receipt = jx (P ! 0) ''receipt''; second_receipt = jx (P ! 1) ''receipt'' in
     length P = 2 \<and> (\<exists>n. enrolments_of sw_env ''memv-'' sw_state = [n] \<and> jx first_receipt ''prior_epoch'' = jx n ''initial_epoch'') \<and>
     jx second_receipt ''prior_epoch'' = jx first_receipt ''successor_epoch'' \<and>
     (\<exists>t \<in> set (artifacts_of sw_env ''memv-'' sw_state). jx t ''prior_artifact_set_digest'' = jx first_receipt ''artifact_set_digest'') \<and>
     jx first_receipt ''transition'' \<noteq> jx second_receipt ''transition''"
proof -
  note c = activation_epochs_chain[OF sw_codec_ok sw_stream_shape sw_reach, THEN conjunct2, rule_format, OF _ refl]
  have l: "length (applied_of sw_env ''memv-'' sw_state) = 2" by (simp add: sw_recorded)
  from c[of 0] c[of 1] l show ?thesis by (simp add: Let_def) blast
qed

end
