(* ===== verification/Money.thy ===== *)
theory Money
  imports Kernel_Types
begin

text \<open>
  Exact accounting (\<open>munarium-core/src/money.rs\<close>): operator-supplied tariffs, usage reported by a
  provider, and the cost in micro-units. A \<open>u64\<close> is a natural number with its checks written out; the
  products of two \<open>u64\<close> fit the \<open>u128\<close> they are taken in. Instants are a linear order.
\<close>

definition u128_max :: nat where
  "u128_max = 2 ^ 128 - 1"

record rate =
  rt_micro_units :: nat
  rt_per_tokens :: nat

datatype basis = Inclusive | Partitioned

text \<open>\<open>rates\<close> lists the entries of the map by key.\<close>

record 't price_snapshot =
  ps_id :: string
  ps_provider :: string
  ps_route :: string
  ps_model :: string
  ps_currency :: string
  ps_valid_from :: 't
  ps_valid_until :: 't
  ps_basis :: basis
  ps_rates :: "(string \<times> rate) list"

definition CATEGORIES :: "string list" where
  "CATEGORIES = [''input'', ''output'', ''cache_read'', ''cache_write'', ''reasoning'', ''context'']"

definition lower_hex :: "char \<Rightarrow> bool" where
  "lower_hex c \<longleftrightarrow> ascii_digit c \<or> (let n = (of_char c :: nat) in 97 \<le> n \<and> n \<le> 102)"

definition ascii_upper :: "char \<Rightarrow> bool" where
  "ascii_upper c = (let n = (of_char c :: nat) in 65 \<le> n \<and> n \<le> 90)"

definition validate_price :: "('t :: linorder) price_snapshot \<Rightarrow> kernel_error + unit" where
  "validate_price p =
     (if ps_id p = [] \<or> ps_provider p = [] \<or> ps_model p = [] \<or> byte_len (ps_route p) \<noteq> 64 \<or> \<not> list_all lower_hex (ps_route p)
         \<or> byte_len (ps_currency p) \<noteq> 3 \<or> \<not> list_all ascii_upper (ps_currency p) \<or> ps_valid_until p \<le> ps_valid_from p
         \<or> list_ex (\<lambda>(_, r). rt_per_tokens r = 0) (ps_rates p) \<or> list_ex (\<lambda>(k, _). k \<notin> set CATEGORIES) (ps_rates p)
         \<or> ps_basis p = Inclusive \<and> list_ex (\<lambda>(k, _). k \<noteq> ''input'' \<and> k \<noteq> ''output'') (ps_rates p)
      then Inl (InvalidInput ''invalid price snapshot'') else Inr ())"

record money_usage =
  us_input :: "nat option"
  us_output :: "nat option"
  us_cache_read :: "nat option"
  us_cache_write :: "nat option"
  us_reasoning :: "nat option"
  us_context :: "nat option"
  us_unknown_categories :: bool

record calculation =
  ca_price_id :: "string option"
  ca_currency :: "string option"
  ca_micro_units :: "string option"
  ca_missing_price :: bool
  ca_missing_usage :: bool
  ca_unknown_categories :: bool

definition or_zero :: "nat option \<Rightarrow> nat" where
  "or_zero n = (case n of None \<Rightarrow> 0 | Some k \<Rightarrow> k)"

definition subset_exceeds :: "money_usage \<Rightarrow> bool" where
  "subset_exceeds u =
     ((case us_input u of None \<Rightarrow> False
       | Some i \<Rightarrow> (case checked_add (or_zero (us_cache_read u)) (or_zero (us_cache_write u)) of None \<Rightarrow> True | Some n \<Rightarrow> i < n))
      \<or> (case (us_reasoning u, us_output u) of (Some r, Some out) \<Rightarrow> out < r | _ \<Rightarrow> False))"

definition effective_price :: "('t :: linorder) price_snapshot option \<Rightarrow> 't \<Rightarrow> 't price_snapshot option" where
  "effective_price price submitted =
     (case price of None \<Rightarrow> None
      | Some p \<Rightarrow> if ps_valid_from p \<le> submitted \<and> submitted < ps_valid_until p then Some p else None)"

fun required_rates :: "basis \<Rightarrow> string list" where
  "required_rates Inclusive = [''input'', ''output'']"
| "required_rates Partitioned = CATEGORIES"

text \<open>The tokens of each category in the order of the map, and the flags set while counting; \<open>None\<close>
  when a count is missing.\<close>

definition partitioned_counts :: "money_usage \<Rightarrow> nat \<Rightarrow> nat \<Rightarrow> kernel_error + (string \<times> nat) list option" where
  "partitioned_counts u i out =
     (case (us_cache_read u, us_cache_write u, us_reasoning u, us_context u) of
        (Some r, Some w, Some g, Some ctx) \<Rightarrow>
          res_bind (ok_or (Option.bind (checked_sub i r) (\<lambda>n. checked_sub n w)) (InvalidInput ''cache usage exceeds input total'')) (\<lambda>ordinary.
          res_bind (ok_or (checked_sub out g) (InvalidInput ''reasoning usage exceeds output total'')) (\<lambda>visible.
            Inr (Some [(''cache_read'', r), (''cache_write'', w), (''context'', ctx), (''input'', ordinary), (''output'', visible), (''reasoning'', g)])))
      | _ \<Rightarrow> Inr None)"

definition div_ceil :: "nat \<Rightarrow> nat \<Rightarrow> nat" where
  "div_ceil a b = (if a mod b = 0 then a div b else a div b + 1)"

definition charge :: "rate \<Rightarrow> nat \<Rightarrow> nat" where
  "charge r tokens = div_ceil (tokens * rt_micro_units r) (rt_per_tokens r)"

text \<open>The sum over the categories, and whether one has no rate.\<close>

fun charge_all :: "(string \<times> rate) list \<Rightarrow> (string \<times> nat) list \<Rightarrow> nat \<Rightarrow> bool \<Rightarrow> kernel_error + nat \<times> bool" where
  "charge_all rates [] acc missing = Inr (acc, missing)"
| "charge_all rates ((category, tokens) # cs) acc missing =
     (case map_of rates category of
        None \<Rightarrow> charge_all rates cs acc True
      | Some r \<Rightarrow>
          if acc + charge r tokens \<le> u128_max then charge_all rates cs (acc + charge r tokens) missing
          else Inl (InvalidInput ''monetary total overflow''))"

definition settle_total :: "('t :: linorder) price_snapshot \<Rightarrow> (string \<times> nat) list \<Rightarrow> calculation \<Rightarrow> kernel_error + calculation" where
  "settle_total p counts result =
     res_bind (charge_all (ps_rates p) counts 0 (ca_missing_price result)) (\<lambda>(acc, missing).
     let result = result\<lparr>ca_missing_price := missing\<rparr> in
     if \<not> ca_missing_price result \<and> \<not> ca_unknown_categories result
     then (if acc \<le> u64_max then Inr (result\<lparr>ca_micro_units := Some (dec acc)\<rparr>)
           else Inl (InvalidInput ''monetary total exceeds u64 micro-units''))
     else Inr result)"

definition first_result :: "'t price_snapshot option \<Rightarrow> money_usage \<Rightarrow> calculation" where
  "first_result price u = \<lparr>ca_price_id = map_option ps_id price, ca_currency = map_option ps_currency price, ca_micro_units = None,
     ca_missing_price = (price = None), ca_missing_usage = (us_input u = None \<or> us_output u = None),
     ca_unknown_categories = us_unknown_categories u\<rparr>"

definition unpriced :: "'t price_snapshot \<Rightarrow> bool" where
  "unpriced p = list_ex (\<lambda>k. map_of (ps_rates p) k = None) (required_rates (ps_basis p))"

definition calculate_priced :: "('t :: linorder) price_snapshot \<Rightarrow> money_usage \<Rightarrow> calculation \<Rightarrow> kernel_error + calculation" where
  "calculate_priced p u result =
     (case (us_input u, us_output u) of
        (Some i, Some out) \<Rightarrow>
          if ps_basis p = Partitioned
          then res_bind (partitioned_counts u i out) (\<lambda>counts.
            case counts of
              None \<Rightarrow> Inr (result\<lparr>ca_missing_usage := True\<rparr>)
            | Some cs \<Rightarrow> settle_total p cs result)
          else settle_total p [(''input'', i), (''output'', out)]
            (if (case us_context u of None \<Rightarrow> False | Some n \<Rightarrow> 0 < n) then result\<lparr>ca_unknown_categories := True\<rparr> else result)
      | _ \<Rightarrow> Inr result)"

definition calculate :: "('t :: linorder) price_snapshot option \<Rightarrow> 't \<Rightarrow> money_usage \<Rightarrow> kernel_error + calculation" where
  "calculate price submitted u =
     (if subset_exceeds u then Inl (InvalidInput ''usage subset exceeds parent total'')
      else
      (let price = effective_price price submitted; result = first_result price u in
       case price of
         None \<Rightarrow> Inr result
       | Some p \<Rightarrow>
           res_bind (validate_price p) (\<lambda>_.
             calculate_priced p u (result\<lparr>ca_missing_price := ca_missing_price result \<or> unpriced p\<rparr>))))"

section \<open>The cost of a call\<close>

lemma div_ceil_least: "0 < b \<Longrightarrow> a \<le> div_ceil a b * b \<and> div_ceil a b * b < a + b"
proof -
  assume b: "0 < b"
  have a: "a = a div b * b + a mod b" by simp
  have "(a div b + 1) * b = a div b * b + b" by simp
  with mod_less_divisor[OF b, of a] a show ?thesis
    by (cases "a mod b = 0") (simp_all only: div_ceil_def if_P if_not_P not_False_eq_True refl, linarith+)
qed

text \<open>The category costs as a specification: every category has a rate, and the total is the sum.\<close>

definition cost_of :: "(string \<times> rate) list \<Rightarrow> (string \<times> nat) list \<Rightarrow> nat" where
  "cost_of rates counts = (\<Sum>(k, n)\<leftarrow>counts. charge (the (map_of rates k)) n)"

lemma charge_all_ok:
  "charge_all rates counts acc missing = Inr (amount, False) \<Longrightarrow>
   amount = acc + cost_of rates counts \<and> \<not> missing \<and> list_all (\<lambda>(k, _). map_of rates k \<noteq> None) counts"
  by (induction rates counts acc missing rule: charge_all.induct)
    (auto simp: cost_of_def split: option.splits if_splits)

lemma charge_all_missing: "charge_all rates counts acc missing = Inr (amount, m) \<Longrightarrow> missing \<Longrightarrow> m"
  by (induction rates counts acc missing rule: charge_all.induct) (auto split: option.splits if_splits)

lemma settle_total_priced:
  assumes "settle_total p counts r0 = Inr r" "ca_micro_units r0 = None"
  shows "(ca_micro_units r = None \<or>
      ca_micro_units r = Some (dec (cost_of (ps_rates p) counts)) \<and> cost_of (ps_rates p) counts \<le> u64_max \<and>
      list_all (\<lambda>(k, _). map_of (ps_rates p) k \<noteq> None) counts \<and> \<not> ca_missing_price r0 \<and> \<not> ca_unknown_categories r0) \<and>
    ca_missing_usage r = ca_missing_usage r0 \<and> ca_unknown_categories r = ca_unknown_categories r0"
proof -
  from assms(1) obtain amount m where c: "charge_all (ps_rates p) counts 0 (ca_missing_price r0) = Inr (amount, m)"
      and r: "(if \<not> m \<and> \<not> ca_unknown_categories r0 then (if amount \<le> u64_max
          then Inr (r0\<lparr>ca_missing_price := m, ca_micro_units := Some (dec amount)\<rparr>) else Inl (InvalidInput ''monetary total exceeds u64 micro-units''))
        else Inr (r0\<lparr>ca_missing_price := m\<rparr>)) = Inr r"
    by (auto simp: settle_total_def res_bind_eq_Inr Let_def)
  show ?thesis
  proof (cases "\<not> m \<and> \<not> ca_unknown_categories r0")
    case True
    with c have "amount = cost_of (ps_rates p) counts" "list_all (\<lambda>(k, _). map_of (ps_rates p) k \<noteq> None) counts" "\<not> ca_missing_price r0"
      using charge_all_ok[of "ps_rates p" counts 0 "ca_missing_price r0" amount] by auto
    with True r show ?thesis by (auto split: if_splits)
  next
    case False
    with r assms(2) show ?thesis by auto
  qed
qed

text \<open>The tokens a call is charged for: with an inclusive tariff its two totals, with a partitioned one
  the six disjoint categories.\<close>

definition charged_tokens :: "basis \<Rightarrow> money_usage \<Rightarrow> (string \<times> nat) list \<Rightarrow> bool" where
  "charged_tokens b u counts \<longleftrightarrow>
     (case b of
        Inclusive \<Rightarrow> counts = [(''input'', the (us_input u)), (''output'', the (us_output u))] \<and> or_zero (us_context u) = 0
      | Partitioned \<Rightarrow> map fst counts = [''cache_read'', ''cache_write'', ''context'', ''input'', ''output'', ''reasoning''] \<and>
          map_of counts ''cache_read'' = us_cache_read u \<and> map_of counts ''cache_write'' = us_cache_write u \<and>
          map_of counts ''context'' = us_context u \<and> map_of counts ''reasoning'' = us_reasoning u \<and>
          the (map_of counts ''input'') + the (us_cache_read u) + the (us_cache_write u) = the (us_input u) \<and>
          the (map_of counts ''output'') + the (us_reasoning u) = the (us_output u))"

lemma partitioned_charged:
  assumes "partitioned_counts u i out = Inr (Some cs)" "us_input u = Some i" "us_output u = Some out"
  shows "charged_tokens Partitioned u cs"
  using assms
  by (auto simp: partitioned_counts_def charged_tokens_def res_bind_eq_Inr ok_or_eq_Inr checked_sub_def
    split: option.splits if_splits bind_splits)

lemma validate_price_rates: "validate_price p = Inr () \<Longrightarrow> map_of (ps_rates p) k = Some r \<Longrightarrow> 0 < rt_per_tokens r"
  by (auto simp: validate_price_def list_ex_iff split: if_splits dest!: map_of_SomeD)

lemma validate_price_unit: "validate_price p = Inr x \<Longrightarrow> validate_price p = Inr ()"
  by simp

text \<open>C40. A cost is never guessed: when the calculation names one, the price was valid at the submission,
  every category of its basis has a declared rate, nothing was missing or unknown, the categories are
  disjoint and add up to the reported totals, and the amount is the exact sum of the category costs, each the
  least whole number of micro-units that covers it.\<close>

theorem cost_exact:
  assumes "calculate price submitted u = Inr r" "ca_micro_units r = Some s"
  shows "\<exists>p counts. price = Some p \<and> ps_valid_from p \<le> submitted \<and> submitted < ps_valid_until p \<and>
    us_input u \<noteq> None \<and> us_output u \<noteq> None \<and> \<not> us_unknown_categories u \<and> charged_tokens (ps_basis p) u counts \<and>
    list_all (\<lambda>k. map_of (ps_rates p) k \<noteq> None) (required_rates (ps_basis p)) \<and>
    s = dec (\<Sum>(k, n)\<leftarrow>counts. charge (the (map_of (ps_rates p) k)) n) \<and>
    list_all (\<lambda>(k, n). case map_of (ps_rates p) k of None \<Rightarrow> False | Some x \<Rightarrow>
      n * rt_micro_units x \<le> charge x n * rt_per_tokens x \<and> charge x n * rt_per_tokens x < n * rt_micro_units x + rt_per_tokens x) counts"
proof -
  have ns: "\<not> subset_exceeds u" using assms(1) by (auto simp: calculate_def)
  from assms obtain p where ep: "effective_price price submitted = Some p"
    by (auto simp: calculate_def first_result_def Let_def split: if_splits option.splits)
  then have p: "price = Some p" "ps_valid_from p \<le> submitted" "submitted < ps_valid_until p"
    by (auto simp: effective_price_def split: option.splits if_splits)
  define r0 where "r0 = (first_result (Some p) u)\<lparr>ca_missing_price := unpriced p\<rparr>"
  have r0: "ca_micro_units r0 = None" "ca_missing_price r0 = unpriced p" "ca_unknown_categories r0 = us_unknown_categories u"
    by (simp_all add: r0_def first_result_def)
  have "ca_missing_price (first_result (Some p) u) = False" by (simp add: first_result_def)
  then have "res_bind (validate_price p) (\<lambda>_. calculate_priced p u r0) = Inr r"
    using assms(1) unfolding calculate_def if_not_P[OF ns] ep Let_def option.case r0_def by simp
  then have v: "validate_price p = Inr ()" and c: "calculate_priced p u r0 = Inr r" by (auto simp: res_bind_eq_Inr)
  have none: "ca_micro_units (r0\<lparr>ca_missing_usage := True\<rparr>) = None" using r0 by simp
  from c obtain i out where io: "us_input u = Some i" "us_output u = Some out"
    using assms(2) r0(1) by (auto simp: calculate_priced_def split: option.splits)
  obtain counts r1 where st: "settle_total p counts r1 = Inr r" and ct: "charged_tokens (ps_basis p) u counts \<or> ca_unknown_categories r1"
      and r1: "ca_micro_units r1 = None" "ca_missing_price r1 = ca_missing_price r0" "ca_unknown_categories r0 \<longrightarrow> ca_unknown_categories r1"
  proof (cases "ps_basis p")
    case Inclusive
    let ?r1 = "if (case us_context u of None \<Rightarrow> False | Some n \<Rightarrow> 0 < n) then r0\<lparr>ca_unknown_categories := True\<rparr> else r0"
    from c io Inclusive have "settle_total p [(''input'', i), (''output'', out)] ?r1 = Inr r" by (simp add: calculate_priced_def)
    moreover have "charged_tokens Inclusive u [(''input'', i), (''output'', out)] \<or> ca_unknown_categories ?r1"
      using io by (auto simp: charged_tokens_def or_zero_def split: option.splits)
    ultimately show thesis using that[of _ ?r1] Inclusive r0(1) by auto
  next
    case Partitioned
    from c io Partitioned obtain k where k: "partitioned_counts u i out = Inr k"
        "(case k of None \<Rightarrow> Inr (r0\<lparr>ca_missing_usage := True\<rparr>) | Some cs \<Rightarrow> settle_total p cs r0) = Inr r"
      by (auto simp: calculate_priced_def res_bind_eq_Inr)
    with assms(2) none obtain cs where "k = Some cs" "settle_total p cs r0 = Inr r" by (cases k) auto
    with k io Partitioned none show thesis using that[of cs r0] partitioned_charged r0(1) by auto
  qed
  from settle_total_priced[OF st r1(1)] assms(2) have f: "s = dec (cost_of (ps_rates p) counts)"
      "list_all (\<lambda>(k, _). map_of (ps_rates p) k \<noteq> None) counts" "\<not> ca_missing_price r0" "\<not> ca_unknown_categories r1"
    using r1(2) by auto
  have "list_all (\<lambda>(k, n). case map_of (ps_rates p) k of None \<Rightarrow> False | Some x \<Rightarrow>
      n * rt_micro_units x \<le> charge x n * rt_per_tokens x \<and> charge x n * rt_per_tokens x < n * rt_micro_units x + rt_per_tokens x) counts"
    using f(2) validate_price_rates[OF v] div_ceil_least by (fastforce simp: list_all_iff charge_def)
  with p io ct f r1(3) show ?thesis
    by (intro exI[of _ p] exI[of _ counts]) (auto simp: cost_of_def r0 unpriced_def list_ex_iff list_all_iff)
qed

definition demo_price :: "nat price_snapshot" where
  "demo_price = \<lparr>ps_id = ''p1'', ps_provider = ''fictional'', ps_route = replicate 64 CHR ''a'', ps_model = ''test'', ps_currency = ''USD'',
     ps_valid_from = 100, ps_valid_until = 200, ps_basis = Inclusive,
     ps_rates = [(''input'', \<lparr>rt_micro_units = 1, rt_per_tokens = 3\<rparr>), (''output'', \<lparr>rt_micro_units = 2, rt_per_tokens = 1\<rparr>)]\<rparr>"

definition demo_usage :: money_usage where
  "demo_usage = \<lparr>us_input = Some 4, us_output = Some 5, us_cache_read = None, us_cache_write = None, us_reasoning = None, us_context = None,
     us_unknown_categories = False\<rparr>"

lemma demo_price_valid: "validate_price demo_price = Inr ()"
  by code_simp

lemma demo_total: "charge_all (ps_rates demo_price) [(''input'', 4), (''output'', 5)] 0 False = Inr (12, False)"
  by (simp add: demo_price_def charge_def div_ceil_def u128_max_def)

lemma demo_calculation: "\<exists>r. calculate (Some demo_price) 150 demo_usage = Inr r \<and> ca_micro_units r = Some ''12''"
proof -
  have e: "effective_price (Some demo_price) 150 = Some demo_price" by (simp add: effective_price_def demo_price_def)
  have d: "dec 12 = ''12''" by code_simp
  have b: "ps_basis demo_price = Inclusive" "\<not> unpriced demo_price" by (simp_all add: demo_price_def unpriced_def)
  have u: "\<not> subset_exceeds demo_usage" "us_input demo_usage = Some 4" "us_output demo_usage = Some 5" "us_context demo_usage = None"
    by (simp_all add: subset_exceeds_def demo_usage_def or_zero_def checked_add_def u64_max_def)
  have f: "ca_missing_price (first_result (Some demo_price) demo_usage) = False" "\<not> ca_unknown_categories (first_result (Some demo_price) demo_usage)"
    by (simp_all add: first_result_def demo_usage_def)
  show ?thesis
    by (simp add: calculate_def e u b f calculate_priced_def demo_price_valid res_bind_def settle_total_def demo_total d u64_max_def Let_def
      del: charge_all.simps)
qed

lemma cost_exact_witness: "\<exists>counts. charged_tokens (ps_basis demo_price) demo_usage counts \<and>
    ''12'' = dec (\<Sum>(k, n)\<leftarrow>counts. charge (the (map_of (ps_rates demo_price) k)) n)"
proof (rule exE[OF demo_calculation], elim conjE)
  fix r assume "calculate (Some demo_price) 150 demo_usage = Inr r" "ca_micro_units r = Some ''12''"
  from cost_exact[OF this] show ?thesis by auto
qed

end
