(* ===== verification/Hierarchy.thy ===== *)
theory Hierarchy
  imports Canonical
begin

text \<open>
  The evidence-provider seam (\<open>munarium-core/src/hierarchy.rs\<close>): layers of a plan, the closed set of
  blocks a layer may contribute, and the recorded decision of a turn. Of a search hit only the fields
  that composition reads are kept; its scores and ranks are not read here.
\<close>

section \<open>Plans\<close>

datatype answer_role = AnswerSupporting | AnswerPrimary | AnswerControlling

fun answer_role_str :: "answer_role \<Rightarrow> string" where
  "answer_role_str AnswerSupporting = ''supporting''"
| "answer_role_str AnswerPrimary = ''primary''"
| "answer_role_str AnswerControlling = ''controlling''"

definition answer_role_parse :: "string \<Rightarrow> answer_role option" where
  "answer_role_parse s =
     (if s = ''supporting'' then Some AnswerSupporting
      else if s = ''primary'' then Some AnswerPrimary
      else if s = ''controlling'' then Some AnswerControlling
      else None)"

datatype layer_requirement = LayerRequired | LayerOptional | LayerFallback

record evidence_layer =
  el_name :: string
  el_sources :: "string list"
  el_requirement :: layer_requirement
  el_role :: answer_role
  el_context_char_budget :: "nat option"
  el_preserve_complete_result :: bool
  el_deadline_ms :: "nat option"

record semantic_filter_selection =
  sf_dimension :: string
  sf_value :: string
  sf_ty :: string

record semantic_selection =
  se_measures :: "string list"
  se_dimensions :: "string list"
  se_filters :: "semantic_filter_selection list"

record query_intent =
  qi_question :: string
  qi_kind :: "string option"
  qi_explicit :: bool
  qi_selections :: "(string \<times> semantic_selection) list"

record evidence_plan =
  ep_profile :: string
  ep_intent :: query_intent
  ep_layers :: "evidence_layer list"
  ep_context_char_budget :: "nat option"
  ep_conflicts :: string

section \<open>Blocks\<close>

record evidence_refusal =
  rf_code :: string
  rf_message :: string
  rf_source :: "string option"

record count_block =
  cb_value :: int
  cb_rows_covered :: "int option"
  cb_rows_excluded :: "int option"
  cb_exclusion_reason :: "string option"
  cb_evidence_id :: "string option"

record table_block =
  tb_columns :: "string list"
  tb_rows :: "string option list list"
  tb_row_ids :: "string list"
  tb_truncated :: bool
  tb_evidence_id :: "string option"

record search_hit =
  sh_chunk_id :: string
  sh_source_path :: string
  sh_text :: string

datatype evidence_block =
    DocumentHits "search_hit list"
  | CompleteTable table_block
  | Count count_block
  | FactSlice "claim list"
  | Refusal evidence_refusal

fun supports_completeness :: "evidence_block \<Rightarrow> bool" where
  "supports_completeness (CompleteTable t) = (\<not> tb_truncated t)"
| "supports_completeness (Count _) = True"
| "supports_completeness (DocumentHits _) = False"
| "supports_completeness (FactSlice _) = False"
| "supports_completeness (Refusal _) = False"

fun block_empty :: "evidence_block \<Rightarrow> bool" where
  "block_empty (DocumentHits hits) = (hits = [])"
| "block_empty (CompleteTable t) = (tb_rows t = [])"
| "block_empty (Count _) = False"
| "block_empty (FactSlice claims) = (claims = [])"
| "block_empty (Refusal _) = True"

fun is_refusal :: "evidence_block \<Rightarrow> bool" where
  "is_refusal (Refusal _) = True"
| "is_refusal _ = False"

fun block_evidence_id :: "evidence_block \<Rightarrow> string option" where
  "block_evidence_id (CompleteTable t) = tb_evidence_id t"
| "block_evidence_id (Count c) = cb_evidence_id c"
| "block_evidence_id _ = None"

fun kind_str :: "evidence_block \<Rightarrow> string" where
  "kind_str (DocumentHits _) = ''document_hits''"
| "kind_str (CompleteTable _) = ''complete_table''"
| "kind_str (Count _) = ''count''"
| "kind_str (FactSlice _) = ''fact_slice''"
| "kind_str (Refusal _) = ''refusal''"

section \<open>The decision\<close>

record layer_outcome =
  lo_layer :: string
  lo_role :: answer_role
  lo_requirement :: layer_requirement
  lo_block :: string
  lo_evidence_id :: "string option"
  lo_supports_completeness :: bool
  lo_refusal_code :: "string option"
  lo_elapsed_ms :: nat

record hierarchy_decision =
  hy_profile :: string
  hy_intent_kind :: "string option"
  hy_intent_explicit :: bool
  hy_layers :: "layer_outcome list"
  hy_completeness_available :: bool
  hy_disclosed_conflicts :: nat
  hy_conflicts_policy :: string

definition required_layer_failed :: "hierarchy_decision \<Rightarrow> layer_outcome option" where
  "required_layer_failed d = find (\<lambda>l. lo_requirement l = LayerRequired \<and> lo_block l = ''refusal'') (hy_layers d)"

text \<open>A provider: its identifier, the sources it serves, and what it fetches for a layer as the \<open>k\<close>-th
  layer that runs (the planes behind it may change between two layers).\<close>

record evidence_provider =
  pr_id :: string
  pr_can_serve :: "string \<Rightarrow> bool"
  pr_fetch :: "nat \<Rightarrow> evidence_layer \<Rightarrow> query_intent \<Rightarrow> kernel_error + evidence_block"

lemma answer_role_roundtrip: "answer_role_parse (answer_role_str r) = Some r"
  by (cases r) (simp_all add: answer_role_parse_def)

lemma kind_str_refusal: "kind_str b = ''refusal'' \<longleftrightarrow> is_refusal b"
  by (cases b) simp_all

lemma refusal_empty: "is_refusal b \<Longrightarrow> block_empty b \<and> \<not> supports_completeness b"
  by (cases b) simp_all

end
