(* ===== verification/Composer.thy ===== *)
theory Composer
  imports Registers Digests
begin

text \<open>
  The context composer (\<open>munarium-core/src/composer.rs\<close>) and the evidence envelope
  (\<open>munarium-core/src/model_evidence.rs\<close>). A brief is a list of titled sections; under a token budget
  the digests get coarser level by level, then the oldest facts go. \<open>dash\<close> is the dash of the
  directives, as in \<open>Registers\<close>; SHA-256 is the parameter \<open>sha\<close>.
\<close>

definition NL :: string where
  "NL = [CHR 0x0A]"

type_synonym sections = "(string \<times> string) list"

definition envelope :: "string \<Rightarrow> json \<Rightarrow> string option \<Rightarrow> json \<Rightarrow> json" where
  "envelope source_role historical_pin citation_id content =
     jobj [(''source_role'', JStr source_role), (''historical_pin'', historical_pin), (''citation_id'', jopt JStr citation_id),
       (''execution_authority'', JBool False), (''approval_authority'', JBool False), (''content'', content)]"

definition context_model_evidence :: "sections \<Rightarrow> json \<Rightarrow> json" where
  "context_model_evidence ctx historical_pin = envelope ''ledger_context'' historical_pin None
     (jobj [(''sections'', JArr (map (\<lambda>(title, body). JArr [JStr title, JStr body]) ctx))])"

definition context_text :: "sections \<Rightarrow> string" where
  "context_text ctx = join (NL @ NL) (map (\<lambda>(title, body). ''## '' @ title @ NL @ body) ctx)"

definition estimated_tokens :: "sections \<Rightarrow> nat" where
  "estimated_tokens ctx = byte_len (context_text ctx) div 4"

definition content_hash :: "(string \<Rightarrow> string) \<Rightarrow> sections \<Rightarrow> string" where
  "content_hash sha ctx = sha (context_text ctx)"

section \<open>One rendering\<close>

datatype digest_level = AllTier0 | ActiveGroupTier0RestTier1 | AllTier1 | RollupOnly

definition LEVELS :: "digest_level list" where
  "LEVELS = [AllTier0, ActiveGroupTier0RestTier1, AllTier1, RollupOnly]"

definition pick_tier :: "mesh_snapshot \<Rightarrow> nat \<Rightarrow> digest list" where
  "pick_tier sn tier = sort_key d_scope_path (filter (\<lambda>d. d_tier d = tier) (sn_digests sn))"

fun chosen_digests :: "mesh_snapshot \<Rightarrow> string option \<Rightarrow> digest_level \<Rightarrow> digest list" where
  "chosen_digests sn scp AllTier0 = pick_tier sn 0"
| "chosen_digests sn scp ActiveGroupTier0RestTier1 =
     (let active = map_option group_of scp in
      filter (\<lambda>d. case active of None \<Rightarrow> False | Some g \<Rightarrow> group_of (d_scope_path d) = g) (pick_tier sn 0) @
      filter (\<lambda>d. case active of None \<Rightarrow> True | Some g \<Rightarrow> d_scope_path d \<noteq> g) (pick_tier sn 1))"
| "chosen_digests sn scp AllTier1 = pick_tier sn 1"
| "chosen_digests sn scp RollupOnly = pick_tier sn 2"

definition digest_body :: "mesh_snapshot \<Rightarrow> string option \<Rightarrow> digest_level \<Rightarrow> string" where
  "digest_body sn scp level = join NL (map d_content (chosen_digests sn scp level))"

definition pin_section :: "mesh_snapshot \<Rightarrow> sections" where
  "pin_section sn = (case sn_as_of_seq sn of
     None \<Rightarrow> []
   | Some pin \<Rightarrow> [(''Point-in-time pin'', ''This brief reflects the ledger as of seq '' @ dec pin
       @ (case sn_as_of_date sn of None \<Rightarrow> '''' | Some d \<Rightarrow> '' (as of '' @ d @ '')'') @ ''. Later facts are not visible.'')])"

definition digest_section :: "mesh_snapshot \<Rightarrow> string option \<Rightarrow> digest_level \<Rightarrow> sections" where
  "digest_section sn scp level = (let body = digest_body sn scp level in if body = [] then [] else [(''Canon digest'', body)])"

definition fact_section :: "mesh_snapshot \<Rightarrow> nat option \<Rightarrow> sections" where
  "fact_section sn keep =
     (let start = (case keep of None \<Rightarrow> 0 | Some k \<Rightarrow> length (sn_facts sn) - k);
          facts = map normalized_text (drop start (sn_facts sn)) in
      if facts = [] then [] else [(''Accepted facts'', join NL facts)])"

definition promise_line :: "promise \<Rightarrow> string" where
  "promise_line p = ''['' @ p_key p @ ''] '' @ p_description p
     @ (case p_due_scope p of None \<Rightarrow> '''' | Some d \<Rightarrow> '' (due: '' @ d @ '')'')"

text \<open>Locked details, open promises and frequency budgets.\<close>

definition register_sections :: "string \<Rightarrow> mesh_snapshot \<Rightarrow> sections" where
  "register_sections dash sn =
     (if sn_anchors sn = [] then []
      else [(''Locked details'', join NL (map (\<lambda>(_, a). a_detail_key a @ ''='' @ a_locked_value a @ '' [locked]'') (sn_anchors sn)))])
   @ (let open_promises = map promise_line (filter (\<lambda>p. p_status p = Open) (sn_promises sn)) in
      if open_promises = [] then [] else [(''Open promises'', join NL open_promises)])
   @ (let d = directives dash (sn_counters sn) in if d = [] then [] else [(''Frequency budgets'', d)])"

definition compose_at :: "string \<Rightarrow> mesh_snapshot \<Rightarrow> string option \<Rightarrow> digest_level \<Rightarrow> nat option \<Rightarrow> sections" where
  "compose_at dash sn scp level keep =
     pin_section sn @ digest_section sn scp level @ fact_section sn keep @ register_sections dash sn"

section \<open>Fitting a budget\<close>

fun try_levels :: "string \<Rightarrow> mesh_snapshot \<Rightarrow> string option \<Rightarrow> nat option \<Rightarrow> digest_level list \<Rightarrow> sections option" where
  "try_levels dash sn scp budget [] = None"
| "try_levels dash sn scp budget (l # ls) =
     (let ctx = compose_at dash sn scp l None in
      case budget of
        None \<Rightarrow> Some ctx
      | Some b \<Rightarrow> if estimated_tokens ctx \<le> b then Some ctx else try_levels dash sn scp budget ls)"

text \<open>The binary search: \<open>lo\<close> is one past the greatest number that fits, or 0.\<close>

function keep_search :: "(nat \<Rightarrow> bool) \<Rightarrow> nat \<Rightarrow> nat \<Rightarrow> nat" where
  "keep_search fits lo hi =
     (if lo < hi then
        let mid = lo + (hi - lo) div 2 in
        if fits mid then keep_search fits (mid + 1) hi else keep_search fits lo mid
      else lo)"
  by pat_completeness auto
termination
  by (relation "measure (\<lambda>(_, lo, hi). hi - lo)") auto

declare keep_search.simps [simp del]

definition compose :: "string \<Rightarrow> mesh_snapshot \<Rightarrow> string option \<Rightarrow> nat option \<Rightarrow> sections" where
  "compose dash sn scp budget =
     (case try_levels dash sn scp budget LEVELS of
        Some ctx \<Rightarrow> ctx
      | None \<Rightarrow>
          (case budget of
             None \<Rightarrow> compose_at dash sn scp RollupOnly None
           | Some b \<Rightarrow>
               let lo = keep_search (\<lambda>k. estimated_tokens (compose_at dash sn scp RollupOnly (Some k)) \<le> b) 0 (length (sn_facts sn))
               in compose_at dash sn scp RollupOnly (Some (lo - 1))))"

section \<open>The search\<close>

text \<open>On a predicate that holds below some point and fails from it on, the search finds that point.\<close>

lemma keep_search_finds:
  assumes "\<And>i j. i \<le> j \<Longrightarrow> j < n \<Longrightarrow> fits j \<Longrightarrow> fits i" "lo \<le> hi" "hi \<le> n" "\<forall>i < lo. fits i" "\<forall>i. hi \<le> i \<longrightarrow> i < n \<longrightarrow> \<not> fits i"
  shows "keep_search fits lo hi \<le> hi \<and> (\<forall>i < keep_search fits lo hi. fits i) \<and> (\<forall>i. keep_search fits lo hi \<le> i \<longrightarrow> i < n \<longrightarrow> \<not> fits i)"
  using assms
proof (induction fits lo hi rule: keep_search.induct)
  case (1 fits lo hi)
  show ?case
  proof (cases "lo < hi")
    case False
    then have "keep_search fits lo hi = lo" by (subst keep_search.simps) simp
    with False "1.prems" show ?thesis by simp
  next
    case True
    define mid where "mid = lo + (hi - lo) div 2"
    have mid: "lo \<le> mid" "mid < hi" using True by (auto simp: mid_def)
    show ?thesis
    proof (cases "fits mid")
      case True
      have "\<forall>i < mid + 1. fits i" using "1.prems"(1)[of _ mid] mid True "1.prems"(3) by simp
      with "1.IH"(1)[OF \<open>lo < hi\<close> mid_def] True mid "1.prems"
      have "keep_search fits (mid + 1) hi \<le> hi \<and> (\<forall>i < keep_search fits (mid + 1) hi. fits i) \<and>
        (\<forall>i. keep_search fits (mid + 1) hi \<le> i \<longrightarrow> i < n \<longrightarrow> \<not> fits i)" by simp
      moreover have "keep_search fits lo hi = keep_search fits (mid + 1) hi"
        using \<open>lo < hi\<close> True by (subst keep_search.simps) (simp add: mid_def Let_def)
      ultimately show ?thesis by simp
    next
      case False
      have "\<forall>i. mid \<le> i \<longrightarrow> i < n \<longrightarrow> \<not> fits i" using "1.prems"(1) False by blast
      with "1.IH"(2)[OF \<open>lo < hi\<close> mid_def False] mid "1.prems"
      have "keep_search fits lo mid \<le> mid \<and> (\<forall>i < keep_search fits lo mid. fits i) \<and>
        (\<forall>i. keep_search fits lo mid \<le> i \<longrightarrow> i < n \<longrightarrow> \<not> fits i)" by simp
      moreover have "keep_search fits lo hi = keep_search fits lo mid"
        using \<open>lo < hi\<close> False by (subst keep_search.simps) (simp add: mid_def Let_def)
      ultimately show ?thesis using mid by auto
    qed
  qed
qed

section \<open>More facts, more text\<close>

lemma byte_len_append [simp]: "byte_len (xs @ ys) = byte_len xs + byte_len ys"
  by (simp add: byte_len_def)

lemma byte_len_join: "byte_len (join sep xs) = sum_list (map byte_len xs) + byte_len sep * (length xs - 1)"
  by (induction sep xs rule: join.induct) (simp_all add: byte_len_def[of "[]"])

definition fact_lines :: "mesh_snapshot \<Rightarrow> nat \<Rightarrow> string list" where
  "fact_lines sn k = map normalized_text (drop (length (sn_facts sn) - k) (sn_facts sn))"

lemma drop_grow: "i \<le> j \<Longrightarrow> \<exists>older. drop i xs = older @ drop j xs"
  by (metis append_take_drop_id drop_drop le_add_diff_inverse2)

lemma fact_lines_grow: "k \<le> k' \<Longrightarrow> \<exists>older. fact_lines sn k' = older @ fact_lines sn k"
  using drop_grow[of "length (sn_facts sn) - k'" "length (sn_facts sn) - k" "map normalized_text (sn_facts sn)"]
  by (simp add: fact_lines_def drop_map)

lemma byte_len_join_suffix: "byte_len (join sep ys) \<le> byte_len (join sep (xs @ ys))"
proof -
  have "byte_len sep * (length ys - 1) \<le> byte_len sep * (length (xs @ ys) - 1)" by (intro mult_le_mono2) simp
  then show ?thesis unfolding byte_len_join map_append sum_list_append by (rule add_mono[OF le_add2])
qed

text \<open>A joined text grows with one of its parts, and with a part more.\<close>

lemma byte_len_join_part:
  assumes "byte_len x \<le> byte_len y"
  shows "byte_len (join sep (pre @ x # post)) \<le> byte_len (join sep (pre @ y # post))"
  using assms unfolding byte_len_join by simp

lemma byte_len_join_extra: "byte_len (join sep (pre @ post)) \<le> byte_len (join sep (pre @ y # post))"
proof -
  have "byte_len sep * (length (pre @ post) - 1) \<le> byte_len sep * (length (pre @ y # post) - 1)" by (intro mult_le_mono2) simp
  moreover have "sum_list (map byte_len (pre @ post)) \<le> sum_list (map byte_len (pre @ y # post))" by simp
  ultimately show ?thesis unfolding byte_len_join by (rule add_mono[rotated])
qed

lemma estimated_mono:
  assumes "k \<le> k'"
  shows "estimated_tokens (compose_at dash sn scp level (Some k)) \<le> estimated_tokens (compose_at dash sn scp level (Some k'))"
proof -
  obtain older where o: "fact_lines sn k' = older @ fact_lines sn k" using fact_lines_grow[OF assms] by blast
  have s: "fact_section sn (Some k) = (if fact_lines sn k = [] then [] else [(''Accepted facts'', join NL (fact_lines sn k))])" for k
    by (simp add: fact_section_def fact_lines_def Let_def)
  have j: "byte_len (join NL (fact_lines sn k)) \<le> byte_len (join NL (fact_lines sn k'))"
    unfolding o by (rule byte_len_join_suffix)
  define f where "f = (\<lambda>(title :: string, body). ''## '' @ title @ NL @ body)"
  let ?pre = "map f (pin_section sn @ digest_section sn scp level)" and ?post = "map f (register_sections dash sn)"
  have c: "byte_len (context_text (compose_at dash sn scp level (Some k))) =
      byte_len (join (NL @ NL) (?pre @ map f (fact_section sn (Some k)) @ ?post))" for k
    by (simp add: context_text_def compose_at_def f_def)
  have "byte_len (join (NL @ NL) (?pre @ map f (fact_section sn (Some k)) @ ?post)) \<le>
    byte_len (join (NL @ NL) (?pre @ map f (fact_section sn (Some k')) @ ?post))"
  proof (cases "fact_lines sn k = []")
    case True
    then show ?thesis using byte_len_join_extra[of _ ?pre ?post] by (simp add: s)
  next
    case False
    with o have "fact_lines sn k' \<noteq> []" by simp
    have grow: "byte_len (f (t, x)) \<le> byte_len (f (t, y))" if "byte_len x \<le> byte_len y" for t x y
      using that by (simp add: f_def byte_len_def)
    from False \<open>fact_lines sn k' \<noteq> []\<close> show ?thesis
      using byte_len_join_part[OF grow[OF j], of _ ?pre _ ?post] by (simp only: s if_False list.map append.simps)
  qed
  then show ?thesis unfolding estimated_tokens_def c by (rule div_le_mono)
qed

lemma try_levels_None: "try_levels dash sn scp (Some b) ls = None \<longleftrightarrow> (\<forall>l \<in> set ls. b < estimated_tokens (compose_at dash sn scp l None))"
  by (induction ls) (auto simp: Let_def not_le)

lemma try_levels_Some: "try_levels dash sn scp (Some b) ls = Some ctx \<Longrightarrow>
    \<exists>i < length ls. ctx = compose_at dash sn scp (ls ! i) None \<and> estimated_tokens ctx \<le> b \<and>
      (\<forall>j < i. b < estimated_tokens (compose_at dash sn scp (ls ! j) None))"
proof (induction ls)
  case (Cons l ls)
  show ?case
  proof (cases "estimated_tokens (compose_at dash sn scp l None) \<le> b")
    case True
    with Cons.prems show ?thesis by (intro exI[of _ 0]) (simp add: Let_def)
  next
    case False
    with Cons.prems have "try_levels dash sn scp (Some b) ls = Some ctx" by (simp add: Let_def)
    with Cons.IH obtain i where "i < length ls" "ctx = compose_at dash sn scp (ls ! i) None" "estimated_tokens ctx \<le> b"
      "\<forall>j < i. b < estimated_tokens (compose_at dash sn scp (ls ! j) None)" by blast
    with False show ?thesis by (intro exI[of _ "Suc i"]) (auto simp: not_le less_Suc_eq_0_disj)
  qed
qed simp

lemma compose_at_shape: "\<exists>ds fs. compose_at dash sn scp level keep = pin_section sn @ ds @ fs @ register_sections dash sn"
  unfolding compose_at_def by blast

text \<open>C33. A brief under a token budget degrades in the stated order and no further than it must: it is
  the rendering of the finest digest level that fits with every fact; when no level fits, it is the
  coarsest level with the greatest number of newest facts that fits, so it exceeds the budget only
  when the brief without any fact does. Locked details, open promises, frequency budgets and the pin
  are never trimmed.\<close>

theorem compose_degrades_in_order:
  "((\<exists>i < length LEVELS. compose dash sn scp (Some b) = compose_at dash sn scp (LEVELS ! i) None \<and>
      estimated_tokens (compose dash sn scp (Some b)) \<le> b \<and> (\<forall>j < i. b < estimated_tokens (compose_at dash sn scp (LEVELS ! j) None))) \<or>
    (\<forall>l \<in> set LEVELS. b < estimated_tokens (compose_at dash sn scp l None)) \<and>
    (\<exists>k \<le> length (sn_facts sn). compose dash sn scp (Some b) = compose_at dash sn scp RollupOnly (Some k) \<and>
      (k = 0 \<or> estimated_tokens (compose dash sn scp (Some b)) \<le> b) \<and>
      (\<forall>k' > k. k' \<le> length (sn_facts sn) \<longrightarrow> b < estimated_tokens (compose_at dash sn scp RollupOnly (Some k'))))) \<and>
   (\<exists>ds fs. compose dash sn scp (Some b) = pin_section sn @ ds @ fs @ register_sections dash sn)"
proof (cases "try_levels dash sn scp (Some b) LEVELS")
  case (Some ctx)
  then have c: "compose dash sn scp (Some b) = ctx" by (simp add: compose_def)
  from try_levels_Some[OF Some] compose_at_shape show ?thesis unfolding c by metis
next
  case None
  let ?n = "length (sn_facts sn)"
  define fits where "fits = (\<lambda>k. estimated_tokens (compose_at dash sn scp RollupOnly (Some k)) \<le> b)"
  define lo where "lo = keep_search fits 0 ?n"
  have c: "compose dash sn scp (Some b) = compose_at dash sn scp RollupOnly (Some (lo - 1))"
    by (simp add: compose_def None lo_def fits_def Let_def)
  have all: "\<forall>l \<in> set LEVELS. b < estimated_tokens (compose_at dash sn scp l None)" using None try_levels_None by blast
  have full: "compose_at dash sn scp RollupOnly (Some ?n) = compose_at dash sn scp RollupOnly None"
    by (simp add: compose_at_def fact_section_def)
  have "\<not> fits ?n" using all full by (simp add: fits_def LEVELS_def not_le)
  have mono: "fits i" if "i \<le> j" "fits j" for i j
    using that estimated_mono[of i j dash sn scp RollupOnly] by (simp add: fits_def)
  have found: "keep_search fits 0 ?n \<le> ?n \<and> (\<forall>i < keep_search fits 0 ?n. fits i) \<and>
      (\<forall>i. keep_search fits 0 ?n \<le> i \<longrightarrow> i < ?n \<longrightarrow> \<not> fits i)"
  proof (rule keep_search_finds)
    show "fits i" if "i \<le> j" "fits j" for i j using mono that by blast
  qed simp_all
  have s: "lo \<le> ?n" "\<And>i. i < lo \<Longrightarrow> fits i" "\<And>i. lo \<le> i \<Longrightarrow> i < ?n \<Longrightarrow> \<not> fits i"
    using found unfolding lo_def by blast+
  have "lo - 1 = 0 \<or> fits (lo - 1)" using s(2) by (cases lo) auto
  moreover have "b < estimated_tokens (compose_at dash sn scp RollupOnly (Some k'))" if "lo - 1 < k'" "k' \<le> ?n" for k'
  proof -
    have "\<not> fits k'" using s(3)[of k'] that \<open>\<not> fits ?n\<close> by (cases "k' = ?n") auto
    then show ?thesis by (simp add: fits_def)
  qed
  moreover have "lo - 1 \<le> ?n" using s(1) by simp
  ultimately have "\<exists>k \<le> ?n. compose dash sn scp (Some b) = compose_at dash sn scp RollupOnly (Some k) \<and>
      (k = 0 \<or> estimated_tokens (compose dash sn scp (Some b)) \<le> b) \<and>
      (\<forall>k' > k. k' \<le> ?n \<longrightarrow> b < estimated_tokens (compose_at dash sn scp RollupOnly (Some k')))"
    unfolding c fits_def by blast
  moreover have "\<exists>ds fs. compose dash sn scp (Some b) = pin_section sn @ ds @ fs @ register_sections dash sn"
    unfolding c by (rule compose_at_shape)
  ultimately show ?thesis using all by blast
qed

text \<open>Two facts of which one fits.\<close>

definition brief_claim :: "nat \<Rightarrow> string \<Rightarrow> claim" where
  "brief_claim n v = \<lparr>c_id = dec n, c_version_id = ''v1'', c_seq = n, c_claim_type = Fact, c_subject = ''ada'', c_key = ''role'', c_value = v,
     c_scope_path = None, c_status = Accepted, c_provenance = Witnessed, c_supersedes_id = None, c_entity_id = None, c_evidence = None,
     c_confidence = None, c_shape_ref = None, c_origin = None\<rparr>"

definition brief_snapshot :: mesh_snapshot where
  "brief_snapshot = \<lparr>sn_version_id = ''v1'', sn_facts = [brief_claim 1 ''keeper of the north light'', brief_claim 2 ''pilot''],
     sn_anchors = [], sn_digests = [], sn_promises = [], sn_counters = [], sn_entities = [], sn_as_of_seq = None, sn_as_of_date = None\<rparr>"

lemma brief_over: "list_all (\<lambda>l. 10 < estimated_tokens (compose_at [] brief_snapshot None l None)) LEVELS"
  by code_simp

lemma brief_fits: "estimated_tokens (compose_at [] brief_snapshot None RollupOnly (Some 1)) \<le> 10 \<and>
    10 < estimated_tokens (compose_at [] brief_snapshot None RollupOnly (Some 2))"
  by code_simp

lemma compose_degrades_in_order_witness: "compose [] brief_snapshot None (Some 10) = compose_at [] brief_snapshot None RollupOnly (Some 1)"
proof -
  have n: "length (sn_facts brief_snapshot) = 2" by (simp add: brief_snapshot_def)
  from compose_degrades_in_order[of "[]" brief_snapshot None 10] brief_over obtain k where k: "k \<le> 2"
    "compose [] brief_snapshot None (Some 10) = compose_at [] brief_snapshot None RollupOnly (Some k)"
    "k = 0 \<or> estimated_tokens (compose_at [] brief_snapshot None RollupOnly (Some k)) \<le> 10"
    "\<forall>k' > k. k' \<le> 2 \<longrightarrow> 10 < estimated_tokens (compose_at [] brief_snapshot None RollupOnly (Some k'))"
    unfolding n list_all_iff by (metis leD nth_mem)
  have "k \<noteq> 0" using k(4)[rule_format, of 1] brief_fits by fastforce
  moreover have "k \<noteq> 2" using k(3) brief_fits by fastforce
  ultimately have "k = 1" using k(1) by linarith
  with k(2) show ?thesis by simp
qed

end
