(* ===== verification/Evidence_Plan.thy ===== *)
theory Evidence_Plan
  imports Hierarchy Composer Runbook_Doc "HOL-Library.Sublist"
begin

text \<open>
  Executing an evidence hierarchy (\<open>munarium-server/src/evidence_hierarchy.rs\<close>): the profile of a
  turn, its plan, the run of the layers, and the composition of their blocks into the context of the
  model. Evidence providers, the document path and the clock are parameters; \<open>ser\<close> is the serializer
  of JSON values. The \<open>resolve_intent\<close> task calls a model and is not modelled.
\<close>

section \<open>Profile and plan\<close>

datatype 'e turn_error =
    MeshError kernel_error
  | UnknownResearchProfile string
  | RequiredLayerUnavailable string string
  | DocumentPath 'e

fun role_of :: "answer_role_spec \<Rightarrow> answer_role" where
  "role_of Supporting = AnswerSupporting"
| "role_of Primary = AnswerPrimary"
| "role_of Controlling = AnswerControlling"

fun requirement_of :: "layer_requirement_spec \<Rightarrow> layer_requirement" where
  "requirement_of Required = LayerRequired"
| "requirement_of Optional = LayerOptional"
| "requirement_of Fallback = LayerFallback"

fun requirement_str :: "layer_requirement \<Rightarrow> string" where
  "requirement_str LayerRequired = ''required''"
| "requirement_str LayerOptional = ''optional''"
| "requirement_str LayerFallback = ''fallback''"

definition resolve_profile :: "retrieval_spec option \<Rightarrow> string option \<Rightarrow> 'e turn_error + research_profile_spec option" where
  "resolve_profile retrieval requested =
     (case retrieval of
        None \<Rightarrow> (case requested of Some p \<Rightarrow> Inl (UnknownResearchProfile p) | None \<Rightarrow> Inr None)
      | Some rs \<Rightarrow>
          (case (case requested of Some p \<Rightarrow> Some p | None \<Rightarrow> rs_default_research_profile rs) of
             None \<Rightarrow> Inr None
           | Some name \<Rightarrow>
               (case find (\<lambda>p. rp_name p = name) (rs_research_profiles rs) of
                  Some p \<Rightarrow> Inr (Some p)
                | None \<Rightarrow> Inl (UnknownResearchProfile name))))"

definition plan_layer :: "research_layer_spec \<Rightarrow> evidence_layer" where
  "plan_layer l = \<lparr>el_name = rl_name l, el_sources = rl_sources l, el_requirement = requirement_of (rl_requirement l),
     el_role = role_of (rl_role l), el_context_char_budget = rl_context_char_budget l,
     el_preserve_complete_result = rl_preserve_complete_result l, el_deadline_ms = rl_deadline_ms l\<rparr>"

definition build_plan :: "research_profile_spec \<Rightarrow> query_intent \<Rightarrow> evidence_plan" where
  "build_plan p intent = \<lparr>ep_profile = rp_name p, ep_intent = intent, ep_layers = map plan_layer (rp_layers p),
     ep_context_char_budget = rp_context_char_budget p, ep_conflicts = ''preserve_and_disclose''\<rparr>"

section \<open>Running the layers\<close>

record collection_envelope =
  ce_collection :: string
  ce_index_version :: string
  ce_event_watermark :: nat

record document_retrieval =
  dr_merged :: "(string \<times> search_hit) list"
  dr_hits :: "json list"
  dr_envelopes :: "collection_envelope list"
  dr_searched :: "string list"
  dr_skipped :: "string list"

datatype progress_event =
    ProfileEvent string "string list" "string option" bool
  | LayerStart string string string
  | LayerSource string string string
  | LayerComplete string string bool "string option" nat
  | Coverage bool nat

text \<open>What is beside the plan: the providers, the document path and the clock, both for the \<open>k\<close>-th layer that runs.\<close>

record 'e turn_env =
  te_providers :: "evidence_provider list"
  te_documents :: "nat \<Rightarrow> evidence_layer \<Rightarrow> 'e turn_error + document_retrieval"
  te_elapsed :: "nat \<Rightarrow> nat"

record run_state =
  rn_events :: "progress_event list"
  rn_outcomes :: "layer_outcome list"
  rn_blocks :: "(string \<times> evidence_block) list"
  rn_documents :: "document_retrieval option"
  rn_document_evidence :: "(string \<times> json list) list"
  rn_produced_any :: bool

definition document_envelope :: "string \<Rightarrow> search_hit \<Rightarrow> collection_envelope list \<Rightarrow> json" where
  "document_envelope collection hit envelopes =
     envelope ''document_hit''
       (case find (\<lambda>e. ce_collection e = collection) envelopes of
          None \<Rightarrow> JNull
        | Some e \<Rightarrow> jobj [(''collection'', JStr (ce_collection e)), (''index_version'', JStr (ce_index_version e)),
            (''event_watermark'', jnat (ce_event_watermark e))])
       (Some (collection @ ''/'' @ sh_chunk_id hit)) (jobj [(''text'', JStr (sh_text hit))])"

definition plane_source :: "string \<Rightarrow> bool" where
  "plane_source s \<longleftrightarrow> starts_with s ''matrix:'' \<or> starts_with s ''facts:''"

definition matched_provider :: "evidence_provider list \<Rightarrow> evidence_layer \<Rightarrow> evidence_provider option" where
  "matched_provider ps l = find (\<lambda>p. \<exists>s \<in> set (el_sources l). pr_can_serve p s) ps"

definition unclaimed_plane :: "evidence_provider list \<Rightarrow> evidence_layer \<Rightarrow> bool" where
  "unclaimed_plane ps l \<longleftrightarrow> matched_provider ps l = None \<and> (\<exists>s \<in> set (el_sources l). plane_source s)"

definition unbound_refusal :: "evidence_layer \<Rightarrow> evidence_block" where
  "unbound_refusal l = Refusal \<lparr>rf_code = ''source-not-bound'', rf_message = ''no provider is configured for this layer's sources'',
     rf_source = find plane_source (el_sources l)\<rparr>"

definition emit_progress :: "progress_event list \<Rightarrow> run_state \<Rightarrow> run_state" where
  "emit_progress es r = r\<lparr>rn_events := rn_events r @ es\<rparr>"

definition append_retrieval :: "document_retrieval \<Rightarrow> document_retrieval \<Rightarrow> document_retrieval" where
  "append_retrieval acc out = \<lparr>dr_merged = dr_merged acc @ dr_merged out, dr_hits = dr_hits acc @ dr_hits out,
     dr_envelopes = dr_envelopes acc @ dr_envelopes out, dr_searched = dr_searched acc @ dr_searched out,
     dr_skipped = dr_skipped acc @ dr_skipped out\<rparr>"

definition no_retrieval :: document_retrieval where
  "no_retrieval = \<lparr>dr_merged = [], dr_hits = [], dr_envelopes = [], dr_searched = [], dr_skipped = []\<rparr>"

definition documents_block :: "evidence_layer \<Rightarrow> document_retrieval \<Rightarrow> run_state \<Rightarrow> run_state \<times> evidence_block" where
  "documents_block l out r =
     (r\<lparr>rn_document_evidence := rn_document_evidence r
          @ [(el_name l, map (\<lambda>(collection, hit). document_envelope collection hit (dr_envelopes out)) (dr_merged out))],
        rn_documents := Some (append_retrieval (case rn_documents r of None \<Rightarrow> no_retrieval | Some d \<Rightarrow> d) out)\<rparr>,
      DocumentHits (map snd (dr_merged out)))"

text \<open>The block of one layer, and the run state after obtaining it; an error leaves the events emitted so far.\<close>

definition layer_block :: "'e turn_env \<Rightarrow> evidence_plan \<Rightarrow> evidence_layer \<Rightarrow> run_state \<Rightarrow>
    run_state \<times> ('e turn_error + run_state \<times> evidence_block)" where
  "layer_block te plan l r =
     (if unclaimed_plane (te_providers te) l then (r, Inr (r, unbound_refusal l))
      else
      case matched_provider (te_providers te) l of
        Some p \<Rightarrow>
          if pr_id p \<noteq> ''documents'' then
            (let r' = emit_progress (map (\<lambda>s. LayerSource (el_name l) s (pr_id p)) (filter (pr_can_serve p) (el_sources l))) r in
             case pr_fetch p (length (rn_outcomes r)) l (ep_intent plan) of
               Inl err \<Rightarrow> (r', Inl (MeshError err))
             | Inr b \<Rightarrow> (r', Inr (r', b)))
          else
            (let r' = emit_progress (map (\<lambda>s. LayerSource (el_name l) s ''documents'') (el_sources l)) r in
             case te_documents te (length (rn_outcomes r)) l of
               Inl err \<Rightarrow> (r', Inl err)
             | Inr out \<Rightarrow> (r', Inr (documents_block l out r')))
      | None \<Rightarrow>
            (let r' = emit_progress (map (\<lambda>s. LayerSource (el_name l) s ''documents'') (el_sources l)) r in
             case te_documents te (length (rn_outcomes r)) l of
               Inl err \<Rightarrow> (r', Inl err)
             | Inr out \<Rightarrow> (r', Inr (documents_block l out r'))))"

fun refusal_code :: "evidence_block \<Rightarrow> string option" where
  "refusal_code (Refusal x) = Some (rf_code x)"
| "refusal_code _ = None"

definition layer_outcome_of :: "evidence_layer \<Rightarrow> evidence_block \<Rightarrow> nat \<Rightarrow> layer_outcome" where
  "layer_outcome_of l b ms = \<lparr>lo_layer = el_name l, lo_role = el_role l, lo_requirement = el_requirement l, lo_block = kind_str b,
     lo_evidence_id = block_evidence_id b, lo_supports_completeness = supports_completeness b, lo_refusal_code = refusal_code b,
     lo_elapsed_ms = ms\<rparr>"

definition finish_layer :: "'e turn_env \<Rightarrow> evidence_layer \<Rightarrow> run_state \<Rightarrow> evidence_block \<Rightarrow> run_state" where
  "finish_layer te l r b =
     (let ms = te_elapsed te (length (rn_outcomes r)) in
      (emit_progress [LayerComplete (el_name l) (kind_str b) (supports_completeness b) (refusal_code b) ms] r)
        \<lparr>rn_produced_any := rn_produced_any r \<or> \<not> block_empty b,
         rn_outcomes := rn_outcomes r @ [layer_outcome_of l b ms],
         rn_blocks := rn_blocks r @ [(el_name l, b)]\<rparr>)"

fun run_layers :: "'e turn_env \<Rightarrow> evidence_plan \<Rightarrow> evidence_layer list \<Rightarrow> run_state \<Rightarrow> run_state \<times> ('e turn_error + unit)" where
  "run_layers te plan [] r = (r, Inr ())"
| "run_layers te plan (l # ls) r =
     (if el_requirement l = LayerFallback \<and> rn_produced_any r then run_layers te plan ls r
      else
      (let r1 = emit_progress [LayerStart (el_name l) (answer_role_str (el_role l)) (requirement_str (el_requirement l))] r in
       case layer_block te plan l r1 of
         (r2, Inl err) \<Rightarrow> (r2, Inl err)
       | (_, Inr (r2, b)) \<Rightarrow> run_layers te plan ls (finish_layer te l r2 b)))"

fun count_pairs :: "int list \<Rightarrow> nat" where
  "count_pairs [] = 0"
| "count_pairs (a # bs) = length (filter (\<lambda>b. a \<noteq> b) bs) + count_pairs bs"

fun count_value :: "evidence_block \<Rightarrow> int option" where
  "count_value (Count c) = Some (cb_value c)"
| "count_value _ = None"

definition count_conflicts :: "(string \<times> evidence_block) list \<Rightarrow> nat" where
  "count_conflicts blocks = count_pairs (List.map_filter (\<lambda>(_, b). count_value b) blocks)"

record hierarchy_outcome =
  ho_decision :: hierarchy_decision
  ho_blocks :: "(string \<times> evidence_block) list"
  ho_documents :: "document_retrieval option"
  ho_document_evidence :: "(string \<times> json list) list"

definition start_run :: "evidence_plan \<Rightarrow> run_state" where
  "start_run plan = \<lparr>rn_events = [ProfileEvent (ep_profile plan) (map el_name (ep_layers plan)) (qi_kind (ep_intent plan)) (qi_explicit (ep_intent plan))],
     rn_outcomes = [], rn_blocks = [], rn_documents = None, rn_document_evidence = [], rn_produced_any = False\<rparr>"

definition run_decision :: "evidence_plan \<Rightarrow> run_state \<Rightarrow> hierarchy_decision" where
  "run_decision plan r = \<lparr>hy_profile = ep_profile plan, hy_intent_kind = qi_kind (ep_intent plan), hy_intent_explicit = qi_explicit (ep_intent plan),
     hy_layers = rn_outcomes r, hy_completeness_available = list_ex (\<lambda>(_, b). supports_completeness b) (rn_blocks r),
     hy_disclosed_conflicts = count_conflicts (rn_blocks r), hy_conflicts_policy = ep_conflicts plan\<rparr>"

definition execute_plan :: "'e turn_env \<Rightarrow> evidence_plan \<Rightarrow> progress_event list \<times> ('e turn_error + hierarchy_outcome)" where
  "execute_plan te plan =
     (case run_layers te plan (ep_layers plan) (start_run plan) of
        (r, Inl err) \<Rightarrow> (rn_events r, Inl err)
      | (r, Inr _) \<Rightarrow>
          (let d = run_decision plan r;
               events = rn_events r @ [Coverage (hy_completeness_available d) (hy_disclosed_conflicts d mod 2 ^ 32)] in
           case required_layer_failed d of
             Some failed \<Rightarrow> (events, Inl (RequiredLayerUnavailable (lo_layer failed)
                 (case lo_refusal_code failed of None \<Rightarrow> ''unavailable'' | Some c \<Rightarrow> c)))
           | None \<Rightarrow> (events, Inr \<lparr>ho_decision = d, ho_blocks = rn_blocks r, ho_documents = rn_documents r,
               ho_document_evidence = rn_document_evidence r\<rparr>)))"

section \<open>What a run of the layers amounts to\<close>

text \<open>The layers that ran with their blocks, in order; \<open>any\<close> says that an earlier layer produced something.\<close>

fun ran_as_planned :: "evidence_provider list \<Rightarrow> bool \<Rightarrow> evidence_layer list \<Rightarrow> (evidence_layer \<times> evidence_block) list \<Rightarrow> bool" where
  "ran_as_planned ps any [] taken \<longleftrightarrow> taken = []"
| "ran_as_planned ps any (l # ls) taken \<longleftrightarrow>
     (if el_requirement l = LayerFallback \<and> any then ran_as_planned ps any ls taken
      else (case taken of
              [] \<Rightarrow> False
            | (l', b) # rest \<Rightarrow> l' = l \<and> (unclaimed_plane ps l \<longrightarrow> is_refusal b) \<and> ran_as_planned ps (any \<or> \<not> block_empty b) ls rest))"

lemma ran_subseq: "ran_as_planned ps any ls taken \<Longrightarrow> subseq (map fst taken) ls"
  by (induction ps any ls taken rule: ran_as_planned.induct) (auto split: if_splits list.splits)

lemma ran_mandatory: "ran_as_planned ps any ls taken \<Longrightarrow> l \<in> set ls \<Longrightarrow> el_requirement l \<noteq> LayerFallback \<Longrightarrow> l \<in> fst ` set taken"
  by (induction ps any ls taken rule: ran_as_planned.induct) (auto split: if_splits list.splits)

lemma ran_unclaimed: "ran_as_planned ps any ls taken \<Longrightarrow> (l, b) \<in> set taken \<Longrightarrow> unclaimed_plane ps l \<Longrightarrow> is_refusal b"
  by (induction ps any ls taken rule: ran_as_planned.induct) (auto split: if_splits list.splits)

lemma ran_all_empty: "ran_as_planned ps False ls taken \<Longrightarrow> list_all (\<lambda>(_, b). block_empty b) taken \<Longrightarrow> map fst taken = ls"
  by (induction ps "False" ls taken rule: ran_as_planned.induct) (auto split: list.splits)

lemma ran_fallback: "ran_as_planned ps any ls taken \<Longrightarrow> i < length taken \<Longrightarrow> el_requirement (fst (taken ! i)) = LayerFallback \<Longrightarrow>
    \<not> any \<and> (\<forall>j < i. block_empty (snd (taken ! j)))"
proof (induction ps any ls taken arbitrary: i rule: ran_as_planned.induct)
  case (2 ps any l ls taken)
  show ?case
  proof (cases "el_requirement l = LayerFallback \<and> any")
    case True
    with 2 show ?thesis by simp
  next
    case False
    with "2.prems"(1) obtain b rest where r: "taken = (l, b) # rest" "ran_as_planned ps (any \<or> \<not> block_empty b) ls rest"
      by (auto split: list.splits)
    show ?thesis
    proof (cases i)
      case 0
      with r False "2.prems"(3) show ?thesis by auto
    next
      case (Suc k)
      with "2.IH"(2)[OF False r(1) refl r(2), of k] r(1) "2.prems" show ?thesis by (auto simp: less_Suc_eq_0_disj)
    qed
  qed
qed simp

text \<open>One layer changes neither the blocks, nor the outcomes, nor the mark.\<close>

lemma layer_block_keeps:
  assumes "layer_block te plan l r = (r1, Inr (r2, b))"
  shows "rn_blocks r2 = rn_blocks r \<and> rn_outcomes r2 = rn_outcomes r \<and> rn_produced_any r2 = rn_produced_any r \<and>
    (unclaimed_plane (te_providers te) l \<longrightarrow> is_refusal b)"
  using assms
  by (auto simp: layer_block_def emit_progress_def documents_block_def unbound_refusal_def Let_def
    split: if_splits option.splits sum.splits)

text \<open>Whom a layer's block comes from: the \<open>k\<close>-th layer that ran.\<close>

definition block_from :: "'e turn_env \<Rightarrow> evidence_plan \<Rightarrow> nat \<Rightarrow> evidence_layer \<Rightarrow> evidence_block \<Rightarrow> bool" where
  "block_from te plan k l b \<longleftrightarrow>
     (if unclaimed_plane (te_providers te) l then b = unbound_refusal l
      else case matched_provider (te_providers te) l of
        Some p \<Rightarrow> if pr_id p \<noteq> ''documents'' then pr_fetch p k l (ep_intent plan) = Inr b
          else (\<exists>out. te_documents te k l = Inr out \<and> b = DocumentHits (map snd (dr_merged out)))
      | None \<Rightarrow> (\<exists>out. te_documents te k l = Inr out \<and> b = DocumentHits (map snd (dr_merged out))))"

lemma layer_block_from: "layer_block te plan l r = (r1, Inr (r2, b)) \<Longrightarrow> block_from te plan (length (rn_outcomes r)) l b"
  by (auto simp: layer_block_def block_from_def documents_block_def Let_def split: if_splits option.splits sum.splits)

text \<open>
  A layer whose sources are mixed is not refused: when some provider serves one of them, that provider
  answers for the whole layer, and a plane among the others that nobody serves is left out silently.
\<close>

lemma mixed_layer_skips_plane:
  assumes "matched_provider (te_providers te) l = Some p" "pr_id p \<noteq> ''documents''"
    and "s \<in> set (el_sources l)" "plane_source s" "\<forall>q \<in> set (te_providers te). \<not> pr_can_serve q s"
  shows "\<not> unclaimed_plane (te_providers te) l \<and> (block_from te plan k l b \<longleftrightarrow> pr_fetch p k l (ep_intent plan) = Inr b)"
  using assms by (simp add: unclaimed_plane_def block_from_def)

definition outcome_matches :: "evidence_layer \<times> evidence_block \<Rightarrow> layer_outcome \<Rightarrow> bool" where
  "outcome_matches lb x \<longleftrightarrow> x = layer_outcome_of (fst lb) (snd lb) (lo_elapsed_ms x)"

lemma emit_progress_fields [simp]: "rn_blocks (emit_progress es r) = rn_blocks r" "rn_outcomes (emit_progress es r) = rn_outcomes r"
    "rn_produced_any (emit_progress es r) = rn_produced_any r"
  by (simp_all add: emit_progress_def)

lemma finish_layer_fields [simp]: "rn_blocks (finish_layer te l r b) = rn_blocks r @ [(el_name l, b)]"
    "rn_outcomes (finish_layer te l r b) = rn_outcomes r @ [layer_outcome_of l b (te_elapsed te (length (rn_outcomes r)))]"
    "rn_produced_any (finish_layer te l r b) = (rn_produced_any r \<or> \<not> block_empty b)"
  by (simp_all add: finish_layer_def emit_progress_def Let_def)

lemma run_layers_ran:
  assumes "run_layers te plan ls r = (r', Inr u)"
  shows "\<exists>taken os. ran_as_planned (te_providers te) (rn_produced_any r) ls taken \<and> list_all2 outcome_matches taken os \<and>
    (\<forall>i < length taken. block_from te plan (length (rn_outcomes r) + i) (fst (taken ! i)) (snd (taken ! i))) \<and>
    rn_blocks r' = rn_blocks r @ map (\<lambda>(l, b). (el_name l, b)) taken \<and> rn_outcomes r' = rn_outcomes r @ os"
  using assms
proof (induction ls arbitrary: r)
  case Nil
  then show ?case by (intro exI[of _ "[]"]) simp
next
  case (Cons l ls)
  show ?case
  proof (cases "el_requirement l = LayerFallback \<and> rn_produced_any r")
    case True
    with Cons.prems have "run_layers te plan ls r = (r', Inr u)" by simp
    from Cons.IH[OF this] show ?thesis unfolding ran_as_planned.simps if_P[OF True] .
  next
    case False
    define r1 where "r1 = emit_progress [LayerStart (el_name l) (answer_role_str (el_role l)) (requirement_str (el_requirement l))] r"
    from False Cons.prems obtain r3 r2 b where lb: "layer_block te plan l r1 = (r3, Inr (r2, b))"
        and rest: "run_layers te plan ls (finish_layer te l r2 b) = (r', Inr u)"
      by (auto simp: r1_def Let_def split: prod.splits sum.splits)
    define x where "x = layer_outcome_of l b (te_elapsed te (length (rn_outcomes r2)))"
    have k: "rn_blocks r2 = rn_blocks r" "rn_outcomes r2 = rn_outcomes r" "rn_produced_any r2 = rn_produced_any r"
        "unclaimed_plane (te_providers te) l \<longrightarrow> is_refusal b"
      using layer_block_keeps[OF lb] by (simp_all add: r1_def)
    have from0: "block_from te plan (length (rn_outcomes r)) l b" using layer_block_from[OF lb] by (simp add: r1_def)
    have f: "rn_blocks (finish_layer te l r2 b) = rn_blocks r @ [(el_name l, b)]" "rn_outcomes (finish_layer te l r2 b) = rn_outcomes r @ [x]"
        "rn_produced_any (finish_layer te l r2 b) = (rn_produced_any r \<or> \<not> block_empty b)"
      by (simp_all add: k x_def)
    from Cons.IH[OF rest] obtain taken os where
        "ran_as_planned (te_providers te) (rn_produced_any r \<or> \<not> block_empty b) ls taken" "list_all2 outcome_matches taken os"
        "\<forall>i < length taken. block_from te plan (Suc (length (rn_outcomes r) + i)) (fst (taken ! i)) (snd (taken ! i))"
        "rn_blocks r' = rn_blocks r @ [(el_name l, b)] @ map (\<lambda>(l, b). (el_name l, b)) taken" "rn_outcomes r' = rn_outcomes r @ [x] @ os"
      unfolding f by auto
    moreover from this(3) from0 have "\<forall>i < length ((l, b) # taken). block_from te plan (length (rn_outcomes r) + i)
        (fst (((l, b) # taken) ! i)) (snd (((l, b) # taken) ! i))" by (auto simp: less_Suc_eq_0_disj)
    ultimately have "ran_as_planned (te_providers te) (rn_produced_any r) (l # ls) ((l, b) # taken) \<and>
        list_all2 outcome_matches ((l, b) # taken) (x # os) \<and>
        (\<forall>i < length ((l, b) # taken). block_from te plan (length (rn_outcomes r) + i) (fst (((l, b) # taken) ! i)) (snd (((l, b) # taken) ! i))) \<and>
        rn_blocks r' = rn_blocks r @ map (\<lambda>(l, b). (el_name l, b)) ((l, b) # taken) \<and> rn_outcomes r' = rn_outcomes r @ x # os"
      using False k(4) by (auto simp: outcome_matches_def x_def layer_outcome_of_def)
    then show ?thesis by blast
  qed
qed

lemma no_required_failure:
  assumes "list_all2 outcome_matches taken os" "find (\<lambda>x. lo_requirement x = LayerRequired \<and> lo_block x = ''refusal'') os = None"
    "(l, b) \<in> set taken" "el_requirement l = LayerRequired"
  shows "\<not> is_refusal b"
proof -
  from assms(1,3) have "\<exists>x \<in> set os. outcome_matches (l, b) x"
    by (induction taken os rule: list_all2_induct) auto
  then obtain x where "x \<in> set os" "outcome_matches (l, b) x" by blast
  then have "lo_requirement x = el_requirement l" "lo_block x = kind_str b" by (metis (no_types) fst_conv snd_conv layer_outcome.select_convs outcome_matches_def layer_outcome_of_def)+
  with assms(2,4) \<open>x \<in> set os\<close> show ?thesis by (auto simp: find_None_iff kind_str_refusal)
qed

lemma execute_plan_returns:
  assumes "run_layers te plan (ep_layers plan) (start_run plan) = (r, Inr ())" "required_layer_failed (run_decision plan r) = None"
  shows "\<exists>out. snd (execute_plan te plan) = Inr out \<and> ho_blocks out = rn_blocks r"
  unfolding execute_plan_def assms(1) Let_def by (simp add: assms(2))

text \<open>C34. A turn that gets an evidence hierarchy got the planned one: the layers that ran are a
  subsequence of the plan with every layer that is not a fallback; a fallback ran only after nothing
  but empty blocks, and when every block is empty the whole plan ran; no required layer refused; the
  block of every layer is what the first provider serving one of its sources answered for it, or
  what the document search found, or, for a layer none of whose sources any provider serves and one of
  them is a plane, a refusal and not a document search, so a plan that requires such a layer never
  succeeds; and the decision reports exactly those layers, with completeness exactly when a
  block supports it. A plane that nobody serves is left out without a refusal when another source of its
  layer is served (lemma mixed_layer_skips_plane).\<close>

theorem plan_execution_sound:
  assumes "snd (execute_plan te plan) = Inr out"
  shows "\<exists>taken. subseq (map fst taken) (ep_layers plan) \<and>
    (\<forall>l \<in> set (ep_layers plan). el_requirement l \<noteq> LayerFallback \<longrightarrow> l \<in> fst ` set taken) \<and>
    (\<forall>i < length taken. el_requirement (fst (taken ! i)) = LayerFallback \<longrightarrow> (\<forall>j < i. block_empty (snd (taken ! j)))) \<and>
    (list_all (\<lambda>(_, b). block_empty b) taken \<longrightarrow> map fst taken = ep_layers plan) \<and>
    (\<forall>(l, b) \<in> set taken. (el_requirement l = LayerRequired \<longrightarrow> \<not> is_refusal b) \<and> (unclaimed_plane (te_providers te) l \<longrightarrow> is_refusal b)) \<and>
    (\<forall>i < length taken. block_from te plan i (fst (taken ! i)) (snd (taken ! i))) \<and>
    ho_blocks out = map (\<lambda>(l, b). (el_name l, b)) taken \<and>
    list_all2 outcome_matches taken (hy_layers (ho_decision out)) \<and>
    hy_completeness_available (ho_decision out) = list_ex (\<lambda>(_, b). supports_completeness b) taken"
proof -
  from assms obtain r u where r: "run_layers te plan (ep_layers plan) (start_run plan) = (r, Inr u)"
      and ok: "required_layer_failed (run_decision plan r) = None" and out: "ho_decision out = run_decision plan r" "ho_blocks out = rn_blocks r"
    by (auto simp: execute_plan_def Let_def split: prod.splits sum.splits option.splits)
  from run_layers_ran[OF r] obtain taken os where taken: "ran_as_planned (te_providers te) False (ep_layers plan) taken"
      and os: "list_all2 outcome_matches taken os"
      and fr: "\<forall>i < length taken. block_from te plan i (fst (taken ! i)) (snd (taken ! i))" and b: "rn_blocks r = map (\<lambda>(l, b). (el_name l, b)) taken" "rn_outcomes r = os"
    by (auto simp: start_run_def)
  have d: "hy_layers (run_decision plan r) = os"
      "hy_completeness_available (run_decision plan r) = list_ex (\<lambda>(_, b). supports_completeness b) taken"
    by (simp_all add: run_decision_def b list_ex_iff case_prod_unfold)
  have req: "\<not> is_refusal b" if "(l, b) \<in> set taken" "el_requirement l = LayerRequired" for l b
    using no_required_failure[OF os _ that] ok by (simp add: required_layer_failed_def d)
  show ?thesis
    by (intro exI[of _ taken] conjI)
      (use ran_subseq[OF taken] ran_mandatory[OF taken] ran_fallback[OF taken] ran_all_empty[OF taken] ran_unclaimed[OF taken] req os out b d fr in auto)
qed

text \<open>A plan of a required register count, an optional plane nobody serves, and a fallback to documents.\<close>

definition demo_register :: evidence_provider where
  "demo_register = \<lparr>pr_id = ''matrix'', pr_can_serve = (\<lambda>s. s = ''matrix:register''),
     pr_fetch = (\<lambda>_ _ _. Inr (Count \<lparr>cb_value = 12, cb_rows_covered = Some 12, cb_rows_excluded = None, cb_exclusion_reason = None,
       cb_evidence_id = Some ''e1''\<rparr>))\<rparr>"

definition demo_layer :: "string \<Rightarrow> string \<Rightarrow> layer_requirement \<Rightarrow> evidence_layer" where
  "demo_layer name source q = \<lparr>el_name = name, el_sources = [source], el_requirement = q, el_role = AnswerSupporting,
     el_context_char_budget = None, el_preserve_complete_result = False, el_deadline_ms = None\<rparr>"

definition demo_plan :: evidence_plan where
  "demo_plan = \<lparr>ep_profile = ''audit'', ep_intent = \<lparr>qi_question = ''how many'', qi_kind = None, qi_explicit = False, qi_selections = []\<rparr>,
     ep_layers = [demo_layer ''register'' ''matrix:register'' LayerRequired, demo_layer ''ledger'' ''facts:v1'' LayerOptional,
       demo_layer ''documents'' ''kb'' LayerFallback], ep_context_char_budget = None, ep_conflicts = ''preserve_and_disclose''\<rparr>"

definition demo_turn :: "unit turn_env" where
  "demo_turn = \<lparr>te_providers = [demo_register], te_documents = (\<lambda>_ _. Inr no_retrieval), te_elapsed = (\<lambda>_. 5)\<rparr>"

lemma demo_planes: "plane_source ''matrix:register''" "plane_source ''facts:v1''"
  by (simp_all add: plane_source_def starts_with_def)

lemma demo_matched: "matched_provider [demo_register] (demo_layer n s q) = (if s = ''matrix:register'' then Some demo_register else None)"
  by (simp add: matched_provider_def demo_layer_def demo_register_def)

lemma demo_unclaimed: "unclaimed_plane [demo_register] (demo_layer n s q) \<longleftrightarrow> s \<noteq> ''matrix:register'' \<and> plane_source s"
  by (simp add: unclaimed_plane_def demo_matched) (simp add: demo_layer_def)

lemma demo_layer_simps: "el_name (demo_layer n s q) = n" "el_requirement (demo_layer n s q) = q" "el_sources (demo_layer n s q) = [s]"
  by (simp_all add: demo_layer_def)

lemma demo_plan_runs: "\<exists>out. snd (execute_plan demo_turn demo_plan) = Inr out \<and>
    map (\<lambda>(n, b). (n, kind_str b)) (ho_blocks out) = [(''register'', ''count''), (''ledger'', ''refusal'')]"
proof -
  define c where "c = Count \<lparr>cb_value = 12, cb_rows_covered = Some 12, cb_rows_excluded = None, cb_exclusion_reason = None, cb_evidence_id = Some ''e1''\<rparr>"
  have r: "layer_block demo_turn plan (demo_layer n ''matrix:register'' q) r =
      (emit_progress [LayerSource n ''matrix:register'' ''matrix''] r, Inr (emit_progress [LayerSource n ''matrix:register'' ''matrix''] r, c))"
    for plan n q r
    by (simp add: layer_block_def demo_turn_def demo_unclaimed demo_matched demo_layer_simps c_def) (simp add: demo_register_def Let_def)
  have l: "layer_block demo_turn plan (demo_layer n ''facts:v1'' q) r = (r, Inr (r, unbound_refusal (demo_layer n ''facts:v1'' q)))" for plan n q r
    by (simp add: layer_block_def demo_turn_def demo_unclaimed demo_planes)
  have c: "\<not> block_empty c" "kind_str c = ''count''" by (simp_all add: c_def)
  have steps: "\<exists>r'. run_layers demo_turn demo_plan [demo_layer n1 ''matrix:register'' LayerRequired, demo_layer n2 ''facts:v1'' LayerOptional,
        demo_layer n3 s LayerFallback] (start_run demo_plan) = (r', Inr ()) \<and>
        rn_blocks r' = [(n1, c), (n2, unbound_refusal (demo_layer n2 ''facts:v1'' LayerOptional))] \<and>
        rn_outcomes r' = [layer_outcome_of (demo_layer n1 ''matrix:register'' LayerRequired) c 5,
          layer_outcome_of (demo_layer n2 ''facts:v1'' LayerOptional) (unbound_refusal (demo_layer n2 ''facts:v1'' LayerOptional)) 5]"
    for n1 n2 n3 s
    by (simp add: r l demo_layer_simps(2) Let_def c) (simp add: start_run_def demo_turn_def demo_layer_simps(1))
  from steps[of "''register''" "''ledger''" "''documents''" "''kb''"] obtain r' where
    r': "run_layers demo_turn demo_plan (ep_layers demo_plan) (start_run demo_plan) = (r', Inr ())"
      "rn_blocks r' = [(''register'', c), (''ledger'', unbound_refusal (demo_layer ''ledger'' ''facts:v1'' LayerOptional))]"
      "rn_outcomes r' = [layer_outcome_of (demo_layer ''register'' ''matrix:register'' LayerRequired) c 5,
          layer_outcome_of (demo_layer ''ledger'' ''facts:v1'' LayerOptional) (unbound_refusal (demo_layer ''ledger'' ''facts:v1'' LayerOptional)) 5]"
    unfolding demo_plan_def evidence_plan.select_convs by blast
  have "required_layer_failed (run_decision demo_plan r') = None"
    by (simp add: required_layer_failed_def run_decision_def layer_outcome_of_def demo_layer_simps(2) c r'(3))
  from execute_plan_returns[OF r'(1) this] r'(2) show ?thesis by (elim exE conjE) (intro exI conjI, assumption, simp add: c unbound_refusal_def)
qed

lemma plan_execution_sound_witness: "\<exists>out taken. snd (execute_plan demo_turn demo_plan) = Inr out \<and>
    subseq (map fst taken) (ep_layers demo_plan) \<and> ho_blocks out = map (\<lambda>(l, b). (el_name l, b)) taken \<and> length taken = 2"
proof (rule exE[OF demo_plan_runs], elim conjE)
  fix out
  assume out: "snd (execute_plan demo_turn demo_plan) = Inr out"
    "map (\<lambda>(n, b). (n, kind_str b)) (ho_blocks out) = [(''register'', ''count''), (''ledger'', ''refusal'')]"
  from arg_cong[OF out(2), of length] have n: "length (ho_blocks out) = 2" by simp
  from plan_execution_sound[OF out(1)] show ?thesis
  proof (elim exE conjE)
    fix taken
    assume t: "subseq (map fst taken) (ep_layers demo_plan)" "ho_blocks out = map (\<lambda>(l, b). (el_name l, b)) taken"
    from n t(2) have "length taken = 2" by simp
    with out(1) t show ?thesis by (intro exI conjI)
  qed
qed

end
