(* ===== verification/Evidence_Compose.thy ===== *)
theory Evidence_Compose
  imports Evidence_Plan Runbook_Research
begin

text \<open>
  Composing the blocks of an evidence hierarchy into the context of the model
  (\<open>munarium-server/src/evidence_hierarchy.rs\<close>, \<open>compose\<close> to \<open>served_evidence\<close>). \<open>ser\<close> prints a JSON
  value on one line; lengths are bytes. The record \<open>served_evidence\<close> is the one of
  \<open>munarium-server/src/verification.rs\<close>.
\<close>

section \<open>Rendering\<close>

text \<open>\<open>format!("{:04}")\<close> of a number.\<close>

definition pad4 :: "nat \<Rightarrow> string" where
  "pad4 n = replicate (4 - length (dec n)) CHR ''0'' @ dec n"

definition table_row_id :: "table_block \<Rightarrow> nat \<Rightarrow> string" where
  "table_row_id t i = (if i < length (tb_row_ids t) then tb_row_ids t ! i else ''r'' @ pad4 (i + 1))"

definition cell_text :: "string option \<Rightarrow> string" where
  "cell_text c = (case c of None \<Rightarrow> ''NULL'' | Some x \<Rightarrow> x)"

definition row_citation :: "string \<Rightarrow> string \<Rightarrow> string" where
  "row_citation evidence_id row_id = ''evidence/'' @ evidence_id @ ''#'' @ row_id"

definition table_row_json :: "table_block \<Rightarrow> nat \<times> string option list \<Rightarrow> json" where
  "table_row_json t = (\<lambda>(i, row).
     let row_id = table_row_id t i in
     jobj [(''row_id'', JStr row_id), (''citation_id'', jopt (\<lambda>ev. JStr (row_citation ev row_id)) (tb_evidence_id t)),
       (''cells'', JArr (map (\<lambda>c. JStr (cell_text c)) row))])"

definition layer_role :: "evidence_layer option \<Rightarrow> string" where
  "layer_role layer = (case layer of None \<Rightarrow> ''supporting'' | Some l \<Rightarrow> answer_role_str (el_role l))"

definition labelled :: "(json \<Rightarrow> string) \<Rightarrow> string \<Rightarrow> evidence_layer option \<Rightarrow> json \<Rightarrow> string" where
  "labelled ser name layer v = ser (jset ''answer_role'' (JStr (layer_role layer)) (jset ''layer'' (JStr name) v)) @ NL"

definition hit_json :: "string \<Rightarrow> (string \<times> json list) list \<Rightarrow> nat \<times> search_hit \<Rightarrow> json" where
  "hit_json name document_evidence = (\<lambda>(i, hit).
     case find (\<lambda>(layer, _). layer = name) document_evidence of
       None \<Rightarrow> document_envelope name hit []
     | Some (_, entries) \<Rightarrow> if i < length entries then entries ! i else document_envelope name hit [])"

definition facts_version :: "evidence_layer option \<Rightarrow> string option" where
  "facts_version layer = (case layer of None \<Rightarrow> None
     | Some l \<Rightarrow> (case List.map_filter (strip_prefix ''facts:'') (el_sources l) of [] \<Rightarrow> None | v # _ \<Rightarrow> Some v))"

fun block_json :: "evidence_layer option \<Rightarrow> evidence_block \<Rightarrow> json" where
  "block_json layer (DocumentHits hits) = JNull"
| "block_json layer (CompleteTable t) = envelope ''sealed_table'' (jobj [(''evidence_id'', jopt JStr (tb_evidence_id t))]) (tb_evidence_id t)
     (jobj [(''completeness'', JStr (if tb_truncated t then ''TRUNCATED'' else ''COMPLETE'')), (''columns'', JArr (map JStr (tb_columns t))),
       (''rows'', JArr (map (table_row_json t) (List.enumerate 0 (tb_rows t))))])"
| "block_json layer (Count c) = envelope ''sealed_count'' (jobj [(''evidence_id'', jopt JStr (cb_evidence_id c))]) (cb_evidence_id c)
     (jobj [(''count'', jint (cb_value c)), (''rows_covered'', jopt jint (cb_rows_covered c)), (''rows_excluded'', jopt jint (cb_rows_excluded c)),
       (''exclusion_reason'', jopt JStr (cb_exclusion_reason c))])"
| "block_json layer (FactSlice claims) = context_model_evidence (map (\<lambda>c. (claim_key c, c_value c)) claims)
     (jobj [(''version_id'', jopt JStr (facts_version layer)), (''as_of_seq'', JNull)])"
| "block_json layer (Refusal r) = envelope ''source_refusal'' JNull None
     (jobj [(''availability'', JStr ''no evidence available''), (''code'', JStr (rf_code r)), (''message'', JStr (rf_message r))])"

definition render_block :: "(json \<Rightarrow> string) \<Rightarrow> string \<Rightarrow> evidence_layer option \<Rightarrow> evidence_block \<Rightarrow> (string \<times> json list) list \<Rightarrow> string" where
  "render_block ser name layer block document_evidence =
     (case block of
        DocumentHits hits \<Rightarrow> concat (map (\<lambda>ih. labelled ser name layer (hit_json name document_evidence ih)) (List.enumerate 0 hits))
      | _ \<Rightarrow> labelled ser name layer (block_json layer block))"

section \<open>Fitting the budget\<close>

fun item_count :: "evidence_block \<Rightarrow> nat" where
  "item_count (DocumentHits hits) = length hits"
| "item_count (CompleteTable t) = length (tb_rows t)"
| "item_count (FactSlice claims) = length claims"
| "item_count _ = 0"

fun truncate_block :: "nat \<Rightarrow> evidence_block \<Rightarrow> evidence_block" where
  "truncate_block keep (DocumentHits hits) = DocumentHits (take keep hits)"
| "truncate_block keep (CompleteTable t) =
     CompleteTable (t\<lparr>tb_rows := take keep (tb_rows t), tb_row_ids := take keep (tb_row_ids t), tb_truncated := True\<rparr>)"
| "truncate_block keep (FactSlice claims) = FactSlice (take keep claims)"
| "truncate_block keep b = b"

function cut_search :: "(nat \<Rightarrow> string) \<Rightarrow> nat \<Rightarrow> nat \<Rightarrow> nat \<Rightarrow> string \<Rightarrow> string" where
  "cut_search candidate room lo hi fit =
     (if lo < hi then
        let keep = lo + (hi - lo) div 2 in
        if byte_len (candidate keep) \<le> room then cut_search candidate room (keep + 1) hi (candidate keep)
        else cut_search candidate room lo keep fit
      else fit)"
  by pat_completeness auto
termination
  by (relation "measure (\<lambda>(_, _, lo, hi, _). hi - lo)") auto

declare cut_search.simps [simp del]

record composed =
  co_context :: string
  co_layers_used :: nat
  co_layers_dropped :: "string list"

definition room_for :: "nat \<Rightarrow> string \<Rightarrow> evidence_layer option \<Rightarrow> nat" where
  "room_for budget context layer =
     (let left = budget - byte_len context in
      case layer of
        None \<Rightarrow> left
      | Some l \<Rightarrow> (case el_context_char_budget l of None \<Rightarrow> left | Some own \<Rightarrow> min left own))"

definition preserved :: "evidence_layer option \<Rightarrow> bool" where
  "preserved layer = (case layer of None \<Rightarrow> False | Some l \<Rightarrow> el_preserve_complete_result l)"

definition plan_layer_named :: "evidence_plan \<Rightarrow> string \<Rightarrow> evidence_layer option" where
  "plan_layer_named plan name = find (\<lambda>l. el_name l = name) (ep_layers plan)"

definition push_layer :: "string \<Rightarrow> composed \<Rightarrow> composed" where
  "push_layer text c = c\<lparr>co_context := co_context c @ text, co_layers_used := co_layers_used c + 1\<rparr>"

definition drop_layer :: "string \<Rightarrow> composed \<Rightarrow> composed" where
  "drop_layer name c = c\<lparr>co_layers_dropped := co_layers_dropped c @ [name]\<rparr>"

definition place_block :: "(json \<Rightarrow> string) \<Rightarrow> evidence_plan \<Rightarrow> nat \<Rightarrow> (string \<times> json list) list \<Rightarrow> string \<times> evidence_block \<Rightarrow> composed \<Rightarrow> composed" where
  "place_block ser plan budget docs nb c =
     (let (name, block) = nb; layer = plan_layer_named plan name; rendered = render_block ser name layer block docs in
      if rendered = [] then c
      else
      (let room = room_for budget (co_context c) layer in
       if byte_len rendered \<le> room then push_layer rendered c
       else if preserved layer then drop_layer name c
       else if room = 0 then drop_layer name c
       else
       (let fit = cut_search (\<lambda>keep. render_block ser name layer (truncate_block keep block) docs) room 1 (item_count block) [] in
        if fit = [] then drop_layer name c else push_layer fit c)))"

definition compose_hierarchy :: "(json \<Rightarrow> string) \<Rightarrow> evidence_plan \<Rightarrow> (string \<times> evidence_block) list \<Rightarrow> nat \<Rightarrow> (string \<times> json list) list \<Rightarrow> composed" where
  "compose_hierarchy ser plan blocks budget docs =
     fold (place_block ser plan budget docs) blocks \<lparr>co_context = [], co_layers_used = 0, co_layers_dropped = []\<rparr>"

section \<open>What was served\<close>

record served_evidence =
  sv_evidence_id :: string
  sv_rows :: "(string \<times> string list) list"

fun served_block :: "evidence_block \<Rightarrow> served_evidence option" where
  "served_block (CompleteTable t) = map_option (\<lambda>ev. \<lparr>sv_evidence_id = ev,
     sv_rows = map (\<lambda>(i, row). (table_row_id t i, map cell_text row)) (List.enumerate 0 (tb_rows t))\<rparr>) (tb_evidence_id t)"
| "served_block _ = None"

definition served_of :: "(string \<times> evidence_block) list \<Rightarrow> served_evidence list" where
  "served_of blocks = List.map_filter (\<lambda>(_, b). served_block b) blocks"

section \<open>The context stays within its budgets\<close>

lemma cut_search_fits:
  "cut_search candidate room lo hi fit = fit \<or>
   (\<exists>keep. lo \<le> keep \<and> keep < hi \<and> cut_search candidate room lo hi fit = candidate keep \<and> byte_len (candidate keep) \<le> room)"
proof (induction candidate room lo hi fit rule: cut_search.induct)
  case (1 candidate room lo hi fit)
  show ?case
  proof (cases "lo < hi")
    case False
    then show ?thesis by (subst cut_search.simps) simp
  next
    case True
    define keep where "keep = lo + (hi - lo) div 2"
    have keep: "lo \<le> keep" "keep < hi" using True by (auto simp: keep_def)
    show ?thesis
    proof (cases "byte_len (candidate keep) \<le> room")
      case fits: True
      have "cut_search candidate room lo hi fit = cut_search candidate room (keep + 1) hi (candidate keep)"
        using True fits by (subst cut_search.simps) (simp add: keep_def Let_def)
      with "1.IH"(1)[OF True keep_def fits] keep fits show ?thesis
      proof (elim disjE exE conjE)
        fix k assume "keep + 1 \<le> k" "k < hi" "cut_search candidate room (keep + 1) hi (candidate keep) = candidate k" "byte_len (candidate k) \<le> room"
        with \<open>cut_search candidate room lo hi fit = _\<close> keep show ?thesis by (intro disjI2 exI[of _ k]) simp
      qed (auto intro: exI[of _ keep])
    next
      case False
      have "cut_search candidate room lo hi fit = cut_search candidate room lo keep fit"
        using True False by (subst cut_search.simps) (simp add: keep_def Let_def)
      with "1.IH"(2)[OF True keep_def False] keep show ?thesis by (metis order_less_trans)
    qed
  qed
qed

text \<open>What a block may contribute: nothing, the whole of it, or, unless its layer is preserved, the
  rendering of a proper prefix of its items; never more than its layer's own budget.\<close>

definition within_layer :: "evidence_layer option \<Rightarrow> string \<Rightarrow> bool" where
  "within_layer layer part = (case layer of None \<Rightarrow> True | Some l \<Rightarrow> (case el_context_char_budget l of None \<Rightarrow> True | Some own \<Rightarrow> byte_len part \<le> own))"

definition contributes :: "(json \<Rightarrow> string) \<Rightarrow> evidence_plan \<Rightarrow> (string \<times> json list) list \<Rightarrow> string \<times> evidence_block \<Rightarrow> string \<Rightarrow> bool" where
  "contributes ser plan docs nb part =
     (let layer = plan_layer_named plan (fst nb) in
      within_layer layer part \<and>
      (part = [] \<or> part = render_block ser (fst nb) layer (snd nb) docs \<or>
       \<not> preserved layer \<and> (\<exists>keep. 0 < keep \<and> keep < item_count (snd nb) \<and>
         part = render_block ser (fst nb) layer (truncate_block keep (snd nb)) docs)))"

definition dropped_name :: "(json \<Rightarrow> string) \<Rightarrow> evidence_plan \<Rightarrow> (string \<times> json list) list \<Rightarrow> (string \<times> evidence_block) \<times> string \<Rightarrow> string list" where
  "dropped_name ser plan docs = (\<lambda>((name, b), part).
     if part = [] \<and> render_block ser name (plan_layer_named plan name) b docs \<noteq> [] then [name] else [])"

lemma within_room: "byte_len part \<le> room_for budget ctx layer \<Longrightarrow> within_layer layer part \<and> byte_len part \<le> budget - byte_len ctx"
  by (auto simp: room_for_def within_layer_def Let_def split: option.splits)

lemma within_empty [simp]: "within_layer layer []"
  by (simp add: within_layer_def byte_len_def split: option.split)

lemma place_block_cases:
  obtains (Nothing) "place_block ser plan budget docs (name, b) c = c" "render_block ser name (plan_layer_named plan name) b docs = []"
  | (Dropped) "place_block ser plan budget docs (name, b) c = drop_layer name c" "render_block ser name (plan_layer_named plan name) b docs \<noteq> []"
  | (Pushed) part where "place_block ser plan budget docs (name, b) c = push_layer part c" "part \<noteq> []"
      "byte_len part \<le> room_for budget (co_context c) (plan_layer_named plan name)" "contributes ser plan docs (name, b) part"
proof -
  let ?layer = "plan_layer_named plan name" and ?r = "render_block ser name (plan_layer_named plan name) b docs"
  let ?cand = "\<lambda>keep. render_block ser name ?layer (truncate_block keep b) docs"
  define room where "room = room_for budget (co_context c) ?layer"
  define fit where "fit = cut_search ?cand room 1 (item_count b) []"
  have p: "place_block ser plan budget docs (name, b) c = (if ?r = [] then c else if byte_len ?r \<le> room then push_layer ?r c
      else if preserved ?layer then drop_layer name c else if room = 0 then drop_layer name c
      else if fit = [] then drop_layer name c else push_layer fit c)"
    by (simp add: place_block_def Let_def fit_def room_def)
  have fit: "fit = [] \<or> (\<exists>keep. 0 < keep \<and> keep < item_count b \<and> fit = ?cand keep \<and> byte_len fit \<le> room)"
    using cut_search_fits[of ?cand room 1 "item_count b" "[]"] by (auto simp: fit_def)
  consider "?r = []" | "?r \<noteq> []" "byte_len ?r \<le> room" | "?r \<noteq> []" "\<not> byte_len ?r \<le> room" "preserved ?layer \<or> room = 0 \<or> fit = []"
    | "?r \<noteq> []" "\<not> byte_len ?r \<le> room" "\<not> preserved ?layer" "room \<noteq> 0" "fit \<noteq> []" by blast
  then show thesis
  proof cases
    case 1
    with p Nothing show thesis by simp
  next
    case 2
    have "contributes ser plan docs (name, b) ?r"
      using within_room 2(2) unfolding room_def by (simp add: contributes_def Let_def)
    with p 2 Pushed[of ?r] show thesis by (simp add: room_def)
  next
    case 3
    then have "place_block ser plan budget docs (name, b) c = drop_layer name c" unfolding p by (auto split: if_splits)
    with 3 Dropped show thesis by blast
  next
    case 4
    with fit have f: "byte_len fit \<le> room" "\<exists>keep. 0 < keep \<and> keep < item_count b \<and> fit = ?cand keep" by auto
    then have "contributes ser plan docs (name, b) fit"
      using within_room 4(3) unfolding room_def by (simp add: contributes_def Let_def)
    with p 4 f Pushed[of fit] show thesis by (simp add: room_def)
  qed
qed

text \<open>What a composition made so far, from the contributions of the blocks it placed.\<close>

definition composes :: "(json \<Rightarrow> string) \<Rightarrow> evidence_plan \<Rightarrow> (string \<times> json list) list \<Rightarrow> (string \<times> evidence_block) list \<Rightarrow> string list \<Rightarrow> composed \<Rightarrow> bool" where
  "composes ser plan docs blocks parts c \<longleftrightarrow> list_all2 (contributes ser plan docs) blocks parts \<and> co_context c = concat parts \<and>
     co_layers_used c = length (filter (\<lambda>p. p \<noteq> []) parts) \<and>
     co_layers_dropped c = concat (map (dropped_name ser plan docs) (zip blocks parts))"

lemma composes_extend:
  assumes "composes ser plan docs blocks parts c" "byte_len (co_context c) \<le> budget"
  shows "\<exists>part. composes ser plan docs (blocks @ [nb]) (parts @ [part]) (place_block ser plan budget docs nb c) \<and>
    byte_len (co_context (place_block ser plan budget docs nb c)) \<le> budget"
proof -
  obtain name b where nb: "nb = (name, b)" by (cases nb)
  from assms(1) have l: "length blocks = length parts" by (auto simp: composes_def dest: list_all2_lengthD)
  have none: "contributes ser plan docs (name, b) []" by (simp add: contributes_def Let_def)
  show ?thesis
  proof (cases rule: place_block_cases[of ser plan budget docs name b c])
    case Nothing
    with assms l none have "composes ser plan docs (blocks @ [nb]) (parts @ [[]]) c"
      by (simp add: composes_def nb list_all2_appendI dropped_name_def)
    with Nothing assms(2) show ?thesis by (auto simp: nb)
  next
    case Dropped
    with assms l none have "composes ser plan docs (blocks @ [nb]) (parts @ [[]]) (drop_layer name c)"
      by (simp add: composes_def nb list_all2_appendI dropped_name_def drop_layer_def)
    with Dropped assms(2) show ?thesis by (auto simp: nb drop_layer_def)
  next
    case (Pushed part)
    with assms l have "composes ser plan docs (blocks @ [nb]) (parts @ [part]) (push_layer part c)"
      by (simp add: composes_def nb list_all2_appendI dropped_name_def push_layer_def)
    moreover have "byte_len (co_context (push_layer part c)) \<le> budget"
      using within_room[OF Pushed(3)] assms(2) by (auto simp: push_layer_def)
    ultimately show ?thesis using Pushed(1) by (auto simp: nb)
  qed
qed

lemma compose_fold:
  assumes "composes ser plan docs before parts c" "byte_len (co_context c) \<le> budget"
  shows "\<exists>parts'. composes ser plan docs (before @ blocks) parts' (fold (place_block ser plan budget docs) blocks c) \<and>
    byte_len (co_context (fold (place_block ser plan budget docs) blocks c)) \<le> budget"
  using assms
proof (induction blocks arbitrary: before parts c)
  case (Cons nb blocks)
  from composes_extend[OF Cons.prems, of nb] obtain part where
    "composes ser plan docs (before @ [nb]) (parts @ [part]) (place_block ser plan budget docs nb c)"
    "byte_len (co_context (place_block ser plan budget docs nb c)) \<le> budget" by blast
  from Cons.IH[OF this] show ?case by simp
qed auto

text \<open>C35. The context of a turn never exceeds its budget in bytes. It is the contributions of the
  blocks in execution order; each is nothing, the whole rendering, or, unless the layer preserves its
  result, the rendering of a proper prefix of its items, within the layer's own budget; the used
  layers are the ones that contributed, and the dropped ones those that had something to say and did
  not.\<close>

theorem hierarchy_context_bounded:
  "byte_len (co_context (compose_hierarchy ser plan blocks budget docs)) \<le> budget \<and>
   (\<exists>parts. list_all2 (contributes ser plan docs) blocks parts \<and>
     co_context (compose_hierarchy ser plan blocks budget docs) = concat parts \<and>
     co_layers_used (compose_hierarchy ser plan blocks budget docs) = length (filter (\<lambda>p. p \<noteq> []) parts) \<and>
     co_layers_dropped (compose_hierarchy ser plan blocks budget docs) = concat (map (dropped_name ser plan docs) (zip blocks parts)))"
  using compose_fold[of ser plan docs "[]" "[]" "\<lparr>co_context = [], co_layers_used = 0, co_layers_dropped = []\<rparr>" budget blocks]
  by (auto simp: compose_hierarchy_def[symmetric] composes_def byte_len_def[of "[]"])

end
