(* ===== verification/Grounding.thy ===== *)
theory Grounding
  imports Evidence_Compose
begin

text \<open>
  The deterministic checks of an answer (\<open>munarium-server/src/verification.rs\<close>): quotes and citations
  against what was served, typed assertions against sealed rows, and the repair envelope. Strings are
  Latin-1, so of the three quotation marks only the straight one occurs; \<open>dash\<close> is the dash of the
  messages. The JSON reader and printer are parameters.
\<close>

definition MIN_QUOTE_CHARS :: nat where
  "MIN_QUOTE_CHARS = 15"

section \<open>The answer inside an envelope\<close>

definition strip_suffix :: "string \<Rightarrow> string \<Rightarrow> string option" where
  "strip_suffix p s = (if ends_with s p then Some (take (length s - length p) s) else None)"

text \<open>A completion fenced as code loses its fence.\<close>

definition unfenced :: "string \<Rightarrow> string" where
  "unfenced trimmed =
     (case Option.bind (case strip_prefix (''```json'' @ NL) trimmed of Some x \<Rightarrow> Some x | None \<Rightarrow> strip_prefix (''```'' @ NL) trimmed) (strip_suffix ''```'') of
        None \<Rightarrow> trimmed
      | Some x \<Rightarrow> x)"

definition narrative_answer :: "(string \<Rightarrow> json option) \<Rightarrow> string \<Rightarrow> kernel_error + string" where
  "narrative_answer parse text =
     (case parse (unfenced (trim text)) of
        None \<Rightarrow> Inr text
      | Some v \<Rightarrow>
          if jas_str (jx v ''source_role'') \<notin> {Some ''model_output'', Some ''previous_model_output''} then Inr text
          else
          (let answer = (case jas_str (jx (jx v ''content'') ''answer'') of None \<Rightarrow> None | Some s \<Rightarrow> if trim s = [] then None else Some s) in
           if jx v ''execution_authority'' \<noteq> JBool False \<or> jx v ''approval_authority'' \<noteq> JBool False
              \<or> jget v ''historical_pin'' \<noteq> Some JNull \<or> jget v ''citation_id'' \<noteq> Some JNull \<or> answer = None
           then Inl (Provider ''completion returned an invalid model-only evidence envelope'')
           else Inr (case answer of None \<Rightarrow> [] | Some s \<Rightarrow> s)))"

section \<open>Quotes\<close>

definition normalize_ws :: "string \<Rightarrow> string" where
  "normalize_ws s = join '' '' (split_whitespace s)"

text \<open>The scan of \<open>quoted_spans\<close>; the first argument is the quote being read.\<close>

fun span_scan :: "string option \<Rightarrow> string \<Rightarrow> string list" where
  "span_scan cur [] = []"
| "span_scan cur (c # cs) =
     (if c = CHR 0x22 then (case cur of Some quote \<Rightarrow> quote # span_scan None cs | None \<Rightarrow> span_scan (Some []) cs)
      else span_scan (map_option (\<lambda>quote. quote @ [c]) cur) cs)"

definition quoted_spans :: "string \<Rightarrow> string list" where
  "quoted_spans text = filter (\<lambda>s. MIN_QUOTE_CHARS \<le> byte_len (trim s)) (span_scan None text)"

definition check_quotes :: "string \<Rightarrow> string list \<Rightarrow> string list" where
  "check_quotes answer served_texts =
     (let haystacks = map normalize_ws served_texts in
      filter (\<lambda>quote. \<not> list_ex (\<lambda>h. contains h (normalize_ws quote)) haystacks) (quoted_spans answer))"

section \<open>Citations\<close>

text \<open>The scan both citation checks run: from each opening bracket to the next closing one.\<close>

function bracket_tokens :: "string \<Rightarrow> string list" where
  "bracket_tokens rest =
     (case split_once CHR ''['' rest of
        None \<Rightarrow> []
      | Some (_, after) \<Rightarrow>
          (case split_once CHR '']'' after of
             None \<Rightarrow> []
           | Some (inner, rest') \<Rightarrow> trim inner # bracket_tokens rest'))"
  by pat_completeness auto
termination
  by (relation "measure length") (auto simp: split_once_Some)

declare bracket_tokens.simps [simp del]

definition sort_dedup :: "string list \<Rightarrow> string list" where
  "sort_dedup xs = remdups_adj (sort xs)"

definition check_citations :: "string \<Rightarrow> string list \<Rightarrow> string list" where
  "check_citations answer served_labels =
     sort_dedup (filter (\<lambda>t. CHR ''/'' \<in> set t \<and> t \<noteq> [] \<and> CHR 0x0A \<notin> set t \<and> t \<notin> set served_labels) (bracket_tokens answer))"

definition parse_evidence_ref :: "string \<Rightarrow> (string \<times> string) option" where
  "parse_evidence_ref token =
     (case strip_prefix ''evidence/'' token of
        None \<Rightarrow> None
      | Some rest \<Rightarrow>
          (case split_once CHR ''#'' rest of
             None \<Rightarrow> None
           | Some (i, row) \<Rightarrow> if i \<noteq> [] \<and> row \<noteq> [] then Some (i, row) else None))"

definition served_row :: "served_evidence \<Rightarrow> string \<Rightarrow> string list option" where
  "served_row e row_id = map_option snd (find (\<lambda>(i, _). i = row_id) (sv_rows e))"

definition row_served :: "served_evidence list \<Rightarrow> string \<times> string \<Rightarrow> bool" where
  "row_served served = (\<lambda>(i, row_id). list_ex (\<lambda>e. sv_evidence_id e = i \<and> served_row e row_id \<noteq> None) served)"

definition check_evidence_citations :: "string \<Rightarrow> served_evidence list \<Rightarrow> string list" where
  "check_evidence_citations answer served =
     sort_dedup (filter (\<lambda>t. case parse_evidence_ref t of None \<Rightarrow> False | Some r \<Rightarrow> \<not> row_served served r) (bracket_tokens answer))"

section \<open>Typed assertions\<close>

record typed_assertion =
  ta_value :: string
  ta_unit :: "string option"
  ta_kind :: "string option"
  ta_derivation_ref :: "string option"
  ta_evidence_refs :: "string list"

definition ASSERTIONS_FENCE :: string where
  "ASSERTIONS_FENCE = ''```assertions''"

text \<open>\<open>parse\<close> reads a list of assertions; its error is a text.\<close>

definition extract_assertions :: "(string \<Rightarrow> string + typed_assertion list) \<Rightarrow> string \<Rightarrow> string + typed_assertion list" where
  "extract_assertions parse answer =
     (case find_sub answer ASSERTIONS_FENCE of
        None \<Rightarrow> Inr []
      | Some start \<Rightarrow>
          (let body = drop (start + length ASSERTIONS_FENCE) answer in
           case find_sub body ''```'' of
             None \<Rightarrow> Inl ''assertions block is not closed''
           | Some stop \<Rightarrow> (case parse (trim (take stop body)) of Inl e \<Rightarrow> Inl (''block does not parse: '' @ e) | Inr as \<Rightarrow> Inr as)))"

definition resolve_ref :: "served_evidence list \<Rightarrow> string \<Rightarrow> string \<Rightarrow> string + string list" where
  "resolve_ref served claimed r =
     (case parse_evidence_ref r of
        Some (i, row_id) \<Rightarrow>
          (case Option.bind (find (\<lambda>e. sv_evidence_id e = i) served) (\<lambda>e. served_row e row_id) of
             Some cells \<Rightarrow> Inr cells
           | None \<Rightarrow> Inl (''assertion '' @ quoted claimed @ '' cites '' @ r @ '', which was not served''))
      | None \<Rightarrow> Inl (''assertion '' @ quoted claimed @ '' cites '' @ quoted r @ '', which is not an evidence/<id>#<row> reference''))"

fun lefts :: "('a + 'b) list \<Rightarrow> 'a list" where
  "lefts [] = []"
| "lefts (Inl x # xs) = x # lefts xs"
| "lefts (Inr _ # xs) = lefts xs"

fun rights :: "('a + 'b) list \<Rightarrow> 'b list" where
  "rights [] = []"
| "rights (Inl _ # xs) = rights xs"
| "rights (Inr x # xs) = x # rights xs"

definition assertion_violations :: "served_evidence list \<Rightarrow> typed_assertion \<Rightarrow> string list" where
  "assertion_violations served a =
     (if ta_evidence_refs a = [] then [''assertion '' @ quoted (ta_value a) @ '' cites no evidence'']
      else
      (let refs = map (resolve_ref served (ta_value a)) (ta_evidence_refs a); resolved = rights refs in
       lefts refs @
       (if length (ta_evidence_refs a) = 1 \<and> length resolved = 1 \<and> \<not> list_ex (\<lambda>c. trim c = trim (ta_value a)) (hd resolved)
        then [''assertion '' @ quoted (ta_value a) @ '' does not appear in the single row it cites ('' @ hd (ta_evidence_refs a) @ '')'']
        else [])))"

definition check_assertions :: "typed_assertion list \<Rightarrow> served_evidence list \<Rightarrow> string list" where
  "check_assertions assertions served = concat (map (assertion_violations served) assertions)"

section \<open>The corrective prompt\<close>

definition repair_envelope :: "string \<Rightarrow> string list \<Rightarrow> string list \<Rightarrow> json" where
  "repair_envelope previous_answer quote_violations citation_violations =
     envelope ''previous_model_output'' JNull None
       (jobj [(''answer'', JStr previous_answer), (''unresolved_quotes'', JArr (map JStr quote_violations)),
         (''unserved_citations'', JArr (map (\<lambda>c. JStr (''['' @ c @ '']'')) citation_violations))])"

definition corrective_prompt :: "string \<Rightarrow> (json \<Rightarrow> string) \<Rightarrow> string \<Rightarrow> string \<Rightarrow> string list \<Rightarrow> string list \<Rightarrow> string" where
  "corrective_prompt dash ser original_prompt previous_answer quote_violations citation_violations =
     ''Your previous answer failed deterministic verification and must be revised.'' @ NL
     @ (if quote_violations = [] then [] else NL @ ''These quoted passages do NOT appear in the provided context '' @ dash @
         '' quote only text that appears verbatim, or remove the quotation marks and paraphrase:'' @ NL)
     @ (if citation_violations = [] then [] else NL @ ''These citations name content that was NOT provided '' @ dash @
         '' cite only supplied citation identifiers, written as [identifier], or state that the information is not in the provided documents:'' @ NL)
     @ NL @ ''Your previous answer:'' @ NL @ ser (repair_envelope previous_answer quote_violations citation_violations)
     @ NL @ NL @ ''--- Original task, with the provided context ---'' @ NL @ original_prompt
     @ NL @ NL @ ''Return only the revised answer in the format requested by the original task. ''
     @ ''Do not reproduce the evidence envelope, source_role, authority flags, or verification bookkeeping. ''
     @ ''Those fields describe input data, not the requested answer format.'' @ NL"

section \<open>What the checks establish\<close>

lemma bracket_tokens_none: "CHR ''['' \<notin> set s \<Longrightarrow> bracket_tokens s = []"
  by (subst bracket_tokens.simps) (simp add: split_once_None[THEN iffD2])

lemma bracket_tokens_step:
  assumes "CHR ''['' \<notin> set pre" "CHR '']'' \<notin> set tok"
  shows "bracket_tokens (pre @ ''['' @ tok @ '']'' @ rest) = trim tok # bracket_tokens rest"
proof -
  have "split_once CHR ''['' (pre @ CHR ''['' # tok @ '']'' @ rest) = Some (pre, tok @ '']'' @ rest)" using assms by (simp add: split_once_Some)
  moreover have "split_once CHR '']'' (tok @ CHR '']'' # rest) = Some (tok, rest)" using assms by (simp add: split_once_Some)
  ultimately show ?thesis by (subst bracket_tokens.simps) simp
qed

text \<open>An answer as prose and bracketed labels.\<close>

definition cited_text :: "(string \<times> string) list \<Rightarrow> string \<Rightarrow> string" where
  "cited_text pieces tail = concat (map (\<lambda>(prose, label). prose @ ''['' @ label @ '']'') pieces) @ tail"

definition plain_pieces :: "(string \<times> string) list \<Rightarrow> bool" where
  "plain_pieces = list_all (\<lambda>(prose, label). CHR ''['' \<notin> set prose \<and> CHR '']'' \<notin> set label)"

lemma bracket_tokens_cited: "plain_pieces pieces \<Longrightarrow> CHR ''['' \<notin> set tail \<Longrightarrow>
    bracket_tokens (cited_text pieces tail) = map (trim \<circ> snd) pieces"
  by (induction pieces)
    (auto simp: cited_text_def plain_pieces_def bracket_tokens_none bracket_tokens_step[simplified])

lemma distinct_remdups_adj_sorted: "sorted (xs :: 'a :: linorder list) \<Longrightarrow> distinct (remdups_adj xs)"
  by (induction xs rule: remdups_adj.induct) auto

lemma sort_dedup_props: "set (sort_dedup xs) = set xs \<and> sorted (sort_dedup xs) \<and> distinct (sort_dedup xs)"
  by (simp add: sort_dedup_def distinct_remdups_adj_sorted)

lemma parse_citation: "ev \<noteq> [] \<Longrightarrow> CHR ''#'' \<notin> set ev \<Longrightarrow> row_id \<noteq> [] \<Longrightarrow> parse_evidence_ref (row_citation ev row_id) = Some (ev, row_id)"
proof -
  assume a: "ev \<noteq> []" "CHR ''#'' \<notin> set ev" "row_id \<noteq> []"
  have "strip_prefix ''evidence/'' (row_citation ev row_id) = Some (ev @ CHR ''#'' # row_id)"
    by (simp add: strip_prefix_def starts_with_def row_citation_def)
  with a show ?thesis by (simp add: parse_evidence_ref_def split_once_Some[THEN iffD2])
qed

text \<open>C0. Exactly the unserved labels are reported: in an answer made of prose and bracketed labels, the
  document check reports every label with a slash on one line that is no served label, and the evidence
  check every label that reads as an evidence reference to a row the turn did not serve; each once and
  in order.\<close>

theorem citation_checks_exact:
  assumes "plain_pieces pieces" "CHR ''['' \<notin> set tail"
  shows "set (check_citations (cited_text pieces tail) labels) =
      {t \<in> set (map (trim \<circ> snd) pieces). CHR ''/'' \<in> set t \<and> CHR 0x0A \<notin> set t \<and> t \<notin> set labels} \<and>
    set (check_evidence_citations (cited_text pieces tail) served) =
      {t \<in> set (map (trim \<circ> snd) pieces). \<exists>r. parse_evidence_ref t = Some r \<and> \<not> row_served served r} \<and>
    sorted (check_citations (cited_text pieces tail) labels) \<and> distinct (check_citations (cited_text pieces tail) labels) \<and>
    sorted (check_evidence_citations (cited_text pieces tail) served) \<and> distinct (check_evidence_citations (cited_text pieces tail) served)"
  unfolding check_citations_def check_evidence_citations_def bracket_tokens_cited[OF assms] using sort_dedup_props
  by (auto split: option.splits)

definition demo_cited :: "(string \<times> string) list" where
  "demo_cited = [(''north '', '' evidence/e1#r0001 ''), ('' and '', ''evidence/e1#r0009''), ('', see '', ''kb/c9'')]"

lemma citation_checks_exact_witness: "''kb/c9'' \<in> set (check_citations (cited_text demo_cited ''.'') [])"
proof -
  have p: "plain_pieces demo_cited" "CHR ''['' \<notin> set (''.'' :: string)" by (simp_all add: demo_cited_def plain_pieces_def)
  have "trim ''kb/c9'' = ''kb/c9''" by (rule trim_id) (simp add: is_ws_def)
  then have "''kb/c9'' \<in> set (map (trim \<circ> snd) demo_cited)" by (simp add: demo_cited_def)
  then show ?thesis unfolding conjunct1[OF citation_checks_exact[OF p]] by simp
qed

text \<open>The scan stops at the first closing bracket, so a reference inside an outer bracket is not seen.\<close>

lemma nested_citation_unseen: "check_evidence_citations ''[see [evidence/e9#r1]]'' [] = []"
  by code_simp

section \<open>What the model was shown is what the checks accept\<close>

lemma served_of_table: "(n, CompleteTable t) \<in> set blocks \<Longrightarrow> tb_evidence_id t = Some ev \<Longrightarrow>
    \<lparr>sv_evidence_id = ev, sv_rows = map (\<lambda>(i, row). (table_row_id t i, map cell_text row)) (List.enumerate 0 (tb_rows t))\<rparr> \<in> set (served_of blocks)"
  by (induction blocks) (auto simp: served_of_def List.map_filter_simps split: option.splits)

lemma served_row_found:
  assumes "i < length (tb_rows t)" "sv_rows e = map (\<lambda>(i, row). (table_row_id t i, map cell_text row)) (List.enumerate 0 (tb_rows t))"
  shows "served_row e (table_row_id t i) \<noteq> None"
    "distinct (map (table_row_id t) [0..<length (tb_rows t)]) \<Longrightarrow> served_row e (table_row_id t i) = Some (map cell_text (tb_rows t ! i))"
proof -
  have rows: "sv_rows e = map (\<lambda>j. (table_row_id t j, map cell_text (tb_rows t ! j))) [0..<length (tb_rows t)]"
    unfolding assms(2) by (rule nth_equalityI) (simp_all add: nth_enumerate_eq)
  then have m: "(table_row_id t i, map cell_text (tb_rows t ! i)) \<in> set (sv_rows e)" using assms(1) by auto
  then show "served_row e (table_row_id t i) \<noteq> None" by (auto simp: served_row_def find_None_iff)
  assume d: "distinct (map (table_row_id t) [0..<length (tb_rows t)])"
  from m obtain x where x: "find (\<lambda>(j, _). j = table_row_id t i) (sv_rows e) = Some x"
    by (cases "find (\<lambda>(j, _). j = table_row_id t i) (sv_rows e)") (auto simp: find_None_iff)
  then have "x \<in> set (sv_rows e)" "fst x = table_row_id t i" by (auto simp: find_Some_iff) (metis nth_mem)
  with d assms(1) have "x = (table_row_id t i, map cell_text (tb_rows t ! i))"
    unfolding rows by (auto simp: distinct_map inj_on_def)
  with x show "served_row e (table_row_id t i) = Some (map cell_text (tb_rows t ! i))" by (simp add: served_row_def)
qed

text \<open>Cutting a table keeps the labels of the rows that stay.\<close>

lemma truncated_row_id: "truncate_block keep (CompleteTable t) = CompleteTable t' \<Longrightarrow> i < keep \<Longrightarrow> table_row_id t' i = table_row_id t i"
  by (auto simp: table_row_id_def)

lemma truncated_row_json:
  assumes "truncate_block keep (CompleteTable t) = CompleteTable t'" "i < length (tb_rows t')"
  shows "table_row_json t' (i, tb_rows t' ! i) = table_row_json t (i, tb_rows t ! i)"
proof -
  from assms have "i < keep" "tb_rows t' ! i = tb_rows t ! i" "tb_evidence_id t' = tb_evidence_id t" by auto
  with truncated_row_id[OF assms(1)] show ?thesis by (simp add: table_row_json_def)
qed

lemma single_row_assertion_ok:
  assumes "parse_evidence_ref r = Some (ev, row_id)" "find (\<lambda>e. sv_evidence_id e = ev) served = Some e"
    "served_row e row_id = Some cells" "list_ex (\<lambda>c. trim c = trim (ta_value a)) cells" "ta_evidence_refs a = [r]"
  shows "check_assertions [a] served = []"
  using assms by (simp add: check_assertions_def assertion_violations_def resolve_ref_def Let_def)

lemma table_row_served: "(n, CompleteTable t) \<in> set blocks \<Longrightarrow> tb_evidence_id t = Some ev \<Longrightarrow> i < length (tb_rows t) \<Longrightarrow>
    row_served (served_of blocks) (ev, table_row_id t i)"
proof -
  assume a: "(n, CompleteTable t) \<in> set blocks" "tb_evidence_id t = Some ev" "i < length (tb_rows t)"
  let ?e = "\<lparr>sv_evidence_id = ev, sv_rows = map (\<lambda>(i, row). (table_row_id t i, map cell_text row)) (List.enumerate 0 (tb_rows t))\<rparr>"
  show ?thesis
    unfolding row_served_def case_prod_conv list_ex_iff
    by (rule bexI[OF _ served_of_table[OF a(1,2)]]) (use served_row_found(1)[OF a(3), of ?e] in simp)
qed

lemma row_citation_accepted:
  assumes "(n, CompleteTable t) \<in> set blocks" "tb_evidence_id t = Some ev" "ev \<noteq> []" "CHR ''#'' \<notin> set ev"
    "i < length (tb_rows t)" "table_row_id t i \<noteq> []"
  shows "row_citation ev (table_row_id t i) \<notin> set (check_evidence_citations answer (served_of blocks))"
  using sort_dedup_props table_row_served[OF assms(1,2,5)] parse_citation[OF assms(3,4,6)] by (auto simp: check_evidence_citations_def)

text \<open>An accepted label between brackets adds nothing to what the check reports of the rest.\<close>

lemma accepted_label_skipped:
  assumes "CHR ''['' \<notin> set prose" "CHR '']'' \<notin> set c" "trim c = c" "parse_evidence_ref c = Some r" "row_served served r"
  shows "check_evidence_citations (prose @ ''['' @ c @ '']'' @ rest) served = check_evidence_citations rest served"
  unfolding check_evidence_citations_def bracket_tokens_step[OF assms(1,2)] using assms(3-5) by simp

text \<open>
  A row label with a closing bracket cannot be cited: the scan cuts the citation at that bracket, and the
  piece in front of it is reported although the citation was copied as it was shown.
\<close>

lemma bracketed_label_blamed:
  assumes "ev \<noteq> []" "CHR ''#'' \<notin> set ev" "x \<noteq> []" "CHR '']'' \<notin> set (row_citation ev x)" "trim (row_citation ev x) = row_citation ev x"
    and "\<not> row_served served (ev, x)"
  shows "row_citation ev x \<in> set (check_evidence_citations (''['' @ row_citation ev (x @ '']'' @ y) @ '']'') served)"
proof -
  have "''['' @ row_citation ev (x @ '']'' @ y) @ '']'' = [] @ ''['' @ row_citation ev x @ '']'' @ (y @ '']'')" by (simp add: row_citation_def)
  then have "bracket_tokens (''['' @ row_citation ev (x @ '']'' @ y) @ '']'') = trim (row_citation ev x) # bracket_tokens (y @ '']'')"
    using bracket_tokens_step[of "[]" "row_citation ev x" "y @ '']''"] assms(4) by simp
  then show ?thesis using sort_dedup_props parse_citation[OF assms(1-3)] assms(5,6) by (simp add: check_evidence_citations_def)
qed

text \<open>C36. A model that cites a row as it was shown is not corrected for it. For every row of a served table,
  whole or cut to a prefix, whose artifact id is not empty and has no hash sign and whose label is not
  empty, the rendered citation is a reference the check does not blame any answer for; written between brackets
  after prose without an opening bracket, it leaves the findings of the rest of the answer as they are, when it
  contains no closing bracket and has no blank at its end (a label with one is reported cut off there,
  lemma bracketed_label_blamed); and when the table is the first block of its artifact and its row labels are
  distinct, an assertion of one of the row's cells under that one citation passes.\<close>

theorem shown_citations_accepted:
  assumes "(n, CompleteTable t) \<in> set blocks" "tb_evidence_id t = Some ev" "ev \<noteq> []" "CHR ''#'' \<notin> set ev"
    "t' = t \<or> truncate_block keep (CompleteTable t) = CompleteTable t'" "i < length (tb_rows t')" "table_row_id t i \<noteq> []"
  shows "jx (table_row_json t' (i, tb_rows t' ! i)) ''citation_id'' = JStr (row_citation ev (table_row_id t i)) \<and>
    row_citation ev (table_row_id t i) \<notin> set (check_evidence_citations answer (served_of blocks)) \<and>
    (CHR ''['' \<notin> set prose \<longrightarrow> CHR '']'' \<notin> set (row_citation ev (table_row_id t i)) \<longrightarrow>
     trim (row_citation ev (table_row_id t i)) = row_citation ev (table_row_id t i) \<longrightarrow>
     check_evidence_citations (prose @ ''['' @ row_citation ev (table_row_id t i) @ '']'' @ rest) (served_of blocks) =
       check_evidence_citations rest (served_of blocks)) \<and>
    (find (\<lambda>e. sv_evidence_id e = ev) (served_of blocks) = served_block (CompleteTable t) \<longrightarrow>
     distinct (map (table_row_id t) [0..<length (tb_rows t)]) \<longrightarrow> cell \<in> set (tb_rows t ! i) \<longrightarrow>
     trim (ta_value a) = trim (cell_text cell) \<longrightarrow> ta_evidence_refs a = [row_citation ev (table_row_id t i)] \<longrightarrow>
     check_assertions [a] (served_of blocks) = [])"
proof -
  let ?c = "row_citation ev (table_row_id t i)"
  let ?e = "\<lparr>sv_evidence_id = ev, sv_rows = map (\<lambda>(i, row). (table_row_id t i, map cell_text row)) (List.enumerate 0 (tb_rows t))\<rparr>"
  have i: "i < length (tb_rows t)" using assms(5,6) by auto
  have json: "table_row_json t' (i, tb_rows t' ! i) = table_row_json t (i, tb_rows t ! i)"
    using assms(5) truncated_row_json[OF _ assms(6), of keep] by auto
  have shown: "jx (table_row_json t' (i, tb_rows t' ! i)) ''citation_id'' = JStr ?c"
    unfolding json by (simp add: table_row_json_def assms(2) jopt_def Let_def)
  have parsed: "parse_evidence_ref ?c = Some (ev, table_row_id t i)" by (rule parse_citation[OF assms(3,4,7)])
  note accepted = row_citation_accepted[OF assms(1-4) i assms(7)]
  have written: "check_evidence_citations (prose @ ''['' @ ?c @ '']'' @ rest) (served_of blocks) = check_evidence_citations rest (served_of blocks)"
    if "CHR ''['' \<notin> set prose" "CHR '']'' \<notin> set ?c" "trim ?c = ?c"
    by (rule accepted_label_skipped[OF that parsed table_row_served[OF assms(1,2) i]])
  have "check_assertions [a] (served_of blocks) = []"
    if "find (\<lambda>e. sv_evidence_id e = ev) (served_of blocks) = served_block (CompleteTable t)"
      "distinct (map (table_row_id t) [0..<length (tb_rows t)])" "cell \<in> set (tb_rows t ! i)"
      "trim (ta_value a) = trim (cell_text cell)" "ta_evidence_refs a = [?c]"
  proof (rule single_row_assertion_ok[OF parsed])
    show "find (\<lambda>e. sv_evidence_id e = ev) (served_of blocks) = Some ?e" using that(1) assms(2) by simp
    show "served_row ?e (table_row_id t i) = Some (map cell_text (tb_rows t ! i))" by (rule served_row_found(2)[OF i _ that(2)]) simp
    show "list_ex (\<lambda>c. trim c = trim (ta_value a)) (map cell_text (tb_rows t ! i))" using that(3,4) by (auto simp: list_ex_iff)
  qed (rule that(5))
  with shown accepted written show ?thesis by blast
qed

definition demo_table :: table_block where
  "demo_table = \<lparr>tb_columns = [''region'', ''amount''], tb_rows = [[Some ''north'', Some ''900000.50''], [Some ''south'', None]], tb_row_ids = [],
     tb_truncated = False, tb_evidence_id = Some ''e1''\<rparr>"

lemma demo_row_id: "table_row_id demo_table 1 = ''r0002''"
  by code_simp

lemma shown_citations_accepted_witness:
  "check_evidence_citations ''all [evidence/e1#r0002] and [evidence/e1#r0009]'' (served_of [(''register'', CompleteTable demo_table)]) =
     check_evidence_citations '' and [evidence/e1#r0009]'' (served_of [(''register'', CompleteTable demo_table)])"
proof -
  have c: "row_citation ''e1'' ''r0002'' = ''evidence/e1#r0002''" by (simp add: row_citation_def)
  have t: "trim ''evidence/e1#r0002'' = ''evidence/e1#r0002''" by (rule trim_id) (simp_all add: is_ws_def)
  show ?thesis
    using shown_citations_accepted[of "''register''" demo_table "[(''register'', CompleteTable demo_table)]" "''e1''" demo_table 0 1
        _ "''all ''" "'' and [evidence/e1#r0009]''"] t
    unfolding demo_row_id c by (simp add: demo_table_def)
qed

section \<open>Assertions\<close>

lemma lefts_Nil: "lefts xs = [] \<longleftrightarrow> list_all (\<lambda>x. \<exists>y. x = Inr y) xs"
  by (induction xs rule: lefts.induct) auto

lemma resolve_ref_Inr: "resolve_ref served v r = Inr cells \<longleftrightarrow>
    (\<exists>i row_id e. parse_evidence_ref r = Some (i, row_id) \<and> find (\<lambda>e. sv_evidence_id e = i) served = Some e \<and> served_row e row_id = Some cells)"
  by (auto simp: resolve_ref_def split: option.splits bind_splits)

text \<open>C37. The assertion check passes exactly the grounded assertions: each cites something, everything it
  cites is a row of the first served block of the named artifact, and a value with one citation stands in
  that row, text for text up to surrounding blanks.\<close>

theorem assertions_grounded:
  "check_assertions assertions served = [] \<longleftrightarrow>
   list_all (\<lambda>a. ta_evidence_refs a \<noteq> [] \<and> list_all (\<lambda>r. \<exists>cells. resolve_ref served (ta_value a) r = Inr cells) (ta_evidence_refs a) \<and>
     (case ta_evidence_refs a of
        [r] \<Rightarrow> \<exists>i row_id e cells c. parse_evidence_ref r = Some (i, row_id) \<and> find (\<lambda>e. sv_evidence_id e = i) served = Some e \<and>
          served_row e row_id = Some cells \<and> c \<in> set cells \<and> trim c = trim (ta_value a)
      | _ \<Rightarrow> True)) assertions"
proof -
  have one: "assertion_violations served a = [] \<longleftrightarrow> ta_evidence_refs a \<noteq> [] \<and>
      list_all (\<lambda>r. \<exists>cells. resolve_ref served (ta_value a) r = Inr cells) (ta_evidence_refs a) \<and>
      (case ta_evidence_refs a of [r] \<Rightarrow> \<exists>cells. resolve_ref served (ta_value a) r = Inr cells \<and> (\<exists>c \<in> set cells. trim c = trim (ta_value a)) | _ \<Rightarrow> True)"
    for a
    by (cases "ta_evidence_refs a" rule: remdups_adj.cases)
      (auto simp: assertion_violations_def Let_def lefts_Nil list_all_iff list_ex_iff)
  show ?thesis
    by (auto simp: check_assertions_def one resolve_ref_Inr list_all_iff split: list.splits) metis+
qed

section \<open>The repair envelope\<close>

text \<open>C0. A model that echoes the repair envelope it was given is read as its answer and nothing more: the
  previous answer comes back, and an envelope that claims an authority, a pin or a citation is refused.\<close>

theorem narrative_recovers_repair:
  assumes "parse (ser v) = Some v" "unfenced (trim (ser v)) = ser v"
  shows "(v = repair_envelope ans quotes cites \<longrightarrow> trim ans \<noteq> [] \<longrightarrow> narrative_answer parse (ser v) = Inr ans) \<and>
    (jas_str (jx v ''source_role'') \<in> {Some ''model_output'', Some ''previous_model_output''} \<longrightarrow> narrative_answer parse (ser v) = Inr out \<longrightarrow>
      jx v ''execution_authority'' = JBool False \<and> jx v ''approval_authority'' = JBool False \<and>
      jget v ''historical_pin'' = Some JNull \<and> jget v ''citation_id'' = Some JNull \<and> jas_str (jx (jx v ''content'') ''answer'') = Some out)"
proof -
  have n: "narrative_answer parse (ser v) =
    (if jas_str (jx v ''source_role'') \<notin> {Some ''model_output'', Some ''previous_model_output''} then Inr (ser v)
     else
     (let answer = (case jas_str (jx (jx v ''content'') ''answer'') of None \<Rightarrow> None | Some s \<Rightarrow> if trim s = [] then None else Some s) in
      if jx v ''execution_authority'' \<noteq> JBool False \<or> jx v ''approval_authority'' \<noteq> JBool False
         \<or> jget v ''historical_pin'' \<noteq> Some JNull \<or> jget v ''citation_id'' \<noteq> Some JNull \<or> answer = None
      then Inl (Provider ''completion returned an invalid model-only evidence envelope'')
      else Inr (case answer of None \<Rightarrow> [] | Some s \<Rightarrow> s)))"
    unfolding narrative_answer_def assms(2) assms(1) option.case ..
  have "narrative_answer parse (ser v) = Inr ans" if "v = repair_envelope ans quotes cites" "trim ans \<noteq> []"
  proof -
    have f: "jx v ''source_role'' = JStr ''previous_model_output''" "jx v ''execution_authority'' = JBool False" "jx v ''approval_authority'' = JBool False"
        "jget v ''historical_pin'' = Some JNull" "jget v ''citation_id'' = Some JNull" "jx (jx v ''content'') ''answer'' = JStr ans"
      by (simp_all add: that(1) repair_envelope_def envelope_def jopt_def)
    show ?thesis unfolding n f by (simp add: that(2) Let_def)
  qed
  moreover have "jx v ''execution_authority'' = JBool False \<and> jx v ''approval_authority'' = JBool False \<and>
      jget v ''historical_pin'' = Some JNull \<and> jget v ''citation_id'' = Some JNull \<and> jas_str (jx (jx v ''content'') ''answer'') = Some out"
    if "jas_str (jx v ''source_role'') \<in> {Some ''model_output'', Some ''previous_model_output''}" "narrative_answer parse (ser v) = Inr out"
    using that(2) unfolding n using that(1) by (auto simp: Let_def split: option.splits if_splits)
  ultimately show ?thesis by blast
qed

lemma narrative_recovers_repair_witness:
  "narrative_answer (\<lambda>_. Some (repair_envelope ''The bell rang.'' [] [])) ((\<lambda>_. ''{}'') (repair_envelope ''The bell rang.'' [] [])) = Inr ''The bell rang.''"
proof -
  have u: "unfenced (trim ''{}'') = ''{}''" by (simp add: unfenced_def trim_id is_ws_def strip_prefix_def starts_with_def NL_def)
  have "trim ''The bell rang.'' \<noteq> []" by (simp add: trim_id is_ws_def)
  with narrative_recovers_repair[of "\<lambda>_. Some (repair_envelope ''The bell rang.'' [] [])" "\<lambda>_. ''{}''" "repair_envelope ''The bell rang.'' [] []", OF refl u]
  show ?thesis by blast
qed

end
