(* ===== verification/Turn_Answer.thy ===== *)
theory Turn_Answer
  imports Grounding
begin

text \<open>
  Answering a turn (\<open>munarium-server/src/sessions_api.rs\<close>): the prompt, the completion with its one
  larger retry, and the checks with their corrective retries. The gateway is the parameter
  \<open>gw\<close> (\<open>complete\<close> in the code), which answers the \<open>k\<close>-th call with a prompt and a token ceiling; the readers of JSON and
  of assertions are parameters. A \<open>u32\<close> or \<open>u64\<close> is a natural number with its checks written out; the two
  running totals of the retries wrap.
\<close>

section \<open>The prompt\<close>

text \<open>\<open>completion_prompt\<close>: one pass over the template, so what it inserts is not read again.\<close>

function completion_prompt :: "string \<Rightarrow> string \<Rightarrow> string \<Rightarrow> string" where
  "completion_prompt template context query =
     (case template of
        [] \<Rightarrow> []
      | c # cs \<Rightarrow>
          if c \<noteq> CHR ''{'' then c # completion_prompt cs context query
          else
            (case strip_prefix ''{context}'' template of
               Some tail \<Rightarrow> context @ completion_prompt tail context query
             | None \<Rightarrow>
                 (case strip_prefix ''{query}'' template of
                    Some tail \<Rightarrow> query @ completion_prompt tail context query
                  | None \<Rightarrow> CHR ''{'' # completion_prompt cs context query)))"
  by pat_completeness auto
termination
  by (relation "measure (\<lambda>(t, _, _). length t)") (auto simp: strip_prefix_def split: if_splits)

declare completion_prompt.simps [simp del]

text \<open>The context of a turn without a research profile: hits in order while they fit.\<close>

fun legacy_context :: "(json \<Rightarrow> string) \<Rightarrow> nat \<Rightarrow> collection_envelope list \<Rightarrow> (string \<times> search_hit) list \<Rightarrow> string \<Rightarrow> string" where
  "legacy_context ser budget envelopes [] ctx = ctx"
| "legacy_context ser budget envelopes ((collection, h) # hits) ctx =
     (let entry = ser (document_envelope collection h envelopes) @ NL in
      if budget < byte_len ctx + byte_len entry then ctx else legacy_context ser budget envelopes hits (ctx @ entry))"

section \<open>One completion and its retry\<close>

record complete_response =
  cr_text :: string
  cr_stop_reason :: string
  cr_input_tokens :: nat
  cr_output_tokens :: nat
  cr_provider :: string
  cr_model :: string

type_synonym gateway = "nat \<Rightarrow> string \<Rightarrow> nat \<Rightarrow> kernel_error + complete_response"

definition completion_truncated :: "complete_response \<Rightarrow> kernel_error + bool" where
  "completion_truncated r =
     (let s = cr_stop_reason r in
      if s \<in> {''max_tokens'', ''length''} then Inr True
      else if s \<in> {''stop'', ''end_turn'', ''stop_sequence''} \<and> trim (cr_text r) \<noteq> [] then Inr False
      else if s \<in> {''refusal'', ''content_filter''} then Inl (Provider ''completion refused by provider'')
      else if s \<in> {''tool_use'', ''tool_calls'', ''pause_turn''} then Inl (Provider ''completion requires unsupported continuation'')
      else Inl (Provider ''completion returned empty or malformed output''))"

text \<open>
  The log of an answer, the first component of a result. \<open>CompletionEvent\<close> and \<open>VerifyEvent\<close> are the progress
  events the code emits; \<open>GatewayCall\<close> marks, with attempt, prompt and token ceiling, that the gateway was called,
  whatever it answered: the code emits no event when the call fails or its usage overflows.
\<close>

datatype answer_event =
    CompletionEvent nat string string nat nat
  | VerifyEvent nat "string list" nat
  | GatewayCall nat string nat

definition called :: "nat \<Rightarrow> string \<Rightarrow> nat \<Rightarrow> answer_event list \<times> 'a \<Rightarrow> answer_event list \<times> 'a" where
  "called attempt prompt budget x = (GatewayCall attempt prompt budget # fst x, snd x)"

definition completion_event :: "nat \<Rightarrow> complete_response \<Rightarrow> answer_event" where
  "completion_event attempt r = CompletionEvent attempt (cr_provider r) (cr_model r) (cr_input_tokens r) (cr_output_tokens r)"

record completed_answer =
  dn_response :: complete_response
  dn_budget :: nat
  dn_attempt :: nat
  dn_input_tokens :: nat
  dn_output_tokens :: nat

definition answer_overflow :: kernel_error where
  "answer_overflow = Provider ''completion usage overflow''"

text \<open>The loop over the attempts \<open>0..=1\<close>; the first argument counts the attempts left.\<close>

fun answer_loop :: "nat \<Rightarrow> gateway \<Rightarrow> (string \<Rightarrow> json option) \<Rightarrow> string \<Rightarrow> nat \<Rightarrow> nat \<Rightarrow> nat \<Rightarrow> nat \<Rightarrow> nat \<Rightarrow>
    answer_event list \<times> (kernel_error + completed_answer)" where
  "answer_loop 0 gw parse prompt base attempt budget tin tout = ([], Inl (Provider ''completion did not finish''))"
| "answer_loop (Suc left) gw parse prompt base attempt budget tin tout =
     called attempt prompt budget
     (case gw attempt prompt budget of
        Inl e \<Rightarrow> ([], Inl e)
      | Inr r \<Rightarrow>
          (case (checked_add tin (cr_input_tokens r), checked_add tout (cr_output_tokens r)) of
             (Some tin', Some tout') \<Rightarrow>
               (case completion_truncated r of
                  Inl e \<Rightarrow> ([completion_event attempt r], Inl e)
                | Inr False \<Rightarrow> ([completion_event attempt r], map_sum id (\<lambda>text.
                    \<lparr>dn_response = r\<lparr>cr_text := text\<rparr>, dn_budget = budget, dn_attempt = attempt, dn_input_tokens = tin', dn_output_tokens = tout'\<rparr>)
                    (narrative_answer parse (cr_text r)))
                | Inr True \<Rightarrow>
                    if attempt = 1 then ([completion_event attempt r], Inl (Provider ''completion token budget exhausted after bounded retry''))
                    else if base * 4 \<le> u32_max
                    then (let (es, out) = answer_loop left gw parse prompt base (attempt + 1) (base * 4) tin' tout' in (completion_event attempt r # es, out))
                    else ([completion_event attempt r], Inl (InvalidInput ''completion retry token ceiling exceeds u32'')))
           | _ \<Rightarrow> ([], Inl answer_overflow)))"

definition complete_turn_answer :: "gateway \<Rightarrow> (string \<Rightarrow> json option) \<Rightarrow> string \<Rightarrow> nat \<Rightarrow> answer_event list \<times> (kernel_error + completed_answer)" where
  "complete_turn_answer gw parse prompt base_budget = answer_loop 2 gw parse prompt base_budget 0 base_budget 0 0"

section \<open>The checks of a turn\<close>

text \<open>What was served: the texts and labels of the hits, and the sealed rows.\<close>

record turn_served =
  tv_texts :: "string list"
  tv_labels :: "string list"
  tv_evidence :: "served_evidence list"

definition served_turn :: "(string \<times> search_hit) list \<Rightarrow> (string \<times> evidence_block) list option \<Rightarrow> turn_served" where
  "served_turn merged hierarchy_blocks = \<lparr>tv_texts = map (\<lambda>(_, h). sh_text h) merged,
     tv_labels = map (\<lambda>(collection, h). collection @ ''/'' @ sh_chunk_id h) merged @ map (\<lambda>(_, h). sh_source_path h) merged,
     tv_evidence = (case hierarchy_blocks of None \<Rightarrow> [] | Some b \<Rightarrow> served_of b)\<rparr>"

type_synonym assertion_reader = "string \<Rightarrow> string + typed_assertion list"

definition run_checks :: "assertion_reader \<Rightarrow> verification_spec \<Rightarrow> turn_served \<Rightarrow> string \<Rightarrow> string list" where
  "run_checks read v served text =
     (if vf_quotes v then map (\<lambda>q. ''quote: '' @ q) (check_quotes text (tv_texts served)) else [])
   @ (if vf_citations v then map (\<lambda>c. ''citation: '' @ c) (check_citations text (tv_labels served))
        @ map (\<lambda>c. ''citation: '' @ c) (check_evidence_citations text (tv_evidence served)) else [])
   @ (case extract_assertions read text of
        Inr assertions \<Rightarrow> map (\<lambda>a. ''assertion: '' @ a) (check_assertions assertions (tv_evidence served))
      | Inl e \<Rightarrow> [''assertion: '' @ e])"

definition checks_ran :: "verification_spec \<Rightarrow> turn_served \<Rightarrow> string list" where
  "checks_ran v served = (if vf_quotes v then [''quotes''] else []) @ (if vf_citations v then [''citations''] else [])
     @ (if tv_evidence served \<noteq> [] then [''assertions''] else [])"

record turn_verification =
  tf_checks :: "string list"
  tf_retries :: nat
  tf_first_pass_violations :: "string list"
  tf_violations :: "string list"

record answer_state =
  as_response :: complete_response
  as_attempt :: nat
  as_total_in :: nat
  as_total_out :: nat
  as_violations :: "string list"
  as_retries :: nat

definition wrap_add :: "nat \<Rightarrow> nat \<Rightarrow> nat" where
  "wrap_add a b = (a + b) mod 2 ^ 64"

record turn_checks =
  tk_read :: assertion_reader
  tk_parse :: "string \<Rightarrow> json option"
  tk_print :: "json \<Rightarrow> string"
  tk_dash :: string
  tk_spec :: verification_spec
  tk_served :: turn_served

definition repair_prompt :: "turn_checks \<Rightarrow> string \<Rightarrow> answer_state \<Rightarrow> string" where
  "repair_prompt k prompt s =
     corrective_prompt (tk_dash k) (tk_print k) prompt (cr_text (as_response s))
       (List.map_filter (strip_prefix ''quote: '') (as_violations s)) (List.map_filter (strip_prefix ''citation: '') (as_violations s))"

text \<open>The corrective retries; the first argument counts those left.\<close>

fun correct_loop :: "nat \<Rightarrow> turn_checks \<Rightarrow> gateway \<Rightarrow> string \<Rightarrow> nat \<Rightarrow> answer_state \<Rightarrow> answer_event list \<times> (kernel_error + answer_state)" where
  "correct_loop 0 k gw prompt budget s = ([], Inr s)"
| "correct_loop (Suc left) k gw prompt budget s =
     (if as_violations s = [] then ([], Inr s)
      else
      called (as_attempt s + 1) (repair_prompt k prompt s) budget
      (case gw (as_attempt s + 1) (repair_prompt k prompt s) budget of
         Inl e \<Rightarrow> ([], Inl e)
       | Inr r \<Rightarrow>
           (let es = [completion_event (as_attempt s + 1) r] in
            case completion_truncated r of
              Inl e \<Rightarrow> (es, Inl e)
            | Inr True \<Rightarrow> (es, Inl (Provider ''verification completion token budget exhausted''))
            | Inr False \<Rightarrow>
                (case narrative_answer (tk_parse k) (cr_text r) of
                   Inl e \<Rightarrow> (es, Inl e)
                 | Inr text \<Rightarrow>
                     (let violations = run_checks (tk_read k) (tk_spec k) (tk_served k) text;
                          s' = \<lparr>as_response = r\<lparr>cr_text := text\<rparr>, as_attempt = as_attempt s + 1,
                            as_total_in = wrap_add (as_total_in s) (cr_input_tokens r), as_total_out = wrap_add (as_total_out s) (cr_output_tokens r),
                            as_violations = violations, as_retries = as_retries s + 1\<rparr>;
                          (es', out) = correct_loop left k gw prompt budget s' in
                      (es @ VerifyEvent (as_retries s + 1) (checks_ran (tk_spec k) (tk_served k)) (length violations) # es', out))))))"

definition start_answer :: "completed_answer \<Rightarrow> string list \<Rightarrow> answer_state" where
  "start_answer c violations = \<lparr>as_response = dn_response c, as_attempt = dn_attempt c, as_total_in = dn_input_tokens c,
     as_total_out = dn_output_tokens c, as_violations = violations, as_retries = 0\<rparr>"

text \<open>The answer of a turn; no verification when the runbook declares none, or neither check.\<close>

definition answer_turn :: "turn_checks option \<Rightarrow> gateway \<Rightarrow> (string \<Rightarrow> json option) \<Rightarrow> string \<Rightarrow> nat \<Rightarrow>
    answer_event list \<times> (kernel_error + answer_state \<times> turn_verification option)" where
  "answer_turn checks gw parse prompt base_budget =
     (case complete_turn_answer gw parse prompt base_budget of
        (es, Inl e) \<Rightarrow> (es, Inl e)
      | (es, Inr c) \<Rightarrow>
          (case checks of
             None \<Rightarrow> (es, Inr (start_answer c [], None))
           | Some k \<Rightarrow>
               if \<not> vf_quotes (tk_spec k) \<and> \<not> vf_citations (tk_spec k) then (es, Inr (start_answer c [], None))
               else
               (let names = checks_ran (tk_spec k) (tk_served k);
                    first = run_checks (tk_read k) (tk_spec k) (tk_served k) (cr_text (dn_response c));
                    (es', out) = correct_loop (min (vf_max_retries (tk_spec k)) 2) k gw prompt (dn_budget c) (start_answer c first) in
                (es @ VerifyEvent 0 names (length first) # es',
                 case out of
                   Inl e \<Rightarrow> Inl e
                 | Inr s \<Rightarrow> Inr (s, Some \<lparr>tf_checks = names, tf_retries = as_retries s, tf_first_pass_violations = first,
                     tf_violations = as_violations s\<rparr>)))))"

section \<open>The template is read once\<close>

lemma completion_prompt_plain: "CHR ''{'' \<notin> set lit \<Longrightarrow> completion_prompt (lit @ rest) ctx query = lit @ completion_prompt rest ctx query"
proof (induction lit)
  case (Cons c cs)
  then have "c \<noteq> CHR 0x7B" by auto
  with Cons show ?case by (subst completion_prompt.simps) simp
qed simp

lemma completion_prompt_holes:
  "completion_prompt (''{context}'' @ rest) ctx query = ctx @ completion_prompt rest ctx query"
  "completion_prompt (''{query}'' @ rest) ctx query = query @ completion_prompt rest ctx query"
  by (subst completion_prompt.simps, simp add: strip_prefix_def starts_with_def)+

datatype template_piece = Literal string | ContextHole | QueryHole

primrec piece_text :: "template_piece \<Rightarrow> string" where
  "piece_text (Literal l) = l"
| "piece_text ContextHole = ''{context}''"
| "piece_text QueryHole = ''{query}''"

primrec piece_value :: "string \<Rightarrow> string \<Rightarrow> template_piece \<Rightarrow> string" where
  "piece_value ctx query (Literal l) = l"
| "piece_value ctx query ContextHole = ctx"
| "piece_value ctx query QueryHole = query"

text \<open>Evidence and questions are inserted as they are: a template token inside them stays text.\<close>

lemma completion_prompt_single_pass:
  "list_all (\<lambda>p. case p of Literal l \<Rightarrow> CHR ''{'' \<notin> set l | _ \<Rightarrow> True) pieces \<Longrightarrow>
   completion_prompt (concat (map piece_text pieces)) ctx query = concat (map (piece_value ctx query) pieces)"
proof (induction pieces)
  case Nil
  show ?case by (subst completion_prompt.simps) simp
next
  case (Cons p ps)
  then have IH: "completion_prompt (concat (map piece_text ps)) ctx query = concat (map (piece_value ctx query) ps)" by simp
  show ?case
  proof (cases p)
    case (Literal l)
    with Cons.prems IH completion_prompt_plain[of l "concat (map piece_text ps)" ctx query] show ?thesis by simp
  next
    case ContextHole
    with IH completion_prompt_holes(1)[of "concat (map piece_text ps)" ctx query] show ?thesis by simp
  next
    case QueryHole
    with IH completion_prompt_holes(2)[of "concat (map piece_text ps)" ctx query] show ?thesis by simp
  qed
qed

lemma legacy_context_bounded: "byte_len ctx \<le> budget \<Longrightarrow> byte_len (legacy_context ser budget envelopes hits ctx) \<le> budget"
  by (induction ser budget envelopes hits ctx rule: legacy_context.induct) (simp_all add: Let_def not_less)

section \<open>What a turn pays and records\<close>

fun is_call :: "answer_event \<Rightarrow> bool" where
  "is_call (GatewayCall _ _ _) = True"
| "is_call _ = False"

definition gateway_calls :: "answer_event list \<Rightarrow> nat" where
  "gateway_calls es = length (filter is_call es)"

text \<open>The attempt numbers of the completion events, in order.\<close>

fun completion_attempts :: "answer_event list \<Rightarrow> nat list" where
  "completion_attempts [] = []"
| "completion_attempts (CompletionEvent n _ _ _ _ # es) = n # completion_attempts es"
| "completion_attempts (_ # es) = completion_attempts es"

lemma completion_attempts_append [simp]: "completion_attempts (es @ es') = completion_attempts es @ completion_attempts es'"
  by (induction es rule: completion_attempts.induct) simp_all

lemma log_simps [simp]: "gateway_calls [] = 0" "gateway_calls (es @ es') = gateway_calls es + gateway_calls es'"
    "gateway_calls (completion_event n r # es) = gateway_calls es" "gateway_calls (VerifyEvent n c v # es) = gateway_calls es"
    "gateway_calls (GatewayCall n p b # es) = Suc (gateway_calls es)"
    "completion_attempts (completion_event n r # es) = n # completion_attempts es"
  by (simp_all add: gateway_calls_def completion_event_def)

definition checked_text :: "turn_checks \<Rightarrow> answer_state \<Rightarrow> bool" where
  "checked_text k s \<longleftrightarrow> as_violations s = run_checks (tk_read k) (tk_spec k) (tk_served k) (cr_text (as_response s))"

lemma correct_loop_sound:
  assumes "correct_loop left k gw prompt budget s = (es, out)"
  shows "gateway_calls es \<le> left \<and> (case out of Inl _ \<Rightarrow> True | Inr s' \<Rightarrow>
    as_retries s' = as_retries s + gateway_calls es \<and> as_attempt s' = as_attempt s + gateway_calls es \<and>
    completion_attempts es = [Suc (as_attempt s)..<Suc (as_attempt s) + gateway_calls es] \<and> (checked_text k s \<longrightarrow> checked_text k s') \<and>
    (as_violations s' = [] \<or> gateway_calls es = left) \<and> (as_violations s = [] \<longrightarrow> s' = s))"
  using assms
proof (induction left arbitrary: s es out)
  case (Suc left)
  show ?case
  proof (cases "as_violations s = []")
    case True
    with Suc.prems show ?thesis by auto
  next
    case False
    let ?call = "GatewayCall (as_attempt s + 1) (repair_prompt k prompt s) budget"
    show ?thesis
    proof (cases "gw (as_attempt s + 1) (repair_prompt k prompt s) budget")
      case (Inl e)
      with Suc.prems False show ?thesis by (auto simp: called_def)
    next
      case (Inr r)
      show ?thesis
      proof (cases "completion_truncated r = Inr False \<and> (\<exists>text. narrative_answer (tk_parse k) (cr_text r) = Inr text)")
        case False
        then have "\<exists>e. es = [?call, completion_event (as_attempt s + 1) r] \<and> out = Inl e"
          using Suc.prems \<open>as_violations s \<noteq> []\<close> Inr by (auto simp: Let_def called_def split: sum.splits bool.splits)
        then show ?thesis by auto
      next
        case True
        then obtain reply where t: "completion_truncated r = Inr False" "narrative_answer (tk_parse k) (cr_text r) = Inr reply" by blast
        define s' where "s' = \<lparr>as_response = r\<lparr>cr_text := reply\<rparr>, as_attempt = as_attempt s + 1,
          as_total_in = wrap_add (as_total_in s) (cr_input_tokens r), as_total_out = wrap_add (as_total_out s) (cr_output_tokens r),
          as_violations = run_checks (tk_read k) (tk_spec k) (tk_served k) reply, as_retries = as_retries s + 1\<rparr>"
        obtain es' out' where l: "correct_loop left k gw prompt budget s' = (es', out')" by fastforce
        have e: "es = ?call # completion_event (as_attempt s + 1) r
              # VerifyEvent (as_retries s + 1) (checks_ran (tk_spec k) (tk_served k)) (length (as_violations s')) # es'"
            "out = out'"
          using Suc.prems False Inr t l by (simp_all add: s'_def Let_def called_def)
        have f: "as_attempt s' = Suc (as_attempt s)" "as_retries s' = Suc (as_retries s)" "checked_text k s'"
          by (simp_all add: checked_text_def s'_def)
        have u: "[Suc n..<Suc (Suc (n + m))] = Suc n # [Suc (Suc n)..<Suc (Suc (n + m))]" for n m by (rule upt_conv_Cons) simp
        show ?thesis using Suc.IH[OF l] False unfolding e by (auto simp: f u simp del: upt_Suc split: sum.splits)
      qed
    qed
  qed
qed simp

lemma answer_loop_sound:
  assumes "answer_loop left gw parse prompt base attempt budget tin tout = (es, out)"
  shows "gateway_calls es \<le> left \<and> (case out of Inl _ \<Rightarrow> True | Inr c \<Rightarrow> 0 < gateway_calls es \<and> dn_attempt c + 1 = attempt + gateway_calls es \<and>
    completion_attempts es = [attempt..<attempt + gateway_calls es] \<and> dn_budget c = (if dn_attempt c = attempt then budget else base * 4))"
  using assms
proof (induction left gw parse prompt base attempt budget tin tout arbitrary: es out rule: answer_loop.induct)
  case (2 left gw parse prompt base attempt budget tin tout)
  show ?case
  proof (cases "\<exists>r. gw attempt prompt budget = Inr r \<and> checked_add tin (cr_input_tokens r) \<noteq> None \<and>
      checked_add tout (cr_output_tokens r) \<noteq> None \<and> completion_truncated r = Inr True \<and> attempt \<noteq> 1 \<and> base * 4 \<le> u32_max")
    case False
    then show ?thesis using "2.prems" by (auto simp: map_sum_def called_def split: sum.splits option.splits bool.splits if_splits)
  next
    case True
    then obtain r tin' tout' where r: "gw attempt prompt budget = Inr r" "checked_add tin (cr_input_tokens r) = Some tin'"
        "checked_add tout (cr_output_tokens r) = Some tout'" "completion_truncated r = Inr True" "attempt \<noteq> 1" "base * 4 \<le> u32_max" by auto
    obtain es' out' where l: "answer_loop left gw parse prompt base (attempt + 1) (base * 4) tin' tout' = (es', out')" by fastforce
    from "2.prems" r l have e: "es = GatewayCall attempt prompt budget # completion_event attempt r # es'" "out = out'" by (auto simp: called_def)
    have u: "[n..<Suc (n + m)] = n # [Suc n..<Suc (n + m)]" for n m by (rule upt_conv_Cons) simp
    show ?thesis using "2.IH"[OF r(1) refl r(2,3,4) _ r(5,6) l] unfolding e by (auto simp: u simp del: upt_Suc split: sum.splits if_splits)
  qed
qed auto

lemma complete_turn_answer_sound:
  assumes "complete_turn_answer gw parse prompt base = (es, out)"
  shows "gateway_calls es \<le> 2 \<and> (case out of Inl _ \<Rightarrow> True | Inr c \<Rightarrow> gateway_calls es = dn_attempt c + 1 \<and>
    completion_attempts es = [0..<gateway_calls es] \<and> dn_budget c = (if dn_attempt c = 0 then base else base * 4))"
  using answer_loop_sound[OF assms[unfolded complete_turn_answer_def]] by (auto split: sum.splits)

text \<open>C38. The answer part of a turn (the completion with its larger retry, and the corrections; not the query
  expansion or the helpers of an evidence hierarchy, which make calls of their own) calls the gateway at
  most four times, whether or not a call succeeds, and an answer it returns is recorded truthfully: each
  of its calls gave a completion event, numbered from zero without a gap or a repetition, the larger
  retry included; the recorded violations are those of the answer returned, a clean first answer is not corrected,
  and an answer with violations left has used every correction the runbook allows.\<close>

theorem answer_recorded_truthfully:
  assumes "answer_turn checks gw parse prompt base = (es, out)"
  shows "gateway_calls es \<le> 4 \<and> (case out of Inl _ \<Rightarrow> True | Inr (s, v) \<Rightarrow> gateway_calls es = as_attempt s + 1 \<and>
    completion_attempts es = [0..<gateway_calls es] \<and>
    (case v of None \<Rightarrow> gateway_calls es \<le> 2
     | Some f \<Rightarrow> \<exists>k. checks = Some k \<and> gateway_calls es \<le> 2 + tf_retries f \<and> tf_retries f \<le> min (vf_max_retries (tk_spec k)) 2 \<and>
         tf_violations f = run_checks (tk_read k) (tk_spec k) (tk_served k) (cr_text (as_response s)) \<and>
         (tf_first_pass_violations f = [] \<longrightarrow> tf_retries f = 0 \<and> tf_violations f = []) \<and>
         (tf_violations f = [] \<or> tf_retries f = min (vf_max_retries (tk_spec k)) 2)))"
proof -
  obtain es1 out1 where one: "complete_turn_answer gw parse prompt base = (es1, out1)" by fastforce
  note sound = complete_turn_answer_sound[OF one]
  show ?thesis
  proof (cases "\<exists>c k. out1 = Inr c \<and> checks = Some k \<and> (vf_quotes (tk_spec k) \<or> vf_citations (tk_spec k))")
    case False
    then have "es = es1" "out = (case out1 of Inl e \<Rightarrow> Inl e | Inr c \<Rightarrow> Inr (start_answer c [], None))"
      using assms one by (auto simp: answer_turn_def split: sum.splits option.splits if_splits)
    with sound show ?thesis by (auto simp: start_answer_def split: sum.splits)
  next
    case True
    then obtain c k where ck: "out1 = Inr c" "checks = Some k" "\<not> (\<not> vf_quotes (tk_spec k) \<and> \<not> vf_citations (tk_spec k))" by blast
    define m where "m = min (vf_max_retries (tk_spec k)) 2"
    define viol where "viol = run_checks (tk_read k) (tk_spec k) (tk_served k) (cr_text (dn_response c))"
    obtain es2 out2 where two: "correct_loop m k gw prompt (dn_budget c) (start_answer c viol) = (es2, out2)" by fastforce
    have e: "es = es1 @ VerifyEvent 0 (checks_ran (tk_spec k) (tk_served k)) (length viol) # es2"
        "out = (case out2 of Inl e \<Rightarrow> Inl e | Inr s \<Rightarrow> Inr (s, Some \<lparr>tf_checks = checks_ran (tk_spec k) (tk_served k), tf_retries = as_retries s,
          tf_first_pass_violations = viol, tf_violations = as_violations s\<rparr>))"
      using assms ck(3) unfolding answer_turn_def one ck(1,2) prod.case sum.case option.case if_not_P[OF ck(3)] Let_def viol_def[symmetric] m_def[symmetric] two
      by simp_all
    have "checked_text k (start_answer c viol)" by (simp add: checked_text_def start_answer_def viol_def)
    with correct_loop_sound[OF two] sound have two_sound: "gateway_calls es2 \<le> m" "gateway_calls es1 = Suc (dn_attempt c)" "gateway_calls es1 \<le> 2"
        "completion_attempts es1 = [0..<gateway_calls es1]"
        "case out2 of Inl _ \<Rightarrow> True | Inr s \<Rightarrow> as_retries s = gateway_calls es2 \<and> as_attempt s = dn_attempt c + gateway_calls es2 \<and>
          completion_attempts es2 = [Suc (dn_attempt c)..<Suc (dn_attempt c) + gateway_calls es2] \<and> checked_text k s \<and>
          (as_violations s = [] \<or> gateway_calls es2 = m) \<and> (viol = [] \<longrightarrow> s = start_answer c viol)"
      by (auto simp: ck start_answer_def simp del: upt_Suc split: sum.splits)
    have "m \<le> 2" by (simp add: m_def)
    show ?thesis
    proof (cases out2)
      case (Inl x)
      with e two_sound(1-3) \<open>m \<le> 2\<close> show ?thesis by simp
    next
      case (Inr s)
      with two_sound(5) have s: "as_retries s = gateway_calls es2" "as_attempt s = dn_attempt c + gateway_calls es2" "checked_text k s"
          "as_violations s = [] \<or> gateway_calls es2 = m" "viol = [] \<longrightarrow> s = start_answer c viol"
          "completion_attempts es2 = [Suc (dn_attempt c)..<Suc (dn_attempt c) + gateway_calls es2]" by simp_all
      have "viol = [] \<longrightarrow> as_retries s = 0 \<and> as_violations s = []" using s(5) by (auto simp: start_answer_def)
      moreover have "completion_attempts es = [0..<gateway_calls es]"
        unfolding e(1) completion_attempts_append completion_attempts.simps log_simps two_sound(4) s(6)
        using two_sound(2) upt_add_eq_append[of 0 "gateway_calls es1" "gateway_calls es2"] by simp
      ultimately show ?thesis using s(1-4) e two_sound(1-3) \<open>m \<le> 2\<close> Inr ck(2) by (simp add: checked_text_def m_def)
    qed
  qed
qed

lemma document_labels:
  "c \<in> set (tv_labels (served_turn merged blocks)) \<longleftrightarrow>
   (\<exists>(collection, h) \<in> set merged. c = collection @ ''/'' @ sh_chunk_id h \<or> c = sh_source_path h)"
  by (auto simp: served_turn_def)

text \<open>C39. The two citation checks of a turn disagree about sealed rows. When the runbook asks for the citation
  check and the turn served a table of a sealed artifact, an answer that cites a row as the context labels it, as one
  of its bracketed labels, is accepted by the evidence check and reported by the document check of the same
  turn: that check takes every bracketed label with a slash for a document label, and what a turn counts as its
  labels are those of its documents alone. (The answer is prose without opening brackets and labels without closing ones,
  the artifact id is not empty and has no hash sign, the row label is not empty, neither has a line break, and no document
  of the turn is named like the citation.)\<close>

theorem sealed_citation_always_blamed:
  assumes "vf_citations v" "plain_pieces pieces" "CHR ''['' \<notin> set tail"
    and "(n, CompleteTable t) \<in> set blocks" "tb_evidence_id t = Some ev" "i < length (tb_rows t)"
    and "ev \<noteq> []" "CHR ''#'' \<notin> set ev" "table_row_id t i \<noteq> []" "CHR 0x0A \<notin> set ev" "CHR 0x0A \<notin> set (table_row_id t i)"
    and "row_citation ev (table_row_id t i) \<in> set (map (trim \<circ> snd) pieces)"
    and "list_all (\<lambda>(collection, h). row_citation ev (table_row_id t i) \<notin> {collection @ ''/'' @ sh_chunk_id h, sh_source_path h}) merged"
  shows "''citation: '' @ row_citation ev (table_row_id t i) \<in> set (run_checks read v (served_turn merged (Some blocks)) (cited_text pieces tail)) \<and>
    row_citation ev (table_row_id t i) \<notin> set (check_evidence_citations (cited_text pieces tail) (tv_evidence (served_turn merged (Some blocks))))"
proof
  let ?c = "row_citation ev (table_row_id t i)" and ?served = "served_turn merged (Some blocks)"
  have "?c \<notin> set (tv_labels ?served)" using assms(13) unfolding document_labels by (auto simp: list_all_iff)
  then have "?c \<in> set (check_citations (cited_text pieces tail) (tv_labels ?served))"
    using assms(10-12) sort_dedup_props by (auto simp: check_citations_def bracket_tokens_cited[OF assms(2,3)] row_citation_def)
  with assms(1) show "''citation: '' @ ?c \<in> set (run_checks read v ?served (cited_text pieces tail))" by (simp add: run_checks_def)
  show "?c \<notin> set (check_evidence_citations (cited_text pieces tail) (tv_evidence ?served))"
    using row_citation_accepted[OF assms(4,5,7,8,6,9)] by (simp add: served_turn_def)
qed

text \<open>A layer that composition dropped still counts as served: the model saw nothing of the table, and a
  citation of its rows passes the evidence check.\<close>

lemma dropped_rows_count_as_served:
  assumes "(n, CompleteTable t) \<in> set blocks" "tb_evidence_id t = Some ev" "ev \<noteq> []" "CHR ''#'' \<notin> set ev" "i < length (tb_rows t)" "table_row_id t i \<noteq> []"
  shows "co_context (compose_hierarchy ser plan blocks 0 docs) = [] \<and>
    row_citation ev (table_row_id t i) \<notin> set (check_evidence_citations answer (tv_evidence (served_turn merged (Some blocks))))"
proof -
  have z: "byte_len s = 0 \<Longrightarrow> s = []" for s by (cases s) (auto simp: byte_len_def split: if_splits)
  have "byte_len (co_context (compose_hierarchy ser plan blocks 0 docs)) \<le> 0"
    using compose_fold[of ser plan docs "[]" "[]" "\<lparr>co_context = [], co_layers_used = 0, co_layers_dropped = []\<rparr>" 0 blocks]
    by (auto simp: compose_hierarchy_def[symmetric] composes_def byte_len_def[of "[]"])
  with z row_citation_accepted[OF assms, of answer] show ?thesis by (simp add: served_turn_def)
qed

text \<open>Assertions are checked, but the corrective prompt lists quotes and citations only.\<close>

lemma assertion_violations_unlisted:
  assumes "list_all (\<lambda>x. starts_with x ''assertion: '') (as_violations s)"
  shows "repair_prompt k prompt s = corrective_prompt (tk_dash k) (tk_print k) prompt (cr_text (as_response s)) [] []"
proof -
  have n: "strip_prefix ''quote: '' x = None" "strip_prefix ''citation: '' x = None" if "starts_with x ''assertion: ''" for x
    using that by (cases x; simp add: strip_prefix_def starts_with_def; fail)+
  have "List.map_filter (strip_prefix ''quote: '') (as_violations s) = []" "List.map_filter (strip_prefix ''citation: '') (as_violations s) = []"
    using assms n by (induction "as_violations s") (auto simp: List.map_filter_def filter_empty_conv list_all_iff)
  then show ?thesis by (simp add: repair_prompt_def)
qed

text \<open>A turn whose model keeps citing a chunk nobody served: two paid calls, one violation left.\<close>

definition demo_checks :: turn_checks where
  "demo_checks = \<lparr>tk_read = (\<lambda>_. Inr []), tk_parse = (\<lambda>_. None), tk_print = (\<lambda>_. ''{}''), tk_dash = ''-'',
     tk_spec = \<lparr>vf_quotes = False, vf_citations = True, vf_max_retries = 1\<rparr>,
     tk_served = \<lparr>tv_texts = [], tv_labels = [''kb/c1''], tv_evidence = []\<rparr>\<rparr>"

definition demo_reply :: complete_response where
  "demo_reply = \<lparr>cr_text = ''see [kb/c9]'', cr_stop_reason = ''stop'', cr_input_tokens = 10, cr_output_tokens = 5, cr_provider = ''local'', cr_model = ''m''\<rparr>"

lemma demo_reply_checked: "run_checks (tk_read demo_checks) (tk_spec demo_checks) (tk_served demo_checks) ''see [kb/c9]'' = [''citation: kb/c9'']"
proof -
  have "trim ''kb/c9'' = ''kb/c9''" by (rule trim_id) (simp add: is_ws_def)
  then have b: "bracket_tokens ''see [kb/c9]'' = [''kb/c9'']"
    using bracket_tokens_step[of "''see ''" "''kb/c9''" "[]"] by (simp add: bracket_tokens_none)
  have p: "parse_evidence_ref ''kb/c9'' = None" by (simp add: parse_evidence_ref_def strip_prefix_def starts_with_def)
  have e: "find_sub ''see [kb/c9]'' ASSERTIONS_FENCE = None" by code_simp
  have c: "check_citations ''see [kb/c9]'' [''kb/c1''] = [''kb/c9'']" unfolding check_citations_def b sort_dedup_def by simp
  have v: "check_evidence_citations ''see [kb/c9]'' [] = []" unfolding check_evidence_citations_def b sort_dedup_def by (simp add: p)
  have x: "extract_assertions (\<lambda>_. Inr []) ''see [kb/c9]'' = Inr []" unfolding extract_assertions_def e by simp
  have d: "tk_read demo_checks = (\<lambda>_. Inr [])" "\<not> vf_quotes (tk_spec demo_checks)" "vf_citations (tk_spec demo_checks)"
      "tv_labels (tk_served demo_checks) = [''kb/c1'']" "tv_evidence (tk_served demo_checks) = []" by (simp_all add: demo_checks_def)
  show ?thesis unfolding run_checks_def d c v x if_not_P[OF d(2)] by (simp add: d(3) check_assertions_def)
qed

lemma demo_reply_complete: "completion_truncated demo_reply = Inr False" "narrative_answer (\<lambda>_. None) (cr_text demo_reply) = Inr ''see [kb/c9]''"
proof -
  have "trim ''see [kb/c9]'' \<noteq> []" using trim_id[of "''see [kb/c9]''"] by (simp add: is_ws_def)
  then show "completion_truncated demo_reply = Inr False" by (simp add: completion_truncated_def demo_reply_def)
  show "narrative_answer (\<lambda>_. None) (cr_text demo_reply) = Inr ''see [kb/c9]''" by (simp add: narrative_answer_def demo_reply_def)
qed

lemma demo_answer: "\<exists>es s f. answer_turn (Some demo_checks) (\<lambda>_ _ _. Inr demo_reply) (\<lambda>_. None) ''hi'' 100 = (es, Inr (s, Some f)) \<and> tf_retries f = 1"
proof -
  have u: "cr_input_tokens demo_reply = 10" "cr_output_tokens demo_reply = 5" by (simp_all add: demo_reply_def)
  have c: "complete_turn_answer (\<lambda>_ _ _. Inr demo_reply) (\<lambda>_. None) ''hi'' 100 = ([GatewayCall 0 ''hi'' 100, completion_event 0 demo_reply],
      Inr \<lparr>dn_response = demo_reply\<lparr>cr_text := ''see [kb/c9]''\<rparr>, dn_budget = 100, dn_attempt = 0, dn_input_tokens = 10, dn_output_tokens = 5\<rparr>)"
  proof -
    have "checked_add 0 10 = Some 10" "checked_add 0 5 = Some 5" by (simp_all add: checked_add_def u64_max_def)
    moreover have "answer_loop 2 = answer_loop (Suc 1)" by (simp add: numeral_2_eq_2)
    ultimately show ?thesis unfolding complete_turn_answer_def by (simp add: u demo_reply_complete called_def del: checked_add_Some)
  qed
  have k: "tk_parse demo_checks = (\<lambda>_. None)" "vf_citations (tk_spec demo_checks)" "min (vf_max_retries (tk_spec demo_checks)) 2 = Suc 0"
    by (simp_all add: demo_checks_def)
  show ?thesis
    by (simp add: answer_turn_def c k(2,3) demo_reply_checked start_answer_def k(1) demo_reply_complete Let_def called_def)
qed

lemma answer_recorded_truthfully_witness:
  "\<exists>es s f. answer_turn (Some demo_checks) (\<lambda>_ _ _. Inr demo_reply) (\<lambda>_. None) ''hi'' 100 = (es, Inr (s, Some f)) \<and>
    gateway_calls es \<le> 3 \<and> completion_attempts es = [0..<gateway_calls es] \<and>
    tf_violations f = run_checks (tk_read demo_checks) (tk_spec demo_checks) (tk_served demo_checks) (cr_text (as_response s)) \<and> tf_retries f = 1"
  using demo_answer
proof (elim exE conjE)
  fix es s f
  assume a: "answer_turn (Some demo_checks) (\<lambda>_ _ _. Inr demo_reply) (\<lambda>_. None) ''hi'' 100 = (es, Inr (s, Some f))" "tf_retries f = 1"
  from answer_recorded_truthfully[OF a(1)] a show ?thesis by (intro exI[of _ es] exI[of _ s] exI[of _ f]) simp
qed

lemma sealed_citation_always_blamed_witness:
  "''citation: evidence/e1#r0002'' \<in> set (run_checks (\<lambda>_. Inr []) \<lparr>vf_quotes = False, vf_citations = True, vf_max_retries = 1\<rparr>
     (served_turn [] (Some [(''register'', CompleteTable demo_table)])) (cited_text [(''north '', ''evidence/e1#r0002'')] ''.''))"
proof -
  have c: "row_citation ''e1'' (table_row_id demo_table 1) = ''evidence/e1#r0002''" unfolding demo_row_id by (simp add: row_citation_def)
  have t: "trim ''evidence/e1#r0002'' = ''evidence/e1#r0002''" by (rule trim_id) (simp_all add: is_ws_def)
  have "''citation: '' @ row_citation ''e1'' (table_row_id demo_table 1) \<in> set (run_checks (\<lambda>_. Inr []) \<lparr>vf_quotes = False, vf_citations = True, vf_max_retries = 1\<rparr>
     (served_turn [] (Some [(''register'', CompleteTable demo_table)])) (cited_text [(''north '', ''evidence/e1#r0002'')] ''.''))"
    by (rule sealed_citation_always_blamed[where n = "''register''" and t = demo_table, THEN conjunct1])
      (simp_all only: c t demo_row_id, simp_all add: plain_pieces_def t demo_table_def row_citation_def)
  then show ?thesis by (simp only: c) simp
qed

end
