(* ===== verification/Spec2Isabelle.thy ===== *)
theory Spec2Isabelle
  imports Ledger Similarity Gates Registers Digests Governance Mem_Properties Budget_Properties Chronology_Properties Runbook_Live Evidence_Run Authority_Run Activation_Run Money Turn_Answer
begin

text \<open>
  Munarium: a model of the deterministic core of the memory server, and the theorems that make it correct.
  Paths below are relative to \<open>src/server/src/\<close>.

  \<^bold>\<open>The program.\<close> Munarium keeps a ledger of facts per memory version, answers reads pinned at a sequence
  number, refuses or flags candidate facts through gates, and puts the facts, sealed artifacts and documents of a
  turn before a language model whose answer it checks. Its parts and where they are modelled:

  \<^item> \<^bold>\<open>Kernel data.\<close> \<open>Base\<close> (prelude: results, checked integers, the string operations of the Rust library,
    ordered maps, lemmas on lists, the collections \<open>res_simps\<close> and \<open>str_simps\<close>) and \<open>Kernel_Types\<close>
    (\<open>munarium-core/src/types.rs\<close>, \<open>error.rs\<close>, and JSON values).
  \<^item> \<^bold>\<open>The fact ledger.\<close> \<open>Ledger\<close> (\<open>ledger.rs\<close>: comparison of texts, resolution of a slice), \<open>Similarity\<close>
    (\<open>similarity.rs\<close>), \<open>Gates\<close> (\<open>gates.rs\<close>, the five gates), \<open>Registers\<close> (\<open>promises.rs\<close>, \<open>counters.rs\<close>),
    \<open>Digests\<close> (\<open>digests.rs\<close>), \<open>Governance\<close> (\<open>governance.rs\<close>, profiles carried by versions), \<open>Storage\<close>
    (\<open>storage.rs\<close>, the trait and \<open>load_snapshot\<close>), \<open>Mem_Store\<close> (\<open>munarium-store-mem/src/lib.rs\<close>, every operation),
    with \<open>Mem_Invariant\<close>, \<open>Mem_Pins\<close> and \<open>Mem_Properties\<close> on its reachable states.
  \<^item> \<^bold>\<open>The chronology gate.\<close> \<open>Chronology\<close> (\<open>chrono_gate.rs\<close>: date grammar, rules, timeline) and
    \<open>Chronology_Properties\<close>.
  \<^item> \<^bold>\<open>Money.\<close> \<open>Budget\<close> (\<open>budget.rs\<close> of the core and of the in-memory store: reservations against a daily
    ceiling, settlement, corrections, the ledger view), \<open>Budget_Properties\<close>, and \<open>Money\<close> (\<open>money.rs\<close>, the exact cost
    of a call).
  \<^item> \<^bold>\<open>Runbooks.\<close> \<open>Runbook_Research\<close>, \<open>Runbook_Doc\<close> and \<open>Runbook_Validate\<close> (\<open>munarium-runbooks/src/\<close>
    \<open>research.rs\<close>, \<open>lib.rs\<close>, \<open>validate.rs\<close>); \<open>Runbook_Runs\<close> (\<open>munarium-server/src/runbooks_api.rs\<close>: plan, checkpoint
    rows, the walk, start and approval); \<open>Runbook_Plan\<close>, \<open>Runbook_Properties\<close>, \<open>Runbook_Walk\<close> and
    \<open>Runbook_Live\<close> on what validation, plans and runs guarantee.
  \<^item> \<^bold>\<open>Sealed evidence.\<close> \<open>Access\<close> (\<open>munarium-access/src/lib.rs\<close>, the source addresses of \<open>sources.rs\<close> and the blob
    store), \<open>Evidence\<close> (\<open>evidence.rs\<close> of the core and of the in-memory store), \<open>Evidence_Api\<close>
    (\<open>munarium-server/src/evidence_api.rs\<close>); \<open>Evidence_Properties\<close>, \<open>Evidence_Lifecycle\<close>, \<open>Evidence_Run\<close>.
  \<^item> \<^bold>\<open>The platform's authority and accountability.\<close> \<open>Canonical\<close> (canonical records and digests of \<open>platform.rs\<close>),
    \<open>Authority\<close> (\<open>platform_authority.rs\<close> of the core and of the in-memory store) with \<open>Authority_Properties\<close> and
    \<open>Authority_Run\<close>; \<open>Actions\<close>, \<open>Action_Ledger\<close>, \<open>Action_Events\<close>, \<open>Action_Activation\<close>, \<open>Action_Checkpoint\<close>
    (\<open>munarium-core/src/platform_actions/\<close>: \<open>mod.rs\<close>, \<open>ledger.rs\<close> in two theories, \<open>ledger/activation.rs\<close>,
    \<open>ledger/checkpoint.rs\<close>); \<open>Action_Log\<close>, \<open>Action_Steps\<close>, \<open>Action_Runs\<close>, \<open>Action_History\<close>,
    \<open>Action_Refine\<close>, \<open>Action_Properties\<close>, \<open>Action_Replay\<close>; \<open>Action_Run\<close> and \<open>Activation_Run\<close> are concrete histories.
  \<^item> \<^bold>\<open>Turns.\<close> \<open>Composer\<close> (\<open>composer.rs\<close>, \<open>model_evidence.rs\<close>: the brief under a token budget), \<open>Hierarchy\<close>
    (\<open>hierarchy.rs\<close>), \<open>Evidence_Plan\<close> and \<open>Evidence_Compose\<close> (\<open>munarium-server/src/evidence_hierarchy.rs\<close>: plan,
    execution, composition, what was served), \<open>Grounding\<close> (\<open>verification.rs\<close>: quotes, citations, assertions),
    \<open>Turn_Answer\<close> (\<open>sessions_api.rs\<close>: completion with its retry, checks, corrections).

  \<^bold>\<open>How they interact.\<close> The gates read a snapshot that the store assembles (\<open>load_snapshot\<close> over \<open>slice_facts\<close>,
  \<open>anchors\<close>, \<open>promises\<close>, \<open>counter_totals\<close>, \<open>digests\<close>) with the comparison policy a version's governance profile names. The
  action ledger keeps its records as claims of one version of the store, through the four calls of
  \<open>fact_backend\<close>. The evidence plane acts on the evidence store and the blob store together. A turn runs the plan of a
  runbook's research profile over providers, composes their blocks, and checks the answer against what was served.
\<close>

section \<open>How the code is modelled\<close>

text \<open>
  \<^bold>\<open>Data.\<close> A struct is a \<open>record\<close> with prefixed fields, an enum a \<open>datatype\<close>, a string a list of characters
  of the Latin-1 block (see \<open>Base\<close>; where the code counts bytes, the count of the UTF-8 encoding is used), a
  \<open>u64\<close> or \<open>u32\<close> a natural number whose checked, saturating or wrapping operations are written out
  (\<open>checked_add\<close>, \<open>wrap_add\<close>), an \<open>f64\<close> a rational number, a \<open>BTreeMap\<close> a sorted association
  list, a \<open>HashMap\<close> a map whose iteration order, where the code depends on it, is an argument.

  \<^bold>\<open>Errors and state.\<close> A fallible operation returns \<open>error + result\<close>; every early return is a branch. Where a
  failure cannot have written, \<open>Inl\<close> carries no state; in the evidence plane, the runbooks, the authority and
  the action ledger it can, and the state is always returned.

  \<^bold>\<open>Interleaving.\<close> The in-memory stores take a lock per call, so a call on them is one step, and their reachable
  states are those of any sequence of such steps. Ledger calls await the store several times: \<open>others k\<close> is what
  other tasks do before await \<open>k\<close>, and the theorems hold for every \<open>others\<close> made of ledger calls and writes to other
  versions. The calls of the evidence plane run one after the other, except that hold calls may fall between the
  awaits of an operator's purge and, in a sweep, between its artifacts (\<open>Evidence_Lifecycle\<close>); other
  overlaps there are outside. A run of a runbook holds an advisory lock; between its calls another edition of the
  document may be applied in place.

  \<^bold>\<open>Parameters.\<close> What is not under \<open>src\<close>, or is chosen by the environment, is an argument: the JSON printer and
  reader, SHA-256, the schema validator, JWT, Ed25519, base64, YAML, RFC 3339, the calendar, clocks and identity generators,
  evidence providers, document search, the model gateway, the services a runbook step calls. What a property relies on is a
  named hypothesis (\<open>gov_env_ok\<close>, \<open>codec_ok\<close>, \<open>stream_shape\<close>, \<open>services_answer\<close> and so on), and its witness
  instantiates the parameter with a concrete function.

  \<^bold>\<open>Bounds and fuel.\<close> The ledger's optimistic loops make 32 attempts as in the code, recursion is on the attempts left; each
  attempt has four awaits of its own, so the first loop of a call uses the awaits below 128 and the second
  those from 128 on. A completion has at most two attempts and a turn at most two corrections, again the recursion's
  argument. The lineage walk has one more unit of fuel than there are versions, and it ends within it in every reachable store
  (C5). All other recursions are on the data or have a termination proof.
\<close>

section \<open>Interfaces\<close>

text \<open>
  Contracts are locales, each interpreted on the model's own definitions: \<open>keyed_store\<close> (\<open>bt\<close>, the ordered map),
  \<open>comparison\<close> (\<open>cmp\<close>, the equivalence of texts under a policy), \<open>pinned_backend\<close> (\<open>mem\<close>: what \<open>load_snapshot\<close> needs of
  a store, given by the in-memory one), \<open>spend_cap\<close> (\<open>cap\<close>, a counted quantity under a ceiling), \<open>idempotent_log\<close>
  (\<open>row_log\<close> and \<open>store_log\<close>, corrections of one reservation and of the store), \<open>simple_security\<close> (\<open>collections\<close> and
  \<open>evidence\<close>, the two clearance checks), \<open>protected_log\<close> (\<open>mem_log\<close>: what the action ledger needs of the facts of its
  version). \<open>severity\<close> is an instance of \<open>linorder\<close>.
\<close>

section \<open>What is proved\<close>

text \<open>
  \<^item> C1 to C3: what a slice holds at a pin and which claims the gates block, exactly.
  \<^item> C4 to C8: governance profiles are read back, the lineage walk ends, batches refine single appends, claims are
    append-only, pinned facts, anchors and promises replay (counter totals need not).
  \<^item> C9 to C12: budgets under any interleaving of their calls: ceiling, first writer, corrections, ledger view.
  \<^item> C13 to C15: date intervals, wildcard keys, and violations of chronology rules, exactly.
  \<^item> C16 to C18: gates hold while every edition asks for them, a valid runbook completes, and a missing build
    strands a run.
  \<^item> C19 to C23: sealed rows survive, reads are cleared and serve the seal, a grant is spent once, what a legal
    hold blocks and what it does not, and where bytes are kept.
  \<^item> C24 to C26: the history of the authority is linear, installations are authorised, retired keys stay powerless.
  \<^item> C27 to C32: the action ledger's calls are atomic; its reachable logs refine abstract histories with
    chained streams, one account per attempt, authorised outcomes and chained activation epochs; recording is idempotent.
  \<^item> C33 to C40: the brief under a budget, the execution and composition of a plan, citations and
    assertions, the bookkeeping of a turn's answer, and exact costs.

  Several theorems pin down behaviour that departs from what the code's own text promises: an empty pattern that
  matches everything (C14), a document edition that releases a gate (C16), a stranded run (C18), a hold that
  comes too late for a purge under way (C22), a plane left out of a mixed layer (C34), a row label that
  cannot be cited (C36), a row citation that one of two checks always reports (C39).
\<close>

section \<open>What is not modelled\<close>

text \<open>
  The HTTP, gRPC and dashboard surface, configuration and supervision; the stores over PostgreSQL and object storage, whose
  operations are statements of other systems (the in-memory stores, their reference, are modelled); retrieval and the
  embedded index (\<open>munarium-retrieval\<close>, \<open>munarium-datastore\<close>: floating-point ranking, files, threads); text
  extraction, ingestion and authoring; provider clients; identity; wire types; clients and the conformance suite. Of modelled
  files: the \<open>EventLedger\<close> of \<open>platform.rs\<close> (the same loop as the action ledger's), \<open>resolve_intent\<close> and the wire form of a decision in
  \<open>evidence_hierarchy.rs\<close>, query expansion, sessions and persistence of a turn in \<open>sessions_api.rs\<close>, and the SQL and
  HTTP parts of \<open>runbooks_api.rs\<close>.
\<close>

end
